(* ===== verification/Prelude.thy ===== *)
theory Prelude
  imports Main "HOL-Library.Word"
begin

text \<open>
  Shared vocabulary of the development: the fixed-width integer types of the C++ sources
  (\<^verbatim>\<open>uint8_t\<close> and friends as machine words), the little-endian byte codecs every wire
  format of the repository uses, and the generic facts on lists and words that the component
  theories share.

  Three fact collections drive the component proofs: \<open>codec_simps\<close> (round trips and lengths of
  the byte codecs), \<open>step_defs\<close> (definitions of state-changing operations) and \<open>inv_intros\<close>
  (preservation of invariants).
\<close>

unbundle bit_operations_syntax

named_theorems codec_simps \<open>round trips and lengths of byte codecs\<close>
named_theorems step_defs \<open>definitions of state-changing operations\<close>
named_theorems inv_intros \<open>operations preserve their component's invariant\<close>

section \<open>Machine integers\<close>

type_synonym u8 = "8 word"
type_synonym u16 = "16 word"
type_synonym u32 = "32 word"
type_synonym u64 = "64 word"
type_synonym bytes = "u8 list"

lemma mask8_numeral: "(0xFF :: 'a::len word) = mask 8"
  by (simp add: mask_eq_exp_minus_1)

lemma ucast_and_0xFF: "(ucast (v AND 0xFF) :: u8) = ucast v"
  by (rule bit_word_eqI) (auto simp: bit_simps mask8_numeral dest: bit_imp_le_length)

section \<open>Little-endian codecs\<close>

text \<open>
  \<^verbatim>\<open>putU16LE\<close>/\<^verbatim>\<open>putU32LE\<close> store a value byte by byte; \<^verbatim>\<open>getU16LE\<close>/\<^verbatim>\<open>getU32LE\<close> widen the
  bytes and OR them together. A pointer into a buffer is the list that starts there; the
  callers test the length first.
\<close>

definition putU16LE :: "u16 \<Rightarrow> bytes" where
  "putU16LE v = [ucast (v AND 0xFF), ucast (drop_bit 8 v AND 0xFF)]"

definition putU32LE :: "u32 \<Rightarrow> bytes" where
  "putU32LE v =
     [ucast (v AND 0xFF), ucast (drop_bit 8 v AND 0xFF),
      ucast (drop_bit 16 v AND 0xFF), ucast (drop_bit 24 v AND 0xFF)]"

definition getU16LE :: "bytes \<Rightarrow> u16" where
  "getU16LE p = ucast (p ! 0) OR push_bit 8 (ucast (p ! 1))"

definition getU32LE :: "bytes \<Rightarrow> u32" where
  "getU32LE p =
     ucast (p ! 0) OR push_bit 8 (ucast (p ! 1)) OR push_bit 16 (ucast (p ! 2))
       OR push_bit 24 (ucast (p ! 3))"

lemma length_putU16LE [simp, codec_simps]: "length (putU16LE v) = 2"
  by (simp add: putU16LE_def)

lemma length_putU32LE [simp, codec_simps]: "length (putU32LE v) = 4"
  by (simp add: putU32LE_def)

lemma getU16LE_putU16LE [simp, codec_simps]: "getU16LE (putU16LE v @ rest) = v"
  unfolding getU16LE_def putU16LE_def ucast_and_0xFF
  by (rule bit_word_eqI) (auto simp: bit_simps)

lemma getU32LE_putU32LE [simp, codec_simps]: "getU32LE (putU32LE v @ rest) = v"
  unfolding getU32LE_def putU32LE_def ucast_and_0xFF
  apply (rule bit_word_eqI)
  subgoal for n
    by (cases "24 \<le> n"; cases "16 \<le> n"; cases "8 \<le> n") (auto simp: bit_simps)
  done

lemmas getU16LE_putU16LE_Nil [simp] = getU16LE_putU16LE [of _ "[]", simplified]
lemmas getU32LE_putU32LE_Nil [simp] = getU32LE_putU32LE [of _ "[]", simplified]

lemma putU16LE_getU16LE: "putU16LE (getU16LE (a # b # p)) = [a, b]"
  unfolding getU16LE_def putU16LE_def ucast_and_0xFF
  by (simp, intro conjI; rule bit_word_eqI) (auto simp: bit_simps dest: bit_imp_le_length)

lemma putU32LE_getU32LE: "putU32LE (getU32LE (a # b # c # d # p)) = [a, b, c, d]"
  unfolding getU32LE_def putU32LE_def ucast_and_0xFF
  by (simp, intro conjI; rule bit_word_eqI) (auto simp: bit_simps dest: bit_imp_le_length)

lemma putU32LE_inject [simp]: "putU32LE v = putU32LE w \<longleftrightarrow> v = w"
  by (metis getU32LE_putU32LE_Nil)

lemma putU16LE_inject [simp]: "putU16LE v = putU16LE w \<longleftrightarrow> v = w"
  by (metis getU16LE_putU16LE_Nil)

lemma getU16LE_append: "2 \<le> length p \<Longrightarrow> getU16LE (p @ q) = getU16LE p"
  by (cases p) (auto simp: getU16LE_def nth_append)

lemma getU32LE_append: "4 \<le> length p \<Longrightarrow> getU32LE (p @ q) = getU32LE p"
  by (cases p) (auto simp: getU32LE_def nth_append)

lemma take_getU32LE: "4 \<le> length p \<Longrightarrow> putU32LE (getU32LE p) = take 4 p"
  by (cases p rule: list.exhaust; cases "tl p" rule: list.exhaust;
      cases "tl (tl p)" rule: list.exhaust; cases "tl (tl (tl p))" rule: list.exhaust)
    (auto simp: putU32LE_getU32LE)

text \<open>A 64-bit field, as the little-endian host copies it in and out of a packed buffer.\<close>

definition putU64LE :: "u64 \<Rightarrow> bytes" where
  "putU64LE v = putU32LE (ucast v) @ putU32LE (ucast (drop_bit 32 v))"

definition getU64LE :: "bytes \<Rightarrow> u64" where
  "getU64LE p = ucast (getU32LE p) OR push_bit 32 (ucast (getU32LE (drop 4 p)))"

lemma length_putU64LE [simp, codec_simps]: "length (putU64LE v) = 8"
  by (simp add: putU64LE_def)

lemma getU64LE_putU64LE [simp, codec_simps]: "getU64LE (putU64LE v @ rest) = v"
proof -
  have "getU64LE (putU64LE v @ rest)
      = ucast (ucast v :: u32) OR push_bit 32 (ucast (ucast (drop_bit 32 v) :: u32))"
    by (simp add: getU64LE_def putU64LE_def)
  also have "\<dots> = v"
    by (rule bit_word_eqI) (auto simp: bit_simps)
  finally show ?thesis .
qed

section \<open>Copies into a buffer\<close>

text \<open>\<^verbatim>\<open>memcpy(dst + off, src, n)\<close> on a buffer that has room for it.\<close>

definition memcpy_at :: "nat \<Rightarrow> 'a list \<Rightarrow> 'a list \<Rightarrow> 'a list" where
  "memcpy_at off src dst = take off dst @ src @ drop (off + length src) dst"

lemma length_memcpy_at [simp]:
  "off + length src \<le> length dst \<Longrightarrow> length (memcpy_at off src dst) = length dst"
  by (simp add: memcpy_at_def)

lemma memcpy_at_append:
  "length a = off \<Longrightarrow> memcpy_at off src (a @ b) = a @ src @ drop (length src) b"
  by (simp add: memcpy_at_def)

lemma memcpy_at_Nil [simp]: "memcpy_at off [] dst = dst"
  by (simp add: memcpy_at_def)

section \<open>Words as numbers\<close>

lemma unat_ucast_le: "LENGTH('a::len) \<le> LENGTH('b::len) \<Longrightarrow> unat (ucast (x :: 'a word) :: 'b word) = unat x"
proof -
  assume a: "LENGTH('a) \<le> LENGTH('b)"
  have "unat x < 2 ^ LENGTH('a)" by (rule unsigned_less)
  also have "\<dots> \<le> 2 ^ LENGTH('b)" using a by (rule power_increasing) simp
  finally show ?thesis by (simp add: unsigned_ucast_eq take_bit_nat_eq_self)
qed

lemma unat_of_nat_lt: "n < 2 ^ LENGTH('a::len) \<Longrightarrow> unat (of_nat n :: 'a word) = n"
  by (simp add: unsigned_of_nat take_bit_nat_eq_self)

lemma word_gt_0_unat: "(0 :: 'a::len word) < w \<longleftrightarrow> 0 < unat w"
  by (simp add: word_less_nat_alt)

section \<open>Fixed-size wire structures\<close>

text \<open>
  The contract of every fixed-size record of the wire formats: \<open>enc\<close> writes exactly \<open>sz\<close> bytes
  and \<open>dec\<close> reads them back from the front of a buffer, whatever follows. The components that
  provide such a record interpret the locale; the code that copies records in and out of
  payloads and streams relies on it only.
\<close>

locale wire_codec =
  fixes enc :: "'a \<Rightarrow> bytes"
    and dec :: "bytes \<Rightarrow> 'a"
    and sz :: nat
  assumes enc_len: "length (enc x) = sz"
    and dec_enc: "dec (enc x @ rest) = x"
begin

lemma enc_inj: "enc x = enc y \<longleftrightarrow> x = y"
  by (metis dec_enc)

lemma dec_at: "length pre = off \<Longrightarrow> dec (drop off (pre @ enc x @ rest)) = x"
  by (simp add: dec_enc)

lemma length_concat: "length (concat (map enc xs)) = sz * length xs"
  by (induction xs) (simp_all add: enc_len)

lemma dec_concat: "i < length xs \<Longrightarrow> dec (drop (i * sz) (concat (map enc xs) @ rest)) = xs ! i"
proof (induction xs arbitrary: i)
  case (Cons x xs)
  then show ?case
    by (cases i) (simp_all add: dec_enc enc_len)
qed simp

end

end
