(* ===== verification/Crc16.thy ===== *)
theory Crc16
  imports Prelude
begin

text \<open>
  CRC-16/CCITT-FALSE, the integrity check of both SPI links. The repository carries three
  hand-written copies: \<^verbatim>\<open>sb_crc16\<close> (libs/hwinterface/protocol.h, the audio link),
  \<^verbatim>\<open>crc16_ccitt\<close> in the northbridge firmware (Firmware/northbridge/src/dspi.cpp) and
  \<^verbatim>\<open>northbridge::crc16_ccitt\<close> on the host (libs/hwinterface/northbridge.cpp). They are modelled
  separately, with the loops as they are written; they are shown equal, and the common
  function is shown to detect every corruption confined to two adjacent bytes.
\<close>

section \<open>The three copies\<close>

text \<open>One round of the inner loop, the same expression in all copies: shift left and, if the
  top bit was set, XOR the polynomial. The C expression is computed in \<^verbatim>\<open>int\<close> and truncated to 16
  bits, which is the wrapping word operation.\<close>

definition crc_bit :: "u16 \<Rightarrow> u16" where
  "crc_bit crc =
     (if crc AND 0x8000 \<noteq> 0 then push_bit 1 crc XOR 0x1021 else push_bit 1 crc)"

fun crc_bits :: "nat \<Rightarrow> u16 \<Rightarrow> u16" where
  "crc_bits 0 crc = crc"
| "crc_bits (Suc n) crc = crc_bits n (crc_bit crc)"

text \<open>\<^verbatim>\<open>while (len--) { crc ^= (uint16_t)(*buf++) << 8; ... }\<close>: the pointer moves along the list.\<close>

fun sb_crc16_loop :: "bytes \<Rightarrow> nat \<Rightarrow> u16 \<Rightarrow> u16" where
  "sb_crc16_loop buf 0 crc = crc"
| "sb_crc16_loop buf (Suc len) crc =
     sb_crc16_loop (tl buf) len (crc_bits 8 (crc XOR push_bit 8 (ucast (hd buf))))"

definition sb_crc16 :: "bytes \<Rightarrow> nat \<Rightarrow> u16" where
  "sb_crc16 buf len = sb_crc16_loop buf len 0xFFFF"

text \<open>\<^verbatim>\<open>for (size_t i = 0; i < len; ++i)\<close>, indexing the buffer (the firmware's copy).\<close>

function dspi_crc16_loop :: "bytes \<Rightarrow> nat \<Rightarrow> nat \<Rightarrow> u16 \<Rightarrow> u16" where
  "dspi_crc16_loop data len i crc =
     (if i < len
      then dspi_crc16_loop data len (Suc i) (crc_bits 8 (crc XOR push_bit 8 (ucast (data ! i))))
      else crc)"
  by pat_completeness auto
termination by (relation "measure (\<lambda>(data, len, i, crc). len - i)") auto

declare dspi_crc16_loop.simps [simp del]

definition dspi_crc16_ccitt :: "bytes \<Rightarrow> nat \<Rightarrow> u16" where
  "dspi_crc16_ccitt data len = dspi_crc16_loop data len 0 0xFFFF"

text \<open>The host's copy has the same loop shape and its own inner loop counter.\<close>

function crc16_ccitt_loop :: "bytes \<Rightarrow> nat \<Rightarrow> nat \<Rightarrow> u16 \<Rightarrow> u16" where
  "crc16_ccitt_loop data len i crc =
     (if i < len
      then crc16_ccitt_loop data len (Suc i) (crc_bits 8 (crc XOR push_bit 8 (ucast (data ! i))))
      else crc)"
  by pat_completeness auto
termination by (relation "measure (\<lambda>(data, len, i, crc). len - i)") auto

declare crc16_ccitt_loop.simps [simp del]

definition crc16_ccitt :: "bytes \<Rightarrow> nat \<Rightarrow> u16" where
  "crc16_ccitt data len = crc16_ccitt_loop data len 0 0xFFFF"

section \<open>One reference function\<close>

definition crc_byte :: "u16 \<Rightarrow> u8 \<Rightarrow> u16" where
  "crc_byte crc b = crc_bits 8 (crc XOR push_bit 8 (ucast b))"

definition crc16 :: "bytes \<Rightarrow> u16" where
  "crc16 data = foldl crc_byte 0xFFFF data"

lemma sb_crc16_loop_foldl:
  "len \<le> length buf \<Longrightarrow> sb_crc16_loop buf len crc = foldl crc_byte crc (take len buf)"
proof (induction len arbitrary: buf crc)
  case (Suc len)
  then show ?case by (cases buf) (auto simp: crc_byte_def)
qed simp

lemma dspi_crc16_loop_foldl:
  "len \<le> length data \<Longrightarrow>
     dspi_crc16_loop data len i crc = foldl crc_byte crc (drop i (take len data))"
proof (induction data len i crc rule: dspi_crc16_loop.induct)
  case (1 data len i crc)
  show ?case
  proof (cases "i < len")
    case True
    then have "drop i (take len data) = data ! i # drop (Suc i) (take len data)"
      using 1(2) by (simp add: Cons_nth_drop_Suc [symmetric])
    with 1 True show ?thesis by (simp add: dspi_crc16_loop.simps [of data len i] crc_byte_def)
  next
    case False
    then show ?thesis by (simp add: dspi_crc16_loop.simps [of data len i])
  qed
qed

lemma crc16_ccitt_loop_dspi: "crc16_ccitt_loop data len i crc = dspi_crc16_loop data len i crc"
proof (induction data len i crc rule: crc16_ccitt_loop.induct)
  case (1 data len i crc)
  then show ?case
    by (simp add: crc16_ccitt_loop.simps [of data len i] dspi_crc16_loop.simps [of data len i])
qed

lemma sb_crc16_eq: "len \<le> length buf \<Longrightarrow> sb_crc16 buf len = crc16 (take len buf)"
  by (simp add: sb_crc16_def crc16_def sb_crc16_loop_foldl)

lemma dspi_crc16_eq: "len \<le> length data \<Longrightarrow> dspi_crc16_ccitt data len = crc16 (take len data)"
  by (simp add: dspi_crc16_ccitt_def crc16_def dspi_crc16_loop_foldl)

lemma crc16_ccitt_eq: "len \<le> length data \<Longrightarrow> crc16_ccitt data len = crc16 (take len data)"
  by (simp add: crc16_ccitt_def crc16_ccitt_loop_dspi crc16_def dspi_crc16_loop_foldl)

section \<open>Linearity and injectivity\<close>

lemma msb_test: "(crc :: u16) AND 0x8000 \<noteq> 0 \<longleftrightarrow> bit crc 15"
proof -
  have "(0x8000 :: u16) = push_bit 15 1"
    by simp
  then show ?thesis
    by (simp only: bit_iff_and_push_bit_not_eq_0)
qed

lemma crc_bit_alt: "crc_bit crc = push_bit 1 crc XOR (if bit crc 15 then 0x1021 else 0)"
  by (simp add: crc_bit_def msb_test)

lemma crc_bit_xor: "crc_bit (a XOR b) = crc_bit a XOR crc_bit b"
  by (rule bit_word_eqI) (auto simp: crc_bit_alt bit_simps split: if_splits)

lemma crc_bits_xor: "crc_bits n (a XOR b) = crc_bits n a XOR crc_bits n b"
  by (induction n arbitrary: a b) (simp_all add: crc_bit_xor)

lemma crc_bit_0_iff: "crc_bit a = 0 \<longleftrightarrow> a = 0"
proof
  assume a: "crc_bit a = 0"
  have bits: "bit (push_bit 1 a) n = bit (if bit a 15 then 0x1021 else 0 :: u16) n" for n
    using arg_cong [where f = "\<lambda>x. bit x n", OF a] by (simp add: crc_bit_alt bit_xor_iff)
  have top: "\<not> bit a 15"
    using bits [of 0] by (auto simp: bit_0)
  have "\<not> bit a n" if "n < 15" for n
    using bits [of "Suc n"] top that
    by (simp add: bit_push_bit_iff possible_bit_word del: push_bit_Suc)
  with top have "\<not> bit a n" if "n < 16" for n
    using that by (cases "n = 15") auto
  then show "a = 0"
    by (intro bit_word_eqI) simp
qed (simp add: crc_bit_alt)

lemma crc_bits_0_iff: "crc_bits n a = 0 \<longleftrightarrow> a = 0"
  by (induction n arbitrary: a) (simp_all add: crc_bit_0_iff)

lemma xor_eq_0: "(a :: 'a::len word) XOR b = 0 \<longleftrightarrow> a = b"
proof
  assume "a XOR b = 0"
  then have "(a XOR b) XOR b = 0 XOR b" by simp
  then show "a = b" by (simp add: xor.assoc)
qed simp

lemma xor_right_cancel: "(a :: 'a::len word) XOR k = b XOR k \<longleftrightarrow> a = b"
proof
  assume "a XOR k = b XOR k"
  then have "(a XOR k) XOR k = (b XOR k) XOR k" by simp
  then show "a = b" by (simp add: xor.assoc)
qed simp

lemma xor_left_cancel: "(k :: 'a::len word) XOR a = k XOR b \<longleftrightarrow> a = b"
  by (metis xor.commute xor_right_cancel)

lemma crc_bits_inj: "crc_bits n a = crc_bits n b \<longleftrightarrow> a = b"
  by (simp add: xor_eq_0 [symmetric, of "crc_bits n a"] crc_bits_xor [symmetric] crc_bits_0_iff
      xor_eq_0)

text \<open>A byte in the low half reaches the high half after eight rounds, untouched by the
  polynomial.\<close>

lemma crc_bit_small: "\<not> bit a 15 \<Longrightarrow> crc_bit a = push_bit 1 a"
  by (simp add: crc_bit_alt)

lemma crc_bits_push: "n + k \<le> 8 \<Longrightarrow> crc_bits n (push_bit k (ucast (b :: u8))) = push_bit (n + k) (ucast b)"
proof (induction n arbitrary: k)
  case (Suc n)
  have "\<not> bit (push_bit k (ucast b :: u16)) 15"
    using Suc.prems by (auto simp: bit_simps dest: bit_imp_le_length)
  then show ?case
    using Suc by (simp add: crc_bit_small push_bit_push_bit del: push_bit_Suc)
qed simp

lemma crc_bits_low: "crc_bits 8 (ucast (b :: u8)) = push_bit 8 (ucast b)"
  using crc_bits_push [of 8 0 b] by simp

section \<open>Error detection\<close>

lemma crc_byte_inj: "crc_byte c b = crc_byte c' b \<longleftrightarrow> c = c'"
  by (simp add: crc_byte_def crc_bits_inj xor_right_cancel)

lemma foldl_crc_inj: "foldl crc_byte c s = foldl crc_byte c' s \<longleftrightarrow> c = c'"
  by (induction s arbitrary: c c') (simp_all add: crc_byte_inj)

lemma two_bytes:
  "crc_byte (crc_byte c b0) b1 = crc_bits 16 (c XOR (push_bit 8 (ucast b0) XOR ucast b1))"
proof -
  have add: "crc_bits (m + n) x = crc_bits n (crc_bits m x)" for m n x
    by (induction m arbitrary: x) simp_all
  have "crc_bits 16 (c XOR (push_bit 8 (ucast b0) XOR ucast b1))
      = crc_bits 8 (crc_bits 8 ((c XOR push_bit 8 (ucast b0)) XOR ucast b1))"
    using add [of 8 8] by (simp add: xor.assoc)
  also have "\<dots> = crc_byte (crc_byte c b0) b1"
    by (simp add: crc_byte_def crc_bits_xor crc_bits_low)
  finally show ?thesis by simp
qed

lemma byte_pair_inj:
  fixes b0 b1 d0 d1 :: u8
  assumes "push_bit 8 (ucast b0 :: u16) XOR ucast b1 = push_bit 8 (ucast d0) XOR ucast d1"
  shows "b0 = d0 \<and> b1 = d1"
proof -
  have b: "bit (push_bit 8 (ucast b0 :: u16) XOR ucast b1) n
      = bit (push_bit 8 (ucast d0 :: u16) XOR ucast d1) n" for n
    using assms by simp
  have "bit b1 n = bit d1 n" if "n < 8" for n
    using b [of n] that by (simp add: bit_simps)
  moreover have "bit b0 n = bit d0 n" if "n < 8" for n
    using b [of "n + 8"] that by (auto simp: bit_simps dest: bit_imp_le_length)
  ultimately show ?thesis
    by (auto intro: bit_word_eqI)
qed

lemma crc_pair_inj:
  "crc_byte (crc_byte c a) b = crc_byte (crc_byte c d) e \<longleftrightarrow> a = d \<and> b = e"
  using byte_pair_inj [of a b d e] unfolding two_bytes crc_bits_inj xor_left_cancel by blast

lemma crc_byte_inj2: "crc_byte c a = crc_byte c b \<longleftrightarrow> a = b"
  using crc_pair_inj [of c a 0 b 0] by (simp add: crc_byte_inj)

text \<open>A message and its copy that differ only inside a window of one or two adjacent bytes never
  have the same CRC, wherever the window is and whatever follows it.\<close>

lemma crc16_burst:
  assumes "length w = length w'" and "length w \<le> 2" and "w \<noteq> w'"
  shows "crc16 (p @ w @ s) \<noteq> crc16 (p @ w' @ s)"
proof -
  have "foldl crc_byte c w \<noteq> foldl crc_byte c w'" for c
  proof (cases w)
    case Nil
    with assms show ?thesis by simp
  next
    case (Cons a v)
    then obtain b v' where w': "w' = b # v'" "length v = length v'"
      using assms(1) by (cases w') auto
    show ?thesis
    proof (cases v)
      case Nil
      then show ?thesis using Cons w' assms(3) by (simp add: crc_byte_inj2)
    next
      case (Cons a' u)
      then obtain b' where "v = [a']" "v' = [b']"
        using \<open>w = a # v\<close> w' assms(2) by (cases v') auto
      then show ?thesis
        using \<open>w = a # v\<close> w' assms(3) by (simp add: crc_pair_inj)
    qed
  qed
  then show ?thesis
    by (simp add: crc16_def foldl_crc_inj)
qed


section \<open>Properties\<close>

text \<open>C15: the three copies of the CRC routine (sb_crc16 of protocol.h, crc16_ccitt of dspi.cpp and of
  northbridge.cpp) compute one and the same function of the first \<open>len\<close> bytes, whatever loop shape
  each uses.\<close>

theorem crc16_implementations_agree:
  assumes "len \<le> length data"
  shows "sb_crc16 data len = crc16 (take len data) \<and> dspi_crc16_ccitt data len = crc16 (take len data)
    \<and> crc16_ccitt data len = crc16 (take len data)"
  using assms by (simp_all add: sb_crc16_eq dspi_crc16_eq crc16_ccitt_eq)

lemma crc16_implementations_agree_witness:
  "sb_crc16 [0x31, 0x32, 0x33, 0x34, 0x35, 0x36, 0x37, 0x38, 0x39] 9 = 0x29B1"
proof -
  have "crc16 (take 9 [0x31, 0x32, 0x33, 0x34, 0x35, 0x36, 0x37, 0x38, 0x39]) = 0x29B1"
    by code_simp
  then show ?thesis
    using crc16_implementations_agree [of 9 "[0x31, 0x32, 0x33, 0x34, 0x35, 0x36, 0x37, 0x38, 0x39]"]
    by simp
qed

end
