(* ===== verification/NbFrame.thy ===== *)
theory NbFrame
  imports Crc16
begin

text \<open>
  The 64-byte frame both ends of the northbridge SPI link exchange, as the firmware
  (Firmware/northbridge/src/dspi.cpp) and the host (libs/hwinterface/northbridge.cpp) build and
  check it, and the packed wire structures of nb_protocol.h that travel as payloads.

  The lemmas give the explicit layout of a built frame, show that either end accepts what the
  other builds and recovers every field, and that a frame damaged in two adjacent bytes is
  refused.
\<close>

section \<open>Constants and messages\<close>

abbreviation (input) DSPI_FRAME_SIZE :: nat where "DSPI_FRAME_SIZE \<equiv> 64"
abbreviation (input) DSPI_PAYLOAD_MAX :: nat where "DSPI_PAYLOAD_MAX \<equiv> 58"
abbreviation (input) DSPI_MAGIC :: u8 where "DSPI_MAGIC \<equiv> 0xA5"
abbreviation (input) DSPI_TYPE_IDLE :: u8 where "DSPI_TYPE_IDLE \<equiv> 0"
abbreviation (input) DSPI_FLAG_MORE :: u8 where "DSPI_FLAG_MORE \<equiv> 1"
abbreviation (input) DSPI_FLAG_REPLY :: u8 where "DSPI_FLAG_REPLY \<equiv> 2"
abbreviation (input) OFF_MAGIC :: nat where "OFF_MAGIC \<equiv> 0"
abbreviation (input) OFF_TYPE :: nat where "OFF_TYPE \<equiv> 1"
abbreviation (input) OFF_LEN :: nat where "OFF_LEN \<equiv> 2"
abbreviation (input) OFF_FLAGS :: nat where "OFF_FLAGS \<equiv> 3"
abbreviation (input) OFF_PAYLOAD :: nat where "OFF_PAYLOAD \<equiv> 4"
abbreviation (input) OFF_CRC :: nat where "OFF_CRC \<equiv> 62"

text \<open>\<^verbatim>\<open>struct DspiMsg\<close> (dspi.h) and \<^verbatim>\<open>struct Frame\<close> (northbridge.h); the payload array always
  holds 58 bytes.\<close>

record dspi_msg =
  msg_type :: u8
  msg_len :: u8
  msg_flags :: u8
  msg_payload :: bytes

record nb_frame =
  fr_type :: u8
  fr_len :: u8
  fr_flags :: u8
  fr_payload :: bytes

definition msg_wf :: "dspi_msg \<Rightarrow> bool" where
  "msg_wf m \<longleftrightarrow> unat (msg_len m) \<le> 58 \<and> length (msg_payload m) = 58"

definition frame_wf :: "nb_frame \<Rightarrow> bool" where
  "frame_wf f \<longleftrightarrow> unat (fr_len f) \<le> 58 \<and> length (fr_payload f) = 58"

section \<open>Building a frame\<close>

text \<open>The firmware's \<^verbatim>\<open>build_frame\<close>; a null payload pointer is \<open>None\<close>.\<close>

definition dspi_build_frame :: "u8 \<Rightarrow> bytes option \<Rightarrow> u8 \<Rightarrow> bool \<Rightarrow> u8 \<Rightarrow> bytes" where
  "dspi_build_frame ty payload len has_more flags =
     (let f0 = (replicate 64 0)
            [OFF_MAGIC := DSPI_MAGIC, OFF_TYPE := ty, OFF_LEN := len,
             OFF_FLAGS := flags OR (if has_more then DSPI_FLAG_MORE else 0)];
          f1 = (case payload of
                  None \<Rightarrow> f0
                | Some p \<Rightarrow> if 0 < len then memcpy_at OFF_PAYLOAD (take (unat len) p) f0 else f0);
          crc = dspi_crc16_ccitt f1 OFF_CRC
      in f1[OFF_CRC := ucast (crc AND 0xFF), Suc OFF_CRC := ucast (drop_bit 8 crc)])"

text \<open>The host's \<^verbatim>\<open>LinkImpl::build_frame\<close>: the same, with no flags argument.\<close>

definition nb_build_frame :: "u8 \<Rightarrow> bytes option \<Rightarrow> u8 \<Rightarrow> bool \<Rightarrow> bytes" where
  "nb_build_frame ty payload len has_more =
     (let f0 = (replicate 64 0)
            [OFF_MAGIC := DSPI_MAGIC, OFF_TYPE := ty, OFF_LEN := len,
             OFF_FLAGS := (if has_more then DSPI_FLAG_MORE else 0)];
          f1 = (case payload of
                  None \<Rightarrow> f0
                | Some p \<Rightarrow> if 0 < len then memcpy_at OFF_PAYLOAD (take (unat len) p) f0 else f0);
          crc = crc16_ccitt f1 OFF_CRC
      in f1[OFF_CRC := ucast (crc AND 0xFF), Suc OFF_CRC := ucast (drop_bit 8 crc)])"

text \<open>The payload area of a frame: the bytes in use, then zeros.\<close>

definition pad_payload :: "bytes \<Rightarrow> bytes" where
  "pad_payload p = p @ replicate (58 - length p) 0"

lemma length_pad_payload [simp]: "length p \<le> 58 \<Longrightarrow> length (pad_payload p) = 58"
  by (simp add: pad_payload_def)

text \<open>The bytes a payload pointer contributes to a frame of length \<open>len\<close>.\<close>

definition used_payload :: "bytes option \<Rightarrow> u8 \<Rightarrow> bytes" where
  "used_payload payload len = (case payload of None \<Rightarrow> [] | Some p \<Rightarrow> take (unat len) p)"

definition frame_body :: "u8 \<Rightarrow> bytes option \<Rightarrow> u8 \<Rightarrow> u8 \<Rightarrow> bytes" where
  "frame_body ty payload len flags = [DSPI_MAGIC, ty, len, flags] @ pad_payload (used_payload payload len)"

lemma length_used_payload: "unat len \<le> 58 \<Longrightarrow> length (used_payload payload len) \<le> 58"
  by (auto simp: used_payload_def split: option.splits)

lemma length_frame_body [simp]: "unat len \<le> 58 \<Longrightarrow> length (frame_body ty payload len flags) = 62"
  by (simp add: frame_body_def length_used_payload)

lemma frame_fill:
  assumes "unat len \<le> 58"
  shows "(case payload of
            None \<Rightarrow> (replicate 64 0)[0 := 0xA5, 1 := ty, 2 := len, 3 := flags]
          | Some p \<Rightarrow> if 0 < len
              then memcpy_at 4 (take (unat len) p)
                     ((replicate 64 0)[0 := 0xA5, 1 := ty, 2 := len, 3 := flags])
              else (replicate 64 0)[0 := 0xA5, 1 := ty, 2 := len, 3 := flags])
       = frame_body ty payload len flags @ [0, 0]"
proof -
  have hdr: "(replicate 64 0)[0 := 0xA5, 1 := ty, 2 := len, 3 := flags]
      = [0xA5, ty, len, flags] @ replicate 60 (0 :: u8)"
    by (simp add: numeral_eq_Suc)
  have tail: "n \<le> 58 \<Longrightarrow> replicate (60 - n) (0 :: u8) = replicate (58 - n) 0 @ [0, 0]" for n
  proof -
    assume "n \<le> 58"
    then have e: "60 - n = (58 - n) + 2" by simp
    have "replicate (60 - n) (0 :: u8) = replicate (58 - n) 0 @ replicate 2 0"
      by (simp only: e replicate_add)
    then show "replicate (60 - n) (0 :: u8) = replicate (58 - n) 0 @ [0, 0]"
      by (simp only: numeral_2_eq_2 replicate.simps)
  qed
  have r: "replicate 60 (0 :: u8) = replicate 58 0 @ [0, 0]"
    using tail [of 0] by simp
  show ?thesis
  proof (cases payload)
    case None
    then show ?thesis
      unfolding hdr by (simp add: frame_body_def used_payload_def pad_payload_def r)
  next
    case (Some p)
    let ?q = "take (unat len) p"
    have q: "length ?q \<le> 58" using assms by simp
    have "memcpy_at 4 ?q ([0xA5, ty, len, flags] @ replicate 60 0)
        = [0xA5, ty, len, flags] @ ?q @ drop (length ?q) (replicate 60 0)"
      by (rule memcpy_at_append) simp
    then show ?thesis
      using Some q tail [of "length ?q"] unfolding hdr
      by (auto simp: frame_body_def used_payload_def pad_payload_def r word_gt_0_unat)
  qed
qed

lemma list_update_end2:
  "length b = n \<Longrightarrow> (b @ [u, v])[n := x, Suc n := y] = b @ [x, y]"
  by (simp add: list_update_append)

lemma dspi_build_frame_layout:
  assumes "unat len \<le> 58"
  shows "dspi_build_frame ty payload len has_more flags =
    (let b = frame_body ty payload len (flags OR (if has_more then 1 else 0))
     in b @ putU16LE (crc16 b))"
proof -
  let ?b = "frame_body ty payload len (flags OR (if has_more then 1 else 0))"
  have crc: "dspi_crc16_ccitt (?b @ [0, 0]) 62 = crc16 ?b"
    using assms by (simp add: dspi_crc16_eq)
  have up: "(?b @ [0, 0])[62 := x, Suc 62 := y] = ?b @ [x, y]" for x y
    using assms by (intro list_update_end2) simp
  show ?thesis
    unfolding dspi_build_frame_def Let_def frame_fill [OF assms] crc up
    by (simp add: putU16LE_def ucast_and_0xFF)
qed

lemma nb_build_frame_dspi: "nb_build_frame ty payload len has_more = dspi_build_frame ty payload len has_more 0"
  by (simp add: nb_build_frame_def dspi_build_frame_def crc16_ccitt_def dspi_crc16_ccitt_def
      crc16_ccitt_loop_dspi)

section \<open>Checking a frame\<close>

text \<open>The acceptance test of \<^verbatim>\<open>dspi_dma_isr\<close> and of \<^verbatim>\<open>LinkImpl::parse\<close>: magic, length and CRC.\<close>

definition frame_crc_field :: "bytes \<Rightarrow> u16" where
  "frame_crc_field f = ucast (f ! OFF_CRC) OR push_bit 8 (ucast (f ! Suc OFF_CRC))"

definition frame_header_ok :: "bytes \<Rightarrow> bool" where
  "frame_header_ok f \<longleftrightarrow> f ! OFF_MAGIC = DSPI_MAGIC \<and> unat (f ! OFF_LEN) \<le> DSPI_PAYLOAD_MAX"

definition frame_accepted :: "bytes \<Rightarrow> bool" where
  "frame_accepted f \<longleftrightarrow> frame_header_ok f \<and> frame_crc_field f = dspi_crc16_ccitt f OFF_CRC"

text \<open>The fields an accepted frame is copied into.\<close>

definition frame_msg :: "bytes \<Rightarrow> dspi_msg" where
  "frame_msg f = \<lparr>msg_type = f ! OFF_TYPE, msg_len = f ! OFF_LEN, msg_flags = f ! OFF_FLAGS,
     msg_payload = take DSPI_PAYLOAD_MAX (drop OFF_PAYLOAD f)\<rparr>"

definition frame_nb :: "bytes \<Rightarrow> nb_frame" where
  "frame_nb f = \<lparr>fr_type = f ! OFF_TYPE, fr_len = f ! OFF_LEN, fr_flags = f ! OFF_FLAGS,
     fr_payload = take DSPI_PAYLOAD_MAX (drop OFF_PAYLOAD f)\<rparr>"

lemma frame_crc_field_append:
  "length b = 62 \<Longrightarrow> frame_crc_field (b @ c) = getU16LE c"
  by (simp add: frame_crc_field_def getU16LE_def nth_append)

lemma frame_crc_field_layout: "length b = 62 \<Longrightarrow> frame_crc_field (b @ putU16LE v) = v"
  by (simp add: frame_crc_field_append)

lemma dspi_crc16_62: "length b = 62 \<Longrightarrow> dspi_crc16_ccitt (b @ c) 62 = crc16 b"
  by (simp add: dspi_crc16_eq)

lemma dspi_build_frame_fields:
  fixes ty :: u8 and payload :: "bytes option" and has_more :: bool and flags :: u8
  assumes "unat len \<le> 58"
  defines "f \<equiv> dspi_build_frame ty payload len has_more flags"
  shows "length f = 64" and "frame_accepted f" and "f ! 0 = 0xA5" and "f ! 1 = ty" and "f ! 2 = len"
    and "f ! 3 = flags OR (if has_more then 1 else 0)"
    and "take 58 (drop 4 f) = pad_payload (used_payload payload len)"
proof -
  let ?b = "frame_body ty payload len (flags OR (if has_more then 1 else 0))"
  have f: "f = ?b @ putU16LE (crc16 ?b)"
    unfolding f_def dspi_build_frame_layout [OF assms(1)] Let_def ..
  have b: "length ?b = 62" using assms(1) by simp
  have pp: "length (pad_payload (used_payload payload len)) = 58"
    using assms(1) by (simp add: length_used_payload)
  show "length f = 64" using b by (simp add: f)
  show hd: "f ! 0 = 0xA5" "f ! 1 = ty" "f ! 2 = len"
    and "f ! 3 = flags OR (if has_more then 1 else 0)"
    by (simp_all add: f frame_body_def)
  show "take 58 (drop 4 f) = pad_payload (used_payload payload len)"
    using pp by (simp add: f frame_body_def)
  show "frame_accepted f"
    using hd assms(1) b
    by (simp add: frame_accepted_def frame_header_ok_def f frame_crc_field_layout dspi_crc16_62)
qed

lemmas nb_build_frame_fields =
  dspi_build_frame_fields [where flags = 0, folded nb_build_frame_dspi, simplified]

lemma frame_msg_build:
  assumes "unat len \<le> 58"
  shows "frame_msg (dspi_build_frame ty payload len has_more flags) =
    \<lparr>msg_type = ty, msg_len = len, msg_flags = flags OR (if has_more then 1 else 0),
     msg_payload = pad_payload (used_payload payload len)\<rparr>"
  using dspi_build_frame_fields [OF assms, of ty payload has_more flags]
  by (simp add: frame_msg_def)

lemma frame_nb_build:
  assumes "unat len \<le> 58"
  shows "frame_nb (dspi_build_frame ty payload len has_more flags) =
    \<lparr>fr_type = ty, fr_len = len, fr_flags = flags OR (if has_more then 1 else 0),
     fr_payload = pad_payload (used_payload payload len)\<rparr>"
  using dspi_build_frame_fields [OF assms, of ty payload has_more flags]
  by (simp add: frame_nb_def)

lemma frame_damage_refused:
  assumes "frame_accepted (p @ w @ s)" and "length (p @ w @ s) = 64"
    and "length w = length w'" and "length w \<le> 2" and "w \<noteq> w'" and "length p + length w \<le> 62"
  shows "\<not> frame_accepted (p @ w' @ s)"
proof
  assume acc': "frame_accepted (p @ w' @ s)"
  let ?k = "62 - length p - length w"
  define a where "a = take ?k s"
  define c where "c = drop ?k s"
  have s: "s = a @ c" by (simp add: a_def c_def)
  have la: "length p + length w + length a = 62"
    using assms(2,6) by (simp add: a_def)
  have "frame_crc_field (p @ w @ s) = getU16LE c" "frame_crc_field (p @ w' @ s) = getU16LE c"
    using frame_crc_field_append [of "p @ w @ a" c] frame_crc_field_append [of "p @ w' @ a" c] la assms(3)
    by (simp_all add: s)
  moreover have "dspi_crc16_ccitt (p @ w @ s) 62 = crc16 (p @ w @ a)"
    "dspi_crc16_ccitt (p @ w' @ s) 62 = crc16 (p @ w' @ a)"
    using dspi_crc16_62 [of "p @ w @ a" c] dspi_crc16_62 [of "p @ w' @ a" c] la assms(3)
    by (simp_all add: s)
  ultimately have "crc16 (p @ w @ a) = crc16 (p @ w' @ a)"
    using assms(1) acc' by (simp add: frame_accepted_def)
  then show False
    using crc16_burst [OF assms(3-5)] by blast
qed

section \<open>Properties\<close>

text \<open>C16: either end accepts every frame the other builds from a payload of at most 58 bytes and
  recovers its type, length, flags and payload (zero-padded to 58 bytes); the frame is exactly 64
  bytes long.\<close>

theorem frame_roundtrip:
  assumes "unat len \<le> 58"
  shows "(let f = dspi_build_frame ty payload len has_more flags in
      length f = 64 \<and> frame_accepted f \<and>
      frame_nb f = \<lparr>fr_type = ty, fr_len = len, fr_flags = flags OR (if has_more then 1 else 0),
        fr_payload = pad_payload (used_payload payload len)\<rparr>) \<and>
    (let f = nb_build_frame ty payload len has_more in
      length f = 64 \<and> frame_accepted f \<and>
      frame_msg f = \<lparr>msg_type = ty, msg_len = len, msg_flags = (if has_more then 1 else 0),
        msg_payload = pad_payload (used_payload payload len)\<rparr>)"
  using dspi_build_frame_fields [OF assms] frame_nb_build [OF assms] frame_msg_build [OF assms]
  by (simp add: Let_def nb_build_frame_dspi)

lemma frame_roundtrip_witness:
  "frame_accepted (nb_build_frame 0x11 (Some [7, 8]) 2 True) \<and>
   frame_msg (nb_build_frame 0x11 (Some [7, 8]) 2 True) = \<lparr>msg_type = 0x11, msg_len = 2, msg_flags = 1,
     msg_payload = [7, 8] @ replicate 56 0\<rparr>"
  using frame_roundtrip [where len = 2 and ty = "0x11" and payload = "Some [7, 8]" and has_more = True]
  by (simp add: Let_def used_payload_def pad_payload_def)

text \<open>a frame that was accepted and is then damaged inside one or two adjacent bytes before the
  CRC field is refused, wherever the damage is.\<close>

theorem damaged_frame_refused:
  assumes "frame_accepted (p @ w @ s)" and "length (p @ w @ s) = 64"
    and "length w = length w'" and "length w \<le> 2" and "w \<noteq> w'" and "length p + length w \<le> 62"
  shows "\<not> frame_accepted (p @ w' @ s)"
  using assms by (rule frame_damage_refused)

lemma damaged_frame_refused_witness:
  "\<not> frame_accepted (take 4 (nb_build_frame 0x11 (Some [7, 8]) 2 True) @ [7, 9] @
     drop 6 (nb_build_frame 0x11 (Some [7, 8]) 2 True))"
proof -
  let ?f = "nb_build_frame 0x11 (Some [7, 8]) 2 True"
  have len: "length ?f = 64" and acc: "frame_accepted ?f"
    by (simp_all add: nb_build_frame_fields)
  have "take 58 (drop 4 ?f) = [7, 8] @ replicate 56 0"
    by (simp add: nb_build_frame_fields used_payload_def pad_payload_def)
  then have "take 2 (take 58 (drop 4 ?f)) = [7, 8]" by simp
  then have w: "take 2 (drop 4 ?f) = [7, 8]" by (simp add: min_def)
  have "?f = take 4 ?f @ take 2 (drop 4 ?f) @ drop 2 (drop 4 ?f)"
    by (simp only: append_take_drop_id)
  then have e: "?f = take 4 ?f @ [7, 8] @ drop 6 ?f" by (simp only: w) simp
  show ?thesis
    by (rule damaged_frame_refused [where w = "[7, 8]"])
      (use e acc len in \<open>simp_all only: e [symmetric] len\<close>, simp_all)
qed

end
