(* ===== verification/NbWire.thy ===== *)
theory NbWire
  imports NbFrame
begin

text \<open>
  The payload structures of nb_protocol.h, packed and little-endian, and the decoders of
  libs/hwinterface/northbridge.cpp that pull them out of a frame. Signed fields are kept as their
  bit patterns. Every structure interprets \<open>wire_codec\<close>, which gives the round trips.
\<close>

section \<open>Packed structures\<close>

record nb_time_wire =
  tw_year :: u16
  tw_month :: u8
  tw_day :: u8
  tw_hour :: u8
  tw_minute :: u8
  tw_second :: u8
  tw_weekday :: u8
  tw_temp_centi :: u16

record nb_panel_wire =
  pw_buttons :: u32
  pw_toggles :: u8
  pw_leds :: u8

record nb_encoder_wire =
  ew_position :: u32
  ew_delta :: u8
  ew_pressed :: u8
  ew_flags :: u8

record nb_info_wire =
  iw_proto_version :: u8
  iw_fw_major :: u8
  iw_fw_minor :: u8
  iw_fw_patch :: u8
  iw_build_year :: u16
  iw_build_month :: u8
  iw_build_day :: u8
  iw_build_hour :: u8
  iw_build_minute :: u8
  iw_build_second :: u8
  iw_uptime_s :: u32
  iw_board_id :: u64
  iw_features :: u8

definition enc_time_wire :: "nb_time_wire \<Rightarrow> bytes" where
  "enc_time_wire w = putU16LE (tw_year w) @ [tw_month w, tw_day w, tw_hour w, tw_minute w,
     tw_second w, tw_weekday w] @ putU16LE (tw_temp_centi w)"

definition dec_time_wire :: "bytes \<Rightarrow> nb_time_wire" where
  "dec_time_wire p = \<lparr>tw_year = getU16LE p, tw_month = p ! 2, tw_day = p ! 3, tw_hour = p ! 4,
     tw_minute = p ! 5, tw_second = p ! 6, tw_weekday = p ! 7, tw_temp_centi = getU16LE (drop 8 p)\<rparr>"

definition enc_panel_wire :: "nb_panel_wire \<Rightarrow> bytes" where
  "enc_panel_wire w = putU32LE (pw_buttons w) @ [pw_toggles w, pw_leds w]"

definition dec_panel_wire :: "bytes \<Rightarrow> nb_panel_wire" where
  "dec_panel_wire p = \<lparr>pw_buttons = getU32LE p, pw_toggles = p ! 4, pw_leds = p ! 5\<rparr>"

definition enc_encoder_wire :: "nb_encoder_wire \<Rightarrow> bytes" where
  "enc_encoder_wire w = putU32LE (ew_position w) @ [ew_delta w, ew_pressed w, ew_flags w]"

definition dec_encoder_wire :: "bytes \<Rightarrow> nb_encoder_wire" where
  "dec_encoder_wire p = \<lparr>ew_position = getU32LE p, ew_delta = p ! 4, ew_pressed = p ! 5,
     ew_flags = p ! 6\<rparr>"

definition enc_info_wire :: "nb_info_wire \<Rightarrow> bytes" where
  "enc_info_wire w = [iw_proto_version w, iw_fw_major w, iw_fw_minor w, iw_fw_patch w]
     @ putU16LE (iw_build_year w) @ [iw_build_month w, iw_build_day w, iw_build_hour w,
       iw_build_minute w, iw_build_second w] @ putU32LE (iw_uptime_s w) @ putU64LE (iw_board_id w)
     @ [iw_features w]"

definition dec_info_wire :: "bytes \<Rightarrow> nb_info_wire" where
  "dec_info_wire p = \<lparr>iw_proto_version = p ! 0, iw_fw_major = p ! 1, iw_fw_minor = p ! 2,
     iw_fw_patch = p ! 3, iw_build_year = getU16LE (drop 4 p), iw_build_month = p ! 6,
     iw_build_day = p ! 7, iw_build_hour = p ! 8, iw_build_minute = p ! 9, iw_build_second = p ! 10,
     iw_uptime_s = getU32LE (drop 11 p), iw_board_id = getU64LE (drop 15 p), iw_features = p ! 23\<rparr>"

lemmas wire_defs =
  enc_time_wire_def dec_time_wire_def enc_panel_wire_def dec_panel_wire_def
  enc_encoder_wire_def dec_encoder_wire_def enc_info_wire_def dec_info_wire_def

interpretation time_wire: wire_codec enc_time_wire dec_time_wire 10
  by unfold_locales (simp_all add: wire_defs nth_append)

interpretation panel_wire: wire_codec enc_panel_wire dec_panel_wire 6
  by unfold_locales (simp_all add: wire_defs nth_append)

interpretation encoder_wire: wire_codec enc_encoder_wire dec_encoder_wire 7
  by unfold_locales (simp_all add: wire_defs nth_append)

interpretation info_wire: wire_codec enc_info_wire dec_info_wire 24
  by unfold_locales (simp_all add: wire_defs nth_append)

section \<open>Taking a structure out of a frame\<close>

text \<open>\<^verbatim>\<open>payload_of<T>\<close>: the length is checked first, then \<^verbatim>\<open>sizeof(T)\<close> bytes are copied.\<close>

definition payload_of :: "nat \<Rightarrow> (bytes \<Rightarrow> 'a) \<Rightarrow> nb_frame \<Rightarrow> 'a option" where
  "payload_of sz dec f = (if unat (fr_len f) < sz then None else Some (dec (fr_payload f)))"

text \<open>A frame carries \<open>p\<close> when its length counts \<open>p\<close>'s bytes and its payload starts with them.\<close>

definition carries :: "nb_frame \<Rightarrow> bytes \<Rightarrow> bool" where
  "carries f p \<longleftrightarrow> unat (fr_len f) = length p \<and> fr_payload f = pad_payload p"

context wire_codec
begin

lemma payload_of_carries: "carries f (enc x) \<Longrightarrow> payload_of sz dec f = Some x"
  by (simp add: payload_of_def carries_def enc_len pad_payload_def dec_enc)

lemma payload_of_short: "unat (fr_len f) < sz \<Longrightarrow> payload_of sz dec f = None"
  by (simp add: payload_of_def)

end

lemma carries_build:
  assumes "unat len = length p" and "length p \<le> 58"
  shows "carries (frame_nb (dspi_build_frame ty (Some (p @ pad)) len has_more flags)) p"
  using assms by (simp add: carries_def frame_nb_build used_payload_def)

section \<open>Panel and encoder events\<close>

abbreviation (input) NB_CMD_PING :: u8 where "NB_CMD_PING \<equiv> 0x01"
abbreviation (input) NB_CMD_PANEL_EVT :: u8 where "NB_CMD_PANEL_EVT \<equiv> 0x10"
abbreviation (input) NB_CMD_SET_LEDS :: u8 where "NB_CMD_SET_LEDS \<equiv> 0x11"
abbreviation (input) NB_CMD_GET_PANEL :: u8 where "NB_CMD_GET_PANEL \<equiv> 0x12"
abbreviation (input) NB_CMD_GET_TIME :: u8 where "NB_CMD_GET_TIME \<equiv> 0x13"
abbreviation (input) NB_CMD_SET_TIME :: u8 where "NB_CMD_SET_TIME \<equiv> 0x14"
abbreviation (input) NB_CMD_GET_INFO :: u8 where "NB_CMD_GET_INFO \<equiv> 0x15"
abbreviation (input) NB_CMD_ENC_EVT :: u8 where "NB_CMD_ENC_EVT \<equiv> 0x16"
abbreviation (input) NB_CMD_GET_ENC :: u8 where "NB_CMD_GET_ENC \<equiv> 0x17"
abbreviation (input) NB_ENC_MOVED :: u8 where "NB_ENC_MOVED \<equiv> 0x01"
abbreviation (input) NB_ENC_BUTTON :: u8 where "NB_ENC_BUTTON \<equiv> 0x02"

record panel_state =
  ps_chip :: u8
  ps_pin :: u8
  ps_active :: bool
  ps_buttons :: u32
  ps_toggles :: u8

record encoder_state =
  es_position :: u32
  es_delta :: u8
  es_pressed :: bool
  es_moved :: bool
  es_button :: bool

text \<open>\<^verbatim>\<open>PanelState::decode\<close> and \<^verbatim>\<open>EncoderState::decode\<close>.\<close>

definition panel_state_decode :: "nb_frame \<Rightarrow> panel_state option" where
  "panel_state_decode f =
     (if fr_type f \<noteq> NB_CMD_PANEL_EVT \<or> unat (fr_len f) < 7 then None
      else let p = fr_payload f in
        Some \<lparr>ps_chip = p ! 0, ps_pin = p ! 1, ps_active = (p ! 2 \<noteq> 0),
          ps_buttons = ucast (p ! 3) OR push_bit 8 (ucast (p ! 4)) OR push_bit 16 (ucast (p ! 5)),
          ps_toggles = p ! 6\<rparr>)"

definition encoder_state_decode :: "nb_frame \<Rightarrow> encoder_state option" where
  "encoder_state_decode f =
     (if fr_type f \<noteq> NB_CMD_ENC_EVT then None
      else case payload_of 7 dec_encoder_wire f of
        None \<Rightarrow> None
      | Some wire \<Rightarrow> Some \<lparr>es_position = ew_position wire, es_delta = ew_delta wire,
          es_pressed = (ew_pressed wire \<noteq> 0), es_moved = (ew_flags wire AND NB_ENC_MOVED \<noteq> 0),
          es_button = (ew_flags wire AND NB_ENC_BUTTON \<noteq> 0)\<rparr>)"

text \<open>The payload the firmware's \<^verbatim>\<open>panel_task\<close> sends (Firmware/northbridge/src/main.cpp): chip, pin,
  state, then 24 button bits and the toggles.\<close>

definition panel_packet :: "u8 \<Rightarrow> u8 \<Rightarrow> bool \<Rightarrow> u32 \<Rightarrow> u16 \<Rightarrow> bytes" where
  "panel_packet chip pin active buttons toggles =
     [chip, pin, (if active then 1 else 0), ucast (buttons AND 0xFF), ucast (drop_bit 8 buttons),
      ucast (drop_bit 16 buttons), ucast toggles, 0]"

text \<open>The payload of the firmware's encoder event.\<close>

definition encoder_packet :: "u32 \<Rightarrow> u8 \<Rightarrow> bool \<Rightarrow> bool \<Rightarrow> bytes" where
  "encoder_packet position delta pressed button_edge =
     enc_encoder_wire \<lparr>ew_position = position, ew_delta = delta, ew_pressed = (if pressed then 1 else 0),
       ew_flags = (if button_edge then NB_ENC_BUTTON else 0) OR (if delta \<noteq> 0 then NB_ENC_MOVED else 0)\<rparr>"

lemma buttons24:
  assumes "unat b < 2 ^ 24"
  shows "ucast (ucast (b AND 0xFF) :: u8) OR push_bit 8 (ucast (ucast (drop_bit 8 b) :: u8))
      OR push_bit 16 (ucast (ucast (drop_bit 16 b) :: u8)) = (b :: u32)"
proof -
  have hi: "\<not> bit b n" if "24 \<le> n" for n
  proof -
    have "b = take_bit 24 b"
      using assms by (simp add: word_unat_eq_iff unsigned_take_bit_eq take_bit_nat_eq_self)
    then have "bit b n = bit (take_bit 24 b) n" by simp
    then show ?thesis using that by (simp add: bit_take_bit_iff)
  qed
  show ?thesis
    unfolding ucast_and_0xFF
    apply (rule bit_word_eqI)
    subgoal for n
      using hi [of n] by (cases "24 \<le> n"; cases "16 \<le> n"; cases "8 \<le> n") (auto simp: bit_simps not_le)
    done
qed

lemma panel_event_roundtrip:
  assumes "carries f (panel_packet chip pin active buttons toggles)" and "fr_type f = NB_CMD_PANEL_EVT"
    and "unat buttons < 2 ^ 24"
  shows "panel_state_decode f = Some \<lparr>ps_chip = chip, ps_pin = pin, ps_active = active,
    ps_buttons = buttons, ps_toggles = ucast toggles\<rparr>"
proof -
  have len: "unat (fr_len f) = 8"
    using assms(1) by (simp add: carries_def panel_packet_def)
  have pay: "fr_payload f = panel_packet chip pin active buttons toggles @ replicate 50 0"
    using assms(1) by (simp add: carries_def pad_payload_def panel_packet_def)
  show ?thesis
    using assms(2) len buttons24 [OF assms(3)]
    by (simp add: panel_state_decode_def pay panel_packet_def)
qed

lemma encoder_event_roundtrip:
  assumes "carries f (encoder_packet position delta pressed button_edge)" and "fr_type f = NB_CMD_ENC_EVT"
  shows "encoder_state_decode f = Some \<lparr>es_position = position, es_delta = delta,
    es_pressed = pressed, es_moved = (delta \<noteq> 0), es_button = button_edge\<rparr>"
  using encoder_wire.payload_of_carries [OF assms(1) [unfolded encoder_packet_def]] assms(2)
  by (simp add: encoder_state_decode_def)

section \<open>Properties\<close>

text \<open>every packed structure of nb_protocol.h has its documented size on the wire and is read
  back unchanged from the front of any buffer.\<close>

theorem wire_structs_roundtrip:
  "(length (enc_time_wire t) = 10 \<and> dec_time_wire (enc_time_wire t @ rest) = t) \<and>
   (length (enc_panel_wire p) = 6 \<and> dec_panel_wire (enc_panel_wire p @ rest) = p) \<and>
   (length (enc_encoder_wire e) = 7 \<and> dec_encoder_wire (enc_encoder_wire e @ rest) = e) \<and>
   (length (enc_info_wire i) = 24 \<and> dec_info_wire (enc_info_wire i @ rest) = i)"
  by (simp add: time_wire.enc_len time_wire.dec_enc panel_wire.enc_len panel_wire.dec_enc
      encoder_wire.enc_len encoder_wire.dec_enc info_wire.enc_len info_wire.dec_enc)

text \<open>the host decodes a panel event frame to exactly the chip, pin, level, button mask and
  toggles the firmware packed, and an encoder event frame to its position, delta and flags.\<close>

theorem event_decode:
  assumes "unat buttons < 2 ^ 24"
  shows "(carries f (panel_packet chip pin active buttons toggles) \<and> fr_type f = NB_CMD_PANEL_EVT \<longrightarrow>
      panel_state_decode f = Some \<lparr>ps_chip = chip, ps_pin = pin, ps_active = active,
        ps_buttons = buttons, ps_toggles = ucast toggles\<rparr>) \<and>
    (carries f (encoder_packet position delta pressed button_edge) \<and> fr_type f = NB_CMD_ENC_EVT \<longrightarrow>
      encoder_state_decode f = Some \<lparr>es_position = position, es_delta = delta, es_pressed = pressed,
        es_moved = (delta \<noteq> 0), es_button = button_edge\<rparr>)"
  using panel_event_roundtrip [OF _ _ assms] encoder_event_roundtrip by blast

lemma event_decode_witness:
  "panel_state_decode \<lparr>fr_type = 0x10, fr_len = 8, fr_flags = 0,
      fr_payload = pad_payload (panel_packet 1 5 True 0x20 3)\<rparr> =
    Some \<lparr>ps_chip = 1, ps_pin = 5, ps_active = True, ps_buttons = 0x20, ps_toggles = 3\<rparr>"
  using event_decode [where buttons = "0x20" and f = "\<lparr>fr_type = 0x10, fr_len = 8, fr_flags = 0,
      fr_payload = pad_payload (panel_packet 1 5 True 0x20 3)\<rparr>" and chip = 1 and pin = 5 and active = True and toggles = 3]
  by (simp add: carries_def) (simp add: panel_packet_def)

end
