(* ===== verification/DspiSlave.thy ===== *)
theory DspiSlave
  imports NbWire "HOL-Library.Sublist"
begin

text \<open>
  The firmware's SPI slave, Firmware/northbridge/src/dspi.cpp: the DMA completion interrupt, the
  frame task with its stall check, and the queueing interface \<^verbatim>\<open>dspi_send\<close>/\<^verbatim>\<open>dspi_receive\<close>.

  FreeRTOS is not part of the repository: its queues are a parameter, a record of the three
  operations the code calls, with the documented first-in first-out behaviour as the predicate
  \<open>rtos_queue_laws\<close>. The DMA engine and the SPI shift register are the environment: an exchange
  delivers 64 bytes into the armed receive buffer and clocks out the armed transmit buffer, of
  which the transmit FIFO has already taken some prefix when the channel was started.
\<close>

section \<open>FreeRTOS queues\<close>

record 'q rtos_queue =
  q_send :: "nat \<Rightarrow> dspi_msg \<Rightarrow> 'q \<Rightarrow> 'q option"
  q_recv :: "nat \<Rightarrow> 'q \<Rightarrow> (dspi_msg \<times> 'q) option"
  q_waiting :: "'q \<Rightarrow> nat"

text \<open>What the FreeRTOS documentation promises: a send that succeeds puts the item at the back, a
  receive takes the front one and fails only on an empty queue.\<close>

definition rtos_queue_laws :: "'q rtos_queue \<Rightarrow> ('q \<Rightarrow> dspi_msg list) \<Rightarrow> bool" where
  "rtos_queue_laws Q items \<longleftrightarrow>
     (\<forall>w m q q'. q_send Q w m q = Some q' \<longrightarrow> items q' = items q @ [m]) \<and>
     (\<forall>w q m q'. q_recv Q w q = Some (m, q') \<longrightarrow> items q = m # items q') \<and>
     (\<forall>w q. q_recv Q w q = None \<longrightarrow> items q = []) \<and>
     (\<forall>q. q_waiting Q q = length (items q))"

lemma rtos_send: "rtos_queue_laws Q items \<Longrightarrow> q_send Q w m q = Some q' \<Longrightarrow> items q' = items q @ [m]"
  by (simp add: rtos_queue_laws_def)

lemma rtos_recv: "rtos_queue_laws Q items \<Longrightarrow> q_recv Q w q = Some (m, q') \<Longrightarrow> items q = m # items q'"
  by (simp add: rtos_queue_laws_def)

lemma rtos_recv_cons:
  assumes "rtos_queue_laws Q items" and "items q = m # ms"
  obtains q' where "q_recv Q w q = Some (m, q')" and "items q' = ms"
proof (cases "q_recv Q w q")
  case None
  then have "items q = []" using assms(1) unfolding rtos_queue_laws_def by blast
  then show ?thesis using assms(2) by simp
next
  case (Some p)
  obtain m' q' where p: "p = (m', q')" by force
  have "items q = m' # items q'" using rtos_recv [OF assms(1)] Some p by blast
  then show ?thesis using that [of q'] Some p assms(2) by simp
qed

lemma rtos_waiting: "rtos_queue_laws Q items \<Longrightarrow> q_waiting Q q = length (items q)"
  by (simp add: rtos_queue_laws_def)

text \<open>A bounded list is such a queue; the witnesses run on it.\<close>

definition list_queue :: "nat \<Rightarrow> dspi_msg list rtos_queue" where
  "list_queue depth = \<lparr>q_send = (\<lambda>w m q. if length q < depth then Some (q @ [m]) else None),
     q_recv = (\<lambda>w q. case q of [] \<Rightarrow> None | m # q' \<Rightarrow> Some (m, q')), q_waiting = length\<rparr>"

lemma list_queue_laws: "rtos_queue_laws (list_queue depth) (\<lambda>q. q)"
  by (auto simp: rtos_queue_laws_def list_queue_def split: if_splits list.splits)

section \<open>State\<close>

text \<open>\<^verbatim>\<open>g_next_tx\<close> points at nothing, the idle frame or the staging buffer; so does the transmit
  channel's read address.\<close>

datatype tx_buf = TxNull | TxIdle | TxStage

record 'q dspi =
  rx_queue :: "'q option"
  tx_queue :: "'q option"
  rx_bufs :: "bytes list"
  rx_live :: u8
  idle_frame :: bytes
  tx_stage :: bytes
  next_tx :: tx_buf
  dma_tx :: tx_buf
  tx_fifo :: bytes
  irq_line :: bool
  isr_count :: u32
  cs_edges :: u32
  last_partial :: u32
  prev_remaining :: u32
  overruns :: u32
  rx_count :: u32
  idle_rx :: u32
  zero_rx :: u32
  tx_count :: u32
  crc_errors :: u32
  rx_dropped :: u32
  resyncs :: u32

definition tx_contents :: "'q dspi \<Rightarrow> tx_buf \<Rightarrow> bytes" where
  "tx_contents st b = (case b of TxNull \<Rightarrow> [] | TxIdle \<Rightarrow> idle_frame st | TxStage \<Rightarrow> tx_stage st)"

text \<open>Arming starts both channels; the transmit FIFO then fills with the first \<open>k\<close> bytes of the
  buffer. The receive channel writes into \<^verbatim>\<open>g_rx_buf[g_rx_live]\<close>.\<close>

definition arm_dma :: "nat \<Rightarrow> tx_buf \<Rightarrow> 'q dspi \<Rightarrow> 'q dspi" where
  "arm_dma k tx st = st\<lparr>dma_tx := tx, tx_fifo := take k (tx_contents st tx)\<rparr>"

text \<open>What the master reads from an armed slave.\<close>

definition wire_out :: "'q dspi \<Rightarrow> bytes" where
  "wire_out st = tx_fifo st @ drop (length (tx_fifo st)) (tx_contents st (dma_tx st))"

section \<open>The completion interrupt\<close>

text \<open>Lines 159--187: validate the frame that landed and hand it over.\<close>

definition dspi_rx_frame :: "'q rtos_queue \<Rightarrow> bytes \<Rightarrow> 'q dspi \<Rightarrow> 'q dspi" where
  "dspi_rx_frame Q frame st =
     (if frame_header_ok frame then
        if frame_crc_field frame = dspi_crc16_ccitt frame OFF_CRC then
          if frame ! OFF_TYPE \<noteq> DSPI_TYPE_IDLE then
            (case Option.bind (rx_queue st) (q_send Q 0 (frame_msg frame)) of
               None \<Rightarrow> st\<lparr>rx_dropped := rx_dropped st + 1\<rparr>
             | Some q \<Rightarrow> st\<lparr>rx_queue := Some q, rx_count := rx_count st + 1\<rparr>)
          else st\<lparr>idle_rx := idle_rx st + 1\<rparr>
        else st\<lparr>crc_errors := crc_errors st + 1\<rparr>
      else if frame ! OFF_MAGIC \<noteq> 0 then st\<lparr>crc_errors := crc_errors st + 1\<rparr>
      else st\<lparr>zero_rx := zero_rx st + 1\<rparr>)"

definition dspi_dma_isr :: "'q rtos_queue \<Rightarrow> bool \<Rightarrow> nat \<Rightarrow> 'q dspi \<Rightarrow> 'q dspi" where
  "dspi_dma_isr Q ours k st =
     (if \<not> ours then st
      else
        let st = st\<lparr>isr_count := isr_count st + 1\<rparr>;
            finished = rx_live st;
            st = st\<lparr>rx_live := rx_live st XOR 1\<rparr>;
            nt = next_tx st;
            sent_real = (nt \<noteq> TxIdle);
            st = arm_dma k nt (st\<lparr>next_tx := TxIdle\<rparr>);
            st = (if sent_real then st\<lparr>tx_count := tx_count st + 1\<rparr> else st)
        in dspi_rx_frame Q (rx_bufs st ! unat finished) st)"

definition dspi_cs_isr :: "bool \<Rightarrow> 'q dspi \<Rightarrow> 'q dspi" where
  "dspi_cs_isr fell st = (if \<not> fell then st else st\<lparr>cs_edges := cs_edges st + 1\<rparr>)"

section \<open>The frame task\<close>

text \<open>\<^verbatim>\<open>resync_if_stalled\<close> reads the overrun flag and the receive channel's transfer count.\<close>

definition resync_if_stalled :: "bool \<Rightarrow> u32 \<Rightarrow> nat \<Rightarrow> 'q dspi \<Rightarrow> bool \<times> 'q dspi" where
  "resync_if_stalled ror remaining k st =
     (let st = (if ror then st\<lparr>overruns := overruns st + 1\<rparr> else st) in
      if remaining = 64 \<or> remaining = 0 then (False, st\<lparr>prev_remaining := remaining\<rparr>)
      else
        let previous = prev_remaining st;
            st = st\<lparr>prev_remaining := remaining\<rparr>
        in if remaining \<noteq> previous then (False, st)
           else
             let st = st\<lparr>last_partial := remaining\<rparr>;
                 st = arm_dma k TxIdle (st\<lparr>next_tx := TxIdle\<rparr>)
             in (True, st\<lparr>prev_remaining := 64, resyncs := resyncs st + 1\<rparr>))"

definition dspi_tx_pending :: "'q rtos_queue \<Rightarrow> 'q dspi \<Rightarrow> bool" where
  "dspi_tx_pending Q st =
     (case tx_queue st of None \<Rightarrow> False | Some q \<Rightarrow> next_tx st \<noteq> TxIdle \<or> q_waiting Q q > 0)"

definition set_irq_line :: "bool \<Rightarrow> 'q dspi \<Rightarrow> 'q dspi" where
  "set_irq_line asserted st = st\<lparr>irq_line := asserted\<rparr>"

definition dspi_stage_next :: "'q rtos_queue \<Rightarrow> 'q dspi \<Rightarrow> 'q dspi" where
  "dspi_stage_next Q st =
     (case tx_queue st of None \<Rightarrow> st
      | Some q \<Rightarrow>
          if next_tx st = TxIdle \<and> q_waiting Q q > 0 then
            (case q_recv Q 0 q of None \<Rightarrow> st
             | Some (msg, q') \<Rightarrow>
                 let has_more = q_waiting Q q' > 0 in
                 st\<lparr>tx_queue := Some q',
                    tx_stage := dspi_build_frame (msg_type msg) (Some (msg_payload msg)) (msg_len msg)
                      has_more (msg_flags msg),
                    next_tx := TxStage\<rparr>)
          else st)"

text \<open>One turn of the task's endless loop, from a wake-up to the next wait.\<close>

definition dspi_task_turn :: "'q rtos_queue \<Rightarrow> bool \<Rightarrow> u32 \<Rightarrow> nat \<Rightarrow> 'q dspi \<Rightarrow> 'q dspi" where
  "dspi_task_turn Q ror remaining k st =
     (let st = snd (resync_if_stalled ror remaining k st);
          st = dspi_stage_next Q st
      in set_irq_line (dspi_tx_pending Q st) st)"

section \<open>Initialisation and the queue interface\<close>

text \<open>The static initial values, and what the SDK and the kernel answer during \<^verbatim>\<open>dspi_init\<close>.\<close>

definition dspi_boot :: "'q dspi" where
  "dspi_boot = \<lparr>rx_queue = None, tx_queue = None, rx_bufs = [replicate 64 0, replicate 64 0],
     rx_live = 0, idle_frame = replicate 64 0, tx_stage = replicate 64 0, next_tx = TxNull,
     dma_tx = TxNull, tx_fifo = [], irq_line = False, isr_count = 0, cs_edges = 0, last_partial = 0,
     prev_remaining = 64, overruns = 0, rx_count = 0, idle_rx = 0, zero_rx = 0, tx_count = 0,
     crc_errors = 0, rx_dropped = 0, resyncs = 0\<rparr>"

record 'q dspi_init_env =
  new_rx_queue :: "'q option"
  new_tx_queue :: "'q option"
  claimed_rx_chan :: int
  claimed_tx_chan :: int
  task_created :: bool

definition dspi_init :: "'q dspi_init_env \<Rightarrow> nat \<Rightarrow> 'q dspi \<Rightarrow> bool \<times> 'q dspi" where
  "dspi_init env k st =
     (if rx_queue st \<noteq> None then (True, st)
      else
        let st = st\<lparr>rx_queue := new_rx_queue env, tx_queue := new_tx_queue env\<rparr> in
        if rx_queue st = None \<or> tx_queue st = None then (False, st\<lparr>rx_queue := None\<rparr>)
        else
          let st = st\<lparr>idle_frame := dspi_build_frame DSPI_TYPE_IDLE None 0 False 0, next_tx := TxIdle\<rparr>;
              st = set_irq_line False st
          in if claimed_rx_chan env < 0 \<or> claimed_tx_chan env < 0 then (False, st\<lparr>rx_queue := None\<rparr>)
             else if \<not> task_created env then (False, st\<lparr>rx_queue := None\<rparr>)
             else (True, arm_dma k TxIdle st))"

text \<open>\<^verbatim>\<open>dspi_send\<close>; \<open>payload\<close> is the memory the pointer starts at, \<open>None\<close> a null pointer, and
  \<open>len\<close> a \<^verbatim>\<open>size_t\<close>.\<close>

definition dspi_send :: "'q rtos_queue \<Rightarrow> u8 \<Rightarrow> bytes option \<Rightarrow> nat \<Rightarrow> nat \<Rightarrow> u8 \<Rightarrow> 'q dspi \<Rightarrow> bool \<times> 'q dspi" where
  "dspi_send Q ty payload len wait flags st =
     (case tx_queue st of None \<Rightarrow> (False, st)
      | Some q \<Rightarrow>
          if len > DSPI_PAYLOAD_MAX then (False, st)
          else
            let buf = replicate 58 0;
                buf = (case payload of None \<Rightarrow> buf
                       | Some p \<Rightarrow> if len > 0 then memcpy_at 0 (take len p) buf else buf);
                msg = \<lparr>msg_type = ty, msg_len = of_nat len, msg_flags = flags, msg_payload = buf\<rparr>
            in case q_send Q wait msg q of
                 None \<Rightarrow> (False, st)
               | Some q' \<Rightarrow> (True, set_irq_line True (st\<lparr>tx_queue := Some q'\<rparr>)))"

definition dspi_receive :: "'q rtos_queue \<Rightarrow> nat \<Rightarrow> 'q dspi \<Rightarrow> dspi_msg option \<times> 'q dspi" where
  "dspi_receive Q wait st =
     (case rx_queue st of None \<Rightarrow> (None, st)
      | Some q \<Rightarrow> (case q_recv Q wait q of None \<Rightarrow> (None, st)
                   | Some (m, q') \<Rightarrow> (Some m, st\<lparr>rx_queue := Some q'\<rparr>)))"

section \<open>Runs\<close>

text \<open>
  What can happen to the slave, one atomic action at a time: the master clocks a whole frame (the
  receive channel fills the live buffer and its completion interrupt runs), a foreign interrupt on
  the shared line, a chip select edge, one turn of the task, and the two calls of the application.
\<close>

datatype dspi_event =
    Exchange bytes nat
  | ForeignIrq
  | CsEdge bool
  | TaskTurn bool u32 nat
  | SendCall u8 "bytes option" nat nat u8
  | ReceiveCall nat

datatype dspi_out = Wire bytes | Sent bool | Received "dspi_msg option" | Quiet

fun dspi_event_step :: "'q rtos_queue \<Rightarrow> dspi_event \<Rightarrow> 'q dspi \<Rightarrow> dspi_out \<times> 'q dspi" where
  "dspi_event_step Q (Exchange inb k) st =
     (Wire (wire_out st),
      dspi_dma_isr Q True k (st\<lparr>rx_bufs := (rx_bufs st)[unat (rx_live st) := inb]\<rparr>))"
| "dspi_event_step Q ForeignIrq st = (Quiet, dspi_dma_isr Q False 0 st)"
| "dspi_event_step Q (CsEdge fell) st = (Quiet, dspi_cs_isr fell st)"
| "dspi_event_step Q (TaskTurn ror remaining k) st = (Quiet, dspi_task_turn Q ror remaining k st)"
| "dspi_event_step Q (SendCall ty payload len wait flags) st =
     map_prod Sent id (dspi_send Q ty payload len wait flags st)"
| "dspi_event_step Q (ReceiveCall wait) st = map_prod Received id (dspi_receive Q wait st)"

fun dspi_run :: "'q rtos_queue \<Rightarrow> dspi_event list \<Rightarrow> 'q dspi \<Rightarrow> dspi_out list \<times> 'q dspi" where
  "dspi_run Q [] st = ([], st)"
| "dspi_run Q (ev # evs) st =
     (let (out, st') = dspi_event_step Q ev st; (outs, st'') = dspi_run Q evs st' in (out # outs, st''))"

fun event_ok :: "dspi_event \<Rightarrow> bool" where
  "event_ok (Exchange inb k) \<longleftrightarrow> length inb = 64"
| "event_ok (SendCall ty payload len wait flags) \<longleftrightarrow>
     (case payload of None \<Rightarrow> True | Some p \<Rightarrow> len \<le> length p)"
| "event_ok _ \<longleftrightarrow> True"

text \<open>States the slave can be in after a successful start with freshly created queues.\<close>

inductive dspi_reach :: "'q rtos_queue \<Rightarrow> 'q dspi \<Rightarrow> bool" for Q where
  start: "\<lbrakk>dspi_init env k dspi_boot = (True, st); new_rx_queue env = Some rq; new_tx_queue env = Some tq;
     q_waiting Q rq = 0; q_waiting Q tq = 0\<rbrakk> \<Longrightarrow> dspi_reach Q st"
| step: "\<lbrakk>dspi_reach Q st; event_ok ev\<rbrakk> \<Longrightarrow> dspi_reach Q (snd (dspi_event_step Q ev st))"

section \<open>Invariant\<close>

definition dspi_inv :: "'q rtos_queue \<Rightarrow> ('q \<Rightarrow> dspi_msg list) \<Rightarrow> 'q dspi \<Rightarrow> bool" where
  "dspi_inv Q items st \<longleftrightarrow>
     rx_queue st \<noteq> None \<and> (\<exists>q. tx_queue st = Some q \<and> list_all msg_wf (items q)) \<and>
     length (rx_bufs st) = 2 \<and> list_all (\<lambda>b. length b = 64) (rx_bufs st) \<and> rx_live st \<in> {0, 1} \<and>
     idle_frame st = dspi_build_frame DSPI_TYPE_IDLE None 0 False 0 \<and> length (tx_stage st) = 64 \<and>
     next_tx st \<in> {TxIdle, TxStage} \<and> dma_tx st \<in> {TxIdle, TxStage} \<and> length (tx_fifo st) \<le> 64 \<and>
     (dspi_tx_pending Q st \<longrightarrow> irq_line st) \<and>
     isr_count st = rx_count st + rx_dropped st + idle_rx st + zero_rx st + crc_errors st"

lemma idle_frame_length: "length (dspi_build_frame DSPI_TYPE_IDLE None 0 False 0) = 64"
  by (simp add: dspi_build_frame_fields)

lemma tx_contents_length [simp]:
  "dspi_inv Q items st \<Longrightarrow> b \<in> {TxIdle, TxStage} \<Longrightarrow> length (tx_contents st b) = 64"
  by (auto simp: dspi_inv_def tx_contents_def idle_frame_length)

lemma wire_out_length: "dspi_inv Q items st \<Longrightarrow> length (wire_out st) = 64"
  using tx_contents_length [of Q items st "dma_tx st"]
  by (simp add: wire_out_def dspi_inv_def)

lemma msg_wf_frame_msg: "frame_header_ok f \<Longrightarrow> length f = 64 \<Longrightarrow> msg_wf (frame_msg f)"
  by (simp add: msg_wf_def frame_msg_def frame_header_ok_def)

text \<open>The interrupt's bookkeeping before validation, on a state that satisfies the invariant up to
  the counter balance.\<close>

lemma rx_frame_frame [simp]:
  "tx_queue (dspi_rx_frame Q f st) = tx_queue st" "rx_bufs (dspi_rx_frame Q f st) = rx_bufs st"
  "rx_live (dspi_rx_frame Q f st) = rx_live st" "idle_frame (dspi_rx_frame Q f st) = idle_frame st"
  "tx_stage (dspi_rx_frame Q f st) = tx_stage st" "next_tx (dspi_rx_frame Q f st) = next_tx st"
  "dma_tx (dspi_rx_frame Q f st) = dma_tx st" "tx_fifo (dspi_rx_frame Q f st) = tx_fifo st"
  "irq_line (dspi_rx_frame Q f st) = irq_line st" "isr_count (dspi_rx_frame Q f st) = isr_count st"
  "tx_count (dspi_rx_frame Q f st) = tx_count st"
  "dspi_tx_pending Q (dspi_rx_frame Q f st) = dspi_tx_pending Q st"
  "rx_queue st \<noteq> None \<Longrightarrow> rx_queue (dspi_rx_frame Q f st) \<noteq> None"
  by (auto simp: dspi_rx_frame_def dspi_tx_pending_def split: option.splits)

lemma rx_frame_counts:
  "rx_count (dspi_rx_frame Q f st) + rx_dropped (dspi_rx_frame Q f st) + idle_rx (dspi_rx_frame Q f st)
     + zero_rx (dspi_rx_frame Q f st) + crc_errors (dspi_rx_frame Q f st)
   = rx_count st + rx_dropped st + idle_rx st + zero_rx st + crc_errors st + 1"
  by (simp add: dspi_rx_frame_def split: option.splits)

lemma xor_1_live: "x \<in> {0, 1} \<Longrightarrow> x XOR 1 \<in> {0, 1 :: u8}"
  by auto

lemma arm_dma_frame [simp]:
  "tx_queue (arm_dma k b st) = tx_queue st" "rx_queue (arm_dma k b st) = rx_queue st"
  "rx_bufs (arm_dma k b st) = rx_bufs st" "rx_live (arm_dma k b st) = rx_live st"
  "idle_frame (arm_dma k b st) = idle_frame st" "tx_stage (arm_dma k b st) = tx_stage st"
  "next_tx (arm_dma k b st) = next_tx st" "dma_tx (arm_dma k b st) = b"
  "tx_fifo (arm_dma k b st) = take k (tx_contents st b)" "irq_line (arm_dma k b st) = irq_line st"
  "isr_count (arm_dma k b st) = isr_count st" "rx_count (arm_dma k b st) = rx_count st"
  "rx_dropped (arm_dma k b st) = rx_dropped st" "idle_rx (arm_dma k b st) = idle_rx st"
  "zero_rx (arm_dma k b st) = zero_rx st" "crc_errors (arm_dma k b st) = crc_errors st"
  "tx_count (arm_dma k b st) = tx_count st" "prev_remaining (arm_dma k b st) = prev_remaining st"
  "dspi_tx_pending Q (arm_dma k b st) = dspi_tx_pending Q st"
  by (simp_all add: arm_dma_def dspi_tx_pending_def split: option.splits)

lemma isr_inv:
  assumes inv: "dspi_inv Q items st" and inb: "length inb = 64"
  shows "dspi_inv Q items (dspi_dma_isr Q True k (st\<lparr>rx_bufs := (rx_bufs st)[unat (rx_live st) := inb]\<rparr>))"
    (is "dspi_inv Q items (dspi_dma_isr Q True k ?s)")
proof -
  have pend: "dspi_tx_pending Q (st'\<lparr>next_tx := TxIdle\<rparr>) \<Longrightarrow> dspi_tx_pending Q st'" for st' :: "'a dspi"
    by (auto simp: dspi_tx_pending_def split: option.splits)
  have bufs: "length (rx_bufs ?s) = 2" "list_all (\<lambda>b. length b = 64) (rx_bufs ?s)"
    using inv inb by (auto simp: dspi_inv_def list_all_iff dest: set_update_subset_insert [THEN subsetD])
  have l: "length (tx_contents st (next_tx st)) = 64"
    using inv by (intro tx_contents_length [OF inv]) (simp add: dspi_inv_def)
  have tp [simp]: "dspi_tx_pending Q (x\<lparr>isr_count := a, rx_live := b, next_tx := TxIdle\<rparr>) \<longleftrightarrow>
      dspi_tx_pending Q (x\<lparr>next_tx := TxIdle\<rparr>)" for x :: "'a dspi" and a b
    by (simp add: dspi_tx_pending_def split: option.splits)
  show ?thesis
    using inv bufs l xor_1_live [of "rx_live st"]
    unfolding dspi_dma_isr_def Let_def dspi_inv_def rx_frame_counts
    by (auto simp: rx_frame_counts tx_contents_def dspi_tx_pending_def idle_frame_length
        simp del: insert_iff split: option.splits if_splits)
qed

lemma resync_frame [simp]:
  "tx_queue (snd (resync_if_stalled ror r k st)) = tx_queue st"
  "rx_queue (snd (resync_if_stalled ror r k st)) = rx_queue st"
  "tx_stage (snd (resync_if_stalled ror r k st)) = tx_stage st"
  "idle_frame (snd (resync_if_stalled ror r k st)) = idle_frame st"
  "rx_dropped (snd (resync_if_stalled ror r k st)) = rx_dropped st"
  by (simp_all add: resync_if_stalled_def Let_def arm_dma_def)

lemma stage_next_rx [simp]:
  "rx_queue (dspi_stage_next Q st) = rx_queue st" "rx_dropped (dspi_stage_next Q st) = rx_dropped st"
  by (simp_all add: dspi_stage_next_def Let_def split: option.splits)

lemma task_turn_rx [simp]:
  "rx_queue (dspi_task_turn Q ror r k st) = rx_queue st"
  "rx_dropped (dspi_task_turn Q ror r k st) = rx_dropped st"
  by (simp_all add: dspi_task_turn_def Let_def set_irq_line_def)

lemma resync_inv:
  assumes "dspi_inv Q items st"
  shows "dspi_inv Q items (snd (resync_if_stalled ror r k st))"
proof -
  have "length (idle_frame st) = 64" using assms by (simp add: dspi_inv_def idle_frame_length)
  then show ?thesis
    using assms
    by (auto simp: resync_if_stalled_def Let_def dspi_inv_def dspi_tx_pending_def tx_contents_def
        simp del: insert_iff split: option.splits if_splits)
qed

lemma stage_next_inv:
  assumes laws: "rtos_queue_laws Q items" and inv: "dspi_inv Q items st"
  shows "dspi_inv Q items (set_irq_line (dspi_tx_pending Q (dspi_stage_next Q st)) (dspi_stage_next Q st))"
proof -
  have irq: "dspi_tx_pending Q (set_irq_line b st') = dspi_tx_pending Q st'" for b and st' :: "'a dspi"
    by (simp add: dspi_tx_pending_def set_irq_line_def split: option.splits)
  obtain q where q: "tx_queue st = Some q" "list_all msg_wf (items q)"
    using inv by (auto simp: dspi_inv_def)
  show ?thesis
  proof (cases "next_tx st = TxIdle \<and> q_waiting Q q > 0")
    case True
    then obtain m ms where "items q = m # ms"
      using rtos_waiting [OF laws, of q] by (cases "items q") auto
    then obtain q' where q': "q_recv Q 0 q = Some (m, q')" "items q' = ms"
      using rtos_recv_cons [OF laws, of q m ms 0] by blast
    have m: "msg_wf m" "list_all msg_wf (items q')"
      using q \<open>items q = m # ms\<close> q' by auto
    have "length (dspi_build_frame (msg_type m) (Some (msg_payload m)) (msg_len m) b (msg_flags m)) = 64" for b
      using m by (simp add: msg_wf_def dspi_build_frame_fields)
    then show ?thesis
      using True q q' m inv unfolding dspi_inv_def irq
      by (simp add: dspi_stage_next_def set_irq_line_def Let_def)
  next
    case False
    then have "dspi_stage_next Q st = st" using q by (auto simp: dspi_stage_next_def)
    then show ?thesis using inv by (simp add: dspi_inv_def irq) (simp add: set_irq_line_def)
  qed
qed

lemma task_turn_inv:
  "rtos_queue_laws Q items \<Longrightarrow> dspi_inv Q items st \<Longrightarrow> dspi_inv Q items (dspi_task_turn Q ror r k st)"
  unfolding dspi_task_turn_def Let_def by (intro stage_next_inv resync_inv)

text \<open>The message a send queues: the first \<open>len\<close> bytes of the payload, then zeros.\<close>

definition sent_msg :: "u8 \<Rightarrow> bytes option \<Rightarrow> nat \<Rightarrow> u8 \<Rightarrow> dspi_msg" where
  "sent_msg ty payload len flags = \<lparr>msg_type = ty, msg_len = of_nat len, msg_flags = flags,
     msg_payload = pad_payload (case payload of None \<Rightarrow> [] | Some p \<Rightarrow> take len p)\<rparr>"

lemma send_fill:
  assumes "len \<le> 58"
  shows "(case payload of None \<Rightarrow> replicate 58 0
          | Some p \<Rightarrow> if len > 0 then memcpy_at 0 (take len p) (replicate 58 0) else replicate 58 0)
      = pad_payload (case payload of None \<Rightarrow> [] | Some p \<Rightarrow> take len p)"
  using assms by (auto simp: pad_payload_def memcpy_at_def split: option.splits)

lemma dspi_send_eq:
  "dspi_send Q ty payload len wait flags st =
     (case tx_queue st of None \<Rightarrow> (False, st)
      | Some q \<Rightarrow> if len > 58 then (False, st)
          else case q_send Q wait (sent_msg ty payload len flags) q of
                 None \<Rightarrow> (False, st)
               | Some q' \<Rightarrow> (True, set_irq_line True (st\<lparr>tx_queue := Some q'\<rparr>)))"
  unfolding dspi_send_def Let_def sent_msg_def using send_fill [of len payload]
  by (auto split: option.splits)

lemma sent_msg_wf: "len \<le> 58 \<Longrightarrow> msg_wf (sent_msg ty payload len flags)"
  by (auto simp: sent_msg_def msg_wf_def unat_of_nat_lt split: option.splits)

lemma send_inv:
  assumes "rtos_queue_laws Q items" and "dspi_inv Q items st"
  shows "dspi_inv Q items (snd (dspi_send Q ty payload len wait flags st))"
  using assms(2) sent_msg_wf [of len ty payload flags] rtos_send [OF assms(1)]
  by (auto simp: dspi_send_eq dspi_inv_def set_irq_line_def simp del: insert_iff split: option.splits)

lemma receive_inv:
  assumes "dspi_inv Q items st"
  shows "dspi_inv Q items (snd (dspi_receive Q wait st))"
  using assms
  by (auto simp: dspi_receive_def dspi_inv_def dspi_tx_pending_def simp del: insert_iff split: option.splits)

lemma dspi_init_inv:
  assumes laws: "rtos_queue_laws Q items" and init: "dspi_init env k dspi_boot = (True, st)"
    and qs: "new_rx_queue env = Some rq" "new_tx_queue env = Some tq" "q_waiting Q rq = 0" "q_waiting Q tq = 0"
  shows "dspi_inv Q items st"
proof -
  have "items tq = []" using rtos_waiting [OF laws, of tq] qs(4) by simp
  have st: "st = arm_dma k TxIdle (dspi_boot\<lparr>rx_queue := Some rq, tx_queue := Some tq,
      idle_frame := dspi_build_frame DSPI_TYPE_IDLE None 0 False 0, next_tx := TxIdle, irq_line := False\<rparr>)"
    using init qs by (simp add: dspi_init_def dspi_boot_def set_irq_line_def Let_def split: if_splits)
  show ?thesis
    using \<open>items tq = []\<close> qs(4)
    by (simp add: st dspi_inv_def dspi_boot_def tx_contents_def idle_frame_length dspi_tx_pending_def)
qed

lemma event_step_inv:
  assumes laws: "rtos_queue_laws Q items" and inv: "dspi_inv Q items st" and ok: "event_ok ev"
  shows "dspi_inv Q items (snd (dspi_event_step Q ev st))"
proof (cases ev)
  case (Exchange inb k)
  then show ?thesis using isr_inv [OF inv] ok by simp
next
  case (CsEdge fell)
  then show ?thesis
    using inv by (auto simp: dspi_cs_isr_def dspi_inv_def dspi_tx_pending_def simp del: insert_iff split: option.splits)
qed (use laws inv in \<open>simp_all add: task_turn_inv send_inv receive_inv dspi_dma_isr_def\<close>)

lemma dspi_reach_inv:
  assumes "rtos_queue_laws Q items" and "dspi_reach Q st"
  shows "dspi_inv Q items st"
  using assms(2)
proof induction
  case (start env k st rq tq)
  then show ?case using dspi_init_inv [OF assms(1)] by blast
next
  case (step st ev)
  then show ?case using event_step_inv [OF assms(1)] by blast
qed

text \<open>The interrupt is a re-arming of the channels followed by the validation.\<close>

definition isr_rearm :: "nat \<Rightarrow> 'q dspi \<Rightarrow> 'q dspi" where
  "isr_rearm k st =
     (let s = arm_dma k (next_tx st)
          (st\<lparr>isr_count := isr_count st + 1, rx_live := rx_live st XOR 1, next_tx := TxIdle\<rparr>)
      in if next_tx st \<noteq> TxIdle then s\<lparr>tx_count := tx_count st + 1\<rparr> else s)"

lemma dspi_dma_isr_rearm:
  "dspi_dma_isr Q True k st = dspi_rx_frame Q (rx_bufs st ! unat (rx_live st)) (isr_rearm k st)"
  by (simp add: dspi_dma_isr_def isr_rearm_def Let_def)

lemma isr_rearm_frame [simp]:
  "tx_queue (isr_rearm k st) = tx_queue st" "rx_queue (isr_rearm k st) = rx_queue st"
  "rx_dropped (isr_rearm k st) = rx_dropped st" "next_tx (isr_rearm k st) = TxIdle"
  "dma_tx (isr_rearm k st) = next_tx st" "tx_fifo (isr_rearm k st) = take k (tx_contents st (next_tx st))"
  "tx_stage (isr_rearm k st) = tx_stage st" "idle_frame (isr_rearm k st) = idle_frame st"
  "irq_line (isr_rearm k st) = irq_line st"
  by (simp_all add: isr_rearm_def Let_def tx_contents_def split: tx_buf.splits)

section \<open>Inbound order\<close>

text \<open>The messages the master's exchanges carry, and the ones \<^verbatim>\<open>dspi_receive\<close> handed out.\<close>

fun accepted_in :: "dspi_event \<Rightarrow> dspi_msg list" where
  "accepted_in (Exchange inb k) =
     (if frame_accepted inb \<and> inb ! OFF_TYPE \<noteq> DSPI_TYPE_IDLE then [frame_msg inb] else [])"
| "accepted_in _ = []"

fun received_out :: "dspi_out \<Rightarrow> dspi_msg list" where
  "received_out (Received (Some m)) = [m]"
| "received_out _ = []"

definition rx_items :: "('q \<Rightarrow> dspi_msg list) \<Rightarrow> 'q dspi \<Rightarrow> dspi_msg list" where
  "rx_items items st = (case rx_queue st of None \<Rightarrow> [] | Some q \<Rightarrow> items q)"

lemma rx_frame_items:
  assumes laws: "rtos_queue_laws Q items" and q: "rx_queue st = Some q"
  shows "\<exists>n \<le> 1. rx_dropped (dspi_rx_frame Q f st) = rx_dropped st + of_nat n \<and>
    (let acc = (if frame_accepted f \<and> f ! 1 \<noteq> 0 then [frame_msg f] else []);
         after = rx_items items (dspi_rx_frame Q f st)
     in subseq after (rx_items items st @ acc) \<and> (n = 0 \<longrightarrow> after = rx_items items st @ acc))"
proof (cases "frame_accepted f \<and> f ! 1 \<noteq> 0")
  case True
  then have a: "frame_header_ok f" "frame_crc_field f = dspi_crc16_ccitt f 62" "f ! 1 \<noteq> 0"
    by (simp_all add: frame_accepted_def)
  show ?thesis
  proof (cases "q_send Q 0 (frame_msg f) q")
    case None
    then show ?thesis using True a q
      by (intro exI [of _ 1]) (simp add: dspi_rx_frame_def rx_items_def Let_def list_emb_prefix)
  next
    case (Some q')
    then show ?thesis using True a q rtos_send [OF laws Some]
      by (intro exI [of _ 0]) (simp add: dspi_rx_frame_def rx_items_def Let_def)
  qed
next
  case False
  then show ?thesis using q
    by (intro exI [of _ 0]) (auto simp: dspi_rx_frame_def frame_accepted_def rx_items_def Let_def)
qed

lemma event_step_rx:
  assumes laws: "rtos_queue_laws Q items" and q: "rx_queue st \<noteq> None"
    and bufs: "unat (rx_live st) < length (rx_bufs st)"
    and step: "dspi_event_step Q ev st = (out, st')"
  shows "\<exists>n \<le> 1. rx_dropped st' = rx_dropped st + of_nat n \<and>
    subseq (received_out out @ rx_items items st') (rx_items items st @ accepted_in ev) \<and>
    (n = 0 \<longrightarrow> received_out out @ rx_items items st' = rx_items items st @ accepted_in ev)"
proof (cases ev)
  case (Exchange inb k)
  define mid where "mid = isr_rearm k (st\<lparr>rx_bufs := (rx_bufs st)[unat (rx_live st) := inb]\<rparr>)"
  have mid: "st' = dspi_rx_frame Q inb mid" "rx_queue mid = rx_queue st"
      "rx_dropped mid = rx_dropped st" and out: "out = Wire (wire_out st)"
    using step Exchange bufs by (auto simp: dspi_dma_isr_rearm mid_def)
  obtain q0 where "rx_queue mid = Some q0" using q mid(2) by fastforce
  from rx_frame_items [OF laws this, of inb]
  have "\<exists>n\<le>1. rx_dropped st' = rx_dropped st + of_nat n \<and>
      subseq (rx_items items st') (rx_items items st @ accepted_in ev) \<and>
      (n = 0 \<longrightarrow> rx_items items st' = rx_items items st @ accepted_in ev)"
    unfolding Let_def mid(1) [symmetric] using mid(2,3) by (simp only: rx_items_def Exchange accepted_in.simps)
  then show ?thesis by (simp only: out received_out.simps append_Nil)
next
  case (ReceiveCall wait)
  then show ?thesis
    using step q rtos_recv [OF laws]
    by (intro exI [of _ 0])
      (auto simp: dspi_receive_def rx_items_def split: option.splits)
next
  case (TaskTurn ror r k)
  then have "out = Quiet" "rx_queue st' = rx_queue st" "rx_dropped st' = rx_dropped st"
    using step by auto
  then show ?thesis
    using TaskTurn by (intro exI [of _ 0]) (simp add: rx_items_def)
next
  case (SendCall ty payload len wait flags)
  then show ?thesis
    using step
    by (intro exI [of _ 0])
      (auto simp: dspi_send_eq set_irq_line_def rx_items_def split: option.splits if_splits)
qed (use step in \<open>auto intro!: exI [of _ 0] simp: dspi_dma_isr_def dspi_cs_isr_def rx_items_def\<close>)

lemma run_rx:
  assumes laws: "rtos_queue_laws Q items"
  shows "dspi_inv Q items st \<Longrightarrow> list_all event_ok evs \<Longrightarrow> dspi_run Q evs st = (outs, st') \<Longrightarrow>
    \<exists>n \<le> length evs. rx_dropped st' = rx_dropped st + of_nat n \<and>
      subseq (concat (map received_out outs) @ rx_items items st')
        (rx_items items st @ concat (map accepted_in evs)) \<and>
      (n = 0 \<longrightarrow> concat (map received_out outs) @ rx_items items st'
        = rx_items items st @ concat (map accepted_in evs))"
proof (induction evs arbitrary: st outs)
  case Nil
  then show ?case by auto
next
  case (Cons ev evs)
  obtain out st1 where s1: "dspi_event_step Q ev st = (out, st1)" by force
  obtain outs' where s2: "dspi_run Q evs st1 = (outs', st')" and outs: "outs = out # outs'"
    using Cons.prems(3) s1 by (auto split: prod.splits)
  have inv1: "dspi_inv Q items st1"
    using event_step_inv [OF laws Cons.prems(1), of ev] Cons.prems(2) s1 by simp
  have b: "rx_queue st \<noteq> None" "unat (rx_live st) < length (rx_bufs st)"
    using Cons.prems(1) by (auto simp: dspi_inv_def)
  obtain n where n: "n \<le> 1" "rx_dropped st1 = rx_dropped st + of_nat n"
      "subseq (received_out out @ rx_items items st1) (rx_items items st @ accepted_in ev)"
      "n = 0 \<longrightarrow> received_out out @ rx_items items st1 = rx_items items st @ accepted_in ev"
    using event_step_rx [OF laws b s1] by blast
  obtain m where m: "m \<le> length evs" "rx_dropped st' = rx_dropped st1 + of_nat m"
      "subseq (concat (map received_out outs') @ rx_items items st')
        (rx_items items st1 @ concat (map accepted_in evs))"
      "m = 0 \<longrightarrow> concat (map received_out outs') @ rx_items items st'
        = rx_items items st1 @ concat (map accepted_in evs)"
    using Cons.IH [OF inv1 _ s2] Cons.prems(2) by auto
  have "subseq (received_out out @ concat (map received_out outs') @ rx_items items st')
      (received_out out @ rx_items items st1 @ concat (map accepted_in evs))"
    by (rule list_emb_append_mono [OF subseq_order.order_refl m(3)])
  moreover have "subseq (received_out out @ rx_items items st1 @ concat (map accepted_in evs))
      (rx_items items st @ accepted_in ev @ concat (map accepted_in evs))"
    using list_emb_append_mono [OF n(3) subseq_order.order_refl] by simp
  ultimately have "subseq (concat (map received_out outs) @ rx_items items st')
      (rx_items items st @ concat (map accepted_in (ev # evs)))"
    by (simp add: outs)
  moreover have "concat (map received_out outs) @ rx_items items st'
      = rx_items items st @ concat (map accepted_in (ev # evs))" if "n + m = 0"
    using that n(4) m(4) by (simp add: outs)
  ultimately show ?case
    using n(1,2) m(1,2) by (intro exI [of _ "n + m"]) (auto simp: algebra_simps)
qed

section \<open>Outbound delivery\<close>

definition tx_items :: "('q \<Rightarrow> dspi_msg list) \<Rightarrow> 'q dspi \<Rightarrow> dspi_msg list" where
  "tx_items items st = (case tx_queue st of None \<Rightarrow> [] | Some q \<Rightarrow> items q)"

text \<open>The frame a queued message becomes.\<close>

definition msg_frame :: "dspi_msg \<Rightarrow> bool \<Rightarrow> bytes" where
  "msg_frame m has_more =
     dspi_build_frame (msg_type m) (Some (msg_payload m)) (msg_len m) has_more (msg_flags m)"

lemma exchange_tx [simp]:
  fixes st :: "'q dspi" and Q inb k
  defines "st' \<equiv> snd (dspi_event_step Q (Exchange inb k) st)"
  shows "tx_queue st' = tx_queue st" "tx_items items st' = tx_items items st" "tx_stage st' = tx_stage st" "idle_frame st' = idle_frame st"
    "next_tx st' = TxIdle" "dma_tx st' = next_tx st" "tx_fifo st' = take k (tx_contents st (next_tx st))"
    "irq_line st' = irq_line st"
  by (simp_all add: st'_def dspi_dma_isr_rearm tx_contents_def tx_items_def split: tx_buf.splits)

lemma task_turn_healthy:
  "dspi_task_turn Q ror 64 k st =
    (let s = dspi_stage_next Q ((if ror then st\<lparr>overruns := overruns st + 1\<rparr> else st)\<lparr>prev_remaining := 64\<rparr>)
     in set_irq_line (dspi_tx_pending Q s) s)"
  by (simp add: dspi_task_turn_def resync_if_stalled_def Let_def)

lemma task_turn_stages:
  fixes st :: "'q dspi" and ror k
  assumes laws: "rtos_queue_laws Q items" and "next_tx st = TxIdle" and "tx_items items st = m # ms"
  defines "st' \<equiv> dspi_task_turn Q ror 64 k st"
  shows "tx_items items st' = ms" "tx_queue st' \<noteq> None" "tx_stage st' = msg_frame m (ms \<noteq> [])"
    "next_tx st' = TxStage" "dma_tx st' = dma_tx st" "tx_fifo st' = tx_fifo st"
    "idle_frame st' = idle_frame st" "irq_line st'"
proof -
  obtain q where q: "tx_queue st = Some q" "items q = m # ms"
    using assms(3) by (auto simp: tx_items_def split: option.splits)
  obtain q' where q': "q_recv Q 0 q = Some (m, q')" "items q' = ms"
    using rtos_recv_cons [OF laws q(2)] by blast
  have w: "q_waiting Q q > 0" "q_waiting Q q' > 0 \<longleftrightarrow> ms \<noteq> []"
    using rtos_waiting [OF laws] q q' by simp_all
  show "tx_items items st' = ms" "tx_queue st' \<noteq> None" "tx_stage st' = msg_frame m (ms \<noteq> [])"
    "next_tx st' = TxStage" "dma_tx st' = dma_tx st" "tx_fifo st' = tx_fifo st"
    "idle_frame st' = idle_frame st" "irq_line st'"
    using assms(2) q q' w
    by (simp_all add: st'_def task_turn_healthy dspi_stage_next_def Let_def set_irq_line_def tx_items_def
        msg_frame_def dspi_tx_pending_def)
qed

lemma task_turn_rests:
  fixes st :: "'q dspi" and ror k
  assumes laws: "rtos_queue_laws Q items" and "tx_queue st \<noteq> None" and "tx_items items st = []"
  defines "st' \<equiv> dspi_task_turn Q ror 64 k st"
  shows "tx_queue st' = tx_queue st" "tx_items items st' = []" "tx_stage st' = tx_stage st"
    "next_tx st' = next_tx st" "dma_tx st' = dma_tx st" "tx_fifo st' = tx_fifo st"
    "idle_frame st' = idle_frame st" "irq_line st' \<longleftrightarrow> next_tx st \<noteq> TxIdle"
proof -
  obtain q where q: "tx_queue st = Some q" "items q = []"
    using assms(2,3) by (auto simp: tx_items_def)
  have w: "q_waiting Q q = 0" using rtos_waiting [OF laws] q by simp
  show "tx_queue st' = tx_queue st" "tx_items items st' = []" "tx_stage st' = tx_stage st"
    "next_tx st' = next_tx st" "dma_tx st' = dma_tx st" "tx_fifo st' = tx_fifo st"
    "idle_frame st' = idle_frame st" "irq_line st' \<longleftrightarrow> next_tx st \<noteq> TxIdle"
    using q w
    by (simp_all add: st'_def task_turn_healthy dspi_stage_next_def Let_def set_irq_line_def tx_items_def
        dspi_tx_pending_def)
qed

lemma send_queues:
  fixes st :: "'q dspi"
  assumes laws: "rtos_queue_laws Q items" and sent: "fst (dspi_send Q ty payload len wait flags st)"
  defines "st' \<equiv> snd (dspi_send Q ty payload len wait flags st)"
  shows "tx_items items st' = tx_items items st @ [sent_msg ty payload len flags]" "tx_queue st' \<noteq> None"
    "tx_stage st' = tx_stage st" "next_tx st' = next_tx st" "dma_tx st' = dma_tx st" "tx_fifo st' = tx_fifo st"
    "idle_frame st' = idle_frame st" "len \<le> 58"
proof -
  obtain q where q: "tx_queue st = Some q" "len \<le> 58"
    using sent by (auto simp: dspi_send_eq split: option.splits if_splits)
  then obtain q' where q': "q_send Q wait (sent_msg ty payload len flags) q = Some q'"
    using sent by (auto simp: dspi_send_eq split: option.splits)
  then show "tx_items items st' = tx_items items st @ [sent_msg ty payload len flags]" "tx_queue st' \<noteq> None"
    "tx_stage st' = tx_stage st" "next_tx st' = next_tx st" "dma_tx st' = dma_tx st" "tx_fifo st' = tx_fifo st"
    "idle_frame st' = idle_frame st" "len \<le> 58"
    using q rtos_send [OF laws q'] by (simp_all add: st'_def dspi_send_eq set_irq_line_def tx_items_def)
qed

lemma wire_out_take:
  "tx_fifo st = take k f \<Longrightarrow> tx_contents st (dma_tx st) = f \<Longrightarrow> wire_out st = f"
  by (simp add: wire_out_def) (metis append_take_drop_id length_take min.cobounded1 min.commute take_take drop_take append_eq_conv_conj)

lemma sent_frame_parses:
  fixes ty flags has_more payload
  assumes "len \<le> 58" and "\<And>p. payload = Some p \<Longrightarrow> len \<le> length p"
  defines "f \<equiv> msg_frame (sent_msg ty payload len flags) has_more"
  shows "frame_accepted f" "frame_nb f = \<lparr>fr_type = ty, fr_len = of_nat len,
      fr_flags = flags OR (if has_more then 1 else 0),
      fr_payload = pad_payload (case payload of None \<Rightarrow> [] | Some p \<Rightarrow> take len p)\<rparr>"
proof -
  have u: "unat (of_nat len :: u8) = len" using assms(1) by (simp add: unat_of_nat_lt)
  have pad: "pad_payload (take len (pad_payload p)) = pad_payload p" if "length p \<le> len" for p
    using that assms(1) by (simp add: pad_payload_def replicate_add [symmetric])
  have len: "length (case payload of None \<Rightarrow> [] | Some p \<Rightarrow> take len p) \<le> len"
    by (simp split: option.splits)
  show "frame_accepted f"
    using assms(1) u by (simp add: f_def msg_frame_def sent_msg_def dspi_build_frame_fields)
  show "frame_nb f = \<lparr>fr_type = ty, fr_len = of_nat len, fr_flags = flags OR (if has_more then 1 else 0),
      fr_payload = pad_payload (case payload of None \<Rightarrow> [] | Some p \<Rightarrow> take len p)\<rparr>"
    using assms(1) u pad [OF len]
    by (simp add: f_def msg_frame_def sent_msg_def frame_nb_build used_payload_def)
qed

lemma run_cons:
  "dspi_run Q (ev # evs) st =
     (fst (dspi_event_step Q ev st) # fst (dspi_run Q evs (snd (dspi_event_step Q ev st))),
      snd (dspi_run Q evs (snd (dspi_event_step Q ev st))))"
  by (simp add: case_prod_beta Let_def)

lemma sent_true: "fst (dspi_event_step Q (SendCall ty payload len wait flags) st) = Sent True \<Longrightarrow>
    fst (dspi_send Q ty payload len wait flags st)"
  by (simp add: map_prod_def case_prod_beta)

text \<open>One message, sent to a slave at rest: the second exchange carries it.\<close>

lemma single_send_delivered:
  assumes laws: "rtos_queue_laws Q items" and rest: "next_tx st = TxIdle" "tx_items items st = []"
    and payload: "\<And>p. payload = Some p \<Longrightarrow> len \<le> length p"
    and run: "dspi_run Q [SendCall ty payload len wait flags, TaskTurn r1 64 k1, Exchange in1 k2,
        TaskTurn r2 64 k3, Exchange in2 k4] st = (outs, st')"
    and sent: "outs ! 0 = Sent True"
  shows "outs ! 4 = Wire (msg_frame (sent_msg ty payload len flags) False)"
    and "tx_items items st' = []" and "next_tx st' = TxIdle" and "dma_tx st' = TxIdle" and "len \<le> 58"
proof -
  define s1 where "s1 = snd (dspi_send Q ty payload len wait flags st)"
  define s2 where "s2 = dspi_task_turn Q r1 64 k1 s1"
  define s3 where "s3 = snd (dspi_event_step Q (Exchange in1 k2) s2)"
  define s4 where "s4 = dspi_task_turn Q r2 64 k3 s3"
  define s5 where "s5 = snd (dspi_event_step Q (Exchange in2 k4) s4)"
  have outs: "outs ! 4 = Wire (wire_out s4)" "st' = s5" and "fst (dspi_send Q ty payload len wait flags st)"
    using run sent
    by (simp_all add: run_cons s1_def s2_def s3_def s4_def s5_def map_prod_def case_prod_beta
        del: dspi_run.simps(2) flip: dspi_event_step.simps(1)) (auto simp: map_prod_def case_prod_beta)
  note q1 = send_queues [OF laws this(3), folded s1_def]
  have q2: "tx_items items s2 = []" "tx_queue s2 \<noteq> None" "next_tx s2 = TxStage"
      "tx_stage s2 = msg_frame (sent_msg ty payload len flags) False"
    using task_turn_stages [OF laws, of s1 "sent_msg ty payload len flags" "[]" r1 k1] q1 rest
    by (simp_all add: s2_def)
  have q3: "tx_items items s3 = []" "tx_queue s3 \<noteq> None" "next_tx s3 = TxIdle" "dma_tx s3 = TxStage"
      "tx_stage s3 = tx_stage s2" "tx_fifo s3 = take k2 (tx_stage s2)"
    using q2 unfolding s3_def by (simp_all add: tx_contents_def del: dspi_event_step.simps)
  note q4 = task_turn_rests [OF laws q3(2,1), of r2 k3, folded s4_def]
  have "wire_out s4 = tx_stage s2"
    by (rule wire_out_take [of _ k2]) (use q3 q4 in \<open>simp_all add: tx_contents_def\<close>)
  then show "outs ! 4 = Wire (msg_frame (sent_msg ty payload len flags) False)"
    using outs q2 by simp
  show "tx_items items st' = []" "next_tx st' = TxIdle" "dma_tx st' = TxIdle" "len \<le> 58"
    using q1 q3 q4 unfolding outs s5_def by (simp_all del: dspi_event_step.simps)
qed

text \<open>
  Two messages queued together: the task restages while the first frame is armed, so the exchange
  that should carry it takes \<open>k\<close> bytes of it (what the FIFO had) and the rest of the second frame.
\<close>

lemma restage_while_armed:
  assumes laws: "rtos_queue_laws Q items" and rest: "next_tx st = TxIdle" "tx_items items st = [a, b]"
    and wf: "msg_wf a" "msg_wf b" and k: "k \<le> 64"
    and run: "dspi_run Q [TaskTurn r1 64 k1, Exchange in1 k, TaskTurn r2 64 k3, Exchange in2 k4,
        TaskTurn r3 64 k5, Exchange in3 k6] st = (outs, st')"
  shows "outs ! 3 = Wire (take k (msg_frame a True) @ drop k (msg_frame b False))"
    and "outs ! 5 = Wire (msg_frame b False)" and "tx_items items st' = []"
    and "next_tx st' = TxIdle" and "dma_tx st' = TxIdle"
proof -
  define s1 where "s1 = dspi_task_turn Q r1 64 k1 st"
  define s2 where "s2 = snd (dspi_event_step Q (Exchange in1 k) s1)"
  define s3 where "s3 = dspi_task_turn Q r2 64 k3 s2"
  define s4 where "s4 = snd (dspi_event_step Q (Exchange in2 k4) s3)"
  define s5 where "s5 = dspi_task_turn Q r3 64 k5 s4"
  define s6 where "s6 = snd (dspi_event_step Q (Exchange in3 k6) s5)"
  have outs: "outs ! 3 = Wire (wire_out s3)" "outs ! 5 = Wire (wire_out s5)" "st' = s6"
    using run by (auto simp: run_cons s1_def s2_def s3_def s4_def s5_def s6_def
        simp del: dspi_run.simps(2))
  have len: "length (msg_frame a True) = 64"
    using wf by (simp add: msg_frame_def msg_wf_def dspi_build_frame_fields)
  note q1 = task_turn_stages [OF laws rest, of r1 k1, folded s1_def]
  have q2: "tx_items items s2 = [b]" "next_tx s2 = TxIdle" "dma_tx s2 = TxStage"
      "tx_fifo s2 = take k (msg_frame a True)"
    using q1 unfolding s2_def by (simp_all add: tx_contents_def del: dspi_event_step.simps)
  note q3 = task_turn_stages [OF laws q2(2,1), of r2 k3, folded s3_def]
  have q4: "tx_items items s4 = []" "tx_queue s4 \<noteq> None" "next_tx s4 = TxIdle" "dma_tx s4 = TxStage"
      "tx_stage s4 = msg_frame b False" "tx_fifo s4 = take k4 (msg_frame b False)"
    using q3 unfolding s4_def by (simp_all add: tx_contents_def del: dspi_event_step.simps)
  note q5 = task_turn_rests [OF laws q4(2,1), of r3 k5, folded s5_def]
  have "wire_out s3 = take k (msg_frame a True) @ drop k (msg_frame b False)"
    using q2 q3 len k by (simp add: wire_out_def tx_contents_def)
  moreover have "wire_out s5 = msg_frame b False"
    by (rule wire_out_take [of _ k4]) (use q4 q5 in \<open>simp_all add: tx_contents_def\<close>)
  ultimately show "outs ! 3 = Wire (take k (msg_frame a True) @ drop k (msg_frame b False))"
    "outs ! 5 = Wire (msg_frame b False)"
    using outs by simp_all
  show "tx_items items st' = []" "next_tx st' = TxIdle" "dma_tx st' = TxIdle"
    using q4 q5 unfolding outs s6_def by (simp_all del: dspi_event_step.simps)
qed

section \<open>Properties\<close>

text \<open>C10: in every reachable state of the slave the interrupt line is asserted whenever outbound data
  is pending, the next transmit buffer is always a valid 64-byte frame buffer, and every completed
  exchange is accounted for by exactly one of the five receive counters (modulo 2^32).\<close>

theorem dspi_reachable_sound:
  assumes "rtos_queue_laws Q items" and "dspi_reach Q st"
  shows "(dspi_tx_pending Q st \<longrightarrow> irq_line st) \<and>
    length (wire_out st) = 64 \<and>
    isr_count st = rx_count st + rx_dropped st + idle_rx st + zero_rx st + crc_errors st"
  using dspi_reach_inv [OF assms] wire_out_length [OF dspi_reach_inv [OF assms]] by (simp add: dspi_inv_def)

definition demo_env :: "dspi_msg list dspi_init_env" where
  "demo_env = \<lparr>new_rx_queue = Some [], new_tx_queue = Some [], claimed_rx_chan = 0, claimed_tx_chan = 1,
     task_created = True\<rparr>"

definition demo_up :: "dspi_msg list dspi" where
  "demo_up = snd (dspi_init demo_env 8 dspi_boot)"

lemma demo_up_simps:
  "dspi_init demo_env 8 dspi_boot = (True, demo_up)"
  "rx_queue demo_up = Some []" "tx_queue demo_up = Some []" "next_tx demo_up = TxIdle" "rx_live demo_up = 0"
  "rx_bufs demo_up = [replicate 64 0, replicate 64 0]"
  by (simp_all add: demo_up_def demo_env_def dspi_init_def dspi_boot_def Let_def set_irq_line_def)

lemma demo_up_reach: "dspi_reach (list_queue 8) demo_up"
  by (rule dspi_reach.start [OF demo_up_simps(1)]) (simp_all add: demo_env_def list_queue_def)

lemma demo_send:
  "fst (dspi_send (list_queue 8) 1 (Some [1, 2]) 2 0 2 demo_up)"
  by (simp add: dspi_send_eq demo_up_simps list_queue_def)

lemma dspi_reachable_sound_witness:
  "isr_count demo_up = rx_count demo_up + rx_dropped demo_up + idle_rx demo_up + zero_rx demo_up
     + crc_errors demo_up"
  using dspi_reachable_sound [OF list_queue_laws demo_up_reach] by blast

text \<open>C17: over any run from a reachable state, the messages handed out by dspi_receive followed by
  those still queued are a subsequence, in order, of what was queued before followed by the messages
  of the accepted non-idle frames; when the drop counter has not moved (and the run is shorter than
  2^32 events) nothing is missing.\<close>

theorem dspi_receives_in_order:
  assumes "rtos_queue_laws Q items" and "dspi_reach Q st" and "list_all event_ok evs"
    and "dspi_run Q evs st = (outs, st')"
  shows "subseq (concat (map received_out outs) @ rx_items items st')
      (rx_items items st @ concat (map accepted_in evs)) \<and>
    (rx_dropped st' = rx_dropped st \<and> length evs < 2 ^ 32 \<longrightarrow>
      concat (map received_out outs) @ rx_items items st' = rx_items items st @ concat (map accepted_in evs))"
proof -
  obtain n where n: "n \<le> length evs" "rx_dropped st' = rx_dropped st + of_nat n"
      "subseq (concat (map received_out outs) @ rx_items items st')
        (rx_items items st @ concat (map accepted_in evs))"
      "n = 0 \<longrightarrow> concat (map received_out outs) @ rx_items items st'
        = rx_items items st @ concat (map accepted_in evs)"
    using run_rx [OF assms(1) dspi_reach_inv [OF assms(1,2)] assms(3,4)] by blast
  have "n = 0" if "rx_dropped st' = rx_dropped st" "length evs < 2 ^ 32"
    using that n(1,2) unat_of_nat_lt [of n, where 'a = 32] by simp
  then show ?thesis using n(3,4) by blast
qed

lemma dspi_receives_in_order_witness:
  "\<exists>outs st'. dspi_run (list_queue 8) [Exchange (nb_build_frame 1 (Some [9]) 1 False) 8, ReceiveCall 0] demo_up
      = (outs, st') \<and>
    subseq (concat (map received_out outs) @ rx_items (\<lambda>q. q) st')
      [frame_msg (nb_build_frame 1 (Some [9]) 1 False)]"
proof -
  let ?evs = "[Exchange (nb_build_frame 1 (Some [9]) 1 False) 8, ReceiveCall 0]"
  have ok: "list_all event_ok ?evs" by (simp add: nb_build_frame_fields)
  obtain outs st' where run: "dspi_run (list_queue 8) ?evs demo_up = (outs, st')" by force
  have acc: "concat (map accepted_in ?evs) = [frame_msg (nb_build_frame 1 (Some [9]) 1 False)]"
    using nb_build_frame_fields [of 1 1 "Some [9]" False] by simp
  have "subseq (concat (map received_out outs) @ rx_items (\<lambda>q. q) st')
      (rx_items (\<lambda>q. q) demo_up @ concat (map accepted_in ?evs))"
    using dspi_receives_in_order [OF list_queue_laws demo_up_reach ok run] by blast
  then show ?thesis using run acc by (simp add: rx_items_def demo_up_simps)
qed

text \<open>a message accepted by dspi_send while the slave is at rest is on the wire in the second
  exchange after it, as a frame the host accepts and reads back exactly, with the MORE flag clear;
  the slave is then at rest again, so it is sent once.\<close>

theorem dspi_send_delivers:
  assumes "rtos_queue_laws Q items" and "next_tx st = TxIdle" and "tx_items items st = []"
    and "len \<le> length p"
    and "dspi_run Q [SendCall ty (Some p) len wait flags, TaskTurn r1 64 k1, Exchange in1 k2,
        TaskTurn r2 64 k3, Exchange in2 k4] st = (outs, st')"
    and "outs ! 0 = Sent True"
  shows "(\<exists>f. outs ! 4 = Wire f \<and> frame_accepted f \<and>
      frame_nb f = \<lparr>fr_type = ty, fr_len = of_nat len, fr_flags = flags,
        fr_payload = pad_payload (take len p)\<rparr>) \<and>
    tx_items items st' = [] \<and> next_tx st' = TxIdle \<and> dma_tx st' = TxIdle"
proof -
  note d = single_send_delivered [where payload = "Some p", OF assms(1-3) _ assms(5,6)]
  have "len \<le> 58" using d assms(4) by simp
  then show ?thesis
    using d assms(4) sent_frame_parses [of len "Some p" ty flags False] by simp
qed

lemma dspi_send_delivers_witness:
  "\<exists>f. fst (dspi_run (list_queue 8) [SendCall 1 (Some [1, 2]) 2 0 2, TaskTurn False 64 8,
      Exchange (replicate 64 0) 8, TaskTurn False 64 8, Exchange (replicate 64 0) 8] demo_up) ! 4 = Wire f \<and>
    frame_nb f = \<lparr>fr_type = 1, fr_len = 2, fr_flags = 2, fr_payload = pad_payload [1, 2]\<rparr>"
proof -
  let ?evs = "[SendCall 1 (Some [1, 2]) 2 0 2, TaskTurn False 64 8, Exchange (replicate 64 0) 8,
      TaskTurn False 64 8, Exchange (replicate 64 0) 8]"
  obtain outs st' where run: "dspi_run (list_queue 8) ?evs demo_up = (outs, st')" by force
  have sent: "outs ! 0 = Sent True"
    using run demo_send by (auto simp: run_cons map_prod_def case_prod_beta simp del: dspi_run.simps(2))
  have "tx_items (\<lambda>q. q) demo_up = []" by (simp add: tx_items_def demo_up_simps)
  from dspi_send_delivers [OF list_queue_laws demo_up_simps(4) this _ run sent]
  show ?thesis unfolding run by auto
qed

text \<open>C18: with two messages queued the task rewrites the staging buffer while it is armed: the exchange
  that should carry the first frame carries k bytes of it (what the transmit FIFO had taken) and the
  rest of the second frame, and the exchange after that carries the second frame again. The first
  message's own frame is never on the wire (the comment at dspi.cpp:55-57 says this cannot happen).\<close>

theorem dspi_restage_overwrites_armed_frame:
  assumes "rtos_queue_laws Q items" and "next_tx st = TxIdle" and "tx_items items st = [a, b]"
    and "msg_wf a" and "msg_wf b" and "k \<le> 64"
    and "dspi_run Q [TaskTurn r1 64 k1, Exchange in1 k, TaskTurn r2 64 k3, Exchange in2 k4,
        TaskTurn r3 64 k5, Exchange in3 k6] st = (outs, st')"
  shows "outs ! 3 = Wire (take k (msg_frame a True) @ drop k (msg_frame b False)) \<and>
    outs ! 5 = Wire (msg_frame b False) \<and>
    tx_items items st' = [] \<and> next_tx st' = TxIdle \<and> dma_tx st' = TxIdle"
  using restage_while_armed [OF assms] by blast

lemma dspi_restage_overwrites_armed_frame_witness:
  "(let a = \<lparr>msg_type = 1, msg_len = 1, msg_flags = 0, msg_payload = pad_payload [7]\<rparr>;
        b = \<lparr>msg_type = 2, msg_len = 1, msg_flags = 0, msg_payload = pad_payload [8]\<rparr>;
        outs = fst (dspi_run (list_queue 8) [TaskTurn False 64 8, Exchange (replicate 64 0) 8,
          TaskTurn False 64 8, Exchange (replicate 64 0) 8, TaskTurn False 64 8, Exchange (replicate 64 0) 8]
          (demo_up\<lparr>tx_queue := Some [a, b]\<rparr>))
    in outs ! 3 = Wire (take 8 (msg_frame a True) @ drop 8 (msg_frame b False)) \<and>
       outs ! 5 = Wire (msg_frame b False))"
proof -
  let ?a = "\<lparr>msg_type = 1, msg_len = 1, msg_flags = 0, msg_payload = pad_payload [7]\<rparr>"
  let ?b = "\<lparr>msg_type = 2, msg_len = 1, msg_flags = 0, msg_payload = pad_payload [8]\<rparr>"
  let ?evs = "[TaskTurn False 64 8, Exchange (replicate 64 0) 8, TaskTurn False 64 8,
      Exchange (replicate 64 0) 8, TaskTurn False 64 8, Exchange (replicate 64 0) 8]"
  let ?st = "demo_up\<lparr>tx_queue := Some [?a, ?b]\<rparr>"
  obtain outs st' where run: "dspi_run (list_queue 8) ?evs ?st = (outs, st')" by force
  have "next_tx ?st = TxIdle" "tx_items (\<lambda>q. q) ?st = [?a, ?b]" "msg_wf ?a" "msg_wf ?b"
    by (simp_all add: tx_items_def demo_up_simps msg_wf_def)
  from dspi_restage_overwrites_armed_frame [OF list_queue_laws this _ run]
  show ?thesis unfolding Let_def run by simp
qed

end
