(* ===== verification/I2cBus.thy ===== *)
theory I2cBus
  imports Prelude
begin

text \<open>
  The firmware's I2C bus, Firmware/northbridge/src/i2c_bus.cpp. The first half models commands,
  their execution on the SDK's transfer functions (a parameter) and the public transfer calls as
  functions of what \<^verbatim>\<open>run_sync\<close> does with a command. The second half models \<^verbatim>\<open>run_sync\<close> and the
  worker as the concurrent slot protocol they are: callers and worker take atomic steps on a shared
  table of transaction slots, and the lemmas say who owns a slot at each moment.
\<close>

section \<open>Commands\<close>

datatype i2c_op = OpWrite | OpRead | OpWriteRead

record i2c_cmd =
  cmd_addr :: u8
  cmd_op :: i2c_op
  cmd_rx_len :: u8
  cmd_slot :: int
  cmd_tx :: bytes

abbreviation (input) I2C_MAX_PAYLOAD :: nat where "I2C_MAX_PAYLOAD \<equiv> 32"
abbreviation (input) I2C_TXN_SLOTS :: nat where "I2C_TXN_SLOTS \<equiv> 4"
abbreviation (input) I2C_ERR_NOT_INIT :: int where "I2C_ERR_NOT_INIT \<equiv> -10"
abbreviation (input) I2C_ERR_ARG :: int where "I2C_ERR_ARG \<equiv> -11"
abbreviation (input) I2C_ERR_BUSY :: int where "I2C_ERR_BUSY \<equiv> -12"
abbreviation (input) I2C_ERR_QUEUE_FULL :: int where "I2C_ERR_QUEUE_FULL \<equiv> -13"
abbreviation (input) I2C_ERR_TIMEOUT :: int where "I2C_ERR_TIMEOUT \<equiv> -14"
abbreviation (input) I2C_ERR_NACK :: int where "I2C_ERR_NACK \<equiv> -15"

text \<open>The SDK's transfer functions over a device state: a return code, the bytes a read left in the
  buffer, and the new state. \<^verbatim>\<open>PICO_ERROR_TIMEOUT\<close> is the SDK's own constant.\<close>

record 'd i2c_sdk =
  sdk_write :: "u8 \<Rightarrow> bytes \<Rightarrow> bool \<Rightarrow> 'd \<Rightarrow> int \<times> 'd"
  sdk_read :: "u8 \<Rightarrow> nat \<Rightarrow> 'd \<Rightarrow> (int \<times> bytes) \<times> 'd"
  sdk_timeout :: int

definition map_sdk_rc :: "'d i2c_sdk \<Rightarrow> int \<Rightarrow> int" where
  "map_sdk_rc S rc = (if rc \<ge> 0 then rc else if rc = sdk_timeout S then I2C_ERR_TIMEOUT else I2C_ERR_NACK)"

definition execute :: "'d i2c_sdk \<Rightarrow> i2c_cmd \<Rightarrow> bytes \<Rightarrow> 'd \<Rightarrow> (int \<times> bytes) \<times> 'd" where
  "execute S cmd rx d =
     (let ((rc, rx), d) = (case cmd_op cmd of
          OpWrite \<Rightarrow> (let (rc, d) = sdk_write S (cmd_addr cmd) (cmd_tx cmd) False d in ((rc, rx), d))
        | OpRead \<Rightarrow> (let ((rc, bs), d) = sdk_read S (cmd_addr cmd) (unat (cmd_rx_len cmd)) d
                    in ((rc, memcpy_at 0 bs rx), d))
        | OpWriteRead \<Rightarrow>
            (let (rc, d) = sdk_write S (cmd_addr cmd) (cmd_tx cmd) True d in
             if rc < 0 then ((rc, rx), d)
             else let ((rc, bs), d) = sdk_read S (cmd_addr cmd) (unat (cmd_rx_len cmd)) d
                  in ((rc, memcpy_at 0 bs rx), d)))
      in ((map_sdk_rc S rc, rx), d))"

section \<open>The transfer calls\<close>

text \<open>What one call of \<^verbatim>\<open>run_sync\<close> meets: the bus not initialised, no free slot in time, a full command
  queue, a worker that does not finish in time (the command is executed all the same), or service.\<close>

datatype sync_case = NotInit | NoSlot | QueueFull | Late | Served

text \<open>\<^verbatim>\<open>run_sync\<close> as its caller sees it: the return value and, when it is not negative, the first
  \<open>rx_len\<close> bytes of the slot's receive buffer.\<close>

definition run_sync :: "'d i2c_sdk \<Rightarrow> sync_case \<Rightarrow> i2c_cmd \<Rightarrow> nat \<Rightarrow> 'd \<Rightarrow> (int \<times> bytes) \<times> 'd" where
  "run_sync S c cmd rx_len d =
     (case c of
        NotInit \<Rightarrow> ((I2C_ERR_NOT_INIT, []), d)
      | NoSlot \<Rightarrow> ((I2C_ERR_BUSY, []), d)
      | QueueFull \<Rightarrow> ((I2C_ERR_QUEUE_FULL, []), d)
      | Late \<Rightarrow> ((I2C_ERR_TIMEOUT, []), snd (execute S cmd (replicate 32 0) d))
      | Served \<Rightarrow>
          (let ((result, rx), d) = execute S cmd (replicate 32 0) d
           in ((result, if result \<ge> 0 then take rx_len rx else []), d)))"

text \<open>The calls below build a command and hand it to \<open>sync\<close>, which stands for \<^verbatim>\<open>run_sync\<close> under some
  schedule. A null pointer is \<open>None\<close>.\<close>

type_synonym 's i2c_sync = "i2c_cmd \<Rightarrow> nat \<Rightarrow> 's \<Rightarrow> (int \<times> bytes) \<times> 's"

definition i2c_write :: "'s i2c_sync \<Rightarrow> u8 \<Rightarrow> bytes option \<Rightarrow> nat \<Rightarrow> 's \<Rightarrow> int \<times> 's" where
  "i2c_write sync addr src len s =
     (case src of None \<Rightarrow> (I2C_ERR_ARG, s)
      | Some p \<Rightarrow>
          if len = 0 \<or> len > I2C_MAX_PAYLOAD then (I2C_ERR_ARG, s)
          else let ((rc, _), s) = sync \<lparr>cmd_addr = addr, cmd_op = OpWrite, cmd_rx_len = 0, cmd_slot = 0,
                     cmd_tx = take len p\<rparr> 0 s in (rc, s))"

definition i2c_read :: "'s i2c_sync \<Rightarrow> u8 \<Rightarrow> nat \<Rightarrow> 's \<Rightarrow> (int \<times> bytes) \<times> 's" where
  "i2c_read sync addr len s =
     (if len = 0 \<or> len > I2C_MAX_PAYLOAD then ((I2C_ERR_ARG, []), s)
      else sync \<lparr>cmd_addr = addr, cmd_op = OpRead, cmd_rx_len = of_nat len, cmd_slot = 0, cmd_tx = []\<rparr> len s)"

definition i2c_write_read :: "'s i2c_sync \<Rightarrow> u8 \<Rightarrow> bytes \<Rightarrow> nat \<Rightarrow> nat \<Rightarrow> 's \<Rightarrow> (int \<times> bytes) \<times> 's" where
  "i2c_write_read sync addr tx tx_len rx_len s =
     (if tx_len = 0 \<or> tx_len > I2C_MAX_PAYLOAD then ((I2C_ERR_ARG, []), s)
      else if rx_len = 0 \<or> rx_len > I2C_MAX_PAYLOAD then ((I2C_ERR_ARG, []), s)
      else sync \<lparr>cmd_addr = addr, cmd_op = OpWriteRead, cmd_rx_len = of_nat rx_len, cmd_slot = 0,
             cmd_tx = take tx_len tx\<rparr> rx_len s)"

definition i2c_read_reg :: "'s i2c_sync \<Rightarrow> u8 \<Rightarrow> u8 \<Rightarrow> nat \<Rightarrow> 's \<Rightarrow> (int \<times> bytes) \<times> 's" where
  "i2c_read_reg sync addr reg len s = i2c_write_read sync addr [reg] 1 len s"

definition i2c_write_reg :: "'s i2c_sync \<Rightarrow> u8 \<Rightarrow> u8 \<Rightarrow> bytes option \<Rightarrow> nat \<Rightarrow> 's \<Rightarrow> int \<times> 's" where
  "i2c_write_reg sync addr reg src len s =
     (case src of None \<Rightarrow> (I2C_ERR_ARG, s)
      | Some p \<Rightarrow>
          if len = 0 \<or> len + 1 > I2C_MAX_PAYLOAD then (I2C_ERR_ARG, s)
          else let ((rc, _), s) = sync \<lparr>cmd_addr = addr, cmd_op = OpWrite, cmd_rx_len = 0, cmd_slot = 0,
                     cmd_tx = reg # take len p\<rparr> 0 s in (rc, s))"

definition i2c_probe :: "'s i2c_sync \<Rightarrow> u8 \<Rightarrow> 's \<Rightarrow> bool \<times> 's" where
  "i2c_probe sync addr s = (let ((rc, _), s) = i2c_read sync addr 1 s in (rc \<ge> 0, s))"

text \<open>The fire-and-forget calls queue the command; \<open>post\<close> stands for \<^verbatim>\<open>post_async\<close>.\<close>

definition i2c_post_write :: "(i2c_cmd \<Rightarrow> 's \<Rightarrow> bool \<times> 's) \<Rightarrow> u8 \<Rightarrow> bytes option \<Rightarrow> nat \<Rightarrow> 's \<Rightarrow> bool \<times> 's" where
  "i2c_post_write post addr src len s =
     (case src of None \<Rightarrow> (False, s)
      | Some p \<Rightarrow>
          if len = 0 \<or> len > I2C_MAX_PAYLOAD then (False, s)
          else post \<lparr>cmd_addr = addr, cmd_op = OpWrite, cmd_rx_len = 0, cmd_slot = -1, cmd_tx = take len p\<rparr> s)"

definition i2c_post_write_reg ::
  "(i2c_cmd \<Rightarrow> 's \<Rightarrow> bool \<times> 's) \<Rightarrow> u8 \<Rightarrow> u8 \<Rightarrow> bytes option \<Rightarrow> nat \<Rightarrow> 's \<Rightarrow> bool \<times> 's" where
  "i2c_post_write_reg post addr reg src len s =
     (case src of None \<Rightarrow> (False, s)
      | Some p \<Rightarrow>
          if len = 0 \<or> len + 1 > I2C_MAX_PAYLOAD then (False, s)
          else post \<lparr>cmd_addr = addr, cmd_op = OpWrite, cmd_rx_len = 0, cmd_slot = -1,
                 cmd_tx = reg # take len p\<rparr> s)"

lemma sync_lengths:
  "i2c_write_reg sync addr reg (Some p) len s = (rc, s') \<Longrightarrow> rc \<noteq> I2C_ERR_ARG \<Longrightarrow> 0 < len \<and> len < 32"
  by (auto simp: i2c_write_reg_def split: if_splits)

section \<open>The slot protocol\<close>

text \<open>
  One transaction slot. \<open>served\<close> is a ghost: the command whose execution filled the slot last; no
  step's result depends on it. A caller is idle, waiting for its semaphore, past a wait that
  expired, holding a result (by the semaphore or, late, by the critical section), or finished.
\<close>

record i2c_txn =
  tx_done :: bool
  tx_result :: int
  tx_rx :: bytes
  tx_completed :: bool
  tx_abandoned :: bool
  served :: "i2c_cmd option"

datatype caller = CIdle | CWait nat i2c_cmd | CExpired nat i2c_cmd | CGot nat i2c_cmd | CReturn int bytes i2c_cmd
datatype worker = WIdle | WMarked nat bool

record 'd bus =
  cmd_queue :: "i2c_cmd list"
  free_slots :: "nat list"
  txns :: "i2c_txn list"
  dropped :: u32
  callers :: "nat \<Rightarrow> caller"
  worker :: worker
  device :: 'd

definition upd_txn :: "nat \<Rightarrow> (i2c_txn \<Rightarrow> i2c_txn) \<Rightarrow> 'd bus \<Rightarrow> 'd bus" where
  "upd_txn s f b = b\<lparr>txns := (txns b)[s := f (txns b ! s)]\<rparr>"

definition set_caller :: "nat \<Rightarrow> caller \<Rightarrow> 'd bus \<Rightarrow> 'd bus" where
  "set_caller c pc b = b\<lparr>callers := (callers b)(c := pc)\<rparr>"

definition release_slot :: "nat \<Rightarrow> 'd bus \<Rightarrow> 'd bus" where
  "release_slot s b = b\<lparr>free_slots := free_slots b @ [s]\<rparr>"

text \<open>Lines 119--139 of \<^verbatim>\<open>run_sync\<close>: acquire, reset, post. \<open>accepted\<close> is the kernel's answer to
  \<^verbatim>\<open>xQueueSend\<close> within the wait.\<close>

definition sync_begin :: "nat \<Rightarrow> i2c_cmd \<Rightarrow> bool \<Rightarrow> 'd bus \<Rightarrow> 'd bus option" where
  "sync_begin c cmd accepted b =
     (if callers b c \<noteq> CIdle then None
      else case free_slots b of
        [] \<Rightarrow> Some (set_caller c (CReturn I2C_ERR_BUSY [] cmd) b)
      | s # rest \<Rightarrow>
          let b = upd_txn s (\<lambda>t. t\<lparr>tx_completed := False, tx_abandoned := False,
                    tx_result := I2C_ERR_TIMEOUT, tx_done := False\<rparr>) (b\<lparr>free_slots := rest\<rparr>);
              cmd = cmd\<lparr>cmd_slot := int s\<rparr>
          in if accepted then Some (set_caller c (CWait s cmd) (b\<lparr>cmd_queue := cmd_queue b @ [cmd]\<rparr>))
             else Some (set_caller c (CReturn I2C_ERR_QUEUE_FULL [] cmd)
                    ((release_slot s b)\<lparr>dropped := dropped b + 1\<rparr>)))"

text \<open>Line 141: the semaphore is taken, or the wait expires without it.\<close>

definition sync_take :: "nat \<Rightarrow> 'd bus \<Rightarrow> 'd bus option" where
  "sync_take c b =
     (case callers b c of
        CWait s cmd \<Rightarrow>
          if tx_done (txns b ! s)
          then Some (set_caller c (CGot s cmd) (upd_txn s (\<lambda>t. t\<lparr>tx_done := False\<rparr>) b))
          else None
      | _ \<Rightarrow> None)"

definition sync_expire :: "nat \<Rightarrow> 'd bus \<Rightarrow> 'd bus option" where
  "sync_expire c b =
     (case callers b c of
        CWait s cmd \<Rightarrow> if tx_done (txns b ! s) then None else Some (set_caller c (CExpired s cmd) b)
      | _ \<Rightarrow> None)"

text \<open>Lines 143--156: the caller's critical section after a wait that expired.\<close>

definition sync_settle :: "nat \<Rightarrow> 'd bus \<Rightarrow> 'd bus option" where
  "sync_settle c b =
     (case callers b c of
        CExpired s cmd \<Rightarrow>
          if tx_completed (txns b ! s)
          then Some (set_caller c (CGot s cmd) (upd_txn s (\<lambda>t. t\<lparr>tx_done := False\<rparr>) b))
          else Some (set_caller c (CReturn I2C_ERR_TIMEOUT [] cmd) (upd_txn s (\<lambda>t. t\<lparr>tx_abandoned := True\<rparr>) b))
      | _ \<Rightarrow> None)"

text \<open>Lines 158--163: copy the result out and release the slot.\<close>

definition sync_collect :: "nat \<Rightarrow> nat \<Rightarrow> 'd bus \<Rightarrow> 'd bus option" where
  "sync_collect c rx_len b =
     (case callers b c of
        CGot s cmd \<Rightarrow>
          let result = tx_result (txns b ! s);
              rx = (if result \<ge> 0 then take rx_len (tx_rx (txns b ! s)) else [])
          in Some (release_slot s (set_caller c (CReturn result rx cmd) b))
      | _ \<Rightarrow> None)"

text \<open>The worker takes a command, executes it and, in \<^verbatim>\<open>finish\<close>, marks the slot completed inside a
  critical section; giving the semaphore or releasing the slot comes after it.\<close>

definition worker_mark :: "'d i2c_sdk \<Rightarrow> 'd bus \<Rightarrow> 'd bus option" where
  "worker_mark S b =
     (case worker b of WMarked _ _ \<Rightarrow> None
      | WIdle \<Rightarrow>
          (case cmd_queue b of [] \<Rightarrow> None
           | cmd # q \<Rightarrow>
               let b = b\<lparr>cmd_queue := q\<rparr> in
               if cmd_slot cmd \<ge> 0 then
                 let s = nat (cmd_slot cmd);
                     ((result, rx), d) = execute S cmd (tx_rx (txns b ! s)) (device b);
                     b = upd_txn s (\<lambda>t. t\<lparr>tx_result := result, tx_rx := rx, tx_completed := True,
                           served := Some cmd\<rparr>) (b\<lparr>device := d\<rparr>)
                 in Some (b\<lparr>worker := WMarked s (tx_abandoned (txns b ! s))\<rparr>)
               else Some (b\<lparr>device := snd (execute S cmd (replicate 32 0) (device b))\<rparr>)))"

definition worker_signal :: "'d bus \<Rightarrow> 'd bus option" where
  "worker_signal b =
     (case worker b of WIdle \<Rightarrow> None
      | WMarked s abandoned \<Rightarrow>
          let b = b\<lparr>worker := WIdle\<rparr> in
          if abandoned then Some (release_slot s b)
          else Some (upd_txn s (\<lambda>t. t\<lparr>tx_done := True\<rparr>) b))"

text \<open>The whole turn of the worker, when no caller runs between the two halves of \<^verbatim>\<open>finish\<close>: the
  worker's priority is above every caller's.\<close>

definition worker_turn :: "'d i2c_sdk \<Rightarrow> 'd bus \<Rightarrow> 'd bus option" where
  "worker_turn S b = (case worker_mark S b of None \<Rightarrow> None
     | Some b' \<Rightarrow> (case worker b' of WIdle \<Rightarrow> Some b' | WMarked _ _ \<Rightarrow> worker_signal b'))"

text \<open>\<^verbatim>\<open>post_async\<close>.\<close>

definition post_async :: "i2c_cmd \<Rightarrow> bool \<Rightarrow> 'd bus \<Rightarrow> bool \<times> 'd bus" where
  "post_async cmd accepted b =
     (let cmd = cmd\<lparr>cmd_slot := -1\<rparr> in
      if accepted then (True, b\<lparr>cmd_queue := cmd_queue b @ [cmd]\<rparr>)
      else (False, b\<lparr>dropped := dropped b + 1\<rparr>))"

text \<open>A finished caller may call again.\<close>

definition call_again :: "nat \<Rightarrow> 'd bus \<Rightarrow> 'd bus option" where
  "call_again c b = (case callers b c of CReturn _ _ _ \<Rightarrow> Some (set_caller c CIdle b) | _ \<Rightarrow> None)"

definition bus_init :: "'d \<Rightarrow> 'd bus" where
  "bus_init d = \<lparr>cmd_queue = [], free_slots = [0, 1, 2, 3],
     txns = replicate 4 \<lparr>tx_done = False, tx_result = 0, tx_rx = replicate 32 0, tx_completed = False,
       tx_abandoned = False, served = None\<rparr>,
     dropped = 0, callers = (\<lambda>_. CIdle), worker = WIdle, device = d\<rparr>"

datatype i2c_event =
    Begin nat i2c_cmd bool | Take nat | Expire nat | Settle nat | Collect nat nat | Again nat
  | Post i2c_cmd bool | WorkerTurn | WorkerMark | WorkerSignal

fun i2c_act :: "'d i2c_sdk \<Rightarrow> i2c_event \<Rightarrow> 'd bus \<Rightarrow> 'd bus option" where
  "i2c_act S (Begin c cmd accepted) b = sync_begin c cmd accepted b"
| "i2c_act S (Take c) b = sync_take c b"
| "i2c_act S (Expire c) b = sync_expire c b"
| "i2c_act S (Settle c) b = sync_settle c b"
| "i2c_act S (Collect c n) b = sync_collect c n b"
| "i2c_act S (Again c) b = call_again c b"
| "i2c_act S (Post cmd accepted) b = Some (snd (post_async cmd accepted b))"
| "i2c_act S WorkerTurn b = worker_turn S b"
| "i2c_act S WorkerMark b = worker_mark S b"
| "i2c_act S WorkerSignal b = worker_signal b"

text \<open>\<open>i2c_reach\<close> lets the worker finish a command in one turn; \<open>i2c_run\<close> runs any events.\<close>

inductive i2c_reach :: "'d i2c_sdk \<Rightarrow> 'd bus \<Rightarrow> bool" for S where
  init: "i2c_reach S (bus_init d)"
| step: "i2c_reach S b \<Longrightarrow> ev \<noteq> WorkerMark \<Longrightarrow> ev \<noteq> WorkerSignal \<Longrightarrow> i2c_act S ev b = Some b' \<Longrightarrow>
    i2c_reach S b'"

fun i2c_run :: "'d i2c_sdk \<Rightarrow> i2c_event list \<Rightarrow> 'd bus \<Rightarrow> 'd bus option" where
  "i2c_run S [] b = Some b"
| "i2c_run S (ev # evs) b = Option.bind (i2c_act S ev b) (i2c_run S evs)"

section \<open>Who owns a slot\<close>

fun caller_slot :: "caller \<Rightarrow> nat option" where
  "caller_slot (CWait s _) = Some s"
| "caller_slot (CExpired s _) = Some s"
| "caller_slot (CGot s _) = Some s"
| "caller_slot _ = None"

definition queued :: "'d bus \<Rightarrow> nat \<Rightarrow> i2c_cmd list" where
  "queued b s = filter (\<lambda>cmd. cmd_slot cmd = int s) (cmd_queue b)"

definition holders :: "'d bus \<Rightarrow> nat \<Rightarrow> (nat \<times> caller) set" where
  "holders b s = {(c, pc). callers b c = pc \<and> caller_slot pc = Some s}"

text \<open>The slot holds the outcome of executing \<open>cmd\<close>.\<close>

definition outcome_of :: "'d i2c_sdk \<Rightarrow> i2c_cmd \<Rightarrow> i2c_txn \<Rightarrow> bool" where
  "outcome_of S cmd t \<longleftrightarrow> served t = Some cmd \<and> (\<exists>rx d. fst (execute S cmd rx d) = (tx_result t, tx_rx t))"

text \<open>A slot is free; or held by one caller whose command is still queued; or held by one caller with
  its own result in it; or given up by its caller and kept busy by the queued command.\<close>

definition slot_ok :: "'d i2c_sdk \<Rightarrow> nat \<Rightarrow> bool \<Rightarrow> i2c_cmd list \<Rightarrow> i2c_txn \<Rightarrow> (nat \<times> caller) set \<Rightarrow> bool" where
  "slot_ok S s free q t H \<longleftrightarrow>
     (free \<and> q = [] \<and> H = {}) \<or>
     (\<not> free \<and> (\<exists>c cmd. (H = {(c, CWait s cmd)} \<or> H = {(c, CExpired s cmd)}) \<and> q = [cmd] \<and>
        \<not> tx_completed t \<and> \<not> tx_done t \<and> \<not> tx_abandoned t)) \<or>
     (\<not> free \<and> (\<exists>c cmd. (H = {(c, CWait s cmd)} \<and> tx_done t \<or> H = {(c, CExpired s cmd)} \<or>
        H = {(c, CGot s cmd)}) \<and> q = [] \<and> tx_completed t \<and> outcome_of S cmd t)) \<or>
     (\<not> free \<and> H = {} \<and> (\<exists>cmd. q = [cmd]) \<and> \<not> tx_completed t \<and> tx_abandoned t)"

definition bus_inv :: "'d i2c_sdk \<Rightarrow> 'd bus \<Rightarrow> bool" where
  "bus_inv S b \<longleftrightarrow> worker b = WIdle \<and> length (txns b) = 4 \<and> distinct (free_slots b) \<and>
     (\<forall>s. s \<in> set (free_slots b) \<longrightarrow> s < 4) \<and> (\<forall>c s. caller_slot (callers b c) = Some s \<longrightarrow> s < 4) \<and>
     (\<forall>cmd. cmd \<in> set (cmd_queue b) \<longrightarrow> cmd_slot cmd < 4) \<and>
     (\<forall>s < 4. slot_ok S s (s \<in> set (free_slots b)) (queued b s) (txns b ! s) (holders b s))"

lemma holders_set_caller:
  "holders (set_caller c pc b) s =
     (if caller_slot pc = Some s then {(c, pc)} else {}) \<union> {(c', pc'). (c', pc') \<in> holders b s \<and> c' \<noteq> c}"
  by (auto simp: holders_def set_caller_def)

lemma holders_self: "caller_slot (callers b c) = Some s \<Longrightarrow> (c, callers b c) \<in> holders b s"
  by (simp add: holders_def)

lemma holders_other: "caller_slot (callers b c) \<noteq> Some s \<Longrightarrow> (c, pc) \<notin> holders b s"
  by (auto simp: holders_def)

lemma bus_frame [simp]:
  "cmd_queue (set_caller c pc b) = cmd_queue b" "free_slots (set_caller c pc b) = free_slots b"
  "txns (set_caller c pc b) = txns b" "worker (set_caller c pc b) = worker b"
  "callers (set_caller c pc b) = (callers b)(c := pc)" "queued (set_caller c pc b) s = queued b s"
  "cmd_queue (upd_txn s f b) = cmd_queue b" "free_slots (upd_txn s f b) = free_slots b"
  "txns (upd_txn s f b) = (txns b)[s := f (txns b ! s)]" "worker (upd_txn s f b) = worker b"
  "callers (upd_txn s f b) = callers b" "queued (upd_txn s f b) u = queued b u"
  "holders (upd_txn s f b) u = holders b u"
  "cmd_queue (release_slot s b) = cmd_queue b" "free_slots (release_slot s b) = free_slots b @ [s]"
  "txns (release_slot s b) = txns b" "worker (release_slot s b) = worker b"
  "callers (release_slot s b) = callers b" "queued (release_slot s b) u = queued b u"
  "holders (release_slot s b) u = holders b u"
  by (simp_all add: set_caller_def upd_txn_def release_slot_def queued_def holders_def)

lemma holders_fields [simp]:
  "holders (b\<lparr>free_slots := x\<rparr>) s = holders b s" "holders (b\<lparr>cmd_queue := q\<rparr>) s = holders b s"
  "holders (b\<lparr>dropped := n\<rparr>) s = holders b s" "holders (b\<lparr>device := d\<rparr>) s = holders b s"
  "holders (b\<lparr>worker := w\<rparr>) s = holders b s" "queued (b\<lparr>free_slots := x\<rparr>) s = queued b s"
  "queued (b\<lparr>dropped := n\<rparr>) s = queued b s" "queued (b\<lparr>device := d\<rparr>) s = queued b s"
  "queued (b\<lparr>worker := w\<rparr>) s = queued b s"
  by (simp_all add: holders_def queued_def)

lemma slot_ok_at: "bus_inv S b \<Longrightarrow> s < 4 \<Longrightarrow>
    slot_ok S s (s \<in> set (free_slots b)) (queued b s) (txns b ! s) (holders b s)"
  by (simp add: bus_inv_def)

lemma bus_inv_globals:
  assumes "bus_inv S b"
  shows "worker b = WIdle" "length (txns b) = 4" "distinct (free_slots b)"
    "\<And>cmd. cmd \<in> set (cmd_queue b) \<Longrightarrow> cmd_slot cmd < 4"
    "\<And>c u. caller_slot (callers b c) = Some u \<Longrightarrow> u < 4"
    "\<And>s. s \<in> set (free_slots b) \<Longrightarrow> s < 4"
  using assms by (simp_all add: bus_inv_def)

lemma slot_ok_member:
  assumes "slot_ok S s fr q t H" and "x \<in> H"
  shows "\<not> fr \<and> H = {x}"
  using assms(1) unfolding slot_ok_def
  by (elim disjE conjE exE) (use assms(2) in simp_all)

text \<open>What the invariant says of a slot that some caller holds.\<close>

lemma held_slot:
  assumes "bus_inv S b" and "callers b c = pc" and "caller_slot pc = Some s"
  shows "s < 4" and "s \<notin> set (free_slots b)" and "holders b s = {(c, pc)}"
    and "slot_ok S s False (queued b s) (txns b ! s) {(c, pc)}"
proof -
  show s: "s < 4" using bus_inv_globals(5) [OF assms(1), of c s] assms(2,3) by simp
  have m: "(c, pc) \<in> holders b s" using assms(2,3) by (simp add: holders_def)
  show f: "s \<notin> set (free_slots b)" and h: "holders b s = {(c, pc)}"
    using slot_ok_member [OF slot_ok_at [OF assms(1) s] m] by simp_all
  show "slot_ok S s False (queued b s) (txns b ! s) {(c, pc)}"
    using slot_ok_at [OF assms(1) s] f h by simp
qed

lemma holders_set_caller_away:
  assumes "caller_slot (callers b c) \<noteq> Some u" and "caller_slot pc \<noteq> Some u"
  shows "holders (set_caller c pc b) u = holders b u"
  using assms by (auto simp: holders_set_caller dest: holders_other)

lemma held_replace:
  "holders b s = {(c, pc)} \<Longrightarrow>
     holders (set_caller c pc' b) s = (if caller_slot pc' = Some s then {(c, pc')} else {})"
  by (auto simp: holders_set_caller)

lemma slot_ok_wait:
  "slot_ok S s False q t {(c, CWait s cmd)} \<longleftrightarrow>
     (q = [cmd] \<and> \<not> tx_completed t \<and> \<not> tx_done t \<and> \<not> tx_abandoned t) \<or>
     (q = [] \<and> tx_completed t \<and> tx_done t \<and> outcome_of S cmd t)"
  by (auto simp: slot_ok_def)

lemma slot_ok_expired:
  "slot_ok S s False q t {(c, CExpired s cmd)} \<longleftrightarrow>
     (q = [cmd] \<and> \<not> tx_completed t \<and> \<not> tx_done t \<and> \<not> tx_abandoned t) \<or>
     (q = [] \<and> tx_completed t \<and> outcome_of S cmd t)"
  by (auto simp: slot_ok_def)

lemma slot_ok_got:
  "slot_ok S s False q t {(c, CGot s cmd)} \<longleftrightarrow> q = [] \<and> tx_completed t \<and> outcome_of S cmd t"
  by (auto simp: slot_ok_def)

lemma slot_ok_free: "slot_ok S s True q t H \<longleftrightarrow> q = [] \<and> H = {}"
  by (auto simp: slot_ok_def)

lemma slot_ok_orphan:
  "slot_ok S s False q t {} \<longleftrightarrow> (\<exists>cmd. q = [cmd]) \<and> \<not> tx_completed t \<and> tx_abandoned t"
  by (auto simp: slot_ok_def)

lemmas slot_ok_cases = slot_ok_wait slot_ok_expired slot_ok_got slot_ok_free slot_ok_orphan

text \<open>A step that changes one slot only.\<close>

lemma bus_inv_one_slot:
  assumes inv: "bus_inv S b" and s: "s < 4"
    and glob: "worker b' = WIdle" "length (txns b') = 4" "distinct (free_slots b')"
      "\<And>cmd. cmd \<in> set (cmd_queue b') \<Longrightarrow> cmd_slot cmd < 4"
      "\<And>c u. caller_slot (callers b' c) = Some u \<Longrightarrow> u < 4"
    and others: "\<And>u. u \<noteq> s \<Longrightarrow> (u \<in> set (free_slots b') \<longleftrightarrow> u \<in> set (free_slots b)) \<and>
      queued b' u = queued b u \<and> txns b' ! u = txns b ! u \<and> holders b' u = holders b u"
    and this_slot: "slot_ok S s (s \<in> set (free_slots b')) (queued b' s) (txns b' ! s) (holders b' s)"
  shows "bus_inv S b'"
proof -
  have "u < 4" if "u \<in> set (free_slots b')" for u
    using that inv s others [of u] by (cases "u = s") (auto simp: bus_inv_def)
  moreover have "slot_ok S u (u \<in> set (free_slots b')) (queued b' u) (txns b' ! u) (holders b' u)"
    if "u < 4" for u
    using this_slot slot_ok_at [OF inv that] others [of u] by (cases "u = s") simp_all
  ultimately show ?thesis
    using glob unfolding bus_inv_def by blast
qed

lemma take_inv: "bus_inv S b \<Longrightarrow> sync_take c b = Some b' \<Longrightarrow> bus_inv S b'"
proof -
  assume inv: "bus_inv S b" and step: "sync_take c b = Some b'"
  obtain s cmd where pc: "callers b c = CWait s cmd" and dn: "tx_done (txns b ! s)"
      and b': "b' = set_caller c (CGot s cmd) (upd_txn s (\<lambda>t. t\<lparr>tx_done := False\<rparr>) b)"
    using step by (auto simp: sync_take_def split: caller.splits if_splits)
  note h = held_slot [OF inv pc, of s, simplified]
  note g = bus_inv_globals [OF inv]
  have q: "queued b s = [] \<and> tx_completed (txns b ! s) \<and> outcome_of S cmd (txns b ! s)"
    using h(4) dn by (simp add: slot_ok_wait)
  have "slot_ok S s (s \<in> set (free_slots b')) (queued b' s) (txns b' ! s) (holders b' s)"
    using h(1,2) q g(2) by (simp add: b' held_replace [where pc = "CWait s cmd"] h(3) slot_ok_got outcome_of_def)
  then show ?thesis
  proof (rule bus_inv_one_slot [OF inv h(1), rotated -1])
    show "caller_slot (callers b' c') = Some u \<Longrightarrow> u < 4" for c' u
      using g(5) [of c' u] h(1) by (simp add: b' split: if_splits)
  qed (use pc g in \<open>simp_all add: b' holders_set_caller_away\<close>)
qed

lemma expire_inv: "bus_inv S b \<Longrightarrow> sync_expire c b = Some b' \<Longrightarrow> bus_inv S b'"
proof -
  assume inv: "bus_inv S b" and step: "sync_expire c b = Some b'"
  obtain s cmd where pc: "callers b c = CWait s cmd" and dn: "\<not> tx_done (txns b ! s)"
      and b': "b' = set_caller c (CExpired s cmd) b"
    using step by (auto simp: sync_expire_def split: caller.splits if_splits)
  note h = held_slot [OF inv pc, of s, simplified]
  note g = bus_inv_globals [OF inv]
  have "slot_ok S s (s \<in> set (free_slots b')) (queued b' s) (txns b' ! s) (holders b' s)"
    using h(1,2,4) dn by (simp add: b' held_replace [where pc = "CWait s cmd"] h(3) slot_ok_wait slot_ok_expired)
  then show ?thesis
  proof (rule bus_inv_one_slot [OF inv h(1), rotated -1])
    show "caller_slot (callers b' c') = Some u \<Longrightarrow> u < 4" for c' u
      using g(5) [of c' u] h(1) by (simp add: b' split: if_splits)
  qed (use pc g in \<open>simp_all add: b' holders_set_caller_away\<close>)
qed

lemma settle_inv: "bus_inv S b \<Longrightarrow> sync_settle c b = Some b' \<Longrightarrow> bus_inv S b'"
proof -
  assume inv: "bus_inv S b" and step: "sync_settle c b = Some b'"
  obtain s cmd where pc: "callers b c = CExpired s cmd"
    using step by (auto simp: sync_settle_def split: caller.splits)
  note h = held_slot [OF inv pc, of s, simplified]
  note g = bus_inv_globals [OF inv]
  show ?thesis
  proof (cases "tx_completed (txns b ! s)")
    case True
    then have b': "b' = set_caller c (CGot s cmd) (upd_txn s (\<lambda>t. t\<lparr>tx_done := False\<rparr>) b)"
      using step pc by (simp add: sync_settle_def)
    have "slot_ok S s (s \<in> set (free_slots b')) (queued b' s) (txns b' ! s) (holders b' s)"
      using h(1,2,4) True g(2)
      by (simp add: b' held_replace [where pc = "CExpired s cmd"] h(3) slot_ok_expired slot_ok_got outcome_of_def)
    then show ?thesis
    proof (rule bus_inv_one_slot [OF inv h(1), rotated -1])
      show "caller_slot (callers b' c') = Some u \<Longrightarrow> u < 4" for c' u
        using g(5) [of c' u] h(1) by (simp add: b' split: if_splits)
    qed (use pc g in \<open>simp_all add: b' holders_set_caller_away\<close>)
  next
    case False
    then have b': "b' = set_caller c (CReturn I2C_ERR_TIMEOUT [] cmd) (upd_txn s (\<lambda>t. t\<lparr>tx_abandoned := True\<rparr>) b)"
      using step pc by (simp add: sync_settle_def)
    have "slot_ok S s (s \<in> set (free_slots b')) (queued b' s) (txns b' ! s) (holders b' s)"
      using h(1,2,4) False g(2)
      by (simp add: b' held_replace [where pc = "CExpired s cmd"] h(3) slot_ok_expired slot_ok_orphan)
    then show ?thesis
    proof (rule bus_inv_one_slot [OF inv h(1), rotated -1])
      show "caller_slot (callers b' c') = Some u \<Longrightarrow> u < 4" for c' u
        using g(5) [of c' u] by (simp add: b' split: if_splits)
    qed (use pc g in \<open>simp_all add: b' holders_set_caller_away\<close>)
  qed
qed

lemma collect_inv: "bus_inv S b \<Longrightarrow> sync_collect c n b = Some b' \<Longrightarrow> bus_inv S b'"
proof -
  assume inv: "bus_inv S b" and step: "sync_collect c n b = Some b'"
  obtain s cmd r rx where pc: "callers b c = CGot s cmd"
      and b': "b' = release_slot s (set_caller c (CReturn r rx cmd) b)"
    using step by (auto simp: sync_collect_def Let_def split: caller.splits)
  note h = held_slot [OF inv pc, of s, simplified]
  note g = bus_inv_globals [OF inv]
  have "slot_ok S s (s \<in> set (free_slots b')) (queued b' s) (txns b' ! s) (holders b' s)"
    using h(1,2,4) by (simp add: b' held_replace [where pc = "CGot s cmd"] h(3) slot_ok_got slot_ok_free)
  then show ?thesis
  proof (rule bus_inv_one_slot [OF inv h(1), rotated -1])
    show "caller_slot (callers b' c') = Some u \<Longrightarrow> u < 4" for c' u
      using g(5) [of c' u] by (simp add: b' split: if_splits)
  qed (use pc g h(2) in \<open>simp_all add: b' holders_set_caller_away\<close>)
qed

text \<open>A step that leaves every slot alone.\<close>

lemma bus_inv_no_slot:
  assumes inv: "bus_inv S b" and "worker b' = WIdle" "length (txns b') = 4" "free_slots b' = free_slots b"
      "\<And>cmd. cmd \<in> set (cmd_queue b') \<Longrightarrow> cmd_slot cmd < 4"
      "\<And>c u. caller_slot (callers b' c) = Some u \<Longrightarrow> u < 4"
      "\<And>u. queued b' u = queued b u \<and> txns b' ! u = txns b ! u \<and> holders b' u = holders b u"
  shows "bus_inv S b'"
  by (rule bus_inv_one_slot [OF inv, of 0])
    (use assms bus_inv_globals [OF inv] slot_ok_at [OF inv, of 0] in simp_all)

lemma begin_inv: "bus_inv S b \<Longrightarrow> sync_begin c cmd accepted b = Some b' \<Longrightarrow> bus_inv S b'"
proof -
  assume inv: "bus_inv S b" and step: "sync_begin c cmd accepted b = Some b'"
  note g = bus_inv_globals [OF inv]
  have idle: "callers b c = CIdle" using step by (auto simp: sync_begin_def split: if_splits)
  show ?thesis
  proof (cases "free_slots b")
    case Nil
    then have b': "b' = set_caller c (CReturn I2C_ERR_BUSY [] cmd) b"
      using step idle by (simp add: sync_begin_def)
    show ?thesis
    proof (rule bus_inv_no_slot [OF inv])
      show "caller_slot (callers b' c') = Some u \<Longrightarrow> u < 4" for c' u
        using g(5) [of c' u] by (simp add: b' split: if_splits)
    qed (use g idle in \<open>simp_all add: b' holders_set_caller_away\<close>)
  next
    case (Cons s rest)
    have s: "s < 4" "s \<notin> set rest" "distinct rest" using g(3) g(6) [of s] Cons by auto
    have sl: "queued b s = []" "holders b s = {}"
      using slot_ok_at [OF inv s(1)] Cons by (simp_all add: slot_ok_free)
    let ?reset = "\<lambda>t. t\<lparr>tx_completed := False, tx_abandoned := False, tx_result := I2C_ERR_TIMEOUT, tx_done := False\<rparr>"
    show ?thesis
    proof (cases accepted)
      case True
      let ?cmd = "cmd\<lparr>cmd_slot := int s\<rparr>"
      have b': "b' = set_caller c (CWait s ?cmd) ((upd_txn s ?reset (b\<lparr>free_slots := rest\<rparr>))
          \<lparr>cmd_queue := cmd_queue b @ [?cmd]\<rparr>)"
        using step idle Cons True by (simp add: sync_begin_def Let_def)
      have q: "queued b' u = (if u = s then [?cmd] else queued b u)" for u
        using sl by (simp add: b' queued_def)
      have hs: "holders b' s = {(c, CWait s ?cmd)}"
        using sl by (simp add: b' holders_set_caller)
      have "slot_ok S s (s \<in> set (free_slots b')) (queued b' s) (txns b' ! s) (holders b' s)"
        using s g(2) by (simp add: hs q slot_ok_wait) (simp add: b' slot_ok_wait)
      then show ?thesis
      proof (rule bus_inv_one_slot [OF inv s(1), rotated -1])
        show "caller_slot (callers b' c') = Some u \<Longrightarrow> u < 4" for c' u
          using g(5) [of c' u] s by (simp add: b' split: if_splits)
        show "cmd' \<in> set (cmd_queue b') \<Longrightarrow> cmd_slot cmd' < 4" for cmd'
          using g(4) s by (auto simp: b')
        show "(u \<in> set (free_slots b') \<longleftrightarrow> u \<in> set (free_slots b)) \<and>
            queued b' u = queued b u \<and> txns b' ! u = txns b ! u \<and> holders b' u = holders b u" if "u \<noteq> s" for u
          using that Cons idle by (simp add: q) (simp add: b' holders_set_caller_away)
      qed (use g s in \<open>simp_all add: b'\<close>)
    next
      case False
      have b': "b' = set_caller c (CReturn I2C_ERR_QUEUE_FULL [] (cmd\<lparr>cmd_slot := int s\<rparr>))
          ((release_slot s (upd_txn s ?reset (b\<lparr>free_slots := rest\<rparr>)))\<lparr>dropped := dropped b + 1\<rparr>)"
        using step idle Cons False by (simp add: sync_begin_def Let_def upd_txn_def)
      have "slot_ok S s (s \<in> set (free_slots b')) (queued b' s) (txns b' ! s) (holders b' s)"
        using sl idle by (simp add: b' holders_set_caller_away slot_ok_free)
      then show ?thesis
      proof (rule bus_inv_one_slot [OF inv s(1), rotated -1])
        show "caller_slot (callers b' c') = Some u \<Longrightarrow> u < 4" for c' u
          using g(5) [of c' u] s by (simp add: b' split: if_splits)
        show "cmd' \<in> set (cmd_queue b') \<Longrightarrow> cmd_slot cmd' < 4" for cmd'
          using g(4) s by (auto simp: b')
        show "(u \<in> set (free_slots b') \<longleftrightarrow> u \<in> set (free_slots b)) \<and>
            queued b' u = queued b u \<and> txns b' ! u = txns b ! u \<and> holders b' u = holders b u" if "u \<noteq> s" for u
          using that Cons idle by (simp add: b' holders_set_caller_away)
      qed (use g s in \<open>simp_all add: b'\<close>)
    qed
  qed
qed

lemma again_inv: "bus_inv S b \<Longrightarrow> call_again c b = Some b' \<Longrightarrow> bus_inv S b'"
proof -
  assume inv: "bus_inv S b" and step: "call_again c b = Some b'"
  obtain r rx cmd where pc: "callers b c = CReturn r rx cmd" and b': "b' = set_caller c CIdle b"
    using step by (auto simp: call_again_def split: caller.splits)
  note g = bus_inv_globals [OF inv]
  show ?thesis
  proof (rule bus_inv_no_slot [OF inv])
    show "caller_slot (callers b' c') = Some u \<Longrightarrow> u < 4" for c' u
      using g(5) [of c' u] by (simp add: b' split: if_splits)
  qed (use g pc in \<open>simp_all add: b' holders_set_caller_away\<close>)
qed

lemma post_inv: "bus_inv S b \<Longrightarrow> bus_inv S (snd (post_async cmd accepted b))"
proof -
  assume inv: "bus_inv S b"
  note g = bus_inv_globals [OF inv]
  have q: "queued (snd (post_async cmd accepted b)) u = queued b u" for u
    by (simp add: post_async_def queued_def Let_def)
  show ?thesis
  proof (rule bus_inv_no_slot [OF inv])
    show "cmd' \<in> set (cmd_queue (snd (post_async cmd accepted b))) \<Longrightarrow> cmd_slot cmd' < 4" for cmd'
      using g(4) by (auto simp: post_async_def Let_def split: if_splits)
    show "caller_slot (callers (snd (post_async cmd accepted b)) c) = Some u \<Longrightarrow> u < 4" for c u
      using g(5) by (simp add: post_async_def Let_def split: if_splits)
    show "queued (snd (post_async cmd accepted b)) u = queued b u \<and>
        txns (snd (post_async cmd accepted b)) ! u = txns b ! u \<and>
        holders (snd (post_async cmd accepted b)) u = holders b u" for u
      unfolding q by (simp add: post_async_def Let_def holders_def)
  qed (use g in \<open>simp_all add: post_async_def Let_def\<close>)
qed

lemma slot_ok_queued:
  assumes "slot_ok S s fr (cmd # q) t H"
  shows "\<not> fr \<and> q = [] \<and> \<not> tx_completed t \<and>
    ((\<exists>c. (H = {(c, CWait s cmd)} \<or> H = {(c, CExpired s cmd)}) \<and> \<not> tx_abandoned t \<and> \<not> tx_done t) \<or>
     H = {} \<and> tx_abandoned t)"
  using assms unfolding slot_ok_def by (elim disjE conjE exE) simp_all

lemma worker_turn_inv: "bus_inv S b \<Longrightarrow> worker_turn S b = Some b' \<Longrightarrow> bus_inv S b'"
proof -
  assume inv: "bus_inv S b" and step: "worker_turn S b = Some b'"
  note g = bus_inv_globals [OF inv]
  obtain cmd q where q: "cmd_queue b = cmd # q"
    using step g(1) by (cases "cmd_queue b") (auto simp: worker_turn_def worker_mark_def)
  show ?thesis
  proof (cases "cmd_slot cmd \<ge> 0")
    case False
    then have b': "b' = b\<lparr>cmd_queue := q, device := snd (execute S cmd (replicate 32 0) (device b))\<rparr>"
      using step g(1) q by (auto simp: worker_turn_def worker_mark_def Let_def)
    have qq: "queued b' u = queued b u" for u
      using False q by (simp add: b' queued_def)
    show ?thesis
    proof (rule bus_inv_no_slot [OF inv])
      show "queued b' u = queued b u \<and> txns b' ! u = txns b ! u \<and> holders b' u = holders b u" for u
        unfolding qq by (simp add: b' holders_def)
    qed (use g q in \<open>simp_all add: b'\<close>)
  next
    case True
    define s where "s = nat (cmd_slot cmd)"
    have s: "cmd_slot cmd = int s" "s < 4" using True g(4) [of cmd] q by (simp_all add: s_def)
    define t where "t = txns b ! s"
    obtain r rx d where ex: "execute S cmd (tx_rx t) (device b) = ((r, rx), d)"
      by (metis surj_pair)
    define t' where "t' = t\<lparr>tx_result := r, tx_rx := rx, tx_completed := True, served := Some cmd\<rparr>"
    have qs: "queued b s = cmd # queued (b\<lparr>cmd_queue := q\<rparr>) s"
      using q s by (simp add: queued_def)
    note ok = slot_ok_queued [OF slot_ok_at [OF inv s(2), unfolded qs]]
    have out: "outcome_of S cmd t'" "outcome_of S cmd (t'\<lparr>tx_done := True\<rparr>)"
      using ex unfolding outcome_of_def t'_def by (auto intro!: exI [of _ "tx_rx t"] exI [of _ "device b"])
    have b': "b' = (if tx_abandoned t
        then b\<lparr>cmd_queue := q, device := d, txns := (txns b)[s := t'], worker := WIdle, free_slots := free_slots b @ [s]\<rparr>
        else b\<lparr>cmd_queue := q, device := d, worker := WIdle, txns := (txns b)[s := t'\<lparr>tx_done := True\<rparr>]\<rparr>)"
      using step g(1,2) q True s ex
      by (simp add: worker_turn_def worker_mark_def worker_signal_def Let_def s_def [symmetric] t_def [symmetric]
          upd_txn_def release_slot_def t'_def split: if_splits)
    have qe: "queued b' s = []" and qu: "u \<noteq> s \<Longrightarrow> queued b' u = queued b u" for u
      using ok q s by (simp_all add: b' queued_def)
    have hb: "holders b' u = holders b u" for u by (simp add: b' holders_def)
    have at_s: "slot_ok S s (s \<in> set (free_slots b')) (queued b' s) (txns b' ! s) (holders b' s)"
    proof (cases "tx_abandoned t")
      case True
      then show ?thesis using ok unfolding qe hb by (simp add: b' t_def slot_ok_free)
    next
      case False
      then obtain c where c: "holders b s = {(c, CWait s cmd)} \<or> holders b s = {(c, CExpired s cmd)}"
        using ok by (auto simp: t_def)
      show ?thesis
        using c False ok out s g(2) unfolding qe hb
        by (elim disjE) (simp_all add: b' slot_ok_wait slot_ok_expired, simp_all add: t'_def)
    qed
    show ?thesis
    proof (rule bus_inv_one_slot [OF inv s(2) _ _ _ _ _ _ at_s])
      show "caller_slot (callers b' c') = Some u \<Longrightarrow> u < 4" for c' u
        using g(5) [of c' u] by (simp add: b' split: if_splits)
      show "cmd' \<in> set (cmd_queue b') \<Longrightarrow> cmd_slot cmd' < 4" for cmd'
        using g(4) q by (simp add: b' split: if_splits)
      show "(u \<in> set (free_slots b') \<longleftrightarrow> u \<in> set (free_slots b)) \<and>
          queued b' u = queued b u \<and> txns b' ! u = txns b ! u \<and> holders b' u = holders b u" if "u \<noteq> s" for u
        unfolding hb qu [OF that] using that by (simp add: b')
      show "distinct (free_slots b')" using g(3) ok by (simp add: b')
    qed (use g in \<open>simp_all add: b'\<close>)
  qed
qed

lemma bus_start_inv: "bus_inv S (bus_init d)"
  by (auto simp: bus_inv_def bus_init_def queued_def holders_def slot_ok_free less_Suc_eq numeral_eq_Suc)

lemma bus_reach_inv: "i2c_reach S b \<Longrightarrow> bus_inv S b"
proof (induction rule: i2c_reach.induct)
  case (init d)
  show ?case by (rule bus_start_inv)
next
  case (step b ev b')
  then show ?case
    by (cases ev) (auto intro: take_inv expire_inv settle_inv collect_inv begin_inv again_inv post_inv
        worker_turn_inv)
qed

section \<open>Registers behind the bus\<close>

text \<open>
  The interface a register-based driver relies on: after a register block was written successfully
  it reads back as written. \<open>regs\<close> is the device's register contents, \<open>sync\<close> the bus call.
\<close>

locale i2c_registers =
  fixes sync :: "'s i2c_sync" and addr :: u8 and regs :: "'s \<Rightarrow> u8 \<Rightarrow> u8"
  assumes write_ok: "sync \<lparr>cmd_addr = addr, cmd_op = OpWrite, cmd_rx_len = 0, cmd_slot = 0, cmd_tx = reg # bs\<rparr> 0 s
      = ((rc, rx), s') \<Longrightarrow> rc \<ge> 0 \<Longrightarrow> length bs < 32 \<Longrightarrow>
      (\<forall>i < length bs. regs s' (reg + of_nat i) = bs ! i) \<and>
      (\<forall>r. (\<forall>i < length bs. r \<noteq> reg + of_nat i) \<longrightarrow> regs s' r = regs s r)"
    and read_ok: "sync \<lparr>cmd_addr = addr, cmd_op = OpWriteRead, cmd_rx_len = of_nat n, cmd_slot = 0, cmd_tx = [reg]\<rparr> n s
      = ((rc, rx), s') \<Longrightarrow> rc \<ge> 0 \<Longrightarrow> n \<le> 32 \<Longrightarrow>
      rx = map (\<lambda>i. regs s (reg + of_nat i)) [0..<n] \<and> regs s' = regs s"
begin

lemma write_reg_ok:
  assumes "i2c_write_reg sync addr reg (Some p) len s = (rc, s')" and "rc \<ge> 0" and "len \<le> length p"
  shows "(\<forall>i < len. regs s' (reg + of_nat i) = p ! i) \<and>
    (\<forall>r. (\<forall>i < len. r \<noteq> reg + of_nat i) \<longrightarrow> regs s' r = regs s r)"
proof -
  have l: "0 < len" "len < 32"
    using assms(1,2) by (auto simp: i2c_write_reg_def split: if_splits)
  obtain rx where "sync \<lparr>cmd_addr = addr, cmd_op = OpWrite, cmd_rx_len = 0, cmd_slot = 0,
      cmd_tx = reg # take len p\<rparr> 0 s = ((rc, rx), s')"
    using assms(1) l by (auto simp: i2c_write_reg_def split: prod.splits)
  from write_ok [OF this assms(2)] show ?thesis using l assms(3) by (simp add: min_absorb2)
qed

lemma read_reg_ok:
  assumes "i2c_read_reg sync addr reg len s = ((rc, rx), s')" and "rc \<ge> 0"
  shows "rx = map (\<lambda>i. regs s (reg + of_nat i)) [0..<len] \<and> regs s' = regs s"
proof -
  have "0 < len" "len \<le> 32"
    using assms by (auto simp: i2c_read_reg_def i2c_write_read_def split: if_splits)
  then show ?thesis
    using assms read_ok by (simp add: i2c_read_reg_def i2c_write_read_def)
qed

lemma read_after_write:
  assumes "i2c_write_reg sync addr reg (Some p) len s = (rc, s1)" and "rc \<ge> 0" and "len = length p"
    and "i2c_read_reg sync addr reg len s1 = ((rc', rx), s2)" and "rc' \<ge> 0"
  shows "rx = p"
proof (rule nth_equalityI)
  show "length rx = length p" using read_reg_ok [OF assms(4,5)] assms(3) by simp
  show "rx ! i = p ! i" if "i < length rx" for i
    using write_reg_ok [OF assms(1,2)] read_reg_ok [OF assms(4,5)] that assms(3) by simp
qed

end

text \<open>
  A device that stores what is written, register by register, on the model's own \<^verbatim>\<open>run_sync\<close>:
  a register file with an address pointer, whose SDK calls always succeed.
\<close>

record regfile =
  rf_regs :: "u8 \<Rightarrow> u8"
  rf_ptr :: u8

primrec store_regs :: "bytes \<Rightarrow> u8 \<Rightarrow> (u8 \<Rightarrow> u8) \<Rightarrow> u8 \<Rightarrow> u8" where
  "store_regs [] p m = m"
| "store_regs (b # bs) p m = store_regs bs (p + 1) (m(p := b))"

definition regfile_sdk :: "regfile i2c_sdk" where
  "regfile_sdk = \<lparr>
     sdk_write = (\<lambda>addr bs nostop d. case bs of [] \<Rightarrow> (0, d)
       | r # vs \<Rightarrow> (int (length bs), \<lparr>rf_regs = store_regs vs r (rf_regs d), rf_ptr = r\<rparr>)),
     sdk_read = (\<lambda>addr n d. ((int n, map (\<lambda>i. rf_regs d (rf_ptr d + of_nat i)) [0..<n]), d)),
     sdk_timeout = -2\<rparr>"

lemma store_regs_other:
  "(\<forall>i < length bs. r \<noteq> p + of_nat i) \<Longrightarrow> store_regs bs p m r = m r"
proof (induction bs arbitrary: p m)
  case (Cons b bs)
  have "r \<noteq> p" using Cons.prems [rule_format, of 0] by simp
  moreover have "\<forall>i < length bs. r \<noteq> p + 1 + of_nat i"
    using Cons.prems by (auto dest: spec [of _ "Suc _"] simp: algebra_simps)
  ultimately show ?case using Cons.IH [of "p + 1" "m(p := b)"] by (simp add: fun_upd_def)
qed simp

lemma store_regs_at:
  "i < length bs \<Longrightarrow> length bs < 256 \<Longrightarrow> store_regs bs p m (p + of_nat i) = bs ! i"
proof (induction bs arbitrary: p m i)
  case (Cons b bs)
  show ?case
  proof (cases i)
    case 0
    have "p \<noteq> p + 1 + of_nat j" if "j < length bs" for j
    proof
      assume "p = p + 1 + of_nat j"
      then have "(of_nat (Suc j) :: u8) = 0" by (simp add: algebra_simps)
      then show False
        using that Cons.prems(2) unat_of_nat_lt [of "Suc j", where 'a = 8] by simp
    qed
    then show ?thesis using 0 store_regs_other [of bs p "p + 1" "m(p := b)"] by (simp add: fun_upd_def)
  next
    case (Suc j)
    then show ?thesis using Cons.IH [of j "p + 1" "m(p := b)"] Cons.prems by (simp add: algebra_simps fun_upd_def)
  qed
qed simp

interpretation regfile_bus: i2c_registers "run_sync regfile_sdk Served" addr rf_regs
proof unfold_locales
  fix reg bs s rc rx s'
  assume "run_sync regfile_sdk Served \<lparr>cmd_addr = addr, cmd_op = OpWrite, cmd_rx_len = 0, cmd_slot = 0,
      cmd_tx = reg # bs\<rparr> 0 s = ((rc, rx), s')" and "0 \<le> rc" and "length bs < 32"
  then show "(\<forall>i < length bs. rf_regs s' (reg + of_nat i) = bs ! i) \<and>
      (\<forall>r. (\<forall>i < length bs. r \<noteq> reg + of_nat i) \<longrightarrow> rf_regs s' r = rf_regs s r)"
    by (auto simp: run_sync_def execute_def regfile_sdk_def Let_def store_regs_at store_regs_other)
next
  fix n reg s rc rx s'
  assume "run_sync regfile_sdk Served \<lparr>cmd_addr = addr, cmd_op = OpWriteRead, cmd_rx_len = of_nat n, cmd_slot = 0,
      cmd_tx = [reg]\<rparr> n s = ((rc, rx), s')" and "0 \<le> rc" and n: "n \<le> 32"
  then show "rx = map (\<lambda>i. rf_regs s (reg + of_nat i)) [0..<n] \<and> rf_regs s' = rf_regs s"
    by (auto simp: run_sync_def execute_def regfile_sdk_def map_sdk_rc_def memcpy_at_def unat_of_nat_lt
        split: if_splits)
qed

lemma run_reach:
  "i2c_reach S b \<Longrightarrow> WorkerMark \<notin> set evs \<Longrightarrow> WorkerSignal \<notin> set evs \<Longrightarrow> i2c_run S evs b = Some b' \<Longrightarrow>
     i2c_reach S b'"
proof (induction evs arbitrary: b)
  case (Cons ev evs)
  then obtain b1 where "i2c_act S ev b = Some b1" "i2c_run S evs b1 = Some b'"
    by (auto simp: bind_eq_Some_conv)
  moreover have "i2c_reach S b1"
    using i2c_reach.step [OF Cons.prems(1) _ _ calculation(1)] Cons.prems(2,3) by auto
  ultimately show ?case using Cons by auto
qed simp

definition demo_cmd :: i2c_cmd where
  "demo_cmd = \<lparr>cmd_addr = 0x68, cmd_op = OpWriteRead, cmd_rx_len = 1, cmd_slot = 0, cmd_tx = [0x0F]\<rparr>"

definition demo_regs :: regfile where
  "demo_regs = \<lparr>rf_regs = (\<lambda>r. r + 1), rf_ptr = 0\<rparr>"

definition demo_bus :: "regfile bus" where
  "demo_bus = the (i2c_run regfile_sdk [Begin 0 demo_cmd True, WorkerTurn, Take 0] (bus_init demo_regs))"

lemma demo_bus_run:
  "i2c_run regfile_sdk [Begin 0 demo_cmd True, WorkerTurn, Take 0] (bus_init demo_regs) = Some demo_bus"
  "callers demo_bus 0 = CGot 0 demo_cmd" "tx_result (txns demo_bus ! 0) = 1"
  by (simp_all add: demo_bus_def sync_begin_def bus_init_def Let_def worker_turn_def worker_mark_def
      worker_signal_def sync_take_def demo_cmd_def regfile_sdk_def execute_def upd_txn_def set_caller_def
      map_sdk_rc_def demo_regs_def)

lemma demo_bus_reach: "i2c_reach regfile_sdk demo_bus"
  by (rule run_reach [OF i2c_reach.init _ _ demo_bus_run(1)]) simp_all

section \<open>Properties\<close>

text \<open>C11: in every reachable state of the bus each of the four transaction slots is exactly one of:
  in the free list (once), held by exactly one caller, or given up by its caller and still owned by
  the one queued command that names it. No slot leaks and none is ever owned twice.\<close>

theorem i2c_slot_ownership:
  assumes "i2c_reach S b"
  shows "distinct (free_slots b) \<and> (s < 4 \<longrightarrow>
    (s \<in> set (free_slots b) \<and> holders b s = {} \<and> queued b s = []) \<or>
    (s \<notin> set (free_slots b) \<and> (\<exists>c pc. holders b s = {(c, pc)}) \<and> length (queued b s) \<le> 1) \<or>
    (s \<notin> set (free_slots b) \<and> holders b s = {} \<and> length (queued b s) = 1 \<and> tx_abandoned (txns b ! s)))"
proof -
  note inv = bus_reach_inv [OF assms]
  have "s < 4 \<longrightarrow> slot_ok S s (s \<in> set (free_slots b)) (queued b s) (txns b ! s) (holders b s)"
    using slot_ok_at [OF inv] by blast
  then show ?thesis
    using bus_inv_globals(3) [OF inv] unfolding slot_ok_def by fastforce
qed

lemma i2c_slot_ownership_witness: "distinct (free_slots demo_bus)"
  using i2c_slot_ownership [OF demo_bus_reach] by blast

text \<open>C19: a caller that collects a result gets the outcome of executing its own command: the return
  value is the mapped code of that execution and, when it is not negative, the bytes are the first
  \<open>n\<close> of what that execution read.\<close>

theorem i2c_result_is_own:
  assumes "i2c_reach S b" and "callers b c = CGot s cmd" and "sync_collect c n b = Some b'"
  shows "\<exists>result rx rx0 d rx1. callers b' c = CReturn result rx cmd \<and>
    fst (execute S cmd rx0 d) = (result, rx1) \<and> rx = (if result \<ge> 0 then take n rx1 else []) \<and>
    s \<in> set (free_slots b')"
proof -
  have "slot_ok S s False (queued b s) (txns b ! s) {(c, CGot s cmd)}"
    using held_slot(4) [OF bus_reach_inv [OF assms(1)] assms(2)] by simp
  then obtain rx0 d where "fst (execute S cmd rx0 d) = (tx_result (txns b ! s), tx_rx (txns b ! s))"
    unfolding slot_ok_got outcome_of_def by blast
  then show ?thesis
    using assms(2,3)
    by (intro exI [of _ "tx_result (txns b ! s)"] exI [of _ rx0] exI [of _ d] exI [of _ "tx_rx (txns b ! s)"]
        exI [of _ "if tx_result (txns b ! s) \<ge> 0 then take n (tx_rx (txns b ! s)) else []"])
      (auto simp: sync_collect_def Let_def)
qed

lemma i2c_result_is_own_witness:
  "\<exists>b' rx. sync_collect 0 1 demo_bus = Some b' \<and> callers b' 0 = CReturn 1 rx demo_cmd"
proof -
  obtain b' where b': "sync_collect 0 1 demo_bus = Some b'"
    by (simp add: sync_collect_def demo_bus_run Let_def)
  have "\<exists>rx. callers b' 0 = CReturn 1 rx demo_cmd"
    using i2c_result_is_own [OF demo_bus_reach demo_bus_run(2) b'] b' demo_bus_run
    by (auto simp: sync_collect_def Let_def)
  then show ?thesis using b' by blast
qed

end
