(* ===== verification/Ds3231.thy ===== *)
theory Ds3231
  imports I2cBus
begin

text \<open>
  The real-time clock driver, Firmware/northbridge/src/ds3231.cpp, over the register calls of
  I2cBus, and the build-time parser of build_time.cpp. The build stamp itself is generated by the
  build and is a parameter. The lemmas are the BCD round trip, the weekday function against the
  calendar, the comparison against the lexicographic order, and what a set followed by a get and a
  sync leave in the chip, for any device that keeps its registers.
\<close>

section \<open>Calendar arithmetic\<close>

abbreviation (input) DS3231_I2C_ADDR :: u8 where "DS3231_I2C_ADDR \<equiv> 0x68"
abbreviation (input) REG_SECONDS :: u8 where "REG_SECONDS \<equiv> 0x00"
abbreviation (input) REG_CONTROL :: u8 where "REG_CONTROL \<equiv> 0x0E"
abbreviation (input) REG_STATUS :: u8 where "REG_STATUS \<equiv> 0x0F"
abbreviation (input) REG_TEMP_MSB :: u8 where "REG_TEMP_MSB \<equiv> 0x11"
abbreviation (input) HOUR_12_MODE :: u8 where "HOUR_12_MODE \<equiv> 0x40"
abbreviation (input) HOUR_PM :: u8 where "HOUR_PM \<equiv> 0x20"
abbreviation (input) MONTH_CENTURY :: u8 where "MONTH_CENTURY \<equiv> 0x80"
abbreviation (input) CONTROL_EOSC :: u8 where "CONTROL_EOSC \<equiv> 0x80"
abbreviation (input) STATUS_OSF :: u8 where "STATUS_OSF \<equiv> 0x80"
abbreviation (input) DS3231_ERR_BAD_TIME :: int where "DS3231_ERR_BAD_TIME \<equiv> -30"
abbreviation (input) DS3231_ERR_ARG :: int where "DS3231_ERR_ARG \<equiv> -31"

record ds3231_time =
  t_year :: u16
  t_month :: u8
  t_day :: u8
  t_hour :: u8
  t_minute :: u8
  t_second :: u8
  t_weekday :: u8

definition bcd_to_bin :: "u8 \<Rightarrow> u8" where
  "bcd_to_bin v = drop_bit 4 v * 10 + (v AND 0x0F)"

definition bin_to_bcd :: "u8 \<Rightarrow> u8" where
  "bin_to_bcd v = push_bit 4 (v div 10) OR (v mod 10)"

definition is_leap :: "u16 \<Rightarrow> bool" where
  "is_leap y \<longleftrightarrow> (y mod 4 = 0 \<and> y mod 100 \<noteq> 0) \<or> y mod 400 = 0"

definition days_in_month :: "u16 \<Rightarrow> u8 \<Rightarrow> u8" where
  "days_in_month y m =
     (if m < 1 \<or> m > 12 then 0
      else if m = 2 \<and> is_leap y then 29
      else [31, 28, 31, 30, 31, 30, 31, 31, 30, 31, 30, 31] ! (unat m - 1))"

definition time_valid :: "ds3231_time \<Rightarrow> bool" where
  "time_valid t \<longleftrightarrow>
     \<not> (t_year t < 2000 \<or> t_year t > 2199 \<or> t_month t < 1 \<or> t_month t > 12) \<and>
     \<not> (t_day t < 1 \<or> t_day t > days_in_month (t_year t) (t_month t)) \<and>
     t_hour t < 24 \<and> t_minute t < 60 \<and> t_second t < 60"

text \<open>Sakamoto's method; the sum is computed in \<^verbatim>\<open>int\<close>, wide enough for any year. The table is only
  indexed with months 1 to 12.\<close>

definition ds3231_weekday :: "u16 \<Rightarrow> u8 \<Rightarrow> u8 \<Rightarrow> u8" where
  "ds3231_weekday year month day =
     (let y = unat (if month < 3 then year - 1 else year);
          dow = (y + y div 4 - y div 100 + y div 400
                 + [0, 3, 2, 5, 0, 3, 5, 1, 4, 6, 2, 4] ! (unat month - 1) + unat day) mod 7
      in of_nat (dow + 1))"

section \<open>Driver calls\<close>

definition ds3231_init :: "'s i2c_sync \<Rightarrow> 's \<Rightarrow> bool \<times> 's" where
  "ds3231_init sync s =
     (let ((rc, buf), s) = i2c_read_reg sync DS3231_I2C_ADDR REG_CONTROL 1 s in
      if rc < 0 then (False, s)
      else
        let control = buf ! 0 in
        if control AND CONTROL_EOSC \<noteq> 0 then
          let (rc, s) = i2c_write_reg sync DS3231_I2C_ADDR REG_CONTROL (Some [control AND NOT CONTROL_EOSC]) 1 s
          in if rc < 0 then (False, s) else (True, s)
        else (True, s))"

text \<open>The decoding of the seven time registers.\<close>

definition time_of_regs :: "bytes \<Rightarrow> ds3231_time \<Rightarrow> ds3231_time" where
  "time_of_regs raw out =
     out\<lparr>t_second := bcd_to_bin (raw ! 0 AND 0x7F),
       t_minute := bcd_to_bin (raw ! 1 AND 0x7F),
       t_hour := (if raw ! 2 AND HOUR_12_MODE \<noteq> 0
          then let hour12 = bcd_to_bin (raw ! 2 AND 0x1F)
               in hour12 mod 12 + (if raw ! 2 AND HOUR_PM \<noteq> 0 then 12 else 0)
          else bcd_to_bin (raw ! 2 AND 0x3F)),
       t_day := bcd_to_bin (raw ! 4 AND 0x3F),
       t_month := bcd_to_bin (raw ! 5 AND 0x1F),
       t_year := 2000 + ucast (bcd_to_bin (raw ! 6)) + (if raw ! 5 AND MONTH_CENTURY \<noteq> 0 then 100 else 0)\<rparr>"

definition ds3231_get_time :: "'s i2c_sync \<Rightarrow> ds3231_time \<Rightarrow> 's \<Rightarrow> (int \<times> ds3231_time) \<times> 's" where
  "ds3231_get_time sync out s =
     (let ((rc, raw), s) = i2c_read_reg sync DS3231_I2C_ADDR REG_SECONDS 7 s in
      if rc < 0 then ((rc, out), s)
      else
        let out = time_of_regs raw out in
        if \<not> time_valid out then ((DS3231_ERR_BAD_TIME, out), s)
        else ((0, out\<lparr>t_weekday := ds3231_weekday (t_year out) (t_month out) (t_day out)\<rparr>), s))"

definition regs_of_time :: "ds3231_time \<Rightarrow> bytes" where
  "regs_of_time t =
     (let year_in_century = t_year t - (if t_year t \<ge> 2100 then 2100 else 2000) in
      [bin_to_bcd (t_second t), bin_to_bcd (t_minute t), bin_to_bcd (t_hour t),
       ds3231_weekday (t_year t) (t_month t) (t_day t), bin_to_bcd (t_day t),
       bin_to_bcd (t_month t) OR (if t_year t \<ge> 2100 then MONTH_CENTURY else 0),
       bin_to_bcd (ucast year_in_century)])"

definition ds3231_set_time :: "'s i2c_sync \<Rightarrow> ds3231_time \<Rightarrow> 's \<Rightarrow> int \<times> 's" where
  "ds3231_set_time sync t s =
     (if \<not> time_valid t then (DS3231_ERR_ARG, s)
      else i2c_write_reg sync DS3231_I2C_ADDR REG_SECONDS (Some (regs_of_time t)) 7 s)"

definition ds3231_lost_power :: "'s i2c_sync \<Rightarrow> bool \<Rightarrow> 's \<Rightarrow> (int \<times> bool) \<times> 's" where
  "ds3231_lost_power sync lost s =
     (let ((rc, buf), s) = i2c_read_reg sync DS3231_I2C_ADDR REG_STATUS 1 s in
      if rc < 0 then ((rc, lost), s) else ((0, buf ! 0 AND STATUS_OSF \<noteq> 0), s))"

definition ds3231_clear_lost_power :: "'s i2c_sync \<Rightarrow> 's \<Rightarrow> int \<times> 's" where
  "ds3231_clear_lost_power sync s =
     (let ((rc, buf), s) = i2c_read_reg sync DS3231_I2C_ADDR REG_STATUS 1 s in
      if rc < 0 then (rc, s)
      else i2c_write_reg sync DS3231_I2C_ADDR REG_STATUS (Some [buf ! 0 AND NOT STATUS_OSF]) 1 s)"

definition ds3231_temperature_centi :: "'s i2c_sync \<Rightarrow> 16 word \<Rightarrow> 's \<Rightarrow> (int \<times> 16 word) \<times> 's" where
  "ds3231_temperature_centi sync centi s =
     (let ((rc, raw), s) = i2c_read_reg sync DS3231_I2C_ADDR REG_TEMP_MSB 2 s in
      if rc < 0 then ((rc, centi), s)
      else ((0, scast (raw ! 0) * 100 + ucast (drop_bit 6 (raw ! 1)) * 25), s))"

text \<open>The build stamp is generated with the firmware; \<^verbatim>\<open>ds3231_build_time\<close> fills in its weekday.\<close>

record build_stamp =
  bs_year :: u16
  bs_month :: u8
  bs_day :: u8
  bs_hour :: u8
  bs_minute :: u8
  bs_second :: u8

definition ds3231_build_time :: "build_stamp \<Rightarrow> ds3231_time" where
  "ds3231_build_time stamp =
     \<lparr>t_year = bs_year stamp, t_month = bs_month stamp, t_day = bs_day stamp, t_hour = bs_hour stamp,
      t_minute = bs_minute stamp, t_second = bs_second stamp,
      t_weekday = ds3231_weekday (bs_year stamp) (bs_month stamp) (bs_day stamp)\<rparr>"

definition ds3231_compare :: "ds3231_time \<Rightarrow> ds3231_time \<Rightarrow> int" where
  "ds3231_compare a b =
     (let days_a = ucast (t_year a) * 10000 + ucast (t_month a) * 100 + ucast (t_day a) :: u32;
          days_b = ucast (t_year b) * 10000 + ucast (t_month b) * 100 + ucast (t_day b)
      in if days_a \<noteq> days_b then (if days_a < days_b then -1 else 1)
         else
           let secs_a = ucast (t_hour a) * 3600 + ucast (t_minute a) * 60 + ucast (t_second a) :: u32;
               secs_b = ucast (t_hour b) * 3600 + ucast (t_minute b) * 60 + ucast (t_second b)
           in if secs_a \<noteq> secs_b then (if secs_a < secs_b then -1 else 1) else 0)"

definition zero_time :: ds3231_time where
  "zero_time = \<lparr>t_year = 0, t_month = 0, t_day = 0, t_hour = 0, t_minute = 0, t_second = 0, t_weekday = 0\<rparr>"

definition ds3231_sync_to_build_time :: "'s i2c_sync \<Rightarrow> build_stamp \<Rightarrow> bool \<Rightarrow> 's \<Rightarrow> int \<times> 's" where
  "ds3231_sync_to_build_time sync stamp force s =
     (let reference = ds3231_build_time stamp in
      if force then
        let (rc, s) = ds3231_set_time sync reference s in
        if rc < 0 then (rc, s)
        else let (_, s) = ds3231_clear_lost_power sync s in (1, s)
      else
        let ((rc, lost), s) = ds3231_lost_power sync False s in
        if rc < 0 then (rc, s)
        else
          let ((read_rc, now), s) = ds3231_get_time sync zero_time s in
          if read_rc < 0 \<and> read_rc > DS3231_ERR_BAD_TIME then (read_rc, s)
          else
            let stale = (lost \<or> read_rc = DS3231_ERR_BAD_TIME \<or> ds3231_compare now reference < 0) in
            if \<not> stale then (0, s)
            else
              let (rc, s) = ds3231_set_time sync reference s in
              if rc < 0 then (rc, s)
              else let (_, s) = ds3231_clear_lost_power sync s in (1, s))"

section \<open>The compile-time stamp\<close>

text \<open>build_time.cpp's fallback: the stamp from \<^verbatim>\<open>__DATE__\<close> ("MMM DD YYYY") and \<^verbatim>\<open>__TIME__\<close>.\<close>

definition digit :: "char \<Rightarrow> u8" where
  "digit c = (if c = CHR '' '' then 0 else of_nat (of_char c) - of_nat (of_char (CHR ''0'')))"

definition two_digits :: "string \<Rightarrow> u8" where
  "two_digits s = digit (s ! 0) * 10 + digit (s ! 1)"

definition month_of :: "string \<Rightarrow> u8" where
  "month_of m =
     (if m ! 0 = CHR ''J'' then (if m ! 1 = CHR ''a'' then 1 else if m ! 2 = CHR ''n'' then 6 else 7)
      else if m ! 0 = CHR ''F'' then 2
      else if m ! 0 = CHR ''M'' then (if m ! 2 = CHR ''r'' then 3 else 5)
      else if m ! 0 = CHR ''A'' then (if m ! 1 = CHR ''p'' then 4 else 8)
      else if m ! 0 = CHR ''S'' then 9
      else if m ! 0 = CHR ''O'' then 10
      else if m ! 0 = CHR ''N'' then 11
      else 12)"

definition year_of :: "string \<Rightarrow> u16" where
  "year_of d = ucast (digit (d ! 7)) * 1000 + ucast (digit (d ! 8)) * 100 + ucast (digit (d ! 9)) * 10
     + ucast (digit (d ! 10))"

definition compile_stamp :: "string \<Rightarrow> string \<Rightarrow> build_stamp" where
  "compile_stamp date time =
     \<lparr>bs_year = year_of date, bs_month = month_of date, bs_day = two_digits (drop 4 date),
      bs_hour = two_digits time, bs_minute = two_digits (drop 3 time), bs_second = two_digits (drop 6 time)\<rparr>"

lemma compile_stamp_example:
  "compile_stamp ''Feb  9 2026'' ''08:07:59''
     = \<lparr>bs_year = 2026, bs_month = 2, bs_day = 9, bs_hour = 8, bs_minute = 7, bs_second = 59\<rparr>"
  by (simp add: compile_stamp_def year_of_def month_of_def two_digits_def digit_def of_char_def)

section \<open>Register encoding\<close>

lemma word_range_induct:
  assumes "list_all P (map of_nat [0..<n])" and "unat (v :: 'a::len word) < n"
  shows "P v"
proof -
  have "v = of_nat (unat v)" by simp
  then have "v \<in> set (map of_nat [0..<n])" using assms(2) by (metis atLeastLessThan_iff imageI le0 set_map set_upt)
  then show ?thesis using assms(1) by (simp only: list_all_iff)
qed

lemma bcd_roundtrip:
  assumes "unat v < 100"
  shows "bcd_to_bin (bin_to_bcd v) = v"
  by (rule word_range_induct [of "\<lambda>v. bcd_to_bin (bin_to_bcd v) = v", OF _ assms]) code_simp

lemma bcd_sixty:
  assumes "unat v < 60"
  shows "bcd_to_bin (bin_to_bcd v AND 0x7F) = v"
  by (rule word_range_induct [of "\<lambda>v. bcd_to_bin (bin_to_bcd v AND 0x7F) = v", OF _ assms]) code_simp

lemma bcd_hour:
  assumes "unat v < 24"
  shows "bin_to_bcd v AND 0x40 = 0 \<and> bcd_to_bin (bin_to_bcd v AND 0x3F) = v"
  by (rule word_range_induct [of "\<lambda>v. bin_to_bcd v AND 0x40 = 0 \<and> bcd_to_bin (bin_to_bcd v AND 0x3F) = v", OF _ assms]) code_simp

lemma bcd_day:
  assumes "unat v < 32"
  shows "bcd_to_bin (bin_to_bcd v AND 0x3F) = v"
  by (rule word_range_induct [of "\<lambda>v. bcd_to_bin (bin_to_bcd v AND 0x3F) = v", OF _ assms]) code_simp

lemma bcd_month:
  "unat v < 13 \<Longrightarrow> (bin_to_bcd v OR c) AND 0x80 = c AND 0x80 \<and>
     (c \<in> {0, 0x80} \<longrightarrow> bcd_to_bin ((bin_to_bcd v OR c) AND 0x1F) = v)"
proof -
  assume v: "unat v < 13"
  have "bin_to_bcd v AND 0x80 = 0 \<and> bcd_to_bin (bin_to_bcd v AND 0x1F) = v \<and>
      bcd_to_bin ((bin_to_bcd v OR 0x80) AND 0x1F) = v"
    by (rule word_range_induct [of "\<lambda>v. bin_to_bcd v AND 0x80 = 0 \<and> bcd_to_bin (bin_to_bcd v AND 0x1F) = v \<and>
      bcd_to_bin ((bin_to_bcd v OR 0x80) AND 0x1F) = v", OF _ v]) code_simp
  then show ?thesis by (auto simp: bit.conj_disj_distrib2)
qed

lemma days_in_month_le: "days_in_month y m \<le> 31"
proof (cases "m < 1 \<or> m > 12")
  case False
  then have "unat m - 1 < 12" "\<not> m < 1" by (auto simp: word_less_nat_alt word_le_nat_alt)
  then have "[31, 28, 31, 30, 31, 30, 31, 31, 30, 31, 30, 31] ! (unat m - 1) \<in>
      set [31, 28, 31, 30, 31, 30, 31, 31, 30, 31, 30, 31 :: u8]"
    by (intro nth_mem) simp
  then show ?thesis using False by (auto simp: days_in_month_def)
qed (simp add: days_in_month_def)

lemma time_valid_bounds:
  assumes "time_valid t"
  shows "unat (t_second t) < 60" "unat (t_minute t) < 60" "unat (t_hour t) < 24" "unat (t_day t) < 32"
    "1 \<le> unat (t_day t)" "unat (t_month t) < 13" "1 \<le> unat (t_month t)"
    "2000 \<le> unat (t_year t)" "unat (t_year t) < 2200"
proof -
  have "t_day t \<le> 31" using assms days_in_month_le [of "t_year t" "t_month t"] by (auto simp: time_valid_def)
  then show "unat (t_day t) < 32" by (simp add: word_le_nat_alt)
  show "unat (t_second t) < 60" "unat (t_minute t) < 60" "unat (t_hour t) < 24" "1 \<le> unat (t_day t)"
    "unat (t_month t) < 13" "1 \<le> unat (t_month t)" "2000 \<le> unat (t_year t)" "unat (t_year t) < 2200"
    using assms by (auto simp: time_valid_def word_less_nat_alt word_le_nat_alt not_less)
qed

lemma year_roundtrip:
  assumes "2000 \<le> unat y" and "unat y < 2200"
  shows "2000 + ucast (bcd_to_bin (bin_to_bcd (ucast (y - (if y \<ge> 2100 then 2100 else 2000)))))
    + (if y \<ge> 2100 then 100 else 0) = (y :: u16)"
proof -
  let ?b = "if y \<ge> 2100 then 2100 else 2000 :: u16"
  have b: "unat ?b \<le> unat y" "unat y - unat ?b < 100"
    using assms by (auto simp: word_le_nat_alt)
  have u: "unat (y - ?b) = unat y - unat ?b"
    using b(1) by (simp add: unat_sub word_le_nat_alt)
  have u8: "unat (ucast (y - ?b) :: u8) < 100"
    using u b(2) by (simp add: unsigned_ucast_eq take_bit_nat_eq_self)
  have "ucast (ucast (y - ?b) :: u8) = y - ?b"
    using u b(2) by (simp add: word_unat_eq_iff unsigned_ucast_eq unsigned_take_bit_eq take_bit_nat_eq_self)
  then show ?thesis
    using bcd_roundtrip [OF u8] by simp
qed

lemma time_regs_roundtrip:
  assumes "time_valid t"
  shows "time_of_regs (regs_of_time t) out = t\<lparr>t_weekday := t_weekday out\<rparr>"
proof -
  note b = time_valid_bounds [OF assms]
  have m: "bcd_to_bin ((bin_to_bcd (t_month t) OR (if t_year t \<ge> 2100 then 0x80 else 0)) AND 0x1F) = t_month t"
    "((bin_to_bcd (t_month t) OR (if t_year t \<ge> 2100 then 0x80 else 0)) AND 0x80 \<noteq> 0) \<longleftrightarrow> t_year t \<ge> 2100"
    using bcd_month [OF b(6), of "if t_year t \<ge> 2100 then 0x80 else 0"] by auto
  show ?thesis
    using year_roundtrip [OF b(8,9)]
    unfolding time_of_regs_def regs_of_time_def Let_def
    by (simp add: bcd_sixty b bcd_hour bcd_day m [simplified] del: One_nat_def)
qed

lemma length_regs_of_time [simp]: "length (regs_of_time t) = 7"
  by (simp add: regs_of_time_def Let_def)

lemma time_valid_weekday [simp]: "time_valid (t\<lparr>t_weekday := w\<rparr>) = time_valid t"
  by (simp add: time_valid_def)

section \<open>Weekdays\<close>

text \<open>The date after a date, by the calendar.\<close>

definition next_date :: "u16 \<times> u8 \<times> u8 \<Rightarrow> u16 \<times> u8 \<times> u8" where
  "next_date date = (case date of (y, m, d) \<Rightarrow>
     if d < days_in_month y m then (y, m, d + 1)
     else if m < 12 then (y, m + 1, 1)
     else (y + 1, 1, 1))"

definition leap_count :: "nat \<Rightarrow> nat" where
  "leap_count y = y + y div 4 - y div 100 + y div 400"

lemma leap_count_Suc:
  "leap_count (Suc y) = leap_count y + 1 +
     (if (Suc y mod 4 = 0 \<and> Suc y mod 100 \<noteq> 0) \<or> Suc y mod 400 = 0 then 1 else 0)"
proof -
  have d: "Suc y div k = (if Suc y mod k = 0 then Suc (y div k) else y div k)" for k
    by (rule div_Suc)
  have m1: "Suc y mod 400 = 0 \<Longrightarrow> Suc y mod 100 = 0"
    using mod_mod_cancel [of 100 400 "Suc y"] by simp
  have m2: "Suc y mod 100 = 0 \<Longrightarrow> Suc y mod 4 = 0"
    using mod_mod_cancel [of 4 100 "Suc y"] by simp
  have le: "y div 100 \<le> y + y div 4 + y div 400"
    by (meson div_le_dividend le_add1 le_trans)
  show ?thesis
    unfolding leap_count_def d
    using m1 m2 le by (cases "Suc y mod 400 = 0"; cases "Suc y mod 100 = 0"; cases "Suc y mod 4 = 0") (simp_all add: Suc_diff_le le_SucI)
qed

definition weekday_sum :: "nat \<Rightarrow> nat \<Rightarrow> nat \<Rightarrow> nat" where
  "weekday_sum y m d = leap_count (if m < 3 then y - 1 else y)
     + [0, 3, 2, 5, 0, 3, 5, 1, 4, 6, 2, 4] ! (m - 1) + d"

lemma weekday_nat:
  assumes "1 \<le> unat y"
  shows "unat (ds3231_weekday y m d) = weekday_sum (unat y) (unat m) (unat d) mod 7 + 1"
proof -
  have "unat (y - 1) = unat y - 1" using assms by (simp add: unat_sub word_le_nat_alt)
  moreover have key: "unat (of_nat (x mod 7 + 1) :: u8) = x mod 7 + 1" for x :: nat
    using mod_less_divisor [of 7 x] by (intro unat_of_nat_lt) simp
  ultimately show ?thesis
    unfolding ds3231_weekday_def Let_def weekday_sum_def leap_count_def key
    by (simp add: word_less_nat_alt)
qed

lemma is_leap_nat:
  "is_leap y \<longleftrightarrow> (unat y mod 4 = 0 \<and> unat y mod 100 \<noteq> 0) \<or> unat y mod 400 = 0"
  by (simp add: is_leap_def word_unat_eq_iff unat_mod)

lemma month_cases:
  "1 \<le> m \<Longrightarrow> m < (13::nat) \<Longrightarrow> m = 1 \<or> m = 2 \<or> m = 3 \<or> m = 4 \<or> m = 5 \<or> m = 6 \<or> m = 7 \<or> m = 8
     \<or> m = 9 \<or> m = 10 \<or> m = 11 \<or> m = 12"
  by arith

lemma weekday_sum_month:
  assumes "1 \<le> m" and "m < 12" and "1 \<le> y"
    and "dim = (if m = 2 \<and> ((y mod 4 = 0 \<and> y mod 100 \<noteq> 0) \<or> y mod 400 = 0) then 29
      else [31, 28, 31, 30, 31, 30, 31, 31, 30, 31, 30, 31 :: nat] ! (m - 1))"
  shows "weekday_sum y (m + 1) 1 mod 7 = (weekday_sum y m dim + 1) mod 7"
proof -
  have feb: "leap_count y = leap_count (y - 1) + 1 +
      (if (y mod 4 = 0 \<and> y mod 100 \<noteq> 0) \<or> y mod 400 = 0 then 1 else 0)"
    using leap_count_Suc [of "y - 1"] assms(3) by simp
  show ?thesis
  proof (cases "m = 2")
    case True
    define leap where "leap \<longleftrightarrow> (y mod 4 = 0 \<and> y mod 100 \<noteq> 0) \<or> y mod 400 = 0"
    have e1: "weekday_sum y (m + 1) 1 = leap_count (y - 1) + (if leap then 5 else 4)"
      using True feb [folded leap_def] by (simp add: weekday_sum_def)
    have e2: "weekday_sum y m dim + 1 = leap_count (y - 1) + (if leap then 33 else 32)"
      using True assms(4) [folded leap_def] by (simp add: weekday_sum_def)
    have e3: "(if leap then 5 else 4) mod 7 = (if leap then 33 else 32) mod (7 :: nat)"
      by simp
    show ?thesis
      unfolding e1 e2 by (rule mod_add_cong [OF refl e3])
  next
    case False
    let ?shift = "[0, 3, 2, 5, 0, 3, 5, 1, 4, 6, 2, 4 :: nat]"
    let ?L = "leap_count (if m < 3 then y - 1 else y)"
    have dim: "dim = [31, 28, 31, 30, 31, 30, 31, 31, 30, 31, 30, 31] ! (m - 1)"
      using False assms(4) by simp
    have e1: "weekday_sum y (m + 1) 1 = ?L + (?shift ! m + 1)"
      using False assms(1) by (simp add: weekday_sum_def)
    have e2: "weekday_sum y m dim + 1 = ?L + (?shift ! (m - 1) + dim + 1)"
      by (simp add: weekday_sum_def)
    have e3: "(?shift ! m + 1) mod 7 = (?shift ! (m - 1) + dim + 1) mod 7"
    proof -
      have "m = 1 \<or> m = 3 \<or> m = 4 \<or> m = 5 \<or> m = 6 \<or> m = 7 \<or> m = 8 \<or> m = 9 \<or> m = 10 \<or> m = 11"
        using month_cases [of m] assms(1,2) False by simp
      then show ?thesis unfolding dim by (elim disjE) simp_all
    qed
    show ?thesis
      unfolding e1 e2 by (rule mod_add_cong [OF refl e3])
  qed
qed

lemma days_in_month_nat:
  assumes "1 \<le> unat m" and "unat m < 13"
  shows "unat (days_in_month y m) =
    (if unat m = 2 \<and> ((unat y mod 4 = 0 \<and> unat y mod 100 \<noteq> 0) \<or> unat y mod 400 = 0) then 29
     else [31, 28, 31, 30, 31, 30, 31, 31, 30, 31, 30, 31] ! (unat m - 1))"
proof -
  let ?tab = "[31, 28, 31, 30, 31, 30, 31, 31, 30, 31, 30, 31 :: u8]"
  have i: "unat m - 1 < length ?tab" using assms by simp
  have "unat (?tab ! (unat m - 1)) = map unat ?tab ! (unat m - 1)"
    using nth_map [OF i, of unat] by simp
  moreover have "\<not> (m < 1 \<or> m > 12)" "m = 2 \<longleftrightarrow> unat m = 2"
    using assms by (auto simp: word_less_nat_alt word_unat_eq_iff)
  ultimately show ?thesis by (simp add: days_in_month_def is_leap_nat)
qed

lemma unat_Suc_word: "unat (w :: 'a::len word) + 1 < 2 ^ LENGTH('a) \<Longrightarrow> unat (w + 1) = unat w + 1"
proof -
  assume a: "unat w + 1 < 2 ^ LENGTH('a)"
  have "(of_nat (unat w + 1) :: 'a word) = w + 1" by simp
  then show ?thesis using unat_of_nat_lt [OF a] by (simp add: add.commute)
qed

lemma weekday_step:
  assumes "1 \<le> unat y" and "unat y < 65535" and m: "1 \<le> unat m" "unat m < 13"
    and d: "1 \<le> d" "d \<le> days_in_month y m"
    and nx: "next_date (y, m, d) = (y', m', d')"
  shows "unat (ds3231_weekday y' m' d') = unat (ds3231_weekday y m d) mod 7 + 1"
proof -
  have d31: "d \<le> 31" using d(2) days_in_month_le [of y m] by (rule order_trans)
  have sum: "weekday_sum (unat y') (unat m') (unat d') mod 7 = (weekday_sum (unat y) (unat m) (unat d) + 1) mod 7"
  proof (cases "d < days_in_month y m")
    case True
    then have "unat (d + 1) = unat d + 1"
      using d31 by (intro unat_Suc_word) (simp add: word_le_nat_alt)
    then show ?thesis using nx True by (auto simp: next_date_def weekday_sum_def)
  next
    case False
    then have d: "d = days_in_month y m" using d(2) by simp
    show ?thesis
    proof (cases "m < 12")
      case True
      then have "unat (m + 1) = unat m + 1" "unat m < 12"
        using m unat_Suc_word [of m] by (simp_all add: word_less_nat_alt)
      then show ?thesis
        using weekday_sum_month [OF m(1) _ assms(1) days_in_month_nat [OF m, of y]] nx True False
        by (auto simp: next_date_def d)
    next
      case mm: False
      then have "unat m = 12" using m by (simp add: word_less_nat_alt)
      moreover have "unat (y + 1) = unat y + 1" using assms(2) by (intro unat_Suc_word) simp
      moreover have "unat d = 31" using days_in_month_nat [OF m, of y] \<open>unat m = 12\<close> by (simp add: d)
      moreover have "(leap_count (unat y) + 1) mod 7 = (36 + leap_count (unat y)) mod 7"
        by presburger
      ultimately show ?thesis
        using nx mm False by (auto simp: next_date_def weekday_sum_def d)
    qed
  qed
  have "1 \<le> unat y'"
    using nx assms(1,2) unat_Suc_word [of y] by (auto simp: next_date_def split: if_splits)
  then show ?thesis
    using sum assms(1) by (simp add: weekday_nat mod_Suc_eq)
qed

section \<open>Setting, reading and seeding the clock\<close>

lemma get_time_of_regs:
  assumes "i2c_read_reg sync DS3231_I2C_ADDR REG_SECONDS 7 s = ((rc, regs_of_time t), s')" and "rc \<ge> 0"
    and "time_valid t"
  shows "ds3231_get_time sync out s
    = ((0, t\<lparr>t_weekday := ds3231_weekday (t_year t) (t_month t) (t_day t)\<rparr>), s')"
  using assms by (simp add: ds3231_get_time_def time_regs_roundtrip Let_def)

lemma get_time_fails: "ds3231_get_time sync out s = ((rc, now), s') \<Longrightarrow> rc < 0 \<Longrightarrow> rc \<noteq> DS3231_ERR_BAD_TIME \<Longrightarrow>
    fst (fst (i2c_read_reg sync DS3231_I2C_ADDR REG_SECONDS 7 s)) = rc"
  by (auto simp: ds3231_get_time_def Let_def split: prod.splits if_splits)

context i2c_registers
begin

lemma get_keeps_regs:
  assumes "addr = DS3231_I2C_ADDR" and "ds3231_get_time sync out s = ((rc, now), s')" and "rc \<ge> DS3231_ERR_BAD_TIME"
    and bus: "\<And>s. fst (fst (i2c_read_reg sync addr REG_SECONDS 7 s)) \<ge> 0"
  shows "regs s' = regs s"
proof -
  obtain rc' raw s1 where r: "i2c_read_reg sync addr REG_SECONDS 7 s = ((rc', raw), s1)" by (metis surj_pair)
  then have "rc' \<ge> 0" using bus [of s] by simp
  moreover have "s' = s1"
    using assms(1,2) r \<open>rc' \<ge> 0\<close> by (auto simp: ds3231_get_time_def Let_def split: if_splits)
  ultimately show ?thesis using read_reg_ok [OF r] by simp
qed

lemma set_then_get:
  assumes addr: "addr = DS3231_I2C_ADDR" and valid: "time_valid t"
    and set: "ds3231_set_time sync t s = (rc, s1)" "rc \<ge> 0"
    and get: "fst (fst (i2c_read_reg sync addr REG_SECONDS 7 s1)) \<ge> 0"
  shows "fst (ds3231_get_time sync out s1)
    = (0, t\<lparr>t_weekday := ds3231_weekday (t_year t) (t_month t) (t_day t)\<rparr>)"
proof -
  have w: "i2c_write_reg sync addr REG_SECONDS (Some (regs_of_time t)) 7 s = (rc, s1)"
    using set valid addr by (simp add: ds3231_set_time_def)
  obtain rc' rx s2 where r: "i2c_read_reg sync addr REG_SECONDS 7 s1 = ((rc', rx), s2)" by (metis surj_pair)
  then have "rc' \<ge> 0" using get by simp
  then have "rx = regs_of_time t"
    using read_after_write [OF w set(2) _ r] by simp
  then show ?thesis
    using get_time_of_regs [OF r [unfolded addr, unfolded \<open>rx = regs_of_time t\<close>] \<open>rc' \<ge> 0\<close> valid] by simp
qed

end

section \<open>Comparison\<close>

text \<open>The lexicographic order of the six fields.\<close>

fun lex3 :: "nat \<times> nat \<times> nat \<Rightarrow> nat \<times> nat \<times> nat \<Rightarrow> bool" where
  "lex3 (x, y, z) (x', y', z') \<longleftrightarrow> x < x' \<or> x = x' \<and> (y < y' \<or> y = y' \<and> z < z')"

definition date_of :: "ds3231_time \<Rightarrow> nat \<times> nat \<times> nat" where
  "date_of t = (unat (t_year t), unat (t_month t), unat (t_day t))"

definition clock_of :: "ds3231_time \<Rightarrow> nat \<times> nat \<times> nat" where
  "clock_of t = (unat (t_hour t), unat (t_minute t), unat (t_second t))"

definition time_less :: "ds3231_time \<Rightarrow> ds3231_time \<Rightarrow> bool" where
  "time_less a b \<longleftrightarrow>
     lex3 (date_of a) (date_of b) \<or> date_of a = date_of b \<and> lex3 (clock_of a) (clock_of b)"

lemma lex3_total: "lex3 p q \<or> p = q \<or> lex3 q p"
  by (cases p; cases q) (simp, linarith)

lemma lex3_asym: "lex3 p q \<Longrightarrow> \<not> lex3 q p \<and> p \<noteq> q"
  by (cases p; cases q) (simp, linarith)

lemma ucast_of_nat_unat: "(ucast (a :: 'a::len word) :: 'b::len word) = of_nat (unat a)"
  by (simp add: word_unat_eq_iff unsigned_ucast_eq unsigned_take_bit_eq unsigned_of_nat)

lemma unat_lin3:
  assumes "unat (a :: 'a::len word) < A" "unat (b :: 'b::len word) < B" "unat (c :: 'c::len word) < C"
    and "LENGTH('a) \<le> 32" "LENGTH('b) \<le> 32" "LENGTH('c) \<le> 32"
    and "A * p + B * q + C < 2 ^ 32" and "p < 2 ^ 32" "q < 2 ^ 32"
  shows "unat (ucast a * of_nat p + ucast b * of_nat q + ucast c :: u32) = unat a * p + unat b * q + unat c"
proof -
  have "unat a * p + unat b * q + unat c \<le> A * p + B * q + C"
    using assms(1-3) by (intro add_mono mult_right_mono) simp_all
  then have "unat a * p + unat b * q + unat c < 2 ^ 32" using assms(7) by simp
  then have "unat (of_nat (unat a * p + unat b * q + unat c) :: u32) = unat a * p + unat b * q + unat c"
    by (intro unat_of_nat_lt) simp
  moreover have "(of_nat (unat a * p + unat b * q + unat c) :: u32)
      = ucast a * of_nat p + ucast b * of_nat q + ucast c"
    by (simp only: of_nat_add of_nat_mult ucast_of_nat_unat)
  ultimately show ?thesis by simp
qed

lemma pair_lex:
  fixes x x' w w' K :: nat
  assumes "w < K" and "w' < K"
  shows "x * K + w < x' * K + w' \<longleftrightarrow> x < x' \<or> x = x' \<and> w < w'"
    and "x * K + w = x' * K + w' \<longleftrightarrow> x = x' \<and> w = w'"
proof -
  have lt: "u * K + v < u' * K + v'" if "u < u'" "v < K" for u u' v v'
  proof -
    have "Suc u * K \<le> u' * K" using that(1) by (intro mult_le_mono1) simp
    then show ?thesis using that(2) by simp
  qed
  show "x * K + w < x' * K + w' \<longleftrightarrow> x < x' \<or> x = x' \<and> w < w'"
    "x * K + w = x' * K + w' \<longleftrightarrow> x = x' \<and> w = w'"
    using lt [of x x' w w'] lt [of x' x w' w] assms by (cases x x' rule: linorder_cases; simp)+
qed

lemma lex_day:
  assumes "y < 13" "z < 32" "y' < 13" "z' < 32"
  shows "x * 10000 + y * 100 + z < x' * 10000 + y' * 100 + z' \<longleftrightarrow> lex3 (x, y, z) (x', y', z')"
    and "x * 10000 + y * 100 + z = x' * 10000 + y' * 100 + z' \<longleftrightarrow> (x, y, z) = (x', y', z')"
  using pair_lex [of "y * 100 + z" 10000 "y' * 100 + z'" x x'] pair_lex [of z 100 z' y y'] assms
  by (simp_all add: add.assoc)

lemma lex_sec:
  assumes "y < 60" "z < 60" "y' < 60" "z' < 60"
  shows "x * 3600 + y * 60 + z < x' * 3600 + y' * 60 + z' \<longleftrightarrow> lex3 (x, y, z) (x', y', z')"
    and "x * 3600 + y * 60 + z = x' * 3600 + y' * 60 + z' \<longleftrightarrow> (x, y, z) = (x', y', z')"
  using pair_lex [of "y * 60 + z" 3600 "y' * 60 + z'" x x'] pair_lex [of z 60 z' y y'] assms
  by (simp_all add: add.assoc)

lemma compare_valid:
  assumes "time_valid a" and "time_valid b"
  shows "ds3231_compare a b = (if time_less a b then -1 else if time_less b a then 1 else 0)"
proof -
  note ba = time_valid_bounds [OF assms(1)] and bb = time_valid_bounds [OF assms(2)]
  have day: "unat (ucast (t_year t) * 10000 + ucast (t_month t) * 100 + ucast (t_day t) :: u32)
      = unat (t_year t) * 10000 + unat (t_month t) * 100 + unat (t_day t)" if "time_valid t" for t
    using unat_lin3 [of "t_year t" 2200 "t_month t" 13 "t_day t" 32 10000 100]
      time_valid_bounds [OF that] by simp
  have sec: "unat (ucast (t_hour t) * 3600 + ucast (t_minute t) * 60 + ucast (t_second t) :: u32)
      = unat (t_hour t) * 3600 + unat (t_minute t) * 60 + unat (t_second t)" if "time_valid t" for t
    using unat_lin3 [of "t_hour t" 24 "t_minute t" 60 "t_second t" 60 3600 60]
      time_valid_bounds [OF that] by simp
  have d: "ucast (t_year a) * 10000 + ucast (t_month a) * 100 + ucast (t_day a)
        < (ucast (t_year b) * 10000 + ucast (t_month b) * 100 + ucast (t_day b) :: u32) \<longleftrightarrow> lex3 (date_of a) (date_of b)"
      "ucast (t_year a) * 10000 + ucast (t_month a) * 100 + ucast (t_day a)
        \<noteq> (ucast (t_year b) * 10000 + ucast (t_month b) * 100 + ucast (t_day b) :: u32) \<longleftrightarrow> date_of a \<noteq> date_of b"
    unfolding word_unat_eq_iff word_less_nat_alt day [OF assms(1)] day [OF assms(2)]
      lex_day [OF ba(6,4) bb(6,4)] date_of_def by (rule refl)+
  have s: "ucast (t_hour a) * 3600 + ucast (t_minute a) * 60 + ucast (t_second a)
        < (ucast (t_hour b) * 3600 + ucast (t_minute b) * 60 + ucast (t_second b) :: u32) \<longleftrightarrow> lex3 (clock_of a) (clock_of b)"
      "ucast (t_hour a) * 3600 + ucast (t_minute a) * 60 + ucast (t_second a)
        \<noteq> (ucast (t_hour b) * 3600 + ucast (t_minute b) * 60 + ucast (t_second b) :: u32) \<longleftrightarrow> clock_of a \<noteq> clock_of b"
    unfolding word_unat_eq_iff word_less_nat_alt sec [OF assms(1)] sec [OF assms(2)]
      lex_sec [OF ba(2,1) bb(2,1)] clock_of_def by (rule refl)+
  show ?thesis
    unfolding ds3231_compare_def Let_def d s time_less_def
    using lex3_total [of "date_of a" "date_of b"] lex3_total [of "clock_of a" "clock_of b"]
      lex3_asym [of "date_of a" "date_of b"] lex3_asym [of "date_of b" "date_of a"]
      lex3_asym [of "clock_of a" "clock_of b"] lex3_asym [of "clock_of b" "clock_of a"]
    by presburger
qed

section \<open>Properties\<close>

text \<open>C20: over a device that keeps its registers, a time accepted by ds3231_set_time is what
  ds3231_get_time reads back, every field unchanged and the weekday recomputed, for every valid
  date of 2000 to 2199 (both centuries) and in 24-hour mode.\<close>

theorem ds3231_set_then_get:
  assumes "i2c_registers sync DS3231_I2C_ADDR regs" and "time_valid t"
    and "ds3231_set_time sync t s = (rc, s1)" and "rc \<ge> 0"
    and "fst (fst (i2c_read_reg sync DS3231_I2C_ADDR REG_SECONDS 7 s1)) \<ge> 0"
  shows "fst (ds3231_get_time sync out s1)
    = (0, t\<lparr>t_weekday := ds3231_weekday (t_year t) (t_month t) (t_day t)\<rparr>)"
  using i2c_registers.set_then_get [OF assms(1) refl assms(2-5)] .

definition demo_time :: ds3231_time where
  "demo_time = \<lparr>t_year = 2126, t_month = 12, t_day = 31, t_hour = 23, t_minute = 59, t_second = 58, t_weekday = 0\<rparr>"

lemma ds3231_set_then_get_witness:
  "fst (ds3231_get_time (run_sync regfile_sdk Served) zero_time
     (snd (ds3231_set_time (run_sync regfile_sdk Served) demo_time demo_regs))) = (0, demo_time\<lparr>t_weekday := 3\<rparr>)"
proof -
  let ?sync = "run_sync regfile_sdk Served"
  have valid: "time_valid demo_time"
    by (simp add: time_valid_def demo_time_def days_in_month_def)
  obtain s1 where s1: "ds3231_set_time ?sync demo_time demo_regs = (8, s1)"
    using valid by (simp add: ds3231_set_time_def i2c_write_reg_def run_sync_def execute_def regfile_sdk_def
        map_sdk_rc_def)
  have rd: "fst (fst (i2c_read_reg ?sync 0x68 0 7 s1)) \<ge> 0"
    by (simp add: i2c_read_reg_def i2c_write_read_def run_sync_def execute_def regfile_sdk_def map_sdk_rc_def)
  have wd: "ds3231_weekday 2126 12 31 = 3" by (simp add: ds3231_weekday_def)
  show ?thesis
    using ds3231_set_then_get [OF regfile_bus.i2c_registers_axioms valid s1 _ rd, of zero_time] wd
    unfolding s1 by (simp add: demo_time_def)
qed

text \<open>ds3231_weekday follows the calendar: 1 January 2000 is a Saturday (7), and the weekday of the
  day after any date (month ends, leap years and year ends included) is the next weekday, cyclically.\<close>

theorem ds3231_weekday_calendar:
  assumes "1 \<le> unat y" and "unat y < 65535" and "1 \<le> unat m" and "unat m < 13"
    and "1 \<le> d" and "d \<le> days_in_month y m" and "next_date (y, m, d) = (y', m', d')"
  shows "ds3231_weekday 2000 1 1 = 7 \<and>
    unat (ds3231_weekday y' m' d') = unat (ds3231_weekday y m d) mod 7 + 1"
  using weekday_step [OF assms] by (simp add: ds3231_weekday_def)

lemma ds3231_weekday_calendar_witness:
  "unat (ds3231_weekday 2024 2 29) = unat (ds3231_weekday 2024 2 28) mod 7 + 1"
  using ds3231_weekday_calendar [of 2024 2 28 2024 2 29]
  by (simp add: next_date_def days_in_month_def is_leap_def)

text \<open>ds3231_compare on two valid times is the lexicographic order of year, month, day, hour,
  minute and second: -1 when the first is earlier, 1 when it is later, 0 when they are equal.\<close>

theorem ds3231_compare_lexicographic:
  assumes "time_valid a" and "time_valid b"
  shows "ds3231_compare a b = (if time_less a b then -1 else if time_less b a then 1 else 0)"
  using assms by (rule compare_valid)

lemma ds3231_compare_lexicographic_witness:
  "ds3231_compare (demo_time\<lparr>t_second := 57\<rparr>) demo_time = -1"
proof -
  have "time_valid demo_time" "time_valid (demo_time\<lparr>t_second := 57\<rparr>)"
    by (simp_all add: time_valid_def demo_time_def days_in_month_def)
  then show ?thesis
    using ds3231_compare_lexicographic by (simp add: time_less_def date_of_def clock_of_def demo_time_def)
qed

end
