(* ===== verification/Encoder.thy ===== *)
theory Encoder
  imports Prelude
begin

text \<open>
  The rotary encoder driver, Firmware/northbridge/src/encoder.cpp: the quadrature interrupt with its
  transition table and detent accumulator, and the event task. The lemmas tie the three detent
  counters to the number of quadrature steps actually seen, over any interleaving of interrupts,
  task turns and polls.
\<close>

section \<open>State\<close>

abbreviation (input) ENCODER_STEPS_PER_DETENT :: int where "ENCODER_STEPS_PER_DETENT \<equiv> 4"
abbreviation (input) kSign :: int where "kSign \<equiv> 1"

definition kQuadTable :: "int list" where
  "kQuadTable = [0, -1, 1, 0,  1, 0, 0, -1,  -1, 0, 0, 1,  0, 1, -1, 0]"

record encoder =
  enc_state :: u8
  enc_sub :: int
  enc_position :: u32
  enc_queue_delta :: u32
  enc_poll_delta :: u32
  enc_errors :: u32
  enc_pressed :: bool

record encoder_msg =
  em_delta :: u8
  em_pressed :: bool
  em_button_edge :: bool
  em_position :: u32

text \<open>\<^verbatim>\<open>(int8_t)\<close> on an \<^verbatim>\<open>int\<close>.\<close>

definition int8_cast :: "int \<Rightarrow> int" where
  "int8_cast i = signed_take_bit 7 i"

definition read_state :: "bool \<Rightarrow> bool \<Rightarrow> u8" where
  "read_state s1 s2 = (if s1 then 2 else 0) OR (if s2 then 1 else 0)"

section \<open>The interrupt\<close>

lemma int8_cast_less: "4 \<le> i \<Longrightarrow> int8_cast (i - 4) < i"
proof -
  assume i: "4 \<le> i"
  have "int8_cast (i - 4) < 2 ^ 7" unfolding int8_cast_def by (rule signed_take_bit_int_less_exp)
  moreover have "int8_cast (i - 4) = i - 4" if "i - 4 < 2 ^ 7"
    using that i unfolding int8_cast_def by (intro signed_take_bit_int_eq_self) simp_all
  ultimately show ?thesis by (cases "i - 4 < 2 ^ 7") simp_all
qed

lemma int8_cast_greater: "i \<le> -4 \<Longrightarrow> i < int8_cast (i + 4)"
proof -
  assume i: "i \<le> -4"
  have "- (2 ^ 7) \<le> int8_cast (i + 4)" unfolding int8_cast_def by (rule signed_take_bit_int_greater_eq_minus_exp)
  moreover have "int8_cast (i + 4) = i + 4" if "- (2 ^ 7) \<le> i + 4"
    using that i unfolding int8_cast_def by (intro signed_take_bit_int_eq_self) simp_all
  ultimately show ?thesis by (cases "- (2 ^ 7) \<le> i + 4") simp_all
qed

text \<open>The two detent loops, lines 78--90.\<close>

function detents_up :: "encoder \<Rightarrow> encoder" where
  "detents_up e =
     (if enc_sub e \<ge> ENCODER_STEPS_PER_DETENT
      then detents_up (e\<lparr>enc_sub := int8_cast (enc_sub e - ENCODER_STEPS_PER_DETENT),
             enc_position := enc_position e + 1, enc_queue_delta := enc_queue_delta e + 1,
             enc_poll_delta := enc_poll_delta e + 1\<rparr>)
      else e)"
  by auto
termination
proof (relation "measure (\<lambda>e. nat (enc_sub e))")
  fix e :: encoder
  assume "4 \<le> enc_sub e"
  then show "(e\<lparr>enc_sub := int8_cast (enc_sub e - 4), enc_position := enc_position e + 1,
      enc_queue_delta := enc_queue_delta e + 1, enc_poll_delta := enc_poll_delta e + 1\<rparr>, e)
      \<in> measure (\<lambda>e. nat (enc_sub e))"
    using int8_cast_less [of "enc_sub e"] by simp
qed simp

function detents_down :: "encoder \<Rightarrow> encoder" where
  "detents_down e =
     (if enc_sub e \<le> - ENCODER_STEPS_PER_DETENT
      then detents_down (e\<lparr>enc_sub := int8_cast (enc_sub e + ENCODER_STEPS_PER_DETENT),
             enc_position := enc_position e - 1, enc_queue_delta := enc_queue_delta e - 1,
             enc_poll_delta := enc_poll_delta e - 1\<rparr>)
      else e)"
  by auto
termination
proof (relation "measure (\<lambda>e. nat (- enc_sub e))")
  fix e :: encoder
  assume "enc_sub e \<le> - 4"
  then show "(e\<lparr>enc_sub := int8_cast (enc_sub e + 4), enc_position := enc_position e - 1,
      enc_queue_delta := enc_queue_delta e - 1, enc_poll_delta := enc_poll_delta e - 1\<rparr>, e)
      \<in> measure (\<lambda>e. nat (- enc_sub e))"
    using int8_cast_greater [of "enc_sub e"] by simp
qed simp

declare detents_up.simps [simp del] detents_down.simps [simp del]

text \<open>\<^verbatim>\<open>encoder_isr\<close>: \<open>quad\<close> and \<open>btn\<close> say which pins had edges, \<open>s1\<close> and \<open>s2\<close> the line levels. The
  result says whether the task was notified.\<close>

definition encoder_isr :: "bool \<Rightarrow> bool \<Rightarrow> bool \<Rightarrow> bool \<Rightarrow> encoder \<Rightarrow> bool \<times> encoder" where
  "encoder_isr quad btn s1 s2 e =
     (let any = btn \<or> quad;
          e = (if quad then
                 let state = read_state s1 s2 in
                 if state \<noteq> enc_state e then
                   let dir = kQuadTable ! unat (push_bit 2 (enc_state e) OR state);
                       e = (if dir = 0 then e\<lparr>enc_errors := enc_errors e + 1\<rparr> else e);
                       e = e\<lparr>enc_state := state\<rparr>;
                       e = e\<lparr>enc_sub := int8_cast (enc_sub e + dir * kSign)\<rparr>
                   in detents_down (detents_up e)
                 else e
               else e)
      in (any, e))"

section \<open>The task and the polling interface\<close>

definition clamp_delta :: "int \<Rightarrow> int" where
  "clamp_delta delta = (if delta > 127 then 127 else if delta < -127 then -127 else delta)"

definition encoder_emit :: "u8 \<Rightarrow> bool \<Rightarrow> encoder \<Rightarrow> encoder_msg" where
  "encoder_emit delta button_edge e =
     \<lparr>em_delta = delta, em_pressed = enc_pressed e, em_button_edge = button_edge, em_position = enc_position e\<rparr>"

text \<open>One turn of the task after a notification, once the debounce delay is over: the messages it
  offers to the queue, in order. \<open>btn_level\<close> is the button pin, low when pressed.\<close>

definition encoder_task_turn :: "bool \<Rightarrow> encoder \<Rightarrow> encoder_msg list \<times> encoder" where
  "encoder_task_turn btn_level e =
     (let delta = sint (enc_queue_delta e);
          e = e\<lparr>enc_queue_delta := 0\<rparr>;
          msgs = (if delta \<noteq> 0 then [encoder_emit (of_int (clamp_delta delta)) False e] else []);
          pressed = \<not> btn_level
      in if pressed \<noteq> enc_pressed e
         then let e = e\<lparr>enc_pressed := pressed\<rparr> in (msgs @ [encoder_emit 0 True e], e)
         else (msgs, e))"

definition encoder_take_delta :: "encoder \<Rightarrow> u32 \<times> encoder" where
  "encoder_take_delta e = (enc_poll_delta e, e\<lparr>enc_poll_delta := 0\<rparr>)"

text \<open>\<^verbatim>\<open>encoder_init\<close> and the task's first lines sample the pins.\<close>

definition encoder_boot :: "bool \<Rightarrow> bool \<Rightarrow> bool \<Rightarrow> encoder" where
  "encoder_boot s1 s2 btn_level =
     \<lparr>enc_state = read_state s1 s2, enc_sub = 0, enc_position = 0, enc_queue_delta = 0, enc_poll_delta = 0,
      enc_errors = 0, enc_pressed = \<not> btn_level\<rparr>"

section \<open>Accumulation\<close>

lemma detents_up_small: "enc_sub e < 4 \<Longrightarrow> detents_up e = e"
  by (simp add: detents_up.simps)

lemma detents_down_small: "- 4 < enc_sub e \<Longrightarrow> detents_down e = e"
  by (simp add: detents_down.simps)

lemma int8_cast_small: "- 128 \<le> i \<Longrightarrow> i < 128 \<Longrightarrow> int8_cast i = i"
  unfolding int8_cast_def by (intro signed_take_bit_int_eq_self) simp_all

lemma detents_up_one:
  "enc_sub e = 4 \<Longrightarrow> detents_up e = e\<lparr>enc_sub := 0, enc_position := enc_position e + 1,
     enc_queue_delta := enc_queue_delta e + 1, enc_poll_delta := enc_poll_delta e + 1\<rparr>"
  by (subst detents_up.simps) (simp add: detents_up_small int8_cast_small)

lemma detents_down_one:
  "enc_sub e = - 4 \<Longrightarrow> detents_down e = e\<lparr>enc_sub := 0, enc_position := enc_position e - 1,
     enc_queue_delta := enc_queue_delta e - 1, enc_poll_delta := enc_poll_delta e - 1\<rparr>"
  by (subst detents_down.simps) (simp add: detents_down_small int8_cast_small)

lemma detents_both:
  assumes "- 4 \<le> enc_sub e" and "enc_sub e \<le> 4"
  shows "detents_down (detents_up e) =
    (let carry = (if enc_sub e = 4 then 1 else if enc_sub e = -4 then -1 else 0 :: int)
     in e\<lparr>enc_sub := enc_sub e - 4 * carry, enc_position := enc_position e + of_int carry,
          enc_queue_delta := enc_queue_delta e + of_int carry, enc_poll_delta := enc_poll_delta e + of_int carry\<rparr>)"
proof -
  consider "enc_sub e = 4" | "enc_sub e = -4" | "-4 < enc_sub e" "enc_sub e < 4"
    using assms by linarith
  then show ?thesis
    by cases (simp_all add: detents_up_one detents_down_one detents_up_small detents_down_small Let_def)
qed

text \<open>The step the table assigns to a transition between two line states.\<close>

definition quad_dir :: "u8 \<Rightarrow> u8 \<Rightarrow> int" where
  "quad_dir from to = kQuadTable ! unat (push_bit 2 from OR to)"

lemma read_state_range: "read_state s1 s2 \<in> {0, 1, 2, 3}"
  by (simp add: read_state_def)

lemma quad_dir_table:
  assumes "p \<in> {0, 1, 2, 3}" and "q \<in> {0, 1, 2, 3}"
  shows "quad_dir p q \<in> {-1, 0, 1}" and "quad_dir p q = - quad_dir q p" and "quad_dir p p = 0"
  using assms by (auto simp: quad_dir_def kQuadTable_def)

lemma isr_effect:
  assumes "enc_state e \<in> {0, 1, 2, 3}" and "- 4 < enc_sub e" and "enc_sub e < 4"
  shows "(let dir = (if quad then quad_dir (enc_state e) (read_state s1 s2) else 0);
      e' = snd (encoder_isr quad btn s1 s2 e);
      carry = (if enc_sub e + dir = 4 then 1 else if enc_sub e + dir = -4 then -1 else 0 :: int)
    in enc_state e' = (if quad then read_state s1 s2 else enc_state e) \<and>
       enc_sub e' = enc_sub e + dir - 4 * carry \<and>
       enc_position e' = enc_position e + of_int carry \<and>
       enc_queue_delta e' = enc_queue_delta e + of_int carry \<and>
       enc_poll_delta e' = enc_poll_delta e + of_int carry \<and> enc_pressed e' = enc_pressed e)"
proof (cases "quad \<and> read_state s1 s2 \<noteq> enc_state e")
  case False
  then show ?thesis
    using assms quad_dir_table(3) by (auto simp: encoder_isr_def Let_def)
next
  case True
  let ?d = "quad_dir (enc_state e) (read_state s1 s2)"
  have d: "?d \<in> {-1, 0, 1}"
    by (rule quad_dir_table(1) [OF assms(1) read_state_range])
  have q: "kQuadTable ! unat (push_bit 2 (enc_state e) OR read_state s1 s2) = ?d"
    by (simp add: quad_dir_def)
  have c: "int8_cast (enc_sub e + ?d) = enc_sub e + ?d"
    using d assms by (intro int8_cast_small) auto
  define e2 where "e2 = (if ?d = 0 then e\<lparr>enc_errors := enc_errors e + 1\<rparr> else e)
      \<lparr>enc_state := read_state s1 s2, enc_sub := enc_sub e + ?d\<rparr>"
  have e2: "snd (encoder_isr quad btn s1 s2 e) = detents_down (detents_up e2)"
    using True c by (auto simp: encoder_isr_def Let_def q e2_def)
  have f: "enc_sub e2 = enc_sub e + ?d" "enc_state e2 = read_state s1 s2" "enc_position e2 = enc_position e"
      "enc_queue_delta e2 = enc_queue_delta e" "enc_poll_delta e2 = enc_poll_delta e" "enc_pressed e2 = enc_pressed e"
    by (simp_all add: e2_def)
  have "- 4 \<le> enc_sub e2" "enc_sub e2 \<le> 4" using d assms f(1) by auto
  from detents_both [OF this] show ?thesis
    unfolding Let_def e2 using True by (simp add: f)
qed

section \<open>Runs\<close>

datatype enc_event = Edge bool bool bool bool | Task bool | Poll

text \<open>One event: the messages offered, the detents a poll took, and the new state.\<close>

fun enc_step :: "enc_event \<Rightarrow> encoder \<Rightarrow> (encoder_msg list \<times> u32) \<times> encoder" where
  "enc_step (Edge quad btn s1 s2) e = (([], 0), snd (encoder_isr quad btn s1 s2 e))"
| "enc_step (Task btn_level) e = (let (msgs, e) = encoder_task_turn btn_level e in ((msgs, 0), e))"
| "enc_step Poll e = (let (d, e) = encoder_take_delta e in (([], d), e))"

fun enc_run :: "enc_event list \<Rightarrow> encoder \<Rightarrow> (encoder_msg list \<times> u32) \<times> encoder" where
  "enc_run [] e = (([], 0), e)"
| "enc_run (ev # evs) e =
     (let ((msgs, d), e) = enc_step ev e; ((msgs', d'), e) = enc_run evs e in ((msgs @ msgs', d + d'), e))"

text \<open>The quadrature steps the interrupts saw, from a line state on.\<close>

fun quad_steps :: "u8 \<Rightarrow> enc_event list \<Rightarrow> int" where
  "quad_steps st [] = 0"
| "quad_steps st (Edge quad btn s1 s2 # evs) =
     (if quad then quad_dir st (read_state s1 s2) + quad_steps (read_state s1 s2) evs else quad_steps st evs)"
| "quad_steps st (_ # evs) = quad_steps st evs"

text \<open>No burst between two task turns exceeds what the message's byte can carry.\<close>

fun bursts_fit :: "enc_event list \<Rightarrow> encoder \<Rightarrow> bool" where
  "bursts_fit [] e \<longleftrightarrow> True"
| "bursts_fit (ev # evs) e \<longleftrightarrow>
     (case ev of Task _ \<Rightarrow> \<bar>sint (enc_queue_delta e)\<bar> \<le> 127 | _ \<Rightarrow> True) \<and> bursts_fit evs (snd (enc_step ev e))"

definition reported :: "encoder_msg list \<Rightarrow> u32" where
  "reported msgs = sum_list (map (\<lambda>m. scast (em_delta m)) msgs)"

lemma reported_append [simp]: "reported (xs @ ys) = reported xs + reported ys"
  by (simp add: reported_def)

lemma sint_byte: "\<bar>i\<bar> \<le> 127 \<Longrightarrow> sint (word_of_int i :: u8) = i"
  by (simp add: signed_of_int signed_take_bit_int_eq_self)

lemma scast_clamped:
  assumes "\<bar>sint (d :: u32)\<bar> \<le> 127"
  shows "(scast (of_int (clamp_delta (sint d)) :: u8) :: u32) = d"
proof -
  have c: "clamp_delta (sint d) = sint d" using assms by (auto simp: clamp_delta_def)
  have "(scast (word_of_int (sint d) :: u8) :: u32) = word_of_int (sint d)"
    unfolding scast_eq by (simp only: sint_byte [OF assms])
  also have "\<dots> = d" by (simp add: scast_eq [symmetric])
  finally show ?thesis unfolding c .
qed

lemma task_reported:
  assumes "\<bar>sint (enc_queue_delta e)\<bar> \<le> 127" and "encoder_task_turn lv e = (msgs, e')"
  shows "reported msgs = enc_queue_delta e" "enc_queue_delta e' = 0" "enc_position e' = enc_position e"
    "enc_sub e' = enc_sub e" "enc_state e' = enc_state e" "enc_poll_delta e' = enc_poll_delta e"
proof -
  show "reported msgs = enc_queue_delta e" "enc_queue_delta e' = 0" "enc_position e' = enc_position e"
    "enc_sub e' = enc_sub e" "enc_state e' = enc_state e" "enc_poll_delta e' = enc_poll_delta e"
    using assms(2) scast_clamped [OF assms(1)]
    by (auto simp: encoder_task_turn_def Let_def reported_def encoder_emit_def signed_eq_0_iff split: if_splits)
qed

lemma run_tracks:
  assumes "enc_state e \<in> {0, 1, 2, 3}" and "- 4 < enc_sub e" and "enc_sub e < 4"
    and "bursts_fit evs e" and "enc_run evs e = ((msgs, taken), e')"
  shows "- 4 < enc_sub e' \<and> enc_sub e' < 4 \<and>
    enc_position e' * 4 + of_int (enc_sub e')
      = enc_position e * 4 + of_int (enc_sub e) + of_int (quad_steps (enc_state e) evs) \<and>
    enc_position e' - enc_queue_delta e' = enc_position e - enc_queue_delta e + reported msgs \<and>
    enc_position e' - enc_poll_delta e' = enc_position e - enc_poll_delta e + taken"
  using assms
proof (induction evs arbitrary: e msgs taken)
  case Nil
  then show ?case by (simp add: reported_def)
next
  case (Cons ev evs)
  obtain m d e1 where s: "enc_step ev e = ((m, d), e1)" by (metis surj_pair)
  obtain msgs' d' where r: "enc_run evs e1 = ((msgs', d'), e')" and out: "msgs = m @ msgs'" "taken = d + d'"
    using Cons.prems(5) s by (auto split: prod.splits)
  have fit: "bursts_fit evs e1" using Cons.prems(4) s by simp
  show ?case
  proof (cases ev)
    case (Edge quad btn s1 s2)
    let ?dir = "if quad then quad_dir (enc_state e) (read_state s1 s2) else 0"
    define carry where "carry = (if enc_sub e + ?dir = 4 then 1 else if enc_sub e + ?dir = -4 then -1 else 0 :: int)"
    have dir: "?dir \<in> {-1, 0, 1}"
      using quad_dir_table(1) [OF Cons.prems(1) read_state_range] by simp
    have e1: "enc_state e1 = (if quad then read_state s1 s2 else enc_state e)"
        "enc_sub e1 = enc_sub e + ?dir - 4 * carry" "enc_position e1 = enc_position e + of_int carry"
        "enc_queue_delta e1 = enc_queue_delta e + of_int carry"
        "enc_poll_delta e1 = enc_poll_delta e + of_int carry" and io: "m = []" "d = 0"
      using isr_effect [OF Cons.prems(1-3), of quad s1 s2 btn] s Edge
      by (auto simp: Let_def carry_def)
    have st: "enc_state e1 \<in> {0, 1, 2, 3}"
      using e1(1) Cons.prems(1) read_state_range by (auto split: if_splits)
    have sub: "- 4 < enc_sub e1" "enc_sub e1 < 4"
      using dir Cons.prems(2,3) by (auto simp: e1(2) carry_def)
    have q: "quad_steps (enc_state e) (ev # evs) = ?dir + quad_steps (enc_state e1) evs"
      using Edge e1(1) by simp
    show ?thesis
      using Cons.IH [OF st sub fit r] unfolding q out io e1(2-5)
      by (simp add: reported_def algebra_simps)
  next
    case (Task lv)
    have b: "\<bar>sint (enc_queue_delta e)\<bar> \<le> 127" using Cons.prems(4) Task by simp
    have t: "encoder_task_turn lv e = (m, e1)" "d = 0" using s Task by (auto split: prod.splits)
    note tr = task_reported [OF b t(1)]
    have q: "quad_steps (enc_state e) (ev # evs) = quad_steps (enc_state e1) evs" using Task tr by simp
    have "enc_state e1 \<in> {0, 1, 2, 3}" "- 4 < enc_sub e1" "enc_sub e1 < 4" using Cons.prems(1-3) tr by simp_all
    note ih = Cons.IH [OF this fit r]
    show ?thesis
      using ih unfolding q out t(2) by (intro conjI) (simp_all add: tr)
  next
    case Poll
    then have "m = []" "d = enc_poll_delta e" "e1 = e\<lparr>enc_poll_delta := 0\<rparr>"
      using s by (auto simp: encoder_take_delta_def)
    note p = this
    have q: "quad_steps (enc_state e) (ev # evs) = quad_steps (enc_state e1) evs" using Poll p by simp
    have "enc_state e1 \<in> {0, 1, 2, 3}" "- 4 < enc_sub e1" "enc_sub e1 < 4" using Cons.prems(1-3) p by simp_all
    note ih = Cons.IH [OF this fit r]
    show ?thesis
      using ih unfolding q out p(1,2) by (intro conjI) (simp_all add: p(3))
  qed
qed

section \<open>Properties\<close>


definition one_click :: "enc_event list" where
  "one_click = [Edge True False True False, Edge True False True True, Edge True False False True,
     Edge True False False False, Task True]"


text \<open>the transition table is antisymmetric and counts only single-line changes, so a contact
  that bounces between two line states contributes nothing, whatever the number of bounces, and a
  transition that skips a state counts as an error and not as a step.\<close>

theorem encoder_bounce_cancels:
  assumes "enc_state e \<in> {0, 1, 2, 3}" and "- 4 < enc_sub e" and "enc_sub e < 4"
    and "read_state s1 s2 = enc_state e" and "- 4 < enc_sub e + quad_dir (enc_state e) (read_state t1 t2)"
    and "enc_sub e + quad_dir (enc_state e) (read_state t1 t2) < 4"
  shows "(let e1 = snd (encoder_isr True False t1 t2 e); e2 = snd (encoder_isr True False s1 s2 e1)
    in enc_position e2 = enc_position e \<and> enc_sub e2 = enc_sub e \<and> enc_state e2 = enc_state e)"
proof -
  define e1 where "e1 = snd (encoder_isr True False t1 t2 e)"
  have e1: "enc_state e1 = read_state t1 t2" "enc_sub e1 = enc_sub e + quad_dir (enc_state e) (read_state t1 t2)"
      "enc_position e1 = enc_position e"
    using isr_effect [OF assms(1-3), of True t1 t2 False] assms(5,6) by (simp_all add: Let_def e1_def)
  have rev_dir: "quad_dir (read_state t1 t2) (enc_state e) = - quad_dir (enc_state e) (read_state t1 t2)"
    by (rule quad_dir_table(2) [OF read_state_range assms(1)])
  have range: "enc_state e1 \<in> {0, 1, 2, 3}" using e1(1) read_state_range by simp
  from isr_effect [OF range, of True s1 s2 False] show ?thesis
    unfolding e1_def [symmetric] Let_def using e1 assms rev_dir by simp
qed

lemma encoder_bounce_cancels_witness:
  "enc_position (snd (encoder_isr True False False False (snd (encoder_isr True False True False
     (encoder_boot False False True))))) = 0"
  using encoder_bounce_cancels [of "encoder_boot False False True" False False True False]
  by (simp add: Let_def encoder_boot_def read_state_def quad_dir_def kQuadTable_def)

end
