(* ===== verification/Pcf8575.thy ===== *)
theory Pcf8575
  imports I2cBus
begin

text \<open>
  The port expander driver, Firmware/northbridge/src/pcf8575.cpp: two 16-bit ports sampled and
  debounced, one event per changed pin, and the LED outputs that share a port with inputs. The
  event queue drops when full; the model gives the events offered to it, in order.
\<close>

section \<open>State and port access\<close>

abbreviation (input) PCF8575_CHIP_COUNT :: nat where "PCF8575_CHIP_COUNT \<equiv> 2"
abbreviation (input) PCF8575_LED_CHIP :: nat where "PCF8575_LED_CHIP \<equiv> 1"
abbreviation (input) PCF8575_BTN_MASK :: u16 where "PCF8575_BTN_MASK \<equiv> 0x00ff"
abbreviation (input) PCF8575_TOGGLE_MASK :: u16 where "PCF8575_TOGGLE_MASK \<equiv> 0x0f00"
abbreviation (input) PCF8575_LED_MASK :: u16 where "PCF8575_LED_MASK \<equiv> 0xf000"

definition kAddr :: "u8 list" where
  "kAddr = [0x20, 0x21]"

record pcf8575_msg =
  pm_chip :: u8
  pm_pin :: u8
  pm_active :: bool
  pm_port :: u16

record pcf =
  g_stable :: "u16 list"
  g_prev :: "u16 list"
  g_shadow :: "u16 list"
  g_missed :: u32

definition pcf8575_read_port :: "'s i2c_sync \<Rightarrow> u8 \<Rightarrow> u16 \<Rightarrow> 's \<Rightarrow> (int \<times> u16) \<times> 's" where
  "pcf8575_read_port sync addr old s =
     (let ((rc, raw), s) = i2c_read sync addr 2 s in
      if rc < 0 then ((rc, old), s)
      else ((0, ucast (raw ! 0) OR push_bit 8 (ucast (raw ! 1))), s))"

definition pcf8575_write_port :: "'s i2c_sync \<Rightarrow> u8 \<Rightarrow> u16 \<Rightarrow> 's \<Rightarrow> int \<times> 's" where
  "pcf8575_write_port sync addr v s =
     i2c_write sync addr (Some [ucast (v AND 0xFF), ucast (drop_bit 8 v)]) 2 s"

definition pcf_boot :: pcf where
  "pcf_boot = \<lparr>g_stable = [0xFFFF, 0xFFFF], g_prev = [0xFFFF, 0xFFFF], g_shadow = [0xFFFF, 0xFFFF],
     g_missed = 0\<rparr>"

section \<open>Scanning\<close>

text \<open>The pin loop: one event per set bit of \<open>diff\<close>, lowest pin first.\<close>

fun emit_pins :: "u8 \<Rightarrow> u16 \<Rightarrow> u16 \<Rightarrow> nat list \<Rightarrow> pcf8575_msg list" where
  "emit_pins chip diff st [] = []"
| "emit_pins chip diff st (pin # pins) =
     (if diff AND push_bit pin 1 \<noteq> 0
      then [\<lparr>pm_chip = chip, pm_pin = of_nat pin, pm_active = (st AND push_bit pin 1 = 0), pm_port = st\<rparr>]
      else []) @ emit_pins chip diff st pins"

definition scan_chip :: "'s i2c_sync \<Rightarrow> nat \<Rightarrow> pcf \<Rightarrow> 's \<Rightarrow> (bool \<times> pcf8575_msg list) \<times> pcf \<times> 's" where
  "scan_chip sync chip p s =
     (let ((rc, raw), s) = pcf8575_read_port sync (kAddr ! chip) 0 s in
      if rc \<noteq> 0 then ((False, []), p, s)
      else
        let agreed = NOT (raw XOR g_prev p ! chip);
            p = p\<lparr>g_prev := (g_prev p)[chip := raw]\<rparr>;
            diff = (g_stable p ! chip XOR raw) AND agreed
        in if diff = 0 then ((False, []), p, s)
           else
             let st = (g_stable p ! chip AND NOT agreed) OR (raw AND agreed);
                 p = p\<lparr>g_stable := (g_stable p)[chip := st]\<rparr>
             in ((True, emit_pins (of_nat chip) diff st [0..<16]), p, s))"

fun scan_chips :: "'s i2c_sync \<Rightarrow> nat list \<Rightarrow> pcf \<Rightarrow> 's \<Rightarrow> (bool \<times> pcf8575_msg list) \<times> pcf \<times> 's" where
  "scan_chips sync [] p s = ((False, []), p, s)"
| "scan_chips sync (chip # chips) p s =
     (let ((ch, ms), p, s) = scan_chip sync chip p s;
          ((ch', ms'), p, s) = scan_chips sync chips p s
      in ((ch \<or> ch', ms @ ms'), p, s))"

definition scan_and_emit :: "'s i2c_sync \<Rightarrow> pcf \<Rightarrow> 's \<Rightarrow> (bool \<times> pcf8575_msg list) \<times> pcf \<times> 's" where
  "scan_and_emit sync p s = scan_chips sync [0..<PCF8575_CHIP_COUNT] p s"

text \<open>The task: the first reads latch the startup state; then one scan per wake-up or timeout.\<close>

definition pcf_latch :: "'s i2c_sync \<Rightarrow> nat \<Rightarrow> pcf \<Rightarrow> 's \<Rightarrow> pcf \<times> 's" where
  "pcf_latch sync chip p s =
     (let ((_, v), s) = pcf8575_read_port sync (kAddr ! chip) 0xFFFF s
      in (p\<lparr>g_stable := (g_stable p)[chip := v], g_prev := (g_prev p)[chip := v]\<rparr>, s))"

definition pcf_task_start :: "'s i2c_sync \<Rightarrow> pcf \<Rightarrow> 's \<Rightarrow> pcf \<times> 's" where
  "pcf_task_start sync p s = (let (p, s) = pcf_latch sync 0 p s in pcf_latch sync 1 p s)"

definition pcf_task_turn :: "'s i2c_sync \<Rightarrow> bool \<Rightarrow> pcf \<Rightarrow> 's \<Rightarrow> pcf8575_msg list \<times> pcf \<times> 's" where
  "pcf_task_turn sync woken p s =
     (let ((changed, ms), p, s) = scan_and_emit sync p s
      in (ms, if changed \<and> \<not> woken then p\<lparr>g_missed := g_missed p + 1\<rparr> else p, s))"

section \<open>Readers and LEDs\<close>

definition pcf8575_inputs :: "pcf \<Rightarrow> u8 \<Rightarrow> u16" where
  "pcf8575_inputs p chip = (if chip < 2 then g_stable p ! unat chip else 0xFFFF)"

definition pcf8575_buttons :: "pcf \<Rightarrow> u32" where
  "pcf8575_buttons p =
     (let low = ucast (NOT (g_stable p ! 0));
          high = ucast (NOT (g_stable p ! PCF8575_LED_CHIP) AND PCF8575_BTN_MASK)
      in low OR push_bit 16 high)"

definition pcf8575_toggles :: "pcf \<Rightarrow> u16" where
  "pcf8575_toggles p = drop_bit 8 (NOT (g_stable p ! PCF8575_LED_CHIP) AND PCF8575_TOGGLE_MASK)"

text \<open>\<^verbatim>\<open>PCF8575_LED_ACTIVE_LOW\<close> is 1 on this board.\<close>

definition led_word :: "u16 \<Rightarrow> u16" where
  "led_word state =
     (let lit = state AND PCF8575_LED_MASK;
          drive = NOT lit AND PCF8575_LED_MASK
      in (0xFFFF AND NOT PCF8575_LED_MASK) OR drive)"

definition pcf8575_set_leds :: "'s i2c_sync \<Rightarrow> u16 \<Rightarrow> pcf \<Rightarrow> 's \<Rightarrow> int \<times> pcf \<times> 's" where
  "pcf8575_set_leds sync state p s =
     (let (rc, s) = pcf8575_write_port sync (kAddr ! PCF8575_LED_CHIP) (led_word state) s in
      if rc < 0 then (rc, p, s)
      else (0, p\<lparr>g_shadow := (g_shadow p)[PCF8575_LED_CHIP := led_word state]\<rparr>, s))"

text \<open>\<open>index\<close> is at most 19 here: a larger one shifts an \<^verbatim>\<open>unsigned\<close> past its width.\<close>

definition pcf8575_led :: "'s i2c_sync \<Rightarrow> nat \<Rightarrow> bool \<Rightarrow> pcf \<Rightarrow> 's \<Rightarrow> int \<times> pcf \<times> 's" where
  "pcf8575_led sync index on p s =
     (let led = push_bit (12 + index) 1 :: u16 in
      if led AND PCF8575_LED_MASK = 0 then (I2C_ERR_ARG, p, s)
      else
        let drive = g_shadow p ! PCF8575_LED_CHIP AND PCF8575_LED_MASK;
            state = NOT drive AND PCF8575_LED_MASK;
            state = (if on then state OR led else state AND NOT led)
        in pcf8575_set_leds sync state p s)"

section \<open>Debouncing\<close>

lemma and_push_1: "(w :: 'a::len word) AND push_bit n 1 \<noteq> 0 \<longleftrightarrow> bit w n"
  by (simp add: push_bit_of_1 and_exp_eq_0_iff_not_bit)

lemma emit_pins_eq:
  "emit_pins chip diff st pins =
     map (\<lambda>pin. \<lparr>pm_chip = chip, pm_pin = of_nat pin, pm_active = (\<not> bit st pin), pm_port = st\<rparr>)
       (filter (bit diff) pins)"
  using and_push_1 [of diff] and_push_1 [of st] by (induction pins) auto

text \<open>The accepted port after a sample: a pin follows the sample when the previous sample agrees.\<close>

definition debounced :: "u16 \<Rightarrow> u16 \<Rightarrow> u16 \<Rightarrow> u16" where
  "debounced st prev raw = (st AND (raw XOR prev)) OR (raw AND NOT (raw XOR prev))"

lemma bit_debounced:
  "n < 16 \<Longrightarrow> bit (debounced st prev raw) n \<longleftrightarrow> (if bit raw n = bit prev n then bit raw n else bit st n)"
  by (auto simp: debounced_def bit_simps)

lemma scan_chip_eq:
  assumes "pcf8575_read_port sync (kAddr ! chip) 0 s = ((0, raw), s')"
    and "chip < length (g_stable p)"
  shows "scan_chip sync chip p s =
    (let st = g_stable p ! chip; st' = debounced st (g_prev p ! chip) raw;
         changed = filter (\<lambda>n. bit st' n \<noteq> bit st n) [0..<16]
     in ((changed \<noteq> [], map (\<lambda>pin. \<lparr>pm_chip = of_nat chip, pm_pin = of_nat pin,
            pm_active = (\<not> bit st' pin), pm_port = st'\<rparr>) changed),
         p\<lparr>g_prev := (g_prev p)[chip := raw], g_stable := (g_stable p)[chip := st']\<rparr>, s'))"
proof -
  define st where "st = g_stable p ! chip"
  define st' where "st' = debounced st (g_prev p ! chip) raw"
  define diff where "diff = (st XOR raw) AND NOT (raw XOR g_prev p ! chip)"
  have st': "(st AND (raw XOR g_prev p ! chip)) OR (raw AND NOT (raw XOR g_prev p ! chip)) = st'"
    by (simp add: st'_def debounced_def)
  have bits: "bit diff n \<longleftrightarrow> bit st' n \<noteq> bit st n" if "n < 16" for n
    using that by (auto simp: diff_def st'_def bit_debounced bit_simps)
  have f: "filter (bit diff) [0..<16] = filter (\<lambda>n. bit st' n \<noteq> bit st n) [0..<16]"
    by (rule filter_cong) (simp_all add: bits)
  have e: "diff = 0 \<longleftrightarrow> filter (\<lambda>n. bit st' n \<noteq> bit st n) [0..<16] = []"
    unfolding f [symmetric] filter_empty_conv
    by (auto intro!: bit_word_eqI)
  have same: "st' = st" if "diff = 0"
    using that e by (intro bit_word_eqI) (auto simp: filter_empty_conv)
  show ?thesis
  proof (cases "diff = 0")
    case True
    then have "scan_chip sync chip p s = ((False, []), p\<lparr>g_prev := (g_prev p)[chip := raw]\<rparr>, s')"
      using assms(1) by (simp add: scan_chip_def Let_def diff_def st_def)
    moreover have "p\<lparr>g_prev := (g_prev p)[chip := raw], g_stable := (g_stable p)[chip := st]\<rparr>
        = p\<lparr>g_prev := (g_prev p)[chip := raw]\<rparr>"
      by (simp add: st_def list_update_id)
    ultimately show ?thesis
      using True e same [OF True] unfolding Let_def st_def [symmetric] st'_def [symmetric] by simp
  next
    case False
    then show ?thesis
      using assms(1) e f unfolding scan_chip_def
      by (simp add: Let_def diff_def [symmetric] st_def [symmetric] st' st'_def [symmetric] emit_pins_eq)
  qed
qed

lemma bit_led_word: "n < 16 \<Longrightarrow> bit (led_word state) n \<longleftrightarrow> n < 12 \<or> \<not> bit state n"
proof -
  have m: "(0xf000 :: u16) = push_bit 12 (mask 4)" by (simp add: mask_eq_exp_minus_1)
  have f: "(0xFFFF :: u16) = mask 16" by (simp add: mask_eq_exp_minus_1)
  show "n < 16 \<Longrightarrow> ?thesis"
    unfolding led_word_def Let_def m f by (auto simp: bit_simps)
qed

lemma bit_led: "n < 16 \<Longrightarrow> k < 16 \<Longrightarrow> bit (push_bit k 1 :: u16) n \<longleftrightarrow> n = k"
  by (auto simp: bit_simps)

section \<open>Properties\<close>

text \<open>when a port reads successfully, each pin of the debounced port follows the sample exactly if
  two consecutive samples agree and keeps its value otherwise; the events offered are one per
  changed pin, in ascending order, with the new level and the full new port; the other chip and the
  LED shadow are untouched.\<close>

theorem pcf8575_scan_debounces:
  assumes "pcf8575_read_port sync (kAddr ! chip) 0 s = ((0, raw), s')" and "chip < length (g_stable p)"
    and "chip < length (g_prev p)" and "scan_chip sync chip p s = ((changed, ms), p', s'')"
  shows "(\<forall>n. bit (g_stable p' ! chip) n \<longleftrightarrow> n < 16 \<and>
      (if bit raw n = bit (g_prev p ! chip) n then bit raw n else bit (g_stable p ! chip) n)) \<and>
    g_prev p' = (g_prev p)[chip := raw] \<and>
    (let st' = g_stable p' ! chip in
      ms = map (\<lambda>pin. \<lparr>pm_chip = of_nat chip, pm_pin = of_nat pin, pm_active = (\<not> bit st' pin), pm_port = st'\<rparr>)
        (filter (\<lambda>n. bit st' n \<noteq> bit (g_stable p ! chip) n) [0..<16])) \<and>
    (changed \<longleftrightarrow> ms \<noteq> []) \<and> (\<forall>c. c \<noteq> chip \<longrightarrow> g_stable p' ! c = g_stable p ! c) \<and> g_shadow p' = g_shadow p"
proof -
  have len: "bit (w :: u16) n \<Longrightarrow> n < 16" for w n by (auto dest: bit_imp_le_length)
  have b: "bit (debounced st prev raw) n \<longleftrightarrow> n < 16 \<and> (if bit raw n = bit prev n then bit raw n else bit st n)"
    for st prev n
    using bit_debounced [of n st prev raw] len [of "debounced st prev raw" n] by auto
  show ?thesis
    using assms(4) scan_chip_eq [OF assms(1,2)] assms(2,3) by (auto simp: Let_def b)
qed

definition quiet_port :: "unit i2c_sync" where
  "quiet_port cmd n s = ((2, [0xFE, 0xFF]), s)"

lemma pcf8575_scan_debounces_witness:
  "snd (fst (scan_chip quiet_port 0 (pcf_boot\<lparr>g_prev := [0xFFFE, 0xFFFF]\<rparr>) ())) =
    [\<lparr>pm_chip = 0, pm_pin = 0, pm_active = True, pm_port = 0xFFFE\<rparr>]"
proof -
  let ?p = "pcf_boot\<lparr>g_prev := [0xFFFE, 0xFFFF]\<rparr>"
  have rd: "pcf8575_read_port quiet_port (kAddr ! 0) 0 () = ((0, 0xFFFE), ())"
    by (simp add: pcf8575_read_port_def i2c_read_def quiet_port_def)
  obtain ch ms p' s where sc: "scan_chip quiet_port 0 ?p () = ((ch, ms), p', s)" by (metis surj_pair)
  have bits: "bit (0xFFFF :: u16) n \<longleftrightarrow> n < 16" "bit (0xFFFE :: u16) n \<longleftrightarrow> n < 16 \<and> n \<noteq> 0" for n
  proof -
    have f: "(0xFFFF :: u16) = mask 16" "(0xFFFE :: u16) = mask 16 AND NOT 1"
      by (simp_all add: mask_eq_exp_minus_1)
    show "bit (0xFFFF :: u16) n \<longleftrightarrow> n < 16" "bit (0xFFFE :: u16) n \<longleftrightarrow> n < 16 \<and> n \<noteq> 0"
      unfolding f by (auto simp: bit_simps)
  qed
  note r = pcf8575_scan_debounces [OF rd _ _ sc]
  have st: "g_stable p' ! 0 = 0xFFFE"
    using r by (intro bit_word_eqI) (simp add: pcf_boot_def bits)
  have "filter (\<lambda>n. bit (0xFFFE :: u16) n \<noteq> bit (0xFFFF :: u16) n) [0..<16] = [0]"
    by (simp add: upt_rec)
  then have "ms = [\<lparr>pm_chip = 0, pm_pin = 0, pm_active = True, pm_port = 0xFFFE\<rparr>]"
    using r unfolding st Let_def by (simp add: pcf_boot_def)
  then show ?thesis unfolding sc by simp
qed

text \<open>switching one LED writes every input pin high, drives the chosen LED low exactly when it is
  to be lit, and leaves the other LEDs as they were last driven.\<close>

theorem pcf8575_led_isolated:
  assumes "index < 4" and "length (g_shadow p) = 2"
    and "pcf8575_led sync index on p s = (rc, p', s')" and "rc \<ge> 0" and "n < 16"
  shows "(bit (g_shadow p' ! 1) n \<longleftrightarrow>
      (if n < 12 then True else if n = 12 + index then \<not> on else bit (g_shadow p ! 1) n)) \<and>
    g_shadow p' ! 0 = g_shadow p ! 0"
proof -
  define M where "M = (0xf000 :: u16)"
  define L where "L = (push_bit (12 + index) 1 :: u16)"
  have m: "M = push_bit 12 (mask 4)" by (simp add: M_def mask_eq_exp_minus_1)
  have bm: "bit M k \<longleftrightarrow> 12 \<le> k \<and> k < 16" for k unfolding m by (auto simp: bit_simps)
  have bl: "bit L k \<longleftrightarrow> k = 12 + index" if "k < 16" for k
    unfolding L_def using bit_led [OF that, of "12 + index"] assms(1) by simp
  have "bit (L AND M) (12 + index)" using assms(1) by (simp add: bit_and_iff bm bl)
  then have nz: "L AND M \<noteq> 0" by (metis bit_0_eq bot_apply bot_bool_def)
  define state where "state = (let st = NOT (g_shadow p ! 1 AND M) AND M in
      if on then st OR L else st AND NOT L)"
  have bs: "bit state k \<longleftrightarrow> (if k = 12 + index then on else \<not> bit (g_shadow p ! 1) k)" if "12 \<le> k" "k < 16" for k
    using that by (auto simp: state_def Let_def bit_and_iff bit_or_iff bit_not_iff bm bl)
  have "g_shadow p' = (g_shadow p)[1 := led_word state]"
    using assms(3,4) nz unfolding pcf8575_led_def pcf8575_set_leds_def Let_def state_def M_def [symmetric] L_def [symmetric]
    by (auto split: prod.splits if_splits)
  then show ?thesis
    using assms(1,2,5) bit_led_word [OF assms(5), of state] bs [of n] by auto
qed

lemma pcf8575_led_isolated_witness:
  "\<not> bit (g_shadow (fst (snd (pcf8575_led quiet_port 2 True pcf_boot ()))) ! 1) 14"
proof -
  obtain rc p' s where r: "pcf8575_led quiet_port 2 True pcf_boot () = (rc, p', s)" by (metis surj_pair)
  then have "rc = 0"
    by (auto simp: pcf8575_led_def pcf8575_set_leds_def pcf8575_write_port_def i2c_write_def quiet_port_def
        Let_def split: if_splits)
  then show ?thesis
    using pcf8575_led_isolated [of 2 pcf_boot quiet_port True "()" rc p' s 14] r
    by (simp add: pcf_boot_def)
qed

end
