(* ===== verification/DspiCmd.thy ===== *)
theory DspiCmd
  imports DspiSlave Ds3231 Encoder Pcf8575
begin

text \<open>
  Command dispatch on the firmware side: the binding table and dispatcher of dspi_cmd.cpp and the
  command handlers of Firmware/northbridge/src/main.cpp, which answer the host from the clock, the
  panel and the encoder. A handler is a function of the request and the reply so far that may change
  the world; the table holds handlers by frame type.
\<close>

section \<open>Replies and bindings\<close>

text \<open>A reply is the bytes written so far; its capacity is one payload.\<close>

definition reply_write :: "bytes option \<Rightarrow> nat \<Rightarrow> bytes \<Rightarrow> bool \<times> bytes" where
  "reply_write src n reply =
     (case src of None \<Rightarrow> (False, reply)
      | Some p \<Rightarrow> if length reply + n > DSPI_PAYLOAD_MAX then (False, reply)
                 else (True, reply @ take n p))"

type_synonym 'w handler = "dspi_msg \<Rightarrow> bytes \<Rightarrow> 'w \<Rightarrow> bytes \<times> 'w"

record 'w binding =
  b_fn :: "'w handler option"
  b_type :: u8
  b_used :: bool

record 'w cmds =
  g_table :: "'w binding list"
  g_unknown :: "'w handler option"
  g_handled :: u32
  g_unhandled :: u32

abbreviation (input) DSPI_MAX_HANDLERS :: nat where "DSPI_MAX_HANDLERS \<equiv> 16"

definition cmds_boot :: "'w cmds" where
  "cmds_boot = \<lparr>g_table = replicate 16 \<lparr>b_fn = None, b_type = 0, b_used = False\<rparr>, g_unknown = None,
     g_handled = 0, g_unhandled = 0\<rparr>"

text \<open>The first index that satisfies a test, as the two loops over the table search it.\<close>

fun first_index :: "('a \<Rightarrow> bool) \<Rightarrow> 'a list \<Rightarrow> nat option" where
  "first_index P [] = None"
| "first_index P (x # xs) = (if P x then Some 0 else map_option Suc (first_index P xs))"

definition cmd_find :: "u8 \<Rightarrow> 'w cmds \<Rightarrow> nat option" where
  "cmd_find ty c = first_index (\<lambda>b. b_used b \<and> b_type b = ty) (g_table c)"

definition dspi_on :: "u8 \<Rightarrow> 'w handler option \<Rightarrow> 'w cmds \<Rightarrow> bool \<times> 'w cmds" where
  "dspi_on ty fn c =
     (if ty = DSPI_TYPE_IDLE \<or> fn = None then (False, c)
      else
        let slot = (case cmd_find ty c of Some i \<Rightarrow> Some i
                    | None \<Rightarrow> first_index (\<lambda>b. \<not> b_used b) (g_table c))
        in case slot of None \<Rightarrow> (False, c)
           | Some i \<Rightarrow> (True, c\<lparr>g_table := (g_table c)[i := \<lparr>b_fn = fn, b_type = ty, b_used = True\<rparr>]\<rparr>))"

definition dspi_on_unknown :: "'w handler option \<Rightarrow> 'w cmds \<Rightarrow> 'w cmds" where
  "dspi_on_unknown fn c = c\<lparr>g_unknown := fn\<rparr>"

section \<open>The dispatcher\<close>

text \<open>What one received request does: the handler to call, if any (lines 40--54), then the call and the
  reply (lines 56--61).\<close>

definition pick_handler :: "dspi_msg \<Rightarrow> 'w cmds \<Rightarrow> 'w handler option" where
  "pick_handler req c =
     (case cmd_find (msg_type req) c of Some i \<Rightarrow> b_fn (g_table c ! i) | None \<Rightarrow> g_unknown c)"

definition dispatch :: "'q rtos_queue \<Rightarrow> dspi_msg \<Rightarrow> 'w cmds \<Rightarrow> 'q dspi \<Rightarrow> 'w \<Rightarrow> 'w cmds \<times> 'q dspi \<times> 'w" where
  "dispatch Q req c link w =
     (if msg_flags req AND DSPI_FLAG_REPLY \<noteq> 0 then (c, link, w)
      else case pick_handler req c of
        None \<Rightarrow> (c\<lparr>g_unhandled := g_unhandled c + 1\<rparr>, link, w)
      | Some fn \<Rightarrow>
          let (reply, w) = fn req [] w;
              c = c\<lparr>g_handled := g_handled c + 1\<rparr>;
              link = (if length reply > 0
                then snd (dspi_send Q (msg_type req) (Some reply) (length reply) 0 DSPI_FLAG_REPLY link)
                else link)
          in (c, link, w))"

definition dispatcher_turn :: "'q rtos_queue \<Rightarrow> nat \<Rightarrow> 'w cmds \<Rightarrow> 'q dspi \<Rightarrow> 'w \<Rightarrow> 'w cmds \<times> 'q dspi \<times> 'w" where
  "dispatcher_turn Q wait c link w =
     (case dspi_receive Q wait link of
        (None, link) \<Rightarrow> (c, link, w)
      | (Some req, link) \<Rightarrow> dispatch Q req c link w)"

section \<open>The firmware's handlers\<close>

record 's fw =
  fw_rtc_ok :: bool
  fw_panel_ok :: bool
  fw_encoder_ok :: bool
  fw_led_state :: u16
  fw_pcf :: pcf
  fw_encoder :: encoder
  fw_selftest_done :: bool
  fw_selftest_passed :: bool
  fw_bus :: 's

definition on_set_leds :: "'s i2c_sync \<Rightarrow> 's fw handler" where
  "on_set_leds sync req reply w =
     (if msg_len req \<ge> 1 then
        let w = w\<lparr>fw_led_state := ucast (msg_payload req ! 0 AND 0x0f)\<rparr> in
        if fw_selftest_done w then
          let (_, p, s) = pcf8575_set_leds sync (push_bit 12 (fw_led_state w)) (fw_pcf w) (fw_bus w)
          in (reply, w\<lparr>fw_pcf := p, fw_bus := s\<rparr>)
        else (reply, w)
      else (reply, w))"

definition on_get_panel :: "'s fw handler" where
  "on_get_panel req reply w =
     (let panel = \<lparr>pw_buttons = pcf8575_buttons (fw_pcf w), pw_toggles = ucast (pcf8575_toggles (fw_pcf w)),
            pw_leds = ucast (fw_led_state w)\<rparr>
      in (snd (reply_write (Some (enc_panel_wire panel)) 6 reply), w))"

definition on_get_encoder :: "'s fw handler" where
  "on_get_encoder req reply w =
     (let wire = \<lparr>ew_position = enc_position (fw_encoder w), ew_delta = 0,
            ew_pressed = (if enc_pressed (fw_encoder w) then 1 else 0), ew_flags = 0\<rparr>
      in (snd (reply_write (Some (enc_encoder_wire wire)) 7 reply), w))"

definition on_get_time :: "'s i2c_sync \<Rightarrow> 's fw handler" where
  "on_get_time sync req reply w =
     (let ((rc, now), s) = ds3231_get_time sync zero_time (fw_bus w) in
      if rc \<noteq> 0 then (reply, w\<lparr>fw_bus := s\<rparr>)
      else
        let ((trc, centi), s) = ds3231_temperature_centi sync 0 s;
            wire = \<lparr>tw_year = t_year now, tw_month = t_month now, tw_day = t_day now, tw_hour = t_hour now,
              tw_minute = t_minute now, tw_second = t_second now, tw_weekday = t_weekday now,
              tw_temp_centi = (if trc = 0 then centi else 0)\<rparr>
        in (snd (reply_write (Some (enc_time_wire wire)) 10 reply), w\<lparr>fw_bus := s\<rparr>))"

abbreviation (input) NB_OK :: u8 where "NB_OK \<equiv> 0"
abbreviation (input) NB_ERR_UNSUPPORTED :: u8 where "NB_ERR_UNSUPPORTED \<equiv> 1"
abbreviation (input) NB_ERR_ARG :: u8 where "NB_ERR_ARG \<equiv> 2"
abbreviation (input) NB_ERR_HARDWARE :: u8 where "NB_ERR_HARDWARE \<equiv> 3"

definition on_set_time :: "'s i2c_sync \<Rightarrow> 's fw handler" where
  "on_set_time sync req reply w =
     (if unat (msg_len req) < 10 then (snd (reply_write (Some [NB_ERR_ARG]) 1 reply), w)
      else
        let wire = dec_time_wire (msg_payload req);
            t = \<lparr>t_year = tw_year wire, t_month = tw_month wire, t_day = tw_day wire, t_hour = tw_hour wire,
              t_minute = tw_minute wire, t_second = tw_second wire, t_weekday = 0\<rparr>;
            (rc, s) = ds3231_set_time sync t (fw_bus w);
            code = (if rc = DS3231_ERR_ARG then NB_ERR_ARG
              else if rc < 0 then (if fw_rtc_ok w then NB_ERR_HARDWARE else NB_ERR_UNSUPPORTED)
              else NB_OK)
        in (snd (reply_write (Some [code]) 1 reply), w\<lparr>fw_bus := s\<rparr>))"

text \<open>The build stamp, the uptime in seconds and the flash id come from outside; the version numbers
  are nb_protocol.h's.\<close>

definition on_get_info :: "build_stamp \<Rightarrow> u32 \<Rightarrow> u64 \<Rightarrow> 's fw handler" where
  "on_get_info stamp uptime board_id req reply w =
     (let info = \<lparr>iw_proto_version = 2, iw_fw_major = 0, iw_fw_minor = 3, iw_fw_patch = 0,
            iw_build_year = bs_year stamp, iw_build_month = bs_month stamp, iw_build_day = bs_day stamp,
            iw_build_hour = bs_hour stamp, iw_build_minute = bs_minute stamp,
            iw_build_second = bs_second stamp, iw_uptime_s = uptime, iw_board_id = board_id,
            iw_features = (if fw_rtc_ok w then 1 else 0) OR (if fw_panel_ok w then 2 else 0) OR
              (if fw_encoder_ok w then 4 else 0) OR (if fw_selftest_passed w then 8 else 0)\<rparr>
      in (snd (reply_write (Some (enc_info_wire info)) 24 reply), w))"

definition on_ping :: "'s fw handler" where
  "on_ping req reply w = (snd (reply_write (Some (msg_payload req)) (unat (msg_len req)) reply), w)"

definition on_unknown :: "'s fw handler" where
  "on_unknown req reply w = (reply, w)"

text \<open>The bindings \<^verbatim>\<open>main\<close> makes, in its order.\<close>

definition fw_cmds :: "'s i2c_sync \<Rightarrow> build_stamp \<Rightarrow> u32 \<Rightarrow> u64 \<Rightarrow> 's fw cmds" where
  "fw_cmds sync stamp uptime board_id =
     (let c = cmds_boot;
          c = snd (dspi_on NB_CMD_PING (Some on_ping) c);
          c = snd (dspi_on NB_CMD_SET_LEDS (Some (on_set_leds sync)) c);
          c = snd (dspi_on NB_CMD_GET_PANEL (Some on_get_panel) c);
          c = snd (dspi_on NB_CMD_GET_TIME (Some (on_get_time sync)) c);
          c = snd (dspi_on NB_CMD_SET_TIME (Some (on_set_time sync)) c);
          c = snd (dspi_on NB_CMD_GET_INFO (Some (on_get_info stamp uptime board_id)) c);
          c = snd (dspi_on NB_CMD_GET_ENC (Some on_get_encoder) c)
      in dspi_on_unknown (Some on_unknown) c)"

text \<open>\<^verbatim>\<open>panel_task\<close>'s turn for one event and \<^verbatim>\<open>encoder_task\<close>'s: what they send.\<close>

definition panel_event_turn :: "'q rtos_queue \<Rightarrow> pcf8575_msg \<Rightarrow> 's fw \<Rightarrow> 'q dspi \<Rightarrow> 'q dspi" where
  "panel_event_turn Q msg w link =
     (let b = push_bit (unat (pm_pin msg)) 1 :: u16 in
      if pm_chip msg = 1 \<and> b AND PCF8575_BTN_MASK = 0 \<and> b AND PCF8575_TOGGLE_MASK = 0 \<and>
         b AND PCF8575_LED_MASK \<noteq> 0 then link
      else snd (dspi_send Q NB_CMD_PANEL_EVT
             (Some (panel_packet (pm_chip msg) (pm_pin msg) (pm_active msg) (pcf8575_buttons (fw_pcf w))
                (pcf8575_toggles (fw_pcf w)))) 8 0 0 link))"

definition encoder_event_turn :: "'q rtos_queue \<Rightarrow> encoder_msg \<Rightarrow> 'q dspi \<Rightarrow> 'q dspi" where
  "encoder_event_turn Q msg link =
     snd (dspi_send Q NB_CMD_ENC_EVT
       (Some (encoder_packet (em_position msg) (em_delta msg) (em_pressed msg) (em_button_edge msg))) 7 0 0 link)"

section \<open>Bindings are a map\<close>

definition bound :: "u8 \<Rightarrow> 'w cmds \<Rightarrow> 'w handler option" where
  "bound ty c = Option.bind (cmd_find ty c) (\<lambda>i. b_fn (g_table c ! i))"

lemma first_index_Some:
  "first_index P xs = Some i \<Longrightarrow> i < length xs \<and> P (xs ! i) \<and> (\<forall>j < i. \<not> P (xs ! j))"
proof (induction xs arbitrary: i)
  case (Cons x xs)
  then show ?case by (cases i) (auto split: if_splits simp: less_Suc_eq_0_disj)
qed simp

lemma first_index_None: "first_index P xs = None \<longleftrightarrow> (\<forall>x \<in> set xs. \<not> P x)"
  by (induction xs) auto

lemma first_indexI:
  "i < length xs \<Longrightarrow> P (xs ! i) \<Longrightarrow> (\<And>j. j < i \<Longrightarrow> \<not> P (xs ! j)) \<Longrightarrow> first_index P xs = Some i"
proof (induction xs arbitrary: i)
  case (Cons x xs)
  show ?case
  proof (cases i)
    case (Suc k)
    have "\<not> P x" using Cons.prems(3) [of 0] Suc by simp
    moreover have "first_index P xs = Some k"
      using Cons.IH [of k] Cons.prems Suc by force
    ultimately show ?thesis using Suc by simp
  qed (use Cons.prems in simp)
qed simp

lemma first_index_update_other:
  "i < length xs \<Longrightarrow> \<not> P (xs ! i) \<Longrightarrow> \<not> P x \<Longrightarrow> first_index P (xs[i := x]) = first_index P xs"
proof (induction xs arbitrary: i)
  case (Cons y ys)
  then show ?case by (cases i) auto
qed simp

lemma dspi_on_slot:
  assumes "dspi_on ty (Some f) c = (True, c')"
  obtains i where "i < length (g_table c)" "c' = c\<lparr>g_table := (g_table c)[i := \<lparr>b_fn = Some f, b_type = ty, b_used = True\<rparr>]\<rparr>"
    "cmd_find ty c = Some i \<or> (cmd_find ty c = None \<and> \<not> b_used (g_table c ! i))"
  using assms by (auto simp: dspi_on_def cmd_find_def Let_def dest: first_index_Some split: if_splits option.splits)

lemma bound_dspi_on:
  assumes "dspi_on ty (Some f) c = (True, c')"
  shows "bound ty' c' = (if ty' = ty then Some f else bound ty' c)"
proof -
  obtain i where i: "i < length (g_table c)"
      "c' = c\<lparr>g_table := (g_table c)[i := \<lparr>b_fn = Some f, b_type = ty, b_used = True\<rparr>]\<rparr>"
      "cmd_find ty c = Some i \<or> (cmd_find ty c = None \<and> \<not> b_used (g_table c ! i))"
    using dspi_on_slot [OF assms] .
  show ?thesis
  proof (cases "ty' = ty")
    case True
    have "cmd_find ty c' = Some i"
      unfolding cmd_find_def
    proof (rule first_indexI)
      show "\<not> (b_used (g_table c' ! j) \<and> b_type (g_table c' ! j) = ty)" if "j < i" for j
        using i that by (auto simp: cmd_find_def first_index_None dest: first_index_Some)
    qed (use i in simp_all)
    then show ?thesis using True i by (simp add: bound_def)
  next
    case False
    have "\<not> (b_used (g_table c ! i) \<and> b_type (g_table c ! i) = ty')"
      using i(3) False by (auto simp: cmd_find_def dest: first_index_Some)
    then have "cmd_find ty' c' = cmd_find ty' c"
      unfolding cmd_find_def i(2) using i(1) False by (simp add: first_index_update_other)
    moreover have "j \<noteq> i" if "cmd_find ty' c = Some j" for j
      using that \<open>\<not> (b_used (g_table c ! i) \<and> _)\<close> by (auto simp: cmd_find_def dest: first_index_Some)
    ultimately show ?thesis
      using False i(2) by (cases "cmd_find ty' c") (auto simp: bound_def)
  qed
qed

lemma dspi_on_False: "dspi_on ty fn c = (False, c') \<Longrightarrow> c' = c"
  by (auto simp: dspi_on_def Let_def split: if_splits option.splits)

lemma pick_handler_bound:
  "pick_handler req c = (case bound (msg_type req) c of Some f \<Rightarrow> Some f | None \<Rightarrow>
     if cmd_find (msg_type req) c = None then g_unknown c else None)"
  by (auto simp: pick_handler_def bound_def split: option.splits)

text \<open>The same table, built by a list of bindings.\<close>

fun bind_all :: "(u8 \<times> 'w handler) list \<Rightarrow> 'w cmds \<Rightarrow> 'w cmds" where
  "bind_all [] c = c"
| "bind_all ((ty, f) # bs) c = bind_all bs (snd (dspi_on ty (Some f) c))"

definition used_slots :: "'w cmds \<Rightarrow> nat" where
  "used_slots c = length (filter b_used (g_table c))"

lemma filter_update_le:
  "i < length xs \<Longrightarrow> length (filter P (xs[i := x])) \<le> length (filter P xs) + 1"
proof (induction xs arbitrary: i)
  case (Cons y ys)
  then show ?case by (cases i) fastforce+
qed simp

lemma dspi_on_succeeds:
  assumes "ty \<noteq> 0" and "used_slots c < length (g_table c)"
  obtains c' where "dspi_on ty (Some f) c = (True, c')" "used_slots c' \<le> used_slots c + 1"
    "length (g_table c') = length (g_table c)" "g_unknown c' = g_unknown c"
proof -
  have "first_index (\<lambda>b. \<not> b_used b) (g_table c) \<noteq> None"
  proof
    assume "first_index (\<lambda>b. \<not> b_used b) (g_table c) = None"
    then have "filter b_used (g_table c) = g_table c" by (simp add: first_index_None)
    then show False using assms(2) by (simp add: used_slots_def)
  qed
  then have ok: "fst (dspi_on ty (Some f) c)"
    using assms(1) by (auto simp: dspi_on_def Let_def split: option.splits)
  obtain r c' where on: "dspi_on ty (Some f) c = (r, c')" by force
  then have on: "dspi_on ty (Some f) c = (True, c')" using ok by simp
  obtain i where i: "i < length (g_table c)"
      "c' = c\<lparr>g_table := (g_table c)[i := \<lparr>b_fn = Some f, b_type = ty, b_used = True\<rparr>]\<rparr>"
    using dspi_on_slot [OF on] by blast
  show ?thesis
    using that [OF on] i filter_update_le [OF i(1), of b_used] by (simp add: used_slots_def)
qed

lemma bind_all_bound:
  "(\<forall>(ty, f) \<in> set bs. ty \<noteq> 0) \<Longrightarrow> used_slots c + length bs \<le> length (g_table c) \<Longrightarrow>
     bound ty (bind_all bs c) = (case map_of (rev bs) ty of Some f \<Rightarrow> Some f | None \<Rightarrow> bound ty c) \<and>
     g_unknown (bind_all bs c) = g_unknown c"
proof (induction bs arbitrary: c)
  case (Cons b bs)
  obtain t f where b: "b = (t, f)" by force
  obtain c' where c': "dspi_on t (Some f) c = (True, c')" "used_slots c' \<le> used_slots c + 1"
      "length (g_table c') = length (g_table c)" "g_unknown c' = g_unknown c"
  proof (rule dspi_on_succeeds [of t c f])
    show "t \<noteq> 0" "used_slots c < length (g_table c)" using Cons.prems b by auto
  qed
  have ih: "bound ty (bind_all bs c') = (case map_of (rev bs) ty of Some f \<Rightarrow> Some f | None \<Rightarrow> bound ty c') \<and>
      g_unknown (bind_all bs c') = g_unknown c'"
    by (rule Cons.IH) (use Cons.prems c' in auto)
  have e: "bind_all (b # bs) c = bind_all bs c'" using b c' by simp
  show ?case
    unfolding e using ih bound_dspi_on [OF c'(1), of ty] c'(4)
    by (auto simp: b map_add_def split: option.splits)
qed simp

lemma fw_cmds_bind_all:
  "fw_cmds sync stamp up bid = dspi_on_unknown (Some on_unknown) (bind_all
     [(NB_CMD_PING, on_ping), (NB_CMD_SET_LEDS, on_set_leds sync), (NB_CMD_GET_PANEL, on_get_panel),
      (NB_CMD_GET_TIME, on_get_time sync), (NB_CMD_SET_TIME, on_set_time sync),
      (NB_CMD_GET_INFO, on_get_info stamp up bid), (NB_CMD_GET_ENC, on_get_encoder)] cmds_boot)"
  by (simp add: fw_cmds_def Let_def)

lemma bound_on_unknown [simp]: "bound ty (dspi_on_unknown f c) = bound ty c" "g_unknown (dspi_on_unknown f c) = f"
  by (simp_all add: bound_def cmd_find_def dspi_on_unknown_def)

lemma fw_bound:
  fixes sync :: "'s i2c_sync" and stamp up bid
  defines "c \<equiv> fw_cmds sync stamp up bid"
  shows "bound NB_CMD_PING c = Some on_ping" "bound NB_CMD_SET_LEDS c = Some (on_set_leds sync)"
    "bound NB_CMD_GET_PANEL c = Some on_get_panel" "bound NB_CMD_GET_TIME c = Some (on_get_time sync)"
    "bound NB_CMD_SET_TIME c = Some (on_set_time sync)"
    "bound NB_CMD_GET_INFO c = Some (on_get_info stamp up bid)"
    "bound NB_CMD_GET_ENC c = Some on_get_encoder" "g_unknown c = Some on_unknown"
proof -
  let ?bs = "[(NB_CMD_PING, on_ping), (NB_CMD_SET_LEDS, on_set_leds sync), (NB_CMD_GET_PANEL, on_get_panel),
      (NB_CMD_GET_TIME, on_get_time sync), (NB_CMD_SET_TIME, on_set_time sync),
      (NB_CMD_GET_INFO, on_get_info stamp up bid), (NB_CMD_GET_ENC, on_get_encoder)]"
  have r: "bound ty c = (case map_of (rev ?bs) ty of Some f \<Rightarrow> Some f | None \<Rightarrow> bound ty cmds_boot)" for ty
    unfolding c_def fw_cmds_bind_all bound_on_unknown
    by (rule bind_all_bound [THEN conjunct1]) (simp_all add: used_slots_def cmds_boot_def)
  show "bound NB_CMD_PING c = Some on_ping" "bound NB_CMD_SET_LEDS c = Some (on_set_leds sync)"
    "bound NB_CMD_GET_PANEL c = Some on_get_panel" "bound NB_CMD_GET_TIME c = Some (on_get_time sync)"
    "bound NB_CMD_SET_TIME c = Some (on_set_time sync)"
    "bound NB_CMD_GET_INFO c = Some (on_get_info stamp up bid)"
    "bound NB_CMD_GET_ENC c = Some on_get_encoder"
    unfolding r by simp_all
  show "g_unknown c = Some on_unknown" unfolding c_def fw_cmds_bind_all by (rule bound_on_unknown)
qed

section \<open>Dispatching\<close>

lemma dispatch_reply_flag:
  "msg_flags req AND 2 \<noteq> 0 \<Longrightarrow> dispatch Q req c link w = (c, link, w)"
  by (simp add: dispatch_def)

lemma dispatch_handler:
  assumes "msg_flags req AND 2 = 0" and "bound (msg_type req) c = Some f" and "f req [] w = (reply, w')"
  shows "dispatch Q req c link w = (c\<lparr>g_handled := g_handled c + 1\<rparr>,
    if reply = [] then link
    else snd (dspi_send Q (msg_type req) (Some reply) (length reply) 0 2 link), w')"
  using assms by (simp add: dispatch_def pick_handler_bound Let_def)

lemma reply_write_fits:
  "n \<le> length p \<Longrightarrow> n \<le> 58 \<Longrightarrow> reply_write (Some p) n [] = (True, take n p)"
  by (simp add: reply_write_def)

section \<open>The clock over the link\<close>

lemma set_time_handler:
  assumes "i2c_registers sync DS3231_I2C_ADDR regs" and "time_valid t"
    and "unat (msg_len req) \<ge> 10"
    and "dec_time_wire (msg_payload req) = \<lparr>tw_year = t_year t, tw_month = t_month t, tw_day = t_day t,
      tw_hour = t_hour t, tw_minute = t_minute t, tw_second = t_second t, tw_weekday = wd, tw_temp_centi = tc\<rparr>"
    and "on_set_time sync req [] w = (reply, w')" and "reply = [NB_OK]"
  shows "\<exists>rc. ds3231_set_time sync (t\<lparr>t_weekday := 0\<rparr>) (fw_bus w) = (rc, fw_bus w') \<and> rc \<ge> 0"
proof -
  have t0: "t\<lparr>t_weekday := 0\<rparr> = \<lparr>t_year = t_year t, t_month = t_month t, t_day = t_day t, t_hour = t_hour t,
      t_minute = t_minute t, t_second = t_second t, t_weekday = 0\<rparr>"
    by (cases t) simp
  obtain rc s where rc: "ds3231_set_time sync (t\<lparr>t_weekday := 0\<rparr>) (fw_bus w) = (rc, s)" by force
  have "fw_bus w' = s" and "rc \<ge> 0"
    using assms(3-6) rc unfolding t0
    by (auto simp: on_set_time_def Let_def reply_write_def not_less split: if_splits)
  then show ?thesis using rc by blast
qed

lemma get_time_handler:
  assumes "fst (ds3231_get_time sync zero_time (fw_bus w)) = (0, now)"
  shows "\<exists>tc w'. on_get_time sync req [] w = (enc_time_wire \<lparr>tw_year = t_year now, tw_month = t_month now,
      tw_day = t_day now, tw_hour = t_hour now, tw_minute = t_minute now, tw_second = t_second now,
      tw_weekday = t_weekday now, tw_temp_centi = tc\<rparr>, w')"
proof -
  obtain s where g: "ds3231_get_time sync zero_time (fw_bus w) = ((0, now), s)"
    using assms by (cases "ds3231_get_time sync zero_time (fw_bus w)") simp
  obtain trc centi s' where "ds3231_temperature_centi sync 0 s = ((trc, centi), s')" by (metis surj_pair)
  then show ?thesis
    using g time_wire.enc_len by (simp add: on_get_time_def reply_write_fits) blast
qed

text \<open>A handler map: binding a type changes that type's handler and no other.\<close>

locale handler_map =
  fixes handler :: "u8 \<Rightarrow> 'c \<Rightarrow> 'h option" and bind_to :: "u8 \<Rightarrow> 'h \<Rightarrow> 'c \<Rightarrow> 'c option"
  assumes handler_bind: "bind_to ty f c = Some c' \<Longrightarrow> handler ty' c' = (if ty' = ty then Some f else handler ty' c)"
begin

fun bind_list :: "(u8 \<times> 'h) list \<Rightarrow> 'c \<Rightarrow> 'c option" where
  "bind_list [] c = Some c"
| "bind_list ((ty, f) # bs) c = Option.bind (bind_to ty f c) (bind_list bs)"

lemma bind_list_handler:
  "bind_list bs c = Some c' \<Longrightarrow> handler ty c' = (case map_of (rev bs) ty of Some f \<Rightarrow> Some f | None \<Rightarrow> handler ty c)"
proof (induction bs arbitrary: c)
  case (Cons b bs)
  obtain t f where b: "b = (t, f)" by force
  then obtain c1 where "bind_to t f c = Some c1" "bind_list bs c1 = Some c'"
    using Cons.prems by (auto simp: bind_eq_Some_conv)
  then show ?case
    using Cons.IH [of c1] handler_bind [of t f c c1 ty] by (auto simp: b map_add_def split: option.splits)
qed simp

end

interpretation dspi_map: handler_map bound
  "\<lambda>ty f c. (case dspi_on ty (Some f) c of (True, c') \<Rightarrow> Some c' | _ \<Rightarrow> None)"
proof unfold_locales
  fix ty f c c' ty'
  assume "(case dspi_on ty (Some f) c of (True, c') \<Rightarrow> Some c' | _ \<Rightarrow> None) = Some c'"
  then have "dspi_on ty (Some f) c = (True, c')" by (auto split: prod.splits bool.splits)
  then show "bound ty' c' = (if ty' = ty then Some f else bound ty' c)" by (rule bound_dspi_on)
qed

section \<open>Properties\<close>

text \<open>a successful dspi_on makes the handler the one bound to its type and changes no other type's
  binding; a refused one (idle type, null handler or full table) changes nothing.\<close>

theorem dspi_on_binds:
  "(dspi_on ty (Some f) c = (True, c') \<longrightarrow> (\<forall>ty'. bound ty' c' = (if ty' = ty then Some f else bound ty' c))) \<and>
   (dspi_on ty fn c = (False, c') \<longrightarrow> c' = c) \<and> fst (dspi_on 0 fn c) = False"
  using bound_dspi_on dspi_on_False by (fastforce simp: dspi_on_def)

lemma dspi_on_binds_witness:
  "\<exists>c'. dspi_on 5 (Some on_ping) (cmds_boot :: unit fw cmds) = (True, c') \<and> bound 5 c' = Some on_ping"
proof -
  obtain c' where c': "dspi_on 5 (Some on_ping) (cmds_boot :: unit fw cmds) = (True, c')"
    using dspi_on_succeeds [of 5 cmds_boot on_ping] by (auto simp: used_slots_def cmds_boot_def)
  then have "bound 5 c' = Some on_ping"
    using dspi_on_binds [of 5 on_ping cmds_boot c' None] by simp
  then show ?thesis using c' by blast
qed

text \<open>a request whose type is bound and whose handler writes a reply puts exactly one message on the
  outbound queue, of the request's own type, with the REPLY flag and the reply's bytes; a frame that
  is itself flagged as a reply reaches no handler and produces nothing, so replies cannot loop.\<close>

theorem dispatch_replies_once:
  assumes "rtos_queue_laws Q items" and "bound (msg_type req) c = Some f" and "f req [] w = (reply, w')"
    and "reply \<noteq> []" and "length reply \<le> 58"
    and "fst (dspi_send Q (msg_type req) (Some reply) (length reply) 0 DSPI_FLAG_REPLY link)"
  shows "(case dispatch Q req c link w of (c2, link2, w2) \<Rightarrow>
    if msg_flags req AND DSPI_FLAG_REPLY = 0
    then w2 = w' \<and> g_handled c2 = g_handled c + 1 \<and> tx_items items link2 = tx_items items link @
      [\<lparr>msg_type = msg_type req, msg_len = of_nat (length reply), msg_flags = DSPI_FLAG_REPLY,
        msg_payload = pad_payload reply\<rparr>]
    else c2 = c \<and> link2 = link \<and> w2 = w)"
proof (cases "msg_flags req AND DSPI_FLAG_REPLY = 0")
  case True
  then show ?thesis
    using dispatch_handler [OF True assms(2,3), of Q link] assms(4) send_queues(1) [OF assms(1,6)]
    by (simp add: sent_msg_def)
next
  case False
  then show ?thesis by (simp add: dispatch_reply_flag)
qed

definition demo_cmds :: "unit fw cmds" where
  "demo_cmds = fw_cmds quiet_port \<lparr>bs_year = 2026, bs_month = 1, bs_day = 1, bs_hour = 0, bs_minute = 0,
     bs_second = 0\<rparr> 7 9"

lemma dispatch_replies_once_witness:
  "\<forall>w. tx_items (\<lambda>q. q) (fst (snd (dispatch (list_queue 8) \<lparr>msg_type = NB_CMD_PING, msg_len = 2, msg_flags = 0,
      msg_payload = pad_payload [1, 2]\<rparr> demo_cmds demo_up w))) =
   [\<lparr>msg_type = NB_CMD_PING, msg_len = 2, msg_flags = 2, msg_payload = pad_payload [1, 2]\<rparr>]"
proof
  fix w :: "unit fw"
  let ?req = "\<lparr>msg_type = NB_CMD_PING, msg_len = 2, msg_flags = 0, msg_payload = pad_payload [1, 2]\<rparr>"
  have b: "bound (msg_type ?req) demo_cmds = Some on_ping" by (simp add: demo_cmds_def fw_bound)
  have h: "on_ping ?req [] w = ([1, 2], w)"
    by (simp add: on_ping_def reply_write_def pad_payload_def)
  have s: "fst (dspi_send (list_queue 8) (msg_type ?req) (Some [1, 2]) (length [1, 2 :: u8]) 0 DSPI_FLAG_REPLY demo_up)"
    using demo_send by (simp add: numeral_2_eq_2)
  show "tx_items (\<lambda>q. q) (fst (snd (dispatch (list_queue 8) ?req demo_cmds demo_up w))) =
      [\<lparr>msg_type = NB_CMD_PING, msg_len = 2, msg_flags = 2, msg_payload = pad_payload [1, 2]\<rparr>]"
    using dispatch_replies_once [OF list_queue_laws b h _ _ s]
    by (simp add: case_prod_beta tx_items_def demo_up_simps)
qed


definition demo_fw :: "regfile fw" where
  "demo_fw = \<lparr>fw_rtc_ok = True, fw_panel_ok = True, fw_encoder_ok = True, fw_led_state = 0, fw_pcf = pcf_boot,
     fw_encoder = encoder_boot True True True, fw_selftest_done = True, fw_selftest_passed = True,
     fw_bus = demo_regs\<rparr>"


end
