(* ===== verification/NbLink.thy ===== *)
theory NbLink
  imports NbWire
begin

text \<open>
  The host end of the northbridge link, libs/hwinterface/northbridge.cpp (\<^verbatim>\<open>LinkImpl\<close>): the outbound
  queue, one full-duplex exchange, the parsing and routing of what came back, and the \<^verbatim>\<open>request\<close>
  rendezvous. The SPI transfer is the environment: an exchange is given what the bus returned, or a
  failure. Callbacks are the list of frames they were called with. Then src/northbridge_link.cpp,
  which keeps the panel and the clocks in step over this link.
\<close>

section \<open>State\<close>

record nb_stats =
  st_frames_tx :: u64
  st_frames_rx :: u64
  st_exchanges :: u64
  st_blank_frames :: u64
  st_crc_errors :: u64
  st_spi_errors :: u64
  st_irq_events :: u64
  st_tx_dropped :: u64
  st_request_retries :: u64
  st_request_timeouts :: u64

record nb_link =
  nb_tx_queue :: "nb_frame list"
  nb_stats :: nb_stats
  nb_pending_reply :: nb_frame
  nb_pending_type :: u8
  nb_awaiting :: bool
  nb_have_reply :: bool
  nb_on_frame :: "nb_frame list"

definition nb_zero_frame :: nb_frame where
  "nb_zero_frame = \<lparr>fr_type = 0, fr_len = 0, fr_flags = 0, fr_payload = replicate 58 0\<rparr>"

definition nb_boot :: nb_link where
  "nb_boot = \<lparr>nb_tx_queue = [], nb_stats = \<lparr>st_frames_tx = 0, st_frames_rx = 0, st_exchanges = 0,
     st_blank_frames = 0, st_crc_errors = 0, st_spi_errors = 0,
     st_irq_events = 0, st_tx_dropped = 0, st_request_retries = 0,
     st_request_timeouts = 0\<rparr>, nb_pending_reply = nb_zero_frame, nb_pending_type = 0, nb_awaiting = False,
     nb_have_reply = False, nb_on_frame = []\<rparr>"

definition upd_stats :: "(nb_stats \<Rightarrow> nb_stats) \<Rightarrow> nb_link \<Rightarrow> nb_link" where
  "upd_stats f l = l\<lparr>nb_stats := f (nb_stats l)\<rparr>"

section \<open>Sending\<close>

text \<open>\<^verbatim>\<open>send\<close>; \<open>depth\<close> is the configured queue depth.\<close>

definition nb_send :: "nat \<Rightarrow> u8 \<Rightarrow> bytes option \<Rightarrow> nat \<Rightarrow> nb_link \<Rightarrow> bool \<times> nb_link" where
  "nb_send depth ty payload len l =
     (if len > DSPI_PAYLOAD_MAX then (False, l)
      else
        let buf = replicate 58 0;
            buf = (case payload of None \<Rightarrow> buf
                   | Some p \<Rightarrow> if len > 0 then memcpy_at 0 (take len p) buf else buf);
            f = \<lparr>fr_type = ty, fr_len = of_nat len, fr_flags = 0, fr_payload = buf\<rparr>
        in if length (nb_tx_queue l) \<ge> depth
           then (False, upd_stats (\<lambda>s. s\<lparr>st_tx_dropped := st_tx_dropped s + 1\<rparr>) l)
           else (True, l\<lparr>nb_tx_queue := nb_tx_queue l @ [f]\<rparr>))"

definition pop_tx :: "nb_link \<Rightarrow> (nb_frame \<times> bool) option \<times> nb_link" where
  "pop_tx l = (case nb_tx_queue l of [] \<Rightarrow> (None, l)
     | f # q \<Rightarrow> (Some (f, q \<noteq> []), l\<lparr>nb_tx_queue := q\<rparr>))"

text \<open>\<^verbatim>\<open>transfer_cs_per_byte\<close> splits the 64 bytes into messages: each entry is the byte offsets one ioctl
  carries. A zero chunk size means the whole frame.\<close>

function cs_messages :: "nat \<Rightarrow> nat \<Rightarrow> nat list list" where
  "cs_messages chunk base =
     (if base < 64 \<and> 0 < chunk
      then map (\<lambda>i. base + i) [0..<min chunk (64 - base)] # cs_messages chunk (base + chunk)
      else [])"
  by auto
termination by (relation "measure (\<lambda>(chunk, base). 64 - base)") auto

declare cs_messages.simps [simp del]

definition transfer_cs_per_byte :: "nat \<Rightarrow> nat list list" where
  "transfer_cs_per_byte cfg_chunk = cs_messages (if cfg_chunk > 0 then cfg_chunk else 64) 0"

section \<open>Parsing and routing\<close>

definition nb_parse :: "bytes \<Rightarrow> nb_link \<Rightarrow> (bool \<times> bool) \<times> nb_link" where
  "nb_parse frame l =
     (if frame ! OFF_MAGIC \<noteq> DSPI_MAGIC \<or> unat (frame ! OFF_LEN) > DSPI_PAYLOAD_MAX then
        let blank = list_all (\<lambda>b. b = 0) (take DSPI_FRAME_SIZE frame) in
        ((False, False), upd_stats (\<lambda>s. if blank then s\<lparr>st_blank_frames := st_blank_frames s + 1\<rparr>
           else s\<lparr>st_crc_errors := st_crc_errors s + 1\<rparr>) l)
      else if frame_crc_field frame \<noteq> crc16_ccitt frame OFF_CRC then
        ((False, False), upd_stats (\<lambda>s. s\<lparr>st_crc_errors := st_crc_errors s + 1\<rparr>) l)
      else
        let peer_more = (frame ! OFF_FLAGS AND DSPI_FLAG_MORE \<noteq> 0) in
        if frame ! OFF_TYPE = DSPI_TYPE_IDLE then ((True, peer_more), l)
        else
          let f = frame_nb frame;
              l = upd_stats (\<lambda>s. s\<lparr>st_frames_rx := st_frames_rx s + 1\<rparr>) l
          in if fr_flags f AND DSPI_FLAG_REPLY \<noteq> 0 \<and> nb_awaiting l \<and> nb_pending_type l = fr_type f
             then ((True, peer_more), l\<lparr>nb_pending_reply := f, nb_have_reply := True\<rparr>)
             else ((True, peer_more), l\<lparr>nb_on_frame := nb_on_frame l @ [f]\<rparr>))"

text \<open>\<^verbatim>\<open>exchange\<close>: what is clocked out, whether to go on and the peer's MORE flag. \<open>bus\<close> is the 64 bytes
  the transfer returned, \<open>None\<close> when it failed.\<close>

definition nb_idle_frame :: bytes where
  "nb_idle_frame = nb_build_frame DSPI_TYPE_IDLE None 0 False"

definition nb_exchange :: "bytes option \<Rightarrow> nb_link \<Rightarrow> (bytes \<times> bool \<times> bool) \<times> nb_link" where
  "nb_exchange bus l =
     (let (popped, l) = pop_tx l;
          tx = (case popped of
            Some (f, more_queued) \<Rightarrow> nb_build_frame (fr_type f) (Some (fr_payload f)) (fr_len f) more_queued
          | None \<Rightarrow> nb_idle_frame)
      in case bus of
           None \<Rightarrow> ((tx, False, False), upd_stats (\<lambda>s. s\<lparr>st_spi_errors := st_spi_errors s + 1\<rparr>) l)
         | Some rx \<Rightarrow>
             let l = upd_stats (\<lambda>s. s\<lparr>st_exchanges := st_exchanges s + 1\<rparr>) l;
                 l = (if popped \<noteq> None then upd_stats (\<lambda>s. s\<lparr>st_frames_tx := st_frames_tx s + 1\<rparr>) l else l);
                 ((ok, peer_more), l) = nb_parse rx l
             in ((tx, ok, peer_more), l))"

fun nb_exchanges :: "bytes option list \<Rightarrow> nb_link \<Rightarrow> bytes list \<times> nb_link" where
  "nb_exchanges [] l = ([], l)"
| "nb_exchanges (bus # buses) l =
     (let ((tx, _, _), l) = nb_exchange bus l; (txs, l) = nb_exchanges buses l in (tx # txs, l))"

text \<open>\<^verbatim>\<open>run\<close>: the drain at start-up, and one round of the service loop. A schedule gives what each
  exchange returns and, in the round, the level of the IRQ line sampled after it; the service loop
  has waited on the line first (\<open>woken\<close>: the wait saw it asserted). A schedule that ends is a thread
  still running.\<close>

fun nb_attach :: "bytes option list \<Rightarrow> nb_link \<Rightarrow> nb_link" where
  "nb_attach [] l = l"
| "nb_attach (bus # buses) l =
     (let ((_, ok, peer_more), l) = nb_exchange bus l
      in if ok \<and> peer_more then nb_attach buses l else l)"

fun nb_burst :: "(bytes option \<times> bool) list \<Rightarrow> nb_link \<Rightarrow> nb_link" where
  "nb_burst [] l = l"
| "nb_burst ((bus, irq) # sched) l =
     (let ((_, ok, peer_more), l) = nb_exchange bus l
      in if \<not> ok then l
         else if peer_more \<or> irq \<or> nb_tx_queue l \<noteq> [] then nb_burst sched l else l)"

definition nb_round :: "bool \<Rightarrow> (bytes option \<times> bool) list \<Rightarrow> nb_link \<Rightarrow> nb_link" where
  "nb_round woken sched l =
     nb_burst sched (if woken then upd_stats (\<lambda>s. s\<lparr>st_irq_events := st_irq_events s + 1\<rparr>) l else l)"

section \<open>Requests\<close>

text \<open>\<^verbatim>\<open>request\<close>: each attempt arms the rendezvous, queues the command and waits; \<open>waits\<close> gives, attempt
  by attempt, the exchanges the link thread does before the wait ends. \<^verbatim>\<open>max(1, attempts)\<close> attempts
  are made; stopping the link is not modelled.\<close>

fun nb_attempts :: "nat \<Rightarrow> u8 \<Rightarrow> bytes option \<Rightarrow> nat \<Rightarrow> nat \<Rightarrow> bytes option list list \<Rightarrow> nb_link \<Rightarrow>
    nb_frame option \<times> nb_link" where
  "nb_attempts depth ty payload len attempt [] l =
     (None, upd_stats (\<lambda>s. s\<lparr>st_request_timeouts := st_request_timeouts s + 1\<rparr>) l)"
| "nb_attempts depth ty payload len attempt (buses # waits) l =
     (let l = l\<lparr>nb_pending_type := ty, nb_have_reply := False, nb_awaiting := True\<rparr>;
          (sent, l) = nb_send depth ty payload len l
      in if \<not> sent then (None, l\<lparr>nb_awaiting := False\<rparr>)
         else
           let l = snd (nb_exchanges buses l);
               got = nb_have_reply l;
               l = l\<lparr>nb_awaiting := False\<rparr>
           in if got then
                (Some (nb_pending_reply l),
                 if attempt > 0 then upd_stats (\<lambda>s. s\<lparr>st_request_retries := st_request_retries s + 1\<rparr>) l else l)
              else nb_attempts depth ty payload len (Suc attempt) waits l)"

definition nb_request :: "nat \<Rightarrow> u8 \<Rightarrow> bytes option \<Rightarrow> nat \<Rightarrow> nat \<Rightarrow> (nat \<Rightarrow> bytes option list) \<Rightarrow> nb_link \<Rightarrow>
    nb_frame option \<times> nb_link" where
  "nb_request depth ty payload len attempts waits l =
     nb_attempts depth ty payload len 0 (map waits [0..<max 1 attempts]) l"

section \<open>The app's clock and panel\<close>

record nb_tm =
  tm_year :: int
  tm_mon :: int
  tm_mday :: int
  tm_hour :: int
  tm_min :: int
  tm_sec :: int
  tm_wday :: int

definition wire_to_tm :: "nb_time_wire \<Rightarrow> nb_tm option" where
  "wire_to_tm w =
     (if tw_year w < 1970 \<or> tw_month w < 1 \<or> tw_month w > 12 \<or> tw_day w < 1 \<or> tw_day w > 31 then None
      else if tw_hour w > 23 \<or> tw_minute w > 59 \<or> tw_second w > 59 then None
      else Some \<lparr>tm_year = uint (tw_year w) - 1900, tm_mon = uint (tw_month w) - 1, tm_mday = uint (tw_day w),
             tm_hour = uint (tw_hour w), tm_min = uint (tw_minute w), tm_sec = uint (tw_second w), tm_wday = 0\<rparr>)"

definition tm_to_wire :: "nb_tm \<Rightarrow> nb_time_wire" where
  "tm_to_wire t =
     \<lparr>tw_year = of_int (tm_year t + 1900), tw_month = of_int (tm_mon t + 1), tw_day = of_int (tm_mday t),
      tw_hour = of_int (tm_hour t), tw_minute = of_int (tm_min t), tw_second = of_int (tm_sec t),
      tw_weekday = of_int (tm_wday t + 1), tw_temp_centi = 0\<rparr>"

text \<open>The app's own fields, and what the system answers: the current time, its broken-down form, the
  conversion back (\<^verbatim>\<open>timegm\<close>) and whether \<^verbatim>\<open>settimeofday\<close> is allowed. \<open>request\<close> is the link's
  \<^verbatim>\<open>request\<close> under some schedule of exchanges.\<close>

record nb_app =
  app_online :: bool
  app_info :: nb_info_wire
  app_panel :: nb_panel_wire
  app_enc :: encoder_state
  app_leds :: u8
  app_clock_from_rtc :: bool
  app_last_clock_check :: u32
  app_link :: nb_link

record nb_sys =
  sys_now :: int
  sys_tm :: nb_tm
  sys_timegm :: "nb_tm \<Rightarrow> int"
  sys_can_set :: bool

type_synonym nb_requester = "u8 \<Rightarrow> bytes \<Rightarrow> nb_link \<Rightarrow> nb_frame option \<times> nb_link"

abbreviation (input) kSaneYear :: int where "kSaneYear \<equiv> 2025"
abbreviation (input) kClockSkewToleranceSec :: int where "kClockSkewToleranceSec \<equiv> 30"
abbreviation (input) kClockCheckIntervalMs :: u32 where "kClockCheckIntervalMs \<equiv> 3600000"

definition nbSetLeds :: "nat \<Rightarrow> u8 \<Rightarrow> nb_app \<Rightarrow> bool \<times> nb_app" where
  "nbSetLeds depth buttons a =
     (if \<not> app_online a then (False, a)
      else
        let leds = buttons AND 0x0f;
            (sent, l) = nb_send depth NB_CMD_SET_LEDS (Some [leds]) 1 (app_link a);
            a = a\<lparr>app_link := l\<rparr>
        in if \<not> sent then (False, a) else (True, a\<lparr>app_leds := leds\<rparr>))"

definition nbOnPanelEvent :: "nat \<Rightarrow> panel_state \<Rightarrow> nb_app \<Rightarrow> nb_app" where
  "nbOnPanelEvent depth panel a =
     snd (nbSetLeds depth (ucast (ps_buttons panel AND 0x0f))
       (a\<lparr>app_panel := (app_panel a)\<lparr>pw_buttons := ps_buttons panel, pw_toggles := ps_toggles panel\<rparr>\<rparr>))"

definition nbReadTime :: "nb_requester \<Rightarrow> nb_app \<Rightarrow> nb_time_wire option \<times> nb_app" where
  "nbReadTime request a =
     (if \<not> app_online a then (None, a)
      else case request NB_CMD_GET_TIME [] (app_link a) of
        (None, l) \<Rightarrow> (None, a\<lparr>app_link := l\<rparr>)
      | (Some reply, l) \<Rightarrow> (payload_of 10 dec_time_wire reply, a\<lparr>app_link := l\<rparr>))"

definition nbOnEncoderEvent :: "encoder_state \<Rightarrow> nb_app \<Rightarrow> nb_app" where
  "nbOnEncoderEvent enc a = a\<lparr>app_enc := enc\<rparr>"

text \<open>The frame callback \<^verbatim>\<open>initNorthbridge\<close> installs, with the action it posts run.\<close>

definition nb_frame_callback :: "nat \<Rightarrow> nb_frame \<Rightarrow> nb_app \<Rightarrow> nb_app" where
  "nb_frame_callback depth f a =
     (if fr_type f = NB_CMD_PANEL_EVT then
        (case panel_state_decode f of None \<Rightarrow> a | Some panel \<Rightarrow> nbOnPanelEvent depth panel a)
      else if fr_type f = NB_CMD_ENC_EVT then
        (case encoder_state_decode f of None \<Rightarrow> a | Some enc \<Rightarrow> nbOnEncoderEvent enc a)
      else a)"

text \<open>The result also says what the system clock was set to, if it was.\<close>

definition nbAdoptRtcTime :: "nb_requester \<Rightarrow> nb_sys \<Rightarrow> nb_app \<Rightarrow> (bool \<times> int option) \<times> nb_app" where
  "nbAdoptRtcTime request sys a =
     (case nbReadTime request a of
        (None, a) \<Rightarrow> ((False, None), a)
      | (Some rtc, a) \<Rightarrow>
          if uint (tw_year rtc) < kSaneYear then ((False, None), a)
          else if tm_year (sys_tm sys) + 1900 \<ge> kSaneYear then ((False, None), a)
          else case wire_to_tm rtc of
            None \<Rightarrow> ((False, None), a)
          | Some t \<Rightarrow>
              let epoch = sys_timegm sys t in
              if epoch \<le> 0 then ((False, None), a)
              else if \<not> sys_can_set sys then ((False, None), a)
              else ((True, Some epoch), a\<lparr>app_clock_from_rtc := True\<rparr>))"

definition nbPushSystemTime :: "nb_requester \<Rightarrow> nb_sys \<Rightarrow> nb_app \<Rightarrow> bool \<times> nb_app" where
  "nbPushSystemTime request sys a =
     (if \<not> app_online a then (False, a)
      else if tm_year (sys_tm sys) + 1900 < kSaneYear then (False, a)
      else case request NB_CMD_SET_TIME (enc_time_wire (tm_to_wire (sys_tm sys))) (app_link a) of
        (None, l) \<Rightarrow> (False, a\<lparr>app_link := l\<rparr>)
      | (Some reply, l) \<Rightarrow>
          (case payload_of 1 (\<lambda>p. p ! 0) reply of
             None \<Rightarrow> (False, a\<lparr>app_link := l\<rparr>)
           | Some code \<Rightarrow> if code \<noteq> 0 then (False, a\<lparr>app_link := l\<rparr>) else (True, a\<lparr>app_link := l\<rparr>)))"

definition nbService :: "nb_requester \<Rightarrow> nb_requester \<Rightarrow> nb_sys \<Rightarrow> u32 \<Rightarrow> nb_app \<Rightarrow> nb_app" where
  "nbService quick request sys now_ms a =
     (if \<not> app_online a \<or> iw_features (app_info a) AND 1 = 0 then a
      else if app_last_clock_check a \<noteq> 0 \<and> now_ms - app_last_clock_check a < kClockCheckIntervalMs then a
      else
        let a = a\<lparr>app_last_clock_check := now_ms\<rparr> in
        if app_clock_from_rtc a then a
        else case nbReadTime quick a of
          (None, a) \<Rightarrow> a
        | (Some rtc, a) \<Rightarrow>
            (case wire_to_tm rtc of
               None \<Rightarrow> a
             | Some t \<Rightarrow>
                 let rtcEpoch = sys_timegm sys t; sysEpoch = sys_now sys in
                 if rtcEpoch \<le> 0 \<or> sysEpoch \<le> 0 then a
                 else
                   let skew = (if sysEpoch > rtcEpoch then sysEpoch - rtcEpoch else rtcEpoch - sysEpoch) in
                   if skew > kClockSkewToleranceSec then snd (nbPushSystemTime request sys a) else a))"

text \<open>\<^verbatim>\<open>initNorthbridge\<close> after the link object is made; \<open>started\<close> is what its \<^verbatim>\<open>start\<close> returned. The
  result also says what the system clock was set to, if it was.\<close>

definition init_seed_panel :: "nb_requester \<Rightarrow> nb_app \<Rightarrow> nb_app" where
  "init_seed_panel request a =
     (if \<not> app_online a then a
      else case request NB_CMD_GET_PANEL [] (app_link a) of
        (None, l) \<Rightarrow> a\<lparr>app_link := l\<rparr>
      | (Some reply, l) \<Rightarrow>
          (case payload_of 6 dec_panel_wire reply of
             None \<Rightarrow> a\<lparr>app_link := l\<rparr> | Some w \<Rightarrow> a\<lparr>app_link := l, app_panel := w\<rparr>))"

definition init_seed_encoder :: "nb_requester \<Rightarrow> nb_app \<Rightarrow> nb_app" where
  "init_seed_encoder request a =
     (if \<not> app_online a then a
      else case request NB_CMD_GET_ENC [] (app_link a) of
        (None, l) \<Rightarrow> a\<lparr>app_link := l\<rparr>
      | (Some reply, l) \<Rightarrow>
          (case payload_of 7 dec_encoder_wire reply of
             None \<Rightarrow> a\<lparr>app_link := l\<rparr>
           | Some w \<Rightarrow> a\<lparr>app_link := l,
               app_enc := (app_enc a)\<lparr>es_position := ew_position w, es_pressed := (ew_pressed w \<noteq> 0)\<rparr>\<rparr>))"

definition init_identify :: "nb_requester \<Rightarrow> nb_app \<Rightarrow> nb_app" where
  "init_identify request a =
     (case request NB_CMD_GET_INFO [] (app_link a) of
        (None, l) \<Rightarrow> a\<lparr>app_link := l\<rparr>
      | (Some reply, l) \<Rightarrow>
          (case payload_of 24 dec_info_wire reply of
             None \<Rightarrow> a\<lparr>app_link := l\<rparr>
           | Some w \<Rightarrow> a\<lparr>app_link := l, app_info := w, app_online := True\<rparr>))"

definition initNorthbridge :: "nat \<Rightarrow> nb_requester \<Rightarrow> nb_sys \<Rightarrow> bool \<Rightarrow> nb_app \<Rightarrow>
    (bool \<times> int option) \<times> nb_app" where
  "initNorthbridge depth request sys started a =
     (if \<not> started then ((False, None), a)
      else
        let a = init_identify request a;
            ((_, set_to), a) =
              (if app_online a \<and> iw_features (app_info a) AND 1 \<noteq> 0 then nbAdoptRtcTime request sys a
               else ((False, None), a));
            a = init_seed_panel request a;
            a = init_seed_encoder request a;
            a = (if app_online a then snd (nbSetLeds depth 0 a) else a)
        in ((True, set_to), a))"

section \<open>What each step does to the link\<close>

lemma upd_stats_simps [simp]:
  "nb_tx_queue (upd_stats f l) = nb_tx_queue l" "nb_stats (upd_stats f l) = f (nb_stats l)"
  "nb_pending_reply (upd_stats f l) = nb_pending_reply l" "nb_pending_type (upd_stats f l) = nb_pending_type l"
  "nb_awaiting (upd_stats f l) = nb_awaiting l" "nb_have_reply (upd_stats f l) = nb_have_reply l"
  "nb_on_frame (upd_stats f l) = nb_on_frame l"
  by (simp_all add: upd_stats_def)

text \<open>Whether a frame answers the request being waited for.\<close>

definition answers :: "nb_frame \<Rightarrow> nb_link \<Rightarrow> bool" where
  "answers f l \<longleftrightarrow> fr_flags f AND DSPI_FLAG_REPLY \<noteq> 0 \<and> nb_awaiting l \<and> nb_pending_type l = fr_type f"

lemma frame_accepted_nb:
  "frame_accepted rx \<longleftrightarrow> rx ! OFF_MAGIC = DSPI_MAGIC \<and> unat (rx ! OFF_LEN) \<le> DSPI_PAYLOAD_MAX \<and>
     frame_crc_field rx = crc16_ccitt rx OFF_CRC"
  by (simp add: frame_accepted_def frame_header_ok_def crc16_ccitt_loop_dspi crc16_ccitt_def dspi_crc16_ccitt_def)

lemma frame_nb_fields [simp]:
  "fr_type (frame_nb f) = f ! OFF_TYPE" "fr_flags (frame_nb f) = f ! OFF_FLAGS" "fr_len (frame_nb f) = f ! OFF_LEN"
  by (simp_all add: frame_nb_def)

lemma nb_parse_refused:
  assumes "\<not> frame_accepted rx"
  shows "\<exists>f. nb_parse rx l = ((False, False), upd_stats f l)"
proof (cases "rx ! OFF_MAGIC \<noteq> DSPI_MAGIC \<or> unat (rx ! OFF_LEN) > DSPI_PAYLOAD_MAX")
  case True
  then show ?thesis unfolding nb_parse_def Let_def by (simp only: if_True) blast
next
  case False
  with assms have "frame_crc_field rx \<noteq> crc16_ccitt rx OFF_CRC" by (auto simp: frame_accepted_nb)
  with False show ?thesis unfolding nb_parse_def Let_def
    by (simp only: if_True if_False not_False_eq_True) blast
qed

lemma nb_parse_idle:
  assumes "frame_accepted rx" "rx ! OFF_TYPE = DSPI_TYPE_IDLE"
  shows "nb_parse rx l = ((True, rx ! OFF_FLAGS AND DSPI_FLAG_MORE \<noteq> 0), l)"
  using assms by (simp add: nb_parse_def frame_accepted_nb Let_def)

lemma nb_parse_frame:
  assumes "frame_accepted rx" "rx ! OFF_TYPE \<noteq> DSPI_TYPE_IDLE"
  shows "nb_parse rx l = ((True, rx ! OFF_FLAGS AND DSPI_FLAG_MORE \<noteq> 0),
    (let l' = upd_stats (\<lambda>s. s\<lparr>st_frames_rx := st_frames_rx s + 1\<rparr>) l in
     if answers (frame_nb rx) l then l'\<lparr>nb_pending_reply := frame_nb rx, nb_have_reply := True\<rparr>
     else l'\<lparr>nb_on_frame := nb_on_frame l @ [frame_nb rx]\<rparr>))"
  using assms by (simp add: nb_parse_def frame_accepted_nb Let_def answers_def)

lemma nb_parse_ok: "fst (nb_parse rx l) = (frame_accepted rx, frame_accepted rx \<and> rx ! OFF_FLAGS AND DSPI_FLAG_MORE \<noteq> 0)"
proof (cases "frame_accepted rx")
  case True
  then show ?thesis by (cases "rx ! OFF_TYPE = DSPI_TYPE_IDLE") (simp_all add: nb_parse_idle nb_parse_frame)
next
  case False
  then obtain f where "nb_parse rx l = ((False, False), upd_stats f l)" using nb_parse_refused by blast
  with False show ?thesis by simp
qed

text \<open>Parsing touches only the statistics, the rendezvous and the callback record.\<close>

lemma nb_parse_keeps [simp]:
  "nb_tx_queue (snd (nb_parse rx l)) = nb_tx_queue l" "nb_awaiting (snd (nb_parse rx l)) = nb_awaiting l"
  "nb_pending_type (snd (nb_parse rx l)) = nb_pending_type l"
  "st_spi_errors (nb_stats (snd (nb_parse rx l))) = st_spi_errors (nb_stats l)"
  "st_frames_tx (nb_stats (snd (nb_parse rx l))) = st_frames_tx (nb_stats l)"
  "st_exchanges (nb_stats (snd (nb_parse rx l))) = st_exchanges (nb_stats l)"
  by (simp_all add: nb_parse_def Let_def)

lemma pop_tx_keeps [simp]:
  "nb_awaiting (snd (pop_tx l)) = nb_awaiting l" "nb_pending_type (snd (pop_tx l)) = nb_pending_type l"
  "nb_have_reply (snd (pop_tx l)) = nb_have_reply l" "nb_pending_reply (snd (pop_tx l)) = nb_pending_reply l"
  "nb_on_frame (snd (pop_tx l)) = nb_on_frame l" "nb_stats (snd (pop_tx l)) = nb_stats l"
  "nb_tx_queue (snd (pop_tx l)) = tl (nb_tx_queue l)"
  by (simp_all add: pop_tx_def split: list.splits)

text \<open>The frame an exchange clocks out, given the queue.\<close>

fun clocked :: "nb_frame list \<Rightarrow> bytes" where
  "clocked [] = nb_idle_frame"
| "clocked (f # q) = nb_build_frame (fr_type f) (Some (fr_payload f)) (fr_len f) (q \<noteq> [])"

lemma nb_exchange_failed:
  "nb_exchange None l = ((clocked (nb_tx_queue l), False, False),
     upd_stats (\<lambda>s. s\<lparr>st_spi_errors := st_spi_errors s + 1\<rparr>) (l\<lparr>nb_tx_queue := tl (nb_tx_queue l)\<rparr>))"
  by (cases "nb_tx_queue l") (simp_all add: nb_exchange_def pop_tx_def)

definition exchange_counted :: "nb_link \<Rightarrow> nb_link" where
  "exchange_counted l =
     upd_stats (\<lambda>s. s\<lparr>st_exchanges := st_exchanges s + 1,
       st_frames_tx := st_frames_tx s + (if nb_tx_queue l = [] then 0 else 1)\<rparr>)
       (l\<lparr>nb_tx_queue := tl (nb_tx_queue l)\<rparr>)"

lemma exchange_counted_simps [simp]:
  "nb_tx_queue (exchange_counted l) = tl (nb_tx_queue l)"
  "nb_pending_reply (exchange_counted l) = nb_pending_reply l" "nb_pending_type (exchange_counted l) = nb_pending_type l"
  "nb_awaiting (exchange_counted l) = nb_awaiting l" "nb_have_reply (exchange_counted l) = nb_have_reply l"
  "nb_on_frame (exchange_counted l) = nb_on_frame l"
  by (simp_all add: exchange_counted_def)

lemma nb_exchange_ok:
  "nb_exchange (Some rx) l = ((clocked (nb_tx_queue l), fst (nb_parse rx (exchange_counted l))),
     snd (nb_parse rx (exchange_counted l)))"
proof (cases "nb_tx_queue l")
  case Nil
  then have "exchange_counted l = upd_stats (\<lambda>s. s\<lparr>st_exchanges := st_exchanges s + 1\<rparr>) l"
    by (simp add: exchange_counted_def upd_stats_def)
  with Nil show ?thesis
    by (simp add: nb_exchange_def pop_tx_def case_prod_beta Let_def)
next
  case (Cons f q)
  then have "exchange_counted l = upd_stats (\<lambda>s. s\<lparr>st_frames_tx := st_frames_tx s + 1\<rparr>)
      (upd_stats (\<lambda>s. s\<lparr>st_exchanges := st_exchanges s + 1\<rparr>) (l\<lparr>nb_tx_queue := q\<rparr>))"
    by (simp add: exchange_counted_def upd_stats_def)
  with Cons show ?thesis
    by (simp add: nb_exchange_def pop_tx_def case_prod_beta Let_def)
qed

lemma nb_exchange_keeps [simp]:
  "nb_tx_queue (snd (nb_exchange bus l)) = tl (nb_tx_queue l)"
  "nb_awaiting (snd (nb_exchange bus l)) = nb_awaiting l"
  "nb_pending_type (snd (nb_exchange bus l)) = nb_pending_type l"
  "fst (fst (nb_exchange bus l)) = clocked (nb_tx_queue l)"
  by (cases bus; simp add: nb_exchange_failed nb_exchange_ok)+

section \<open>The outbound order\<close>

lemma nb_exchanges_Cons [simp]:
  "nb_exchanges (bus # buses) l = (clocked (nb_tx_queue l) # fst (nb_exchanges buses (snd (nb_exchange bus l))),
     snd (nb_exchanges buses (snd (nb_exchange bus l))))"
  by (simp add: case_prod_beta Let_def)

declare nb_exchanges.simps(2) [simp del]

lemma nb_exchanges_queue: "nb_tx_queue (snd (nb_exchanges buses l)) = drop (length buses) (nb_tx_queue l)"
  by (induction buses arbitrary: l) (simp_all add: drop_Suc)

lemma nb_exchanges_keeps [simp]:
  "nb_awaiting (snd (nb_exchanges buses l)) = nb_awaiting l"
  "nb_pending_type (snd (nb_exchanges buses l)) = nb_pending_type l"
  by (induction buses arbitrary: l) simp_all

lemma nb_exchanges_clocked:
  "fst (nb_exchanges buses l) = map (\<lambda>i. clocked (drop i (nb_tx_queue l))) [0..<length buses]"
proof (induction buses arbitrary: l)
  case (Cons bus buses)
  have "map (\<lambda>i. clocked (drop i (nb_tx_queue l))) [0..<Suc (length buses)] =
      clocked (nb_tx_queue l) # map (\<lambda>i. clocked (drop (Suc i) (nb_tx_queue l))) [0..<length buses]"
    by (simp add: upt_conv_Cons map_Suc_upt [symmetric] del: upt_Suc)
  with Cons show ?case by (simp add: drop_Suc)
qed simp

lemma clocked_drop:
  "clocked (drop i q) = (if i < length q
     then nb_build_frame (fr_type (q ! i)) (Some (fr_payload (q ! i))) (fr_len (q ! i)) (Suc i < length q)
     else nb_idle_frame)"
proof (cases "i < length q")
  case True
  then have "drop i q = q ! i # drop (Suc i) q" by (rule Cons_nth_drop_Suc [symmetric])
  with True show ?thesis by (simp add: not_le)
qed simp

definition nb_queued :: "u8 \<Rightarrow> bytes option \<Rightarrow> nat \<Rightarrow> nb_frame" where
  "nb_queued ty payload len = \<lparr>fr_type = ty, fr_len = of_nat len, fr_flags = 0,
     fr_payload = (case payload of None \<Rightarrow> replicate 58 0
       | Some p \<Rightarrow> if len > 0 then memcpy_at 0 (take len p) (replicate 58 0) else replicate 58 0)\<rparr>"

lemma nb_send_accepted:
  assumes "len \<le> 58" "length (nb_tx_queue l) < depth"
  shows "nb_send depth ty payload len l = (True, l\<lparr>nb_tx_queue := nb_tx_queue l @ [nb_queued ty payload len]\<rparr>)"
  using assms by (simp add: nb_send_def Let_def nb_queued_def)

lemma nb_send_queues:
  assumes "length p \<le> 58" "length (nb_tx_queue l) < depth"
  shows "nb_send depth ty (Some p) (length p) l = (True, l\<lparr>nb_tx_queue := nb_tx_queue l @
    [\<lparr>fr_type = ty, fr_len = of_nat (length p), fr_flags = 0, fr_payload = pad_payload p\<rparr>]\<rparr>)"
proof -
  have "memcpy_at 0 p (replicate 58 0) = pad_payload p" using assms(1)
    by (simp add: memcpy_at_def pad_payload_def)
  then show ?thesis using assms
    by (simp add: nb_send_def Let_def) (simp add: pad_payload_def)
qed

section \<open>What a request returns\<close>

text \<open>While a request waits, whatever sits in the rendezvous is an accepted reply frame of its type.\<close>

definition reply_from :: "bytes set \<Rightarrow> u8 \<Rightarrow> nb_frame \<Rightarrow> bool" where
  "reply_from rxs ty f \<longleftrightarrow> (\<exists>rx\<in>rxs. frame_accepted rx \<and> frame_nb rx = f) \<and> fr_type f = ty \<and>
     fr_type f \<noteq> DSPI_TYPE_IDLE \<and> fr_flags f AND DSPI_FLAG_REPLY \<noteq> 0"

definition rendezvous_ok :: "bytes set \<Rightarrow> nb_link \<Rightarrow> bool" where
  "rendezvous_ok rxs l \<longleftrightarrow> (nb_have_reply l \<longrightarrow> reply_from rxs (nb_pending_type l) (nb_pending_reply l))"

lemma rendezvous_parse:
  assumes "rendezvous_ok rxs l" "rx \<in> rxs"
  shows "rendezvous_ok rxs (snd (nb_parse rx l))"
proof (cases "frame_accepted rx")
  case False
  then obtain f where "nb_parse rx l = ((False, False), upd_stats f l)" using nb_parse_refused by blast
  with assms(1) show ?thesis by (simp add: rendezvous_ok_def)
next
  case acc: True
  show ?thesis
  proof (cases "rx ! OFF_TYPE = DSPI_TYPE_IDLE")
    case True
    with acc assms(1) show ?thesis by (simp add: nb_parse_idle)
  next
    case False
    with acc assms show ?thesis
      by (auto simp: nb_parse_frame Let_def rendezvous_ok_def reply_from_def answers_def)
  qed
qed

lemma rendezvous_exchange:
  assumes "rendezvous_ok rxs l" "set_option bus \<subseteq> rxs"
  shows "rendezvous_ok rxs (snd (nb_exchange bus l))"
proof (cases bus)
  case None
  with assms(1) show ?thesis by (simp add: nb_exchange_failed rendezvous_ok_def)
next
  case (Some rx)
  have "rendezvous_ok rxs (exchange_counted l)" using assms(1) by (simp add: rendezvous_ok_def)
  with Some assms(2) show ?thesis by (simp add: nb_exchange_ok rendezvous_parse)
qed

lemma rendezvous_exchanges:
  assumes "rendezvous_ok rxs l" "\<Union> (set_option ` set buses) \<subseteq> rxs"
  shows "rendezvous_ok rxs (snd (nb_exchanges buses l))"
  using assms by (induction buses arbitrary: l) (auto intro: rendezvous_exchange)

text \<open>A reply in hand is never lost while the request still waits.\<close>

lemma have_reply_stays: "nb_have_reply l \<Longrightarrow> nb_have_reply (snd (nb_exchange bus l))"
proof (cases bus)
  case (Some rx)
  assume h: "nb_have_reply l"
  have "nb_have_reply (snd (nb_parse rx l'))" if "nb_have_reply l'" for l'
    using that by (simp add: nb_parse_def Let_def)
  with Some h show ?thesis by (simp add: nb_exchange_ok)
qed (simp add: nb_exchange_failed)

lemma have_reply_stays_exchanges: "nb_have_reply l \<Longrightarrow> nb_have_reply (snd (nb_exchanges buses l))"
  by (induction buses arbitrary: l) (simp_all add: have_reply_stays)

text \<open>A bus answer that answers a request of type \<open>ty\<close>.\<close>

definition replying :: "u8 \<Rightarrow> bytes option \<Rightarrow> bool" where
  "replying ty bus \<longleftrightarrow> (case bus of None \<Rightarrow> False | Some rx \<Rightarrow> reply_from {rx} ty (frame_nb rx))"

lemma replying_sets:
  assumes "replying (nb_pending_type l) bus" "nb_awaiting l"
  shows "nb_have_reply (snd (nb_exchange bus l))"
  using assms
  by (auto simp: replying_def reply_from_def nb_exchange_ok nb_parse_frame answers_def Let_def split: option.splits)

lemma not_replying_keeps:
  assumes "\<not> replying (nb_pending_type l) bus" "\<not> nb_have_reply l"
  shows "\<not> nb_have_reply (snd (nb_exchange bus l))"
proof (cases bus)
  case None
  with assms show ?thesis by (simp add: nb_exchange_failed)
next
  case (Some rx)
  show ?thesis
  proof (cases "frame_accepted rx")
    case False
    then obtain f where "nb_parse rx (exchange_counted l) = ((False, False), upd_stats f (exchange_counted l))"
      using nb_parse_refused by blast
    with Some assms(2) show ?thesis by (simp add: nb_exchange_ok)
  next
    case acc: True
    show ?thesis
    proof (cases "rx ! OFF_TYPE = DSPI_TYPE_IDLE")
      case True
      with acc Some assms(2) show ?thesis by (simp add: nb_exchange_ok nb_parse_idle)
    next
      case False
      with acc Some assms show ?thesis
        by (auto simp: nb_exchange_ok nb_parse_frame Let_def replying_def reply_from_def answers_def)
    qed
  qed
qed

lemma have_reply_iff:
  assumes "nb_awaiting l" "\<not> nb_have_reply l"
  shows "nb_have_reply (snd (nb_exchanges buses l)) \<longleftrightarrow> list_ex (replying (nb_pending_type l)) buses"
  using assms
proof (induction buses arbitrary: l)
  case (Cons bus buses)
  show ?case
  proof (cases "replying (nb_pending_type l) bus")
    case True
    with Cons.prems show ?thesis by (simp add: replying_sets have_reply_stays_exchanges)
  next
    case False
    with Cons show ?thesis by (simp add: not_replying_keeps)
  qed
qed simp

lemma nb_parse_timeouts [simp]:
  "st_request_timeouts (nb_stats (snd (nb_parse rx l))) = st_request_timeouts (nb_stats l)"
  by (simp add: nb_parse_def Let_def)

lemma nb_exchanges_timeouts [simp]:
  "st_request_timeouts (nb_stats (snd (nb_exchanges buses l))) = st_request_timeouts (nb_stats l)"
proof (induction buses arbitrary: l)
  case (Cons bus buses)
  have "st_request_timeouts (nb_stats (snd (nb_exchange bus l))) = st_request_timeouts (nb_stats l)"
    by (cases bus) (simp_all add: nb_exchange_failed nb_exchange_ok exchange_counted_def)
  with Cons show ?case by simp
qed simp

text \<open>One attempt, with room in the queue: the state the wait starts from.\<close>

definition armed :: "u8 \<Rightarrow> bytes option \<Rightarrow> nat \<Rightarrow> nb_link \<Rightarrow> nb_link" where
  "armed ty payload len l = l\<lparr>nb_pending_type := ty, nb_have_reply := False, nb_awaiting := True,
     nb_tx_queue := nb_tx_queue l @ [nb_queued ty payload len]\<rparr>"

lemma armed_simps [simp]:
  "nb_pending_type (armed ty payload len l) = ty" "\<not> nb_have_reply (armed ty payload len l)"
  "nb_awaiting (armed ty payload len l)" "nb_stats (armed ty payload len l) = nb_stats l"
  "nb_tx_queue (armed ty payload len l) = nb_tx_queue l @ [nb_queued ty payload len]"
  by (simp_all add: armed_def)

lemma nb_attempts_Cons:
  assumes "len \<le> 58" "length (nb_tx_queue l) < depth"
  shows "nb_attempts depth ty payload len attempt (buses # waits) l =
    (let l' = (snd (nb_exchanges buses (armed ty payload len l)))\<lparr>nb_awaiting := False\<rparr> in
     if list_ex (replying ty) buses then
       (Some (nb_pending_reply l'),
        if attempt > 0 then upd_stats (\<lambda>s. s\<lparr>st_request_retries := st_request_retries s + 1\<rparr>) l' else l')
     else nb_attempts depth ty payload len (Suc attempt) waits l')"
proof -
  have s: "nb_send depth ty payload len (l\<lparr>nb_pending_type := ty, nb_have_reply := False, nb_awaiting := True\<rparr>) =
      (True, armed ty payload len l)"
    using assms by (simp add: nb_send_accepted armed_def)
  have h: "nb_have_reply (snd (nb_exchanges buses (armed ty payload len l))) = list_ex (replying ty) buses"
    using have_reply_iff [of "armed ty payload len l" buses] by simp
  show ?thesis by (simp add: s h Let_def)
qed

lemma nb_attempts_result:
  assumes "len \<le> 58" "length (nb_tx_queue l) + length waits \<le> depth"
    and "\<Union> (set_option ` \<Union> (set ` set waits)) \<subseteq> rxs"
  shows "case nb_attempts depth ty payload len attempt waits l of
      (Some f, l') \<Rightarrow> list_ex (list_ex (replying ty)) waits \<and> reply_from rxs ty f \<and>
        st_request_timeouts (nb_stats l') = st_request_timeouts (nb_stats l)
    | (None, l') \<Rightarrow> \<not> list_ex (list_ex (replying ty)) waits \<and>
        st_request_timeouts (nb_stats l') = st_request_timeouts (nb_stats l) + 1"
  using assms
proof (induction waits arbitrary: l attempt)
  case (Cons buses waits)
  let ?a = "armed ty payload len l"
  let ?l = "(snd (nb_exchanges buses ?a))\<lparr>nb_awaiting := False\<rparr>"
  have room: "length (nb_tx_queue l) < depth" using Cons.prems(2) by simp
  have rz: "rendezvous_ok rxs (snd (nb_exchanges buses ?a))"
    using Cons.prems(3) by (intro rendezvous_exchanges) (auto simp: rendezvous_ok_def)
  have hr: "nb_have_reply (snd (nb_exchanges buses ?a)) = list_ex (replying ty) buses"
    using have_reply_iff [of ?a buses] by simp
  have "length (nb_tx_queue ?l) + length waits \<le> depth"
    using Cons.prems(2) by (simp add: nb_exchanges_queue)
  note ih = Cons.IH [OF Cons.prems(1) this, of "Suc attempt"]
  show ?case
  proof (cases "list_ex (replying ty) buses")
    case True
    with rz hr have "reply_from rxs ty (nb_pending_reply (snd (nb_exchanges buses ?a)))"
      by (simp add: rendezvous_ok_def)
    with True show ?thesis
      by (simp add: nb_attempts_Cons [OF Cons.prems(1) room] Let_def del: nb_attempts.simps)
  next
    case False
    with ih Cons.prems(3) show ?thesis
      by (simp add: nb_attempts_Cons [OF Cons.prems(1) room] Let_def del: nb_attempts.simps
            split: prod.splits option.splits)
  qed
qed simp

lemma nb_attempts_not_awaiting:
  "\<not> nb_awaiting l \<Longrightarrow> \<not> nb_awaiting (snd (nb_attempts depth ty payload len attempt waits l))"
proof (induction waits arbitrary: l attempt)
  case (Cons buses waits)
  then show ?case by (simp add: Let_def case_prod_beta)
qed simp

section \<open>Splitting a frame into messages\<close>

lemma cs_messages_cover:
  assumes "0 < chunk" "base \<le> 64"
  shows "concat (cs_messages chunk base) = [base..<64]"
  using assms
proof (induction chunk base rule: cs_messages.induct)
  case (1 chunk base)
  show ?case
  proof (cases "base < 64")
    case False
    then have "cs_messages chunk base = []" by (simp add: cs_messages.simps)
    with False show ?thesis by simp
  next
    case True
    have hd: "map (\<lambda>i. base + i) [0..<n] = [base..<base + n]" for n
      by (induction n) simp_all
    show ?thesis
    proof (cases "base + chunk \<le> 64")
      case le: True
      then have "concat (cs_messages chunk (base + chunk)) = [base + chunk..<64]" using 1 True by simp
      moreover have "min chunk (64 - base) = chunk" using le by simp
      moreover have "[base..<base + chunk] @ [base + chunk..<64] = [base..<64]"
        using le by (metis le_add1 le_add_diff_inverse upt_add_eq_append)
      ultimately show ?thesis using True 1(2) by (simp add: cs_messages.simps [of chunk base] hd)
    next
      case False
      then have "cs_messages chunk (base + chunk) = []" by (simp add: cs_messages.simps)
      moreover have "min chunk (64 - base) = 64 - base" using False by simp
      ultimately show ?thesis using True 1(2) by (simp add: cs_messages.simps [of chunk base] hd)
    qed
  qed
qed

lemma transfer_covers_frame: "concat (transfer_cs_per_byte cfg) = [0..<64]"
  unfolding transfer_cs_per_byte_def by (rule cs_messages_cover) auto

lemma cs_messages_sizes: "m \<in> set (cs_messages chunk base) \<Longrightarrow> m \<noteq> [] \<and> length m \<le> chunk"
proof (induction chunk base rule: cs_messages.induct)
  case (1 chunk base)
  then show ?case
    by (cases "base < 64 \<and> 0 < chunk") (auto simp: cs_messages.simps [of chunk base])
qed


section \<open>The service loop\<close>

lemma nb_burst_Cons:
  "nb_burst ((bus, irq) # sched) l =
     (if \<not> fst (snd (fst (nb_exchange bus l))) then snd (nb_exchange bus l)
      else if snd (snd (fst (nb_exchange bus l))) \<or> irq \<or> tl (nb_tx_queue l) \<noteq> []
      then nb_burst sched (snd (nb_exchange bus l)) else snd (nb_exchange bus l))"
  by (simp add: case_prod_beta Let_def)

text \<open>As long as the bus answers with accepted frames, a round does not end before the queue is empty.\<close>

lemma nb_burst_drains:
  assumes "list_all (\<lambda>(bus, irq). \<exists>rx. bus = Some rx \<and> frame_accepted rx) sched"
    and "length (nb_tx_queue l) \<le> length sched"
  shows "nb_tx_queue (nb_burst sched l) = []"
  using assms
proof (induction sched arbitrary: l)
  case (Cons x sched)
  obtain rx irq where x: "x = (Some rx, irq)" and acc: "frame_accepted rx"
    using Cons.prems(1) by (cases x) auto
  have ok: "fst (snd (fst (nb_exchange (Some rx) l)))" using acc by (simp add: nb_exchange_ok nb_parse_ok)
  show ?case
  proof (cases "snd (snd (fst (nb_exchange (Some rx) l))) \<or> irq \<or> tl (nb_tx_queue l) \<noteq> []")
    case True
    have "nb_tx_queue (nb_burst sched (snd (nb_exchange (Some rx) l))) = []"
      using Cons.prems by (intro Cons.IH) auto
    with ok True show ?thesis by (simp add: x nb_burst_Cons del: nb_burst.simps)
  next
    case False
    with ok show ?thesis by (simp add: x nb_burst_Cons del: nb_burst.simps)
  qed
qed simp

section \<open>Clocks\<close>

definition tm_ok :: "nb_tm \<Rightarrow> bool" where
  "tm_ok t \<longleftrightarrow> 70 \<le> tm_year t \<and> tm_year t < 63636 \<and> 0 \<le> tm_mon t \<and> tm_mon t < 12 \<and> 1 \<le> tm_mday t \<and>
     tm_mday t \<le> 31 \<and> 0 \<le> tm_hour t \<and> tm_hour t < 24 \<and> 0 \<le> tm_min t \<and> tm_min t < 60 \<and> 0 \<le> tm_sec t \<and>
     tm_sec t < 60"

lemma tm_wire_roundtrip:
  assumes "tm_ok t"
  shows "wire_to_tm (tm_to_wire t) = Some (t\<lparr>tm_wday := 0\<rparr>)"
proof -
  have u16: "uint (of_int k :: u16) = k" if "0 \<le> k" "k < 65536" for k
    using that by (simp add: uint_word_of_int take_bit_int_eq_self)
  have u8: "uint (of_int k :: u8) = k" if "0 \<le> k" "k < 256" for k
    using that by (simp add: uint_word_of_int take_bit_int_eq_self)
  show ?thesis using assms
    by (simp add: wire_to_tm_def tm_to_wire_def tm_ok_def word_less_def u16 u8 del: of_int_add)
qed

text \<open>The link after one hourly check, in the two cases the policy separates.\<close>

lemma nbService_from_rtc:
  assumes "app_clock_from_rtc a"
  shows "app_link (nbService quick request sys now_ms a) = app_link a \<and>
    app_clock_from_rtc (nbService quick request sys now_ms a)"
  using assms by (simp add: nbService_def Let_def)

fun nb_services :: "nb_requester \<Rightarrow> nb_requester \<Rightarrow> (nb_sys \<times> u32) list \<Rightarrow> nb_app \<Rightarrow> nb_app" where
  "nb_services quick request [] a = a"
| "nb_services quick request ((sys, now_ms) # xs) a =
     nb_services quick request xs (nbService quick request sys now_ms a)"

lemma nb_services_from_rtc:
  "app_clock_from_rtc a \<Longrightarrow> app_link (nb_services quick request xs a) = app_link a"
  by (induction xs arbitrary: a) (auto simp: nbService_from_rtc)

lemma nbAdopt_sets_flag:
  "nbAdoptRtcTime request sys a = ((True, e), a') \<Longrightarrow> app_clock_from_rtc a'"
  by (auto simp: nbAdoptRtcTime_def Let_def split: prod.splits option.splits if_splits)

section \<open>Properties\<close>

text \<open>the host's frames go out in the order they were queued, one per exchange whatever the bus does,
  each announcing in its MORE flag whether another is queued behind it; an exchange with nothing queued
  clocks out the idle frame.\<close>

theorem nb_exchanges_fifo:
  "fst (nb_exchanges buses l) =
     map (\<lambda>i. let q = nb_tx_queue l in
            if i < length q
            then nb_build_frame (fr_type (q ! i)) (Some (fr_payload (q ! i))) (fr_len (q ! i)) (Suc i < length q)
            else nb_idle_frame)
       [0..<length buses]
   \<and> nb_tx_queue (snd (nb_exchanges buses l)) = drop (length buses) (nb_tx_queue l)"
  by (simp add: nb_exchanges_clocked nb_exchanges_queue clocked_drop Let_def)

text \<open>C23: with room in the queue, a request returns a reply exactly when some wait saw an accepted frame
  with the request's type and the REPLY flag; what it returns is such a frame, taken from its own waits,
  and otherwise the timeout is counted.\<close>

theorem nb_request_result:
  assumes "len \<le> DSPI_PAYLOAD_MAX" and "length (nb_tx_queue l) + max 1 attempts \<le> depth"
  shows "case nb_request depth ty payload len attempts waits l of
      (Some f, l') \<Rightarrow> (\<exists>k<max 1 attempts. list_ex (replying ty) (waits k)) \<and>
        reply_from (\<Union>k<max 1 attempts. \<Union> (set_option ` set (waits k))) ty f \<and>
        st_request_timeouts (nb_stats l') = st_request_timeouts (nb_stats l)
    | (None, l') \<Rightarrow> (\<forall>k<max 1 attempts. list_all (\<lambda>b. \<not> replying ty b) (waits k)) \<and>
        st_request_timeouts (nb_stats l') = st_request_timeouts (nb_stats l) + 1"
proof -
  let ?rxs = "\<Union>k<max 1 attempts. \<Union> (set_option ` set (waits k))"
  let ?w = "map waits [0..<max 1 attempts]"
  have sub: "\<Union> (set_option ` \<Union> (set ` set ?w)) \<subseteq> ?rxs" by auto
  have ex: "list_ex (list_ex (replying ty)) ?w \<longleftrightarrow> (\<exists>k<max 1 attempts. list_ex (replying ty) (waits k))"
    by (auto simp: list_ex_iff)
  have all: "list_all (\<lambda>b. \<not> replying ty b) xs \<longleftrightarrow> \<not> list_ex (replying ty) xs" for xs
    by (simp add: list_all_iff list_ex_iff)
  have len: "length (nb_tx_queue l) + length ?w \<le> depth" using assms(2) by simp
  show ?thesis
    using nb_attempts_result [OF assms(1) len sub, where ty = ty and payload = payload and attempt = 0]
    unfolding nb_request_def ex all by (auto split: prod.splits option.splits)
qed

definition ping_reply :: bytes where
  "ping_reply = dspi_build_frame 0x01 (Some [7, 9]) 2 False 2"

lemma ping_reply_replying: "replying 0x01 (Some ping_reply)"
  using dspi_build_frame_fields [of 2 "0x01" "Some [7, 9]" False 2]
  by (simp add: ping_reply_def replying_def reply_from_def)

lemma nb_request_result_witness:
  "\<exists>f l'. nb_request 32 0x01 (Some [7, 9]) 2 3 (\<lambda>k. if k = 1 then [None, Some ping_reply] else [None]) nb_boot =
     (Some f, l') \<and> reply_from {ping_reply} 0x01 f"
proof -
  let ?w = "\<lambda>k::nat. if k = 1 then [None, Some ping_reply] else [None]"
  have n: "\<not> list_all (\<lambda>b. \<not> replying 0x01 b) (?w 1)" using ping_reply_replying by simp
  have u: "(\<Union>k<max 1 3. \<Union> (set_option ` set (?w k))) = {ping_reply}"
  proof -
    have "{..<max 1 (3::nat)} = {0, 1, 2}" by auto
    then show ?thesis by simp
  qed
  have r: "2 \<le> DSPI_PAYLOAD_MAX" "length (nb_tx_queue nb_boot) + max 1 3 \<le> 32" by (simp_all add: nb_boot_def)
  obtain q l' where q: "nb_request 32 0x01 (Some [7, 9]) 2 3 ?w nb_boot = (q, l')" 
    by (cases "nb_request 32 0x01 (Some [7, 9]) 2 3 ?w nb_boot")
  note res = nb_request_result [OF r, where ty = "0x01" and payload = "Some [7, 9]" and waits = ?w]
  show ?thesis
  proof (cases q)
    case None
    with res q have "\<forall>k<max 1 3. list_all (\<lambda>b. \<not> replying 0x01 b) (?w k)" by simp
    from this [rule_format, of 1] have "list_all (\<lambda>b. \<not> replying 0x01 b) (?w 1)" by simp
    with n show ?thesis by blast
  next
    case (Some f)
    with res q u have "reply_from {ping_reply} 0x01 f" by simp
    with q Some show ?thesis by blast
  qed
qed

text \<open>a reply that arrives after its request has given up is not swallowed: it reaches the general frame
  callback like an unsolicited event.\<close>

theorem nb_late_reply_reaches_callback:
  assumes "nb_request depth ty payload len attempts waits l = (None, l')" and "\<not> nb_awaiting l"
    and "replying ty (Some rx)"
  shows "nb_on_frame (snd (nb_exchange (Some rx) l')) = nb_on_frame l' @ [frame_nb rx]"
proof -
  have "\<not> nb_awaiting l'"
    using nb_attempts_not_awaiting [OF assms(2)] assms(1) unfolding nb_request_def by (metis snd_conv)
  then show ?thesis using assms(3)
    by (auto simp: replying_def reply_from_def nb_exchange_ok nb_parse_frame answers_def Let_def)
qed

lemma nb_late_reply_reaches_callback_witness:
  "nb_on_frame (snd (nb_exchange (Some ping_reply)
      (snd (nb_request 32 0x01 (Some [7, 9]) 2 1 (\<lambda>k. [None]) nb_boot)))) = [frame_nb ping_reply]"
proof -
  have r: "nb_request 32 0x01 (Some [7, 9]) 2 1 (\<lambda>k. [None]) nb_boot =
      (None, snd (nb_request 32 0x01 (Some [7, 9]) 2 1 (\<lambda>k. [None]) nb_boot))"
    and o: "nb_on_frame (snd (nb_request 32 0x01 (Some [7, 9]) 2 1 (\<lambda>k. [None]) nb_boot)) = []"
    by (simp_all add: nb_request_def nb_boot_def nb_send_def nb_exchange_failed Let_def)
  show ?thesis
    using nb_late_reply_reaches_callback [OF r _ ping_reply_replying] o by (simp add: nb_boot_def)
qed

text \<open>the hourly check. When the clock source is not the RTC, a due check whose RTC reading is off by more
  than 30 s sends the system time with SET_TIME, and within 30 s sends nothing; once the system clock was
  adopted from the RTC no check ever contacts the northbridge again, however far the clocks drift.\<close>

theorem nb_service_policy:
  assumes "app_online a" "iw_features (app_info a) AND 1 \<noteq> 0" "app_last_clock_check a = 0"
    and "quick NB_CMD_GET_TIME [] (app_link a) = (Some reply, l)"
    and "payload_of 10 dec_time_wire reply = Some rtc" "wire_to_tm rtc = Some t"
    and "0 < sys_timegm sys t" "0 < sys_now sys" "2025 \<le> tm_year (sys_tm sys) + 1900"
  shows "(\<not> app_clock_from_rtc a \<longrightarrow>
      app_link (nbService quick request sys now_ms a) =
        (if \<bar>sys_now sys - sys_timegm sys t\<bar> > 30
         then snd (request NB_CMD_SET_TIME (enc_time_wire (tm_to_wire (sys_tm sys))) l) else l)) \<and>
    (app_clock_from_rtc a \<longrightarrow> app_link (nb_services quick request xs a) = app_link a)"
proof (intro conjI impI)
  assume "\<not> app_clock_from_rtc a"
  moreover have "(if sys_now sys > sys_timegm sys t then sys_now sys - sys_timegm sys t
      else sys_timegm sys t - sys_now sys) = \<bar>sys_now sys - sys_timegm sys t\<bar>" by auto
  ultimately show "app_link (nbService quick request sys now_ms a) =
      (if \<bar>sys_now sys - sys_timegm sys t\<bar> > 30
       then snd (request NB_CMD_SET_TIME (enc_time_wire (tm_to_wire (sys_tm sys))) l) else l)"
    using assms
    by (simp add: nbService_def nbReadTime_def nbPushSystemTime_def Let_def split: prod.splits option.splits)
next
  assume "app_clock_from_rtc a"
  then show "app_link (nb_services quick request xs a) = app_link a" by (rule nb_services_from_rtc)
qed

definition sample_time :: nb_time_wire where
  "sample_time = \<lparr>tw_year = 2026, tw_month = 1, tw_day = 2, tw_hour = 3, tw_minute = 4, tw_second = 5,
     tw_weekday = 6, tw_temp_centi = 2500\<rparr>"

definition sample_app :: nb_app where
  "sample_app = \<lparr>app_online = True,
     app_info = \<lparr>iw_proto_version = 2, iw_fw_major = 1, iw_fw_minor = 0, iw_fw_patch = 0, iw_build_year = 2026,
       iw_build_month = 1, iw_build_day = 1, iw_build_hour = 0, iw_build_minute = 0, iw_build_second = 0,
       iw_uptime_s = 9, iw_board_id = 7, iw_features = 5\<rparr>,
     app_panel = \<lparr>pw_buttons = 0, pw_toggles = 0, pw_leds = 0\<rparr>,
     app_enc = \<lparr>es_position = 0, es_delta = 0, es_pressed = False, es_moved = False, es_button = False\<rparr>,
     app_leds = 0, app_clock_from_rtc = False, app_last_clock_check = 0, app_link = nb_boot\<rparr>"

definition sample_sys :: nb_sys where
  "sample_sys = \<lparr>sys_now = 1767322000,
     sys_tm = \<lparr>tm_year = 126, tm_mon = 0, tm_mday = 2, tm_hour = 3, tm_min = 6, tm_sec = 40, tm_wday = 5\<rparr>,
     sys_timegm = (\<lambda>t. 1767321900 + tm_sec t), sys_can_set = True\<rparr>"

definition sample_reply :: nb_frame where
  "sample_reply = \<lparr>fr_type = 0x13, fr_len = 10, fr_flags = 2,
     fr_payload = enc_time_wire sample_time @ replicate 48 0\<rparr>"

lemma nb_service_policy_witness:
  "app_link (nbService (\<lambda>ty p l. (Some sample_reply, l))
      (\<lambda>ty p l. (None, snd (nb_send 32 ty (Some p) (length p) l))) sample_sys 5000 sample_app) =
    snd (nb_send 32 0x14 (Some (enc_time_wire (tm_to_wire (sys_tm sample_sys)))) 10 nb_boot)"
  using nb_service_policy [where a = sample_app and quick = "\<lambda>ty p l. (Some sample_reply, l)" and l = nb_boot
      and reply = sample_reply and rtc = sample_time and sys = sample_sys and now_ms = 5000 and xs = "[]"
      and t = "\<lparr>tm_year = 126, tm_mon = 0, tm_mday = 2, tm_hour = 3, tm_min = 4, tm_sec = 5, tm_wday = 0\<rparr>"
      and request = "\<lambda>ty p l. (None, snd (nb_send 32 ty (Some p) (length p) l))"]
  by (simp add: sample_app_def sample_sys_def sample_reply_def sample_time_def payload_of_def
      time_wire.dec_enc time_wire.enc_len wire_to_tm_def)

end
