(* ===== verification/NbRoundTrip.thy ===== *)
theory NbRoundTrip
  imports DspiCmd NbLink
begin

text \<open>
  The two ends of the northbridge link put together: the host's \<^verbatim>\<open>LinkImpl\<close> and the firmware's SPI slave
  exchange frames over one bus, with the firmware's task and dispatcher running in between. The
  theorem follows a request through every component and back.
\<close>

section \<open>Both ends on one bus\<close>

record ('q, 'w) nb_world =
  wo_host :: nb_link
  wo_slave :: "'q dspi"
  wo_cmds :: "'w cmds"
  wo_fw :: 'w

datatype nb_act = Clock nat | SlaveTask bool nat | Dispatcher nat

text \<open>The host clocks one frame: each end gets what the other had on the wire. \<open>k\<close> is how much of the next
  frame the slave's FIFO takes when it re-arms.\<close>

fun nb_act_step :: "'q rtos_queue \<Rightarrow> nb_act \<Rightarrow> ('q, 'w) nb_world \<Rightarrow> ('q, 'w) nb_world" where
  "nb_act_step Q (Clock k) x =
     (let ((tx, _, _), host) = nb_exchange (Some (wire_out (wo_slave x))) (wo_host x)
      in x\<lparr>wo_host := host, wo_slave := snd (dspi_event_step Q (Exchange tx k) (wo_slave x))\<rparr>)"
| "nb_act_step Q (SlaveTask ror k) x = x\<lparr>wo_slave := dspi_task_turn Q ror 64 k (wo_slave x)\<rparr>"
| "nb_act_step Q (Dispatcher wait) x =
     (let (c, d, w) = dispatcher_turn Q wait (wo_cmds x) (wo_slave x) (wo_fw x)
      in x\<lparr>wo_cmds := c, wo_slave := d, wo_fw := w\<rparr>)"

fun nb_acts :: "'q rtos_queue \<Rightarrow> nb_act list \<Rightarrow> ('q, 'w) nb_world \<Rightarrow> ('q, 'w) nb_world" where
  "nb_acts Q [] x = x"
| "nb_acts Q (a # as) x = nb_acts Q as (nb_act_step Q a x)"

section \<open>The request's way in\<close>

lemma slave_takes_frame:
  assumes q: "rx_queue d = Some q" "q_send Q 0 (frame_msg f) q = Some q'"
    and bufs: "length (rx_bufs d) = 2" "rx_live d \<in> {0, 1}" and acc: "frame_accepted f" "f ! 1 \<noteq> 0"
  shows "rx_queue (snd (dspi_event_step Q (Exchange f k) d)) = Some q'"
proof -
  let ?d = "d\<lparr>rx_bufs := (rx_bufs d)[unat (rx_live d) := f]\<rparr>"
  have "unat (rx_live d) < 2" using bufs(2) by auto
  then have b: "rx_bufs ?d ! unat (rx_live ?d) = f" using bufs(1) by simp
  have "dspi_rx_frame Q f (isr_rearm k ?d) =
      (isr_rearm k ?d)\<lparr>rx_queue := Some q', rx_count := rx_count (isr_rearm k ?d) + 1\<rparr>"
    using acc q by (simp add: dspi_rx_frame_def frame_accepted_def)
  with b show ?thesis by (simp add: dspi_dma_isr_rearm)
qed

lemma queued_frame_msg:
  fixes has_more :: bool
  assumes "length p \<le> 58" "fr_len f = of_nat (length p)" "fr_payload f = pad_payload p"
  defines "b \<equiv> nb_build_frame (fr_type f) (Some (fr_payload f)) (fr_len f) has_more"
  shows "frame_accepted b" "b ! 1 = fr_type f"
    "frame_msg b = \<lparr>msg_type = fr_type f, msg_len = of_nat (length p),
       msg_flags = (if has_more then 1 else 0), msg_payload = pad_payload p\<rparr>"
proof -
  have u: "unat (of_nat (length p) :: u8) = length p" using assms(1) by (simp add: unat_of_nat_lt)
  have pad: "pad_payload (take (length p) (pad_payload p)) = pad_payload p"
    using assms(1) by (simp add: pad_payload_def)
  show "frame_accepted b" "b ! 1 = fr_type f"
    using assms(1,2) u by (simp_all add: b_def nb_build_frame_fields)
  show "frame_msg b = \<lparr>msg_type = fr_type f, msg_len = of_nat (length p),
       msg_flags = (if has_more then 1 else 0), msg_payload = pad_payload p\<rparr>"
    using assms(1-3) u pad
    by (simp add: b_def nb_build_frame_dspi frame_msg_build used_payload_def)
qed

section \<open>The reply's way out\<close>

lemma wire_after_send:
  assumes laws: "rtos_queue_laws Q items" and rest: "next_tx d = TxIdle" "tx_items items d = []"
    and sent: "fst (dspi_send Q ty (Some p) (length p) wait flags d)"
  shows "wire_out (dspi_task_turn Q r2 64 k3 (snd (dspi_event_step Q (Exchange in1 k2)
      (dspi_task_turn Q r1 64 k1 (snd (dspi_send Q ty (Some p) (length p) wait flags d)))))) =
    msg_frame (sent_msg ty (Some p) (length p) flags) False"
proof -
  let ?evs = "[SendCall ty (Some p) (length p) wait flags, TaskTurn r1 64 k1, Exchange in1 k2,
      TaskTurn r2 64 k3, Exchange [] 0]"
  obtain outs d' where run: "dspi_run Q ?evs d = (outs, d')" by force
  have o: "outs ! 0 = Sent True" "outs ! 4 = Wire (wire_out (dspi_task_turn Q r2 64 k3
      (snd (dspi_event_step Q (Exchange in1 k2)
        (dspi_task_turn Q r1 64 k1 (snd (dspi_send Q ty (Some p) (length p) wait flags d)))))))"
    using run sent
    by (auto simp: run_cons map_prod_def case_prod_beta simp del: dspi_run.simps(2))
  have "outs ! 4 = Wire (msg_frame (sent_msg ty (Some p) (length p) flags) False)"
    by (rule single_send_delivered(1) [OF laws rest _ run o(1)]) simp
  with o(2) show ?thesis by simp
qed

lemma replying_exchange:
  assumes "replying (nb_pending_type l) (Some rx)" "nb_awaiting l"
  shows "nb_have_reply (snd (nb_exchange (Some rx) l)) \<and> nb_pending_reply (snd (nb_exchange (Some rx) l)) = frame_nb rx"
  using assms
  by (auto simp: replying_def reply_from_def nb_exchange_ok nb_parse_frame answers_def Let_def)

lemma reply_frame_replying:
  assumes "ty \<noteq> 0" "length p \<le> 58"
  defines "b \<equiv> msg_frame (sent_msg ty (Some p) (length p) 2) False"
  shows "replying ty (Some b)" "frame_nb b = \<lparr>fr_type = ty, fr_len = of_nat (length p), fr_flags = 2,
    fr_payload = pad_payload p\<rparr>"
proof -
  show f: "frame_nb b = \<lparr>fr_type = ty, fr_len = of_nat (length p), fr_flags = 2, fr_payload = pad_payload p\<rparr>"
    using sent_frame_parses(2) [of "length p" "Some p" ty 2 False] assms(2) by (simp add: b_def)
  show "replying ty (Some b)"
    using sent_frame_parses(1) [of "length p" "Some p" ty 2 False] assms(1,2) f
    by (simp add: b_def replying_def reply_from_def)
qed

section \<open>Properties\<close>

text \<open>C1: a request makes the round trip: armed and queued on an otherwise idle host, clocked into the slave,
  handed by the dispatcher to the handler bound to its type, its reply staged by the task and clocked back
  two exchanges later, the host's rendezvous holds exactly the bytes the handler wrote, and the handler
  ran once.\<close>

theorem nb_request_round_trip:
  assumes "rtos_queue_laws Q items" and "dspi_inv Q items d" and "next_tx d = TxIdle" and "tx_items items d = []"
    and "rx_queue d = Some rq" and "items rq = []" and "tx_queue d = Some tq"
    and "q_send Q 0 \<lparr>msg_type = ty, msg_len = of_nat (length p), msg_flags = 0, msg_payload = pad_payload p\<rparr> rq = Some rq'"
    and "q_send Q 0 (sent_msg ty (Some reply) (length reply) 2) tq \<noteq> None"
    and "ty \<noteq> 0" and "length p \<le> 58" and "nb_tx_queue l = []"
    and "bound ty c = Some f"
    and "f \<lparr>msg_type = ty, msg_len = of_nat (length p), msg_flags = 0, msg_payload = pad_payload p\<rparr> [] w = (reply, w')"
    and "reply \<noteq> []" and "length reply \<le> 58"
  shows "case nb_acts Q [Clock k0, Dispatcher wt, SlaveTask r1 k1, Clock k2, SlaveTask r2 k3, Clock k4]
      \<lparr>wo_host = armed ty (Some p) (length p) l, wo_slave = d, wo_cmds = c, wo_fw = w\<rparr> of x \<Rightarrow>
    nb_have_reply (wo_host x) \<and> wo_fw x = w' \<and> g_handled (wo_cmds x) = g_handled c + 1 \<and>
    nb_pending_reply (wo_host x) =
      \<lparr>fr_type = ty, fr_len = of_nat (length reply), fr_flags = 2, fr_payload = pad_payload reply\<rparr>"
proof -
  let ?req = "\<lparr>msg_type = ty, msg_len = of_nat (length p), msg_flags = 0, msg_payload = pad_payload p\<rparr>"
  let ?h0 = "armed ty (Some p) (length p) l"
  have fill: "nb_queued ty (Some p) (length p) =
      \<lparr>fr_type = ty, fr_len = of_nat (length p), fr_flags = 0, fr_payload = pad_payload p\<rparr>"
    using send_fill [of "length p" "Some p"] assms(11) by (simp add: nb_queued_def)
  define b where "b = clocked (nb_tx_queue ?h0)"
  note msg = queued_frame_msg [of p "nb_queued ty (Some p) (length p)" False]
  have b: "frame_accepted b" "b ! 1 = ty" "frame_msg b = ?req"
    using msg assms(11,12) by (simp_all add: b_def fill)
  define d1 where "d1 = snd (dspi_event_step Q (Exchange b k0) d)"
  have d1: "rx_queue d1 = Some rq'" "next_tx d1 = TxIdle" "tx_items items d1 = []" "tx_queue d1 = Some tq"
    using slave_takes_frame [of d rq Q b rq' k0] b assms(2-5,7,8,10)
    by (auto simp: d1_def dspi_inv_def simp del: dspi_event_step.simps)
  have "items rq' = [?req]" using rtos_send [OF assms(1,8)] assms(6) by simp
  then obtain rq'' where rq'': "q_recv Q wt rq' = Some (?req, rq'')"
    using rtos_recv_cons [OF assms(1)] by blast
  define d2 where "d2 = d1\<lparr>rx_queue := Some rq''\<rparr>"
  have d2: "next_tx d2 = TxIdle" "tx_items items d2 = []"
      "fst (dspi_send Q ty (Some reply) (length reply) 0 2 d2)"
    using d1 assms(9,16) by (auto simp: d2_def tx_items_def dspi_send_eq split: option.splits)
  have disp: "dispatcher_turn Q wt c d1 w = (c\<lparr>g_handled := g_handled c + 1\<rparr>,
      snd (dspi_send Q ty (Some reply) (length reply) 0 2 d2), w')"
    using dispatch_handler [of ?req c f w reply w' Q d2] assms(13-15) d1(1) rq''
    by (simp add: dispatcher_turn_def dspi_receive_def d2_def)
  define h1 where "h1 = snd (nb_exchange (Some (wire_out d)) ?h0)"
  have h1: "nb_tx_queue h1 = []" "nb_awaiting h1" "nb_pending_type h1 = ty" by (simp_all add: h1_def assms(12))
  define d3 where "d3 = dspi_task_turn Q r1 64 k1 (snd (dspi_send Q ty (Some reply) (length reply) 0 2 d2))"
  define h2 where "h2 = snd (nb_exchange (Some (wire_out d3)) h1)"
  have h2: "nb_awaiting h2" "nb_pending_type h2 = ty" by (simp_all add: h2_def h1)
  define d4 where "d4 = dspi_task_turn Q r2 64 k3 (snd (dspi_event_step Q (Exchange nb_idle_frame k2) d3))"
  have w: "wire_out d4 = msg_frame (sent_msg ty (Some reply) (length reply) 2) False"
    unfolding d4_def d3_def by (rule wire_after_send [OF assms(1) d2])
  note r = reply_frame_replying [OF assms(10,16), folded w]
  have fin: "nb_have_reply (snd (nb_exchange (Some (wire_out d4)) h2))"
      "nb_pending_reply (snd (nb_exchange (Some (wire_out d4)) h2)) = frame_nb (wire_out d4)"
    using replying_exchange [of h2 "wire_out d4"] r(1) h2 by simp_all
  have "nb_acts Q [Clock k0, Dispatcher wt, SlaveTask r1 k1, Clock k2, SlaveTask r2 k3, Clock k4]
      \<lparr>wo_host = ?h0, wo_slave = d, wo_cmds = c, wo_fw = w\<rparr> =
    \<lparr>wo_host = snd (nb_exchange (Some (wire_out d4)) h2),
     wo_slave = snd (dspi_event_step Q (Exchange (clocked (nb_tx_queue h2)) k4) d4),
     wo_cmds = c\<lparr>g_handled := g_handled c + 1\<rparr>, wo_fw = w'\<rparr>"
    using disp
    by (simp add: case_prod_beta Let_def d4_def h2_def d3_def h1_def d1_def b_def assms(12)
        del: dspi_event_step.simps)
  then show ?thesis using fin r(2) by simp
qed

lemma nb_request_round_trip_witness:
  "\<forall>w. nb_pending_reply (wo_host (nb_acts (list_queue 8)
      [Clock 8, Dispatcher 0, SlaveTask False 8, Clock 8, SlaveTask False 8, Clock 8]
      \<lparr>wo_host = armed NB_CMD_PING (Some [1, 2]) 2 nb_boot, wo_slave = demo_up, wo_cmds = demo_cmds, wo_fw = w\<rparr>)) =
    \<lparr>fr_type = NB_CMD_PING, fr_len = 2, fr_flags = 2, fr_payload = pad_payload [1, 2]\<rparr>"
proof
  fix w :: "unit fw"
  have inv: "dspi_inv (list_queue 8) (\<lambda>q. q) demo_up"
    by (rule dspi_reach_inv [OF list_queue_laws demo_up_reach])
  have t: "tx_items (\<lambda>q. q) demo_up = []" by (simp add: tx_items_def demo_up_simps)
  have b: "bound NB_CMD_PING demo_cmds = Some on_ping" by (simp add: demo_cmds_def fw_bound)
  have h: "on_ping \<lparr>msg_type = NB_CMD_PING, msg_len = of_nat (length [1, 2 :: u8]), msg_flags = 0,
      msg_payload = pad_payload [1, 2]\<rparr> [] w = ([1, 2], w)"
    by (simp add: on_ping_def reply_write_def pad_payload_def)
  show "nb_pending_reply (wo_host (nb_acts (list_queue 8)
      [Clock 8, Dispatcher 0, SlaveTask False 8, Clock 8, SlaveTask False 8, Clock 8]
      \<lparr>wo_host = armed NB_CMD_PING (Some [1, 2]) 2 nb_boot, wo_slave = demo_up, wo_cmds = demo_cmds, wo_fw = w\<rparr>)) =
    \<lparr>fr_type = NB_CMD_PING, fr_len = 2, fr_flags = 2, fr_payload = pad_payload [1, 2]\<rparr>"
    using nb_request_round_trip [OF list_queue_laws inv demo_up_simps(4) t demo_up_simps(2) refl demo_up_simps(3)
        _ _ _ _ _ b h, where l = nb_boot and ?k0.0 = 8 and wt = 0 and ?r1.0 = False and ?k1.0 = 8 and ?k2.0 = 8
        and ?r2.0 = False and ?k3.0 = 8 and ?k4.0 = 8]
    by (simp add: list_queue_def nb_boot_def numeral_2_eq_2 [symmetric] del: nb_acts.simps)
qed

end
