(* ===== verification/StreamCut.thy ===== *)
theory StreamCut
  imports Prelude
begin

text \<open>
  Cutting a byte stream into self-delimiting records, as libs/usbproto/usbproto.cpp does it twice
  (\<^verbatim>\<open>FrameParser\<close> and \<^verbatim>\<open>StreamAssembler\<close>): look at the front of what is buffered, wait, take a record,
  or search for the next magic. \<^verbatim>\<open>findPattern\<close> and \<^verbatim>\<open>keepTail\<close> are the source's helpers; \<open>cut\<close> is the
  specification both buffers are shown to implement, and the locale \<open>stream_cutter\<close> says what a
  verdict on the front has to satisfy for the cutting not to depend on how the stream was split.
\<close>

section \<open>Searching\<close>

function find_from :: "bytes \<Rightarrow> nat \<Rightarrow> bytes \<Rightarrow> nat" where
  "find_from hay i needle =
     (if i + length needle \<le> length hay \<and> needle \<noteq> [] then
        if hay ! i = needle ! 0 \<and> take (length needle) (drop i hay) = needle then i
        else find_from hay (Suc i) needle
      else length hay)"
  by auto
termination by (relation "measure (\<lambda>(hay, i, needle). length hay - i)") (auto simp: neq_Nil_conv)

declare find_from.simps [simp del]

definition findPattern :: "bytes \<Rightarrow> nat \<Rightarrow> bytes \<Rightarrow> nat" where
  "findPattern hay from needle =
     (if needle = [] \<or> length hay < length needle then length hay else find_from hay from needle)"

definition keepTail :: "nat \<Rightarrow> nat" where
  "keepTail needlelen = (if needlelen > 0 then needlelen - 1 else 0)"

text \<open>The needle stands at offset \<open>j\<close>.\<close>

definition occurs_at :: "bytes \<Rightarrow> bytes \<Rightarrow> nat \<Rightarrow> bool" where
  "occurs_at needle hay j \<longleftrightarrow> take (length needle) (drop j hay) = needle"

lemma occurs_at_bound: "occurs_at needle hay j \<Longrightarrow> needle \<noteq> [] \<Longrightarrow> j + length needle \<le> length hay"
proof -
  assume o: "occurs_at needle hay j" and ne: "needle \<noteq> []"
  have "length (take (length needle) (drop j hay)) = length needle" using o by (simp add: occurs_at_def)
  with ne show ?thesis by (cases "j \<le> length hay") (auto simp: min_def split: if_splits)
qed

lemma occurs_at_hd: "occurs_at needle hay j \<Longrightarrow> needle \<noteq> [] \<Longrightarrow> hay ! j = needle ! 0"
proof -
  assume o: "occurs_at needle hay j" and ne: "needle \<noteq> []"
  have "j + length needle \<le> length hay" using occurs_at_bound [OF o ne] .
  then have "take (length needle) (drop j hay) ! 0 = hay ! j" using ne by (simp add: nth_drop)
  with o show ?thesis by (simp add: occurs_at_def)
qed

lemma occurs_at_drop: "occurs_at needle (drop k hay) j \<longleftrightarrow> occurs_at needle hay (k + j)"
  by (simp add: occurs_at_def add.commute)

lemma occurs_at_append:
  "j + length needle \<le> length hay \<Longrightarrow> occurs_at needle (hay @ x) j \<longleftrightarrow> occurs_at needle hay j"
  by (simp add: occurs_at_def)

text \<open>What the search returns: the first occurrence from \<open>i\<close> on, or the end.\<close>

lemma find_from_first:
  "occurs_at needle hay j \<Longrightarrow> needle \<noteq> [] \<Longrightarrow> i \<le> j \<Longrightarrow> (\<And>k. i \<le> k \<Longrightarrow> k < j \<Longrightarrow> \<not> occurs_at needle hay k) \<Longrightarrow>
     find_from hay i needle = j"
proof (induction hay i needle rule: find_from.induct)
  case (1 hay i needle)
  have b: "j + length needle \<le> length hay" using occurs_at_bound 1 by blast
  show ?case
  proof (cases "i = j")
    case True
    then show ?thesis
      using 1(2,3) b occurs_at_hd [OF 1(2,3)] by (subst find_from.simps) (simp add: occurs_at_def)
  next
    case False
    then have "\<not> occurs_at needle hay i" using 1(4,5) by simp
    then have n: "take (length needle) (drop i hay) \<noteq> needle" by (simp add: occurs_at_def)
    have "find_from hay (Suc i) needle = j" using 1 False b n by (intro 1(1)) auto
    then show ?thesis using n b 1(3,4) by (subst find_from.simps) simp
  qed
qed

lemma find_from_none:
  "(\<And>k. i \<le> k \<Longrightarrow> \<not> occurs_at needle hay k) \<Longrightarrow> find_from hay i needle = length hay"
proof (induction hay i needle rule: find_from.induct)
  case (1 hay i needle)
  have "take (length needle) (drop i hay) \<noteq> needle" using 1(2) [of i] by (simp add: occurs_at_def)
  moreover have "find_from hay (Suc i) needle = length hay"
    if "i + length needle \<le> length hay" "needle \<noteq> []" using 1 that calculation by auto
  ultimately show ?case by (subst find_from.simps) simp
qed

text \<open>Both facts for \<^verbatim>\<open>findPattern\<close>, as a case distinction.\<close>

lemma findPattern_cases:
  assumes "needle \<noteq> []"
  obtains (found) j where "findPattern hay i needle = j" "i \<le> j" "j < length hay" "occurs_at needle hay j"
      "\<And>k. i \<le> k \<Longrightarrow> k < j \<Longrightarrow> \<not> occurs_at needle hay k"
    | (absent) "findPattern hay i needle = length hay" "\<And>k. i \<le> k \<Longrightarrow> \<not> occurs_at needle hay k"
proof (cases "\<exists>j\<ge>i. occurs_at needle hay j")
  case True
  define j where "j = (LEAST j. i \<le> j \<and> occurs_at needle hay j)"
  have j: "i \<le> j" "occurs_at needle hay j" using LeastI_ex [of "\<lambda>j. i \<le> j \<and> occurs_at needle hay j"] True
    by (auto simp: j_def)
  have m: "\<not> occurs_at needle hay k" if "i \<le> k" "k < j" for k
    using not_less_Least [of k "\<lambda>j. i \<le> j \<and> occurs_at needle hay j"] that by (auto simp: j_def)
  have b: "j + length needle \<le> length hay" using occurs_at_bound [OF j(2) assms] .
  then have "findPattern hay i needle = j"
    using find_from_first [OF j(2) assms j(1) m] assms by (auto simp: findPattern_def)
  then show ?thesis using found j m b assms by (metis add_leD1 le_neq_implies_less length_greater_0_conv
        less_add_same_cancel1 not_le order_less_le_trans)
next
  case False
  then have "findPattern hay i needle = length hay"
    using find_from_none [of i needle hay] by (auto simp: findPattern_def)
  then show ?thesis using absent False by blast
qed

lemma findPattern_found:
  assumes "needle \<noteq> []" "occurs_at needle hay j" "i \<le> j" "\<And>k. i \<le> k \<Longrightarrow> k < j \<Longrightarrow> \<not> occurs_at needle hay k"
  shows "findPattern hay i needle = j"
  using find_from_first [OF assms(2,1,3,4)] occurs_at_bound [OF assms(2,1)] assms(1)
  by (auto simp: findPattern_def)

lemma findPattern_absent:
  "(\<And>k. i \<le> k \<Longrightarrow> \<not> occurs_at needle hay k) \<Longrightarrow> findPattern hay i needle = length hay"
  using find_from_none [of i needle hay] by (auto simp: findPattern_def)

lemma findPattern_ge: "length hay \<le> findPattern hay i needle \<or> i \<le> findPattern hay i needle"
proof (cases "needle = []")
  case False
  then show ?thesis by (rule findPattern_cases [of needle hay i]) auto
qed (simp add: findPattern_def)

text \<open>Searching from a position is searching what lies behind it.\<close>

lemma findPattern_drop:
  assumes "pos \<le> length hay" "needle \<noteq> []"
  shows "findPattern hay (pos + i) needle = pos + findPattern (drop pos hay) i needle"
proof (rule findPattern_cases [OF assms(2), of "drop pos hay" i])
  fix j assume f: "findPattern (drop pos hay) i needle = j" "i \<le> j" "j < length (drop pos hay)"
    "occurs_at needle (drop pos hay) j" "\<And>k. i \<le> k \<Longrightarrow> k < j \<Longrightarrow> \<not> occurs_at needle (drop pos hay) k"
  have "findPattern hay (pos + i) needle = pos + j"
  proof (rule findPattern_found [OF assms(2)])
    show "occurs_at needle hay (pos + j)" "pos + i \<le> pos + j" using f by (simp_all add: occurs_at_drop)
    show "\<not> occurs_at needle hay k" if "pos + i \<le> k" "k < pos + j" for k
      using f(5) [of "k - pos"] that by (simp add: occurs_at_drop)
  qed
  with f show ?thesis by simp
next
  assume a: "findPattern (drop pos hay) i needle = length (drop pos hay)"
    "\<And>k. i \<le> k \<Longrightarrow> \<not> occurs_at needle (drop pos hay) k"
  have "findPattern hay (pos + i) needle = length hay"
  proof (rule findPattern_absent)
    show "\<not> occurs_at needle hay k" if "pos + i \<le> k" for k
      using a(2) [of "k - pos"] that by (simp add: occurs_at_drop)
  qed
  with a assms(1) show ?thesis by simp
qed


section \<open>Cutting\<close>

datatype verdict = Wait | Bad | Rec nat

function cut :: "(bytes \<Rightarrow> verdict) \<Rightarrow> bytes \<Rightarrow> bytes \<Rightarrow> bytes list \<times> bytes" where
  "cut v magic rest = (case v rest of
     Wait \<Rightarrow> ([], rest)
   | Bad \<Rightarrow>
       let at = findPattern rest 1 magic in
       if at \<ge> length rest then ([], drop (length rest - keepTail (length magic)) rest)
       else cut v magic (drop at rest)
   | Rec n \<Rightarrow>
       if 0 < n \<and> n \<le> length rest
       then (let (recs, rest') = cut v magic (drop n rest) in (take n rest # recs, rest'))
       else ([], rest))"
  by auto
termination
proof (relation "measure (\<lambda>(v, magic, rest). length rest)", goal_cases)
  case (2 v magic rest x)
  then show ?case using findPattern_ge [of rest 1 magic] by auto
qed auto

declare cut.simps [simp del]

fun cuts :: "(bytes \<Rightarrow> verdict) \<Rightarrow> bytes \<Rightarrow> bytes list \<Rightarrow> bytes \<Rightarrow> bytes list \<times> bytes" where
  "cuts v magic [] rest = ([], rest)"
| "cuts v magic (chunk # chunks) rest =
     (let (recs, rest) = cut v magic (rest @ chunk); (recs', rest) = cuts v magic chunks rest
      in (recs @ recs', rest))"

lemma cut_Wait: "v rest = Wait \<Longrightarrow> cut v magic rest = ([], rest)"
  by (subst cut.simps) simp

lemma cut_Rec:
  "v rest = Rec n \<Longrightarrow> 0 < n \<Longrightarrow> n \<le> length rest \<Longrightarrow>
     cut v magic rest = (take n rest # fst (cut v magic (drop n rest)), snd (cut v magic (drop n rest)))"
  by (subst cut.simps) (simp add: case_prod_beta)

lemma cut_Bad_found:
  "v rest = Bad \<Longrightarrow> findPattern rest 1 magic < length rest \<Longrightarrow>
     cut v magic rest = cut v magic (drop (findPattern rest 1 magic) rest)"
  by (subst cut.simps) simp

lemma cut_Bad_absent:
  "v rest = Bad \<Longrightarrow> length rest \<le> findPattern rest 1 magic \<Longrightarrow>
     cut v magic rest = ([], drop (length rest - keepTail (length magic)) rest)"
  by (subst cut.simps) simp

text \<open>
  What a verdict promises. \<open>unsynced_wait\<close> says that where the magic is already contradicted the
  cutter only waits when nothing behind that point can be taken either.
\<close>

locale stream_cutter =
  fixes v :: "bytes \<Rightarrow> verdict" and magic :: bytes
  assumes magic_ne: "magic \<noteq> []"
    and rec_bounds: "v r = Rec n \<Longrightarrow> 0 < n \<and> n \<le> length r"
    and rec_stable: "v r = Rec n \<Longrightarrow> v (r @ x) = Rec n"
    and bad_stable: "v r = Bad \<Longrightarrow> v (r @ x) = Bad"
    and bad_long: "v r = Bad \<Longrightarrow> length magic \<le> length r"
    and synced: "v r = Rec n \<Longrightarrow> occurs_at magic r 0"
    and unsynced_wait: "v r = Wait \<Longrightarrow> \<not> occurs_at magic r 0 \<Longrightarrow> length magic \<le> length r \<Longrightarrow> v (drop j r) = Wait"
begin

text \<open>After a failed search the kept tail stands for the whole.\<close>

lemma kept_tail_stands:
  assumes bad: "v r = Bad" and none: "\<And>k. 1 \<le> k \<Longrightarrow> \<not> occurs_at magic r k"
  shows "fst (cut v magic (r @ b)) = fst (cut v magic (drop (length r - keepTail (length magic)) r @ b))"
proof -
  define d where "d = length r - keepTail (length magic)"
  define t where "t = drop d r @ b"
  have lm: "length magic \<le> length r" and m: "0 < length magic" using bad_long [OF bad] magic_ne by auto
  obtain c where c: "length magic = Suc c" using m by (cases "length magic") auto
  with lm have d: "1 \<le> d" "d \<le> length r" "length r < d + length magic" by (simp_all add: d_def keepTail_def)
  have t: "t = drop d (r @ b)" using d by (simp add: t_def)
  have vb: "v (r @ b) = Bad" using bad_stable [OF bad] .
  have early: "\<not> occurs_at magic (r @ b) k" if "1 \<le> k" "k < d" for k
    using none [OF that(1)] that(2) c lm by (simp add: occurs_at_append d_def keepTail_def)
  have shift: "occurs_at magic (r @ b) (d + k) \<longleftrightarrow> occurs_at magic t k" for k
    unfolding t by (simp only: occurs_at_drop)
  show ?thesis
    unfolding d_def [symmetric] t_def [symmetric]
  proof (rule findPattern_cases [OF magic_ne, of t 0])
    fix j assume f: "0 \<le> j" "occurs_at magic t j" "\<And>k. 0 \<le> k \<Longrightarrow> k < j \<Longrightarrow> \<not> occurs_at magic t k"
    have tl: "j + length magic \<le> length t" using occurs_at_bound [OF f(2) magic_ne] .
    have whole: "findPattern (r @ b) 1 magic = d + j"
    proof (rule findPattern_found [OF magic_ne])
      show "\<not> occurs_at magic (r @ b) k" if "1 \<le> k" "k < d + j" for k
        using early [of k] f(3) [of "k - d"] shift [of "k - d"] that by (cases "k < d") simp_all
    qed (use f(2) shift d in simp_all)
    then have w: "cut v magic (r @ b) = cut v magic (drop j t)"
      using vb tl m d by (subst cut_Bad_found) (simp_all only: t drop_drop length_append, simp_all add: add.commute)
    show "fst (cut v magic (r @ b)) = fst (cut v magic t)"
    proof (cases "j = 0")
      case True
      then show ?thesis using w by simp
    next
      case False
      then have uns: "\<not> occurs_at magic t 0" using f(3) by simp
      show ?thesis
      proof (cases "v t")
        case Wait
        then show ?thesis using unsynced_wait [OF Wait uns] tl by (simp add: w cut_Wait)
      next
        case Bad
        have "findPattern t 1 magic = j" using f False by (intro findPattern_found [OF magic_ne]) auto
        moreover have "j < length t" using tl m by linarith
        ultimately have "cut v magic t = cut v magic (drop j t)" using Bad by (metis cut_Bad_found)
        then show ?thesis by (simp add: w)
      next
        case (Rec n)
        then show ?thesis using synced uns by blast
      qed
    qed
  next
    assume none_t: "\<And>k. 0 \<le> k \<Longrightarrow> \<not> occurs_at magic t k"
    have "findPattern (r @ b) 1 magic = length (r @ b)"
    proof (rule findPattern_absent)
      show "\<not> occurs_at magic (r @ b) k" if "1 \<le> k" for k
        using early [OF that] none_t [of "k - d"] shift [of "k - d"] by (cases "k < d") simp_all
    qed
    then have "fst (cut v magic (r @ b)) = []" using vb by (simp add: cut_Bad_absent)
    moreover have "fst (cut v magic t) = []"
    proof (cases "v t")
      case Bad
      have "findPattern t 1 magic = length t" using none_t by (intro findPattern_absent) simp
      with Bad show ?thesis by (simp add: cut_Bad_absent)
    qed (use synced none_t in \<open>auto simp: cut_Wait\<close>)
    ultimately show "fst (cut v magic (r @ b)) = fst (cut v magic t)" by simp
  qed
qed

text \<open>So cutting what arrived and then the rest is cutting the whole.\<close>

lemma cut_append:
  "fst (cut v magic (r @ b)) = fst (cut v magic r) @ fst (cut v magic (snd (cut v magic r) @ b))"
proof (induction "length r" arbitrary: r rule: less_induct)
  case less
  show ?case
  proof (cases "v r")
    case Wait
    then show ?thesis by (simp add: cut_Wait)
  next
    case (Rec n)
    note n = rec_bounds [OF Rec] rec_stable [OF Rec, of b]
    have "length (drop n r) < length r" using n by (auto intro: diff_less)
    from less [OF this] show ?thesis using n by (simp add: cut_Rec [of v, OF Rec] cut_Rec [of v, OF n(2)])
  next
    case Bad
    show ?thesis
    proof (rule findPattern_cases [OF magic_ne, of r 1])
      fix j assume f: "findPattern r 1 magic = j" "1 \<le> j" "j < length r" "occurs_at magic r j"
        "\<And>k. 1 \<le> k \<Longrightarrow> k < j \<Longrightarrow> \<not> occurs_at magic r k"
      have jb: "j + length magic \<le> length r" using occurs_at_bound [OF f(4) magic_ne] .
      have "findPattern (r @ b) 1 magic = j"
        using f jb by (intro findPattern_found [OF magic_ne]) (auto simp: occurs_at_append)
      then have "cut v magic (r @ b) = cut v magic (drop j r @ b)"
        using bad_stable [OF Bad, of b] f(3) by (subst cut_Bad_found) simp_all
      moreover have "cut v magic r = cut v magic (drop j r)" using Bad f by (subst cut_Bad_found) simp_all
      ultimately show ?thesis using less [of "drop j r"] f by simp
    next
      assume a: "findPattern r 1 magic = length r" "\<And>k. 1 \<le> k \<Longrightarrow> \<not> occurs_at magic r k"
      then show ?thesis using kept_tail_stands [OF Bad a(2), of b] Bad by (simp add: cut_Bad_absent)
    qed
  qed
qed

lemma cut_settled: "fst (cut v magic (snd (cut v magic r))) = []"
  using cut_append [of r "[]"] by simp

lemma cuts_concat:
  "fst (cut v magic r) = [] \<Longrightarrow> fst (cuts v magic chunks r) = fst (cut v magic (r @ concat chunks))"
proof (induction chunks arbitrary: r)
  case (Cons c cs)
  show ?case
    using Cons.IH [OF cut_settled, of "r @ c"] cut_append [of "r @ c" "concat cs"]
    by (simp add: case_prod_beta Let_def)
qed simp

text \<open>A run of records is cut back into them, and a search over junk ends at the next record.\<close>

lemma cut_records:
  "list_all (\<lambda>r. v r = Rec (length r)) recs \<Longrightarrow>
     cut v magic (concat recs @ tail) = (recs @ fst (cut v magic tail), snd (cut v magic tail))"
proof (induction recs)
  case (Cons r rs)
  then have "v (r @ concat rs @ tail) = Rec (length r)" using rec_stable by simp
  with Cons rec_bounds [of r] show ?case by (simp add: cut_Rec)
qed simp

lemma cut_junk:
  assumes "v (junk @ rest) = Bad" "occurs_at magic rest 0" "junk \<noteq> []"
    and "\<And>k. 1 \<le> k \<Longrightarrow> k < length junk \<Longrightarrow> \<not> occurs_at magic (junk @ rest) k"
  shows "cut v magic (junk @ rest) = cut v magic rest"
proof -
  have "occurs_at magic (junk @ rest) (length junk)" using assms(2) by (simp add: occurs_at_def)
  then have "findPattern (junk @ rest) 1 magic = length junk"
    using assms(3,4) by (intro findPattern_found [OF magic_ne]) (auto simp: Suc_le_eq)
  moreover have "rest \<noteq> []" using assms(2) magic_ne by (auto simp: occurs_at_def)
  ultimately show ?thesis using assms(1) by (simp add: cut_Bad_found)
qed

end

end
