(* ===== verification/Mubd.thy ===== *)
theory Mubd
  imports StreamCut
begin

text \<open>
  The MUBD frame of the USB bulk pipe (libs/usbproto/usbproto.cpp): the header codec, \<^verbatim>\<open>encodeFrame\<close> and
  \<^verbatim>\<open>FrameParser\<close>, which decodes a byte stream into frames and resynchronises on the magic. The parser
  keeps its buffer and read offset as the class does; it is shown to implement \<open>cut\<close>.
\<close>

section \<open>Header codec\<close>

abbreviation (input) FRAME_MAGIC :: u32 where "FRAME_MAGIC \<equiv> 0x4D554244"
abbreviation (input) FLAG_DATA :: u8 where "FLAG_DATA \<equiv> 0"
abbreviation (input) FLAG_OPEN :: u8 where "FLAG_OPEN \<equiv> 1"
abbreviation (input) FLAG_CLOSE :: u8 where "FLAG_CLOSE \<equiv> 2"
abbreviation (input) FLAG_ACK :: u8 where "FLAG_ACK \<equiv> 3"
abbreviation (input) FLAG_ERROR :: u8 where "FLAG_ERROR \<equiv> 4"
abbreviation (input) HEADER_SIZE :: nat where "HEADER_SIZE \<equiv> 12"
abbreviation (input) USB_BUF_SIZE :: nat where "USB_BUF_SIZE \<equiv> 524288"
abbreviation (input) USB_MAX_PAYLOAD :: nat where "USB_MAX_PAYLOAD \<equiv> 524276"
abbreviation (input) MAX_FRAME_SIZE :: nat where "MAX_FRAME_SIZE \<equiv> 4194304"
abbreviation (input) MAX_CHANNELS :: nat where "MAX_CHANNELS \<equiv> 32"

record frame_header =
  fh_magic :: u32
  fh_channel :: u8
  fh_flags :: u8
  fh_reserved :: u16
  fh_length :: u32

definition kMagicBytes :: bytes where
  "kMagicBytes = [ucast (FRAME_MAGIC AND 0xFF), ucast (drop_bit 8 FRAME_MAGIC AND 0xFF),
     ucast (drop_bit 16 FRAME_MAGIC AND 0xFF), ucast (drop_bit 24 FRAME_MAGIC AND 0xFF)]"

definition encodeHeader :: "u8 \<Rightarrow> u8 \<Rightarrow> u32 \<Rightarrow> bytes" where
  "encodeHeader channel flags len = putU32LE FRAME_MAGIC @ [channel, flags] @ putU16LE 0 @ putU32LE len"

definition decodeHeader :: "bytes \<Rightarrow> frame_header option" where
  "decodeHeader p =
     (if length p < HEADER_SIZE then None
      else Some \<lparr>fh_magic = getU32LE p, fh_channel = p ! 4, fh_flags = p ! 5, fh_reserved = getU16LE (drop 6 p),
             fh_length = getU32LE (drop 8 p)\<rparr>)"

text \<open>Appends a frame to \<open>out\<close>; with a null payload pointer the bytes \<^verbatim>\<open>resize\<close> added stay zero.\<close>

definition encodeFrame :: "bytes \<Rightarrow> u8 \<Rightarrow> u8 \<Rightarrow> bytes option \<Rightarrow> nat \<Rightarrow> bytes" where
  "encodeFrame out channel flags payload payloadLen =
     (let at = length out;
          out = out @ replicate (HEADER_SIZE + payloadLen) 0;
          out = memcpy_at at (encodeHeader channel flags (of_nat payloadLen)) out
      in case payload of
           Some p \<Rightarrow> if payloadLen > 0 then memcpy_at (at + HEADER_SIZE) (take payloadLen p) out else out
         | None \<Rightarrow> out)"

lemma kMagicBytes_eq: "kMagicBytes = [0x44, 0x42, 0x55, 0x4D]" "kMagicBytes = putU32LE FRAME_MAGIC"
  by (simp_all add: kMagicBytes_def putU32LE_def)

lemma length_kMagicBytes [simp]: "length kMagicBytes = 4" "kMagicBytes \<noteq> []"
  by (simp_all add: kMagicBytes_def)

lemma length_encodeHeader [simp]: "length (encodeHeader channel flags n) = 12"
  by (simp add: encodeHeader_def)

lemma decode_encodeHeader:
  "decodeHeader (encodeHeader channel flags n @ rest) =
     Some \<lparr>fh_magic = FRAME_MAGIC, fh_channel = channel, fh_flags = flags, fh_reserved = 0, fh_length = n\<rparr>"
  by (simp add: decodeHeader_def encodeHeader_def nth_append)

lemma decodeHeader_append:
  "12 \<le> length r \<Longrightarrow> decodeHeader (r @ x) = decodeHeader r"
  by (simp add: decodeHeader_def getU32LE_append getU16LE_append nth_append)

text \<open>A frame is its header and its payload.\<close>

definition mubd_frame :: "u8 \<Rightarrow> u8 \<Rightarrow> bytes \<Rightarrow> bytes" where
  "mubd_frame channel flags payload = encodeHeader channel flags (of_nat (length payload)) @ payload"

lemma encodeFrame_eq:
  "encodeFrame out channel flags (Some p) (length p) = out @ mubd_frame channel flags p"
proof -
  have "memcpy_at (length out) (encodeHeader channel flags (of_nat (length p))) (out @ replicate (12 + length p) 0) =
      out @ encodeHeader channel flags (of_nat (length p)) @ replicate (length p) 0"
    by (simp add: memcpy_at_def)
  then show ?thesis
    by (simp add: encodeFrame_def Let_def mubd_frame_def memcpy_at_def)
qed

lemma length_mubd_frame [simp]: "length (mubd_frame channel flags p) = 12 + length p"
  by (simp add: mubd_frame_def)

section \<open>FrameParser\<close>

record parser =
  fp_buf :: bytes
  fp_pos :: nat
  fp_resyncs :: nat

definition parser_new :: parser where
  "parser_new = \<lparr>fp_buf = [], fp_pos = 0, fp_resyncs = 0\<rparr>"

definition parser_reset :: "parser \<Rightarrow> parser" where
  "parser_reset p = p\<lparr>fp_buf := [], fp_pos := 0\<rparr>"

definition parser_compact :: "parser \<Rightarrow> parser" where
  "parser_compact p =
     (if fp_pos p = 0 then p
      else if fp_pos p \<ge> length (fp_buf p) then p\<lparr>fp_buf := [], fp_pos := 0\<rparr>
      else if fp_pos p \<ge> USB_BUF_SIZE then p\<lparr>fp_buf := drop (fp_pos p) (fp_buf p), fp_pos := 0\<rparr>
      else p)"

definition parser_resync :: "parser \<Rightarrow> bool \<times> parser" where
  "parser_resync p =
     (let p = p\<lparr>fp_resyncs := fp_resyncs p + 1\<rparr>;
          at = findPattern (fp_buf p) (fp_pos p + 1) kMagicBytes
      in if at \<ge> length (fp_buf p) then
           let keep = keepTail (length kMagicBytes);
               p = (if length (fp_buf p) > keep then p\<lparr>fp_pos := length (fp_buf p) - keep\<rparr> else p)
           in (False, parser_compact p)
         else (True, p\<lparr>fp_pos := at\<rparr>))"

lemma compact_keeps:
  "fp_pos p \<le> length (fp_buf p) \<Longrightarrow>
     drop (fp_pos (parser_compact p)) (fp_buf (parser_compact p)) = drop (fp_pos p) (fp_buf p) \<and>
     fp_pos (parser_compact p) \<le> length (fp_buf (parser_compact p))"
  by (auto simp: parser_compact_def)

lemma compact_avail:
  "length (fp_buf (parser_compact p)) - fp_pos (parser_compact p) = length (fp_buf p) - fp_pos p"
  by (auto simp: parser_compact_def)

lemma resync_True:
  "parser_resync p = (True, p') \<Longrightarrow> fp_pos p < fp_pos p' \<and> fp_pos p' < length (fp_buf p) \<and> fp_buf p' = fp_buf p"
  using findPattern_ge [of "fp_buf p" "Suc (fp_pos p)" kMagicBytes]
  by (auto simp: parser_resync_def Let_def split: if_splits)

text \<open>The loop of \<^verbatim>\<open>feed\<close>; \<^verbatim>\<open>onFrame\<close>'s calls are the list it returns.\<close>

type_synonym mubd = "u8 \<times> u8 \<times> bytes"

function parser_loop :: "parser \<Rightarrow> mubd list \<times> parser" where
  "parser_loop p =
     (let avail = length (fp_buf p) - fp_pos p in
      if avail < HEADER_SIZE then ([], p)
      else case decodeHeader (drop (fp_pos p) (fp_buf p)) of
        None \<Rightarrow> ([], p)
      | Some hdr \<Rightarrow>
          if fh_magic hdr \<noteq> FRAME_MAGIC \<or> unat (fh_length hdr) > MAX_FRAME_SIZE then
            (let (again, p') = parser_resync p in if \<not> again then ([], p') else parser_loop p')
          else
            let total = HEADER_SIZE + unat (fh_length hdr) in
            if avail < total then ([], p)
            else
              let frame = (fh_channel hdr, fh_flags hdr,
                    take (unat (fh_length hdr)) (drop (fp_pos p + HEADER_SIZE) (fp_buf p)));
                  (frames, p') = parser_loop (parser_compact (p\<lparr>fp_pos := fp_pos p + total\<rparr>))
              in (frame # frames, p'))"
  by auto
termination
proof (relation "measure (\<lambda>p. length (fp_buf p) - fp_pos p)", goal_cases)
  case (2 p avail hdr x again p')
  then show ?case using resync_True [of p p'] by auto
next
  case (3 p avail hdr total frame)
  then show ?case by (simp add: compact_avail)
qed simp

declare parser_loop.simps [simp del]

definition parser_feed :: "parser \<Rightarrow> bytes \<Rightarrow> mubd list \<times> parser" where
  "parser_feed p data =
     (let (frames, p) = parser_loop (p\<lparr>fp_buf := fp_buf p @ data\<rparr>) in (frames, parser_compact p))"

fun parser_feeds :: "parser \<Rightarrow> bytes list \<Rightarrow> mubd list \<times> parser" where
  "parser_feeds p [] = ([], p)"
| "parser_feeds p (chunk # chunks) =
     (let (frames, p) = parser_feed p chunk; (frames', p) = parser_feeds p chunks in (frames @ frames', p))"

definition buffered :: "parser \<Rightarrow> nat" where
  "buffered p = length (fp_buf p) - fp_pos p"

section \<open>The parser cuts the stream\<close>

definition mubd_verdict :: "bytes \<Rightarrow> verdict" where
  "mubd_verdict r =
     (case decodeHeader r of
        None \<Rightarrow> Wait
      | Some hdr \<Rightarrow>
          if fh_magic hdr \<noteq> FRAME_MAGIC \<or> unat (fh_length hdr) > MAX_FRAME_SIZE then Bad
          else if length r < HEADER_SIZE + unat (fh_length hdr) then Wait
          else Rec (HEADER_SIZE + unat (fh_length hdr)))"

definition frame_of :: "bytes \<Rightarrow> mubd" where
  "frame_of r = (r ! 4, r ! 5, drop HEADER_SIZE r)"

lemma decodeHeader_None: "decodeHeader r = None \<longleftrightarrow> length r < 12"
  by (simp add: decodeHeader_def)

lemma magic_at_front: "12 \<le> length r \<Longrightarrow> getU32LE r = FRAME_MAGIC \<longleftrightarrow> occurs_at kMagicBytes r 0"
  using take_getU32LE [of r] putU32LE_inject [of "getU32LE r" FRAME_MAGIC]
  by (auto simp: occurs_at_def kMagicBytes_eq(2))

lemma mubd_verdict_Rec:
  "mubd_verdict r = Rec n \<longleftrightarrow> (\<exists>hdr. decodeHeader r = Some hdr \<and> fh_magic hdr = FRAME_MAGIC \<and>
     unat (fh_length hdr) \<le> MAX_FRAME_SIZE \<and> n = 12 + unat (fh_length hdr) \<and> n \<le> length r)"
  by (auto simp: mubd_verdict_def split: option.splits)

lemma mubd_verdict_Bad:
  "mubd_verdict r = Bad \<longleftrightarrow> (\<exists>hdr. decodeHeader r = Some hdr \<and>
     (fh_magic hdr \<noteq> FRAME_MAGIC \<or> unat (fh_length hdr) > MAX_FRAME_SIZE))"
  by (auto simp: mubd_verdict_def split: option.splits)

lemma decodeHeader_Some: "decodeHeader r = Some hdr \<Longrightarrow> 12 \<le> length r \<and> fh_magic hdr = getU32LE r"
  by (auto simp: decodeHeader_def split: if_splits)

interpretation mubd: stream_cutter mubd_verdict kMagicBytes
proof unfold_locales
  fix r x n
  show "kMagicBytes \<noteq> []" by simp
  show "0 < n \<and> n \<le> length r" if "mubd_verdict r = Rec n" using that by (auto simp: mubd_verdict_Rec)
  show "mubd_verdict (r @ x) = Rec n" if "mubd_verdict r = Rec n"
    using that decodeHeader_append [of r x] decodeHeader_Some by (fastforce simp: mubd_verdict_Rec)
  show "mubd_verdict (r @ x) = Bad" if "mubd_verdict r = Bad"
    using that decodeHeader_append [of r x] decodeHeader_Some by (fastforce simp: mubd_verdict_Bad)
  show "length kMagicBytes \<le> length r" if "mubd_verdict r = Bad"
    using that decodeHeader_Some by (fastforce simp: mubd_verdict_Bad)
  show "occurs_at kMagicBytes r 0" if "mubd_verdict r = Rec n"
    using that decodeHeader_Some magic_at_front by (fastforce simp: mubd_verdict_Rec)
  fix j
  assume w: "mubd_verdict r = Wait" and u: "\<not> occurs_at kMagicBytes r 0"
  have "length r < 12"
  proof (rule ccontr)
    assume "\<not> length r < 12"
    then obtain hdr where "decodeHeader r = Some hdr" using decodeHeader_None by fastforce
    with w u magic_at_front decodeHeader_Some show False by (fastforce simp: mubd_verdict_def split: if_splits)
  qed
  then have "decodeHeader (drop j r) = None" by (simp add: decodeHeader_None)
  then show "mubd_verdict (drop j r) = Wait" by (simp add: mubd_verdict_def)
qed

text \<open>What is still to be cut, and the class's own invariant.\<close>

definition pending :: "parser \<Rightarrow> bytes" where
  "pending p = drop (fp_pos p) (fp_buf p)"

definition parser_ok :: "parser \<Rightarrow> bool" where
  "parser_ok p \<longleftrightarrow> fp_pos p \<le> length (fp_buf p)"

lemma compact_pending [simp]: "parser_ok p \<Longrightarrow> pending (parser_compact p) = pending p \<and> parser_ok (parser_compact p)"
  using compact_keeps by (simp add: pending_def parser_ok_def)

lemma length_pending: "length (pending p) = length (fp_buf p) - fp_pos p"
  by (simp add: pending_def)

lemma resync_search:
  assumes "parser_ok p" "12 \<le> length (pending p)"
  shows "parser_resync p = (if findPattern (pending p) 1 kMagicBytes \<ge> length (pending p)
     then (False, parser_compact (p\<lparr>fp_resyncs := fp_resyncs p + 1, fp_pos := length (fp_buf p) - 3\<rparr>))
     else (True, p\<lparr>fp_resyncs := fp_resyncs p + 1, fp_pos := fp_pos p + findPattern (pending p) 1 kMagicBytes\<rparr>))"
  using assms findPattern_drop [of "fp_pos p" "fp_buf p" kMagicBytes 1]
  by (auto simp: parser_resync_def Let_def pending_def parser_ok_def keepTail_def)

lemma parser_loop_cut:
  "parser_ok p \<Longrightarrow> fst (parser_loop p) = map frame_of (fst (cut mubd_verdict kMagicBytes (pending p))) \<and>
     pending (snd (parser_loop p)) = snd (cut mubd_verdict kMagicBytes (pending p)) \<and>
     parser_ok (snd (parser_loop p))"
proof (induction "length (pending p)" arbitrary: p rule: less_induct)
  case less
  let ?r = "pending p"
  have len: "length ?r = length (fp_buf p) - fp_pos p" by (rule length_pending)
  show ?case
  proof (cases "decodeHeader ?r")
    case None
    then have "mubd_verdict ?r = Wait" by (simp add: mubd_verdict_def)
    moreover have "parser_loop p = ([], p)"
      using None len by (subst parser_loop.simps) (simp add: decodeHeader_None Let_def)
    ultimately show ?thesis using less.prems by (simp add: cut_Wait)
  next
    case (Some hdr)
    note h = decodeHeader_Some [OF Some]
    show ?thesis
    proof (cases "fh_magic hdr \<noteq> FRAME_MAGIC \<or> unat (fh_length hdr) > MAX_FRAME_SIZE")
      case True
      then have v: "mubd_verdict ?r = Bad" using Some by (auto simp: mubd_verdict_Bad)
      have l: "parser_loop p = (let (again, p') = parser_resync p in if \<not> again then ([], p') else parser_loop p')"
        using True Some h len
        by (subst parser_loop.simps) (simp add: pending_def [symmetric] Let_def del: parser_loop.simps)
      note rs = resync_search [OF less.prems, OF h [THEN conjunct1]]
      show ?thesis
      proof (cases "findPattern ?r 1 kMagicBytes \<ge> length ?r")
        case True
        let ?p = "p\<lparr>fp_resyncs := fp_resyncs p + 1, fp_pos := length (fp_buf p) - 3\<rparr>"
        have "length (fp_buf p) - (fp_pos p + 3) + fp_pos p = length (fp_buf p) - 3" using h len by linarith
        then have "parser_ok ?p" "pending ?p = drop (length ?r - 3) ?r"
          using less.prems by (simp_all add: parser_ok_def pending_def)
        then show ?thesis using True v l rs by (simp add: cut_Bad_absent keepTail_def)
      next
        case False
        let ?p = "p\<lparr>fp_resyncs := fp_resyncs p + 1, fp_pos := fp_pos p + findPattern ?r 1 kMagicBytes\<rparr>"
        have p: "parser_ok ?p" "pending ?p = drop (findPattern ?r 1 kMagicBytes) ?r"
          using False len by (simp_all add: parser_ok_def pending_def add.commute)
        have "length (pending ?p) < length ?r" using p(2) False findPattern_ge [of ?r 1 kMagicBytes] by auto
        from less.hyps [OF this p(1)] show ?thesis using False v l rs p(2) by (simp add: cut_Bad_found)
      qed
    next
      case ok: False
      let ?n = "12 + unat (fh_length hdr)"
      show ?thesis
      proof (cases "length ?r < ?n")
        case True
        then have "mubd_verdict ?r = Wait" using Some ok by (simp add: mubd_verdict_def)
        moreover have "parser_loop p = ([], p)"
          using True Some ok h len
          by (subst parser_loop.simps) (simp add: pending_def [symmetric] Let_def)
        ultimately show ?thesis using less.prems by (simp add: cut_Wait)
      next
        case False
        then have v: "mubd_verdict ?r = Rec ?n" using Some ok by (auto simp: mubd_verdict_Rec)
        let ?p = "parser_compact (p\<lparr>fp_pos := fp_pos p + ?n\<rparr>)"
        have "parser_ok (p\<lparr>fp_pos := fp_pos p + ?n\<rparr>)" using False len h by (simp add: parser_ok_def)
        then have p: "parser_ok ?p" "pending ?p = drop ?n ?r"
          using compact_pending by (simp_all add: pending_def add.commute)
        have f: "frame_of (take ?n ?r) = (fh_channel hdr, fh_flags hdr,
            take (unat (fh_length hdr)) (drop (fp_pos p + 12) (fp_buf p)))"
          using Some False h by (auto simp: frame_of_def decodeHeader_def pending_def drop_take add.commute)
        have l: "parser_loop p = ((fh_channel hdr, fh_flags hdr,
            take (unat (fh_length hdr)) (drop (fp_pos p + 12) (fp_buf p))) # fst (parser_loop ?p), snd (parser_loop ?p))"
          using False Some ok h len
          by (subst parser_loop.simps) (simp add: pending_def [symmetric] Let_def case_prod_beta)
        have "length (pending ?p) < length ?r" using p(2) False h by simp
        from less.hyps [OF this p(1)] show ?thesis
          using v False p(2) by (simp add: l cut_Rec f)
      qed
    qed
  qed
qed

lemma parser_feed_cut:
  assumes "parser_ok p"
  shows "fst (parser_feed p d) = map frame_of (fst (cut mubd_verdict kMagicBytes (pending p @ d)))"
    and "pending (snd (parser_feed p d)) = snd (cut mubd_verdict kMagicBytes (pending p @ d))"
    and "parser_ok (snd (parser_feed p d))"
proof -
  let ?p = "p\<lparr>fp_buf := fp_buf p @ d\<rparr>"
  have "parser_ok ?p" "pending ?p = pending p @ d" using assms by (simp_all add: parser_ok_def pending_def)
  then show "fst (parser_feed p d) = map frame_of (fst (cut mubd_verdict kMagicBytes (pending p @ d)))"
    "pending (snd (parser_feed p d)) = snd (cut mubd_verdict kMagicBytes (pending p @ d))"
    "parser_ok (snd (parser_feed p d))"
    using parser_loop_cut [of ?p] compact_pending by (simp_all add: parser_feed_def case_prod_beta)
qed

lemma parser_feeds_cuts:
  "parser_ok p \<Longrightarrow> fst (parser_feeds p chunks) = map frame_of (fst (cuts mubd_verdict kMagicBytes chunks (pending p))) \<and>
     parser_ok (snd (parser_feeds p chunks)) \<and>
     pending (snd (parser_feeds p chunks)) = snd (cuts mubd_verdict kMagicBytes chunks (pending p))"
  by (induction chunks arbitrary: p) (simp_all add: parser_feed_cut Let_def case_prod_beta)

lemma parser_new_ok [simp]: "parser_ok parser_new" "pending parser_new = []" "parser_ok (parser_reset p)"
    "pending (parser_reset p) = []"
  by (simp_all add: parser_new_def parser_reset_def parser_ok_def pending_def)

lemma mubd_verdict_Nil [simp]: "mubd_verdict [] = Wait"
  by (simp add: mubd_verdict_def decodeHeader_def)

lemma parser_feeds_concat:
  "fst (parser_feeds parser_new chunks) = map frame_of (fst (cut mubd_verdict kMagicBytes (concat chunks)))"
  using parser_feeds_cuts [of parser_new chunks] mubd.cuts_concat [of "[]" chunks] by (simp add: cut_Wait)

text \<open>Well-formed frames.\<close>

abbreviation (input) mubd_of :: "mubd \<Rightarrow> bytes" where
  "mubd_of f \<equiv> mubd_frame (fst f) (fst (snd f)) (snd (snd f))"

definition frame_fits :: "mubd \<Rightarrow> bool" where
  "frame_fits f \<longleftrightarrow> length (snd (snd f)) \<le> MAX_FRAME_SIZE"

lemma mubd_frame_verdict:
  assumes "length p \<le> MAX_FRAME_SIZE"
  shows "mubd_verdict (mubd_frame ch fl p) = Rec (length (mubd_frame ch fl p))"
    and "frame_of (mubd_frame ch fl p) = (ch, fl, p)" and "occurs_at kMagicBytes (mubd_frame ch fl p) 0"
proof -
  have u: "unat (of_nat (length p) :: u32) = length p" using assms by (simp add: unat_of_nat_lt)
  show v: "mubd_verdict (mubd_frame ch fl p) = Rec (length (mubd_frame ch fl p))"
    using assms u by (simp add: mubd_verdict_Rec mubd_frame_def decode_encodeHeader)
  show "frame_of (mubd_frame ch fl p) = (ch, fl, p)"
    by (simp add: frame_of_def mubd_frame_def encodeHeader_def nth_append)
  show "occurs_at kMagicBytes (mubd_frame ch fl p) 0" using v by (rule mubd.synced)
qed

lemma cut_frames:
  assumes "list_all frame_fits frames"
  shows "cut mubd_verdict kMagicBytes (concat (map mubd_of frames) @ tail) =
    (map mubd_of frames @ fst (cut mubd_verdict kMagicBytes tail), snd (cut mubd_verdict kMagicBytes tail))"
  using assms by (intro mubd.cut_records) (auto simp: list_all_iff frame_fits_def mubd_frame_verdict)

lemma map_frame_of:
  "list_all frame_fits frames \<Longrightarrow> map frame_of (map mubd_of frames) = frames"
  by (induction frames) (auto simp: frame_fits_def mubd_frame_verdict)

section \<open>Properties\<close>

text \<open>frames written by encodeFrame come out of the parser exactly as they were written, however the
  pipe splits or merges the bytes into reads.\<close>

theorem mubd_frames_survive_chunking:
  assumes "list_all frame_fits frames"
    and "concat chunks = concat (map (\<lambda>(ch, fl, p). encodeFrame [] ch fl (Some p) (length p)) frames)"
  shows "fst (parser_feeds parser_new chunks) = frames"
proof -
  have "concat chunks = concat (map mubd_of frames) @ []"
    using assms(2) by (simp add: encodeFrame_eq case_prod_unfold)
  then show ?thesis
    using cut_frames [OF assms(1), of "[]"] map_frame_of [OF assms(1)]
    by (simp add: parser_feeds_concat cut_Wait)
qed

lemma mubd_frames_survive_chunking_witness:
  "fst (parser_feeds parser_new [[0x44, 0x42, 0x55], [0x4D, 11, 0, 0, 0, 2, 0, 0, 0, 7], [8, 0x44, 0x42],
     [0x55, 0x4D, 3, 2, 0, 0, 0, 0, 0, 0]]) = [(11, FLAG_DATA, [7, 8]), (3, FLAG_CLOSE, [])]"
  by (rule mubd_frames_survive_chunking)
    (simp_all add: frame_fits_def encodeFrame_eq [of "[]" _ _ "[7, 8]", simplified] encodeFrame_eq [of "[]" _ _ "[]", simplified]
      mubd_frame_def encodeHeader_def putU32LE_def putU16LE_def)

text \<open>C9: whatever bytes arrive, the frames delivered do not depend on where the reads cut the stream;
  and junk ahead of a run of frames costs nothing but itself: once the search passes it every frame is
  delivered.\<close>

theorem mubd_parser_recovers:
  "fst (parser_feeds parser_new chunks) = fst (parser_feed parser_new (concat chunks)) \<and>
   (list_all frame_fits (f # frames) \<longrightarrow> junk \<noteq> [] \<longrightarrow>
     mubd_verdict (junk @ concat (map mubd_of (f # frames))) = Bad \<longrightarrow>
     (\<forall>k. 1 \<le> k \<longrightarrow> k < length junk \<longrightarrow> \<not> occurs_at kMagicBytes (junk @ concat (map mubd_of (f # frames))) k) \<longrightarrow>
     fst (parser_feed parser_new (junk @ concat (map mubd_of (f # frames)))) = f # frames)"
proof (intro conjI impI)
  show "fst (parser_feeds parser_new chunks) = fst (parser_feed parser_new (concat chunks))"
    by (simp add: parser_feeds_concat parser_feed_cut)
  assume a: "list_all frame_fits (f # frames)" "junk \<noteq> []"
    and b: "mubd_verdict (junk @ concat (map mubd_of (f # frames))) = Bad"
    and n: "\<forall>k. 1 \<le> k \<longrightarrow> k < length junk \<longrightarrow> \<not> occurs_at kMagicBytes (junk @ concat (map mubd_of (f # frames))) k"
  let ?s = "concat (map mubd_of (f # frames))"
  have "mubd_verdict (?s) = Rec (length (mubd_of f))"
    using mubd.rec_stable [OF mubd_frame_verdict(1)] a(1) by (simp add: frame_fits_def)
  then have "occurs_at kMagicBytes ?s 0" by (rule mubd.synced)
  then have "cut mubd_verdict kMagicBytes (junk @ ?s) = cut mubd_verdict kMagicBytes ?s"
    using a b n by (intro mubd.cut_junk) blast+
  then show "fst (parser_feed parser_new (junk @ ?s)) = f # frames"
    using cut_frames [OF a(1), of "[]"] map_frame_of [OF a(1)]
    by (simp add: parser_feed_cut cut_Wait del: map_map)
qed

lemma mubd_parser_recovers_witness:
  "fst (parser_feed parser_new (replicate 5 0xFF @ mubd_frame 3 FLAG_CLOSE [])) = [(3, FLAG_CLOSE, [])]"
proof -
  have m: "mubd_frame 3 2 [] = [0x44, 0x42, 0x55, 0x4D, 3, 2, 0, 0, 0, 0, 0, 0]"
    by (simp add: mubd_frame_def encodeHeader_def putU32LE_def putU16LE_def)
  have b: "mubd_verdict (replicate 5 0xFF @ mubd_frame 3 2 []) = Bad"
    unfolding m by code_simp
  have o: "\<not> occurs_at kMagicBytes (replicate 5 0xFF @ mubd_frame 3 2 []) k" if "1 \<le> k" "k < 5" for k
  proof -
    have "list_all (\<lambda>k. \<not> occurs_at kMagicBytes (replicate 5 0xFF @ mubd_frame 3 2 []) k) [1, 2, 3, 4]"
      unfolding m by code_simp
    moreover have "k = 1 \<or> k = 2 \<or> k = 3 \<or> k = 4" using that by linarith
    ultimately show ?thesis by auto
  qed
  show ?thesis
    using mubd_parser_recovers [of "[]" "(3, FLAG_CLOSE, [])" "[]" "replicate 5 0xFF"] b o
    by (simp add: frame_fits_def)
qed

end
