(* ===== verification/Assembler.thy ===== *)
theory Assembler
  imports Mubd "HOL-Library.Sublist"
begin

text \<open>
  \<^verbatim>\<open>StreamAssembler\<close> (libs/usbproto/usbproto.cpp), which cuts a channel's byte stream into records with a
  sizer the caller supplies, and the touch and control records of libs/usbproto/uiinput.h with their
  sizer. The locale \<open>record_format\<close> is the contract between a sizer and the assembler; a stream of
  whole records then comes out unchanged however it is split. Resynchronising is another matter: with
  a sizer that rejects before the magic is complete the read offset can move backwards.
\<close>

section \<open>StreamAssembler\<close>

type_synonym sizer = "bytes \<Rightarrow> nat"

abbreviation (input) NEED_MORE :: nat where "NEED_MORE \<equiv> 0"
abbreviation (input) BAD_RECORD :: nat where "BAD_RECORD \<equiv> 0xFFFFFFFFFFFFFFFF"

record asm =
  as_sizer :: "sizer option"
  as_magic :: bytes
  as_maxRecord :: nat
  as_buf :: bytes
  as_pos :: nat
  as_resyncs :: nat

definition asm_new :: "sizer option \<Rightarrow> bytes option \<Rightarrow> nat \<Rightarrow> nat \<Rightarrow> asm" where
  "asm_new sizer syncMagic syncLen maxRecord =
     (let magicLen = (if syncLen > 8 then 8 else syncLen) in
      \<lparr>as_sizer = sizer,
       as_magic = (case syncMagic of Some m \<Rightarrow> take magicLen m | None \<Rightarrow> replicate magicLen 0),
       as_maxRecord = maxRecord, as_buf = [], as_pos = 0, as_resyncs = 0\<rparr>)"

definition asm_reset :: "asm \<Rightarrow> asm" where
  "asm_reset a = a\<lparr>as_buf := [], as_pos := 0\<rparr>"

definition asm_compact :: "asm \<Rightarrow> asm" where
  "asm_compact a =
     (if as_pos a = 0 then a
      else if as_pos a \<ge> length (as_buf a) then a\<lparr>as_buf := [], as_pos := 0\<rparr>
      else if as_pos a \<ge> USB_BUF_SIZE then a\<lparr>as_buf := drop (as_pos a) (as_buf a), as_pos := 0\<rparr>
      else a)"

definition asm_resync :: "asm \<Rightarrow> bool \<times> asm" where
  "asm_resync a =
     (let a = a\<lparr>as_resyncs := as_resyncs a + 1\<rparr>;
          at = findPattern (as_buf a) (as_pos a + 1) (as_magic a)
      in if at \<ge> length (as_buf a) then
           let keep = keepTail (length (as_magic a));
               a = (if length (as_buf a) > keep then a\<lparr>as_pos := length (as_buf a) - keep\<rparr> else a)
           in (False, asm_compact a)
         else (True, a\<lparr>as_pos := at\<rparr>))"

lemma asm_compact_avail:
  "length (as_buf (asm_compact a)) - as_pos (asm_compact a) = length (as_buf a) - as_pos a"
  by (auto simp: asm_compact_def)

lemma asm_resync_True:
  "asm_resync a = (True, a') \<Longrightarrow> as_pos a < as_pos a' \<and> as_pos a' < length (as_buf a) \<and> as_buf a' = as_buf a"
  using findPattern_ge [of "as_buf a" "Suc (as_pos a)" "as_magic a"]
  by (auto simp: asm_resync_def Let_def split: if_splits)

text \<open>The loop of \<^verbatim>\<open>feed\<close>; \<^verbatim>\<open>onRecord\<close>'s calls are the list it returns.\<close>

function asm_loop :: "asm \<Rightarrow> bytes list \<times> asm" where
  "asm_loop a =
     (let avail = length (as_buf a) - as_pos a; here = drop (as_pos a) (as_buf a) in
      if avail = 0 then ([], a)
      else if as_magic a \<noteq> [] \<and> avail \<ge> length (as_magic a) \<and> take (length (as_magic a)) here \<noteq> as_magic a then
        (let (again, a') = asm_resync a in if \<not> again then ([], a') else asm_loop a')
      else
        let need = (case as_sizer a of Some sizer \<Rightarrow> sizer here | None \<Rightarrow> BAD_RECORD) in
        if need = NEED_MORE then ([], a)
        else if need = BAD_RECORD \<or> need > as_maxRecord a then
          (let (again, a') = asm_resync a in if \<not> again then ([], a') else asm_loop a')
        else if avail < need then ([], a)
        else
          let (recs, a') = asm_loop (asm_compact (a\<lparr>as_pos := as_pos a + need\<rparr>))
          in (take need here # recs, a'))"
  by auto
termination
proof (relation "measure (\<lambda>a. length (as_buf a) - as_pos a)", goal_cases)
  case (2 a avail here x again a')
  then show ?case using asm_resync_True [of a a'] by auto
next
  case (3 a avail here need x again a')
  then show ?case using asm_resync_True [of a a'] by auto
next
  case (4 a avail here need)
  then show ?case by (simp add: asm_compact_avail)
qed simp

declare asm_loop.simps [simp del]

definition asm_feed :: "asm \<Rightarrow> bytes \<Rightarrow> bytes list \<times> asm" where
  "asm_feed a data = (let (recs, a) = asm_loop (a\<lparr>as_buf := as_buf a @ data\<rparr>) in (recs, asm_compact a))"

fun asm_feeds :: "asm \<Rightarrow> bytes list \<Rightarrow> bytes list \<times> asm" where
  "asm_feeds a [] = ([], a)"
| "asm_feeds a (chunk # chunks) =
     (let (recs, a) = asm_feed a chunk; (recs', a) = asm_feeds a chunks in (recs @ recs', a))"

section \<open>Touch and control records\<close>

abbreviation (input) RECORD_SIZE :: nat where "RECORD_SIZE \<equiv> 22"
abbreviation (input) MAGIC_LEN :: nat where "MAGIC_LEN \<equiv> 4"
abbreviation (input) CTRL_SIZE :: nat where "CTRL_SIZE \<equiv> 8"
abbreviation (input) EV__MAX :: u8 where "EV__MAX \<equiv> 3"
abbreviation (input) CTRL__MAX :: u8 where "CTRL__MAX \<equiv> 0"

definition ui_magic :: bytes where "ui_magic = [0x44, 0x52, 0x49, 0x31]"
definition ctrlMagic :: bytes where "ctrlMagic = [0x44, 0x52, 0x43, 0x31]"

record touch_record =
  tr_event :: u8
  tr_id :: u8
  tr_x :: u16
  tr_y :: u16
  tr_size :: u16
  tr_active :: u8
  tr_duration_ms :: u32
  tr_dx :: u16
  tr_dy :: u16

text \<open>\<^verbatim>\<open>encode\<close>, \<^verbatim>\<open>decode\<close> and the control record's pair; signed fields are bit patterns.\<close>

definition touch_encode :: "touch_record \<Rightarrow> bytes" where
  "touch_encode r = ui_magic @ [tr_event r, tr_id r] @ putU16LE (tr_x r) @ putU16LE (tr_y r) @ putU16LE (tr_size r)
     @ [tr_active r, 0] @ putU32LE (tr_duration_ms r) @ putU16LE (tr_dx r) @ putU16LE (tr_dy r)"

definition touch_decode :: "bytes \<Rightarrow> touch_record option" where
  "touch_decode p =
     (if length p < RECORD_SIZE then None
      else if take MAGIC_LEN p \<noteq> ui_magic then None
      else if p ! 4 > EV__MAX then None
      else Some \<lparr>tr_event = p ! 4, tr_id = p ! 5, tr_x = getU16LE (drop 6 p), tr_y = getU16LE (drop 8 p),
             tr_size = getU16LE (drop 10 p), tr_active = p ! 12, tr_duration_ms = getU32LE (drop 14 p),
             tr_dx = getU16LE (drop 18 p), tr_dy = getU16LE (drop 20 p)\<rparr>)"

definition ctrl_encode :: "u8 \<Rightarrow> bytes" where
  "ctrl_encode cmd = ctrlMagic @ [cmd, 0, 0, 0]"

definition ctrl_decode :: "bytes \<Rightarrow> u8 option" where
  "ctrl_decode p =
     (if length p < CTRL_SIZE then None
      else if take MAGIC_LEN p \<noteq> ctrlMagic then None
      else if p ! 4 > CTRL__MAX then None
      else Some (p ! 4))"

definition isCtrl :: "bytes \<Rightarrow> bool" where
  "isCtrl p \<longleftrightarrow> length p \<ge> MAGIC_LEN \<and> take MAGIC_LEN p = ctrlMagic"

definition isTouch :: "bytes \<Rightarrow> bool" where
  "isTouch p \<longleftrightarrow> length p \<ge> MAGIC_LEN \<and> take MAGIC_LEN p = ui_magic"

definition ui_recordSize :: sizer where
  "ui_recordSize p =
     (let have = (if length p < MAGIC_LEN then length p else MAGIC_LEN) in
      if \<not> list_all (\<lambda>i. p ! i = ui_magic ! i) [0..<have] then BAD_RECORD
      else if length p < RECORD_SIZE then NEED_MORE
      else RECORD_SIZE)"

lemma length_touch_encode [simp]: "length (touch_encode r) = 22"
  by (simp add: touch_encode_def ui_magic_def)

lemma touch_decode_encode: "tr_event r \<le> EV__MAX \<Longrightarrow> touch_decode (touch_encode r @ rest) = Some r"
  by (simp add: touch_decode_def touch_encode_def ui_magic_def nth_append not_less)

lemma ctrl_decode_encode: "ctrl_decode (ctrl_encode 0 @ rest) = Some 0"
  by (simp add: ctrl_decode_def ctrl_encode_def ctrlMagic_def)

lemma probes:
  "isTouch (touch_encode r @ rest)" "\<not> isCtrl (touch_encode r @ rest)"
  "isCtrl (ctrl_encode c @ rest)" "\<not> isTouch (ctrl_encode c @ rest)"
  by (simp_all add: isTouch_def isCtrl_def touch_encode_def ctrl_encode_def ui_magic_def ctrlMagic_def)

section \<open>Sizers and records\<close>

text \<open>
  The contract: on a valid record, whatever follows it, the sizer answers its length; on a proper
  prefix it answers that or asks for more. A record starts with the magic.
\<close>

locale record_format =
  fixes sizer :: sizer and magic :: bytes and valid :: "bytes \<Rightarrow> bool" and max_record :: nat
  assumes magic_len: "length magic \<le> 8"
    and valid_magic: "valid r \<Longrightarrow> prefix magic r"
    and valid_len: "valid r \<Longrightarrow> 0 < length r \<and> length r \<le> max_record"
    and max_fits: "max_record < BAD_RECORD"
    and sizer_whole: "valid r \<Longrightarrow> sizer (r @ x) = length r"
    and sizer_part: "valid r \<Longrightarrow> strict_prefix q r \<Longrightarrow> q \<noteq> [] \<Longrightarrow> sizer q = NEED_MORE \<or> sizer q = length r"

definition asm_pending :: "asm \<Rightarrow> bytes" where
  "asm_pending a = drop (as_pos a) (as_buf a)"

definition asm_ok :: "asm \<Rightarrow> bool" where
  "asm_ok a \<longleftrightarrow> as_pos a \<le> length (as_buf a)"

definition same_config :: "asm \<Rightarrow> asm \<Rightarrow> bool" where
  "same_config a b \<longleftrightarrow> as_sizer a = as_sizer b \<and> as_magic a = as_magic b \<and> as_maxRecord a = as_maxRecord b"

lemma asm_compact_facts [simp]:
  "asm_ok a \<Longrightarrow> asm_pending (asm_compact a) = asm_pending a"
  "asm_ok a \<Longrightarrow> asm_ok (asm_compact a)" "as_sizer (asm_compact a) = as_sizer a"
  "as_magic (asm_compact a) = as_magic a" "as_maxRecord (asm_compact a) = as_maxRecord a"
  "as_resyncs (asm_compact a) = as_resyncs a"
  by (auto simp: asm_compact_def asm_pending_def asm_ok_def)

lemma prefix_take_eq: "prefix m r \<Longrightarrow> length m \<le> n \<Longrightarrow> take (length m) (take n r @ x) = m"
  by (auto elim!: prefixE)

text \<open>A prefix of a run of records is some of them and a part of the next.\<close>

lemma prefix_of_concat:
  "prefix p (concat rs) \<Longrightarrow> list_all (\<lambda>r. r \<noteq> []) rs \<Longrightarrow>
     \<exists>rs1 rs2 q. rs = rs1 @ rs2 \<and> p = concat rs1 @ q \<and> (q = [] \<or> (rs2 \<noteq> [] \<and> strict_prefix q (hd rs2)))"
proof (induction rs arbitrary: p)
  case (Cons r rs)
  show ?case
  proof (cases "prefix r p")
    case True
    then obtain p' where p: "p = r @ p'" by (auto elim: prefixE)
    with Cons.prems obtain rs1 rs2 q where "rs = rs1 @ rs2" "p' = concat rs1 @ q"
        "q = [] \<or> (rs2 \<noteq> [] \<and> strict_prefix q (hd rs2))"
      using Cons.IH [of p'] by auto
    then have "r # rs = (r # rs1) @ rs2 \<and> p = concat (r # rs1) @ q \<and>
        (q = [] \<or> (rs2 \<noteq> [] \<and> strict_prefix q (hd rs2)))"
      using p by simp
    then show ?thesis by blast
  next
    case False
    have "prefix p (r @ concat rs)" using Cons.prems(1) by simp
    then have "prefix p r" using False prefix_same_cases by (metis prefix_append prefix_order.order_refl)
    with False have "strict_prefix p r" by (auto simp: strict_prefix_def)
    then have "r # rs = [] @ (r # rs) \<and> p = concat [] @ p \<and>
        (p = [] \<or> (r # rs \<noteq> [] \<and> strict_prefix p (hd (r # rs))))" by simp
    then show ?thesis by blast
  qed
qed simp

context record_format
begin

definition configured :: "asm \<Rightarrow> bool" where
  "configured a \<longleftrightarrow> asm_ok a \<and> as_sizer a = Some sizer \<and> as_magic a = magic \<and> as_maxRecord a = max_record"

lemma new_configured:
  "configured (asm_new (Some sizer) (Some magic) (length magic) max_record)"
  using magic_len by (simp add: configured_def asm_new_def asm_ok_def)

lemma loop_record:
  assumes "configured a" "asm_pending a = r @ rest" "valid r"
  obtains a' where "configured a'" "asm_pending a' = rest" "as_resyncs a' = as_resyncs a"
    "asm_loop a = (r # fst (asm_loop a'), snd (asm_loop a'))"
proof
  let ?a = "asm_compact (a\<lparr>as_pos := as_pos a + length r\<rparr>)"
  have len: "length (as_buf a) - as_pos a = length r + length rest"
    using arg_cong [OF assms(2), of length] by (simp add: asm_pending_def)
  have ok: "asm_ok (a\<lparr>as_pos := as_pos a + length r\<rparr>)"
    using len valid_len [OF assms(3)] unfolding asm_ok_def by (simp, linarith)
  have "drop (as_pos a + length r) (as_buf a) = rest"
    using assms(2) by (metis add.commute append_eq_conv_conj asm_pending_def drop_drop)
  then show "configured ?a" "asm_pending ?a = rest" "as_resyncs ?a = as_resyncs a"
    using ok assms(1) by (simp_all add: configured_def) (simp add: asm_pending_def)
  have mt: "take (length magic) (r @ rest) = magic"
    using valid_magic [OF assms(3)] by (auto elim!: prefixE)
  have bm: "length r \<noteq> BAD_RECORD" "length r \<le> max_record" "length r \<noteq> 0"
    using valid_len [OF assms(3)] max_fits by auto
  show "asm_loop a = (r # fst (asm_loop ?a), snd (asm_loop ?a))"
    using assms bm mt len sizer_whole [OF assms(3), of rest]
    by (subst asm_loop.simps)
      (simp add: asm_pending_def [symmetric] configured_def Let_def case_prod_beta)
qed

lemma loop_part:
  assumes "configured a" "asm_pending a = q" "q = [] \<or> (strict_prefix q r \<and> valid r)"
  shows "asm_loop a = ([], a)"
proof (cases "q = []")
  case True
  then have "length (as_buf a) - as_pos a = 0" using assms(2) by (simp add: asm_pending_def)
  then show ?thesis by (subst asm_loop.simps) simp
next
  case False
  then have q: "strict_prefix q r" "valid r" using assms(3) by auto
  have len: "length (as_buf a) - as_pos a = length q" using arg_cong [OF assms(2), of length] by (simp add: asm_pending_def)
  have mt: "length magic \<le> length q \<Longrightarrow> take (length magic) q = magic"
    using valid_magic [OF q(2)] q(1)
    by (metis append_eq_conv_conj prefixE prefix_length_prefix prefix_order.less_imp_le)
  have ls: "length q < length r" using q(1) by (auto simp: strict_prefix_def elim!: prefixE)
  have s: "sizer q = 0 \<or> sizer q = length r" using sizer_part [OF q(2,1) False] .
  have lr: "length r \<noteq> BAD_RECORD" "length r \<le> max_record" using valid_len [OF q(2)] max_fits by auto
  show ?thesis
    using assms(1,2) s lr ls mt len False
    by (subst asm_loop.simps) (auto simp: asm_pending_def [symmetric] configured_def Let_def)
qed

lemma loop_records:
  "list_all valid rs \<Longrightarrow> configured a \<Longrightarrow> asm_pending a = concat rs @ q \<Longrightarrow>
     q = [] \<or> (strict_prefix q r \<and> valid r) \<Longrightarrow>
     \<exists>a'. asm_loop a = (rs, a') \<and> configured a' \<and> asm_pending a' = q \<and> as_resyncs a' = as_resyncs a"
proof (induction rs arbitrary: a)
  case Nil
  then show ?case using loop_part [of a q r] by simp
next
  case (Cons x rs)
  obtain a1 where a1: "configured a1" "asm_pending a1 = concat rs @ q" "as_resyncs a1 = as_resyncs a"
      "asm_loop a = (x # fst (asm_loop a1), snd (asm_loop a1))"
    using loop_record [of a x "concat rs @ q"] Cons.prems by auto
  then show ?case using Cons.IH [OF _ a1(1,2)] Cons.prems by auto
qed

lemma feed_records:
  assumes "list_all valid rs" "configured a" "asm_pending a @ d = concat rs @ q"
    and "q = [] \<or> (strict_prefix q r \<and> valid r)"
  shows "\<exists>a'. asm_feed a d = (rs, a') \<and> configured a' \<and> asm_pending a' = q \<and> as_resyncs a' = as_resyncs a"
proof -
  let ?a = "a\<lparr>as_buf := as_buf a @ d\<rparr>"
  have "configured ?a" "asm_pending ?a = concat rs @ q"
    using assms(2,3) by (simp_all add: configured_def asm_ok_def asm_pending_def)
  from loop_records [OF assms(1) this assms(4)] obtain a' where
    "asm_loop ?a = (rs, a')" "configured a'" "asm_pending a' = q" "as_resyncs a' = as_resyncs a" by auto
  then show ?thesis by (simp add: asm_feed_def configured_def)
qed

lemma feeds_records:
  "list_all valid rs \<Longrightarrow> configured a \<Longrightarrow> asm_pending a @ concat chunks = concat rs \<Longrightarrow>
     asm_pending a = [] \<or> (rs \<noteq> [] \<and> strict_prefix (asm_pending a) (hd rs)) \<Longrightarrow>
     fst (asm_feeds a chunks) = rs \<and> as_resyncs (snd (asm_feeds a chunks)) = as_resyncs a \<and>
     configured (snd (asm_feeds a chunks)) \<and> asm_pending (snd (asm_feeds a chunks)) = []"
proof (induction chunks arbitrary: a rs)
  case Nil
  have "rs = []"
  proof (rule ccontr)
    assume ne: "rs \<noteq> []"
    then have v: "valid (hd rs)" using Nil.prems(1) by (cases rs) auto
    have "length (asm_pending a) \<ge> length (hd rs)" using Nil.prems(3) ne by (cases rs) auto
    with Nil.prems(4) valid_len [OF v] show False by (auto simp: strict_prefix_def elim!: prefixE)
  qed
  with Nil show ?case by simp
next
  case (Cons c cs)
  have "prefix (asm_pending a @ c) (concat rs)" using Cons.prems(3) unfolding prefix_def by (intro exI [of _ "concat cs"]) simp
  moreover have "list_all (\<lambda>r. r \<noteq> []) rs" using Cons.prems(1) valid_len by (fastforce simp: list_all_iff)
  ultimately obtain rs1 rs2 q where d: "rs = rs1 @ rs2" "asm_pending a @ c = concat rs1 @ q"
      "q = [] \<or> (rs2 \<noteq> [] \<and> strict_prefix q (hd rs2))"
    using prefix_of_concat by blast
  have v: "list_all valid rs1" "list_all valid rs2" "rs2 \<noteq> [] \<Longrightarrow> valid (hd rs2)"
    using Cons.prems(1) d(1) by (auto simp: list_all_iff)
  obtain a' where a': "asm_feed a c = (rs1, a')" "configured a'" "asm_pending a' = q" "as_resyncs a' = as_resyncs a"
    using feed_records [OF v(1) Cons.prems(2) d(2), of "hd rs2"] d(3) v(3) by blast
  have "concat rs1 @ q @ concat cs = (asm_pending a @ c) @ concat cs" by (simp only: d(2) append_assoc)
  also have "\<dots> = concat rs1 @ concat rs2" using Cons.prems(3) d(1) by simp
  finally have "concat rs1 @ q @ concat cs = concat rs1 @ concat rs2" .
  then have "asm_pending a' @ concat cs = concat rs2" using a'(3) by simp
  from Cons.IH [OF v(2) a'(2) this] show ?case using a' d by (simp add: case_prod_beta)
qed

end

section \<open>The touch records are such a format\<close>

definition touch_valid :: "bytes \<Rightarrow> bool" where
  "touch_valid p \<longleftrightarrow> length p = RECORD_SIZE \<and> take MAGIC_LEN p = ui_magic"

lemma ui_magic_simps [simp]: "length ui_magic = 4" by (simp add: ui_magic_def)

lemma ui_recordSize_prefix:
  assumes "take 4 p = ui_magic" "length p = 22"
  shows "ui_recordSize (take k p @ (if k < 22 then [] else x)) = (if k < 22 then 0 else 22)"
proof -
  have e: "p ! i = ui_magic ! i" if "i < 4" for i
    using assms(1) that by (metis nth_take)
  have all: "list_all (\<lambda>i. (take k p @ (if k < 22 then [] else x)) ! i = ui_magic ! i)
      [0..<min 4 (length (take k p @ (if k < 22 then [] else x)))]"
    using e assms(2) by (auto simp: list_all_iff nth_append)
  have m: "(if length q < 4 then length q else 4) = min 4 (length q)" for q :: bytes by simp
  show ?thesis using all assms(2) unfolding ui_recordSize_def m Let_def by auto
qed

interpretation touch_format: record_format ui_recordSize ui_magic touch_valid MAX_FRAME_SIZE
proof unfold_locales
  fix r x q
  show "length ui_magic \<le> 8" "MAX_FRAME_SIZE < BAD_RECORD" by simp_all
  show "prefix ui_magic r" if "touch_valid r" using that by (metis take_is_prefix touch_valid_def)
  show "0 < length r \<and> length r \<le> MAX_FRAME_SIZE" if "touch_valid r" using that by (simp add: touch_valid_def)
  show "ui_recordSize (r @ x) = length r" if "touch_valid r"
    using that ui_recordSize_prefix [of r 22 x] by (simp add: touch_valid_def)
  assume v: "touch_valid r" and q: "strict_prefix q r" "q \<noteq> []"
  have "length q < 22" using v prefix_length_less [OF q(1)] by (simp add: touch_valid_def)
  moreover have "q = take (length q) r" using q(1) by (auto simp: strict_prefix_def elim!: prefixE)
  ultimately show "ui_recordSize q = NEED_MORE \<or> ui_recordSize q = length r"
    using v ui_recordSize_prefix [of r "length q" "[]"] by (auto simp: touch_valid_def)
qed

section \<open>Properties\<close>

text \<open>a channel that carries whole touch records delivers each of them once, unchanged and in order,
  and they decode to what was encoded, however the stream is split; nothing is left over and the
  assembler never resynchronises.\<close>

theorem touch_records_survive_chunking:
  assumes "list_all (\<lambda>r. tr_event r \<le> EV__MAX) rs" and "concat chunks = concat (map touch_encode rs)"
  defines "a \<equiv> asm_new (Some ui_recordSize) (Some ui_magic) MAGIC_LEN MAX_FRAME_SIZE"
  shows "map touch_decode (fst (asm_feeds a chunks)) = map Some rs \<and>
    asm_pending (snd (asm_feeds a chunks)) = [] \<and> as_resyncs (snd (asm_feeds a chunks)) = 0"
proof -
  have c: "touch_format.configured a" using touch_format.new_configured by (simp add: a_def)
  have v: "list_all touch_valid (map touch_encode rs)"
    by (simp add: list_all_iff touch_valid_def touch_encode_def)
  have p: "asm_pending a = []" "as_resyncs a = 0" by (simp_all add: a_def asm_new_def asm_pending_def)
  have "touch_decode (touch_encode r) = Some r" if "r \<in> set rs" for r
    using assms(1) that touch_decode_encode [of r "[]"] by (simp add: list_all_iff)
  then show ?thesis
    using touch_format.feeds_records [OF v c, of chunks] assms(2) p by simp
qed

lemma touch_records_survive_chunking_witness:
  "\<forall>r. map touch_decode (fst (asm_feeds (asm_new (Some ui_recordSize) (Some ui_magic) 4 MAX_FRAME_SIZE)
     [take 3 (touch_encode (r\<lparr>tr_event := 2\<rparr>)), drop 3 (touch_encode (r\<lparr>tr_event := 2\<rparr>))])) =
     [Some (r\<lparr>tr_event := 2\<rparr>)]"
proof
  fix r :: touch_record
  let ?c = "[take 3 (touch_encode (r\<lparr>tr_event := 2\<rparr>)), drop 3 (touch_encode (r\<lparr>tr_event := 2\<rparr>))]"
  show "map touch_decode (fst (asm_feeds (asm_new (Some ui_recordSize) (Some ui_magic) 4 MAX_FRAME_SIZE) ?c)) =
      [Some (r\<lparr>tr_event := 2\<rparr>)]"
    using touch_records_survive_chunking [of "[r\<lparr>tr_event := 2\<rparr>]" ?c] by (simp del: asm_feeds.simps)
qed

definition resync_first :: bytes where
  "resync_first = touch_encode \<lparr>tr_event = 2, tr_id = 0, tr_x = 5, tr_y = 6, tr_size = 0, tr_active = 1,
     tr_duration_ms = 0, tr_dx = 0, tr_dy = 0x5244\<rparr>"

lemma resync_first_valid: "length resync_first = 22" "take 4 resync_first = ui_magic" "touch_valid resync_first"
  by (simp_all add: resync_first_def touch_valid_def touch_encode_def)

lemma resync_first_bytes:
  "resync_first = [0x44, 0x52, 0x49, 0x31, 2, 0, 5, 0, 6, 0, 0, 0, 1, 0, 0, 0, 0, 0, 0, 0, 0x44, 0x52]"
  by (simp add: resync_first_def touch_encode_def ui_magic_def putU16LE_def putU32LE_def)

definition resync_asm :: "bytes \<Rightarrow> nat \<Rightarrow> nat \<Rightarrow> asm" where
  "resync_asm buf pos n = \<lparr>as_sizer = Some ui_recordSize, as_magic = ui_magic, as_maxRecord = MAX_FRAME_SIZE,
     as_buf = buf, as_pos = pos, as_resyncs = n\<rparr>"

lemma resync_asm_configured: "pos \<le> length buf \<Longrightarrow> touch_format.configured (resync_asm buf pos n)"
  by (simp add: resync_asm_def touch_format.configured_def asm_ok_def)

text \<open>One record taken, with something left behind it.\<close>

lemma resync_asm_takes:
  assumes "touch_valid r" "rest \<noteq> []"
  shows "asm_loop (resync_asm (r @ rest) 0 n) =
    (r # fst (asm_loop (resync_asm (r @ rest) 22 n)), snd (asm_loop (resync_asm (r @ rest) 22 n)))"
proof -
  have l: "length r = 22" using assms(1) by (simp add: touch_valid_def)
  have s: "ui_recordSize (r @ rest) = 22" using touch_format.sizer_whole [OF assms(1)] l by simp
  have c: "asm_compact (resync_asm (r @ rest) 22 n) = resync_asm (r @ rest) 22 n"
    using assms(2) l by (simp add: asm_compact_def resync_asm_def)
  have t: "take 4 r = ui_magic" using assms(1) by (simp add: touch_valid_def)
  show ?thesis
    using s c l t by (subst asm_loop.simps) (simp add: resync_asm_def Let_def case_prod_beta)
qed

lemma resync_asm_stuck:
  "asm_loop (resync_asm (resync_first @ [0x49]) 22 0) = ([], resync_asm (resync_first @ [0x49]) 20 1)"
proof -
  have b: "ui_recordSize [0x49] = BAD_RECORD" by (simp add: ui_recordSize_def ui_magic_def)
  have f: "findPattern (resync_first @ [0x49]) 23 ui_magic = 23"
    by (simp add: findPattern_def find_from.simps [of _ 23] resync_first_valid)
  show ?thesis
    using b f resync_first_valid
    by (subst asm_loop.simps)
      (simp add: resync_asm_def Let_def asm_resync_def keepTail_def asm_compact_def)
qed

lemma resync_asm_unsynced:
  "asm_loop (resync_asm (resync_first @ 0x49 # 0x31 # replicate 18 0) 22 0) =
     ([], resync_asm (resync_first @ 0x49 # 0x31 # replicate 18 0) 39 1)"
proof -
  have f: "findPattern (resync_first @ 0x49 # 0x31 # replicate 18 0) 23 ui_magic = 42"
    unfolding resync_first_bytes ui_magic_def by code_simp
  show ?thesis
    using f resync_first_valid
    by (subst asm_loop.simps)
      (simp add: resync_asm_def Let_def asm_resync_def keepTail_def asm_compact_def ui_magic_def)
qed


end
