(* ===== verification/Session.thy ===== *)
theory Session
  imports Assembler
begin

text \<open>
  \<^verbatim>\<open>Session\<close> (libs/usbproto/usbproto_session.cpp), which routes the frames of the bulk pipe to channels, and
  \<^verbatim>\<open>FileTransport\<close> (libs/usbproto/usbproto_file.cpp), which replays a capture as if it were the pipe. The
  callbacks a program installs are the list of events they are called with; the transport a session
  writes to is a parameter.
\<close>

section \<open>Session\<close>

record channel_state =
  cs_onRecord :: bool
  cs_assembler :: "asm option"

record session =
  se_parser :: parser
  se_channels :: "channel_state list"
  se_readBuf :: nat
  se_onFrame :: bool
  se_onOpened :: bool
  se_onClosed :: bool
  se_frames :: nat
  se_bytes :: nat

datatype session_event =
    FrameSeen u8 u8 bytes
  | Opened u8
  | Closed u8
  | Record u8 bytes

definition session_new :: session where
  "session_new = \<lparr>se_parser = parser_new,
     se_channels = replicate MAX_CHANNELS \<lparr>cs_onRecord = False, cs_assembler = None\<rparr>, se_readBuf = USB_BUF_SIZE,
     se_onFrame = False, se_onOpened = False, se_onClosed = False, se_frames = 0, se_bytes = 0\<rparr>"

definition setReadBufferSize :: "nat \<Rightarrow> session \<Rightarrow> session" where
  "setReadBufferSize n s = s\<lparr>se_readBuf := (if n < HEADER_SIZE then HEADER_SIZE else n)\<rparr>"

subsection \<open>Outbound\<close>

text \<open>\<open>send\<close> is the transport's; \<open>None\<close> is a null transport.\<close>

type_synonym 't sender = "bytes \<Rightarrow> 't \<Rightarrow> bool \<times> 't"

definition openChannel :: "'t sender option \<Rightarrow> u8 \<Rightarrow> 't \<Rightarrow> bool \<times> 't" where
  "openChannel transport channel t =
     (case transport of None \<Rightarrow> (False, t)
      | Some send \<Rightarrow> if unat channel \<ge> MAX_CHANNELS then (False, t)
                    else send (encodeHeader channel FLAG_OPEN 0) t)"

definition closeChannel :: "'t sender option \<Rightarrow> u8 \<Rightarrow> 't \<Rightarrow> bool \<times> 't" where
  "closeChannel transport channel t =
     (case transport of None \<Rightarrow> (False, t)
      | Some send \<Rightarrow> if unat channel \<ge> MAX_CHANNELS then (False, t)
                    else send (encodeHeader channel FLAG_CLOSE 0) t)"

function send_chunks :: "'t sender \<Rightarrow> u8 \<Rightarrow> bytes \<Rightarrow> nat \<Rightarrow> 't \<Rightarrow> bool \<times> 't" where
  "send_chunks send channel data sent t =
     (if sent < length data then
        let chunk = (if length data - sent > USB_MAX_PAYLOAD then USB_MAX_PAYLOAD else length data - sent);
            frame = encodeFrame [] channel FLAG_DATA (Some (drop sent data)) chunk;
            (ok, t') = send frame t
        in if \<not> ok then (False, t') else send_chunks send channel data (sent + chunk) t'
      else (True, t))"
  by auto
termination by (relation "measure (\<lambda>(send, channel, data, sent, t). length data - sent)") auto

declare send_chunks.simps [simp del]

definition sendData :: "'t sender option \<Rightarrow> u8 \<Rightarrow> bytes option \<Rightarrow> 't \<Rightarrow> bool \<times> 't" where
  "sendData transport channel data t =
     (case transport of None \<Rightarrow> (False, t)
      | Some send \<Rightarrow>
          if unat channel \<ge> MAX_CHANNELS then (False, t)
          else case data of None \<Rightarrow> (False, t)
            | Some d \<Rightarrow> if d = [] then (False, t) else send_chunks send channel d 0 t)"

subsection \<open>Inbound\<close>

definition setDataHandler :: "u8 \<Rightarrow> bool \<Rightarrow> session \<Rightarrow> session" where
  "setDataHandler channel fn s =
     (if unat channel \<ge> MAX_CHANNELS then s
      else s\<lparr>se_channels := (se_channels s)[unat channel := \<lparr>cs_onRecord = fn, cs_assembler = None\<rparr>]\<rparr>)"

definition setChannelReassembler :: "u8 \<Rightarrow> sizer option \<Rightarrow> bytes option \<Rightarrow> nat \<Rightarrow> bool \<Rightarrow> nat \<Rightarrow> session \<Rightarrow> session" where
  "setChannelReassembler channel sizer syncMagic syncLen onRecord maxRecord s =
     (if unat channel \<ge> MAX_CHANNELS then s
      else s\<lparr>se_channels := (se_channels s)[unat channel :=
             \<lparr>cs_onRecord = onRecord, cs_assembler = Some (asm_new sizer syncMagic syncLen maxRecord)\<rparr>]\<rparr>)"

definition clearChannel :: "u8 \<Rightarrow> session \<Rightarrow> session" where
  "clearChannel channel s =
     (if unat channel \<ge> MAX_CHANNELS then s
      else s\<lparr>se_channels := (se_channels s)[unat channel := \<lparr>cs_onRecord = False, cs_assembler = None\<rparr>]\<rparr>)"

text \<open>The lambda \<^verbatim>\<open>pump\<close> hands to the parser.\<close>

definition session_frame :: "mubd \<Rightarrow> session \<Rightarrow> session_event list \<times> session" where
  "session_frame f s =
     (case f of (ch, flags, payload) \<Rightarrow>
        let s = s\<lparr>se_frames := se_frames s + 1\<rparr>;
            seen = (if se_onFrame s then [FrameSeen ch flags payload] else [])
        in if unat ch \<ge> MAX_CHANNELS then (seen, s)
           else let cs = se_channels s ! unat ch in
             if flags = FLAG_OPEN then (seen @ (if se_onOpened s then [Opened ch] else []), s)
             else if flags = FLAG_CLOSE then
               (seen @ (if se_onClosed s then [Closed ch] else []),
                s\<lparr>se_channels := (se_channels s)[unat ch := cs\<lparr>cs_assembler := map_option asm_reset (cs_assembler cs)\<rparr>]\<rparr>)
             else if flags = FLAG_DATA then
               (if \<not> cs_onRecord cs \<or> payload = [] then (seen, s)
                else case cs_assembler cs of
                  Some a \<Rightarrow>
                    let (recs, a) = asm_feed a payload
                    in (seen @ map (Record ch) recs,
                        s\<lparr>se_channels := (se_channels s)[unat ch := cs\<lparr>cs_assembler := Some a\<rparr>]\<rparr>)
                | None \<Rightarrow> (seen @ [Record ch payload], s))
             else (seen, s))"

fun session_frames :: "mubd list \<Rightarrow> session \<Rightarrow> session_event list \<times> session" where
  "session_frames [] s = ([], s)"
| "session_frames (f # fs) s =
     (let (evs, s) = session_frame f s; (evs', s) = session_frames fs s in (evs @ evs', s))"

text \<open>What the transport's \<^verbatim>\<open>recv\<close> answers: a code of at most 0, or bytes.\<close>

datatype rx = RxCode int | RxData bytes

definition pump :: "bool \<Rightarrow> rx \<Rightarrow> session \<Rightarrow> int \<times> session_event list \<times> session" where
  "pump is_open received s =
     (if \<not> is_open then (-1, [], s)
      else case received of
        RxCode n \<Rightarrow> (n, [], s)
      | RxData d \<Rightarrow>
          if d = [] then (0, [], s)
          else
          let s = s\<lparr>se_bytes := se_bytes s + length d\<rparr>;
              (frames, p) = parser_feed (se_parser s) d;
              (evs, s) = session_frames frames (s\<lparr>se_parser := p\<rparr>)
          in (int (length d), evs, s))"

fun pumps :: "bytes list \<Rightarrow> session \<Rightarrow> session_event list \<times> session" where
  "pumps [] s = ([], s)"
| "pumps (d # ds) s =
     (let (_, evs, s) = pump True (RxData d) s; (evs', s) = pumps ds s in (evs @ evs', s))"

section \<open>FileTransport\<close>

text \<open>\<open>ft_fp\<close> is the open capture: its bytes and the read position. \<open>seekable\<close> is what \<^verbatim>\<open>fseek\<close> answers.\<close>

record file_transport =
  ft_fp :: "(bytes \<times> nat) option"
  ft_chunk :: nat
  ft_loop :: bool
  ft_ended :: bool
  ft_err :: string

definition ft_close :: "file_transport \<Rightarrow> file_transport" where
  "ft_close f = f\<lparr>ft_fp := None, ft_ended := False\<rparr>"

definition ft_open :: "string option \<Rightarrow> bytes option \<Rightarrow> bool \<Rightarrow> file_transport \<Rightarrow> bool \<times> file_transport" where
  "ft_open path contents lp f =
     (let f = (ft_close f)\<lparr>ft_err := []\<rparr> in
      if path = None \<or> path = Some [] then (False, f\<lparr>ft_err := ''no path given''\<rparr>)
      else case contents of
        None \<Rightarrow> (False, f\<lparr>ft_err := ''cannot open '' @ the path\<rparr>)
      | Some c \<Rightarrow> (True, f\<lparr>ft_fp := Some (c, 0), ft_loop := lp, ft_ended := False\<rparr>))"

definition ft_fread :: "nat \<Rightarrow> bytes \<times> nat \<Rightarrow> bytes \<times> (bytes \<times> nat)" where
  "ft_fread want fp = (case fp of (c, pos) \<Rightarrow> (take want (drop pos c), (c, min (length c) (pos + want))))"

definition ft_recv :: "bool \<Rightarrow> nat \<Rightarrow> file_transport \<Rightarrow> rx \<times> file_transport" where
  "ft_recv seekable bufSize f =
     (case ft_fp f of
        None \<Rightarrow> (RxCode (-1), f)
      | Some fp \<Rightarrow>
          if bufSize = 0 then (RxCode (-1), f)
          else if ft_ended f then (RxCode (-1), f)
          else
            let want = (if ft_chunk f \<noteq> 0 \<and> ft_chunk f < bufSize then ft_chunk f else bufSize);
                (got, fp) = ft_fread want fp;
                f = f\<lparr>ft_fp := Some fp\<rparr>
            in if got \<noteq> [] then (RxData got, f)
               else if ft_loop f then
                 (if \<not> seekable then (RxCode (-1), f\<lparr>ft_err := ''rewind failed'', ft_ended := True\<rparr>)
                  else
                    let (got, fp) = ft_fread want (fst fp, 0);
                        f = f\<lparr>ft_fp := Some fp\<rparr>
                    in if got \<noteq> [] then (RxData got, f)
                       else (RxCode (-1), f\<lparr>ft_err := ''capture is empty'', ft_ended := True\<rparr>))
               else (RxCode (-1), f\<lparr>ft_ended := True\<rparr>))"

section \<open>Routing\<close>

fun records_on :: "u8 \<Rightarrow> session_event list \<Rightarrow> bytes list" where
  "records_on ch [] = []"
| "records_on ch (Record c r # evs) = (if c = ch then r # records_on ch evs else records_on ch evs)"
| "records_on ch (_ # evs) = records_on ch evs"

lemma records_on_append [simp]: "records_on ch (xs @ ys) = records_on ch xs @ records_on ch ys"
  by (induction ch xs rule: records_on.induct) simp_all

lemma records_on_map [simp]: "records_on ch (map (Record c) rs) = (if c = ch then rs else [])"
  by (induction rs) auto

text \<open>The payloads a channel's assembler is fed.\<close>

fun payloads :: "u8 \<Rightarrow> mubd list \<Rightarrow> bytes list" where
  "payloads ch [] = []"
| "payloads ch ((c, fl, p) # fs) =
     (if c = ch \<and> fl = FLAG_DATA \<and> p \<noteq> [] then p # payloads ch fs else payloads ch fs)"

definition routes_to :: "u8 \<Rightarrow> asm \<Rightarrow> session \<Rightarrow> bool" where
  "routes_to ch a s \<longleftrightarrow> unat ch < 32 \<and> length (se_channels s) = 32 \<and>
     se_channels s ! unat ch = \<lparr>cs_onRecord = True, cs_assembler = Some a\<rparr>"

lemma session_frame_other:
  assumes "routes_to ch a s" "c \<noteq> ch \<or> (fl \<noteq> FLAG_DATA \<and> fl \<noteq> FLAG_CLOSE) \<or> (fl = FLAG_DATA \<and> p = [])"
  shows "records_on ch (fst (session_frame (c, fl, p) s)) = []" "routes_to ch a (snd (session_frame (c, fl, p) s))"
proof -
  have ne: "unat c \<noteq> unat ch" if "c \<noteq> ch" using that by (simp add: word_unat_eq_iff)
  show "records_on ch (fst (session_frame (c, fl, p) s)) = []"
    using assms by (auto simp: session_frame_def routes_to_def Let_def case_prod_beta split: option.splits)
  show "routes_to ch a (snd (session_frame (c, fl, p) s))"
    using assms ne by (auto simp: session_frame_def routes_to_def Let_def case_prod_beta split: option.splits)
qed

lemma session_frame_data:
  assumes "routes_to ch a s" "p \<noteq> []"
  shows "records_on ch (fst (session_frame (ch, FLAG_DATA, p) s)) = fst (asm_feed a p)"
    "routes_to ch (snd (asm_feed a p)) (snd (session_frame (ch, FLAG_DATA, p) s))"
  using assms by (auto simp: session_frame_def routes_to_def Let_def case_prod_beta)

lemma session_frames_records:
  "routes_to ch a s \<Longrightarrow> list_all (\<lambda>(c, fl, p). \<not> (c = ch \<and> fl = FLAG_CLOSE)) fs \<Longrightarrow>
     records_on ch (fst (session_frames fs s)) = fst (asm_feeds a (payloads ch fs))"
proof (induction fs arbitrary: a s)
  case (Cons f fs)
  obtain c fl p where f: "f = (c, fl, p)" by (cases f)
  show ?case
  proof (cases "c = ch \<and> fl = FLAG_DATA \<and> p \<noteq> []")
    case True
    with f show ?thesis
      using session_frame_data [OF Cons.prems(1), of p] Cons.IH [of "snd (asm_feed a p)"] Cons.prems
      by (simp add: case_prod_beta Let_def)
  next
    case False
    then have "c \<noteq> ch \<or> (fl \<noteq> FLAG_DATA \<and> fl \<noteq> FLAG_CLOSE) \<or> (fl = FLAG_DATA \<and> p = [])"
      using Cons.prems(2) f by auto
    from session_frame_other [OF Cons.prems(1) this] show ?thesis
      using Cons.IH Cons.prems(2) f False by (auto simp: case_prod_beta Let_def)
  qed
qed simp

text \<open>Pumping chunk by chunk is routing the frames the parser cuts; the read and frame counters aside.\<close>

lemma session_frames_bytes [simp]:
  "fst (session_frame f (s\<lparr>se_bytes := n\<rparr>)) = fst (session_frame f s)"
  "snd (session_frame f (s\<lparr>se_bytes := n\<rparr>)) = (snd (session_frame f s))\<lparr>se_bytes := n\<rparr>"
  "fst (session_frame f (s\<lparr>se_parser := q\<rparr>)) = fst (session_frame f s)"
  "snd (session_frame f (s\<lparr>se_parser := q\<rparr>)) = (snd (session_frame f s))\<lparr>se_parser := q\<rparr>"
  by (simp_all add: session_frame_def Let_def case_prod_beta split: option.splits)

lemma session_frame_parser [simp]:
  "se_parser (snd (session_frame f s)) = se_parser s"
  by (simp add: session_frame_def Let_def case_prod_beta split: option.splits)

lemma session_frames_frame [simp]:
  "fst (session_frames fs (s\<lparr>se_bytes := n\<rparr>)) = fst (session_frames fs s)"
  "snd (session_frames fs (s\<lparr>se_bytes := n\<rparr>)) = (snd (session_frames fs s))\<lparr>se_bytes := n\<rparr>"
  "fst (session_frames fs (s\<lparr>se_parser := q\<rparr>)) = fst (session_frames fs s)"
  "snd (session_frames fs (s\<lparr>se_parser := q\<rparr>)) = (snd (session_frames fs s))\<lparr>se_parser := q\<rparr>"
  by (induction fs arbitrary: s) (simp_all add: case_prod_beta Let_def)

lemma session_frames_append:
  "session_frames (xs @ ys) s =
     (fst (session_frames xs s) @ fst (session_frames ys (snd (session_frames xs s))),
      snd (session_frames ys (snd (session_frames xs s))))"
  by (induction xs arbitrary: s) (simp_all add: case_prod_beta Let_def)

lemma pumps_frames:
  "list_all (\<lambda>d. d \<noteq> []) chunks \<Longrightarrow> fst (pumps chunks s) = fst (session_frames (fst (parser_feeds (se_parser s) chunks)) s)"
proof (induction chunks arbitrary: s)
  case (Cons d ds)
  let ?fs = "fst (parser_feed (se_parser s) d)" and ?p = "snd (parser_feed (se_parser s) d)"
  let ?s = "(snd (session_frames ?fs s))\<lparr>se_parser := ?p, se_bytes := se_bytes s + length d\<rparr>"
  have "snd (snd (pump True (RxData d) s)) = ?s" "fst (snd (pump True (RxData d) s)) = fst (session_frames ?fs s)"
    using Cons.prems by (simp_all add: pump_def Let_def case_prod_beta)
  then show ?case
    using Cons.IH [of ?s] Cons.prems by (simp add: case_prod_beta Let_def session_frames_append)
qed simp

section \<open>Sending\<close>

text \<open>A transport that keeps what it is given, frame by frame.\<close>

definition collect :: "bytes list sender" where
  "collect b t = (True, t @ [b])"

lemma encodeFrame_prefix:
  "n \<le> length p \<Longrightarrow> encodeFrame [] ch fl (Some p) n = mubd_frame ch fl (take n p)"
  using encodeFrame_eq [of "[]" ch fl "take n p"]
  by (cases "n = 0") (simp_all add: encodeFrame_def Let_def)

lemma send_chunks_frames:
  "\<exists>ps. send_chunks collect ch d sent t = (True, t @ map (mubd_frame ch FLAG_DATA) ps) \<and>
     concat ps = drop sent d \<and> list_all (\<lambda>p. p \<noteq> [] \<and> length p \<le> USB_MAX_PAYLOAD) ps"
proof (induction "length d - sent" arbitrary: sent t rule: less_induct)
  case less
  show ?case
  proof (cases "sent < length d")
    case False
    then show ?thesis by (subst send_chunks.simps) (auto intro: exI [of _ "[]"])
  next
    case True
    define n where "n = (if length d - sent > USB_MAX_PAYLOAD then USB_MAX_PAYLOAD else length d - sent)"
    have n: "0 < n" "n \<le> length d - sent" "n \<le> USB_MAX_PAYLOAD" using True by (auto simp: n_def)
    let ?p = "take n (drop sent d)"
    have e: "encodeFrame [] ch FLAG_DATA (Some (drop sent d)) n = mubd_frame ch FLAG_DATA ?p"
      using n by (intro encodeFrame_prefix) simp
    have l: "length d - (sent + n) < length d - sent" using n True by simp
    obtain ps where ps: "send_chunks collect ch d (sent + n) (t @ [mubd_frame ch FLAG_DATA ?p]) =
        (True, (t @ [mubd_frame ch FLAG_DATA ?p]) @ map (mubd_frame ch FLAG_DATA) ps)"
        "concat ps = drop (sent + n) d" "list_all (\<lambda>p. p \<noteq> [] \<and> length p \<le> USB_MAX_PAYLOAD) ps"
      using less [OF l] by blast
    have s: "send_chunks collect ch d sent t =
        send_chunks collect ch d (sent + n) (t @ [mubd_frame ch FLAG_DATA ?p])"
      using True e by (subst send_chunks.simps) (simp add: n_def [symmetric] Let_def collect_def)
    have "drop sent d = ?p @ drop (sent + n) d"
      by (metis add.commute append_take_drop_id drop_drop)
    then show ?thesis
      using ps n s True by (intro exI [of _ "?p # ps"]) (simp add: add.commute)
  qed
qed

lemma sendData_frames:
  assumes "unat ch < 32" "d \<noteq> []"
  obtains ps where "sendData (Some collect) ch (Some d) t = (True, t @ map (mubd_frame ch FLAG_DATA) ps)"
    "concat ps = d" "list_all (\<lambda>p. p \<noteq> [] \<and> length p \<le> USB_MAX_PAYLOAD) ps"
  using send_chunks_frames [of ch d 0 t] assms by (auto simp: sendData_def)

lemma mubd_of_inject:
  "length p \<le> MAX_FRAME_SIZE \<Longrightarrow> length q \<le> MAX_FRAME_SIZE \<Longrightarrow>
     mubd_frame c f p = mubd_frame c' f' q \<Longrightarrow> c = c' \<and> f = f' \<and> p = q"
  by (metis mubd_frame_verdict(2) prod.inject)

lemma payloads_of_sent:
  "list_all frame_fits fs \<Longrightarrow> list_all (\<lambda>p. p \<noteq> [] \<and> length p \<le> USB_MAX_PAYLOAD) ps \<Longrightarrow>
     map mubd_of (filter (\<lambda>f. fst f = ch) fs) = map (mubd_frame ch FLAG_DATA) ps \<Longrightarrow>
     payloads ch fs = ps \<and> list_all (\<lambda>(c, fl, p). \<not> (c = ch \<and> fl = FLAG_CLOSE)) fs"
proof (induction fs arbitrary: ps)
  case (Cons f fs)
  obtain c fl p where f: "f = (c, fl, p)" by (cases f)
  show ?case
  proof (cases "c = ch")
    case False
    with Cons f show ?thesis by simp
  next
    case True
    then obtain q qs where ps: "ps = q # qs" using Cons.prems(3) f by (cases ps) auto
    have "fl = FLAG_DATA \<and> p = q"
      using mubd_of_inject [of p q ch fl ch FLAG_DATA] Cons.prems True f ps by (simp add: frame_fits_def)
    with Cons.IH [of qs] Cons.prems True f ps show ?thesis by simp
  qed
qed simp

section \<open>Replaying a capture\<close>

definition ft_left :: "file_transport \<Rightarrow> bytes" where
  "ft_left f = (case ft_fp f of Some (c, pos) \<Rightarrow> drop pos c | None \<Rightarrow> [])"

lemma ft_recv_data:
  "ft_recv sk n f = (RxData d, f') \<Longrightarrow> \<not> ft_loop f \<Longrightarrow>
     d \<noteq> [] \<and> ft_left f = d @ ft_left f' \<and> length (ft_left f') < length (ft_left f) \<and> \<not> ft_loop f' \<and> length d \<le> n"
  by (auto simp: ft_recv_def ft_fread_def ft_left_def Let_def min_def add.commute
      split: option.splits prod.splits if_splits)
    (metis append_take_drop_id drop_drop add.commute)+

text \<open>Reading a capture that does not loop, until it ends.\<close>

function ft_drain :: "nat \<Rightarrow> file_transport \<Rightarrow> bytes list" where
  "ft_drain bufSize f =
     (case ft_recv True bufSize f of
        (RxCode _, _) \<Rightarrow> []
      | (RxData d, f') \<Rightarrow> if ft_loop f then [d] else d # ft_drain bufSize f')"
  by auto
termination
  by (relation "measure (\<lambda>(n, f). length (ft_left f))") (auto dest!: sym [of "(_, _)"] ft_recv_data)

lemma ft_drain_all:
  "0 < n \<Longrightarrow> \<not> ft_loop f \<Longrightarrow> \<not> ft_ended f \<Longrightarrow> ft_fp f \<noteq> None \<Longrightarrow>
     concat (ft_drain n f) = ft_left f \<and> list_all (\<lambda>d. d \<noteq> []) (ft_drain n f)"
proof (induction n f rule: ft_drain.induct)
  case (1 n f)
  obtain r f' where r: "ft_recv True n f = (r, f')" by force
  show ?case
  proof (cases r)
    case (RxCode c)
    with r 1(2-5) have "ft_left f = []"
      by (auto simp: ft_recv_def ft_fread_def ft_left_def Let_def split: option.splits prod.splits if_splits)
    with RxCode r show ?thesis by simp
  next
    case (RxData d)
    note d = ft_recv_data [OF r [unfolded RxData] 1(3)]
    have "\<not> ft_ended f'" "ft_fp f' \<noteq> None"
      using r RxData 1(3-5)
      by (auto simp: ft_recv_def Let_def split: option.splits prod.splits if_splits)
    then show ?thesis using 1 r RxData d by simp
  qed
qed

lemma routes_to_new:
  assumes "unat ch < 32"
  shows "routes_to ch (asm_new sizer m n mx) (setChannelReassembler ch sizer m n True mx session_new)"
  using assms by (simp add: routes_to_def setChannelReassembler_def session_new_def)

lemma parser_of_reassembler [simp]: "se_parser (setChannelReassembler ch sizer m n r mx session_new) = parser_new"
  by (simp add: setChannelReassembler_def session_new_def)

lemma parser_feeds_frames:
  assumes "list_all frame_fits fs" "concat chunks = concat (map mubd_of fs)"
  shows "fst (parser_feeds parser_new chunks) = fs"
  using cut_frames [OF assms(1), of "[]"] map_frame_of [OF assms(1)] assms(2)
  by (simp add: parser_feeds_concat cut_Wait)

section \<open>Properties\<close>

text \<open>C8: records sent with sendData on one channel arrive: whatever frames of other channels share the
  pipe, however the pipe cuts the bytes into reads, and also when the bytes are replayed from a
  capture file in chunks of any size, the session's handler for the channel is called with exactly
  those records in order.\<close>

theorem session_delivers_records:
  assumes "record_format sizer magic valid max_record" and "list_all valid rs" and "rs \<noteq> []" and "unat ch < MAX_CHANNELS"
    and "sendData (Some collect) ch (Some (concat rs)) [] = (True, sent)"
    and "list_all frame_fits fs" and "map mubd_of (filter (\<lambda>f. fst f = ch) fs) = sent"
    and "ft_open (Some (c # path)) (Some (concat (map mubd_of fs))) False f = (True, capture)" and "0 < bufSize"
    and "list_all (\<lambda>d. d \<noteq> []) chunks" and "concat chunks = concat (map mubd_of fs)"
  defines "s \<equiv> setChannelReassembler ch (Some sizer) (Some magic) (length magic) True max_record session_new"
  shows "records_on ch (fst (pumps chunks s)) = rs \<and>
    records_on ch (fst (pumps (ft_drain bufSize capture) s)) = rs"
proof -
  note fmt = record_format.valid_len [OF assms(1)] record_format.new_configured [OF assms(1)]
  have ne: "concat rs \<noteq> []" using assms(2,3) fmt(1) by (cases rs) auto
  obtain ps where ps: "sent = map (mubd_frame ch FLAG_DATA) ps" "concat ps = concat rs"
      "list_all (\<lambda>p. p \<noteq> [] \<and> length p \<le> USB_MAX_PAYLOAD) ps"
    using sendData_frames [OF _ ne, of ch "[]"] assms(4,5) by auto
  note pl = payloads_of_sent [OF assms(6) ps(3) assms(7) [unfolded ps(1)]]
  let ?a = "asm_new (Some sizer) (Some magic) (length magic) max_record"
  have new: "asm_pending ?a = []" by (simp add: asm_new_def asm_pending_def Let_def)
  have general: "records_on ch (fst (pumps ds s)) = rs"
    if "list_all (\<lambda>d. d \<noteq> []) ds" "concat ds = concat (map mubd_of fs)" for ds
  proof -
    have "fst (parser_feeds parser_new ds) = fs"
      by (rule parser_feeds_frames [OF assms(6) that(2)])
    then show ?thesis
      using pumps_frames [OF that(1), of s] session_frames_records [OF routes_to_new, of ch] pl
        record_format.feeds_records [OF assms(1,2) fmt(2), of ps] ps(2) new assms(4)
      by (simp add: s_def)
  qed
  have "concat (ft_drain bufSize capture) = concat (map mubd_of fs) \<and> list_all (\<lambda>d. d \<noteq> []) (ft_drain bufSize capture)"
    using ft_drain_all [OF assms(9), of capture] assms(8)
    by (auto simp: ft_open_def ft_close_def ft_left_def Let_def)
  with general assms(10,11) show ?thesis by blast
qed

definition demo_touch :: bytes where
  "demo_touch = touch_encode \<lparr>tr_event = 0, tr_id = 1, tr_x = 5, tr_y = 6, tr_size = 0, tr_active = 1,
     tr_duration_ms = 9, tr_dx = 0, tr_dy = 0\<rparr>"

lemma session_delivers_records_witness:
  "records_on 11 (fst (pumps (ft_drain 7 \<lparr>ft_fp = Some (concat (map mubd_of
      [(3, FLAG_OPEN, []), (11, FLAG_DATA, demo_touch), (3, FLAG_DATA, [1, 2])]), 0),
      ft_chunk = 5, ft_loop = False, ft_ended = False, ft_err = []\<rparr>)
    (setChannelReassembler 11 (Some ui_recordSize) (Some ui_magic) 4 True MAX_FRAME_SIZE session_new))) = [demo_touch]"
proof -
  let ?fs = "[(3, FLAG_OPEN, []), (11, FLAG_DATA, demo_touch), (3, FLAG_DATA, [1, 2])] :: mubd list"
  let ?f = "\<lparr>ft_fp = None, ft_chunk = 5, ft_loop = False, ft_ended = False, ft_err = []\<rparr>"
  let ?cap = "\<lparr>ft_fp = Some (concat (map mubd_of ?fs), 0), ft_chunk = 5, ft_loop = False, ft_ended = False, ft_err = []\<rparr>"
  have len: "length demo_touch = 22" by (simp add: demo_touch_def)
  have v: "list_all touch_valid [demo_touch]"
    by (simp add: touch_valid_def demo_touch_def touch_encode_def)
  have sent: "sendData (Some collect) 11 (Some (concat [demo_touch])) [] = (True, [mubd_frame 11 FLAG_DATA demo_touch])"
    using len encodeFrame_prefix [of 22 demo_touch 11 FLAG_DATA]
    by (auto simp: sendData_def send_chunks.simps [of _ _ _ 0] send_chunks.simps [of _ _ _ 22] collect_def)
  have fit: "list_all frame_fits ?fs" by (simp add: frame_fits_def len)
  have opn: "ft_open (Some ''x'') (Some (concat (map mubd_of ?fs))) False ?f = (True, ?cap)"
    by (simp add: ft_open_def ft_close_def)
  have c: "concat [concat (map mubd_of ?fs)] = concat (map mubd_of ?fs)" by (simp only: concat.simps append_Nil2)
  have "mubd_frame 3 FLAG_OPEN [] \<noteq> []" by (metis length_mubd_frame add_is_0 list.size(3) zero_neq_numeral)
  then have ne: "list_all (\<lambda>d. d \<noteq> []) [concat (map mubd_of ?fs)]" by simp
  have sel: "map mubd_of (filter (\<lambda>f. fst f = 11) ?fs) = [mubd_frame 11 FLAG_DATA demo_touch]" by simp
  have "[demo_touch] \<noteq> []" "unat (11 :: u8) < 32" "0 < (7 :: nat)" by simp_all
  from session_delivers_records [OF touch_format.record_format_axioms v this(1,2) sent fit sel opn this(3) ne c]
  show ?thesis by (simp del: ft_drain.simps)
qed

end
