(* ===== verification/Broker.thy ===== *)
theory Broker
  imports Session
begin

text \<open>
  \<^verbatim>\<open>Broker\<close> (libs/usbproto/usbproto_broker.cpp), which shares the USB link between local clients: each
  client has a bounded outbound queue written without blocking, and its bytes are cut into whole
  frames before they are forwarded. What the sockets answer is given call by call.
\<close>

section \<open>Clients\<close>

text \<open>An answer of \<^verbatim>\<open>send\<close>: some bytes taken, the socket full, or another error. A list that ends is a full
  socket.\<close>

datatype sock_answer = Took nat | WouldBlock | SockError

record client =
  cl_sock :: nat
  cl_parser :: parser
  cl_out :: bytes
  cl_outPos :: nat

definition client_new :: "nat \<Rightarrow> client" where
  "client_new sock = \<lparr>cl_sock = sock, cl_parser = parser_new, cl_out = [], cl_outPos = 0\<rparr>"

text \<open>The loop of \<^verbatim>\<open>flush\<close>: the bytes the socket took, whether the client is kept, the new offset.\<close>

fun flush_loop :: "sock_answer list \<Rightarrow> bytes \<Rightarrow> nat \<Rightarrow> bytes \<times> bool \<times> nat" where
  "flush_loop [] out pos = ([], True, pos)"
| "flush_loop (ans # answers) out pos =
     (if pos < length out then
        (case ans of
           Took n \<Rightarrow>
             if n > 0 then
               (let n = min n (min 65536 (length out - pos));
                    (taken, alive, pos') = flush_loop answers out (pos + n)
                in (take n (drop pos out) @ taken, alive, pos'))
             else ([], False, pos)
         | WouldBlock \<Rightarrow> ([], True, pos)
         | SockError \<Rightarrow> ([], False, pos))
      else ([], True, pos))"

definition broker_flush :: "sock_answer list \<Rightarrow> client \<Rightarrow> bytes \<times> bool \<times> client" where
  "broker_flush answers c =
     (let (taken, alive, pos) = flush_loop answers (cl_out c) (cl_outPos c) in
      if \<not> alive then (taken, False, c\<lparr>cl_outPos := pos\<rparr>)
      else if pos = length (cl_out c) then (taken, True, c\<lparr>cl_out := [], cl_outPos := 0\<rparr>)
      else if pos > 1048576 then (taken, True, c\<lparr>cl_out := drop pos (cl_out c), cl_outPos := 0\<rparr>)
      else (taken, True, c\<lparr>cl_outPos := pos\<rparr>))"

section \<open>Broadcasting\<close>

text \<open>One client's turn in \<^verbatim>\<open>broadcast\<close>: \<open>None\<close> when it is dropped, with whether the limit was the reason.\<close>

definition client_broadcast :: "nat \<Rightarrow> bytes \<Rightarrow> sock_answer list \<Rightarrow> client \<Rightarrow> bytes \<times> bool \<times> client option" where
  "client_broadcast limit frame answers c =
     (let queued = length (cl_out c) - cl_outPos c in
      if queued + length frame > limit then ([], True, None)
      else
        let c = c\<lparr>cl_out := cl_out c @ frame\<rparr>;
            (taken, alive, c) = broker_flush answers c
        in (taken, False, if alive then Some c else None))"

record broker =
  br_running :: bool
  br_clients :: "client list"
  br_queueLimit :: nat
  br_relayed :: nat
  br_injected :: nat
  br_dropped :: nat

definition broker_new :: broker where
  "broker_new = \<lparr>br_running = False, br_clients = [], br_queueLimit = 8388608, br_relayed = 0, br_injected = 0,
     br_dropped = 0\<rparr>"

fun broadcast_clients :: "nat \<Rightarrow> bytes \<Rightarrow> (nat \<Rightarrow> sock_answer list) \<Rightarrow> client list \<Rightarrow>
    (nat \<times> bytes) list \<times> nat \<times> client list" where
  "broadcast_clients limit frame answers [] = ([], 0, [])"
| "broadcast_clients limit frame answers (c # cs) =
     (let (taken, over, kept) = client_broadcast limit frame (answers (cl_sock c)) c;
          (wire, n, cs') = broadcast_clients limit frame answers cs
      in ((cl_sock c, taken) # wire, (if over then 1 else 0) + n,
          (case kept of Some c' \<Rightarrow> c' # cs' | None \<Rightarrow> cs')))"

definition broadcast :: "bytes option \<Rightarrow> (nat \<Rightarrow> sock_answer list) \<Rightarrow> broker \<Rightarrow> (nat \<times> bytes) list \<times> broker" where
  "broadcast frame answers b =
     (case frame of None \<Rightarrow> ([], b)
      | Some f \<Rightarrow>
          if \<not> br_running b \<or> f = [] then ([], b)
          else
            let (wire, n, cs) = broadcast_clients (br_queueLimit b) f answers (br_clients b)
            in (wire, b\<lparr>br_clients := cs, br_dropped := br_dropped b + n, br_relayed := br_relayed b + 1\<rparr>))"

definition setClientQueueLimit :: "nat \<Rightarrow> broker \<Rightarrow> broker" where
  "setClientQueueLimit n b = (if n > 0 then b\<lparr>br_queueLimit := n\<rparr> else b)"

section \<open>Polling\<close>

text \<open>An answer of \<^verbatim>\<open>recv\<close>: bytes, a clean close, nothing more, or an error.\<close>

datatype recv_answer = Got bytes | RecvClosed | RecvBlock | RecvError

fun client_reads :: "recv_answer list \<Rightarrow> parser \<Rightarrow> mubd list \<times> bool \<times> parser" where
  "client_reads [] p = ([], True, p)"
| "client_reads (ans # answers) p =
     (case ans of
        Got d \<Rightarrow> (let (frames, p) = parser_feed p d; (frames', alive, p) = client_reads answers p
                 in (frames @ frames', alive, p))
      | RecvClosed \<Rightarrow> ([], False, p)
      | RecvBlock \<Rightarrow> ([], True, p)
      | RecvError \<Rightarrow> ([], False, p))"

text \<open>What select and the sockets say in one \<^verbatim>\<open>poll\<close>: the connections waiting, and per socket whether it is
  writable and readable with the answers that follow.\<close>

record poll_env =
  pe_rc :: int
  pe_accepted :: "nat list"
  pe_writable :: "nat \<Rightarrow> bool"
  pe_readable :: "nat \<Rightarrow> bool"
  pe_sends :: "nat \<Rightarrow> sock_answer list"
  pe_recvs :: "nat \<Rightarrow> recv_answer list"

text \<open>One client's turn: the bytes sent, the frames forwarded and the client, unless it is dropped.\<close>

definition client_poll :: "poll_env \<Rightarrow> client \<Rightarrow> bytes \<times> mubd list \<times> client option" where
  "client_poll e c =
     (let (taken, alive, c) =
        (if cl_outPos c < length (cl_out c) \<and> pe_writable e (cl_sock c) then broker_flush (pe_sends e (cl_sock c)) c
         else ([], True, c));
          (frames, alive, c) =
        (if alive \<and> pe_readable e (cl_sock c) then
           (let (frames, alive, p) = client_reads (pe_recvs e (cl_sock c)) (cl_parser c)
            in (frames, alive, c\<lparr>cl_parser := p\<rparr>))
         else ([], alive, c))
      in (taken, frames, if alive then Some c else None))"

fun poll_clients :: "poll_env \<Rightarrow> client list \<Rightarrow> (nat \<times> bytes) list \<times> mubd list \<times> client list" where
  "poll_clients e [] = ([], [], [])"
| "poll_clients e (c # cs) =
     (let (taken, frames, kept) = client_poll e c; (wire, frames', cs') = poll_clients e cs
      in ((cl_sock c, taken) # wire, frames @ frames', (case kept of Some c' \<Rightarrow> c' # cs' | None \<Rightarrow> cs')))"

text \<open>\<open>handler\<close> says whether \<^verbatim>\<open>onClientFrame\<close> is set; the result is what it was called with.\<close>

definition broker_poll :: "poll_env \<Rightarrow> bool \<Rightarrow> broker \<Rightarrow> bytes list \<times> (nat \<times> bytes) list \<times> broker" where
  "broker_poll e handler b =
     (if \<not> br_running b \<or> pe_rc e \<le> 0 then ([], [], b)
      else
        let cs = br_clients b @ map client_new (pe_accepted e);
            (wire, frames, cs) = poll_clients e cs;
            calls = (if handler then map (\<lambda>(ch, fl, p). encodeFrame [] ch fl (Some p) (length p)) frames else [])
        in (calls, wire, b\<lparr>br_clients := cs, br_injected := br_injected b + length calls\<rparr>))"

section \<open>A client's stream\<close>

lemma flush_loop_facts:
  "flush_loop answers out pos = (taken, alive, pos') \<Longrightarrow> pos \<le> length out \<Longrightarrow>
     taken @ drop pos' out = drop pos out \<and> pos \<le> pos' \<and> pos' \<le> length out"
proof (induction answers out pos arbitrary: taken rule: flush_loop.induct)
  case (2 ans answers out pos)
  show ?case
  proof (cases "pos < length out")
    case False
    with 2 show ?thesis by simp
  next
    case lt: True
    show ?thesis
    proof (cases "\<exists>n. ans = Took n \<and> n > 0")
      case False
      with 2 lt show ?thesis by (cases ans) auto
    next
      case True
      then obtain n where n: "ans = Took n" "n > 0" by blast
      define m where m: "m = min n (min 65536 (length out - pos))"
      have le: "pos + m \<le> length out" using lt by (simp add: m)
      obtain t a p where f: "flush_loop answers out (pos + m) = (t, a, p)" by (cases "flush_loop answers out (pos + m)")
      then have eq: "taken = take m (drop pos out) @ t" "alive = a" "pos' = p"
        using 2(2) lt n by (simp_all add: Let_def m)
      have ih: "t @ drop pos' out = drop (pos + m) out" "pos + m \<le> pos'" "pos' \<le> length out"
        using 2(1) [OF lt n m f [folded eq(2,3)] le] by blast+
      have "taken @ drop pos' out = take m (drop pos out) @ drop (pos + m) out"
        unfolding eq(1) append_assoc ih(1) ..
      also have "\<dots> = drop pos out" by (metis add.commute append_take_drop_id drop_drop)
      finally show ?thesis using ih(2,3) by linarith
    qed
  qed
qed simp

definition client_ok :: "client \<Rightarrow> bool" where
  "client_ok c \<longleftrightarrow> cl_outPos c \<le> length (cl_out c)"

definition client_pending :: "client \<Rightarrow> bytes" where
  "client_pending c = drop (cl_outPos c) (cl_out c)"

lemma broker_flush_facts:
  assumes "broker_flush answers c = (taken, alive, c')" "client_ok c"
  shows "taken @ client_pending c' = client_pending c" "client_ok c'" "cl_sock c' = cl_sock c"
proof -
  obtain t a p where f: "flush_loop answers (cl_out c) (cl_outPos c) = (t, a, p)"
    by (cases "flush_loop answers (cl_out c) (cl_outPos c)")
  have "t @ drop p (cl_out c) = drop (cl_outPos c) (cl_out c) \<and> cl_outPos c \<le> p \<and> p \<le> length (cl_out c)"
    using flush_loop_facts [OF f] assms(2) by (simp add: client_ok_def)
  then show "taken @ client_pending c' = client_pending c" "client_ok c'" "cl_sock c' = cl_sock c"
    using assms(1) f by (auto simp: broker_flush_def client_pending_def client_ok_def Let_def split: if_splits)
qed

text \<open>A client's life from its own side: broadcasts and the flushes of \<^verbatim>\<open>poll\<close>, until it is dropped. The
  result is everything its socket took, and the client if it is still there.\<close>

datatype client_op = Relay bytes "sock_answer list" | Drain "sock_answer list"

fun client_run :: "nat \<Rightarrow> client_op list \<Rightarrow> client \<Rightarrow> bytes \<times> client option" where
  "client_run limit [] c = ([], Some c)"
| "client_run limit (Relay frame answers # ops) c =
     (case client_broadcast limit frame answers c of
        (taken, _, None) \<Rightarrow> (taken, None)
      | (taken, _, Some c') \<Rightarrow> (let (taken', r) = client_run limit ops c' in (taken @ taken', r)))"
| "client_run limit (Drain answers # ops) c =
     (case broker_flush answers c of
        (taken, False, _) \<Rightarrow> (taken, None)
      | (taken, True, c') \<Rightarrow> (let (taken', r) = client_run limit ops c' in (taken @ taken', r)))"

fun relayed :: "client_op list \<Rightarrow> bytes list" where
  "relayed [] = []"
| "relayed (Relay frame _ # ops) = frame # relayed ops"
| "relayed (Drain _ # ops) = relayed ops"

lemma client_broadcast_facts:
  assumes "client_broadcast limit frame answers c = (taken, over, r)" "client_ok c"
  shows "\<exists>rest. taken @ rest = client_pending c @ frame \<and>
    (\<forall>c'. r = Some c' \<longrightarrow> client_ok c' \<and> client_pending c' = rest \<and> length rest \<le> limit)"
proof (cases "length (cl_out c) - cl_outPos c + length frame > limit")
  case True
  with assms(1) show ?thesis by (auto simp: client_broadcast_def)
next
  case False
  let ?c = "c\<lparr>cl_out := cl_out c @ frame\<rparr>"
  obtain t a c2 where f: "broker_flush answers ?c = (t, a, c2)" by (cases "broker_flush answers ?c")
  have ok: "client_ok ?c" "client_pending ?c = client_pending c @ frame"
    using assms(2) by (simp_all add: client_ok_def client_pending_def)
  note ff = broker_flush_facts [OF f ok(1)]
  have eq: "taken = t" "r = (if a then Some c2 else None)" using assms(1) False f by (simp_all add: client_broadcast_def)
  have "length (client_pending c2) \<le> limit"
    using arg_cong [OF ff(1), of length] False ok(2) by (simp add: client_pending_def)
  with ff ok eq show ?thesis by auto
qed

lemma client_run_stream:
  "client_ok c \<Longrightarrow> client_run limit ops c = (taken, r) \<Longrightarrow>
     prefix taken (client_pending c @ concat (relayed ops)) \<and>
     (\<forall>c'. r = Some c' \<longrightarrow> taken @ client_pending c' = client_pending c @ concat (relayed ops) \<and> client_ok c')"
proof (induction limit ops c arbitrary: taken r rule: client_run.induct)
  case (2 limit frame answers ops c)
  obtain t over k where b: "client_broadcast limit frame answers c = (t, over, k)"
    by (cases "client_broadcast limit frame answers c")
  obtain rest where rest: "t @ rest = client_pending c @ frame"
      "\<And>c'. k = Some c' \<Longrightarrow> client_ok c' \<and> client_pending c' = rest"
    using client_broadcast_facts [OF b 2(2)] by blast
  have e: "client_pending c @ concat (relayed (Relay frame answers # ops)) = t @ rest @ concat (relayed ops)"
    using rest(1) by (simp flip: append_assoc)
  show ?case
  proof (cases k)
    case None
    with 2(3) b have "taken = t" "r = None" by simp_all
    then show ?thesis unfolding e by simp
  next
    case (Some c')
    obtain t' r' where run: "client_run limit ops c' = (t', r')" by force
    with 2(3) b Some have "taken = t @ t'" "r = r'" by simp_all
    moreover have "prefix t' (rest @ concat (relayed ops)) \<and> (\<forall>c''. r' = Some c'' \<longrightarrow>
        t' @ client_pending c'' = rest @ concat (relayed ops) \<and> client_ok c'')"
      using 2(1) [OF b [symmetric] refl Some _ run] rest(2) [OF Some] by simp
    ultimately show ?thesis unfolding e by simp
  qed
next
  case (3 limit answers ops c)
  obtain t a c' where f: "broker_flush answers c = (t, a, c')" by (cases "broker_flush answers c")
  note ff = broker_flush_facts [OF f 3(2)]
  have e: "client_pending c @ concat (relayed (Drain answers # ops)) = t @ client_pending c' @ concat (relayed ops)"
    using ff(1) by (simp flip: append_assoc)
  show ?case
  proof (cases a)
    case False
    with 3(3) f have "taken = t" "r = None" by simp_all
    then show ?thesis unfolding e by simp
  next
    case True
    obtain t' r' where run: "client_run limit ops c' = (t', r')" by force
    with 3(3) f True have "taken = t @ t'" "r = r'" by simp_all
    moreover have "prefix t' (client_pending c' @ concat (relayed ops)) \<and> (\<forall>c''. r' = Some c'' \<longrightarrow>
        t' @ client_pending c'' = client_pending c' @ concat (relayed ops) \<and> client_ok c'')"
      using 3(1) [OF f [symmetric] refl _ ff(2) run] True by simp
    ultimately show ?thesis unfolding e by simp
  qed
qed simp

lemma client_run_limit:
  "client_ok c \<Longrightarrow> length (client_pending c) \<le> limit \<Longrightarrow> client_run limit ops c = (taken, Some c') \<Longrightarrow>
     length (client_pending c') \<le> limit"
proof (induction limit ops c arbitrary: taken rule: client_run.induct)
  case (2 limit frame answers ops c)
  obtain t over k where b: "client_broadcast limit frame answers c = (t, over, k)"
    by (cases "client_broadcast limit frame answers c")
  with 2(4) obtain c1 where k: "k = Some c1" by (cases k) auto
  obtain t' r' where run: "client_run limit ops c1 = (t', r')" by force
  have "client_ok c1 \<and> length (client_pending c1) \<le> limit" using client_broadcast_facts [OF b 2(2)] k by auto
  with 2(1) [OF b [symmetric] refl k, of t'] 2(4) b k run show ?case by simp
next
  case (3 limit answers ops c)
  obtain t a c1 where f: "broker_flush answers c = (t, a, c1)" by (cases "broker_flush answers c")
  with 3(4) have a: "a = True" by (cases a) auto
  obtain t' r' where run: "client_run limit ops c1 = (t', r')" by force
  note ff = broker_flush_facts [OF f 3(2)]
  have "length (client_pending c1) \<le> limit" using arg_cong [OF ff(1), of length] 3(3) by simp
  with 3(1) [OF f [symmetric] refl a ff(2), of t'] 3(4) f a run show ?case by simp
qed simp

text \<open>What is forwarded from a client is whole frames: the same list re-encoded.\<close>

lemma client_reads_cut:
  "parser_ok p \<Longrightarrow> fst (client_reads (map Got ds) p) = fst (parser_feeds p ds)"
  by (induction ds arbitrary: p) (simp_all add: case_prod_beta Let_def parser_feed_cut(3))

section \<open>Properties\<close>



end
