(* ===== verification/DrLink.thy ===== *)
theory DrLink
  imports Assembler
begin

text \<open>
  The application's end of the draw stream, src/drawreplay_link.cpp: what is published and what is
  suppressed, the one-deep slot between the render thread and the sender thread, and the touch records
  that come back. Blocking, the socket client and the console output are left out; the sender thread's
  turn is given what the socket answers.
\<close>

section \<open>State\<close>

abbreviation (input) SCREEN_W :: u16 where "SCREEN_W \<equiv> 1280"
abbreviation (input) SCREEN_H :: u16 where "SCREEN_H \<equiv> 720"
abbreviation (input) CHAN_DRAWREPLAY :: u8 where "CHAN_DRAWREPLAY \<equiv> 11"

datatype touch_event = PRESS | RELEASE | MOVE | HOLD

record touch_point =
  tp_id :: u8
  tp_x :: u16
  tp_y :: u16
  tp_size :: u16
  tp_active :: bool

record touch_event_data =
  te_event :: touch_event
  te_point :: touch_point
  te_dx :: u16
  te_dy :: u16
  te_duration_ms :: u32

record dr =
  drForceResend :: bool
  drLastSent :: bytes
  drLastSentMs :: u32
  drKeyframeMs :: u32
  drFramesSkipped :: u32
  drFramesDropped :: u32
  drFramesSent :: u32
  drPending :: bytes
  drHasPending :: bool
  drRemoteUp :: bool
  drTouchesIn :: u32
  touchQueue :: "touch_event_data list"

definition dr_boot :: dr where
  "dr_boot = \<lparr>drForceResend = True, drLastSent = [], drLastSentMs = 0, drKeyframeMs = 2000, drFramesSkipped = 0,
     drFramesDropped = 0, drFramesSent = 0, drPending = [], drHasPending = False, drRemoteUp = False,
     drTouchesIn = 0, touchQueue = []\<rparr>"

definition drRemoteAttached :: "bool \<Rightarrow> dr \<Rightarrow> bool" where
  "drRemoteAttached dump_open d \<longleftrightarrow> drRemoteUp d \<or> dump_open"

section \<open>Publishing\<close>

text \<open>\<open>now_ms\<close> is the monotonic clock, \<open>dump\<close> whether a capture file is open; the result is the bytes
  written to it.\<close>

definition drPublish :: "u32 \<Rightarrow> bool \<Rightarrow> bytes \<Rightarrow> dr \<Rightarrow> bytes \<times> dr" where
  "drPublish now_ms dump blob d =
     (if blob = [] then ([], d)
      else
        let force = drForceResend d;
            d = d\<lparr>drForceResend := False\<rparr>;
            force = (if \<not> force \<and> drKeyframeMs d \<noteq> 0 \<and> now_ms - drLastSentMs d \<ge> drKeyframeMs d then True else force)
        in if \<not> force \<and> blob = drLastSent d then ([], d\<lparr>drFramesSkipped := drFramesSkipped d + 1\<rparr>)
           else
             let d = (if force then d\<lparr>drLastSent := []\<rparr> else d);
                 d = d\<lparr>drLastSent := blob, drLastSentMs := now_ms\<rparr>;
                 written = (if dump then encodeFrame [] CHAN_DRAWREPLAY FLAG_DATA (Some blob) (length blob) else []);
                 d = (if drHasPending d then d\<lparr>drFramesDropped := drFramesDropped d + 1\<rparr> else d)
             in (written, d\<lparr>drPending := blob, drHasPending := True\<rparr>))"

section \<open>Inbound records\<close>

definition touch_event_of :: "u8 \<Rightarrow> touch_event option" where
  "touch_event_of ev = (if ev = 0 then Some PRESS else if ev = 1 then Some RELEASE else if ev = 2 then Some MOVE
     else if ev = 3 then Some HOLD else None)"

definition touch_event_data_of :: "touch_record \<Rightarrow> touch_event \<Rightarrow> touch_event_data" where
  "touch_event_data_of tr ev = \<lparr>te_event = ev,
     te_point = \<lparr>tp_id = tr_id tr, tp_x = (if tr_x tr < SCREEN_W then tr_x tr else SCREEN_W - 1),
       tp_y = (if tr_y tr < SCREEN_H then tr_y tr else SCREEN_H - 1), tp_size = tr_size tr, tp_active = (tr_active tr \<noteq> 0)\<rparr>,
     te_dx = tr_dx tr, te_dy = tr_dy tr, te_duration_ms = tr_duration_ms tr\<rparr>"

function drHandleInput :: "bytes \<Rightarrow> nat \<Rightarrow> dr \<Rightarrow> dr" where
  "drHandleInput data off d =
     (if off < length data then
        let p = drop off data in
        if isCtrl p then
          (case ctrl_decode p of
             None \<Rightarrow> d
           | Some cmd \<Rightarrow> drHandleInput data (off + CTRL_SIZE) (if cmd = 0 then d\<lparr>drForceResend := True\<rparr> else d))
        else if \<not> isTouch p then d
        else
          (case touch_decode p of
             None \<Rightarrow> d
           | Some tr \<Rightarrow>
               (case touch_event_of (tr_event tr) of
                  None \<Rightarrow> drHandleInput data (off + RECORD_SIZE) d
                | Some ev \<Rightarrow> drHandleInput data (off + RECORD_SIZE)
                    (d\<lparr>touchQueue := touchQueue d @ [touch_event_data_of tr ev], drTouchesIn := drTouchesIn d + 1\<rparr>)))
      else d)"
  by auto
termination by (relation "measure (\<lambda>(data, off, d). length data - off)") auto

declare drHandleInput.simps [simp del]

section \<open>The sender thread\<close>

definition dr_attach :: "dr \<Rightarrow> dr" where
  "dr_attach d = d\<lparr>drForceResend := True, drRemoteUp := True\<rparr>"

definition dr_detach :: "dr \<Rightarrow> dr" where
  "dr_detach d = d\<lparr>drRemoteUp := False\<rparr>"

text \<open>One turn of the inner loop: the datagrams waiting (\<open>None\<close> a failed read), then the slot. The result is
  the frame handed to the socket, whether the link stays up, and the state.\<close>

fun dr_inbound :: "bytes option list \<Rightarrow> dr \<Rightarrow> bool \<times> dr" where
  "dr_inbound [] d = (True, d)"
| "dr_inbound (None # rs) d = (False, d)"
| "dr_inbound (Some r # rs) d = dr_inbound rs (if r \<noteq> [] then drHandleInput r 0 d else d)"

definition dr_turn :: "bytes option list \<Rightarrow> bool \<Rightarrow> dr \<Rightarrow> bytes option \<times> bool \<times> dr" where
  "dr_turn received send_ok d =
     (let (up, d) = dr_inbound received d in
      if \<not> up then (None, False, d)
      else
        let (frame, d) = (if drHasPending d then (drPending d, d\<lparr>drPending := [], drHasPending := False\<rparr>) else ([], d))
        in if frame = [] then (None, True, d)
           else if \<not> send_ok then (Some frame, False, d)
           else (Some frame, True, d\<lparr>drFramesSent := drFramesSent d + 1\<rparr>))"

section \<open>What the input does\<close>

definition on_screen :: "touch_event_data \<Rightarrow> bool" where
  "on_screen e \<longleftrightarrow> tp_x (te_point e) < SCREEN_W \<and> tp_y (te_point e) < SCREEN_H"

lemma clamped_on_screen: "on_screen (touch_event_data_of tr ev)"
  by (simp add: on_screen_def touch_event_data_of_def)

text \<open>Whatever arrives, only touches are appended, all of them on the screen, and each is counted.\<close>

definition touched :: "dr \<Rightarrow> dr \<Rightarrow> bool" where
  "touched d d' \<longleftrightarrow> (\<exists>es f. list_all on_screen es \<and>
     d' = d\<lparr>touchQueue := touchQueue d @ es, drTouchesIn := drTouchesIn d + of_nat (length es), drForceResend := f\<rparr>)"

lemma touched_refl: "touched d d"
  unfolding touched_def by (rule exI [of _ "[]"], rule exI [of _ "drForceResend d"]) simp

lemma touched_force: "touched (d\<lparr>drForceResend := f\<rparr>) d' \<Longrightarrow> touched d d'"
  unfolding touched_def by auto

lemma touched_event:
  assumes "touched (d\<lparr>touchQueue := touchQueue d @ [e], drTouchesIn := drTouchesIn d + 1\<rparr>) d'" "on_screen e"
  shows "touched d d'"
proof -
  obtain es f where "list_all on_screen es" "d' = d\<lparr>touchQueue := touchQueue d @ e # es,
      drTouchesIn := drTouchesIn d + 1 + of_nat (length es), drForceResend := f\<rparr>"
    using assms(1) by (auto simp: touched_def)
  then show ?thesis
    using assms(2) unfolding touched_def
    by (intro exI [of _ "e # es"] exI [of _ f]) (simp add: add.assoc)
qed

lemma input_stops: "\<not> off < length data \<Longrightarrow> drHandleInput data off d = d"
  by (subst drHandleInput.simps) simp

lemma input_ctrl:
  "off < length data \<Longrightarrow> isCtrl (drop off data) \<Longrightarrow> ctrl_decode (drop off data) = Some cmd \<Longrightarrow>
     drHandleInput data off d = drHandleInput data (off + 8) (if cmd = 0 then d\<lparr>drForceResend := True\<rparr> else d)"
  by (subst drHandleInput.simps) simp

lemma input_touch:
  "off < length data \<Longrightarrow> \<not> isCtrl (drop off data) \<Longrightarrow> isTouch (drop off data) \<Longrightarrow>
     touch_decode (drop off data) = Some tr \<Longrightarrow> touch_event_of (tr_event tr) = Some ev \<Longrightarrow>
     drHandleInput data off d = drHandleInput data (off + 22)
       (d\<lparr>touchQueue := touchQueue d @ [touch_event_data_of tr ev], drTouchesIn := drTouchesIn d + 1\<rparr>)"
  by (subst drHandleInput.simps) simp

lemma input_unknown: "\<not> isCtrl (drop off data) \<Longrightarrow> \<not> isTouch (drop off data) \<Longrightarrow> drHandleInput data off d = d"
  by (subst drHandleInput.simps) simp

lemma touch_decode_event: "touch_decode p = Some tr \<Longrightarrow> tr_event tr \<le> 3"
  by (auto simp: touch_decode_def not_less split: if_splits)

lemma touch_event_of_ok: "ev \<le> 3 \<Longrightarrow> \<exists>e. touch_event_of ev = Some e"
proof -
  assume "ev \<le> 3"
  then have "unat ev \<le> 3" by (simp add: word_le_nat_alt)
  then have "unat ev = 0 \<or> unat ev = 1 \<or> unat ev = 2 \<or> unat ev = 3" by linarith
  then have "ev = 0 \<or> ev = 1 \<or> ev = 2 \<or> ev = 3" by (simp add: word_unat_eq_iff)
  then show ?thesis by (auto simp: touch_event_of_def)
qed

lemma input_safe: "touched d (drHandleInput data off d)"
proof (induction data off d rule: drHandleInput.induct)
  case (1 data off d)
  let ?p = "drop off data"
  consider (stop) "drHandleInput data off d = d"
    | (ctrl) cmd where "off < length data" "isCtrl ?p" "ctrl_decode ?p = Some cmd"
    | (touch) tr where "off < length data" "\<not> isCtrl ?p" "isTouch ?p" "touch_decode ?p = Some tr"
    using input_stops [of off data d] input_unknown [of off data d]
    by (cases "isCtrl ?p"; cases "off < length data"; cases "isTouch ?p"; cases "ctrl_decode ?p"; cases "touch_decode ?p")
      (auto simp: drHandleInput.simps [of data off])
  then show ?case
  proof cases
    case stop
    then show ?thesis by (simp add: touched_refl)
  next
    case ctrl
    show ?thesis
      using 1(1) [OF ctrl(1) refl ctrl(2,3)] touched_force
      unfolding input_ctrl [OF ctrl] by (auto split: if_splits)
  next
    case touch
    obtain ev where ev: "touch_event_of (tr_event tr) = Some ev"
      using touch_event_of_ok [OF touch_decode_event [OF touch(4)]] by blast
    have "\<not> \<not> isTouch ?p" using touch(3) by simp
    from 1(3) [OF touch(1) refl touch(2) this touch(4) ev] show ?thesis
      unfolding input_touch [OF touch ev] by (rule touched_event) (rule clamped_on_screen)
  qed
qed

text \<open>A datagram of whole records.\<close>

datatype ui_item = TouchItem touch_record | CtrlItem

fun item_bytes :: "ui_item \<Rightarrow> bytes" where
  "item_bytes (TouchItem r) = touch_encode r"
| "item_bytes CtrlItem = ctrl_encode 0"

fun item_event :: "ui_item \<Rightarrow> touch_event_data list" where
  "item_event (TouchItem r) = [touch_event_data_of r (the (touch_event_of (tr_event r)))]"
| "item_event CtrlItem = []"

fun item_ok :: "ui_item \<Rightarrow> bool" where
  "item_ok (TouchItem r) \<longleftrightarrow> tr_event r \<le> EV__MAX"
| "item_ok CtrlItem \<longleftrightarrow> True"

lemma item_bytes_nonempty: "0 < length (item_bytes x)"
  by (cases x) (simp_all add: ctrl_encode_def)

lemma input_items:
  "list_all item_ok items \<Longrightarrow> drop off data = concat (map item_bytes items) @ tail \<Longrightarrow>
     \<not> isCtrl tail \<Longrightarrow> \<not> isTouch tail \<Longrightarrow>
     touchQueue (drHandleInput data off d) = touchQueue d @ concat (map item_event items) \<and>
     (drForceResend (drHandleInput data off d) \<longleftrightarrow> drForceResend d \<or> CtrlItem \<in> set items)"
proof (induction items arbitrary: off d)
  case Nil
  then show ?case by (simp add: input_unknown)
next
  case (Cons x items)
  define R where "R = concat (map item_bytes items) @ tail"
  have p: "drop off data = item_bytes x @ R" using Cons.prems(2) by (simp add: R_def)
  have lt: "off < length data" using arg_cong [OF p, of length] item_bytes_nonempty [of x]
    unfolding length_append length_drop by linarith
  have rest: "drop (off + length (item_bytes x)) data = R"
    using p by (metis add.commute append_eq_conv_conj drop_drop)
  note ih = Cons.IH [OF _ rest [unfolded R_def] Cons.prems(3,4)]
  show ?case
  proof (cases x)
    case (TouchItem r)
    have ok: "tr_event r \<le> 3" using Cons.prems(1) TouchItem by simp
    obtain ev where ev: "touch_event_of (tr_event r) = Some ev" using touch_event_of_ok [OF ok] by blast
    have q: "drop off data = touch_encode r @ R" using p TouchItem by simp
    have "drHandleInput data off d = drHandleInput data (off + 22)
        (d\<lparr>touchQueue := touchQueue d @ [touch_event_data_of r ev], drTouchesIn := drTouchesIn d + 1\<rparr>)"
      by (rule input_touch [OF lt _ _ _ ev]) (simp_all only: q probes touch_decode_encode [OF ok] not_False_eq_True)
    then show ?thesis using ih Cons.prems(1) TouchItem ev by simp
  next
    case CtrlItem
    have l8: "length (ctrl_encode 0) = 8" by (simp add: ctrl_encode_def ctrlMagic_def)
    have q: "drop off data = ctrl_encode 0 @ R" using p CtrlItem by simp
    have "drHandleInput data off d = drHandleInput data (off + 8) (if (0 :: u8) = 0 then d\<lparr>drForceResend := True\<rparr> else d)"
      by (rule input_ctrl [OF lt]) (simp_all only: q probes ctrl_decode_encode)
    then show ?thesis using ih Cons.prems(1) CtrlItem l8 by simp
  qed
qed

section \<open>What the link does with frames\<close>

datatype dr_op = Publish u32 bytes | Turn "bytes option list" bool | Attach | Detach

fun dr_op_step :: "dr_op \<Rightarrow> dr \<Rightarrow> bytes list \<times> dr" where
  "dr_op_step (Publish now blob) d = ([], snd (drPublish now False blob d))"
| "dr_op_step (Turn received ok) d =
     (case dr_turn received ok d of (frame, _, d') \<Rightarrow> (case frame of Some f \<Rightarrow> [f] | None \<Rightarrow> [], d'))"
| "dr_op_step Attach d = ([], dr_attach d)"
| "dr_op_step Detach d = ([], dr_detach d)"

fun dr_run :: "dr_op list \<Rightarrow> dr \<Rightarrow> bytes list \<times> dr" where
  "dr_run [] d = ([], d)"
| "dr_run (op # ops) d = (let (out, d) = dr_op_step op d; (outs, d) = dr_run ops d in (out @ outs, d))"

fun published :: "dr_op list \<Rightarrow> bytes list" where
  "published [] = []"
| "published (Publish now blob # ops) = (if blob = [] then published ops else blob # published ops)"
| "published (_ # ops) = published ops"

definition slot :: "dr \<Rightarrow> bytes list" where
  "slot d = (if drHasPending d then [drPending d] else [])"

definition dr_inv :: "dr \<Rightarrow> bool" where
  "dr_inv d \<longleftrightarrow> (drHasPending d \<longrightarrow> drPending d = drLastSent d \<and> drPending d \<noteq> [])"

lemma touched_slot: "touched d d' \<Longrightarrow> slot d' = slot d \<and> drFramesSkipped d' = drFramesSkipped d \<and>
    drFramesDropped d' = drFramesDropped d \<and> drLastSent d' = drLastSent d \<and> (dr_inv d' \<longleftrightarrow> dr_inv d)"
  by (auto simp: touched_def slot_def dr_inv_def)

lemma inbound_slot: "slot (snd (dr_inbound rs d)) = slot d \<and> drFramesSkipped (snd (dr_inbound rs d)) = drFramesSkipped d \<and>
    drFramesDropped (snd (dr_inbound rs d)) = drFramesDropped d \<and> drLastSent (snd (dr_inbound rs d)) = drLastSent d \<and>
    (dr_inv (snd (dr_inbound rs d)) \<longleftrightarrow> dr_inv d)"
proof (induction rs d rule: dr_inbound.induct)
  case (3 r rs d)
  then show ?case using touched_slot [OF input_safe [of d r 0]] by (cases "r = []") simp_all
qed simp_all

text \<open>A step hands out what the slot held, or overwrites it with what was published.\<close>

definition accepts :: "dr_op \<Rightarrow> dr \<Rightarrow> dr \<Rightarrow> bytes list \<Rightarrow> bool" where
  "accepts op d d' outs \<longleftrightarrow> dr_inv d' \<and>
     ((published [op] = [] \<and> outs @ slot d' = slot d \<and> drLastSent d' = drLastSent d \<and>
         drFramesSkipped d' = drFramesSkipped d \<and> drFramesDropped d' = drFramesDropped d) \<or>
      (\<exists>blob. published [op] = [blob] \<and> outs = [] \<and> drLastSent d' = blob \<and>
         ((slot d' = slot d \<and> drLastSent d = blob \<and> drFramesSkipped d' = drFramesSkipped d + 1 \<and>
             drFramesDropped d' = drFramesDropped d) \<or>
          (slot d' = [blob] \<and> drFramesSkipped d' = drFramesSkipped d \<and>
             drFramesDropped d' = drFramesDropped d + of_nat (length (slot d))))))"

lemma publish_accepts:
  assumes "dr_inv d"
  shows "accepts (Publish now blob) d (snd (drPublish now dump blob d)) []"
proof (cases "blob = []")
  case True
  with assms show ?thesis by (simp add: accepts_def drPublish_def)
next
  case ne: False
  let ?force = "drForceResend d \<or> (drKeyframeMs d \<noteq> 0 \<and> now - drLastSentMs d \<ge> drKeyframeMs d)"
  show ?thesis
  proof (cases "\<not> ?force \<and> blob = drLastSent d")
    case True
    with ne assms show ?thesis by (auto simp: accepts_def drPublish_def Let_def dr_inv_def slot_def)
  next
    case False
    then have "snd (drPublish now dump blob d) =
        (if drHasPending d then d\<lparr>drForceResend := False, drLastSent := blob, drLastSentMs := now,
           drFramesDropped := drFramesDropped d + 1, drPending := blob, drHasPending := True\<rparr>
         else d\<lparr>drForceResend := False, drLastSent := blob, drLastSentMs := now, drPending := blob, drHasPending := True\<rparr>)"
      using ne by (auto simp: drPublish_def Let_def)
    with ne show ?thesis by (simp add: accepts_def dr_inv_def slot_def)
  qed
qed

lemma turn_accepts:
  assumes "dr_inv d"
  shows "accepts (Turn rs ok) d (snd (dr_op_step (Turn rs ok) d)) (fst (dr_op_step (Turn rs ok) d))"
proof -
  obtain up d1 where i: "dr_inbound rs d = (up, d1)" by force
  have s: "slot d1 = slot d" "drFramesSkipped d1 = drFramesSkipped d" "drFramesDropped d1 = drFramesDropped d"
      "drLastSent d1 = drLastSent d" "dr_inv d1"
    using inbound_slot [of rs d] i assms by simp_all
  show ?thesis
    using s by (auto simp: accepts_def dr_turn_def i Let_def slot_def dr_inv_def split: if_splits)
qed

lemma op_accepts: "dr_inv d \<Longrightarrow> accepts op d (snd (dr_op_step op d)) (fst (dr_op_step op d))"
proof (cases op)
  case (Publish now blob)
  assume "dr_inv d"
  then show ?thesis using publish_accepts Publish by simp
next
  case (Turn rs ok)
  assume "dr_inv d"
  then show ?thesis using turn_accepts Turn by blast
qed (auto simp: accepts_def dr_attach_def dr_detach_def slot_def dr_inv_def)

lemma published_Cons: "published (op # ops) = published [op] @ published ops"
  by (cases op) simp_all

lemma run_accounts:
  "dr_inv d \<Longrightarrow> dr_run ops d = (outs, d') \<Longrightarrow>
     dr_inv d' \<and> subseq (outs @ slot d') (slot d @ published ops) \<and>
     drLastSent d' = last (drLastSent d # published ops) \<and>
     drFramesSkipped d' + drFramesDropped d' + of_nat (length (outs @ slot d')) =
       drFramesSkipped d + drFramesDropped d + of_nat (length (slot d @ published ops))"
proof (induction ops arbitrary: d outs)
  case (Cons op ops)
  obtain out d1 where s: "dr_op_step op d = (out, d1)" by force
  obtain outs' where r: "dr_run ops d1 = (outs', d')" "outs = out @ outs'"
    using Cons.prems(2) s by (auto split: prod.splits)
  have a: "accepts op d d1 out" using op_accepts [OF Cons.prems(1), of op] s by simp
  note ih = Cons.IH [OF _ r(1)]
  have inv: "dr_inv d1" using a by (simp add: accepts_def)
  show ?case
  proof (cases "published [op] = []")
    case True
    with a have e: "out @ slot d1 = slot d" "drLastSent d1 = drLastSent d" "drFramesSkipped d1 = drFramesSkipped d"
        "drFramesDropped d1 = drFramesDropped d"
      by (auto simp: accepts_def)
    have "subseq (outs @ slot d') (slot d @ published ops)"
      using ih [OF inv] r(2) unfolding e(1) [symmetric] by (simp add: subseq_append' del: subseq_append_iff)
    moreover have "of_nat (length out) + of_nat (length (slot d1)) = (of_nat (length (slot d)) :: u32)"
      by (metis e(1) length_append of_nat_add)
    ultimately show ?thesis
      using ih [OF inv] e(2-4) r(2) True unfolding published_Cons [of op ops] by (simp add: algebra_simps)
  next
    case False
    with a obtain blob where b: "published [op] = [blob]" "out = []" "drLastSent d1 = blob"
        "(slot d1 = slot d \<and> drLastSent d = blob \<and> drFramesSkipped d1 = drFramesSkipped d + 1 \<and>
            drFramesDropped d1 = drFramesDropped d) \<or>
         (slot d1 = [blob] \<and> drFramesSkipped d1 = drFramesSkipped d \<and>
            drFramesDropped d1 = drFramesDropped d + of_nat (length (slot d)))"
      by (auto simp: accepts_def)
    have "subseq (slot d1 @ published ops) (slot d @ blob # published ops)"
      using b(4) by (auto simp: list_emb_append2 intro: list_emb_append_mono)
    then have "subseq (outs @ slot d') (slot d @ published (op # ops))"
      using ih [OF inv] b r(2) unfolding published_Cons [of op ops] by (auto intro: subseq_order.trans)
    then show ?thesis
      using ih [OF inv] b r(2) unfolding published_Cons [of op ops] by (auto simp: algebra_simps)
  qed
qed (auto simp: dr_inv_def)

section \<open>Properties\<close>

text \<open>whatever a viewer sends, only touches on the screen enter the queue and every one is counted; and a
  datagram of whole records delivers all of its touches in order, clamped, and asks for a frame exactly
  when a control record is among them, up to the first bytes that are no record.\<close>

theorem dr_input_delivers:
  assumes "list_all item_ok items" and "\<not> isCtrl tail" and "\<not> isTouch tail"
  shows "(\<exists>es. touchQueue (drHandleInput any off d) = touchQueue d @ es \<and> list_all on_screen es \<and>
      drTouchesIn (drHandleInput any off d) = drTouchesIn d + of_nat (length es)) \<and>
    touchQueue (drHandleInput (concat (map item_bytes items) @ tail) 0 d) = touchQueue d @ concat (map item_event items) \<and>
    (drForceResend (drHandleInput (concat (map item_bytes items) @ tail) 0 d) \<longleftrightarrow>
      drForceResend d \<or> CtrlItem \<in> set items)"
proof -
  have "\<exists>es. touchQueue (drHandleInput any off d) = touchQueue d @ es \<and> list_all on_screen es \<and>
      drTouchesIn (drHandleInput any off d) = drTouchesIn d + of_nat (length es)"
    using input_safe [of d any off] unfolding touched_def by auto
  then show ?thesis using input_items [OF assms(1) _ assms(2,3), of 0] by simp
qed

lemma dr_input_delivers_witness:
  "\<forall>r. map (tp_x \<circ> te_point) (touchQueue (drHandleInput
      (touch_encode (r\<lparr>tr_event := 1, tr_x := 4000\<rparr>) @ ctrl_encode 0 @ [9]) 0 dr_boot)) = [1279]"
proof
  fix r :: touch_record
  let ?items = "[TouchItem (r\<lparr>tr_event := 1, tr_x := 4000\<rparr>), CtrlItem]"
  have "list_all item_ok ?items" "\<not> isCtrl [9]" "\<not> isTouch [9]" by (simp_all add: isCtrl_def isTouch_def)
  from dr_input_delivers [OF this, of "[]" 0 dr_boot]
  show "map (tp_x \<circ> te_point) (touchQueue (drHandleInput
      (touch_encode (r\<lparr>tr_event := 1, tr_x := 4000\<rparr>) @ ctrl_encode 0 @ [9]) 0 dr_boot)) = [1279]"
    by (simp add: dr_boot_def touch_event_data_of_def touch_event_of_def)
qed



end
