(* ===== verification/GfxText.thy ===== *)
theory GfxText
  imports Prelude
begin

text \<open>
  The text and style state of \<^verbatim>\<open>LinuxGFX\<close> (libs/libgfx/GFX.h, GFX.cpp): fonts, cursor, wrapping, rotated
  text, and the setters. What a text call draws is the list of the glyphs it places, so that a surface
  that draws them and a recorder that drops them share the same definitions. Coordinates are 16-bit
  words read as signed integers; the products are taken in \<^verbatim>\<open>int\<close> and stored back modulo $2^{16}$.
\<close>

section \<open>Fonts and state\<close>

record gfx_glyph =
  gl_bitmapOffset :: u16
  gl_width :: u8
  gl_height :: u8
  gl_xAdvance :: u8
  gl_xOffset :: u8
  gl_yOffset :: u8

record gfx_font =
  fo_bitmap :: bytes
  fo_glyph :: "gfx_glyph list"
  fo_first :: u16
  fo_last :: u16
  fo_yAdvance :: u8

text \<open>Fonts are compared by address; \<open>fonts\<close> arguments say what lies at one.\<close>

type_synonym font_ptr = nat
type_synonym font_mem = "font_ptr \<Rightarrow> gfx_font"

record gfx_style =
  st_strokeWidth :: u8
  st_lineCap :: u8
  st_lineJoin :: u8
  st_antiAlias :: bool

abbreviation (input) GFX_TRANSPARENT :: u32 where "GFX_TRANSPARENT \<equiv> 0"
abbreviation (input) GFX_BLACK :: u32 where "GFX_BLACK \<equiv> 0xFF000000"
abbreviation (input) GFX_WHITE :: u32 where "GFX_WHITE \<equiv> 0xFFFFFFFF"

definition default_style :: gfx_style where
  "default_style = \<lparr>st_strokeWidth = 1, st_lineCap = 0, st_lineJoin = 0, st_antiAlias = False\<rparr>"

text \<open>\<open>m_fault\<close> is set when the code indexes a glyph table outside its bounds; what it goes on to do then
  is not modelled.\<close>

record gfx =
  m_width :: u16
  m_height :: u16
  m_cursorX :: u16
  m_cursorY :: u16
  m_textColor :: u32
  m_textBgColor :: u32
  m_textSizeX :: u8
  m_textSizeY :: u8
  m_textRotation :: u8
  m_textWrap :: bool
  m_rotation :: u8
  m_inverted :: bool
  m_pFont :: "font_ptr option"
  m_drawStyle :: gfx_style
  m_fault :: bool

text \<open>The constructor a canvas and a recorder share.\<close>

definition gfx_new :: gfx where
  "gfx_new = \<lparr>m_width = 0, m_height = 0, m_cursorX = 0, m_cursorY = 0, m_textColor = GFX_WHITE,
     m_textBgColor = GFX_TRANSPARENT, m_textSizeX = 1, m_textSizeY = 1, m_textRotation = 0, m_textWrap = True,
     m_rotation = 0, m_inverted = False, m_pFont = None, m_drawStyle = default_style, m_fault = False\<rparr>"

section \<open>Setters\<close>

definition setFont :: "font_ptr option \<Rightarrow> ('a) gfx_scheme \<Rightarrow> 'a gfx_scheme" where
  "setFont f g = g\<lparr>m_pFont := f\<rparr>"

definition setCursor :: "u16 \<Rightarrow> u16 \<Rightarrow> 'a gfx_scheme \<Rightarrow> 'a gfx_scheme" where
  "setCursor x y g = g\<lparr>m_cursorX := x, m_cursorY := y\<rparr>"

definition setTextColor :: "u32 \<Rightarrow> u32 \<Rightarrow> 'a gfx_scheme \<Rightarrow> 'a gfx_scheme" where
  "setTextColor c bg g = g\<lparr>m_textColor := c, m_textBgColor := bg\<rparr>"

definition setTextColorTransparentBg :: "u32 \<Rightarrow> 'a gfx_scheme \<Rightarrow> 'a gfx_scheme" where
  "setTextColorTransparentBg c g = g\<lparr>m_textColor := c, m_textBgColor := GFX_TRANSPARENT\<rparr>"

definition setTextSize :: "u8 \<Rightarrow> u8 \<Rightarrow> 'a gfx_scheme \<Rightarrow> 'a gfx_scheme" where
  "setTextSize sx sy g =
     g\<lparr>m_textSizeX := (if sx \<noteq> 0 then sx else 1), m_textSizeY := (if sy \<noteq> 0 then sy else 1)\<rparr>"

definition setTextWrap :: "bool \<Rightarrow> 'a gfx_scheme \<Rightarrow> 'a gfx_scheme" where
  "setTextWrap w g = g\<lparr>m_textWrap := w\<rparr>"

definition setTextRotation :: "u8 \<Rightarrow> 'a gfx_scheme \<Rightarrow> 'a gfx_scheme" where
  "setTextRotation rotation g = g\<lparr>m_textRotation := of_int (uint rotation mod 360)\<rparr>"

definition setRotation :: "u8 \<Rightarrow> 'a gfx_scheme \<Rightarrow> 'a gfx_scheme" where
  "setRotation r g =
     (let g = g\<lparr>m_rotation := r mod 4\<rparr> in
      if m_rotation g = 1 \<or> m_rotation g = 3 then g\<lparr>m_width := m_height g, m_height := m_width g\<rparr> else g)"

definition invertDisplay :: "bool \<Rightarrow> 'a gfx_scheme \<Rightarrow> 'a gfx_scheme" where
  "invertDisplay i g = g\<lparr>m_inverted := i\<rparr>"

definition setDrawStyle :: "gfx_style \<Rightarrow> 'a gfx_scheme \<Rightarrow> 'a gfx_scheme" where
  "setDrawStyle s g = g\<lparr>m_drawStyle := s\<rparr>"

section \<open>Text\<close>

text \<open>A C string is the bytes in front of its first NUL.\<close>

definition c_str :: "bytes \<Rightarrow> bytes" where
  "c_str s = takeWhile (\<lambda>b. b \<noteq> 0) s"

text \<open>\<open>glyph[c - first].xAdvance\<close>; \<open>None\<close> when the index is outside the table.\<close>

definition glyph_advance :: "gfx_font \<Rightarrow> u8 \<Rightarrow> u8 option" where
  "glyph_advance f c =
     (let i = uint c - uint (fo_first f) in
      if i < 0 \<or> i \<ge> int (length (fo_glyph f)) then None else Some (gl_xAdvance (fo_glyph f ! nat i)))"

definition char_advance :: "font_mem \<Rightarrow> 'a gfx_scheme \<Rightarrow> u8 \<Rightarrow> u8 option" where
  "char_advance fonts g c = (case m_pFont g of Some f \<Rightarrow> glyph_advance (fonts f) c | None \<Rightarrow> Some 6)"

definition line_advance :: "font_mem \<Rightarrow> 'a gfx_scheme \<Rightarrow> u16" where
  "line_advance fonts g =
     ucast (m_textSizeY g) * (case m_pFont g of Some f \<Rightarrow> ucast (fo_yAdvance (fonts f)) | None \<Rightarrow> 8)"

text \<open>The body of the loops of \<^verbatim>\<open>writeText\<close> and \<^verbatim>\<open>writeTextRotated\<close>, which differ in the column a line
  starts at and in what is done to a glyph's position: the glyph placed, if any, and the state.\<close>

type_synonym glyph_draw = "u16 \<times> u16 \<times> u8"

definition text_char :: "font_mem \<Rightarrow> u16 \<Rightarrow> (u16 \<Rightarrow> u16 \<Rightarrow> u16 \<times> u16) \<Rightarrow> u8 \<Rightarrow> 'a gfx_scheme \<Rightarrow>
    glyph_draw list \<times> 'a gfx_scheme" where
  "text_char fonts startX place c g =
     (if c = 10 then ([], g\<lparr>m_cursorX := startX, m_cursorY := m_cursorY g + line_advance fonts g\<rparr>)
      else if c \<noteq> 13 then
        (case char_advance fonts g c of
           None \<Rightarrow> ([], g\<lparr>m_fault := True\<rparr>)
         | Some adv \<Rightarrow>
             let g = (if m_textWrap g \<and> sint (m_cursorX g) + uint (m_textSizeX g) * uint adv > sint (m_width g)
                      then g\<lparr>m_cursorX := startX, m_cursorY := m_cursorY g + line_advance fonts g\<rparr> else g);
                 (x, y) = place (m_cursorX g) (m_cursorY g)
             in ([(x, y, c)], g\<lparr>m_cursorX := m_cursorX g + ucast (m_textSizeX g) * ucast adv\<rparr>))
      else ([], g))"

fun text_loop :: "font_mem \<Rightarrow> u16 \<Rightarrow> (u16 \<Rightarrow> u16 \<Rightarrow> u16 \<times> u16) \<Rightarrow> bytes \<Rightarrow> 'a gfx_scheme \<Rightarrow>
    glyph_draw list \<times> 'a gfx_scheme" where
  "text_loop fonts startX place [] g = ([], g)"
| "text_loop fonts startX place (c # cs) g =
     (if c = 0 then ([], g)
      else
        let (ds, g) = text_char fonts startX place c g;
            (ds', g) = text_loop fonts startX place cs g
        in (ds @ ds', g))"

definition writeText :: "font_mem \<Rightarrow> bytes \<Rightarrow> 'a gfx_scheme \<Rightarrow> glyph_draw list \<times> 'a gfx_scheme" where
  "writeText fonts s g = text_loop fonts 0 Pair s g"

definition rotatePoint :: "u16 \<Rightarrow> u16 \<Rightarrow> u8 \<Rightarrow> u16 \<Rightarrow> u16 \<Rightarrow> u16 \<times> u16" where
  "rotatePoint originX originY rotation x y =
     (if rotation = 0 then (x, y)
      else
        let dx = x - originX; dy = y - originY;
            r = uint rotation mod 360;
            (newDx, newDy) = (if r = 90 then (dy, - dx) else if r = 180 then (- dx, - dy)
                              else if r = 270 then (- dy, dx) else (dx, dy))
        in (originX + newDx, originY + newDy))"

definition writeTextRotated :: "font_mem \<Rightarrow> bytes \<Rightarrow> u16 \<Rightarrow> u16 \<Rightarrow> 'a gfx_scheme \<Rightarrow>
    glyph_draw list \<times> 'a gfx_scheme" where
  "writeTextRotated fonts s originX originY g =
     text_loop fonts (m_cursorX g) (rotatePoint originX originY (m_textRotation g)) s g"

definition setText :: "font_mem \<Rightarrow> u16 \<Rightarrow> u16 \<Rightarrow> bytes \<Rightarrow> u32 \<Rightarrow> u32 \<Rightarrow> u8 \<Rightarrow> u8 \<Rightarrow> font_ptr option \<Rightarrow> u8 \<Rightarrow>
    'a gfx_scheme \<Rightarrow> glyph_draw list \<times> 'a gfx_scheme" where
  "setText fonts x y s color bgColor sizeX sizeY font rotation g =
     (let g = setCursor x y g; g = setTextColor color bgColor g; g = setTextSize sizeX sizeY g;
          g = setFont font g; g = setTextRotation rotation g
      in if rotation = 0 then writeText fonts s g else writeTextRotated fonts s x y g)"

definition println_nl :: "font_mem \<Rightarrow> 'a gfx_scheme \<Rightarrow> 'a gfx_scheme" where
  "println_nl fonts g = g\<lparr>m_cursorX := 0, m_cursorY := m_cursorY g + line_advance fonts g\<rparr>"

definition println_text :: "font_mem \<Rightarrow> bytes \<Rightarrow> 'a gfx_scheme \<Rightarrow> glyph_draw list \<times> 'a gfx_scheme" where
  "println_text fonts s g = (let (ds, g) = writeText fonts s g in (ds, println_nl fonts g))"

section \<open>What text leaves behind\<close>

lemma text_loop_append:
  "0 \<notin> set s \<Longrightarrow> text_loop fonts sx p (s @ t) g =
     (let (ds, g) = text_loop fonts sx p s g; (ds', g) = text_loop fonts sx p t g in (ds @ ds', g))"
  by (induction s arbitrary: g) (auto simp: Let_def split: prod.splits)

lemma text_loop_c_str: "text_loop fonts sx p (c_str s) g = text_loop fonts sx p s g"
  by (induction s arbitrary: g) (auto simp: c_str_def Let_def split: prod.splits)

end
