(* ===== verification/DrawReplay.thy ===== *)
theory DrawReplay
  imports GfxText
begin

text \<open>
  The recorder of libs/libgfx/DrawReplay.cpp: every draw method appends one compact command to a byte
  stream, guarded by the record mask and the inline-size limit, and the text and style calls keep the
  inherited state in step. \<^verbatim>\<open>DRExport\<close> wraps the stream in a header. A float is its 32-bit pattern, a bitmap
  argument the bytes (or pixels) the caller's array holds.
\<close>

section \<open>Opcodes\<close>

datatype dr_op =
    OpEnd
  | OpDrawPixel | OpFastVLine | OpFastHLine | OpLine | OpRect | OpFillRect | OpFillScreen | OpCircle
  | OpFillCircle | OpArc | OpRoundRect | OpFillRoundRect | OpTriangle | OpFillTriangle
  | OpSetDrawStyle | OpSetRotation | OpInvertDisplay
  | OpSetCursor | OpSetTextColor | OpSetTextSize | OpSetTextWrap | OpSetTextRotation | OpSetFont
  | OpWriteText | OpDrawChar | OpSetText
  | OpBitmap1Bit | OpXBitmap | OpGrayBitmap | OpGrayBitmapMask | OpRGBBitmap | OpRGBBitmapMask
  | OpRGB565Bitmap | OpBitmapTriangle
  | OpSwapBuffers

fun op_code :: "dr_op \<Rightarrow> u8" where
  "op_code OpEnd = 0x00"
| "op_code OpDrawPixel = 0x01"
| "op_code OpFastVLine = 0x02"
| "op_code OpFastHLine = 0x03"
| "op_code OpLine = 0x04"
| "op_code OpRect = 0x05"
| "op_code OpFillRect = 0x06"
| "op_code OpFillScreen = 0x07"
| "op_code OpCircle = 0x08"
| "op_code OpFillCircle = 0x09"
| "op_code OpArc = 0x0A"
| "op_code OpRoundRect = 0x0B"
| "op_code OpFillRoundRect = 0x0C"
| "op_code OpTriangle = 0x0D"
| "op_code OpFillTriangle = 0x0E"
| "op_code OpSetDrawStyle = 0x20"
| "op_code OpSetRotation = 0x21"
| "op_code OpInvertDisplay = 0x22"
| "op_code OpSetCursor = 0x30"
| "op_code OpSetTextColor = 0x31"
| "op_code OpSetTextSize = 0x32"
| "op_code OpSetTextWrap = 0x33"
| "op_code OpSetTextRotation = 0x34"
| "op_code OpSetFont = 0x35"
| "op_code OpWriteText = 0x36"
| "op_code OpDrawChar = 0x37"
| "op_code OpSetText = 0x38"
| "op_code OpBitmap1Bit = 0x40"
| "op_code OpXBitmap = 0x41"
| "op_code OpGrayBitmap = 0x42"
| "op_code OpGrayBitmapMask = 0x43"
| "op_code OpRGBBitmap = 0x44"
| "op_code OpRGBBitmapMask = 0x45"
| "op_code OpRGB565Bitmap = 0x46"
| "op_code OpBitmapTriangle = 0x47"
| "op_code OpSwapBuffers = 0x50"

abbreviation (input) DR_REC_GEOMETRY :: u32 where "DR_REC_GEOMETRY \<equiv> 0x00000001"
abbreviation (input) DR_REC_TEXT :: u32 where "DR_REC_TEXT \<equiv> 0x00000002"
abbreviation (input) DR_REC_STYLE :: u32 where "DR_REC_STYLE \<equiv> 0x00000004"
abbreviation (input) DR_REC_FRAME :: u32 where "DR_REC_FRAME \<equiv> 0x00000008"
abbreviation (input) DR_REC_PIXEL :: u32 where "DR_REC_PIXEL \<equiv> 0x00000010"
abbreviation (input) DR_REC_BITMAP_1BIT :: u32 where "DR_REC_BITMAP_1BIT \<equiv> 0x00000100"
abbreviation (input) DR_REC_BITMAP_XBM :: u32 where "DR_REC_BITMAP_XBM \<equiv> 0x00000200"
abbreviation (input) DR_REC_BITMAP_GRAY :: u32 where "DR_REC_BITMAP_GRAY \<equiv> 0x00000400"
abbreviation (input) DR_REC_BITMAP_RGB :: u32 where "DR_REC_BITMAP_RGB \<equiv> 0x00000800"
abbreviation (input) DR_REC_BITMAP_565 :: u32 where "DR_REC_BITMAP_565 \<equiv> 0x00001000"
abbreviation (input) DR_REC_BITMAP_TRI :: u32 where "DR_REC_BITMAP_TRI \<equiv> 0x00002000"
abbreviation (input) DR_REC_BITMAPS_ALL :: u32 where "DR_REC_BITMAPS_ALL \<equiv> 0x00003F00"
abbreviation (input) DR_REC_ALL :: u32 where "DR_REC_ALL \<equiv> 0xFFFFFFFF"

abbreviation (input) DR_FONT_BUILTIN :: u8 where "DR_FONT_BUILTIN \<equiv> 0xFF"
abbreviation (input) DR_VERSION :: u16 where "DR_VERSION \<equiv> 1"
abbreviation (input) DR_HEADER_SIZE :: nat where "DR_HEADER_SIZE \<equiv> 20"

section \<open>The recorder\<close>

record recorder = gfx +
  m_suppress :: bool
  m_stream :: bytes
  m_cmdCount :: nat
  m_recordMask :: u32
  m_skipped :: nat
  m_maxInlineBytes :: nat
  m_fontIds :: "(font_ptr \<times> u8) list"

definition recorder_new :: "u16 \<Rightarrow> u16 \<Rightarrow> recorder" where
  "recorder_new w h =
     gfx.extend
       (gfx_new\<lparr>m_width := (if 0 < sint w then w else 0), m_height := (if 0 < sint h then h else 0)\<rparr>)
       (recorder.fields False [] 0 DR_REC_ALL 0 0 [])"

definition pushU16 :: "bytes \<Rightarrow> u16 \<Rightarrow> bytes" where
  "pushU16 v x = v @ [ucast (x AND 0xFF), ucast (drop_bit 8 x AND 0xFF)]"

definition pushU32 :: "bytes \<Rightarrow> u32 \<Rightarrow> bytes" where
  "pushU32 v x = v @ [ucast (x AND 0xFF), ucast (drop_bit 8 x AND 0xFF), ucast (drop_bit 16 x AND 0xFF),
     ucast (drop_bit 24 x AND 0xFF)]"

text \<open>The products of two 16-bit extents stay far below $2^{64}$.\<close>

definition monoPlaneBytes :: "u16 \<Rightarrow> u16 \<Rightarrow> nat" where
  "monoPlaneBytes w h = (unat w + 7) div 8 * unat h"

definition beginCmd :: "dr_op \<Rightarrow> recorder \<Rightarrow> recorder" where
  "beginCmd op r = r\<lparr>m_stream := m_stream r @ [op_code op], m_cmdCount := m_cmdCount r + 1\<rparr>"

definition putU8 :: "u8 \<Rightarrow> recorder \<Rightarrow> recorder" where
  "putU8 v r = r\<lparr>m_stream := m_stream r @ [v]\<rparr>"

definition putU16 :: "u16 \<Rightarrow> recorder \<Rightarrow> recorder" where
  "putU16 v r = r\<lparr>m_stream := pushU16 (m_stream r) v\<rparr>"

definition putI16 :: "u16 \<Rightarrow> recorder \<Rightarrow> recorder" where
  "putI16 v r = r\<lparr>m_stream := pushU16 (m_stream r) v\<rparr>"

definition putU32 :: "u32 \<Rightarrow> recorder \<Rightarrow> recorder" where
  "putU32 v r = r\<lparr>m_stream := pushU32 (m_stream r) v\<rparr>"

definition putF32 :: "u32 \<Rightarrow> recorder \<Rightarrow> recorder" where
  "putF32 bits r = r\<lparr>m_stream := pushU32 (m_stream r) bits\<rparr>"

definition putBytes :: "bytes option \<Rightarrow> nat \<Rightarrow> recorder \<Rightarrow> recorder" where
  "putBytes p n r = (case p of None \<Rightarrow> r
     | Some b \<Rightarrow> if n = 0 then r else r\<lparr>m_stream := m_stream r @ take n b\<rparr>)"

definition putText :: "bytes option \<Rightarrow> recorder \<Rightarrow> recorder" where
  "putText text r =
     (let n = (case text of Some t \<Rightarrow> length (c_str t) | None \<Rightarrow> 0);
          n = (if n > 0xFFFF then 0xFFFF else n)
      in putBytes text n (putU16 (of_nat n) r))"

definition putMonoPlane :: "bytes option \<Rightarrow> u16 \<Rightarrow> u16 \<Rightarrow> recorder \<Rightarrow> recorder" where
  "putMonoPlane bits w h r = putBytes bits (monoPlaneBytes w h) r"

definition allow :: "u32 \<Rightarrow> nat \<Rightarrow> recorder \<Rightarrow> bool \<times> recorder" where
  "allow feature inlineBytes r =
     (if m_recordMask r AND feature = 0 then (False, r\<lparr>m_skipped := m_skipped r + 1\<rparr>)
      else if m_maxInlineBytes r \<noteq> 0 \<and> inlineBytes > m_maxInlineBytes r then (False, r\<lparr>m_skipped := m_skipped r + 1\<rparr>)
      else (True, r))"

text \<open>\<^verbatim>\<open>if (allow(...)) { beginCmd(...); put...; }\<close>, the writes in order.\<close>

definition recorded :: "u32 \<Rightarrow> nat \<Rightarrow> (recorder \<Rightarrow> recorder) list \<Rightarrow> recorder \<Rightarrow> recorder" where
  "recorded feature inlineBytes writes r =
     (let (ok, r) = allow feature inlineBytes r in if ok then foldl (\<lambda>r w. w r) r writes else r)"

subsection \<open>Control\<close>

definition DRSetRecordMask :: "u32 \<Rightarrow> recorder \<Rightarrow> recorder" where
  "DRSetRecordMask v r = r\<lparr>m_recordMask := v\<rparr>"

definition DRIgnore :: "u32 \<Rightarrow> recorder \<Rightarrow> recorder" where
  "DRIgnore features r = r\<lparr>m_recordMask := m_recordMask r AND NOT features\<rparr>"

definition DRAllow :: "u32 \<Rightarrow> recorder \<Rightarrow> recorder" where
  "DRAllow features r = r\<lparr>m_recordMask := m_recordMask r OR features\<rparr>"

definition DRRecords :: "u32 \<Rightarrow> recorder \<Rightarrow> bool" where
  "DRRecords feature r \<longleftrightarrow> m_recordMask r AND feature \<noteq> 0"

definition setMaxInlineBytes :: "nat \<Rightarrow> recorder \<Rightarrow> recorder" where
  "setMaxInlineBytes n r = r\<lparr>m_maxInlineBytes := n\<rparr>"

definition DRFlush :: "recorder \<Rightarrow> recorder" where
  "DRFlush r = r\<lparr>m_stream := [], m_cmdCount := 0, m_skipped := 0\<rparr>"

definition DRReset :: "recorder \<Rightarrow> recorder" where
  "DRReset r = (DRFlush r)\<lparr>m_fontIds := [], m_cursorX := 0, m_cursorY := 0, m_textColor := GFX_WHITE,
     m_textBgColor := GFX_TRANSPARENT, m_textSizeX := 1, m_textSizeY := 1, m_textRotation := 0,
     m_textWrap := True, m_rotation := 0, m_inverted := False, m_pFont := None, m_drawStyle := default_style\<rparr>"

definition exportSize :: "recorder \<Rightarrow> nat" where
  "exportSize r = DR_HEADER_SIZE + length (m_stream r) + 1"

definition DRExport :: "recorder \<Rightarrow> bytes \<Rightarrow> nat \<times> bytes" where
  "DRExport r out =
     (let before = length out;
          out = out @ [0x44] @ [0x52] @ [0x50] @ [0x31];
          out = pushU16 out DR_VERSION;
          out = pushU16 out 0;
          out = pushU16 out (m_width r);
          out = pushU16 out (m_height r);
          out = pushU32 out (of_nat (m_cmdCount r));
          out = pushU32 out (of_nat (length (m_stream r) + 1));
          out = out @ m_stream r;
          out = out @ [op_code OpEnd]
      in (length out - before, out))"

subsection \<open>Fonts\<close>

fun bind_font :: "font_ptr \<Rightarrow> u8 \<Rightarrow> (font_ptr \<times> u8) list \<Rightarrow> (font_ptr \<times> u8) list" where
  "bind_font f i [] = [(f, i)]"
| "bind_font f i ((g, j) # bs) = (if g = f then (g, i) # bs else (g, j) # bind_font f i bs)"

definition registerFont :: "font_ptr option \<Rightarrow> u8 \<Rightarrow> recorder \<Rightarrow> recorder" where
  "registerFont font i r =
     (case font of None \<Rightarrow> r | Some f \<Rightarrow> r\<lparr>m_fontIds := bind_font f i (m_fontIds r)\<rparr>)"

definition fontId :: "font_ptr option \<Rightarrow> recorder \<Rightarrow> u8" where
  "fontId font r =
     (case font of None \<Rightarrow> DR_FONT_BUILTIN
      | Some f \<Rightarrow> (case map_of (m_fontIds r) f of Some i \<Rightarrow> i | None \<Rightarrow> DR_FONT_BUILTIN))"

definition setFontId :: "u8 \<Rightarrow> recorder \<Rightarrow> recorder" where
  "setFontId i r =
     (let r = recorded DR_REC_TEXT 0 [beginCmd OpSetFont, putU8 i] r in
      case find (\<lambda>b. snd b = i) (m_fontIds r) of
        Some b \<Rightarrow> setFont (Some (fst b)) r
      | None \<Rightarrow> if i = DR_FONT_BUILTIN then setFont None r else r)"


section \<open>Geometry\<close>

text \<open>\<^verbatim>\<open>drawPixel\<close>, \<^verbatim>\<open>drawFastVLine\<close>, \<^verbatim>\<open>drawFastHLine\<close> and \<^verbatim>\<open>fillScreen\<close> drop what arrives under \<^verbatim>\<open>m_suppress\<close>.\<close>

definition rec_drawPixel :: "u16 \<Rightarrow> u16 \<Rightarrow> u32 \<Rightarrow> recorder \<Rightarrow> recorder" where
  "rec_drawPixel x y color r =
     (if m_suppress r then r
      else recorded DR_REC_PIXEL 0 [beginCmd OpDrawPixel, putI16 x, putI16 y, putU32 color] r)"

definition rec_drawFastVLine :: "u16 \<Rightarrow> u16 \<Rightarrow> u16 \<Rightarrow> u32 \<Rightarrow> recorder \<Rightarrow> recorder" where
  "rec_drawFastVLine x y h color r =
     (if m_suppress r then r
      else recorded DR_REC_GEOMETRY 0 [beginCmd OpFastVLine, putI16 x, putI16 y, putI16 h, putU32 color] r)"

definition rec_drawFastHLine :: "u16 \<Rightarrow> u16 \<Rightarrow> u16 \<Rightarrow> u32 \<Rightarrow> recorder \<Rightarrow> recorder" where
  "rec_drawFastHLine x y w color r =
     (if m_suppress r then r
      else recorded DR_REC_GEOMETRY 0 [beginCmd OpFastHLine, putI16 x, putI16 y, putI16 w, putU32 color] r)"

definition rec_fillScreen :: "u32 \<Rightarrow> recorder \<Rightarrow> recorder" where
  "rec_fillScreen color r =
     (if m_suppress r then r
      else recorded DR_REC_GEOMETRY 0 [beginCmd OpFillScreen, putU32 color] r)"

definition rec_drawLine :: "u16 \<Rightarrow> u16 \<Rightarrow> u16 \<Rightarrow> u16 \<Rightarrow> u32 \<Rightarrow> recorder \<Rightarrow> recorder" where
  "rec_drawLine x0 y0 x1 y1 color =
     recorded DR_REC_GEOMETRY 0 [beginCmd OpLine, putI16 x0, putI16 y0, putI16 x1, putI16 y1, putU32 color]"

definition rec_drawRect :: "u16 \<Rightarrow> u16 \<Rightarrow> u16 \<Rightarrow> u16 \<Rightarrow> u32 \<Rightarrow> recorder \<Rightarrow> recorder" where
  "rec_drawRect x y w h color =
     recorded DR_REC_GEOMETRY 0 [beginCmd OpRect, putI16 x, putI16 y, putI16 w, putI16 h, putU32 color]"

definition rec_fillRect :: "u16 \<Rightarrow> u16 \<Rightarrow> u16 \<Rightarrow> u16 \<Rightarrow> u32 \<Rightarrow> recorder \<Rightarrow> recorder" where
  "rec_fillRect x y w h color =
     recorded DR_REC_GEOMETRY 0 [beginCmd OpFillRect, putI16 x, putI16 y, putI16 w, putI16 h, putU32 color]"

definition rec_drawCircle :: "u16 \<Rightarrow> u16 \<Rightarrow> u16 \<Rightarrow> u32 \<Rightarrow> recorder \<Rightarrow> recorder" where
  "rec_drawCircle x0 y0 r color =
     recorded DR_REC_GEOMETRY 0 [beginCmd OpCircle, putI16 x0, putI16 y0, putI16 r, putU32 color]"

definition rec_fillCircle :: "u16 \<Rightarrow> u16 \<Rightarrow> u16 \<Rightarrow> u32 \<Rightarrow> recorder \<Rightarrow> recorder" where
  "rec_fillCircle x0 y0 r color =
     recorded DR_REC_GEOMETRY 0 [beginCmd OpFillCircle, putI16 x0, putI16 y0, putI16 r, putU32 color]"

definition rec_drawArc :: "u16 \<Rightarrow> u16 \<Rightarrow> u16 \<Rightarrow> u32 \<Rightarrow> u32 \<Rightarrow> u32 \<Rightarrow> recorder \<Rightarrow> recorder" where
  "rec_drawArc x0 y0 r startAngle endAngle color =
     recorded DR_REC_GEOMETRY 0
       [beginCmd OpArc, putI16 x0, putI16 y0, putI16 r, putF32 startAngle, putF32 endAngle, putU32 color]"

definition rec_drawRoundRect :: "u16 \<Rightarrow> u16 \<Rightarrow> u16 \<Rightarrow> u16 \<Rightarrow> u16 \<Rightarrow> u32 \<Rightarrow> recorder \<Rightarrow> recorder" where
  "rec_drawRoundRect x y w h radius color =
     recorded DR_REC_GEOMETRY 0
       [beginCmd OpRoundRect, putI16 x, putI16 y, putI16 w, putI16 h, putI16 radius, putU32 color]"

definition rec_fillRoundRect :: "u16 \<Rightarrow> u16 \<Rightarrow> u16 \<Rightarrow> u16 \<Rightarrow> u16 \<Rightarrow> u32 \<Rightarrow> recorder \<Rightarrow> recorder" where
  "rec_fillRoundRect x y w h radius color =
     recorded DR_REC_GEOMETRY 0
       [beginCmd OpFillRoundRect, putI16 x, putI16 y, putI16 w, putI16 h, putI16 radius, putU32 color]"

definition rec_drawTriangle :: "u16 \<Rightarrow> u16 \<Rightarrow> u16 \<Rightarrow> u16 \<Rightarrow> u16 \<Rightarrow> u16 \<Rightarrow> u32 \<Rightarrow> recorder \<Rightarrow> recorder" where
  "rec_drawTriangle x0 y0 x1 y1 x2 y2 color =
     recorded DR_REC_GEOMETRY 0
       [beginCmd OpTriangle, putI16 x0, putI16 y0, putI16 x1, putI16 y1, putI16 x2, putI16 y2, putU32 color]"

definition rec_fillTriangle :: "u16 \<Rightarrow> u16 \<Rightarrow> u16 \<Rightarrow> u16 \<Rightarrow> u16 \<Rightarrow> u16 \<Rightarrow> u32 \<Rightarrow> recorder \<Rightarrow> recorder" where
  "rec_fillTriangle x0 y0 x1 y1 x2 y2 color =
     recorded DR_REC_GEOMETRY 0
       [beginCmd OpFillTriangle, putI16 x0, putI16 y0, putI16 x1, putI16 y1, putI16 x2, putI16 y2, putU32 color]"

section \<open>Bitmaps\<close>

text \<open>\<open>None\<close> is a null array. The extents are positive once the guard is passed, so the products of the
  signed values are those of the words.\<close>

definition pixels :: "u16 \<Rightarrow> u16 \<Rightarrow> nat" where
  "pixels w h = unat w * unat h"

definition rec_drawBitmap :: "u16 \<Rightarrow> u16 \<Rightarrow> bytes option \<Rightarrow> u16 \<Rightarrow> u16 \<Rightarrow> u32 \<Rightarrow> u32 \<Rightarrow> recorder \<Rightarrow> recorder" where
  "rec_drawBitmap x y bitmap w h color bg r =
     (if bitmap = None \<or> sint w \<le> 0 \<or> sint h \<le> 0 then r
      else recorded DR_REC_BITMAP_1BIT (monoPlaneBytes w h)
        [beginCmd OpBitmap1Bit, putI16 x, putI16 y, putI16 w, putI16 h, putU32 color, putU32 bg,
         putMonoPlane bitmap w h] r)"

definition rec_drawXBitmap :: "u16 \<Rightarrow> u16 \<Rightarrow> bytes option \<Rightarrow> u16 \<Rightarrow> u16 \<Rightarrow> u32 \<Rightarrow> recorder \<Rightarrow> recorder" where
  "rec_drawXBitmap x y bitmap w h color r =
     (if bitmap = None \<or> sint w \<le> 0 \<or> sint h \<le> 0 then r
      else recorded DR_REC_BITMAP_XBM (monoPlaneBytes w h)
        [beginCmd OpXBitmap, putI16 x, putI16 y, putI16 w, putI16 h, putU32 color, putMonoPlane bitmap w h] r)"

definition rec_drawGrayscaleBitmap :: "u16 \<Rightarrow> u16 \<Rightarrow> bytes option \<Rightarrow> u16 \<Rightarrow> u16 \<Rightarrow> recorder \<Rightarrow> recorder" where
  "rec_drawGrayscaleBitmap x y bitmap w h r =
     (if bitmap = None \<or> sint w \<le> 0 \<or> sint h \<le> 0 then r
      else recorded DR_REC_BITMAP_GRAY (pixels w h)
        [beginCmd OpGrayBitmap, putI16 x, putI16 y, putI16 w, putI16 h, putBytes bitmap (pixels w h)] r)"

definition rec_drawGrayscaleBitmapMask ::
    "u16 \<Rightarrow> u16 \<Rightarrow> bytes option \<Rightarrow> bytes option \<Rightarrow> u16 \<Rightarrow> u16 \<Rightarrow> recorder \<Rightarrow> recorder" where
  "rec_drawGrayscaleBitmapMask x y bitmap maskb w h r =
     (if bitmap = None \<or> maskb = None \<or> sint w \<le> 0 \<or> sint h \<le> 0 then r
      else recorded DR_REC_BITMAP_GRAY (pixels w h + monoPlaneBytes w h)
        [beginCmd OpGrayBitmapMask, putI16 x, putI16 y, putI16 w, putI16 h, putBytes bitmap (pixels w h),
         putMonoPlane maskb w h] r)"

definition rec_drawRGBBitmap :: "u16 \<Rightarrow> u16 \<Rightarrow> u32 list option \<Rightarrow> u16 \<Rightarrow> u16 \<Rightarrow> recorder \<Rightarrow> recorder" where
  "rec_drawRGBBitmap x y bitmap w h r =
     (case bitmap of None \<Rightarrow> r
      | Some px \<Rightarrow>
          if sint w \<le> 0 \<or> sint h \<le> 0 then r
          else recorded DR_REC_BITMAP_RGB (pixels w h * 4)
            ([beginCmd OpRGBBitmap, putI16 x, putI16 y, putI16 w, putI16 h] @
             map (\<lambda>i. putU32 (px ! i)) [0..<pixels w h]) r)"

definition rec_drawRGBBitmapMask ::
    "u16 \<Rightarrow> u16 \<Rightarrow> u32 list option \<Rightarrow> bytes option \<Rightarrow> u16 \<Rightarrow> u16 \<Rightarrow> recorder \<Rightarrow> recorder" where
  "rec_drawRGBBitmapMask x y bitmap maskb w h r =
     (case bitmap of None \<Rightarrow> r
      | Some px \<Rightarrow>
          if maskb = None \<or> sint w \<le> 0 \<or> sint h \<le> 0 then r
          else recorded DR_REC_BITMAP_RGB (pixels w h * 4 + monoPlaneBytes w h)
            ([beginCmd OpRGBBitmapMask, putI16 x, putI16 y, putI16 w, putI16 h] @
             map (\<lambda>i. putU32 (px ! i)) [0..<pixels w h] @ [putMonoPlane maskb w h]) r)"

definition rec_drawRGB565Bitmap :: "u16 \<Rightarrow> u16 \<Rightarrow> u16 list option \<Rightarrow> u16 \<Rightarrow> u16 \<Rightarrow> recorder \<Rightarrow> recorder" where
  "rec_drawRGB565Bitmap x y bitmap w h r =
     (case bitmap of None \<Rightarrow> r
      | Some px \<Rightarrow>
          if sint w \<le> 0 \<or> sint h \<le> 0 then r
          else recorded DR_REC_BITMAP_565 (pixels w h * 2)
            ([beginCmd OpRGB565Bitmap, putI16 x, putI16 y, putI16 w, putI16 h] @
             map (\<lambda>i. putU16 (px ! i)) [0..<pixels w h]) r)"

definition rec_drawBitmapTriangle ::
    "u16 \<Rightarrow> u16 \<Rightarrow> u16 \<Rightarrow> u16 \<Rightarrow> u16 \<Rightarrow> u16 \<Rightarrow> u32 list option \<Rightarrow> u16 \<Rightarrow> u16 \<Rightarrow> recorder \<Rightarrow> recorder" where
  "rec_drawBitmapTriangle x0 y0 x1 y1 x2 y2 bitmap texW texH r =
     (case bitmap of None \<Rightarrow> r
      | Some px \<Rightarrow>
          if sint texW \<le> 0 \<or> sint texH \<le> 0 then r
          else recorded DR_REC_BITMAP_TRI (pixels texW texH * 4)
            ([beginCmd OpBitmapTriangle, putI16 x0, putI16 y0, putI16 x1, putI16 y1, putI16 x2, putI16 y2,
              putI16 texW, putI16 texH] @ map (\<lambda>i. putU32 (px ! i)) [0..<pixels texW texH]) r)"

section \<open>Text\<close>

definition rec_setCursor :: "u16 \<Rightarrow> u16 \<Rightarrow> recorder \<Rightarrow> recorder" where
  "rec_setCursor x y r = setCursor x y (recorded DR_REC_TEXT 0 [beginCmd OpSetCursor, putI16 x, putI16 y] r)"

definition rec_setTextColor :: "u32 \<Rightarrow> u32 \<Rightarrow> recorder \<Rightarrow> recorder" where
  "rec_setTextColor c bg r =
     setTextColor c bg (recorded DR_REC_TEXT 0 [beginCmd OpSetTextColor, putU32 c, putU32 bg] r)"

definition rec_setTextSize :: "u8 \<Rightarrow> u8 \<Rightarrow> recorder \<Rightarrow> recorder" where
  "rec_setTextSize sx sy r =
     setTextSize sx sy (recorded DR_REC_TEXT 0 [beginCmd OpSetTextSize, putU8 sx, putU8 sy] r)"

definition rec_setTextWrap :: "bool \<Rightarrow> recorder \<Rightarrow> recorder" where
  "rec_setTextWrap w r =
     setTextWrap w (recorded DR_REC_TEXT 0 [beginCmd OpSetTextWrap, putU8 (if w then 1 else 0)] r)"

definition rec_setTextRotation :: "u8 \<Rightarrow> recorder \<Rightarrow> recorder" where
  "rec_setTextRotation rotation r =
     setTextRotation rotation (recorded DR_REC_TEXT 0 [beginCmd OpSetTextRotation, putU8 rotation] r)"

definition rec_setFont :: "font_ptr option \<Rightarrow> recorder \<Rightarrow> recorder" where
  "rec_setFont f r = setFont f (recorded DR_REC_TEXT 0 [beginCmd OpSetFont, putU8 (fontId f r)] r)"

definition rec_drawChar :: "u16 \<Rightarrow> u16 \<Rightarrow> u8 \<Rightarrow> u32 \<Rightarrow> u32 \<Rightarrow> u8 \<Rightarrow> u8 \<Rightarrow> recorder \<Rightarrow> recorder" where
  "rec_drawChar x y c color bg size_x size_y =
     recorded DR_REC_TEXT 0
       [beginCmd OpDrawChar, putI16 x, putI16 y, putU8 c, putU32 color, putU32 bg, putU8 size_x, putU8 size_y]"

text \<open>The base class's text runs under \<^verbatim>\<open>SuppressScope\<close>: the glyphs it places reach \<^verbatim>\<open>drawPixel\<close> and its
  kin, which drop them, so only the state it leaves is kept.\<close>

definition suppressed :: "(recorder \<Rightarrow> glyph_draw list \<times> recorder) \<Rightarrow> recorder \<Rightarrow> recorder" where
  "suppressed f r = (snd (f (r\<lparr>m_suppress := True\<rparr>)))\<lparr>m_suppress := False\<rparr>"

definition rec_writeText :: "font_mem \<Rightarrow> bytes option \<Rightarrow> recorder \<Rightarrow> recorder" where
  "rec_writeText fonts text r =
     (case text of None \<Rightarrow> r
      | Some t \<Rightarrow>
          if c_str t = [] then r
          else suppressed (writeText fonts t)
                 (recorded DR_REC_TEXT 0 [beginCmd OpWriteText, putText (Some t)] r))"

text \<open>\<open>formatted\<close> is what \<^verbatim>\<open>vsnprintf\<close> would print without a limit; it prints into 512 bytes.\<close>

definition rec_writeTextF :: "font_mem \<Rightarrow> bytes option \<Rightarrow> recorder \<Rightarrow> recorder" where
  "rec_writeTextF fonts formatted r =
     (case formatted of None \<Rightarrow> r
      | Some f \<Rightarrow> if length f \<le> 0 then r else rec_writeText fonts (Some (take 511 f)) r)"

definition rec_setText :: "font_mem \<Rightarrow> u16 \<Rightarrow> u16 \<Rightarrow> bytes option \<Rightarrow> u32 \<Rightarrow> u32 \<Rightarrow> u8 \<Rightarrow> u8 \<Rightarrow> font_ptr option \<Rightarrow> u8 \<Rightarrow>
    recorder \<Rightarrow> recorder" where
  "rec_setText fonts x y text color bgColor sizeX sizeY font rotation r =
     (case text of None \<Rightarrow> r
      | Some t \<Rightarrow>
          suppressed (setText fonts x y t color bgColor sizeX sizeY font rotation)
            (recorded DR_REC_TEXT 0
               [beginCmd OpSetText, putI16 x, putI16 y, putU32 color, putU32 bgColor, putU8 sizeX, putU8 sizeY,
                putU8 (fontId font r), putU8 rotation, putText (Some t)] r))"

definition rec_println :: "font_mem \<Rightarrow> bytes option \<Rightarrow> recorder \<Rightarrow> recorder" where
  "rec_println fonts text r = rec_writeText fonts (Some [10]) (rec_writeText fonts text r)"

section \<open>Style and control\<close>

definition rec_setDrawStyle :: "gfx_style \<Rightarrow> recorder \<Rightarrow> recorder" where
  "rec_setDrawStyle style r =
     setDrawStyle style
       (recorded DR_REC_STYLE 0
          [beginCmd OpSetDrawStyle, putU8 (st_strokeWidth style), putU8 (st_lineCap style),
           putU8 (st_lineJoin style), putU8 (if st_antiAlias style then 1 else 0)] r)"

definition rec_setStrokeWidth :: "u8 \<Rightarrow> recorder \<Rightarrow> recorder" where
  "rec_setStrokeWidth width r = rec_setDrawStyle ((m_drawStyle r)\<lparr>st_strokeWidth := width\<rparr>) r"

definition rec_setLineCap :: "u8 \<Rightarrow> recorder \<Rightarrow> recorder" where
  "rec_setLineCap cap r = rec_setDrawStyle ((m_drawStyle r)\<lparr>st_lineCap := cap\<rparr>) r"

definition rec_setLineJoin :: "u8 \<Rightarrow> recorder \<Rightarrow> recorder" where
  "rec_setLineJoin join r = rec_setDrawStyle ((m_drawStyle r)\<lparr>st_lineJoin := join\<rparr>) r"

definition rec_setAntiAlias :: "bool \<Rightarrow> recorder \<Rightarrow> recorder" where
  "rec_setAntiAlias enable r = rec_setDrawStyle ((m_drawStyle r)\<lparr>st_antiAlias := enable\<rparr>) r"

definition rec_setRotation :: "u8 \<Rightarrow> recorder \<Rightarrow> recorder" where
  "rec_setRotation v r = setRotation v (recorded DR_REC_STYLE 0 [beginCmd OpSetRotation, putU8 v] r)"

definition rec_invertDisplay :: "bool \<Rightarrow> recorder \<Rightarrow> recorder" where
  "rec_invertDisplay i r =
     (recorded DR_REC_STYLE 0 [beginCmd OpInvertDisplay, putU8 (if i then 1 else 0)] r)\<lparr>m_inverted := i\<rparr>"

definition rec_swapBuffers :: "bool \<Rightarrow> recorder \<Rightarrow> recorder" where
  "rec_swapBuffers autoclear = recorded DR_REC_FRAME 0 [beginCmd OpSwapBuffers, putU8 (if autoclear then 1 else 0)]"

section \<open>Base-class hooks\<close>

text \<open>What arrives through a \<^verbatim>\<open>LinuxGFX&\<close>, decomposed into spans and pixels.\<close>

definition rec_setPixel :: "u16 \<Rightarrow> u16 \<Rightarrow> u32 \<Rightarrow> recorder \<Rightarrow> recorder" where
  "rec_setPixel x y color r =
     (if m_suppress r then r
      else recorded DR_REC_PIXEL 0 [beginCmd OpDrawPixel, putI16 x, putI16 y, putU32 color] r)"

definition rec_drawFastVLineInternal :: "u16 \<Rightarrow> u16 \<Rightarrow> u16 \<Rightarrow> u32 \<Rightarrow> recorder \<Rightarrow> recorder" where
  "rec_drawFastVLineInternal x y h color r =
     (if m_suppress r then r
      else recorded DR_REC_GEOMETRY 0 [beginCmd OpFastVLine, putI16 x, putI16 y, putI16 h, putU32 color] r)"

definition rec_drawFastHLineInternal :: "u16 \<Rightarrow> u16 \<Rightarrow> u16 \<Rightarrow> u32 \<Rightarrow> recorder \<Rightarrow> recorder" where
  "rec_drawFastHLineInternal x y w color r =
     (if m_suppress r then r
      else recorded DR_REC_GEOMETRY 0 [beginCmd OpFastHLine, putI16 x, putI16 y, putI16 w, putU32 color] r)"

end
