(* ===== verification/DrawRender.thy ===== *)
theory DrawRender
  imports DrawReplay "HOL-Library.State_Monad"
begin

text \<open>
  The decoder of libs/libgfx/DrawReplay.cpp: the latching reader, the header checks, and \<^verbatim>\<open>DRRender\<close>, whose
  effect is the list of the calls it makes on the target. Bytes come from an untrusted peer.
\<close>

section \<open>Errors and fonts\<close>

datatype dr_error = DR_Ok | DR_BadMagic | DR_BadVersion | DR_Truncated | DR_UnknownOpcode | DR_BadPayload

fun DRErrorString :: "dr_error \<Rightarrow> string" where
  "DRErrorString DR_Ok = ''ok''"
| "DRErrorString DR_BadMagic = ''bad magic''"
| "DRErrorString DR_BadVersion = ''unsupported version''"
| "DRErrorString DR_Truncated = ''truncated stream''"
| "DRErrorString DR_UnknownOpcode = ''unknown opcode''"
| "DRErrorString DR_BadPayload = ''bad payload''"

type_synonym font_table = "font_ptr option list"

definition ft_bind :: "u8 \<Rightarrow> font_ptr option \<Rightarrow> font_table \<Rightarrow> font_table" where
  "ft_bind i font t =
     (if i = DR_FONT_BUILTIN then t
      else
        let t = (if length t \<le> unat i then t @ replicate (unat i + 1 - length t) None else t)
        in t[unat i := font])"

definition ft_get :: "u8 \<Rightarrow> font_table \<Rightarrow> font_ptr option" where
  "ft_get i t = (if i = DR_FONT_BUILTIN \<or> unat i \<ge> length t then None else t ! unat i)"

definition ft_clear :: "font_table \<Rightarrow> font_table" where
  "ft_clear t = []"

section \<open>The calls\<close>

datatype (plugins only: code size) draw_call =
    DrawPixel u16 u16 u32
  | DrawFastVLine u16 u16 u16 u32
  | DrawFastHLine u16 u16 u16 u32
  | DrawLine u16 u16 u16 u16 u32
  | DrawRect u16 u16 u16 u16 u32
  | FillRect u16 u16 u16 u16 u32
  | FillScreen u32
  | DrawCircle u16 u16 u16 u32
  | FillCircle u16 u16 u16 u32
  | DrawArc u16 u16 u16 u32 u32 u32
  | DrawRoundRect u16 u16 u16 u16 u16 u32
  | FillRoundRect u16 u16 u16 u16 u16 u32
  | DrawTriangle u16 u16 u16 u16 u16 u16 u32
  | FillTriangle u16 u16 u16 u16 u16 u16 u32
  | SetDrawStyle gfx_style
  | SetRotation u8
  | InvertDisplay bool
  | SetCursor u16 u16
  | SetTextColor u32 u32
  | SetTextSize u8 u8
  | SetTextWrap bool
  | SetTextRotation u8
  | SetFont "font_ptr option"
  | WriteText bytes
  | DrawChar u16 u16 u8 u32 u32 u8 u8
  | SetText u16 u16 bytes u32 u32 u8 u8 "font_ptr option" u8
  | DrawBitmap u16 u16 bytes u16 u16 u32 u32
  | DrawXBitmap u16 u16 bytes u16 u16 u32
  | DrawGrayscaleBitmap u16 u16 bytes u16 u16
  | DrawGrayscaleBitmapMask u16 u16 bytes bytes u16 u16
  | DrawRGBBitmap u16 u16 "u32 list" u16 u16
  | DrawRGBBitmapMask u16 u16 "u32 list" bytes u16 u16
  | DrawRGB565Bitmap u16 u16 "u16 list" u16 u16
  | DrawBitmapTriangle u16 u16 u16 u16 u16 u16 "u32 list" u16 u16
  | SwapBuffers bool

section \<open>The reader\<close>

record dr_reader =
  rd_p :: bytes
  rd_i :: nat
  rd_ok :: bool

definition rd_new :: "bytes \<Rightarrow> dr_reader" where
  "rd_new data = \<lparr>rd_p = data, rd_i = 0, rd_ok = True\<rparr>"

definition rd_remaining :: "dr_reader \<Rightarrow> nat" where
  "rd_remaining rd = (if rd_ok rd then length (rd_p rd) - rd_i rd else 0)"

definition rd_need :: "nat \<Rightarrow> dr_reader \<Rightarrow> bool \<times> dr_reader" where
  "rd_need k rd = (if \<not> rd_ok rd \<or> k > length (rd_p rd) - rd_i rd then (False, rd\<lparr>rd_ok := False\<rparr>) else (True, rd))"

definition rd_u8 :: "(dr_reader, u8) state" where
  "rd_u8 = State (\<lambda>rd. let (ok, rd) = rd_need 1 rd in
     if \<not> ok then (0, rd) else (rd_p rd ! rd_i rd, rd\<lparr>rd_i := rd_i rd + 1\<rparr>))"

definition rd_u16 :: "(dr_reader, u16) state" where
  "rd_u16 = State (\<lambda>rd. let (ok, rd) = rd_need 2 rd in
     if \<not> ok then (0, rd) else (getU16LE (drop (rd_i rd) (rd_p rd)), rd\<lparr>rd_i := rd_i rd + 2\<rparr>))"

definition rd_i16 :: "(dr_reader, u16) state" where
  "rd_i16 = rd_u16"

definition rd_u32 :: "(dr_reader, u32) state" where
  "rd_u32 = State (\<lambda>rd. let (ok, rd) = rd_need 4 rd in
     if \<not> ok then (0, rd) else (getU32LE (drop (rd_i rd) (rd_p rd)), rd\<lparr>rd_i := rd_i rd + 4\<rparr>))"

definition rd_f32 :: "(dr_reader, u32) state" where
  "rd_f32 = rd_u32"

definition rd_bytes :: "nat \<Rightarrow> (dr_reader, bytes) state" where
  "rd_bytes k = State (\<lambda>rd. let (ok, rd) = rd_need k rd in
     if \<not> ok then ([], rd) else (take k (drop (rd_i rd) (rd_p rd)), rd\<lparr>rd_i := rd_i rd + k\<rparr>))"

text \<open>\<^verbatim>\<open>for (k < size) buf[k] = rd.u32()\<close>\<close>

definition rd_u32s :: "nat \<Rightarrow> (dr_reader, u32 list) state" where
  "rd_u32s n = State_Monad.traverse_list (\<lambda>_. rd_u32) [0..<n]"

definition rd_u16s :: "nat \<Rightarrow> (dr_reader, u16 list) state" where
  "rd_u16s n = State_Monad.traverse_list (\<lambda>_. rd_u16) [0..<n]"

definition rd_okay :: "(dr_reader, bool) state" where
  "rd_okay = State (\<lambda>rd. (rd_ok rd, rd))"

definition extentOk :: "u16 \<Rightarrow> u16 \<Rightarrow> nat \<Rightarrow> (dr_reader, bool) state" where
  "extentOk w h bytesNeeded =
     State (\<lambda>rd. (if sint w \<le> 0 \<or> sint h \<le> 0 then False else bytesNeeded \<le> rd_remaining rd, rd))"

section \<open>One command\<close>

text \<open>\<open>Inl\<close> is an early return, \<open>Inr\<close> the call made, if any. \<open>issue\<close> is \<^verbatim>\<open>if (rd.ok) target...\<close>.\<close>

definition issue :: "draw_call \<Rightarrow> (dr_reader, dr_error + draw_call option) state" where
  "issue c = do { ok \<leftarrow> rd_okay; State_Monad.return (Inr (if ok then Some c else None)) }"

text \<open>The pattern of the bitmap commands: stop if the fields were cut short, reject a bad extent, read the
  payload, stop again.\<close>

definition payload_of :: "u16 \<Rightarrow> u16 \<Rightarrow> nat \<Rightarrow> (dr_reader, draw_call) state \<Rightarrow>
    (dr_reader, dr_error + draw_call option) state" where
  "payload_of w h need rest = do {
     ok \<leftarrow> rd_okay;
     if \<not> ok then State_Monad.return (Inr None)
     else do {
       fits \<leftarrow> extentOk w h need;
       if \<not> fits then State_Monad.return (Inl DR_BadPayload)
       else do { c \<leftarrow> rest; issue c }
     }
   }"

definition get_font :: "font_table option \<Rightarrow> u8 \<Rightarrow> font_ptr option" where
  "get_font fonts i = (case fonts of Some t \<Rightarrow> ft_get i t | None \<Rightarrow> None)"

text \<open>The text handed to the target is NUL-terminated.\<close>

definition render_WriteText :: "(dr_reader, dr_error + draw_call option) state" where
  "render_WriteText =
     do { n \<leftarrow> rd_u16; s \<leftarrow> rd_bytes (unat n); issue (WriteText (s @ [0])) }"

definition render_DrawChar :: "(dr_reader, dr_error + draw_call option) state" where
  "render_DrawChar =
     do { x \<leftarrow> rd_i16; y \<leftarrow> rd_i16; ch \<leftarrow> rd_u8; fg \<leftarrow> rd_u32; bg \<leftarrow> rd_u32; sx \<leftarrow> rd_u8; sy \<leftarrow> rd_u8;
          issue (DrawChar x y ch fg bg sx sy) }"

definition render_SetText :: "font_table option \<Rightarrow> (dr_reader, dr_error + draw_call option) state" where
  "render_SetText fonts =
     do { x \<leftarrow> rd_i16; y \<leftarrow> rd_i16; fg \<leftarrow> rd_u32; bg \<leftarrow> rd_u32; sx \<leftarrow> rd_u8; sy \<leftarrow> rd_u8; fid \<leftarrow> rd_u8; rot \<leftarrow> rd_u8;
          n \<leftarrow> rd_u16; s \<leftarrow> rd_bytes (unat n);
          issue (SetText x y (s @ [0]) fg bg sx sy (get_font fonts fid) rot) }"

definition render_Bitmap1Bit :: "(dr_reader, dr_error + draw_call option) state" where
  "render_Bitmap1Bit =
     do { x \<leftarrow> rd_i16; y \<leftarrow> rd_i16; w \<leftarrow> rd_i16; h \<leftarrow> rd_i16; fg \<leftarrow> rd_u32; bg \<leftarrow> rd_u32;
          payload_of w h (monoPlaneBytes w h)
            (do { bits \<leftarrow> rd_bytes (monoPlaneBytes w h); State_Monad.return (DrawBitmap x y bits w h fg bg) }) }"

definition render_XBitmap :: "(dr_reader, dr_error + draw_call option) state" where
  "render_XBitmap =
     do { x \<leftarrow> rd_i16; y \<leftarrow> rd_i16; w \<leftarrow> rd_i16; h \<leftarrow> rd_i16; fg \<leftarrow> rd_u32;
          payload_of w h (monoPlaneBytes w h)
            (do { bits \<leftarrow> rd_bytes (monoPlaneBytes w h); State_Monad.return (DrawXBitmap x y bits w h fg) }) }"

definition render_GrayBitmap :: "(dr_reader, dr_error + draw_call option) state" where
  "render_GrayBitmap =
     do { x \<leftarrow> rd_i16; y \<leftarrow> rd_i16; w \<leftarrow> rd_i16; h \<leftarrow> rd_i16;
          payload_of w h (pixels w h)
            (do { px \<leftarrow> rd_bytes (pixels w h); State_Monad.return (DrawGrayscaleBitmap x y px w h) }) }"

definition render_GrayBitmapMask :: "(dr_reader, dr_error + draw_call option) state" where
  "render_GrayBitmapMask =
     do { x \<leftarrow> rd_i16; y \<leftarrow> rd_i16; w \<leftarrow> rd_i16; h \<leftarrow> rd_i16;
          payload_of w h (pixels w h + monoPlaneBytes w h)
            (do { px \<leftarrow> rd_bytes (pixels w h); maskb \<leftarrow> rd_bytes (monoPlaneBytes w h);
                  State_Monad.return (DrawGrayscaleBitmapMask x y px maskb w h) }) }"

definition render_RGBBitmap :: "(dr_reader, dr_error + draw_call option) state" where
  "render_RGBBitmap =
     do { x \<leftarrow> rd_i16; y \<leftarrow> rd_i16; w \<leftarrow> rd_i16; h \<leftarrow> rd_i16;
          payload_of w h (pixels w h * 4)
            (do { argb \<leftarrow> rd_u32s (pixels w h); State_Monad.return (DrawRGBBitmap x y argb w h) }) }"

definition render_RGBBitmapMask :: "(dr_reader, dr_error + draw_call option) state" where
  "render_RGBBitmapMask =
     do { x \<leftarrow> rd_i16; y \<leftarrow> rd_i16; w \<leftarrow> rd_i16; h \<leftarrow> rd_i16;
          payload_of w h (pixels w h * 4 + monoPlaneBytes w h)
            (do { argb \<leftarrow> rd_u32s (pixels w h); maskb \<leftarrow> rd_bytes (monoPlaneBytes w h);
                  State_Monad.return (DrawRGBBitmapMask x y argb maskb w h) }) }"

definition render_RGB565Bitmap :: "(dr_reader, dr_error + draw_call option) state" where
  "render_RGB565Bitmap =
     do { x \<leftarrow> rd_i16; y \<leftarrow> rd_i16; w \<leftarrow> rd_i16; h \<leftarrow> rd_i16;
          payload_of w h (pixels w h * 2)
            (do { px \<leftarrow> rd_u16s (pixels w h); State_Monad.return (DrawRGB565Bitmap x y px w h) }) }"

definition render_BitmapTriangle :: "(dr_reader, dr_error + draw_call option) state" where
  "render_BitmapTriangle =
     do { x0 \<leftarrow> rd_i16; y0 \<leftarrow> rd_i16; x1 \<leftarrow> rd_i16; y1 \<leftarrow> rd_i16; x2 \<leftarrow> rd_i16; y2 \<leftarrow> rd_i16;
          tw \<leftarrow> rd_i16; th \<leftarrow> rd_i16;
          payload_of tw th (pixels tw th * 4)
            (do { argb \<leftarrow> rd_u32s (pixels tw th);
                  State_Monad.return (DrawBitmapTriangle x0 y0 x1 y1 x2 y2 argb tw th) }) }"

definition render_SwapBuffers :: "(dr_reader, dr_error + draw_call option) state" where
  "render_SwapBuffers =
     do { autoclear \<leftarrow> rd_u8; issue (SwapBuffers (autoclear \<noteq> 0)) }"

lemmas render_defs = render_WriteText_def render_DrawChar_def render_SetText_def render_Bitmap1Bit_def
  render_XBitmap_def render_GrayBitmap_def render_GrayBitmapMask_def render_RGBBitmap_def
  render_RGBBitmapMask_def render_RGB565Bitmap_def render_BitmapTriangle_def render_SwapBuffers_def

text \<open>The switch.\<close>

fun render_op :: "font_table option \<Rightarrow> dr_op \<Rightarrow> (dr_reader, dr_error + draw_call option) state" where
  "render_op fonts OpEnd = State_Monad.return (Inr None)"
| "render_op fonts OpDrawPixel = do { x \<leftarrow> rd_i16; y \<leftarrow> rd_i16; c \<leftarrow> rd_u32; issue (DrawPixel x y c) }"
| "render_op fonts OpFastVLine =
     do { x \<leftarrow> rd_i16; y \<leftarrow> rd_i16; h \<leftarrow> rd_i16; c \<leftarrow> rd_u32; issue (DrawFastVLine x y h c) }"
| "render_op fonts OpFastHLine =
     do { x \<leftarrow> rd_i16; y \<leftarrow> rd_i16; w \<leftarrow> rd_i16; c \<leftarrow> rd_u32; issue (DrawFastHLine x y w c) }"
| "render_op fonts OpLine =
     do { x0 \<leftarrow> rd_i16; y0 \<leftarrow> rd_i16; x1 \<leftarrow> rd_i16; y1 \<leftarrow> rd_i16; c \<leftarrow> rd_u32; issue (DrawLine x0 y0 x1 y1 c) }"
| "render_op fonts OpRect =
     do { x \<leftarrow> rd_i16; y \<leftarrow> rd_i16; w \<leftarrow> rd_i16; h \<leftarrow> rd_i16; c \<leftarrow> rd_u32; issue (DrawRect x y w h c) }"
| "render_op fonts OpFillRect =
     do { x \<leftarrow> rd_i16; y \<leftarrow> rd_i16; w \<leftarrow> rd_i16; h \<leftarrow> rd_i16; c \<leftarrow> rd_u32; issue (FillRect x y w h c) }"
| "render_op fonts OpFillScreen = do { c \<leftarrow> rd_u32; issue (FillScreen c) }"
| "render_op fonts OpCircle =
     do { x \<leftarrow> rd_i16; y \<leftarrow> rd_i16; r \<leftarrow> rd_i16; c \<leftarrow> rd_u32; issue (DrawCircle x y r c) }"
| "render_op fonts OpFillCircle =
     do { x \<leftarrow> rd_i16; y \<leftarrow> rd_i16; r \<leftarrow> rd_i16; c \<leftarrow> rd_u32; issue (FillCircle x y r c) }"
| "render_op fonts OpArc =
     do { x \<leftarrow> rd_i16; y \<leftarrow> rd_i16; r \<leftarrow> rd_i16; a0 \<leftarrow> rd_f32; a1 \<leftarrow> rd_f32; c \<leftarrow> rd_u32;
          issue (DrawArc x y r a0 a1 c) }"
| "render_op fonts OpRoundRect =
     do { x \<leftarrow> rd_i16; y \<leftarrow> rd_i16; w \<leftarrow> rd_i16; h \<leftarrow> rd_i16; rad \<leftarrow> rd_i16; c \<leftarrow> rd_u32;
          issue (DrawRoundRect x y w h rad c) }"
| "render_op fonts OpFillRoundRect =
     do { x \<leftarrow> rd_i16; y \<leftarrow> rd_i16; w \<leftarrow> rd_i16; h \<leftarrow> rd_i16; rad \<leftarrow> rd_i16; c \<leftarrow> rd_u32;
          issue (FillRoundRect x y w h rad c) }"
| "render_op fonts OpTriangle =
     do { x0 \<leftarrow> rd_i16; y0 \<leftarrow> rd_i16; x1 \<leftarrow> rd_i16; y1 \<leftarrow> rd_i16; x2 \<leftarrow> rd_i16; y2 \<leftarrow> rd_i16; c \<leftarrow> rd_u32;
          issue (DrawTriangle x0 y0 x1 y1 x2 y2 c) }"
| "render_op fonts OpFillTriangle =
     do { x0 \<leftarrow> rd_i16; y0 \<leftarrow> rd_i16; x1 \<leftarrow> rd_i16; y1 \<leftarrow> rd_i16; x2 \<leftarrow> rd_i16; y2 \<leftarrow> rd_i16; c \<leftarrow> rd_u32;
          issue (FillTriangle x0 y0 x1 y1 x2 y2 c) }"
| "render_op fonts OpSetDrawStyle =
     do { sw \<leftarrow> rd_u8; cap \<leftarrow> rd_u8; join \<leftarrow> rd_u8; aa \<leftarrow> rd_u8;
          issue (SetDrawStyle \<lparr>st_strokeWidth = sw, st_lineCap = cap, st_lineJoin = join, st_antiAlias = (aa \<noteq> 0)\<rparr>) }"
| "render_op fonts OpSetRotation = do { r \<leftarrow> rd_u8; issue (SetRotation r) }"
| "render_op fonts OpInvertDisplay = do { inv \<leftarrow> rd_u8; issue (InvertDisplay (inv \<noteq> 0)) }"
| "render_op fonts OpSetCursor = do { x \<leftarrow> rd_i16; y \<leftarrow> rd_i16; issue (SetCursor x y) }"
| "render_op fonts OpSetTextColor = do { fg \<leftarrow> rd_u32; bg \<leftarrow> rd_u32; issue (SetTextColor fg bg) }"
| "render_op fonts OpSetTextSize = do { sx \<leftarrow> rd_u8; sy \<leftarrow> rd_u8; issue (SetTextSize sx sy) }"
| "render_op fonts OpSetTextWrap = do { w \<leftarrow> rd_u8; issue (SetTextWrap (w \<noteq> 0)) }"
| "render_op fonts OpSetTextRotation = do { r \<leftarrow> rd_u8; issue (SetTextRotation r) }"
| "render_op fonts OpSetFont = do { i \<leftarrow> rd_u8; issue (SetFont (get_font fonts i)) }"
| "render_op fonts OpWriteText = render_WriteText"
| "render_op fonts OpDrawChar = render_DrawChar"
| "render_op fonts OpSetText = render_SetText fonts"
| "render_op fonts OpBitmap1Bit = render_Bitmap1Bit"
| "render_op fonts OpXBitmap = render_XBitmap"
| "render_op fonts OpGrayBitmap = render_GrayBitmap"
| "render_op fonts OpGrayBitmapMask = render_GrayBitmapMask"
| "render_op fonts OpRGBBitmap = render_RGBBitmap"
| "render_op fonts OpRGBBitmapMask = render_RGBBitmapMask"
| "render_op fonts OpRGB565Bitmap = render_RGB565Bitmap"
| "render_op fonts OpBitmapTriangle = render_BitmapTriangle"
| "render_op fonts OpSwapBuffers = render_SwapBuffers"

section \<open>Progress\<close>

text \<open>Reading never moves back, never changes the buffer, and a failure latches.\<close>

definition rd_le :: "dr_reader \<Rightarrow> dr_reader \<Rightarrow> bool" where
  "rd_le s t \<longleftrightarrow> rd_p t = rd_p s \<and> rd_i s \<le> rd_i t \<and> (rd_ok t \<longrightarrow> rd_ok s)"

lemma rd_le_return: "state_io_rel rd_le (State_Monad.return x)"
  by (auto simp: state_io_rel_def rd_le_def)

lemma rd_le_bind:
  assumes "state_io_rel rd_le m" "\<And>x. state_io_rel rd_le (f x)"
  shows "state_io_rel rd_le (State_Monad.bind m f)"
proof (rule state_io_relI)
  fix a s s' assume r: "run_state (State_Monad.bind m f) s = (a, s')"
  obtain x t where t: "run_state m s = (x, t)" by force
  have "rd_le s t" using state_io_relD [OF assms(1) t] .
  moreover have "rd_le t s'" using state_io_relD [OF assms(2)] r t by simp
  ultimately show "rd_le s s'" by (auto simp: rd_le_def)
qed

lemma rd_le_if: "state_io_rel rd_le a \<Longrightarrow> state_io_rel rd_le b \<Longrightarrow> state_io_rel rd_le (if c then a else b)"
  by simp

lemma rd_le_prims:
  "state_io_rel rd_le rd_u8" "state_io_rel rd_le rd_u16" "state_io_rel rd_le rd_i16" "state_io_rel rd_le rd_u32"
  "state_io_rel rd_le rd_f32" "state_io_rel rd_le (rd_bytes k)" "state_io_rel rd_le rd_okay"
  "state_io_rel rd_le (extentOk w h n)"
  by (simp_all add: state_io_rel_def rd_le_def rd_u8_def rd_u16_def rd_i16_def rd_u32_def rd_f32_def rd_bytes_def
      rd_okay_def extentOk_def rd_need_def Let_def)

lemma rd_le_traverse: "state_io_rel rd_le m \<Longrightarrow> state_io_rel rd_le (State_Monad.traverse_list (\<lambda>_. m) ks)"
  by (induction ks) (auto intro: rd_le_return rd_le_bind)

lemma rd_le_arrays: "state_io_rel rd_le (rd_u32s n)" "state_io_rel rd_le (rd_u16s n)"
  by (simp_all add: rd_u32s_def rd_u16s_def rd_le_traverse rd_le_prims)

lemma rd_le_issue: "state_io_rel rd_le (issue c)"
  unfolding issue_def by (intro rd_le_bind rd_le_prims rd_le_return)

lemma rd_le_payload: "state_io_rel rd_le m \<Longrightarrow> state_io_rel rd_le (payload_of w h n m)"
  unfolding payload_of_def by (intro rd_le_bind rd_le_if rd_le_prims rd_le_return rd_le_issue)

lemmas rd_le_intros = rd_le_bind rd_le_prims rd_le_arrays rd_le_return rd_le_issue rd_le_payload

lemma rd_le_render_op: "state_io_rel rd_le (render_op fonts op)"
  by (cases op; simp only: render_op.simps render_defs; intro rd_le_intros)

section \<open>The header\<close>

record dr_header =
  dh_width :: u16
  dh_height :: u16
  dh_cmdCount :: u32
  dh_bodyBytes :: u32

definition DRSyncMagic :: bytes where
  "DRSyncMagic = [0x44, 0x52, 0x50, 0x31]"

text \<open>\<open>None\<close> is a null pointer; the outputs are given when the code assigns them.\<close>

definition DRPeek :: "bytes option \<Rightarrow> dr_error \<times> dr_header option" where
  "DRPeek data =
     (case data of None \<Rightarrow> (DR_Truncated, None)
      | Some d \<Rightarrow>
          if length d < DR_HEADER_SIZE then (DR_Truncated, None)
          else if d ! 0 \<noteq> 0x44 \<or> d ! 1 \<noteq> 0x52 \<or> d ! 2 \<noteq> 0x50 \<or> d ! 3 \<noteq> 0x31 then (DR_BadMagic, None)
          else
            let hdr = rd_new (take (DR_HEADER_SIZE - 4) (drop 4 d));
                (version, hdr) = run_state rd_u16 hdr;
                (flags, hdr) = run_state rd_u16 hdr
            in if version > DR_VERSION then (DR_BadVersion, None)
               else
                 let (w, hdr) = run_state rd_i16 hdr;
                     (h, hdr) = run_state rd_i16 hdr;
                     (cmds, hdr) = run_state rd_u32 hdr;
                     (body, hdr) = run_state rd_u32 hdr;
                     out = \<lparr>dh_width = w, dh_height = h, dh_cmdCount = cmds, dh_bodyBytes = body\<rparr>
                 in if \<not> rd_ok hdr then (DR_Truncated, Some out)
                    else if unat body > length d - DR_HEADER_SIZE then (DR_Truncated, Some out)
                    else (DR_Ok, Some out))"

definition DRRecordSize :: "bytes option \<Rightarrow> nat" where
  "DRRecordSize data =
     (case data of None \<Rightarrow> 0xFFFFFFFFFFFFFFFF
      | Some d \<Rightarrow>
          let have = (if length d < 4 then length d else 4) in
          if \<not> list_all (\<lambda>i. d ! i = DRSyncMagic ! i) [0..<have] then 0xFFFFFFFFFFFFFFFF
          else if length d < DR_HEADER_SIZE then 0
          else if fst (DRPeek (Some d)) = DR_BadVersion then 0xFFFFFFFFFFFFFFFF
          else DR_HEADER_SIZE + unat (getU32LE (drop 16 d)))"

section \<open>Rendering\<close>

definition all_ops :: "dr_op list" where
  "all_ops = [OpEnd, OpDrawPixel, OpFastVLine, OpFastHLine, OpLine, OpRect, OpFillRect, OpFillScreen, OpCircle,
     OpFillCircle, OpArc, OpRoundRect, OpFillRoundRect, OpTriangle, OpFillTriangle, OpSetDrawStyle, OpSetRotation,
     OpInvertDisplay, OpSetCursor, OpSetTextColor, OpSetTextSize, OpSetTextWrap, OpSetTextRotation, OpSetFont,
     OpWriteText, OpDrawChar, OpSetText, OpBitmap1Bit, OpXBitmap, OpGrayBitmap, OpGrayBitmapMask, OpRGBBitmap,
     OpRGBBitmapMask, OpRGB565Bitmap, OpBitmapTriangle, OpSwapBuffers]"

definition op_of :: "u8 \<Rightarrow> dr_op option" where
  "op_of b = find (\<lambda>op. op_code op = b) all_ops"

lemma op_of_code [simp]: "op_of (op_code op) = Some op"
  by (cases op) (simp_all add: op_of_def all_ops_def)

text \<open>The calls made, in order, and the verdict.\<close>

function render_loop :: "font_table option \<Rightarrow> dr_reader \<Rightarrow> draw_call list \<times> dr_error" where
  "render_loop fonts rd =
     (let (opByte, rd1) = run_state rd_u8 rd in
      if \<not> rd_ok rd1 then ([], DR_Truncated)
      else case op_of opByte of
        None \<Rightarrow> ([], DR_UnknownOpcode)
      | Some op \<Rightarrow>
          if op = OpEnd then ([], DR_Ok)
          else
            let (res, rd2) = run_state (render_op fonts op) rd1 in
            case res of
              Inl e \<Rightarrow> ([], e)
            | Inr c \<Rightarrow>
                let call = (case c of Some c \<Rightarrow> [c] | None \<Rightarrow> []) in
                if \<not> rd_ok rd2 then (call, DR_Truncated)
                else let (calls, e) = render_loop fonts rd2 in (call @ calls, e))"
  by auto
termination
proof (relation "measure (\<lambda>(fonts, rd). length (rd_p rd) - rd_i rd)", goal_cases)
  case (2 fonts rd p b rd1 op q res rd2 c call)
  then have 1: "rd_p rd1 = rd_p rd" "rd_i rd < length (rd_p rd)" "rd_i rd1 = Suc (rd_i rd)"
    by (auto simp: rd_u8_def rd_need_def Let_def split: if_splits)
  have "rd_le rd1 rd2" using 2 state_io_relD [OF rd_le_render_op [of fonts op]] by metis
  with 1 have "rd_i rd < rd_i rd2" "rd_p rd2 = rd_p rd" by (simp_all add: rd_le_def)
  with 1 show ?case by (simp add: diff_less_mono2)
qed simp

declare render_loop.simps [simp del]

definition DRRender :: "bytes option \<Rightarrow> font_table option \<Rightarrow> draw_call list \<times> dr_error" where
  "DRRender data fonts =
     (case DRPeek data of
        (DR_Ok, Some hdr) \<Rightarrow>
          render_loop fonts (rd_new (take (unat (dh_bodyBytes hdr)) (drop DR_HEADER_SIZE (the data))))
      | (headerErr, _) \<Rightarrow> ([], headerErr))"

end
