(* ===== verification/DrawWire.thy ===== *)
theory DrawWire
  imports DrawRender
begin

text \<open>
  The wire format of a draw command, stated independently of the recorder and the decoder: the bytes of
  each call as the documentation lists them (libs/libgfx/DrawReplay.h), the feature flag and the inline
  size each call is subject to, and the recorder's methods as one function of the call.
\<close>

section \<open>The bytes of a call\<close>

fun call_op :: "draw_call \<Rightarrow> dr_op" where
  "call_op (DrawPixel _ _ _) = OpDrawPixel"
| "call_op (DrawFastVLine _ _ _ _) = OpFastVLine"
| "call_op (DrawFastHLine _ _ _ _) = OpFastHLine"
| "call_op (DrawLine _ _ _ _ _) = OpLine"
| "call_op (DrawRect _ _ _ _ _) = OpRect"
| "call_op (FillRect _ _ _ _ _) = OpFillRect"
| "call_op (FillScreen _) = OpFillScreen"
| "call_op (DrawCircle _ _ _ _) = OpCircle"
| "call_op (FillCircle _ _ _ _) = OpFillCircle"
| "call_op (DrawArc _ _ _ _ _ _) = OpArc"
| "call_op (DrawRoundRect _ _ _ _ _ _) = OpRoundRect"
| "call_op (FillRoundRect _ _ _ _ _ _) = OpFillRoundRect"
| "call_op (DrawTriangle _ _ _ _ _ _ _) = OpTriangle"
| "call_op (FillTriangle _ _ _ _ _ _ _) = OpFillTriangle"
| "call_op (SetDrawStyle _) = OpSetDrawStyle"
| "call_op (SetRotation _) = OpSetRotation"
| "call_op (InvertDisplay _) = OpInvertDisplay"
| "call_op (SetCursor _ _) = OpSetCursor"
| "call_op (SetTextColor _ _) = OpSetTextColor"
| "call_op (SetTextSize _ _) = OpSetTextSize"
| "call_op (SetTextWrap _) = OpSetTextWrap"
| "call_op (SetTextRotation _) = OpSetTextRotation"
| "call_op (SetFont _) = OpSetFont"
| "call_op (WriteText _) = OpWriteText"
| "call_op (DrawChar _ _ _ _ _ _ _) = OpDrawChar"
| "call_op (SetText _ _ _ _ _ _ _ _ _) = OpSetText"
| "call_op (DrawBitmap _ _ _ _ _ _ _) = OpBitmap1Bit"
| "call_op (DrawXBitmap _ _ _ _ _ _) = OpXBitmap"
| "call_op (DrawGrayscaleBitmap _ _ _ _ _) = OpGrayBitmap"
| "call_op (DrawGrayscaleBitmapMask _ _ _ _ _ _) = OpGrayBitmapMask"
| "call_op (DrawRGBBitmap _ _ _ _ _) = OpRGBBitmap"
| "call_op (DrawRGBBitmapMask _ _ _ _ _ _) = OpRGBBitmapMask"
| "call_op (DrawRGB565Bitmap _ _ _ _ _) = OpRGB565Bitmap"
| "call_op (DrawBitmapTriangle _ _ _ _ _ _ _ _ _) = OpBitmapTriangle"
| "call_op (SwapBuffers _) = OpSwapBuffers"

definition b8 :: "bool \<Rightarrow> u8" where "b8 b = (if b then 1 else 0)"

text \<open>The text a command carries: at most 65535 bytes of the C string.\<close>

definition wire_text :: "bytes \<Rightarrow> bytes" where
  "wire_text t = take 65535 (c_str t)"

definition enc_text :: "bytes \<Rightarrow> bytes" where
  "enc_text t = putU16LE (of_nat (length (wire_text t))) @ wire_text t"

definition i16s :: "u16 list \<Rightarrow> bytes" where "i16s vs = concat (map putU16LE vs)"
definition u32s :: "u32 list \<Rightarrow> bytes" where "u32s vs = concat (map putU32LE vs)"

text \<open>The wire format of the documentation (DrawReplay.h): the fields that follow the opcode. \<open>fid\<close> gives
  the ids of fonts.\<close>

fun enc_args :: "(font_ptr option \<Rightarrow> u8) \<Rightarrow> draw_call \<Rightarrow> bytes" where
  "enc_args fid (DrawPixel x y c) = i16s [x, y] @ u32s [c]"
| "enc_args fid (DrawFastVLine x y h c) = i16s [x, y, h] @ u32s [c]"
| "enc_args fid (DrawFastHLine x y w c) = i16s [x, y, w] @ u32s [c]"
| "enc_args fid (DrawLine x0 y0 x1 y1 c) = i16s [x0, y0, x1, y1] @ u32s [c]"
| "enc_args fid (DrawRect x y w h c) = i16s [x, y, w, h] @ u32s [c]"
| "enc_args fid (FillRect x y w h c) = i16s [x, y, w, h] @ u32s [c]"
| "enc_args fid (FillScreen c) = u32s [c]"
| "enc_args fid (DrawCircle x y r c) = i16s [x, y, r] @ u32s [c]"
| "enc_args fid (FillCircle x y r c) = i16s [x, y, r] @ u32s [c]"
| "enc_args fid (DrawArc x y r a0 a1 c) = i16s [x, y, r] @ u32s [a0, a1, c]"
| "enc_args fid (DrawRoundRect x y w h rad c) = i16s [x, y, w, h, rad] @ u32s [c]"
| "enc_args fid (FillRoundRect x y w h rad c) = i16s [x, y, w, h, rad] @ u32s [c]"
| "enc_args fid (DrawTriangle x0 y0 x1 y1 x2 y2 c) = i16s [x0, y0, x1, y1, x2, y2] @ u32s [c]"
| "enc_args fid (FillTriangle x0 y0 x1 y1 x2 y2 c) = i16s [x0, y0, x1, y1, x2, y2] @ u32s [c]"
| "enc_args fid (SetDrawStyle st) = [st_strokeWidth st, st_lineCap st, st_lineJoin st, b8 (st_antiAlias st)]"
| "enc_args fid (SetRotation r) = [r]"
| "enc_args fid (InvertDisplay i) = [b8 i]"
| "enc_args fid (SetCursor x y) = i16s [x, y]"
| "enc_args fid (SetTextColor c bg) = u32s [c, bg]"
| "enc_args fid (SetTextSize sx sy) = [sx, sy]"
| "enc_args fid (SetTextWrap w) = [b8 w]"
| "enc_args fid (SetTextRotation r) = [r]"
| "enc_args fid (SetFont f) = [fid f]"
| "enc_args fid (WriteText t) = enc_text t"
| "enc_args fid (DrawChar x y ch c bg sx sy) = i16s [x, y] @ [ch] @ u32s [c, bg] @ [sx, sy]"
| "enc_args fid (SetText x y t c bg sx sy f rot) =
     i16s [x, y] @ u32s [c, bg] @ [sx, sy, fid f, rot] @ enc_text t"
| "enc_args fid (DrawBitmap x y bits w h c bg) = i16s [x, y, w, h] @ u32s [c, bg] @ bits"
| "enc_args fid (DrawXBitmap x y bits w h c) = i16s [x, y, w, h] @ u32s [c] @ bits"
| "enc_args fid (DrawGrayscaleBitmap x y px w h) = i16s [x, y, w, h] @ px"
| "enc_args fid (DrawGrayscaleBitmapMask x y px mk w h) = i16s [x, y, w, h] @ px @ mk"
| "enc_args fid (DrawRGBBitmap x y px w h) = i16s [x, y, w, h] @ u32s px"
| "enc_args fid (DrawRGBBitmapMask x y px mk w h) = i16s [x, y, w, h] @ u32s px @ mk"
| "enc_args fid (DrawRGB565Bitmap x y px w h) = i16s [x, y, w, h] @ i16s px"
| "enc_args fid (DrawBitmapTriangle x0 y0 x1 y1 x2 y2 px w h) = i16s [x0, y0, x1, y1, x2, y2, w, h] @ u32s px"
| "enc_args fid (SwapBuffers a) = [b8 a]"

definition enc_call :: "(font_ptr option \<Rightarrow> u8) \<Rightarrow> draw_call \<Rightarrow> bytes" where
  "enc_call fid c = op_code (call_op c) # enc_args fid c"

text \<open>Bitmap arguments as a caller may pass them: an array of exactly the plane the extents describe.\<close>

definition extent :: "u16 \<Rightarrow> u16 \<Rightarrow> bool" where "extent w h \<longleftrightarrow> 0 < sint w \<and> 0 < sint h"

fun array_ok :: "draw_call \<Rightarrow> bool" where
  "array_ok (DrawBitmap x y bits w h c bg) \<longleftrightarrow> length bits = monoPlaneBytes w h"
| "array_ok (DrawXBitmap x y bits w h c) \<longleftrightarrow> length bits = monoPlaneBytes w h"
| "array_ok (DrawGrayscaleBitmap x y px w h) \<longleftrightarrow> length px = pixels w h"
| "array_ok (DrawGrayscaleBitmapMask x y px mk w h) \<longleftrightarrow> length px = pixels w h \<and> length mk = monoPlaneBytes w h"
| "array_ok (DrawRGBBitmap x y px w h) \<longleftrightarrow> length px = pixels w h"
| "array_ok (DrawRGBBitmapMask x y px mk w h) \<longleftrightarrow> length px = pixels w h \<and> length mk = monoPlaneBytes w h"
| "array_ok (DrawRGB565Bitmap x y px w h) \<longleftrightarrow> length px = pixels w h"
| "array_ok (DrawBitmapTriangle x0 y0 x1 y1 x2 y2 px w h) \<longleftrightarrow> length px = pixels w h"
| "array_ok _ \<longleftrightarrow> True"

text \<open>Calls the recorder returns from before it asks the mask.\<close>

fun draws :: "draw_call \<Rightarrow> bool" where
  "draws (DrawBitmap x y bits w h c bg) \<longleftrightarrow> extent w h"
| "draws (DrawXBitmap x y bits w h c) \<longleftrightarrow> extent w h"
| "draws (DrawGrayscaleBitmap x y px w h) \<longleftrightarrow> extent w h"
| "draws (DrawGrayscaleBitmapMask x y px mk w h) \<longleftrightarrow> extent w h"
| "draws (DrawRGBBitmap x y px w h) \<longleftrightarrow> extent w h"
| "draws (DrawRGBBitmapMask x y px mk w h) \<longleftrightarrow> extent w h"
| "draws (DrawRGB565Bitmap x y px w h) \<longleftrightarrow> extent w h"
| "draws (DrawBitmapTriangle x0 y0 x1 y1 x2 y2 px w h) \<longleftrightarrow> extent w h"
| "draws (WriteText t) \<longleftrightarrow> c_str t \<noteq> []"
| "draws _ \<longleftrightarrow> True"

fun call_feature :: "draw_call \<Rightarrow> u32" where
  "call_feature (DrawPixel _ _ _) = DR_REC_PIXEL"
| "call_feature (SetDrawStyle _) = DR_REC_STYLE"
| "call_feature (SetRotation _) = DR_REC_STYLE"
| "call_feature (InvertDisplay _) = DR_REC_STYLE"
| "call_feature (SetCursor _ _) = DR_REC_TEXT"
| "call_feature (SetTextColor _ _) = DR_REC_TEXT"
| "call_feature (SetTextSize _ _) = DR_REC_TEXT"
| "call_feature (SetTextWrap _) = DR_REC_TEXT"
| "call_feature (SetTextRotation _) = DR_REC_TEXT"
| "call_feature (SetFont _) = DR_REC_TEXT"
| "call_feature (WriteText _) = DR_REC_TEXT"
| "call_feature (DrawChar _ _ _ _ _ _ _) = DR_REC_TEXT"
| "call_feature (SetText _ _ _ _ _ _ _ _ _) = DR_REC_TEXT"
| "call_feature (DrawBitmap _ _ _ _ _ _ _) = DR_REC_BITMAP_1BIT"
| "call_feature (DrawXBitmap _ _ _ _ _ _) = DR_REC_BITMAP_XBM"
| "call_feature (DrawGrayscaleBitmap _ _ _ _ _) = DR_REC_BITMAP_GRAY"
| "call_feature (DrawGrayscaleBitmapMask _ _ _ _ _ _) = DR_REC_BITMAP_GRAY"
| "call_feature (DrawRGBBitmap _ _ _ _ _) = DR_REC_BITMAP_RGB"
| "call_feature (DrawRGBBitmapMask _ _ _ _ _ _) = DR_REC_BITMAP_RGB"
| "call_feature (DrawRGB565Bitmap _ _ _ _ _) = DR_REC_BITMAP_565"
| "call_feature (DrawBitmapTriangle _ _ _ _ _ _ _ _ _) = DR_REC_BITMAP_TRI"
| "call_feature (SwapBuffers _) = DR_REC_FRAME"
| "call_feature _ = DR_REC_GEOMETRY"

fun call_inline :: "draw_call \<Rightarrow> nat" where
  "call_inline (DrawBitmap x y bits w h c bg) = monoPlaneBytes w h"
| "call_inline (DrawXBitmap x y bits w h c) = monoPlaneBytes w h"
| "call_inline (DrawGrayscaleBitmap x y px w h) = pixels w h"
| "call_inline (DrawGrayscaleBitmapMask x y px mk w h) = pixels w h + monoPlaneBytes w h"
| "call_inline (DrawRGBBitmap x y px w h) = pixels w h * 4"
| "call_inline (DrawRGBBitmapMask x y px mk w h) = pixels w h * 4 + monoPlaneBytes w h"
| "call_inline (DrawRGB565Bitmap x y px w h) = pixels w h * 2"
| "call_inline (DrawBitmapTriangle x0 y0 x1 y1 x2 y2 px w h) = pixels w h * 4"
| "call_inline _ = 0"

definition admitted :: "recorder \<Rightarrow> draw_call \<Rightarrow> bool" where
  "admitted r c \<longleftrightarrow> DRRecords (call_feature c) r \<and> (m_maxInlineBytes r = 0 \<or> call_inline c \<le> m_maxInlineBytes r)"

section \<open>Recording\<close>

fun record_call :: "font_mem \<Rightarrow> draw_call \<Rightarrow> recorder \<Rightarrow> recorder" where
  "record_call fm (DrawPixel x y c) = rec_drawPixel x y c"
| "record_call fm (DrawFastVLine x y h c) = rec_drawFastVLine x y h c"
| "record_call fm (DrawFastHLine x y w c) = rec_drawFastHLine x y w c"
| "record_call fm (DrawLine x0 y0 x1 y1 c) = rec_drawLine x0 y0 x1 y1 c"
| "record_call fm (DrawRect x y w h c) = rec_drawRect x y w h c"
| "record_call fm (FillRect x y w h c) = rec_fillRect x y w h c"
| "record_call fm (FillScreen c) = rec_fillScreen c"
| "record_call fm (DrawCircle x y r c) = rec_drawCircle x y r c"
| "record_call fm (FillCircle x y r c) = rec_fillCircle x y r c"
| "record_call fm (DrawArc x y r a0 a1 c) = rec_drawArc x y r a0 a1 c"
| "record_call fm (DrawRoundRect x y w h rad c) = rec_drawRoundRect x y w h rad c"
| "record_call fm (FillRoundRect x y w h rad c) = rec_fillRoundRect x y w h rad c"
| "record_call fm (DrawTriangle x0 y0 x1 y1 x2 y2 c) = rec_drawTriangle x0 y0 x1 y1 x2 y2 c"
| "record_call fm (FillTriangle x0 y0 x1 y1 x2 y2 c) = rec_fillTriangle x0 y0 x1 y1 x2 y2 c"
| "record_call fm (SetDrawStyle st) = rec_setDrawStyle st"
| "record_call fm (SetRotation r) = rec_setRotation r"
| "record_call fm (InvertDisplay i) = rec_invertDisplay i"
| "record_call fm (SetCursor x y) = rec_setCursor x y"
| "record_call fm (SetTextColor c bg) = rec_setTextColor c bg"
| "record_call fm (SetTextSize sx sy) = rec_setTextSize sx sy"
| "record_call fm (SetTextWrap w) = rec_setTextWrap w"
| "record_call fm (SetTextRotation r) = rec_setTextRotation r"
| "record_call fm (SetFont f) = rec_setFont f"
| "record_call fm (WriteText t) = rec_writeText fm (Some t)"
| "record_call fm (DrawChar x y ch c bg sx sy) = rec_drawChar x y ch c bg sx sy"
| "record_call fm (SetText x y t c bg sx sy f rot) = rec_setText fm x y (Some t) c bg sx sy f rot"
| "record_call fm (DrawBitmap x y bits w h c bg) = rec_drawBitmap x y (Some bits) w h c bg"
| "record_call fm (DrawXBitmap x y bits w h c) = rec_drawXBitmap x y (Some bits) w h c"
| "record_call fm (DrawGrayscaleBitmap x y px w h) = rec_drawGrayscaleBitmap x y (Some px) w h"
| "record_call fm (DrawGrayscaleBitmapMask x y px mk w h) = rec_drawGrayscaleBitmapMask x y (Some px) (Some mk) w h"
| "record_call fm (DrawRGBBitmap x y px w h) = rec_drawRGBBitmap x y (Some px) w h"
| "record_call fm (DrawRGBBitmapMask x y px mk w h) = rec_drawRGBBitmapMask x y (Some px) (Some mk) w h"
| "record_call fm (DrawRGB565Bitmap x y px w h) = rec_drawRGB565Bitmap x y (Some px) w h"
| "record_call fm (DrawBitmapTriangle x0 y0 x1 y1 x2 y2 px w h) = rec_drawBitmapTriangle x0 y0 x1 y1 x2 y2 (Some px) w h"
| "record_call fm (SwapBuffers a) = rec_swapBuffers a"

definition record_calls :: "font_mem \<Rightarrow> draw_call list \<Rightarrow> recorder \<Rightarrow> recorder" where
  "record_calls fm cs r = foldl (\<lambda>r c. record_call fm c r) r cs"

end
