(* ===== verification/DrawRoundTrip.thy ===== *)
theory DrawRoundTrip
  imports DrawWire Assembler
begin

text \<open>
  What the recorder writes is what the decoder plays: the bytes each call appends, the reader on those
  bytes, and from both the round trip of a whole recording; what masking drops; what a stream cut short
  does; and the blobs as records of a byte stream.
\<close>

section \<open>The recorder appends the wire format\<close>

lemma pushU16_put [simp]: "pushU16 v x = v @ putU16LE x"
  by (simp add: pushU16_def putU16LE_def)

lemma pushU32_put [simp]: "pushU32 v x = v @ putU32LE x"
  by (simp add: pushU32_def putU32LE_def)

lemma i16s_simps [simp]: "i16s [] = []" "i16s (v # vs) = putU16LE v @ i16s vs"
  by (simp_all add: i16s_def)

lemma u32s_simps [simp]: "u32s [] = []" "u32s (v # vs) = putU32LE v @ u32s vs"
  by (simp_all add: u32s_def)

lemma length_arrays [simp]: "length (i16s vs) = 2 * length vs" "length (u32s ws) = 4 * length ws"
  by (induction vs, simp_all) (induction ws, simp_all)

lemma put_array:
  "length px = n \<Longrightarrow> foldl (\<lambda>r w. w r) r (map (\<lambda>i. putU32 (px ! i)) [0..<n]) = r\<lparr>m_stream := m_stream r @ u32s px\<rparr>"
  "length qx = n \<Longrightarrow> foldl (\<lambda>r w. w r) r (map (\<lambda>i. putU16 (qx ! i)) [0..<n]) = r\<lparr>m_stream := m_stream r @ i16s qx\<rparr>"
proof -
  have 1: "foldl (\<lambda>r w. w r) r (map putU32 vs) = r\<lparr>m_stream := m_stream r @ u32s vs\<rparr>" for r vs
    by (induction vs arbitrary: r) (simp_all add: putU32_def)
  have 2: "foldl (\<lambda>r w. w r) r (map putU16 vs) = r\<lparr>m_stream := m_stream r @ i16s vs\<rparr>" for r vs
    by (induction vs arbitrary: r) (simp_all add: putU16_def)
  have 3: "map (\<lambda>i. putU32 (px ! i)) [0..<n] = map putU32 px" if "length px = n"
    by (rule nth_equalityI) (simp_all add: that)
  have 4: "map (\<lambda>i. putU16 (qx ! i)) [0..<n] = map putU16 qx" if "length qx = n"
    by (rule nth_equalityI) (simp_all add: that)
  show "length px = n \<Longrightarrow> foldl (\<lambda>r w. w r) r (map (\<lambda>i. putU32 (px ! i)) [0..<n]) = r\<lparr>m_stream := m_stream r @ u32s px\<rparr>"
    using 1 3 by simp
  show "length qx = n \<Longrightarrow> foldl (\<lambda>r w. w r) r (map (\<lambda>i. putU16 (qx ! i)) [0..<n]) = r\<lparr>m_stream := m_stream r @ i16s qx\<rparr>"
    using 2 4 by simp
qed

lemmas put_simps = beginCmd_def putU8_def putU16_def putI16_def putU32_def putF32_def putMonoPlane_def

lemma putBytes_eq: "length b = n \<Longrightarrow> putBytes (Some b) n r = r\<lparr>m_stream := m_stream r @ b\<rparr>"
  by (auto simp: putBytes_def)

lemma putText_eq: "putText (Some t) r = r\<lparr>m_stream := m_stream r @ enc_text t\<rparr>"
proof -
  have len: "length (wire_text t) = (if length (c_str t) > 65535 then 65535 else length (c_str t))"
    by (simp add: wire_text_def)
  have tk: "take (length (wire_text t)) t = wire_text t"
  proof -
    have "c_str t = take (length (c_str t)) t" unfolding c_str_def by (rule takeWhile_eq_take)
    then have "wire_text t = take (min 65535 (length (c_str t))) t" unfolding wire_text_def by (metis take_take)
    moreover have "min 65535 (length (c_str t)) = length (wire_text t)" unfolding wire_text_def by simp
    ultimately show ?thesis by simp
  qed
  have "putText (Some t) r = putBytes (Some t) (length (wire_text t)) (putU16 (of_nat (length (wire_text t))) r)"
    unfolding putText_def len by (simp add: Let_def)
  also have "\<dots> = r\<lparr>m_stream := m_stream r @ enc_text t\<rparr>"
    using tk by (auto simp: putBytes_def putU16_def enc_text_def)
  finally show ?thesis .
qed

text \<open>What a call may change of the recorder: the stream and the counters, and the inherited state.\<close>

definition wrote :: "bytes \<Rightarrow> nat \<Rightarrow> nat \<Rightarrow> recorder \<Rightarrow> recorder \<Rightarrow> bool" where
  "wrote bs n k r r' \<longleftrightarrow>
     m_stream r' = m_stream r @ bs \<and> m_cmdCount r' = m_cmdCount r + n \<and> m_skipped r' = m_skipped r + k \<and>
     m_recordMask r' = m_recordMask r \<and> m_maxInlineBytes r' = m_maxInlineBytes r \<and> m_fontIds r' = m_fontIds r \<and>
     m_suppress r' = m_suppress r"

lemma wrote_none [simp]: "wrote [] 0 0 r r"
  by (simp add: wrote_def)

lemma wrote_recorded:
  assumes "foldl (\<lambda>r w. w r) r ws = r\<lparr>m_stream := m_stream r @ bs, m_cmdCount := m_cmdCount r + 1\<rparr>"
  shows "wrote (if m_recordMask r AND ft \<noteq> 0 \<and> (m_maxInlineBytes r = 0 \<or> n \<le> m_maxInlineBytes r) then bs else [])
     (if m_recordMask r AND ft \<noteq> 0 \<and> (m_maxInlineBytes r = 0 \<or> n \<le> m_maxInlineBytes r) then 1 else 0)
     (if m_recordMask r AND ft \<noteq> 0 \<and> (m_maxInlineBytes r = 0 \<or> n \<le> m_maxInlineBytes r) then 0 else 1)
     r (recorded ft n ws r)"
  using assms by (auto simp: recorded_def allow_def wrote_def)

lemma wrote_trans: "wrote [] 0 0 r g \<Longrightarrow> wrote [] 0 0 g g' \<Longrightarrow> wrote [] 0 0 r g'"
  by (simp add: wrote_def)

lemma wrote_text_loop: "wrote [] 0 0 r (snd (text_loop fm sx p s r))"
proof (induction s arbitrary: r)
  case (Cons c s)
  have "wrote [] 0 0 r (snd (text_char fm sx p c r))"
    by (auto simp: text_char_def wrote_def Let_def split: option.splits prod.splits)
  then have "wrote [] 0 0 r (snd (text_loop fm sx p s (snd (text_char fm sx p c r))))"
    using Cons wrote_trans by blast
  then show ?case by (simp add: case_prod_beta Let_def)
qed simp

text \<open>Setters of the inherited state leave all of that alone.\<close>

lemma wrote_setters:
  "wrote bs n k r r' \<Longrightarrow> wrote bs n k r (setCursor x y r')"
  "wrote bs n k r r' \<Longrightarrow> wrote bs n k r (setTextColor c bg r')"
  "wrote bs n k r r' \<Longrightarrow> wrote bs n k r (setTextSize sx sy r')"
  "wrote bs n k r r' \<Longrightarrow> wrote bs n k r (setTextWrap w r')"
  "wrote bs n k r r' \<Longrightarrow> wrote bs n k r (setTextRotation v r')"
  "wrote bs n k r r' \<Longrightarrow> wrote bs n k r (setFont f r')"
  "wrote bs n k r r' \<Longrightarrow> wrote bs n k r (setDrawStyle st r')"
  "wrote bs n k r r' \<Longrightarrow> wrote bs n k r (setRotation v r')"
  "wrote bs n k r r' \<Longrightarrow> wrote bs n k r (r'\<lparr>m_inverted := i\<rparr>)"
  by (simp_all add: wrote_def setCursor_def setTextColor_def setTextSize_def setTextWrap_def setTextRotation_def
      setFont_def setDrawStyle_def setRotation_def Let_def)

lemma wrote_suppressed:
  assumes "wrote bs n k r r'" "\<not> m_suppress r" "\<And>r. wrote [] 0 0 r (snd (f r))"
  shows "wrote bs n k r (suppressed f r')"
  using assms(1,2) assms(3) [of "r'\<lparr>m_suppress := True\<rparr>"] by (simp add: wrote_def suppressed_def)

lemma wrote_writeText: "wrote [] 0 0 r (snd (writeText fm s r))"
  by (simp add: writeText_def wrote_text_loop)

lemma wrote_setText: "wrote [] 0 0 r (snd (setText fm x y s c bg sx sy f v r))"
proof -
  define g where "g = setTextRotation v (setFont f (setTextSize sx sy (setTextColor c bg (setCursor x y r))))"
  have "wrote [] 0 0 r g" unfolding g_def by (intro wrote_setters wrote_none)
  moreover have "wrote [] 0 0 g (snd (if v = 0 then writeText fm s g else writeTextRotated fm s x y g))"
    by (simp add: writeText_def writeTextRotated_def wrote_text_loop)
  ultimately have "wrote [] 0 0 r (snd (if v = 0 then writeText fm s g else writeTextRotated fm s x y g))"
    by (rule wrote_trans)
  then show ?thesis by (simp only: setText_def g_def Let_def)
qed

definition emitted :: "recorder \<Rightarrow> draw_call \<Rightarrow> bool" where
  "emitted r c \<longleftrightarrow> draws c \<and> admitted r c"

lemma fontId_same: "m_fontIds r' = m_fontIds r \<Longrightarrow> fontId f r' = fontId f r"
  by (simp add: fontId_def split: option.splits)

text \<open>The one fact about recording the rest is built on.\<close>

lemmas rec_defs = rec_drawPixel_def rec_drawFastVLine_def rec_drawFastHLine_def rec_fillScreen_def rec_drawLine_def
  rec_drawRect_def rec_fillRect_def rec_drawCircle_def rec_fillCircle_def rec_drawArc_def rec_drawRoundRect_def
  rec_fillRoundRect_def rec_drawTriangle_def rec_fillTriangle_def rec_drawBitmap_def rec_drawXBitmap_def
  rec_drawGrayscaleBitmap_def rec_drawGrayscaleBitmapMask_def rec_drawRGBBitmap_def rec_drawRGBBitmapMask_def
  rec_drawRGB565Bitmap_def rec_drawBitmapTriangle_def rec_drawChar_def rec_swapBuffers_def

lemmas rec_setter_defs = rec_setCursor_def rec_setTextColor_def rec_setTextSize_def rec_setTextWrap_def
  rec_setTextRotation_def rec_setFont_def rec_setDrawStyle_def rec_setRotation_def rec_invertDisplay_def

lemma wrote_call:
  assumes "ft = call_feature c" "n = call_inline c" "foldl (\<lambda>r w. w r) r ws =
      r\<lparr>m_stream := m_stream r @ enc_call (\<lambda>f. fontId f r) c, m_cmdCount := m_cmdCount r + 1\<rparr>"
  shows "wrote (if admitted r c then enc_call (\<lambda>f. fontId f r) c else []) (if admitted r c then 1 else 0)
    (if admitted r c then 0 else 1) r (recorded ft n ws r)"
  using wrote_recorded [OF assms(3), of ft n] assms(1,2) by (simp add: admitted_def DRRecords_def)

lemma extent_pos: "extent w h \<Longrightarrow> sint w \<le> 0 \<longleftrightarrow> False" "extent w h \<Longrightarrow> sint h \<le> 0 \<longleftrightarrow> False"
  by (simp_all add: extent_def)

lemma record_call_draws:
  assumes "\<not> m_suppress r" "array_ok c" "draws c"
  shows "wrote (if admitted r c then enc_call (\<lambda>f. fontId f r) c else []) (if admitted r c then 1 else 0)
     (if admitted r c then 0 else 1) r (record_call fm c r)"
proof -
  note fold = put_simps enc_call_def put_array putText_eq putBytes_eq b8_def
  show ?thesis
  proof (cases c)
    case (WriteText t)
    have "wrote (if admitted r c then enc_call (\<lambda>f. fontId f r) c else []) (if admitted r c then 1 else 0)
      (if admitted r c then 0 else 1) r (recorded DR_REC_TEXT 0 [beginCmd OpWriteText, putText (Some t)] r)"
      by (rule wrote_call) (simp_all add: WriteText fold)
    then show ?thesis using assms(1,3) WriteText
      by (simp add: rec_writeText_def wrote_suppressed wrote_writeText)
  next
    case (SetText x y t cl bg sx sy f v)
    have "wrote (if admitted r c then enc_call (\<lambda>f. fontId f r) c else []) (if admitted r c then 1 else 0)
      (if admitted r c then 0 else 1) r (recorded DR_REC_TEXT 0
               [beginCmd OpSetText, putI16 x, putI16 y, putU32 cl, putU32 bg, putU8 sx, putU8 sy,
                putU8 (fontId f r), putU8 v, putText (Some t)] r)"
      by (rule wrote_call) (simp_all add: SetText fold)
    then show ?thesis
      using assms(1) unfolding SetText record_call.simps rec_setText_def option.case
      by (intro wrote_suppressed wrote_setText)
  qed (insert assms, hypsubst, simp only: record_call.simps rec_setter_defs rec_defs option.case array_ok.simps
        draws.simps extent_pos simp_thms if_False option.distinct if_cancel,
      (rule wrote_setters)?, rule wrote_call, (simp add: fold; fail)+)+
qed

definition encode_calls :: "recorder \<Rightarrow> draw_call list \<Rightarrow> bytes" where
  "encode_calls r cs = concat (map (enc_call (\<lambda>f. fontId f r)) cs)"

lemma record_call_wrote:
  assumes "\<not> m_suppress r" "array_ok c"
  shows "wrote (if emitted r c then enc_call (\<lambda>f. fontId f r) c else []) (if emitted r c then 1 else 0)
     (if draws c \<and> \<not> admitted r c then 1 else 0) r (record_call fm c r)"
proof (cases "draws c")
  case False
  then have "record_call fm c r = r"
    by (cases c; simp add: rec_defs rec_writeText_def extent_def; linarith)
  with False show ?thesis by (simp add: emitted_def)
next
  case True
  then show ?thesis using record_call_draws [OF assms True, of fm] by (cases "admitted r c") (simp_all add: emitted_def)
qed

lemma wrote_same:
  assumes "wrote bs n k r r'"
  shows "emitted r' = emitted r" "admitted r' = admitted r" "(\<lambda>f. fontId f r') = (\<lambda>f. fontId f r)"
    "m_suppress r' = m_suppress r" "encode_calls r' = encode_calls r"
proof -
  show fid: "(\<lambda>f. fontId f r') = (\<lambda>f. fontId f r)" using assms by (intro ext fontId_same) (simp add: wrote_def)
  show "encode_calls r' = encode_calls r" by (rule ext) (simp add: encode_calls_def fid)
  show "emitted r' = emitted r" "admitted r' = admitted r" "m_suppress r' = m_suppress r"
    using assms by (simp_all add: wrote_def emitted_def admitted_def DRRecords_def fun_eq_iff)
qed

lemma record_calls_wrote:
  assumes "\<not> m_suppress r" "list_all array_ok cs"
  shows "wrote (encode_calls r (filter (emitted r) cs)) (length (filter (emitted r) cs))
     (length (filter (\<lambda>c. draws c \<and> \<not> admitted r c) cs)) r (record_calls fm cs r)"
  using assms
proof (induction cs arbitrary: r)
  case (Cons c cs)
  note w = record_call_wrote [of r c fm]
  have w: "wrote (if emitted r c then enc_call (\<lambda>f. fontId f r) c else []) (if emitted r c then 1 else 0)
     (if draws c \<and> \<not> admitted r c then 1 else 0) r (record_call fm c r)"
    using record_call_wrote Cons.prems by simp
  have "\<not> m_suppress (record_call fm c r)" using wrote_same(4) [OF w] Cons.prems(1) by simp
  then have "wrote (encode_calls r (filter (emitted r) cs)) (length (filter (emitted r) cs))
     (length (filter (\<lambda>c. draws c \<and> \<not> admitted r c) cs)) (record_call fm c r) (record_calls fm cs (record_call fm c r))"
    using Cons.IH [of "record_call fm c r"] Cons.prems(2) by (simp add: wrote_same [OF w])
  with w show ?case
    by (cases "emitted r c"; cases "draws c \<and> \<not> admitted r c") (simp_all add: wrote_def record_calls_def encode_calls_def)
qed (simp add: record_calls_def encode_calls_def)

section \<open>The reader on the wire format\<close>

text \<open>The reader with \<open>pre\<close> behind it and \<open>rest\<close> ahead.\<close>

definition rd_at :: "bytes \<Rightarrow> bytes \<Rightarrow> dr_reader" where
  "rd_at pre rest = \<lparr>rd_p = pre @ rest, rd_i = length pre, rd_ok = True\<rparr>"

lemma rd_new_at: "rd_new data = rd_at [] data"
  by (simp add: rd_new_def rd_at_def)

lemma rd_at_ok [simp]: "rd_ok (rd_at pre rest)" "rd_remaining (rd_at pre rest) = length rest"
  by (simp_all add: rd_at_def rd_remaining_def)

lemma rd_at_prims [simp]:
  "run_state rd_u8 (rd_at pre (b # rest)) = (b, rd_at (pre @ [b]) rest)"
  "run_state rd_u16 (rd_at pre (putU16LE v @ rest)) = (v, rd_at (pre @ putU16LE v) rest)"
  "run_state rd_i16 (rd_at pre (putU16LE v @ rest)) = (v, rd_at (pre @ putU16LE v) rest)"
  "run_state rd_u32 (rd_at pre (putU32LE w @ rest)) = (w, rd_at (pre @ putU32LE w) rest)"
  "run_state rd_f32 (rd_at pre (putU32LE w @ rest)) = (w, rd_at (pre @ putU32LE w) rest)"
  "run_state rd_okay (rd_at pre rest) = (True, rd_at pre rest)"
  "run_state (extentOk x y n) (rd_at pre rest) = (extent x y \<and> n \<le> length rest, rd_at pre rest)"
  by (simp_all add: rd_u8_def rd_u16_def rd_i16_def rd_u32_def rd_f32_def rd_okay_def extentOk_def extent_def
      rd_need_def Let_def rd_at_def rd_remaining_def not_le [symmetric])

lemma rd_at_bytes [simp]:
  "length bs = n \<Longrightarrow> run_state (rd_bytes n) (rd_at pre (bs @ rest)) = (bs, rd_at (pre @ bs) rest)"
  by (auto simp: rd_bytes_def rd_need_def rd_at_def)

lemma rd_at_u32s:
  assumes "length px = n"
  shows "run_state (rd_u32s n) (rd_at pre (u32s px @ rest)) = (px, rd_at (pre @ u32s px) rest)"
proof -
  have "run_state (State_Monad.traverse_list (\<lambda>_. rd_u32) ks) (rd_at pre (u32s px @ rest)) = (px, rd_at (pre @ u32s px) rest)"
    if "length ks = length px" for ks :: "nat list"
    using that by (induction ks px arbitrary: pre rule: list_induct2) simp_all
  from this [of "[0..<n]"] assms show ?thesis by (simp add: rd_u32s_def)
qed

lemma rd_at_u16s:
  assumes "length px = n"
  shows "run_state (rd_u16s n) (rd_at pre (i16s px @ rest)) = (px, rd_at (pre @ i16s px) rest)"
proof -
  have "run_state (State_Monad.traverse_list (\<lambda>_. rd_u16) ks) (rd_at pre (i16s px @ rest)) = (px, rd_at (pre @ i16s px) rest)"
    if "length ks = length px" for ks :: "nat list"
    using that by (induction ks px arbitrary: pre rule: list_induct2) simp_all
  from this [of "[0..<n]"] assms show ?thesis by (simp add: rd_u16s_def)
qed

lemma rd_at_issue [simp]: "run_state (issue c) (rd_at pre rest) = (Inr (Some c), rd_at pre rest)"
  by (simp add: issue_def)

lemma rd_at_payload:
  assumes "extent w h" "n \<le> length rest" "run_state m (rd_at pre rest) = (c, rd_at pre' rest')"
  shows "run_state (payload_of w h n m) (rd_at pre rest) = (Inr (Some c), rd_at pre' rest')"
  using assms by (simp add: payload_of_def)

section \<open>Playing what was recorded\<close>

text \<open>The call the target sees: fonts are looked up by id, text is cut to what the wire carries.\<close>

fun played :: "font_table option \<Rightarrow> (font_ptr option \<Rightarrow> u8) \<Rightarrow> draw_call \<Rightarrow> draw_call" where
  "played fonts fid (SetFont f) = SetFont (get_font fonts (fid f))"
| "played fonts fid (WriteText t) = WriteText (wire_text t @ [0])"
| "played fonts fid (SetText x y t c bg sx sy f v) =
     SetText x y (wire_text t @ [0]) c bg sx sy (get_font fonts (fid f)) v"
| "played fonts fid c = c"

lemma wire_text_length: "unat (of_nat (length (wire_text t)) :: u16) = length (wire_text t)"
  by (rule unat_of_nat_lt) (simp add: wire_text_def)

lemma b8_nonzero [simp]: "b8 b \<noteq> 0 \<longleftrightarrow> b"
  by (simp add: b8_def)

lemma render_call:
  assumes "array_ok c" "draws c"
  shows "run_state (render_op fonts (call_op c)) (rd_at pre (enc_args fid c @ rest)) =
    (Inr (Some (played fonts fid c)), rd_at (pre @ enc_args fid c) rest)"
  using assms
proof (cases c)
  case (SetDrawStyle st)
  then show ?thesis by (cases st) simp
qed (simp_all add: render_defs enc_text_def wire_text_length rd_at_payload rd_at_u32s rd_at_u16s)

lemma render_step:
  assumes "array_ok c" "draws c"
  shows "render_loop fonts (rd_at pre (enc_call fid c @ rest)) =
    (let (calls, e) = render_loop fonts (rd_at (pre @ enc_call fid c) rest) in (played fonts fid c # calls, e))"
proof -
  have "call_op c \<noteq> OpEnd" by (cases c) simp_all
  then show ?thesis
    using render_call [OF assms, of fonts "pre @ [op_code (call_op c)]" fid rest]
    by (subst render_loop.simps) (simp add: enc_call_def)
qed

lemma render_end: "render_loop fonts (rd_at pre (op_code OpEnd # rest)) = ([], DR_Ok)"
  by (subst render_loop.simps) (simp del: op_code.simps)

lemma render_calls:
  "list_all array_ok cs \<Longrightarrow> list_all draws cs \<Longrightarrow>
     render_loop fonts (rd_at pre (concat (map (enc_call fid) cs) @ rest)) =
     (let (calls, e) = render_loop fonts (rd_at (pre @ concat (map (enc_call fid) cs)) rest)
      in (map (played fonts fid) cs @ calls, e))"
proof (induction cs arbitrary: pre)
  case (Cons c cs)
  then show ?case by (simp add: render_step case_prod_beta Let_def)
qed simp

section \<open>The header\<close>

definition dr_header_bytes :: "u16 \<Rightarrow> u16 \<Rightarrow> u16 \<Rightarrow> u32 \<Rightarrow> u32 \<Rightarrow> bytes" where
  "dr_header_bytes version w h cmds body =
     [0x44, 0x52, 0x50, 0x31] @ putU16LE version @ putU16LE 0 @ putU16LE w @ putU16LE h @ putU32LE cmds @ putU32LE body"

lemma length_dr_header [simp]: "length (dr_header_bytes v w h cmds body) = 20"
  by (simp add: dr_header_bytes_def)

lemma export_bytes:
  "snd (DRExport r out) = out @ dr_header_bytes 1 (m_width r) (m_height r) (of_nat (m_cmdCount r))
     (of_nat (length (m_stream r) + 1)) @ m_stream r @ [op_code OpEnd]"
  "fst (DRExport r out) = exportSize r"
  by (simp_all add: DRExport_def dr_header_bytes_def exportSize_def Let_def)

lemma DRPeek_header:
  assumes "version \<le> 1"
  shows "DRPeek (Some (dr_header_bytes version w h cmds body @ rest)) =
    (if unat body > length rest then DR_Truncated else DR_Ok,
     Some \<lparr>dh_width = w, dh_height = h, dh_cmdCount = cmds, dh_bodyBytes = body\<rparr>)"
proof -
  let ?f = "putU16LE version @ putU16LE 0 @ putU16LE w @ putU16LE h @ putU32LE cmds @ putU32LE body"
  have "take 16 (drop 4 (dr_header_bytes version w h cmds body @ rest)) = ?f @ []"
    by (simp add: dr_header_bytes_def)
  moreover have "\<not> version > 1" using assms by simp
  ultimately show ?thesis
    by (simp add: DRPeek_def rd_new_at dr_header_bytes_def nth_append del: append_Nil2)
qed

lemma DRRender_header:
  assumes "version \<le> 1" "unat body \<le> length rest"
  shows "DRRender (Some (dr_header_bytes version w h cmds body @ rest)) fonts = render_loop fonts (rd_at [] (take (unat body) rest))"
  using DRPeek_header [OF assms(1), of w h cmds body rest] assms(2) by (simp add: DRRender_def rd_new_at)

section \<open>A stream cut short\<close>

definition cut_reader :: "nat \<Rightarrow> dr_reader \<Rightarrow> dr_reader" where
  "cut_reader k s = s\<lparr>rd_p := take k (rd_p s)\<rparr>"

definition within :: "nat \<Rightarrow> dr_reader \<Rightarrow> bool" where
  "within k s \<longleftrightarrow> rd_ok s \<and> rd_i s \<le> k \<and> k \<le> length (rd_p s)"

text \<open>Reading a buffer cut at \<open>k\<close>: the same as on the whole one, or the cut was hit.\<close>

definition cut_same :: "(dr_reader, 'a) state \<Rightarrow> bool" where
  "cut_same m \<longleftrightarrow> (\<forall>s k. within k s \<longrightarrow>
     (within k (snd (run_state m s)) \<and> run_state m (cut_reader k s) = (fst (run_state m s), cut_reader k (snd (run_state m s)))) \<or>
     \<not> rd_ok (snd (run_state m (cut_reader k s))))"

type_synonym dr_step = "dr_error + draw_call option"

definition stopped :: "dr_step \<times> dr_reader \<Rightarrow> bool" where
  "stopped r \<longleftrightarrow> fst r = Inl DR_BadPayload \<or> fst r = Inr None \<and> \<not> rd_ok (snd r)"

definition step_same :: "(dr_reader, dr_step) state \<Rightarrow> bool" where
  "step_same m \<longleftrightarrow> (\<forall>s k. within k s \<longrightarrow>
     (within k (snd (run_state m s)) \<and> run_state m (cut_reader k s) = (fst (run_state m s), cut_reader k (snd (run_state m s)))) \<or>
     stopped (run_state m (cut_reader k s))) \<and> (\<forall>s. \<not> rd_ok s \<longrightarrow> stopped (run_state m s))"

lemma cut_need:
  fixes g :: "bytes \<Rightarrow> nat \<Rightarrow> 'a"
  assumes "\<And>p i k. i + n \<le> k \<Longrightarrow> k \<le> length p \<Longrightarrow> g (take k p) i = g p i"
  shows "cut_same (State (\<lambda>rd. let (ok, rd) = rd_need n rd in
    if \<not> ok then (z, rd) else (g (rd_p rd) (rd_i rd), rd\<lparr>rd_i := rd_i rd + n\<rparr>)))"
  unfolding cut_same_def
proof (intro allI impI)
  fix s :: dr_reader and k assume w: "within k s"
  let ?m = "State (\<lambda>rd. let (ok, rd) = rd_need n rd in
    if \<not> ok then (z, rd) else (g (rd_p rd) (rd_i rd), rd\<lparr>rd_i := rd_i rd + n\<rparr>))"
  show "(within k (snd (run_state ?m s)) \<and>
      run_state ?m (cut_reader k s) = (fst (run_state ?m s), cut_reader k (snd (run_state ?m s)))) \<or>
      \<not> rd_ok (snd (run_state ?m (cut_reader k s)))"
  proof (cases "n \<le> k - rd_i s")
    case True
    then have "rd_i s + n \<le> k" "n \<le> length (rd_p s) - rd_i s" using w by (auto simp: within_def)
    then show ?thesis using w assms [of "rd_i s" k "rd_p s"] by (auto simp: within_def cut_reader_def rd_need_def)
  next
    case False
    then show ?thesis using w by (auto simp: within_def cut_reader_def rd_need_def)
  qed
qed

lemma cut_prims:
  "cut_same rd_u8" "cut_same rd_u16" "cut_same rd_i16" "cut_same rd_u32" "cut_same rd_f32" "cut_same (rd_bytes n)"
proof -
  have d: "drop i (take k p) = take (k - i) (drop i p)" for i k and p :: bytes by (simp add: drop_take)
  show "cut_same rd_u8" unfolding rd_u8_def by (rule cut_need) simp
  show "cut_same rd_u16" "cut_same rd_i16"
    unfolding rd_i16_def rd_u16_def d getU16LE_def by (rule cut_need; simp)+
  show "cut_same rd_u32" "cut_same rd_f32"
    unfolding rd_f32_def rd_u32_def d getU32LE_def by (rule cut_need; simp)+
  show "cut_same (rd_bytes n)"
    unfolding rd_bytes_def by (rule cut_need) (simp add: d min_def)
qed

lemma cut_return: "cut_same (State_Monad.return x)"
  by (simp add: cut_same_def)

lemma not_ok_stays: "state_io_rel rd_le m \<Longrightarrow> \<not> rd_ok s \<Longrightarrow> \<not> rd_ok (snd (run_state m s))"
  by (auto simp: state_io_rel_def rd_le_def)

lemma cut_bind:
  assumes "cut_same m" "\<And>x. cut_same (f x)" "\<And>x. state_io_rel rd_le (f x)"
  shows "cut_same (State_Monad.bind m f)"
  unfolding cut_same_def
proof (intro allI impI)
  fix s :: dr_reader and k assume w: "within k s"
  obtain x t where t: "run_state m s = (x, t)" by force
  obtain x' t' where t': "run_state m (cut_reader k s) = (x', t')" by force
  consider "within k t" "x' = x" "t' = cut_reader k t" | "\<not> rd_ok t'"
    using assms(1) w t t' unfolding cut_same_def by fastforce
  then show "within k (snd (run_state (State_Monad.bind m f) s)) \<and>
      run_state (State_Monad.bind m f) (cut_reader k s) =
        (fst (run_state (State_Monad.bind m f) s), cut_reader k (snd (run_state (State_Monad.bind m f) s))) \<or>
      \<not> rd_ok (snd (run_state (State_Monad.bind m f) (cut_reader k s)))"
  proof cases
    case 1
    then show ?thesis using assms(2) [of x] t t' unfolding cut_same_def by simp
  next
    case 2
    then show ?thesis using not_ok_stays [OF assms(3) 2] t' by simp
  qed
qed

lemma step_bind:
  assumes "cut_same m" "\<And>x. step_same (f x)" "state_io_rel rd_le m"
  shows "step_same (State_Monad.bind m f)"
  unfolding step_same_def
proof (intro conjI allI impI)
  fix s :: dr_reader assume "\<not> rd_ok s"
  then have "\<not> rd_ok (snd (run_state m s))" by (rule not_ok_stays [OF assms(3)])
  then show "stopped (run_state (State_Monad.bind m f) s)"
    using assms(2) unfolding step_same_def by (simp add: case_prod_beta)
next
  fix s :: dr_reader and k assume w: "within k s"
  obtain x t where t: "run_state m s = (x, t)" by force
  obtain x' t' where t': "run_state m (cut_reader k s) = (x', t')" by force
  consider "within k t" "x' = x" "t' = cut_reader k t" | "\<not> rd_ok t'"
    using assms(1) w t t' unfolding cut_same_def by fastforce
  then show "within k (snd (run_state (State_Monad.bind m f) s)) \<and>
      run_state (State_Monad.bind m f) (cut_reader k s) =
        (fst (run_state (State_Monad.bind m f) s), cut_reader k (snd (run_state (State_Monad.bind m f) s))) \<or>
      stopped (run_state (State_Monad.bind m f) (cut_reader k s))"
  proof cases
    case 1
    then show ?thesis using assms(2) [of x] t t' unfolding step_same_def by simp
  next
    case 2
    then show ?thesis using assms(2) [of x'] t' unfolding step_same_def by simp
  qed
qed

lemma step_issue: "step_same (issue c)"
  by (auto simp: step_same_def issue_def rd_okay_def cut_reader_def within_def stopped_def)

lemma cut_traverse: "cut_same m \<Longrightarrow> state_io_rel rd_le m \<Longrightarrow> cut_same (State_Monad.traverse_list (\<lambda>_. m) ks)"
  by (induction ks) (auto intro!: cut_return cut_bind rd_le_bind rd_le_return rd_le_traverse)

lemma cut_arrays: "cut_same (rd_u32s n)" "cut_same (rd_u16s n)"
  by (simp_all add: rd_u32s_def rd_u16s_def cut_traverse cut_prims rd_le_prims)

lemma step_payload:
  assumes "cut_same m" "state_io_rel rd_le m"
  shows "step_same (payload_of w h n m)"
proof -
  have i: "step_same (do { c \<leftarrow> m; issue c })" using assms by (intro step_bind step_issue)
  show ?thesis
    unfolding step_same_def
  proof (intro conjI allI impI)
    fix s :: dr_reader assume "\<not> rd_ok s"
    then show "stopped (run_state (payload_of w h n m) s)" by (simp add: payload_of_def rd_okay_def stopped_def)
  next
    fix s :: dr_reader and k assume wi: "within k s"
    then have ok: "rd_ok s" "rd_ok (cut_reader k s)" by (simp_all add: within_def cut_reader_def)
    have rem: "rd_remaining (cut_reader k s) \<le> rd_remaining s"
      using wi by (auto simp: rd_remaining_def within_def cut_reader_def intro: diff_le_mono)
    show "within k (snd (run_state (payload_of w h n m) s)) \<and>
      run_state (payload_of w h n m) (cut_reader k s) =
        (fst (run_state (payload_of w h n m) s), cut_reader k (snd (run_state (payload_of w h n m) s))) \<or>
      stopped (run_state (payload_of w h n m) (cut_reader k s))"
    proof (cases "extent w h \<and> n \<le> rd_remaining (cut_reader k s)")
      case True
      then have "run_state (payload_of w h n m) s' = run_state (do { c \<leftarrow> m; issue c }) s'"
        if "s' = s \<or> s' = cut_reader k s" for s'
        using ok that rem by (auto simp: payload_of_def rd_okay_def extentOk_def extent_def)
      then show ?thesis using i wi unfolding step_same_def by simp
    next
      case False
      then have "fst (run_state (payload_of w h n m) (cut_reader k s)) = Inl DR_BadPayload"
        using ok by (auto simp: payload_of_def rd_okay_def extentOk_def extent_def)
      then show ?thesis by (simp add: stopped_def)
    qed
  qed
qed

lemma step_render_op: "op \<noteq> OpEnd \<Longrightarrow> step_same (render_op fonts op)"
  by (cases op; simp only: render_op.simps render_defs;
      (intro step_bind step_issue step_payload cut_prims cut_arrays cut_bind cut_return rd_le_intros)?; simp)

lemma render_cut:
  "within k rd \<Longrightarrow>
     fst (render_loop fonts (cut_reader k rd)) = fst (render_loop fonts rd) \<and>
       snd (render_loop fonts (cut_reader k rd)) = snd (render_loop fonts rd) \<or>
     prefix (fst (render_loop fonts (cut_reader k rd))) (fst (render_loop fonts rd)) \<and>
       snd (render_loop fonts (cut_reader k rd)) \<in> {DR_Truncated, DR_BadPayload}"
proof (induction fonts rd rule: render_loop.induct)
  case (1 fonts rd)
  obtain b rd1 where b: "run_state rd_u8 rd = (b, rd1)" by force
  obtain b' rd1' where b': "run_state rd_u8 (cut_reader k rd) = (b', rd1')" by force
  consider (cut) "\<not> rd_ok rd1'" | (same) "within k rd1" "b' = b" "rd1' = cut_reader k rd1"
    using cut_prims(1) 1(2) b b' unfolding cut_same_def by fastforce
  then show ?case
  proof cases
    case cut
    then have "render_loop fonts (cut_reader k rd) = ([], DR_Truncated)"
      using b' by (subst render_loop.simps) simp
    then show ?thesis by simp
  next
    case same
    note ok = same(1) [unfolded within_def]
    have ok': "rd_ok rd1'" using ok same(3) by (simp add: cut_reader_def)
    show ?thesis
    proof (cases "\<exists>op. op_of b = Some op \<and> op \<noteq> OpEnd")
      case False
      then have "fst (render_loop fonts (cut_reader k rd)) = fst (render_loop fonts rd) \<and>
          snd (render_loop fonts (cut_reader k rd)) = snd (render_loop fonts rd)"
        using b b' same(2) ok ok' by (subst (1 2 3 4) render_loop.simps) (auto split: option.splits)
      then show ?thesis by simp
    next
      case True
      then obtain op where op: "op_of b = Some op" "op \<noteq> OpEnd" by blast
      obtain res rd2 where r: "run_state (render_op fonts op) rd1 = (res, rd2)" by force
      obtain res' rd2' where r': "run_state (render_op fonts op) (cut_reader k rd1) = (res', rd2')" by force
      consider (hit) "stopped (res', rd2')" | (through) "within k rd2" "res' = res" "rd2' = cut_reader k rd2"
        using step_render_op [OF op(2), of fonts] same(1) r r' unfolding step_same_def by fastforce
      then show ?thesis
      proof cases
        case hit
        have "fst (render_loop fonts (cut_reader k rd)) = [] \<and>
            snd (render_loop fonts (cut_reader k rd)) \<in> {DR_Truncated, DR_BadPayload}"
          using hit b' same(2,3) ok' op r' unfolding stopped_def by (subst (1 2) render_loop.simps) auto
        then show ?thesis by simp
      next
        case through
        show ?thesis
        proof (cases res)
          case (Inl e)
          have "render_loop fonts rd = ([], e)" using b ok op r Inl by (subst render_loop.simps) simp
          moreover have "render_loop fonts (cut_reader k rd) = ([], e)"
            using b' same(2,3) ok' op r' through Inl by (subst render_loop.simps) simp
          ultimately show ?thesis by simp
        next
          case (Inr c)
          define call where "call = (case c of Some c \<Rightarrow> [c] | None \<Rightarrow> [])"
          have "render_loop fonts rd = (call @ fst (render_loop fonts rd2), snd (render_loop fonts rd2))"
            using b ok op r Inr through(1) unfolding call_def
            by (subst render_loop.simps) (simp add: within_def case_prod_beta)
          moreover have "render_loop fonts (cut_reader k rd) =
              (call @ fst (render_loop fonts (cut_reader k rd2)), snd (render_loop fonts (cut_reader k rd2)))"
            using b' same(2,3) ok' op r' through Inr unfolding call_def
            by (subst render_loop.simps) (simp add: within_def case_prod_beta cut_reader_def)
          moreover have "rd_ok rd2" using through(1) by (simp add: within_def)
          ultimately show ?thesis
            using 1(1) [OF b [symmetric] refl _ op r [symmetric] refl Inr call_def _ through(1)] ok by auto
        qed
      qed
    qed
  qed
qed

section \<open>Blobs as records of a stream\<close>

definition draw_blob :: "bytes \<Rightarrow> bool" where
  "draw_blob b \<longleftrightarrow> (\<exists>version w h cmds body rest. b = dr_header_bytes version w h cmds body @ rest \<and>
     version \<le> 1 \<and> unat body = length rest \<and> length b \<le> MAX_FRAME_SIZE)"

abbreviation draw_sizer :: sizer where "draw_sizer b \<equiv> DRRecordSize (Some b)"

lemma magic_list: "list_all (\<lambda>i. d ! i = DRSyncMagic ! i) [0..<n] \<longleftrightarrow> take n d = take n DRSyncMagic"
  if "n \<le> 4" "n \<le> length d" for d
proof
  assume "list_all (\<lambda>i. d ! i = DRSyncMagic ! i) [0..<n]"
  then show "take n d = take n DRSyncMagic"
    using that by (intro nth_equalityI) (auto simp: list_all_iff DRSyncMagic_def)
next
  assume t: "take n d = take n DRSyncMagic"
  then have "d ! i = DRSyncMagic ! i" if "i < n" for i using that by (metis nth_take)
  then show "list_all (\<lambda>i. d ! i = DRSyncMagic ! i) [0..<n]" by (simp add: list_all_iff)
qed

lemma record_size_header:
  assumes "version \<le> 1"
  shows "draw_sizer (dr_header_bytes version w h cmds body @ rest) = 20 + unat body"
proof -
  have "drop 16 (dr_header_bytes version w h cmds body @ rest) = putU32LE body @ rest"
    by (simp add: dr_header_bytes_def)
  moreover have "list_all (\<lambda>i. (dr_header_bytes version w h cmds body @ rest) ! i = DRSyncMagic ! i) [0..<4]"
    by (subst magic_list) (simp_all add: dr_header_bytes_def DRSyncMagic_def)
  ultimately show ?thesis
    using DRPeek_header [OF assms, of w h cmds body rest] by (simp add: DRRecordSize_def)
qed

lemma record_size_part:
  assumes "k < 20"
  shows "draw_sizer (take k (dr_header_bytes version w h cmds body @ rest)) = 0"
proof -
  let ?q = "take k (dr_header_bytes version w h cmds body @ rest)"
  have len: "length ?q = k" using assms by simp
  have "take (min 4 k) ?q = take (min 4 k) DRSyncMagic"
    by (simp add: dr_header_bytes_def DRSyncMagic_def min_def take_Cons split: nat.splits)
  then have "list_all (\<lambda>i. ?q ! i = DRSyncMagic ! i) [0..<min 4 k]"
    by (subst magic_list) (simp_all add: len)
  then show ?thesis
    using assms unfolding DRRecordSize_def option.case len Let_def by (auto simp: min_def split: if_splits)
qed

interpretation draw_format: record_format draw_sizer DRSyncMagic draw_blob MAX_FRAME_SIZE
proof unfold_locales
  fix r x q
  show "length DRSyncMagic \<le> 8" "MAX_FRAME_SIZE < BAD_RECORD" by (simp_all add: DRSyncMagic_def)
  show "prefix DRSyncMagic r" if "draw_blob r"
    using that by (auto simp: draw_blob_def dr_header_bytes_def DRSyncMagic_def)
  show "0 < length r \<and> length r \<le> MAX_FRAME_SIZE" if "draw_blob r"
    using that by (auto simp: draw_blob_def simp del: length_dr_header) (simp add: dr_header_bytes_def)
  show "draw_sizer (r @ x) = length r" if "draw_blob r"
    using that by (auto simp: draw_blob_def record_size_header)
  show "draw_sizer q = NEED_MORE \<or> draw_sizer q = length r" if "draw_blob r" "strict_prefix q r" "q \<noteq> []"
  proof -
    obtain version w h cmds body rest where r: "r = dr_header_bytes version w h cmds body @ rest" "version \<le> 1"
        "unat body = length rest"
      using \<open>draw_blob r\<close> by (auto simp: draw_blob_def)
    obtain k where q: "q = take k r" "k < length r"
      using \<open>strict_prefix q r\<close> by (metis append_eq_conv_conj prefixE prefix_length_less strict_prefixE)
    show ?thesis
    proof (cases "k < 20")
      case True
      then show ?thesis using q r record_size_part by simp
    next
      case False
      then have "q = dr_header_bytes version w h cmds body @ take (k - 20) rest" using q r by simp
      then show ?thesis using r record_size_header by simp
    qed
  qed
qed

lemma export_draw_blob:
  assumes "exportSize r \<le> MAX_FRAME_SIZE"
  shows "draw_blob (snd (DRExport r []))"
proof -
  have l: "length (m_stream r) + 1 < 2 ^ LENGTH(32)" using assms by (simp add: exportSize_def)
  have "unat (of_nat (length (m_stream r) + 1) :: u32) = length (m_stream r @ [op_code OpEnd])"
    using unat_of_nat_lt [OF l] by simp
  moreover have "length (snd (DRExport r [])) \<le> MAX_FRAME_SIZE"
    using assms unfolding export_bytes(1) exportSize_def by (simp del: op_code.simps)
  moreover have "(1 :: u16) \<le> 1" by simp
  ultimately show ?thesis
    unfolding draw_blob_def export_bytes(1) append_Nil by blast
qed

section \<open>Properties\<close>

lemma flush_same:
  "emitted (DRFlush r) = emitted r" "admitted (DRFlush r) = admitted r" "fontId f (DRFlush r) = fontId f r"
  "m_suppress (DRFlush r) = m_suppress r" "encode_calls (DRFlush r) = encode_calls r"
  "m_stream (DRFlush r) = []" "m_cmdCount (DRFlush r) = 0" "m_skipped (DRFlush r) = 0"
proof -
  have f: "(\<lambda>f. fontId f (DRFlush r)) = (\<lambda>f. fontId f r)" by (intro ext fontId_same) (simp add: DRFlush_def)
  then show "fontId f (DRFlush r) = fontId f r" by (rule fun_cong)
  show "encode_calls (DRFlush r) = encode_calls r" by (rule ext) (simp add: encode_calls_def f)
qed (simp_all add: DRFlush_def emitted_def admitted_def DRRecords_def fun_eq_iff)

lemma emitted_draws: "list_all draws (filter (emitted r) cs)" "list_all array_ok cs \<Longrightarrow> list_all array_ok (filter (emitted r) cs)"
  by (auto simp: list_all_iff emitted_def)

lemma frame_recorded:
  assumes "\<not> m_suppress r" "list_all array_ok cs"
  shows "m_stream (record_calls fm cs (DRFlush r)) = encode_calls r (filter (emitted r) cs)"
    "m_cmdCount (record_calls fm cs (DRFlush r)) = length (filter (emitted r) cs)"
    "m_skipped (record_calls fm cs (DRFlush r)) = length (filter (\<lambda>c. draws c \<and> \<not> admitted r c) cs)"
  using record_calls_wrote [of "DRFlush r" cs fm] assms by (simp_all add: wrote_def flush_same)

lemma export_renders:
  assumes "\<not> m_suppress r" "list_all array_ok cs" "exportSize (record_calls fm cs (DRFlush r)) < 4294967296"
  shows "DRRender (Some (snd (DRExport (record_calls fm cs (DRFlush r)) []) @ padding)) fonts =
    (map (played fonts (\<lambda>f. fontId f r)) (filter (emitted r) cs), DR_Ok)"
proof -
  let ?r = "record_calls fm cs (DRFlush r)" and ?e = "filter (emitted r) cs"
  have s: "m_stream ?r = encode_calls r ?e" by (rule frame_recorded [OF assms(1,2)])
  have l: "length (m_stream ?r) + 1 < 2 ^ LENGTH(32)" using assms(3) by (simp add: exportSize_def)
  then have u: "unat (of_nat (length (m_stream ?r) + 1) :: u32) = length (m_stream ?r) + 1" by (rule unat_of_nat_lt)
  have "DRRender (Some (snd (DRExport ?r []) @ padding)) fonts =
      render_loop fonts (rd_at [] (encode_calls r ?e @ [op_code OpEnd]))"
    unfolding export_bytes(1) append_Nil append_assoc
    by (subst DRRender_header) (simp_all only: u, simp_all add: s del: op_code.simps)
  also have "\<dots> = (map (played fonts (\<lambda>f. fontId f r)) ?e, DR_Ok)"
    unfolding encode_calls_def
    using render_calls [of ?e fonts "[]" "\<lambda>f. fontId f r" "[op_code OpEnd]"] emitted_draws assms(2)
    by (simp add: render_end del: op_code.simps)
  finally show ?thesis .
qed

text \<open>C4: a frame recorded, exported and rendered comes out as it was drawn: the target receives exactly the
  calls the record mask and the size limit admit, in order, whatever follows the blob in its buffer;
  fonts arrive through the ids both ends agreed on and text as the bytes the wire carries; the command
  count is theirs and every other drawing call is counted as skipped.\<close>

theorem replay_renders_recording:
  assumes "\<not> m_suppress r" and "list_all array_ok cs" and "exportSize (record_calls fm cs (DRFlush r)) < 4294967296"
  shows "DRRender (Some (snd (DRExport (record_calls fm cs (DRFlush r)) []) @ padding)) fonts =
      (map (played fonts (\<lambda>f. fontId f r)) (filter (emitted r) cs), DR_Ok) \<and>
    m_cmdCount (record_calls fm cs (DRFlush r)) = length (filter (emitted r) cs) \<and>
    m_skipped (record_calls fm cs (DRFlush r)) = length (filter (\<lambda>c. draws c \<and> \<not> admitted r c) cs)"
  using export_renders [OF assms] frame_recorded [OF assms(1,2)] by simp

definition demo_frame :: "draw_call list" where
  "demo_frame = [FillScreen 0xFF000000, SetFont (Some 5), WriteText [72, 105, 0],
     DrawRGBBitmap 1 2 [7, 8] 2 1, DrawBitmap 3 4 [0xF0] 4 1 9 0]"

definition demo_recorder :: recorder where
  "demo_recorder = DRIgnore DR_REC_BITMAP_RGB (registerFont (Some 5) 2 (recorder_new 320 240))"

lemma demo_recorder_simps:
  "\<not> m_suppress demo_recorder" "fontId (Some 5) demo_recorder = 2" "m_recordMask demo_recorder = 0xFFFFF7FF"
  "m_maxInlineBytes demo_recorder = 0"
  by (simp_all add: demo_recorder_def DRIgnore_def registerFont_def recorder_new_def gfx.defs recorder.defs fontId_def)

lemma demo_frame_emitted:
  "filter (emitted demo_recorder) demo_frame =
     [FillScreen 0xFF000000, SetFont (Some 5), WriteText [72, 105, 0], DrawBitmap 3 4 [0xF0] 4 1 9 0]"
  "list_all array_ok demo_frame"
  by (simp_all add: demo_frame_def emitted_def admitted_def DRRecords_def demo_recorder_simps c_str_def extent_def
      monoPlaneBytes_def pixels_def)

lemma demo_frame_size:
  "exportSize (record_calls fm demo_frame (DRFlush demo_recorder)) < 4294967296"
  using frame_recorded(1) [OF demo_recorder_simps(1) demo_frame_emitted(2), of fm]
  by (simp add: exportSize_def demo_frame_emitted encode_calls_def enc_call_def enc_text_def wire_text_def c_str_def)

lemma replay_renders_recording_witness:
  "\<forall>fm. DRRender (Some (snd (DRExport (record_calls fm demo_frame (DRFlush demo_recorder)) []) @ [1, 2, 3]))
     (Some (ft_bind 2 (Some 77) [])) =
   ([FillScreen 0xFF000000, SetFont (Some 77), WriteText [72, 105, 0], DrawBitmap 3 4 [0xF0] 4 1 9 0], DR_Ok)"
  using replay_renders_recording [OF demo_recorder_simps(1) demo_frame_emitted(2) demo_frame_size,
      of _ "[1, 2, 3]" "Some (ft_bind 2 (Some 77) [])"]
  by (simp add: demo_frame_emitted demo_recorder_simps wire_text_def c_str_def get_font_def ft_get_def ft_bind_def)

text \<open>C26: cut short anywhere, a stream never makes the decoder do anything the whole stream would not have
  done: a buffer shorter than the blob is refused before the first call, and a body cut at any byte
  yields the same rendering or a prefix of its calls with Truncated or BadPayload as the verdict. The
  body is arbitrary.\<close>

theorem cut_stream_plays_prefix:
  fixes body :: bytes and version w h :: u16 and cmds :: u32 and fonts :: "font_table option"
  assumes "version \<le> 1" and "length body < 4294967296" and "k \<le> length body"
  defines "whole \<equiv> DRRender (Some (dr_header_bytes version w h cmds (of_nat (length body)) @ body)) fonts"
    and "part \<equiv> DRRender (Some (dr_header_bytes version w h cmds (of_nat k) @ take k body)) fonts"
  shows "(part = whole \<or> prefix (fst part) (fst whole) \<and> snd part \<in> {DR_Truncated, DR_BadPayload}) \<and>
    (\<forall>n<20 + length body. DRRender (Some (take n (dr_header_bytes version w h cmds (of_nat (length body)) @ body))) fonts
       = ([], DR_Truncated))"
proof -
  have u: "unat (of_nat (length body) :: u32) = length body" "unat (of_nat k :: u32) = k"
    using assms(2,3) by (simp_all add: unat_of_nat_lt)
  have "whole = render_loop fonts (rd_at [] body)" "part = render_loop fonts (rd_at [] (take k body))"
    unfolding whole_def part_def using assms(1,3) by (simp_all add: DRRender_header u)
  moreover have "rd_at [] (take k body) = cut_reader k (rd_at [] body)" by (simp add: rd_at_def cut_reader_def)
  moreover have "within k (rd_at [] body)" using assms(3) by (simp add: within_def rd_at_def)
  ultimately have 1: "part = whole \<or> prefix (fst part) (fst whole) \<and> snd part \<in> {DR_Truncated, DR_BadPayload}"
    using render_cut [of k "rd_at [] body" fonts] by (auto simp: prod_eq_iff)
  have "DRRender (Some (take n (dr_header_bytes version w h cmds (of_nat (length body)) @ body))) fonts = ([], DR_Truncated)"
    if n: "n < 20 + length body" for n
  proof (cases "n < 20")
    case True
    then show ?thesis by (simp add: DRRender_def DRPeek_def)
  next
    case False
    then have "take n (dr_header_bytes version w h cmds (of_nat (length body)) @ body) =
        dr_header_bytes version w h cmds (of_nat (length body)) @ take (n - 20) body" by simp
    moreover have "n - 20 < length body" using n False by simp
    ultimately show ?thesis
      using DRPeek_header [OF assms(1), of w h cmds "of_nat (length body)" "take (n - 20) body"]
      by (simp add: DRRender_def u)
  qed
  with 1 show ?thesis by blast
qed

lemma cut_stream_plays_prefix_witness:
  "prefix (fst (DRRender (Some (dr_header_bytes 1 0 0 0 4 @ [7, 1, 2, 3])) None))
     (fst (DRRender (Some (dr_header_bytes 1 0 0 0 5 @ [7, 1, 2, 3, 4])) None)) \<and>
   DRRender (Some (take 22 (dr_header_bytes 1 0 0 0 5 @ [7, 1, 2, 3, 4]))) None = ([], DR_Truncated)"
proof -
  note c = cut_stream_plays_prefix [of 1 "[7, 1, 2, 3, 4]" 4 0 0 0 None]
  show ?thesis using c [THEN conjunct1] c [THEN conjunct2, rule_format, of 22] by auto
qed

text \<open>C27: frames sent as blobs over a byte stream arrive whole: however the stream is split, the assembler
  with the decoder's sizer cuts out exactly the exported blobs, and rendering them issues, frame by frame,
  what each recording admitted.\<close>

theorem draw_frames_survive_chunking:
  assumes "list_all (\<lambda>(r, cs). \<not> m_suppress r \<and> list_all array_ok cs \<and>
      exportSize (record_calls fm cs (DRFlush r)) \<le> MAX_FRAME_SIZE) frames"
    and "concat chunks = concat (map (\<lambda>(r, cs). snd (DRExport (record_calls fm cs (DRFlush r)) [])) frames)"
  shows "map (\<lambda>b. DRRender (Some b) fonts)
      (fst (asm_feeds (asm_new (Some draw_sizer) (Some DRSyncMagic) 4 MAX_FRAME_SIZE) chunks)) =
    map (\<lambda>(r, cs). (map (played fonts (\<lambda>f. fontId f r)) (filter (emitted r) cs), DR_Ok)) frames"
proof -
  let ?b = "\<lambda>(r, cs). snd (DRExport (record_calls fm cs (DRFlush r)) [])"
  let ?a = "asm_new (Some draw_sizer) (Some DRSyncMagic) 4 MAX_FRAME_SIZE"
  have v: "list_all draw_blob (map ?b frames)"
    using assms(1) export_draw_blob by (auto simp: list_all_iff)
  have "length DRSyncMagic = 4" by (simp add: DRSyncMagic_def)
  then have c: "draw_format.configured ?a" using draw_format.new_configured by simp
  have p: "asm_pending ?a = []" by (simp add: asm_new_def asm_pending_def)
  have "fst (asm_feeds ?a chunks) = map ?b frames"
    using draw_format.feeds_records [OF v c, of chunks] assms(2) p by simp
  moreover have "DRRender (Some (?b f)) fonts =
      (case f of (r, cs) \<Rightarrow> (map (played fonts (\<lambda>f. fontId f r)) (filter (emitted r) cs), DR_Ok))" if "f \<in> set frames" for f
  proof -
    obtain r cs where f: "f = (r, cs)" by force
    then have "\<not> m_suppress r" "list_all array_ok cs" "exportSize (record_calls fm cs (DRFlush r)) < 4294967296"
      using assms(1) that by (auto simp: list_all_iff)
    from export_renders [OF this, of "[]" fonts] f show ?thesis by simp
  qed
  ultimately show ?thesis by simp
qed

lemma demo_frame_small: "exportSize (record_calls fm demo_frame (DRFlush demo_recorder)) \<le> MAX_FRAME_SIZE"
  using frame_recorded(1) [OF demo_recorder_simps(1) demo_frame_emitted(2), of fm]
  by (simp add: exportSize_def demo_frame_emitted encode_calls_def enc_call_def enc_text_def wire_text_def c_str_def)

lemma draw_frames_survive_chunking_witness:
  "\<forall>fm. let b = snd (DRExport (record_calls fm demo_frame (DRFlush demo_recorder)) []) in
   map (\<lambda>b. snd (DRRender (Some b) None))
     (fst (asm_feeds (asm_new (Some draw_sizer) (Some DRSyncMagic) 4 MAX_FRAME_SIZE) [take 7 b, drop 7 b @ b])) = [DR_Ok, DR_Ok]"
proof
  fix fm
  define b where b: "b = snd (DRExport (record_calls fm demo_frame (DRFlush demo_recorder)) [])"
  have c: "concat [take 7 b, drop 7 b @ b] = concat (map (\<lambda>(r, cs). snd (DRExport (record_calls fm cs (DRFlush r)) []))
      [(demo_recorder, demo_frame), (demo_recorder, demo_frame)])"
    by (simp add: b)
  have "map (\<lambda>b. DRRender (Some b) None)
      (fst (asm_feeds (asm_new (Some draw_sizer) (Some DRSyncMagic) 4 MAX_FRAME_SIZE) [take 7 b, drop 7 b @ b])) =
      map (\<lambda>(r, cs). (map (played None (\<lambda>f. fontId f r)) (filter (emitted r) cs), DR_Ok))
        [(demo_recorder, demo_frame), (demo_recorder, demo_frame)]"
    by (rule draw_frames_survive_chunking [OF _ c])
      (simp add: demo_recorder_simps demo_frame_emitted demo_frame_small)
  from arg_cong [OF this, of "map snd"] show "let b = snd (DRExport (record_calls fm demo_frame (DRFlush demo_recorder)) [])
    in map (\<lambda>b. snd (DRRender (Some b) None))
     (fst (asm_feeds (asm_new (Some draw_sizer) (Some DRSyncMagic) 4 MAX_FRAME_SIZE) [take 7 b, drop 7 b @ b])) = [DR_Ok, DR_Ok]"
    unfolding b [symmetric] Let_def by (simp add: comp_def)
qed

end
