(* ===== verification/DrawMirror.thy ===== *)
theory DrawMirror
  imports DrawRoundTrip
begin

text \<open>
  The recorder keeps the cursor, font, colour and style state it inherits in step with the state the
  target of the recording will have, so that text laid out against the recorder lands where it was
  expected; and when the text loops read outside a font's glyph table.
\<close>

section \<open>The state a target keeps\<close>

fun exec_state :: "font_mem \<Rightarrow> draw_call \<Rightarrow> 'a gfx_scheme \<Rightarrow> 'a gfx_scheme" where
  "exec_state fm (SetDrawStyle st) g = setDrawStyle st g"
| "exec_state fm (SetRotation r) g = setRotation r g"
| "exec_state fm (InvertDisplay i) g = invertDisplay i g"
| "exec_state fm (SetCursor x y) g = setCursor x y g"
| "exec_state fm (SetTextColor c bg) g = setTextColor c bg g"
| "exec_state fm (SetTextSize sx sy) g = setTextSize sx sy g"
| "exec_state fm (SetTextWrap w) g = setTextWrap w g"
| "exec_state fm (SetTextRotation r) g = setTextRotation r g"
| "exec_state fm (SetFont f) g = setFont f g"
| "exec_state fm (WriteText t) g = snd (writeText fm t g)"
| "exec_state fm (SetText x y t c bg sx sy f v) g = snd (setText fm x y t c bg sx sy f v g)"
| "exec_state fm _ g = g"

definition exec_states :: "font_mem \<Rightarrow> draw_call list \<Rightarrow> 'a gfx_scheme \<Rightarrow> 'a gfx_scheme" where
  "exec_states fm cs g = foldl (\<lambda>g c. exec_state fm c g) g cs"

text \<open>The inherited part of the recorder.\<close>

definition base :: "recorder \<Rightarrow> gfx" where "base r = gfx.truncate r"

lemma base_fields:
  "m_width (base r) = m_width r" "m_height (base r) = m_height r" "m_cursorX (base r) = m_cursorX r"
  "m_cursorY (base r) = m_cursorY r" "m_textColor (base r) = m_textColor r" "m_textBgColor (base r) = m_textBgColor r"
  "m_textSizeX (base r) = m_textSizeX r" "m_textSizeY (base r) = m_textSizeY r"
  "m_textRotation (base r) = m_textRotation r" "m_textWrap (base r) = m_textWrap r"
  "m_rotation (base r) = m_rotation r" "m_inverted (base r) = m_inverted r" "m_pFont (base r) = m_pFont r"
  "m_drawStyle (base r) = m_drawStyle r" "m_fault (base r) = m_fault r"
  by (simp_all add: base_def gfx.defs)

lemma base_eqI:
  "m_width g = m_width h \<Longrightarrow> m_height g = m_height h \<Longrightarrow> m_cursorX g = m_cursorX h \<Longrightarrow> m_cursorY g = m_cursorY h \<Longrightarrow>
   m_textColor g = m_textColor h \<Longrightarrow> m_textBgColor g = m_textBgColor h \<Longrightarrow> m_textSizeX g = m_textSizeX h \<Longrightarrow>
   m_textSizeY g = m_textSizeY h \<Longrightarrow> m_textRotation g = m_textRotation h \<Longrightarrow> m_textWrap g = m_textWrap h \<Longrightarrow>
   m_rotation g = m_rotation h \<Longrightarrow> m_inverted g = m_inverted h \<Longrightarrow> m_pFont g = m_pFont h \<Longrightarrow>
   m_drawStyle g = m_drawStyle h \<Longrightarrow> m_fault g = m_fault h \<Longrightarrow> base g = base h"
  by (simp add: base_def gfx.defs)

lemma base_ignores [simp]:
  "base (r\<lparr>m_stream := a\<rparr>) = base r" "base (r\<lparr>m_cmdCount := b\<rparr>) = base r" "base (r\<lparr>m_skipped := c\<rparr>) = base r"
  "base (r\<lparr>m_suppress := d\<rparr>) = base r"
  by (simp_all add: base_def gfx.defs)

text \<open>Setters commute with forgetting the recorder's own fields.\<close>

lemma base_setters:
  "base (setCursor x y r) = setCursor x y (base r)" "base (setTextColor c bg r) = setTextColor c bg (base r)"
  "base (setTextSize sx sy r) = setTextSize sx sy (base r)" "base (setTextWrap w r) = setTextWrap w (base r)"
  "base (setTextRotation v r) = setTextRotation v (base r)" "base (setFont f r) = setFont f (base r)"
  "base (setDrawStyle st r) = setDrawStyle st (base r)" "base (setRotation v r) = setRotation v (base r)"
  "base (r\<lparr>m_inverted := i\<rparr>) = invertDisplay i (base r)"
  by (simp_all add: base_def gfx.defs setCursor_def setTextColor_def setTextSize_def setTextWrap_def
      setTextRotation_def setFont_def setDrawStyle_def setRotation_def invertDisplay_def Let_def)

lemma base_text_char: "map_prod id base (text_char fm sx p c r) = text_char fm sx p c (base r)"
  by (auto simp: text_char_def char_advance_def line_advance_def base_def gfx.defs Let_def split: option.splits prod.splits)

lemma base_text_loop: "map_prod id base (text_loop fm sx p s r) = text_loop fm sx p s (base r)"
proof (induction s arbitrary: r)
  case (Cons c s)
  obtain ds r1 where 1: "text_char fm sx p c r = (ds, r1)" by force
  then have one: "text_char fm sx p c (base r) = (ds, base r1)" using base_text_char [of fm sx p c r] by simp
  obtain ds' r2 where 2: "text_loop fm sx p s r1 = (ds', r2)" by force
  then have "text_loop fm sx p s (base r1) = (ds', base r2)" using Cons [of r1] by simp
  then show ?case using 1 one 2 by simp
qed simp

lemma base_writeText: "base (snd (writeText fm s r)) = snd (writeText fm s (base r))"
  using base_text_loop [of fm 0 Pair s r] unfolding writeText_def
  by (metis (no_types, lifting) map_prod_simp prod.collapse snd_conv)

lemma base_writeTextRotated:
  "base (snd (writeTextRotated fm s x y r)) = snd (writeTextRotated fm s x y (base r))"
  using base_text_loop [of fm "m_cursorX r" "rotatePoint x y (m_textRotation r)" s r]
  unfolding writeTextRotated_def base_fields
  by (metis (no_types, lifting) map_prod_simp prod.collapse snd_conv)

lemma base_setText: "base (snd (setText fm x y s c bg sx sy f v r)) = snd (setText fm x y s c bg sx sy f v (base r))"
  by (simp add: setText_def base_setters base_writeText base_writeTextRotated Let_def)

lemma base_recorded:
  assumes "list_all (\<lambda>w. \<forall>r. base (w r) = base r) ws"
  shows "base (recorded ft n ws r) = base r"
proof -
  have "base (foldl (\<lambda>r w. w r) r ws) = base r" for r using assms by (induction ws arbitrary: r) simp_all
  then show ?thesis by (simp add: recorded_def allow_def)
qed

lemma base_puts:
  "base (beginCmd op r) = base r" "base (putU8 b r) = base r" "base (putU16 v r) = base r" "base (putI16 v r) = base r"
  "base (putU32 w r) = base r" "base (putF32 w r) = base r" "base (putBytes bs n r) = base r"
  "base (putMonoPlane bs x y r) = base r" "base (putText t r) = base r"
  by (simp_all add: put_simps putBytes_def putText_def Let_def split: option.splits)

lemma base_suppressed:
  "(\<And>r. base (snd (f r)) = snd (f' (base r))) \<Longrightarrow> base (suppressed f r) = snd (f' (base r))"
  by (simp add: suppressed_def)

lemma text_loop_no_text: "c_str s = [] \<Longrightarrow> text_loop fm sx p s g = ([], g)"
  by (cases s) (auto simp: c_str_def split: if_splits)

lemma base_record_call: "base (record_call fm c r) = exec_state fm c (base r)"
proof (cases c)
  case (WriteText t)
  have "base (suppressed (writeText fm t) r') = snd (writeText fm t (base r'))" for r'
    by (rule base_suppressed) (rule base_writeText)
  moreover have "snd (writeText fm t g) = g" if "c_str t = []" for g :: gfx
    using that by (simp add: writeText_def text_loop_no_text)
  moreover have "base (recorded DR_REC_TEXT 0 [beginCmd OpWriteText, putText (Some t)] r) = base r"
    by (simp add: base_recorded base_puts)
  ultimately show ?thesis by (simp add: WriteText rec_writeText_def)
next
  case (SetText x y t cl bg sx sy f v)
  have "base (suppressed (setText fm x y t cl bg sx sy f v) r') = snd (setText fm x y t cl bg sx sy f v (base r'))" for r'
    by (rule base_suppressed) (rule base_setText)
  then show ?thesis by (simp add: SetText rec_setText_def base_recorded base_puts)
qed (auto simp: rec_defs rec_setter_defs base_setters base_recorded base_puts list.pred_map comp_def list.pred_True
    split: option.splits)

lemma base_record_calls: "base (record_calls fm cs r) = exec_states fm cs (base r)"
  by (induction cs arbitrary: r) (simp_all add: record_calls_def exec_states_def base_record_call)

section \<open>What the target is told\<close>

text \<open>Both ends resolve the call's font alike and the text fits the wire.\<close>

fun agrees :: "font_table option \<Rightarrow> (font_ptr option \<Rightarrow> u8) \<Rightarrow> draw_call \<Rightarrow> bool" where
  "agrees fonts fid (SetFont f) \<longleftrightarrow> get_font fonts (fid f) = f"
| "agrees fonts fid (WriteText t) \<longleftrightarrow> length (c_str t) \<le> 65535"
| "agrees fonts fid (SetText x y t c bg sx sy f v) \<longleftrightarrow> get_font fonts (fid f) = f \<and> length (c_str t) \<le> 65535"
| "agrees fonts fid c \<longleftrightarrow> True"

lemma text_loop_wire: "length (c_str t) \<le> 65535 \<Longrightarrow> text_loop fm sx p (wire_text t @ [0]) g = text_loop fm sx p t g"
proof -
  assume l: "length (c_str t) \<le> 65535"
  then have "wire_text t = c_str t" by (simp add: wire_text_def)
  moreover have "c_str (c_str t @ [0]) = c_str t" by (simp add: c_str_def takeWhile_append takeWhile_eq_all_conv)
  ultimately show ?thesis by (metis text_loop_c_str)
qed

lemma exec_played: "agrees fonts fid c \<Longrightarrow> exec_state fm (played fonts fid c) g = exec_state fm c g"
  by (cases c) (simp_all add: writeText_def setText_def writeTextRotated_def text_loop_wire Let_def)

lemma exec_not_emitted:
  assumes "m_recordMask r AND DR_REC_TEXT \<noteq> 0" "m_recordMask r AND DR_REC_STYLE \<noteq> 0" "\<not> emitted r c"
  shows "exec_state fm c g = g"
  using assms by (cases c) (auto simp: emitted_def admitted_def DRRecords_def writeText_def text_loop_no_text)

lemma exec_states_emitted:
  assumes "m_recordMask r AND DR_REC_TEXT \<noteq> 0" "m_recordMask r AND DR_REC_STYLE \<noteq> 0" "list_all (agrees fonts fid) cs"
  shows "exec_states fm (map (played fonts fid) (filter (emitted r) cs)) g = exec_states fm cs g"
  using assms(3)
proof (induction cs arbitrary: g)
  case (Cons c cs)
  then show ?case
    using exec_not_emitted [OF assms(1,2), of c fm g] exec_played [of fonts fid c fm g]
    by (cases "emitted r c") (simp_all add: exec_states_def)
qed simp

section \<open>Glyph tables\<close>

definition in_font :: "gfx_font \<Rightarrow> u8 \<Rightarrow> bool" where
  "in_font f c \<longleftrightarrow> uint (fo_first f) \<le> uint c \<and> uint c - uint (fo_first f) < int (length (fo_glyph f))"

definition char_faults :: "font_mem \<Rightarrow> 'a gfx_scheme \<Rightarrow> u8 \<Rightarrow> bool" where
  "char_faults fm g c \<longleftrightarrow> c \<noteq> 10 \<and> c \<noteq> 13 \<and> (\<exists>f. m_pFont g = Some f \<and> \<not> in_font (fm f) c)"

lemma text_char_fault:
  "m_fault (snd (text_char fm sx p c g)) \<longleftrightarrow> m_fault g \<or> char_faults fm g c"
  "m_pFont (snd (text_char fm sx p c g)) = m_pFont g"
  by (auto simp: text_char_def char_faults_def char_advance_def glyph_advance_def in_font_def Let_def not_less not_le
      split: option.splits prod.splits if_splits)

lemma text_loop_fault:
  "m_fault (snd (text_loop fm sx p s g)) \<longleftrightarrow> m_fault g \<or> (\<exists>c\<in>set (c_str s). char_faults fm g c)"
proof (induction s arbitrary: g)
  case (Cons c s)
  obtain ds g1 where 1: "text_char fm sx p c g = (ds, g1)" by force
  note f = text_char_fault [of fm sx p c g, unfolded 1 snd_conv]
  have "char_faults fm g1 = char_faults fm g" using f(2) by (simp add: char_faults_def fun_eq_iff)
  with Cons [of g1] f(1) 1 show ?case by (auto simp: c_str_def case_prod_beta)
qed (simp add: c_str_def)

section \<open>Properties\<close>



text \<open>printing reads outside the current font's glyph table exactly when the text has a character, other
  than a line feed or a carriage return, that the font does not have: drawing such a character is skipped,
  its advance is read all the same.\<close>

theorem text_overreads_glyph_table:
  "\<not> m_fault g \<Longrightarrow> m_fault (snd (writeText fm s g)) \<longleftrightarrow>
     (\<exists>c\<in>set (c_str s). c \<noteq> 10 \<and> c \<noteq> 13 \<and> (\<exists>f. m_pFont g = Some f \<and> \<not> in_font (fm f) c))"
  by (simp add: writeText_def text_loop_fault char_faults_def)

lemma text_overreads_glyph_table_witness:
  "let fm = (\<lambda>_. \<lparr>fo_bitmap = [], fo_glyph = [\<lparr>gl_bitmapOffset = 0, gl_width = 1, gl_height = 1, gl_xAdvance = 4,
      gl_xOffset = 0, gl_yOffset = 0\<rparr>], fo_first = 65, fo_last = 65, fo_yAdvance = 9\<rparr>);
       g = gfx_new\<lparr>m_pFont := Some 0\<rparr>
   in \<not> m_fault (snd (writeText fm [65, 10, 65] g)) \<and> m_fault (snd (writeText fm [65, 66] g))"
proof -
  have "\<not> m_fault (gfx_new\<lparr>m_pFont := Some 0\<rparr>)" by (simp add: gfx_new_def)
  note t = text_overreads_glyph_table [OF this]
  show ?thesis unfolding Let_def t by (simp add: c_str_def in_font_def)
qed

end
