(* ===== verification/Canvas.thy ===== *)
theory Canvas
  imports GfxText
begin

text \<open>
  \<^verbatim>\<open>GFXcanvas\<close> (libs/libgfx/GFX.cpp, GFX.h): an off-screen surface in one of five pixel formats, its pixel
  access, blending, rotation, fills and copies, and the span routines of \<^verbatim>\<open>LinuxGFX\<close> that reach it. The
  buffer is the bytes of its allocation; an access outside it sets \<open>cv_outside\<close>, and what the program does
  from then on is not modelled.
\<close>

section \<open>Colours\<close>

definition color565 :: "u8 \<Rightarrow> u8 \<Rightarrow> u8 \<Rightarrow> u32" where
  "color565 r g b = 0xFF000000 OR push_bit 16 (ucast r) OR push_bit 8 (ucast g) OR ucast b"

definition color565_rgb :: "u32 \<Rightarrow> u32" where
  "color565_rgb rgb = 0xFF000000 OR (rgb AND 0x00FFFFFF)"

definition color888 :: "u8 \<Rightarrow> u8 \<Rightarrow> u8 \<Rightarrow> u32" where
  "color888 r g b = 0xFF000000 OR push_bit 16 (ucast r) OR push_bit 8 (ucast g) OR ucast b"

definition colorARGB :: "u8 \<Rightarrow> u8 \<Rightarrow> u8 \<Rightarrow> u8 \<Rightarrow> u32" where
  "colorARGB a r g b = push_bit 24 (ucast a) OR push_bit 16 (ucast r) OR push_bit 8 (ucast g) OR ucast b"

definition fromRGB565 :: "u16 \<Rightarrow> u32" where
  "fromRGB565 c =
     (let r = ucast (push_bit 3 (drop_bit 11 c AND 0x1F)) :: u8;
          g = ucast (push_bit 2 (drop_bit 5 c AND 0x3F)) :: u8;
          b = ucast (push_bit 3 (c AND 0x1F)) :: u8
      in 0xFF000000 OR push_bit 16 (ucast r) OR push_bit 8 (ucast g) OR ucast b)"

definition blendARGB :: "u32 \<Rightarrow> u32 \<Rightarrow> u32" where
  "blendARGB src dst =
     (let sa = drop_bit 24 src AND 0xFF in
      if sa = 0xFF then src
      else if sa = 0 then dst
      else
        let da = 255 - sa;
            r = ucast (((drop_bit 16 src AND 0xFF) * sa + (drop_bit 16 dst AND 0xFF) * da) div 255) :: u8;
            g = ucast (((drop_bit 8 src AND 0xFF) * sa + (drop_bit 8 dst AND 0xFF) * da) div 255) :: u8;
            b = ucast (((src AND 0xFF) * sa + (dst AND 0xFF) * da) div 255) :: u8
        in 0xFF000000 OR push_bit 16 (ucast r) OR push_bit 8 (ucast g) OR ucast b)"

definition argbFromGray8 :: "u8 \<Rightarrow> u32" where
  "argbFromGray8 g = 0xFF000000 OR push_bit 16 (ucast g) OR push_bit 8 (ucast g) OR ucast g"

definition argbFromRGB565 :: "u16 \<Rightarrow> u32" where
  "argbFromRGB565 c =
     (let r = ucast (drop_bit 11 c AND 0x1F) :: u8; r = push_bit 3 r OR drop_bit 2 r;
          g = ucast (drop_bit 5 c AND 0x3F) :: u8; g = push_bit 2 g OR drop_bit 4 g;
          b = ucast (c AND 0x1F) :: u8; b = push_bit 3 b OR drop_bit 2 b
      in 0xFF000000 OR push_bit 16 (ucast r) OR push_bit 8 (ucast g) OR ucast b)"

definition argbFromRGB888 :: "u8 \<Rightarrow> u8 \<Rightarrow> u8 \<Rightarrow> u32" where
  "argbFromRGB888 r g b = 0xFF000000 OR push_bit 16 (ucast r) OR push_bit 8 (ucast g) OR ucast b"

definition rgb888FromARGB :: "u32 \<Rightarrow> u8 \<times> u8 \<times> u8" where
  "rgb888FromARGB argb = (ucast (drop_bit 16 argb AND 0xFF), ucast (drop_bit 8 argb AND 0xFF), ucast (argb AND 0xFF))"

definition gray8FromARGB :: "u32 \<Rightarrow> u8" where
  "gray8FromARGB argb =
     (case rgb888FromARGB argb of (r, g, b) \<Rightarrow> ucast (drop_bit 8 (77 * ucast r + 150 * ucast g + 29 * ucast b :: u32)))"

definition rgb565FromARGB :: "u32 \<Rightarrow> u16" where
  "rgb565FromARGB argb =
     (case rgb888FromARGB argb of (r, g, b) \<Rightarrow>
        push_bit 8 (ucast (r AND 0xF8)) OR push_bit 3 (ucast (g AND 0xFC)) OR ucast (drop_bit 3 b))"

section \<open>Pixels in a buffer\<close>

datatype pixel_fmt = BW | GRAY8 | RGB565 | RGB888 | ARGB8888

definition bufferBytes :: "pixel_fmt \<Rightarrow> nat \<Rightarrow> nat" where
  "bufferBytes fmt px = (case fmt of BW \<Rightarrow> (px + 7) div 8 | GRAY8 \<Rightarrow> px | RGB565 \<Rightarrow> px * 2 | RGB888 \<Rightarrow> px * 3
     | ARGB8888 \<Rightarrow> px * 4)"

text \<open>The first byte of a pixel and the number of bytes it takes.\<close>

definition pixel_cell :: "pixel_fmt \<Rightarrow> nat \<Rightarrow> nat \<times> nat" where
  "pixel_cell fmt i = (case fmt of BW \<Rightarrow> (i div 8, 1) | GRAY8 \<Rightarrow> (i, 1) | RGB565 \<Rightarrow> (i * 2, 2) | RGB888 \<Rightarrow> (i * 3, 3)
     | ARGB8888 \<Rightarrow> (i * 4, 4))"

definition pixel_inside :: "pixel_fmt \<Rightarrow> nat \<Rightarrow> bytes \<Rightarrow> bool" where
  "pixel_inside fmt i buf = (case pixel_cell fmt i of (at, n) \<Rightarrow> at + n \<le> length buf)"

definition get_pixel :: "pixel_fmt \<Rightarrow> bytes \<Rightarrow> nat \<Rightarrow> u32" where
  "get_pixel fmt buf offset =
     (case fmt of
        BW \<Rightarrow> (if bit (buf ! (offset div 8)) (7 - offset mod 8) then GFX_WHITE else GFX_BLACK)
      | GRAY8 \<Rightarrow> argbFromGray8 (buf ! offset)
      | RGB565 \<Rightarrow> argbFromRGB565 (getU16LE (drop (offset * 2) buf))
      | RGB888 \<Rightarrow> argbFromRGB888 (buf ! (offset * 3)) (buf ! (offset * 3 + 1)) (buf ! (offset * 3 + 2))
      | ARGB8888 \<Rightarrow> getU32LE (drop (offset * 4) buf))"

definition put_bw :: "bool \<Rightarrow> nat \<Rightarrow> bytes \<Rightarrow> bytes" where
  "put_bw on offset buf =
     (let b = 7 - offset mod 8 in
      if on then buf[offset div 8 := buf ! (offset div 8) OR push_bit b 1]
      else buf[offset div 8 := buf ! (offset div 8) AND NOT (push_bit b 1)])"

definition put_pixel :: "pixel_fmt \<Rightarrow> u32 \<Rightarrow> nat \<Rightarrow> bytes \<Rightarrow> bytes" where
  "put_pixel fmt c offset buf =
     (case fmt of
        BW \<Rightarrow> put_bw (gray8FromARGB c \<ge> 128) offset buf
      | GRAY8 \<Rightarrow> buf[offset := gray8FromARGB c]
      | RGB565 \<Rightarrow> memcpy_at (offset * 2) (putU16LE (rgb565FromARGB c)) buf
      | RGB888 \<Rightarrow> (case rgb888FromARGB c of (r, g, b) \<Rightarrow> memcpy_at (offset * 3) [r, g, b] buf)
      | ARGB8888 \<Rightarrow> memcpy_at (offset * 4) (putU32LE c) buf)"

section \<open>The canvas\<close>

text \<open>\<open>cv_mapped\<close> says whether \<^verbatim>\<open>m_pBuffer\<close> points at the canvas buffer. \<^verbatim>\<open>m_pitch\<close> stays 0.\<close>

record canvas = gfx +
  cv_format :: pixel_fmt
  cv_buffer :: "bytes option"
  cv_bufferBytes :: nat
  cv_owned :: bool
  cv_mapped :: bool
  cv_outside :: bool

text \<open>\<open>calloc_ok\<close> is whether the allocation succeeds.\<close>

definition canvas_new :: "u16 \<Rightarrow> u16 \<Rightarrow> pixel_fmt \<Rightarrow> bool \<Rightarrow> bool \<Rightarrow> canvas" where
  "canvas_new w h fmt allocate_buffer calloc_ok =
     (let n = bufferBytes fmt (unat w * unat h);
          buf = (if allocate_buffer \<and> n > 0 \<and> calloc_ok then Some (replicate n 0) else None)
      in gfx.extend (gfx_new\<lparr>m_width := w, m_height := h\<rparr>)
           (canvas.fields fmt buf n (buf \<noteq> None) (fmt = ARGB8888 \<and> buf \<noteq> None) False))"

definition attachBuffer :: "bytes option \<Rightarrow> canvas \<Rightarrow> bool \<times> canvas" where
  "attachBuffer buf cv =
     (case buf of None \<Rightarrow> (False, cv)
      | Some b \<Rightarrow> (True, cv\<lparr>cv_buffer := Some b, cv_owned := False,
                           cv_mapped := (if cv_format cv = ARGB8888 then True else cv_mapped cv)\<rparr>))"

definition detachBuffer :: "canvas \<Rightarrow> canvas" where
  "detachBuffer cv = cv\<lparr>cv_buffer := None, cv_owned := False, cv_mapped := False\<rparr>"

text \<open>\<^verbatim>\<open>(size_t)y * (size_t)m_width + (size_t)x\<close>, in 64 bits.\<close>

definition cv_offset :: "canvas \<Rightarrow> u16 \<Rightarrow> u16 \<Rightarrow> nat" where
  "cv_offset cv x y = nat ((sint y * sint (m_width cv) + sint x) mod 2 ^ 64)"

text \<open>\<open>None\<close> is a read outside the buffer.\<close>

definition getPixelRaw :: "canvas \<Rightarrow> u16 \<Rightarrow> u16 \<Rightarrow> u32 option" where
  "getPixelRaw cv x y =
     (case cv_buffer cv of None \<Rightarrow> Some 0
      | Some buf \<Rightarrow>
          let offset = cv_offset cv x y in
          if pixel_inside (cv_format cv) offset buf then Some (get_pixel (cv_format cv) buf offset) else None)"

text \<open>A pixel stored at its index, as every write of the canvas does.\<close>

definition cv_store :: "u32 \<Rightarrow> nat \<Rightarrow> canvas \<Rightarrow> canvas" where
  "cv_store c offset cv =
     (case cv_buffer cv of None \<Rightarrow> cv
      | Some buf \<Rightarrow>
          if pixel_inside (cv_format cv) offset buf then cv\<lparr>cv_buffer := Some (put_pixel (cv_format cv) c offset buf)\<rparr>
          else cv\<lparr>cv_outside := True\<rparr>)"

definition setPixelRaw :: "u16 \<Rightarrow> u16 \<Rightarrow> u32 \<Rightarrow> canvas \<Rightarrow> canvas" where
  "setPixelRaw x y argb cv =
     (if cv_buffer cv = None then cv
      else
        let sa = drop_bit 24 argb in
        if sa = 0 then cv
        else
          let dst_argb = (if sa < 255 then getPixelRaw cv x y else Some 0) in
          case dst_argb of None \<Rightarrow> cv\<lparr>cv_outside := True\<rparr>
          | Some dst \<Rightarrow>
              let blended = (if sa = 255 then argb else blendARGB argb dst)
              in cv_store blended (cv_offset cv x y) cv)"

text \<open>The clip of the public pixel calls.\<close>

definition on_surface :: "'a gfx_scheme \<Rightarrow> u16 \<Rightarrow> u16 \<Rightarrow> bool" where
  "on_surface g x y \<longleftrightarrow> \<not> (sint x < 0 \<or> sint x \<ge> sint (m_width g) \<or> sint y < 0 \<or> sint y \<ge> sint (m_height g))"

definition cv_rotate :: "canvas \<Rightarrow> u16 \<Rightarrow> u16 \<Rightarrow> u16 \<times> u16" where
  "cv_rotate cv x y =
     (if m_rotation cv = 1 then (m_width cv - 1 - y, x)
      else if m_rotation cv = 2 then (m_width cv - 1 - x, m_height cv - 1 - y)
      else if m_rotation cv = 3 then (y, m_height cv - 1 - x)
      else (x, y))"

definition cv_drawPixel :: "u16 \<Rightarrow> u16 \<Rightarrow> u32 \<Rightarrow> canvas \<Rightarrow> canvas" where
  "cv_drawPixel x y color cv =
     (if \<not> on_surface cv x y then cv
      else case cv_rotate cv x y of (x, y) \<Rightarrow> setPixelRaw x y color cv)"

definition cv_getPixel :: "canvas \<Rightarrow> u16 \<Rightarrow> u16 \<Rightarrow> u32 option" where
  "cv_getPixel cv x y =
     (if \<not> on_surface cv x y then Some 0
      else case cv_rotate cv x y of (x, y) \<Rightarrow> getPixelRaw cv x y)"

definition cv_setPixel :: "u16 \<Rightarrow> u16 \<Rightarrow> u32 \<Rightarrow> canvas \<Rightarrow> canvas" where
  "cv_setPixel x y color cv = (if \<not> on_surface cv x y then cv else setPixelRaw x y color cv)"

text \<open>\<^verbatim>\<open>LinuxGFX::writePixel\<close> on a canvas, whose \<^verbatim>\<open>setPixel\<close> and \<^verbatim>\<open>getPixel\<close> it calls.\<close>

definition writePixel :: "u16 \<Rightarrow> u16 \<Rightarrow> u32 \<Rightarrow> canvas \<Rightarrow> canvas" where
  "writePixel x y color cv =
     (let alpha = drop_bit 24 color in
      if alpha = 0 then cv
      else if \<not> on_surface cv x y then cv
      else if alpha = 0xFF then cv_setPixel x y color cv
      else case cv_getPixel cv x y of
             None \<Rightarrow> cv\<lparr>cv_outside := True\<rparr>
           | Some dst \<Rightarrow> cv_setPixel x y (blendARGB color dst) cv)"

section \<open>Fills and copies\<close>

definition cv_pixels :: "canvas \<Rightarrow> nat" where
  "cv_pixels cv = nat ((sint (m_width cv) * sint (m_height cv)) mod 2 ^ 64)"

text \<open>A \<^verbatim>\<open>memset\<close> of the \<^verbatim>\<open>m_bufferBytes\<close> bytes of the buffer.\<close>

definition cv_memset :: "u8 \<Rightarrow> canvas \<Rightarrow> canvas" where
  "cv_memset v cv =
     (case cv_buffer cv of None \<Rightarrow> cv
      | Some buf \<Rightarrow>
          if cv_bufferBytes cv \<le> length buf
          then cv\<lparr>cv_buffer := Some (memcpy_at 0 (replicate (cv_bufferBytes cv) v) buf)\<rparr>
          else cv\<lparr>cv_outside := True\<rparr>)"

definition cv_fillScreen :: "u32 \<Rightarrow> canvas \<Rightarrow> canvas" where
  "cv_fillScreen color cv =
     (if cv_buffer cv = None then cv
      else if drop_bit 24 color = 0 then cv
      else case cv_format cv of
             BW \<Rightarrow> cv_memset (if gray8FromARGB color \<ge> 128 then 0xFF else 0x00) cv
           | GRAY8 \<Rightarrow> cv_memset (gray8FromARGB color) cv
           | _ \<Rightarrow> fold (cv_store color) [0..<cv_pixels cv] cv)"

definition cv_drawFastHLine :: "u16 \<Rightarrow> u16 \<Rightarrow> u16 \<Rightarrow> u32 \<Rightarrow> canvas \<Rightarrow> canvas" where
  "cv_drawFastHLine x y w color cv =
     (if cv_buffer cv = None \<or> sint w \<le> 0 then cv
      else
        let (x, w) = (if sint x < 0 then (0, w + x) else (x, w));
            w = (if sint x + sint w > sint (m_width cv) then m_width cv - x else w)
        in if sint y < 0 \<or> sint y \<ge> sint (m_height cv) \<or> sint w \<le> 0 then cv
           else
             let p = cv_offset cv x y
             in if drop_bit 24 color = 0 then cv else fold (cv_store color) [p..<p + nat (sint w)] cv)"

definition cv_drawFastVLine :: "u16 \<Rightarrow> u16 \<Rightarrow> u16 \<Rightarrow> u32 \<Rightarrow> canvas \<Rightarrow> canvas" where
  "cv_drawFastVLine x y h color cv =
     (if cv_buffer cv = None \<or> sint h \<le> 0 then cv
      else
        let (y, h) = (if sint y < 0 then (0, h + y) else (y, h));
            h = (if sint y + sint h > sint (m_height cv) then m_height cv - y else h)
        in if sint x < 0 \<or> sint x \<ge> sint (m_width cv) \<or> sint h \<le> 0 then cv
           else if drop_bit 24 color = 0 then cv
           else fold (\<lambda>row. setPixelRaw x (of_int row) color) [sint y..sint y + sint h - 1] cv)"

text \<open>A copy gives \<open>None\<close> when it returns false; the inner \<open>None\<close> is a read outside the buffer.\<close>

definition cv_read_all :: "(bytes \<Rightarrow> nat \<Rightarrow> 'p) \<Rightarrow> canvas \<Rightarrow> bytes \<Rightarrow> 'p list option" where
  "cv_read_all get cv buf =
     (if list_all (\<lambda>i. pixel_inside (cv_format cv) i buf) [0..<cv_pixels cv]
      then Some (map (get buf) [0..<cv_pixels cv]) else None)"

definition copyToARGB8888 :: "canvas \<Rightarrow> u32 list option option" where
  "copyToARGB8888 cv =
     (case cv_buffer cv of None \<Rightarrow> None | Some buf \<Rightarrow> Some (cv_read_all (get_pixel (cv_format cv)) cv buf))"

definition copyToRGB565 :: "canvas \<Rightarrow> u16 list option option" where
  "copyToRGB565 cv =
     (case cv_buffer cv of None \<Rightarrow> None
      | Some buf \<Rightarrow>
          Some (cv_read_all (\<lambda>buf i. if cv_format cv = RGB565 then getU16LE (drop (i * 2) buf)
                                    else rgb565FromARGB (get_pixel (cv_format cv) buf i)) cv buf))"

definition swap_bytes16 :: "u16 \<Rightarrow> u16" where
  "swap_bytes16 p = push_bit 8 p OR drop_bit 8 p"

definition cv_swap_at :: "nat \<Rightarrow> canvas \<Rightarrow> canvas" where
  "cv_swap_at i cv =
     (case cv_buffer cv of None \<Rightarrow> cv
      | Some buf \<Rightarrow>
          if pixel_inside RGB565 i buf
          then cv\<lparr>cv_buffer := Some (memcpy_at (i * 2) (putU16LE (swap_bytes16 (getU16LE (drop (i * 2) buf)))) buf)\<rparr>
          else cv\<lparr>cv_outside := True\<rparr>)"

definition cv_byteSwap :: "canvas \<Rightarrow> canvas" where
  "cv_byteSwap cv = (if cv_format cv = RGB565 then fold cv_swap_at [0..<cv_pixels cv] cv else cv)"

end
