(* ===== verification/CanvasLaws.thy ===== *)
theory CanvasLaws
  imports Canvas
begin

text \<open>
  What a pixel buffer promises: a pixel reads back as the colour last stored at its index, as far as the
  format keeps it, and no store touches another pixel. The contract is the locale \<open>pixel_buffer\<close>, proved once
  for the five formats; the facts about lines, fills and rotations rest on it.
\<close>

section \<open>Colour conversions\<close>

definition quantise :: "pixel_fmt \<Rightarrow> u32 \<Rightarrow> u32" where
  "quantise fmt c = (case fmt of
       BW \<Rightarrow> (if gray8FromARGB c \<ge> 128 then GFX_WHITE else GFX_BLACK)
     | GRAY8 \<Rightarrow> argbFromGray8 (gray8FromARGB c)
     | RGB565 \<Rightarrow> argbFromRGB565 (rgb565FromARGB c)
     | RGB888 \<Rightarrow> color565_rgb c
     | ARGB8888 \<Rightarrow> c)"

lemma bit16_cases: "(n::nat) < 16 \<Longrightarrow> n = 0 \<or> n = 1 \<or> n = 2 \<or> n = 3 \<or> n = 4 \<or> n = 5 \<or> n = 6 \<or> n = 7 \<or> n = 8 \<or> n = 9
   \<or> n = 10 \<or> n = 11 \<or> n = 12 \<or> n = 13 \<or> n = 14 \<or> n = 15"
  by arith

lemma rgb565_roundtrip [simp]: "rgb565FromARGB (argbFromRGB565 c) = c"
  unfolding rgb565FromARGB_def argbFromRGB565_def rgb888FromARGB_def Let_def prod.case
  apply (rule bit_word_eqI)
  apply (drule bit16_cases [simplified, OF order.strict_trans2])
   apply simp
  apply (elim disjE; simp add: bit_simps bit_numeral_rec)
  done

lemma opaque_mask: "(0xFF000000 :: u32) = push_bit 24 (mask 8)" and rgb_mask: "(0x00FFFFFF :: u32) = mask 24"
  by (simp_all add: mask_eq_exp_minus_1)

lemma rgb888_of_bytes [simp]: "rgb888FromARGB (argbFromRGB888 r g b) = (r, g, b)"
  unfolding rgb888FromARGB_def argbFromRGB888_def ucast_and_0xFF prod.inject opaque_mask
  by (intro conjI; rule bit_word_eqI; auto simp: bit_simps dest: bit_imp_le_length)

lemma argbFromGray8_rgb: "argbFromGray8 g = argbFromRGB888 g g g"
  by (simp add: argbFromGray8_def argbFromRGB888_def)

lemma gray8_roundtrip [simp]: "gray8FromARGB (argbFromGray8 g) = g"
proof -
  have "gray8FromARGB (argbFromGray8 g) = ucast (drop_bit 8 (256 * ucast g :: u32))"
    by (simp add: gray8FromARGB_def argbFromGray8_rgb)
  also have "(256 * ucast g :: u32) = push_bit 8 (ucast g)"
    by (simp add: push_bit_eq_mult)
  also have "(ucast (drop_bit 8 (push_bit 8 (ucast g) :: u32)) :: u8) = g"
    by (rule bit_word_eqI) (simp add: bit_simps)
  finally show ?thesis .
qed

lemma argb_of_rgb888: "(case rgb888FromARGB c of (r, g, b) \<Rightarrow> argbFromRGB888 r g b) = color565_rgb c"
  unfolding rgb888FromARGB_def argbFromRGB888_def color565_rgb_def ucast_and_0xFF prod.case opaque_mask rgb_mask
  apply (rule bit_word_eqI)
  subgoal for n
    by (cases "n < 8"; cases "n < 16"; cases "n < 24") (auto simp: bit_simps dest: bit_imp_le_length)
  done

section \<open>The contract of a pixel buffer\<close>

lemma nth_memcpy_at:
  "off + length src \<le> length dst \<Longrightarrow> i < length dst \<Longrightarrow>
   memcpy_at off src dst ! i = (if off \<le> i \<and> i < off + length src then src ! (i - off) else dst ! i)"
  by (auto simp: memcpy_at_def nth_append)

locale pixel_buffer =
  fixes inside :: "nat \<Rightarrow> bytes \<Rightarrow> bool"
    and get :: "bytes \<Rightarrow> nat \<Rightarrow> u32"
    and put :: "u32 \<Rightarrow> nat \<Rightarrow> bytes \<Rightarrow> bytes"
    and shown :: "u32 \<Rightarrow> u32"
  assumes put_len: "inside i buf \<Longrightarrow> length (put c i buf) = length buf"
    and inside_len: "length buf = length buf' \<Longrightarrow> inside i buf = inside i buf'"
    and get_put: "inside i buf \<Longrightarrow> get (put c i buf) i = shown c"
    and get_put_other: "inside i buf \<Longrightarrow> inside j buf \<Longrightarrow> i \<noteq> j \<Longrightarrow> get (put c i buf) j = get buf j"
begin

lemma inside_put: "inside i buf \<Longrightarrow> inside j (put c i buf) = inside j buf"
  by (rule inside_len) (rule put_len)

lemma length_fold_put:
  "\<forall>i\<in>set is. inside i buf \<Longrightarrow> length (fold (put c) is buf) = length buf"
  by (induction "is" arbitrary: buf) (simp_all add: put_len inside_put)

lemma get_fold_put:
  "\<forall>i\<in>set is. inside i buf \<Longrightarrow> inside j buf \<Longrightarrow>
   get (fold (put c) is buf) j = (if j \<in> set is then shown c else get buf j)"
proof (induction "is" arbitrary: buf)
  case (Cons i "is")
  then show ?case
    by (cases "j = i") (auto simp: inside_put get_put get_put_other)
qed simp

end

lemma put_pixel_len: "pixel_inside fmt i buf \<Longrightarrow> length (put_pixel fmt c i buf) = length buf"
  by (cases fmt) (auto simp: pixel_inside_def pixel_cell_def put_pixel_def put_bw_def Let_def split: prod.splits)

lemma get_put_pixel: "pixel_inside fmt i buf \<Longrightarrow> get_pixel fmt (put_pixel fmt c i buf) i = quantise fmt c"
proof (cases fmt)
  case BW
  assume "pixel_inside fmt i buf"
  then show ?thesis
    using BW by (auto simp: pixel_inside_def pixel_cell_def put_pixel_def put_bw_def get_pixel_def quantise_def Let_def bit_simps)
next
  case RGB888
  assume "pixel_inside fmt i buf"
  then show ?thesis
    using RGB888 argb_of_rgb888 [of c]
    by (auto simp: pixel_inside_def pixel_cell_def put_pixel_def get_pixel_def quantise_def nth_memcpy_at split: prod.splits)
qed (auto simp: pixel_inside_def pixel_cell_def put_pixel_def get_pixel_def quantise_def memcpy_at_def)

lemma get_put_pixel_other:
  "pixel_inside fmt i buf \<Longrightarrow> pixel_inside fmt j buf \<Longrightarrow> i \<noteq> j \<Longrightarrow>
   get_pixel fmt (put_pixel fmt c i buf) j = get_pixel fmt buf j"
proof (cases fmt)
  case BW
  assume a: "pixel_inside fmt i buf" "pixel_inside fmt j buf" and ne: "i \<noteq> j"
  have "i div 8 = j div 8 \<Longrightarrow> 7 - i mod 8 \<noteq> 7 - j mod 8"
  proof -
    assume "i div 8 = j div 8"
    with ne have "i mod 8 \<noteq> j mod 8"
      by (metis div_mult_mod_eq)
    then show "7 - i mod 8 \<noteq> 7 - j mod 8"
      using mod_less_divisor [of 8 i] mod_less_divisor [of 8 j] by linarith
  qed
  then show ?thesis
    using a BW by (auto simp: pixel_inside_def pixel_cell_def put_pixel_def put_bw_def get_pixel_def Let_def bit_simps nth_list_update)
next
  case ARGB8888
  then show "pixel_inside fmt i buf \<Longrightarrow> pixel_inside fmt j buf \<Longrightarrow> i \<noteq> j \<Longrightarrow> ?thesis"
    by (auto simp: pixel_inside_def pixel_cell_def put_pixel_def get_pixel_def nth_memcpy_at getU32LE_def)
qed (auto simp: pixel_inside_def pixel_cell_def put_pixel_def get_pixel_def nth_memcpy_at getU16LE_def split: prod.splits)

interpretation px: pixel_buffer "pixel_inside fmt" "get_pixel fmt" "put_pixel fmt" "quantise fmt" for fmt
  by unfold_locales (auto simp: put_pixel_len get_put_pixel get_put_pixel_other pixel_inside_def)

section \<open>Well-formed canvases\<close>

definition cv_pixel :: "canvas \<Rightarrow> nat \<Rightarrow> u32" where
  "cv_pixel cv i = (case cv_buffer cv of None \<Rightarrow> 0 | Some buf \<Rightarrow> get_pixel (cv_format cv) buf i)"

definition canvas_wf :: "canvas \<Rightarrow> bool" where
  "canvas_wf cv \<longleftrightarrow> 0 \<le> sint (m_width cv) \<and> 0 \<le> sint (m_height cv) \<and>
     cv_bufferBytes cv = bufferBytes (cv_format cv) (cv_pixels cv) \<and>
     (case cv_buffer cv of None \<Rightarrow> True | Some buf \<Rightarrow> cv_bufferBytes cv \<le> length buf)"

text \<open>What no drawing operation may touch: everything but the bytes of the buffer.\<close>

definition cv_kept :: "canvas \<Rightarrow> canvas \<Rightarrow> bool" where
  "cv_kept cv cv' \<longleftrightarrow> cv' = cv\<lparr>cv_buffer := cv_buffer cv'\<rparr> \<and>
     map_option length (cv_buffer cv') = map_option length (cv_buffer cv)"

lemma cv_kept_refl [simp, intro]: "cv_kept cv cv"
  by (simp add: cv_kept_def)

lemma cv_kept_fields:
  assumes "cv_kept cv cv'"
  shows "m_width cv' = m_width cv" "m_height cv' = m_height cv" "m_rotation cv' = m_rotation cv"
    "cv_format cv' = cv_format cv" "cv_outside cv' = cv_outside cv" "cv_mapped cv' = cv_mapped cv"
    "cv_pixels cv' = cv_pixels cv" "cv_offset cv' x y = cv_offset cv x y" "on_surface cv' x y = on_surface cv x y"
    "canvas_wf cv' = canvas_wf cv" "cv_buffer cv' = None \<longleftrightarrow> cv_buffer cv = None" "cv_rotate cv' x y = cv_rotate cv x y"
proof -
  obtain b where e: "cv' = cv\<lparr>cv_buffer := b\<rparr>" and l: "map_option length b = map_option length (cv_buffer cv)"
    using assms unfolding cv_kept_def by metis
  show "m_width cv' = m_width cv" "m_height cv' = m_height cv" "m_rotation cv' = m_rotation cv"
    "cv_format cv' = cv_format cv" "cv_outside cv' = cv_outside cv" "cv_mapped cv' = cv_mapped cv"
    "cv_pixels cv' = cv_pixels cv" "cv_offset cv' x y = cv_offset cv x y" "on_surface cv' x y = on_surface cv x y"
    "cv_rotate cv' x y = cv_rotate cv x y"
    unfolding e by (simp_all add: cv_pixels_def cv_offset_def on_surface_def cv_rotate_def)
  show "canvas_wf cv' = canvas_wf cv" "cv_buffer cv' = None \<longleftrightarrow> cv_buffer cv = None"
    using l unfolding e by (auto simp: canvas_wf_def cv_pixels_def split: option.splits)
qed

lemma cv_kept_trans [trans]:
  assumes "cv_kept a b" "cv_kept b c" shows "cv_kept a c"
proof -
  obtain x where x: "b = a\<lparr>cv_buffer := x\<rparr>" "map_option length x = map_option length (cv_buffer a)"
    using assms(1) unfolding cv_kept_def by metis
  obtain y where y: "c = b\<lparr>cv_buffer := y\<rparr>" "map_option length y = map_option length (cv_buffer b)"
    using assms(2) unfolding cv_kept_def by metis
  show ?thesis using x y by (simp add: cv_kept_def)
qed

lemma pixel_inside_area: "i < n \<Longrightarrow> bufferBytes fmt n \<le> length buf \<Longrightarrow> pixel_inside fmt i buf"
  by (cases fmt) (auto simp: pixel_inside_def pixel_cell_def bufferBytes_def)

lemma canvas_wf_inside: "canvas_wf cv \<Longrightarrow> cv_buffer cv = Some buf \<Longrightarrow> i < cv_pixels cv \<Longrightarrow> pixel_inside (cv_format cv) i buf"
  by (auto simp: canvas_wf_def intro: pixel_inside_area)

lemma cv_store_kept: "canvas_wf cv \<Longrightarrow> i < cv_pixels cv \<Longrightarrow> cv_kept cv (cv_store c i cv)"
  by (auto simp: cv_store_def cv_kept_def canvas_wf_inside px.put_len split: option.splits)

lemma cv_store_wf: "canvas_wf cv \<Longrightarrow> i < cv_pixels cv \<Longrightarrow> canvas_wf (cv_store c i cv)"
  using cv_store_kept cv_kept_fields(10) by blast

lemma cv_store_pixel:
  "canvas_wf cv \<Longrightarrow> cv_buffer cv \<noteq> None \<Longrightarrow> i < cv_pixels cv \<Longrightarrow> j < cv_pixels cv \<Longrightarrow>
   cv_pixel (cv_store c i cv) j = (if j = i then quantise (cv_format cv) c else cv_pixel cv j)"
  by (auto simp: cv_store_def cv_pixel_def canvas_wf_inside px.get_put px.get_put_other)

lemma fold_store_kept: "canvas_wf cv \<Longrightarrow> \<forall>i\<in>set is. i < cv_pixels cv \<Longrightarrow> cv_kept cv (fold (cv_store c) is cv)"
proof (induction "is" arbitrary: cv)
  case (Cons i "is")
  have k: "cv_kept cv (cv_store c i cv)" using Cons.prems by (intro cv_store_kept) auto
  moreover have "cv_kept (cv_store c i cv) (fold (cv_store c) is (cv_store c i cv))"
    using Cons.prems cv_kept_fields [OF k] by (intro Cons.IH) auto
  ultimately show ?case by (auto intro: cv_kept_trans)
qed simp

lemma fold_store_pixel:
  "canvas_wf cv \<Longrightarrow> \<forall>i\<in>set is. i < cv_pixels cv \<Longrightarrow> cv_buffer cv \<noteq> None \<Longrightarrow> j < cv_pixels cv \<Longrightarrow>
   cv_pixel (fold (cv_store c) is cv) j = (if j \<in> set is then quantise (cv_format cv) c else cv_pixel cv j)"
proof (induction "is" arbitrary: cv)
  case (Cons i "is")
  have k: "cv_kept cv (cv_store c i cv)" using Cons.prems by (intro cv_store_kept) auto
  show ?case
    using Cons.prems Cons.IH [of "cv_store c i cv"] cv_kept_fields [OF k] by (auto simp: cv_store_pixel)
qed simp

section \<open>Coordinates\<close>

lemma sint16_bounds: "- 32768 \<le> sint (x :: u16)" "sint (x :: u16) \<le> 32767"
  using sint_ge [of x] sint_lt [of x] by simp_all

lemma sint16_of_int: "- 32768 \<le> k \<Longrightarrow> k \<le> 32767 \<Longrightarrow> sint (of_int k :: u16) = k"
  by (simp add: signed_of_int signed_take_bit_int_eq_self)

lemma small_product:
  assumes "0 \<le> a" "a \<le> 32767" "0 \<le> b" "b \<le> 32767"
  shows "0 \<le> a * b" "a * b \<le> (1073676289 :: int)"
  using assms mult_mono [of a 32767 b 32767] by simp_all

lemma cv_pixels_wf: "canvas_wf cv \<Longrightarrow> int (cv_pixels cv) = sint (m_width cv) * sint (m_height cv)"
  using small_product [of "sint (m_width cv)" "sint (m_height cv)"] sint16_bounds
  by (simp add: cv_pixels_def canvas_wf_def)

lemma cv_offset_wf:
  assumes "canvas_wf cv" "on_surface cv x y"
  shows "int (cv_offset cv x y) = sint y * sint (m_width cv) + sint x" and "cv_offset cv x y < cv_pixels cv"
proof -
  let ?w = "sint (m_width cv)" and ?h = "sint (m_height cv)"
  have b: "0 \<le> sint x" "sint x < ?w" "0 \<le> sint y" "sint y < ?h"
    using assms(2) by (auto simp: on_surface_def)
  have p: "0 \<le> sint y * ?w" "sint y * ?w \<le> 1073676289"
    using small_product [of "sint y" ?w] b sint16_bounds [of "m_width cv"] sint16_bounds [of y] by simp_all
  have "sint y * ?w + sint x < (sint y + 1) * ?w"
    using b by (simp add: distrib_right)
  also have "\<dots> \<le> ?h * ?w"
    using b by (intro mult_right_mono) simp_all
  finally have lt: "sint y * ?w + sint x < ?w * ?h"
    by (simp add: mult.commute)
  show o: "int (cv_offset cv x y) = sint y * ?w + sint x"
    using p b sint16_bounds [of x] by (simp add: cv_offset_def)
  show "cv_offset cv x y < cv_pixels cv"
    using lt o cv_pixels_wf [OF assms(1)] by linarith
qed

lemma cv_offset_inj:
  assumes "canvas_wf cv" "on_surface cv x y" "on_surface cv x' y'"
  shows "cv_offset cv x y = cv_offset cv x' y' \<longleftrightarrow> x = x' \<and> y = y'"
proof
  assume "cv_offset cv x y = cv_offset cv x' y'"
  then have e: "sint x + sint (m_width cv) * sint y = sint x' + sint (m_width cv) * sint y'"
    using cv_offset_wf(1) [OF assms(1,2)] cv_offset_wf(1) [OF assms(1,3)] by (simp add: algebra_simps)
  have b: "0 \<le> sint x" "sint x < sint (m_width cv)" "0 \<le> sint x'" "sint x' < sint (m_width cv)"
    using assms(2,3) by (auto simp: on_surface_def)
  have "sint y = sint y'"
    using arg_cong [OF e, of "\<lambda>n. n div sint (m_width cv)"] b by simp
  moreover have "sint x = sint x'"
    using arg_cong [OF e, of "\<lambda>n. n mod sint (m_width cv)"] b by simp
  ultimately show "x = x' \<and> y = y'" by (simp add: signed_word_eqI)
qed simp

text \<open>The buffer keeps its first row length, so a quarter turn fits only a square surface.\<close>

definition rotation_fits :: "canvas \<Rightarrow> bool" where
  "rotation_fits cv \<longleftrightarrow> (m_rotation cv = 1 \<or> m_rotation cv = 3 \<longrightarrow> m_width cv = m_height cv)"

lemma sint16_minus_1_minus:
  fixes a b :: u16
  assumes "0 \<le> sint b" "sint b < sint a"
  shows "sint (a - 1 - b) = sint a - 1 - sint b"
proof -
  have "a - 1 - b = of_int (sint a - 1 - sint b)"
    by (simp add: signed_word_eqI)
  then show ?thesis
    using assms sint16_bounds [of a] by (simp only:) (rule sint16_of_int; simp)
qed

lemma rotate_on_surface:
  assumes "rotation_fits cv" "on_surface cv x y"
  shows "on_surface cv (fst (cv_rotate cv x y)) (snd (cv_rotate cv x y))"
  using assms by (auto simp: on_surface_def cv_rotate_def rotation_fits_def sint16_minus_1_minus)

lemma rotate_inj: "cv_rotate cv x y = cv_rotate cv x' y' \<longleftrightarrow> x = x' \<and> y = y'"
  by (auto simp: cv_rotate_def)

section \<open>Single pixels\<close>

text \<open>The colour a pixel takes.\<close>

definition painted :: "pixel_fmt \<Rightarrow> u32 \<Rightarrow> u32 \<Rightarrow> u32" where
  "painted fmt c old = (if drop_bit 24 c = 0 then old else quantise fmt (blendARGB c old))"

lemma drop_24_and_FF: "drop_bit 24 (c :: u32) AND 0xFF = drop_bit 24 c"
  unfolding mask8_numeral by (rule bit_word_eqI) (auto simp: bit_simps dest: bit_imp_le_length)

lemma blend_opaque: "drop_bit 24 c = 0xFF \<Longrightarrow> blendARGB c old = c"
  by (simp add: blendARGB_def drop_24_and_FF)

lemma alpha_le: "drop_bit 24 (c :: u32) \<le> 0xFF"
  using word_and_le1 [of "drop_bit 24 c" "0xFF"] by (simp add: drop_24_and_FF)

lemma getPixelRaw_pixel:
  "canvas_wf cv \<Longrightarrow> on_surface cv x y \<Longrightarrow> getPixelRaw cv x y = Some (cv_pixel cv (cv_offset cv x y))"
  by (auto simp: getPixelRaw_def cv_pixel_def Let_def cv_offset_wf canvas_wf_inside split: option.splits)

lemma setPixelRaw_store:
  assumes "canvas_wf cv" "on_surface cv x y"
  shows "setPixelRaw x y c cv =
    (if drop_bit 24 c = 0 then cv else cv_store (blendARGB c (cv_pixel cv (cv_offset cv x y))) (cv_offset cv x y) cv)"
proof (cases "cv_buffer cv")
  case None
  then show ?thesis by (simp add: setPixelRaw_def cv_store_def)
next
  case (Some buf)
  show ?thesis
  proof (cases "drop_bit 24 c = 0xFF")
    case True
    then show ?thesis using Some by (simp add: setPixelRaw_def blend_opaque)
  next
    case False
    then have "drop_bit 24 c < 0xFF" using alpha_le [of c] by (simp add: order_less_le)
    then show ?thesis using Some assms False by (auto simp: setPixelRaw_def getPixelRaw_pixel Let_def)
  qed
qed

lemma setPixelRaw_kept: "canvas_wf cv \<Longrightarrow> on_surface cv x y \<Longrightarrow> cv_kept cv (setPixelRaw x y c cv)"
  by (simp add: setPixelRaw_store cv_store_kept cv_offset_wf)

lemma setPixelRaw_pixel:
  "canvas_wf cv \<Longrightarrow> cv_buffer cv \<noteq> None \<Longrightarrow> on_surface cv x y \<Longrightarrow> j < cv_pixels cv \<Longrightarrow>
   cv_pixel (setPixelRaw x y c cv) j =
     (if j = cv_offset cv x y then painted (cv_format cv) c (cv_pixel cv j) else cv_pixel cv j)"
  by (auto simp: setPixelRaw_store painted_def cv_store_pixel cv_offset_wf)

lemma cv_drawPixel_raw:
  "on_surface cv x y \<Longrightarrow> cv_drawPixel x y c cv = setPixelRaw (fst (cv_rotate cv x y)) (snd (cv_rotate cv x y)) c cv"
  by (simp add: cv_drawPixel_def split: prod.splits)

lemma cv_getPixel_raw:
  "on_surface cv x y \<Longrightarrow> cv_getPixel cv x y = getPixelRaw cv (fst (cv_rotate cv x y)) (snd (cv_rotate cv x y))"
  by (simp add: cv_getPixel_def split: prod.splits)

lemma cv_drawPixel_kept: "canvas_wf cv \<Longrightarrow> rotation_fits cv \<Longrightarrow> cv_kept cv (cv_drawPixel x y c cv)"
  using rotate_on_surface [of cv x y]
  by (cases "on_surface cv x y") (auto simp: cv_drawPixel_raw intro: setPixelRaw_kept, simp add: cv_drawPixel_def)

text \<open>C28: A pixel drawn on a canvas of any of the five formats reads back as the colour the format keeps of it, blended
  over what was there when it is translucent; no other pixel of the surface changes, and nothing of the canvas but
  its buffer does. It holds for every rotation the surface fits, which a quarter turn of a surface that is not
  square does not.\<close>

theorem canvas_pixel_roundtrip:
  assumes wf: "canvas_wf cv" and fits: "rotation_fits cv" and buf: "cv_buffer cv \<noteq> None"
    and on: "on_surface cv x y" and on': "on_surface cv x' y'"
  shows "cv_getPixel (cv_drawPixel x y c cv) x' y' =
      (if x' = x \<and> y' = y then map_option (painted (cv_format cv) c) (cv_getPixel cv x y) else cv_getPixel cv x' y')
    \<and> cv_kept cv (cv_drawPixel x y c cv)"
proof (intro conjI)
  obtain a b where ab: "cv_rotate cv x y = (a, b)" by (metis surj_pair)
  obtain a' b' where ab': "cv_rotate cv x' y' = (a', b')" by (metis surj_pair)
  have s: "on_surface cv a b" "on_surface cv a' b'"
    using rotate_on_surface [OF fits on] rotate_on_surface [OF fits on'] ab ab' by auto
  have k: "cv_kept cv (setPixelRaw a b c cv)" using wf s by (simp add: setPixelRaw_kept)
  have "(a', b') = (a, b) \<longleftrightarrow> x' = x \<and> y' = y"
    using rotate_inj [of cv x' y' x y] ab ab' by auto
  then show "cv_getPixel (cv_drawPixel x y c cv) x' y' =
      (if x' = x \<and> y' = y then map_option (painted (cv_format cv) c) (cv_getPixel cv x y) else cv_getPixel cv x' y')"
    using s wf buf on on' ab ab' cv_kept_fields [OF k]
    by (auto simp: cv_drawPixel_raw cv_getPixel_raw getPixelRaw_pixel setPixelRaw_pixel cv_offset_wf cv_offset_inj)
  show "cv_kept cv (cv_drawPixel x y c cv)"
    using wf fits by (rule cv_drawPixel_kept)
qed

lemma sint16_nonneg: "0 \<le> sint (w :: u16) \<Longrightarrow> sint w = int (unat w)"
proof -
  assume "0 \<le> sint w"
  then have "take_bit 16 (sint w) = sint w"
    using sint16_bounds [of w] by (simp add: take_bit_int_eq_self)
  moreover have "uint w = take_bit 16 (sint w)"
    using uint_sint [of w] by simp
  ultimately show ?thesis by simp
qed

lemma canvas_new_wf: "0 \<le> sint w \<Longrightarrow> 0 \<le> sint h \<Longrightarrow> canvas_wf (canvas_new w h fmt a ok)"
proof -
  assume b: "0 \<le> sint w" "0 \<le> sint h"
  then have "nat (sint w * sint h mod 2 ^ 64) = unat w * unat h"
    using small_product [of "sint w" "sint h"] sint16_bounds [of w] sint16_bounds [of h]
    by (simp add: sint16_nonneg nat_mult_distrib)
  then show ?thesis
    using b by (auto simp: canvas_wf_def canvas_new_def Let_def gfx.defs canvas.defs cv_pixels_def gfx_new_def
        split: option.splits)
qed

section \<open>A quarter turn leaves the buffer\<close>

lemma pixel_outside:
  "fmt \<noteq> BW \<Longrightarrow> length buf = bufferBytes fmt n \<Longrightarrow> n \<le> i \<Longrightarrow> \<not> pixel_inside fmt i buf"
  by (cases fmt) (auto simp: pixel_inside_def pixel_cell_def bufferBytes_def)

lemma store_outside: "cv_buffer cv = Some buf \<Longrightarrow> \<not> pixel_inside (cv_format cv) i buf \<Longrightarrow> cv_outside (cv_store c i cv)"
  by (simp add: cv_store_def)

lemma setPixelRaw_opaque: "drop_bit 24 c = 0xFF \<Longrightarrow> setPixelRaw x y c cv = cv_store c (cv_offset cv x y) cv"
  by (auto simp: setPixelRaw_def cv_store_def)

definition turned :: "u8 \<Rightarrow> u16 \<Rightarrow> u16 \<Rightarrow> pixel_fmt \<Rightarrow> canvas" where
  "turned r w h fmt = setRotation r (canvas_new w h fmt True True)"

lemma bufferBytes_pos: "0 < n \<Longrightarrow> 0 < bufferBytes fmt n"
  by (cases fmt) (auto simp: bufferBytes_def)

lemma turned_fields:
  assumes "r = 1 \<or> r = 3" "0 < sint w" "0 < sint h"
  shows "m_rotation (turned r w h fmt) = r" "m_width (turned r w h fmt) = h" "m_height (turned r w h fmt) = w"
    "cv_format (turned r w h fmt) = fmt"
    "cv_buffer (turned r w h fmt) = Some (replicate (bufferBytes fmt (unat w * unat h)) 0)"
proof -
  have "0 < unat w" "0 < unat h"
    using assms(2,3) sint16_nonneg [of w] sint16_nonneg [of h] by linarith+
  then have "0 < unat w * unat h" by simp
  then have "0 < bufferBytes fmt (unat w * unat h)"
    by (rule bufferBytes_pos)
  moreover have "r mod 4 = r"
    using assms(1) by auto
  ultimately show "m_rotation (turned r w h fmt) = r" "m_width (turned r w h fmt) = h" "m_height (turned r w h fmt) = w"
    "cv_format (turned r w h fmt) = fmt"
    "cv_buffer (turned r w h fmt) = Some (replicate (bufferBytes fmt (unat w * unat h)) 0)"
    using assms(1)
    by (auto simp: turned_def setRotation_def canvas_new_def Let_def gfx.defs canvas.defs gfx_new_def)
qed

lemma turned_escape:
  assumes "r = 1 \<or> r = 3" "0 < sint w" "0 < sint h" "fmt \<noteq> BW" "drop_bit 24 c = 0xFF"
    and on: "on_surface (turned r w h fmt) x y"
    and rot: "cv_rotate (turned r w h fmt) x y = (a, b)"
    and far: "sint b * sint h + sint a < 0 \<or> sint w * sint h \<le> sint b * sint h + sint a"
  shows "cv_outside (cv_drawPixel x y c (turned r w h fmt))"
proof -
  let ?cv = "turned r w h fmt" and ?k = "sint b * sint h + sint a"
  note f = turned_fields [OF assms(1-3), of fmt]
  have wh: "int (unat w * unat h) = sint w * sint h"
    using assms(2,3) by (simp add: sint16_nonneg)
  have area: "sint w * sint h \<le> 1073676289"
    using small_product [of "sint w" "sint h"] assms(2,3) sint16_bounds [of w] sint16_bounds [of h] by simp
  have low: "- 2147483648 \<le> ?k" "?k \<le> 2147483648"
  proof -
    have "\<bar>sint b\<bar> * \<bar>sint h\<bar> \<le> 32768 * 32768"
      using sint16_bounds [of b] sint16_bounds [of h] by (intro mult_mono) auto
    then have "\<bar>sint b * sint h\<bar> \<le> 1073741824" by (simp add: abs_mult)
    then show "- 2147483648 \<le> ?k" "?k \<le> 2147483648"
      using sint16_bounds [of a] by linarith+
  qed
  have "sint w * sint h \<le> ?k mod 2 ^ 64"
  proof (cases "?k < 0")
    case True
    then have "?k mod 2 ^ 64 = ?k + 2 ^ 64"
      using low mod_add_self2 [of ?k "2 ^ 64"] mod_pos_pos_trivial [of "?k + 2 ^ 64" "2 ^ 64"] by simp
    then show ?thesis using area low by simp
  next
    case False
    then show ?thesis using far low by simp
  qed
  then have "unat w * unat h \<le> cv_offset ?cv a b"
    using wh f(2) by (simp add: cv_offset_def le_nat_iff)
  then have "\<not> pixel_inside (cv_format ?cv) (cv_offset ?cv a b) (replicate (bufferBytes fmt (unat w * unat h)) 0)"
    using assms(4) f(4) by (intro pixel_outside [where n = "unat w * unat h"]) simp_all
  then show ?thesis
    using on rot assms(5) f(5) by (auto simp: cv_drawPixel_raw setPixelRaw_opaque intro: store_outside)
qed

lemma sint16_minus1: "0 < sint (a :: u16) \<Longrightarrow> sint (a - 1) = sint a - 1"
  using sint16_minus_1_minus [of 0 a] by simp

lemma sint16_diff:
  fixes a b :: u16
  assumes "0 \<le> sint a" "0 \<le> sint b" shows "sint (a - b) = sint a - sint b"
proof -
  have "a - b = of_int (sint a - sint b)" by (simp add: signed_word_eqI)
  then show ?thesis using assms sint16_bounds [of a] sint16_bounds [of b] by (simp only:) (rule sint16_of_int; simp)
qed

text \<open>C29: \<^verbatim>\<open>setRotation\<close> swaps the width and the height of a canvas while its buffer keeps its shape, and
  \<^verbatim>\<open>drawPixel\<close> turns its coordinates by the swapped sides. On every canvas that is not square, of any format of
  whole bytes, a quarter turn leaves a position that passes the clip and is written outside the allocation.\<close>

theorem canvas_quarter_turn_writes_outside:
  assumes "r = 1 \<or> r = 3" "0 < sint w" "0 < sint h" "w \<noteq> h" "fmt \<noteq> BW" "drop_bit 24 c = 0xFF"
  shows "\<exists>x y. on_surface (turned r w h fmt) x y \<and> cv_outside (cv_drawPixel x y c (turned r w h fmt))"
proof -
  note f = turned_fields [OF assms(1-3), of fmt] and m = sint16_minus1 [OF assms(2)] sint16_minus1 [OF assms(3)]
  have ne: "sint w \<noteq> sint h" using assms(4) signed_word_eqI by blast
  note esc = turned_escape [OF assms(1-3,5,6)]
  show ?thesis
  proof (cases "(r = 1) = (sint w < sint h)")
    case True
    have on: "on_surface (turned r w h fmt) (if r = 1 then h - 1 else 0) (if r = 1 then 0 else w - 1)"
      using assms(2,3) f m by (simp add: on_surface_def)
    have "cv_rotate (turned r w h fmt) (if r = 1 then h - 1 else 0) (if r = 1 then 0 else w - 1)
        = (if r = 1 then (h - 1, h - 1) else (w - 1, w - 1))"
      using assms(1) f by (auto simp: cv_rotate_def)
    moreover have "sint w * sint h \<le> sint (h - 1) * sint h + sint (h - 1)" if "sint w < sint h"
    proof -
      have "sint w * sint h \<le> (sint h - 1) * sint h" using that assms(3) by (intro mult_right_mono) simp_all
      then show ?thesis unfolding m using assms(3) by linarith
    qed
    moreover have "sint w * sint h \<le> sint (w - 1) * sint h + sint (w - 1)" if "sint h < sint w"
      using that m by (simp add: left_diff_distrib)
    ultimately show ?thesis
      using esc [OF on, of "if r = 1 then h - 1 else w - 1" "if r = 1 then h - 1 else w - 1"] on True ne assms(1)
      by (cases "r = 1") (auto intro!: exI)
  next
    case False
    have on: "on_surface (turned r w h fmt) (if r = 1 then 0 else h - 1) (if r = 1 then w - 1 else 0)"
      using assms(2,3) f m by (simp add: on_surface_def)
    have "cv_rotate (turned r w h fmt) (if r = 1 then 0 else h - 1) (if r = 1 then w - 1 else 0)
        = (if r = 1 then (h - w, 0) else (0, w - h))"
      using assms(1) f by (auto simp: cv_rotate_def)
    moreover have "sint (h - w) < 0" if "sint h < sint w"
      using that assms(2,3) by (simp add: sint16_diff)
    moreover have "sint (w - h) * sint h < 0" if "sint w < sint h"
      using that assms(2,3) by (simp add: sint16_diff mult_neg_pos)
    ultimately show ?thesis
      using esc [OF on, of "if r = 1 then h - w else 0" "if r = 1 then 0 else w - h"] on False ne assms(1)
      by (cases "r = 1") (auto intro!: exI)
  qed
qed

theorem canvas_quarter_turn_writes_outside_witness:
  "\<exists>x y. on_surface (turned 1 3 2 RGB565) x y \<and> cv_outside (cv_drawPixel x y GFX_WHITE (turned 1 3 2 RGB565))"
  by (rule canvas_quarter_turn_writes_outside) simp_all

section \<open>Runs of pixels\<close>

lemma filter_upto: "filter (\<lambda>i. a \<le> i \<and> i < b) [l..u] = [max l a..min u (b - 1)]"
  by (rule sorted_distinct_set_unique) (auto intro: sorted_wrt_filter)

lemma map_nat_upto: "0 \<le> k + a \<Longrightarrow> map (\<lambda>i. nat (k + i)) [a..b] = [nat (k + a)..<nat (k + b + 1)]"
  by (rule nth_equalityI) auto

text \<open>A fold whose steps are no-ops outside \<open>P\<close> and keep the shape of the canvas inside.\<close>

lemma fold_kept_filter:
  assumes "\<And>i cv'. i \<in> set is \<Longrightarrow> cv_kept cv cv' \<Longrightarrow> f i cv' = (if P i then g i cv' else cv')"
    and "\<And>i cv'. i \<in> set is \<Longrightarrow> P i \<Longrightarrow> cv_kept cv cv' \<Longrightarrow> cv_kept cv' (g i cv')"
    and "cv_kept cv cv0"
  shows "fold f is cv0 = fold g (filter P is) cv0"
  using assms
proof (induction "is" arbitrary: cv0)
  case (Cons i "is")
  have "cv_kept cv (if P i then g i cv0 else cv0)"
    using Cons.prems(2) [of i cv0] Cons.prems(3) by (auto intro: cv_kept_trans)
  then show ?case using Cons by auto
qed simp

lemma on_surface_of_int:
  "- 32768 \<le> i \<Longrightarrow> i \<le> 32767 \<Longrightarrow> on_surface cv (of_int i) y \<longleftrightarrow>
     0 \<le> i \<and> i < sint (m_width cv) \<and> 0 \<le> sint y \<and> sint y < sint (m_height cv)"
  by (auto simp: on_surface_def sint16_of_int)

text \<open>A row of opaque pixels, clipped, is a run of stores.\<close>

lemma row_of_pixels:
  assumes wf: "canvas_wf cv" and op: "drop_bit 24 c = 0xFF"
    and y: "0 \<le> sint y" "sint y < sint (m_height cv)" and b: "- 32768 \<le> l" "u \<le> 32767"
  shows "fold (\<lambda>i. cv_setPixel (of_int i) y c) [l..u] cv =
    fold (cv_store c) (map (\<lambda>i. nat (sint y * sint (m_width cv) + i)) [max l 0..min u (sint (m_width cv) - 1)]) cv"
proof -
  let ?P = "\<lambda>i. 0 \<le> i \<and> i < sint (m_width cv)" and ?k = "sint y * sint (m_width cv)"
  have P: "cv_offset cv (of_int i) y = nat (?k + i)" "nat (?k + i) < cv_pixels cv"
    if "?P i" "i \<in> set [l..u]" for i
  proof -
    have on: "on_surface cv (of_int i) y" using that y b by (simp add: on_surface_of_int)
    show o: "cv_offset cv (of_int i) y = nat (?k + i)"
      using cv_offset_wf(1) [OF wf on] that b by (simp add: sint16_of_int)
    show "nat (?k + i) < cv_pixels cv" using cv_offset_wf(2) [OF wf on] o by simp
  qed
  have "fold (\<lambda>i. cv_setPixel (of_int i) y c) [l..u] cv = fold (\<lambda>i. cv_store c (nat (?k + i))) (filter ?P [l..u]) cv"
  proof (rule fold_kept_filter [where cv = cv])
    fix i cv' assume i: "i \<in> set [l..u]" and k: "cv_kept cv cv'"
    note f = cv_kept_fields [OF k]
    show "cv_setPixel (of_int i) y c cv' = (if ?P i then cv_store c (nat (?k + i)) cv' else cv')"
      using i b y f P(1) [OF _ i] by (simp add: cv_setPixel_def on_surface_of_int setPixelRaw_opaque op)
    assume "?P i"
    then show "cv_kept cv' (cv_store c (nat (?k + i)) cv')"
      using f wf P(2) [OF _ i] by (intro cv_store_kept) simp_all
  qed simp
  then show ?thesis by (simp add: filter_upto fold_map o_def)
qed

lemma cv_drawPixel_unrotated: "m_rotation cv = 0 \<Longrightarrow> cv_drawPixel x y c cv = cv_setPixel x y c cv"
  by (simp add: cv_drawPixel_def cv_setPixel_def cv_rotate_def)

lemma cv_setPixel_kept: "canvas_wf cv \<Longrightarrow> cv_kept cv (cv_setPixel x y c cv)"
  by (simp add: cv_setPixel_def setPixelRaw_kept)

lemma fold_drawPixel_unrotated:
  assumes "canvas_wf cv" "m_rotation cv = 0"
  shows "fold (\<lambda>i. cv_drawPixel (p i) (q i) c) is cv = fold (\<lambda>i. cv_setPixel (p i) (q i) c) is cv"
proof -
  have "fold (\<lambda>i. cv_drawPixel (p i) (q i) c) is cv = fold (\<lambda>i. cv_setPixel (p i) (q i) c) (filter (\<lambda>_. True) is) cv"
  proof (rule fold_kept_filter [where cv = cv])
    fix i cv' assume "cv_kept cv cv'"
    note f = cv_kept_fields [OF this]
    show "cv_drawPixel (p i) (q i) c cv' = (if True then cv_setPixel (p i) (q i) c cv' else cv')"
      using f assms by (simp add: cv_drawPixel_unrotated)
    show "cv_kept cv' (cv_setPixel (p i) (q i) c cv')"
      using f assms by (simp add: cv_setPixel_kept)
  qed simp
  then show ?thesis by simp
qed

lemma fold_store_None: "cv_buffer cv = None \<Longrightarrow> fold (cv_store c) is cv = cv"
  by (induction "is") (simp_all add: cv_store_def)

lemma fold_setPixel_clipped:
  assumes "\<And>i cv'. i \<in> set is \<Longrightarrow> cv_kept cv cv' \<Longrightarrow> \<not> on_surface cv' (p i) (q i)"
  shows "fold (\<lambda>i. cv_setPixel (p i) (q i) c) is cv = cv"
proof -
  have "fold (\<lambda>i. cv_setPixel (p i) (q i) c) is cv = fold (\<lambda>i cv. cv) (filter (\<lambda>_. False) is) cv"
    by (rule fold_kept_filter [where cv = cv]) (simp_all add: cv_setPixel_def assms)
  then show ?thesis by simp
qed

lemma sint16_add:
  fixes a b :: u16
  assumes "- 32768 \<le> sint a + sint b" "sint a + sint b \<le> 32767" shows "sint (a + b) = sint a + sint b"
proof -
  have "a + b = of_int (sint a + sint b)" by (simp add: signed_word_eqI)
  then show ?thesis using assms by (simp only:) (rule sint16_of_int)
qed

text \<open>On an unrotated canvas of any format the fast horizontal line is the same as drawing its pixels one at a
  time, clipping included, for an opaque colour.\<close>

theorem canvas_hline_is_pixels:
  assumes wf: "canvas_wf cv" and rot: "m_rotation cv = 0" and op: "drop_bit 24 c = 0xFF"
    and len: "sint x + sint w \<le> 32768"
  shows "cv_drawFastHLine x y w c cv = fold (\<lambda>i. cv_drawPixel (of_int i) y c) [sint x..sint x + sint w - 1] cv"
proof -
  let ?W = "sint (m_width cv)" and ?k = "sint y * sint (m_width cv)"
  let ?R = "fold (\<lambda>i. cv_setPixel (of_int i) y c) [sint x..sint x + sint w - 1] cv"
  have W: "0 \<le> ?W" using wf by (simp add: canvas_wf_def)
  have "cv_drawFastHLine x y w c cv = ?R"
  proof (cases "cv_buffer cv = None \<or> sint w \<le> 0")
    case True
    then show ?thesis
    proof
      assume "cv_buffer cv = None"
      then have "fold (\<lambda>i. cv_setPixel (of_int i) y c) is cv = cv" for "is"
        by (induction "is") (simp_all add: cv_setPixel_def setPixelRaw_def)
      then show ?thesis using True by (simp add: cv_drawFastHLine_def)
    qed (simp add: cv_drawFastHLine_def)
  next
    case False
    define xc where "xc = (if sint x < 0 then 0 else x)"
    define w1 where "w1 = (if sint x < 0 then w + x else w)"
    define w2 where "w2 = (if sint xc + sint w1 > ?W then m_width cv - xc else w1)"
    have xc: "sint xc = max (sint x) 0" by (simp add: xc_def max_def)
    have w1: "sint w1 = (if sint x < 0 then sint w + sint x else sint w)"
      using False sint16_bounds [of x] sint16_bounds [of w] by (auto simp: w1_def intro!: sint16_add)
    have w2: "sint w2 = (if sint xc + sint w1 > ?W then ?W - sint xc else sint w1)"
      using W xc by (simp add: w2_def sint16_diff)
    have end_eq: "sint xc + sint w2 = min (sint x + sint w) ?W"
      unfolding w2 w1 xc by (simp add: min_def max_def)
    have lhs: "cv_drawFastHLine x y w c cv = (if sint y < 0 \<or> sint y \<ge> sint (m_height cv) \<or> sint w2 \<le> 0 then cv
        else fold (cv_store c) [cv_offset cv xc y..<cv_offset cv xc y + nat (sint w2)] cv)"
      using False op unfolding cv_drawFastHLine_def w2_def w1_def xc_def
      by (cases "cv_buffer cv") (simp_all add: Let_def)
    show ?thesis
    proof (cases "0 \<le> sint y \<and> sint y < sint (m_height cv)")
      case True
      have R: "?R = fold (cv_store c) [nat (?k + sint xc)..<nat (?k + (sint xc + sint w2))] cv"
      proof -
        have k: "0 \<le> ?k" using True W by simp
        have "map (\<lambda>i. nat (?k + i)) [max (sint x) 0..min (sint x + sint w - 1) (?W - 1)]
            = [nat (?k + sint xc)..<nat (?k + (sint xc + sint w2))]"
        proof -
          have "?k + min (sint x + sint w - 1) (?W - 1) + 1 = ?k + (sint xc + sint w2)"
            unfolding end_eq by (simp add: min_def)
          moreover have "0 \<le> ?k + max (sint x) 0" using k by simp
          ultimately show ?thesis unfolding xc by (simp only: map_nat_upto)
        qed
        then show ?thesis
          using True len sint16_bounds [of x] by (subst row_of_pixels [OF wf op]) auto
      qed
      show ?thesis
      proof (cases "sint w2 \<le> 0")
        case True
        then show ?thesis unfolding lhs R by simp
      next
        case False
        then have "on_surface cv xc y"
          using True end_eq xc by (simp add: on_surface_def)
        then have "int (cv_offset cv xc y) = ?k + sint xc"
          by (rule cv_offset_wf(1) [OF wf])
        then have "nat (?k + sint xc) = cv_offset cv xc y"
          "nat (?k + (sint xc + sint w2)) = cv_offset cv xc y + nat (sint w2)"
          using False by linarith+
        then show ?thesis using True False unfolding lhs R by simp
      qed
    next
      case False
      then have "?R = cv"
        by (intro fold_setPixel_clipped) (auto simp: on_surface_def dest: cv_kept_fields(2))
      then show ?thesis using False unfolding lhs by auto
    qed
  qed
  then show ?thesis by (simp add: fold_drawPixel_unrotated [OF wf rot])
qed

text \<open>A concrete surface.\<close>

definition small_canvas :: "pixel_fmt \<Rightarrow> canvas" where
  "small_canvas fmt = canvas_new 3 2 fmt True True"

lemma small_canvas_facts [simp]:
  "canvas_wf (small_canvas fmt)" "m_rotation (small_canvas fmt) = 0" "m_width (small_canvas fmt) = 3"
  "m_height (small_canvas fmt) = 2" "cv_format (small_canvas fmt) = fmt" "\<exists>b. cv_buffer (small_canvas fmt) = Some b"
  unfolding small_canvas_def
  by (rule canvas_new_wf, simp, simp)
    (cases fmt; simp add: canvas_new_def Let_def gfx.defs canvas.defs gfx_new_def bufferBytes_def)+

theorem canvas_pixel_roundtrip_witness:
  "\<forall>fmt. cv_getPixel (cv_drawPixel 2 1 0x80FF0000 (small_canvas fmt)) 2 1
      = map_option (painted fmt 0x80FF0000) (cv_getPixel (small_canvas fmt) 2 1)"
proof
  fix fmt
  show "cv_getPixel (cv_drawPixel 2 1 0x80FF0000 (small_canvas fmt)) 2 1
      = map_option (painted fmt 0x80FF0000) (cv_getPixel (small_canvas fmt) 2 1)"
    using canvas_pixel_roundtrip [of "small_canvas fmt" 2 1 2 1 "0x80FF0000"]
    by (simp add: rotation_fits_def on_surface_def)
qed

theorem canvas_hline_is_pixels_witness:
  "\<forall>fmt. cv_drawFastHLine (- 1) 1 9 GFX_WHITE (small_canvas fmt)
      = fold (\<lambda>i. cv_drawPixel (of_int i) 1 GFX_WHITE) [-1..7] (small_canvas fmt)"
proof
  fix fmt
  show "cv_drawFastHLine (- 1) 1 9 GFX_WHITE (small_canvas fmt)
      = fold (\<lambda>i. cv_drawPixel (of_int i) 1 GFX_WHITE) [-1..7] (small_canvas fmt)"
    using canvas_hline_is_pixels [of "small_canvas fmt" GFX_WHITE "- 1" 9 1] by simp
qed

text \<open>A translucent black over white: the horizontal line stores the colour as it is, the vertical one blends.\<close>

lemma hline_ignores_alpha:
  "cv_getPixel (cv_drawFastHLine 0 0 1 0x80000000 (cv_fillScreen GFX_WHITE (small_canvas ARGB8888))) 0 0 = Some 0x80000000"
  "cv_getPixel (cv_drawFastVLine 0 0 1 0x80000000 (cv_fillScreen GFX_WHITE (small_canvas ARGB8888))) 0 0 = Some 0xFF7F7F7F"
  by code_simp+

end
