(* ===== verification/GfxDraw.thy ===== *)
theory GfxDraw
  imports CanvasLaws "HOL-Library.Monad_Syntax"
begin

text \<open>
  The drawing primitives of \<^verbatim>\<open>LinuxGFX\<close> (libs/libgfx/GFX.cpp) on a canvas: spans, lines, circles, rounded
  rectangles, triangles, bitmaps and characters. Their counters are 16-bit, and several of their loops do not
  end for every argument: those are \<open>partial_function (option)\<close>, where \<open>None\<close> is a call that never returns, and
  the primitives that use them are computed in the option monad. The strokes drawn with floating point
  (wide and anti-aliased ones, arcs, textured triangles) are not modelled.
\<close>

section \<open>Counted loops\<close>

text \<open>\<^verbatim>\<open>for (int16_t i = i0; i < bound; i++)\<close>, where \<^verbatim>\<open>bound\<close> is an \<^verbatim>\<open>int\<close> and the counter wraps.\<close>

partial_function (option) int16_for :: "int \<Rightarrow> (u16 \<Rightarrow> 's \<Rightarrow> 's option) \<Rightarrow> u16 \<Rightarrow> 's \<Rightarrow> 's option" where
  "int16_for bound body i s =
     (if sint i < bound then Option.bind (body i s) (int16_for bound body (i + 1)) else Some s)"

definition smin :: "u16 \<Rightarrow> u16 \<Rightarrow> u16" where "smin a b = (if sint b < sint a then b else a)"
definition smax :: "u16 \<Rightarrow> u16 \<Rightarrow> u16" where "smax a b = (if sint a < sint b then b else a)"

text \<open>\<^verbatim>\<open>for (int16_t i = a; i < b; i++)\<close> with 16-bit ends, which always stops.\<close>

definition span :: "u16 \<Rightarrow> u16 \<Rightarrow> u16 list" where
  "span a b = map of_int [sint a..sint b - 1]"

section \<open>Spans\<close>

text \<open>A write through \<^verbatim>\<open>m_pBuffer\<close>, blended over what is there.\<close>

definition cv_blend_at :: "u32 \<Rightarrow> nat \<Rightarrow> canvas \<Rightarrow> canvas" where
  "cv_blend_at c i cv =
     (case cv_buffer cv of None \<Rightarrow> cv
      | Some buf \<Rightarrow>
          if pixel_inside ARGB8888 i buf then cv_store (blendARGB c (get_pixel ARGB8888 buf i)) i cv
          else cv\<lparr>cv_outside := True\<rparr>)"

definition stridePx :: "canvas \<Rightarrow> int" where "stridePx cv = sint (m_width cv) mod 2 ^ 32"

definition pBuffer_index :: "canvas \<Rightarrow> u16 \<Rightarrow> u16 \<Rightarrow> nat" where
  "pBuffer_index cv x y = nat ((sint y * stridePx cv) mod 2 ^ 32 + sint x mod 2 ^ 32)"

definition writeFastVLine :: "u16 \<Rightarrow> u16 \<Rightarrow> u16 \<Rightarrow> u32 \<Rightarrow> canvas \<Rightarrow> canvas option" where
  "writeFastVLine x y h color cv =
     (if drop_bit 24 color = 0 then Some cv
      else if cv_mapped cv then
        (if sint x < 0 \<or> sint x \<ge> sint (m_width cv) then Some cv
         else
           let ys = smax 0 y; ye = smin (m_height cv) (y + h) in
           if sint ys \<ge> sint ye then Some cv
           else
             let p = pBuffer_index cv x ys
             in Some (fold (\<lambda>k. cv_blend_at color (p + k * nat (stridePx cv))) [0..<nat (sint ye - sint ys)] cv))
      else int16_for (sint y + sint h) (\<lambda>i cv. Some (writePixel x i color cv)) y cv)"

definition writeFastHLine :: "u16 \<Rightarrow> u16 \<Rightarrow> u16 \<Rightarrow> u32 \<Rightarrow> canvas \<Rightarrow> canvas" where
  "writeFastHLine x y w color cv =
     (if drop_bit 24 color = 0 then cv
      else if sint y < 0 \<or> sint y \<ge> sint (m_height cv) then cv
      else
        let xs = smax 0 x; xe = smin (m_width cv) (x + w) in
        if cv_mapped cv then
          (if sint xs \<ge> sint xe then cv
           else
             let p = pBuffer_index cv xs y; n = xe - xs
             in fold (\<lambda>k. cv_blend_at color (p + k)) [0..<nat (sint n)] cv)
        else fold (\<lambda>i. writePixel i y color) (span xs xe) cv)"

definition writeFillRect :: "u16 \<Rightarrow> u16 \<Rightarrow> u16 \<Rightarrow> u16 \<Rightarrow> u32 \<Rightarrow> canvas \<Rightarrow> canvas option" where
  "writeFillRect x y w h color cv =
     (if drop_bit 24 color = 0 then Some cv
      else int16_for (sint y + sint h) (\<lambda>i cv. Some (writeFastHLine x i w color cv)) y cv)"

definition fillRect :: "u16 \<Rightarrow> u16 \<Rightarrow> u16 \<Rightarrow> u16 \<Rightarrow> u32 \<Rightarrow> canvas \<Rightarrow> canvas option" where
  "fillRect x y w h c cv = writeFillRect x y w h c cv"

definition drawRect :: "u16 \<Rightarrow> u16 \<Rightarrow> u16 \<Rightarrow> u16 \<Rightarrow> u32 \<Rightarrow> canvas \<Rightarrow> canvas" where
  "drawRect x y w h c cv =
     (let cv = cv_drawFastHLine x y w c cv; cv = cv_drawFastHLine x (y + h - 1) w c cv;
          cv = cv_drawFastVLine x y h c cv
      in cv_drawFastVLine (x + w - 1) y h c cv)"

section \<open>Lines\<close>

text \<open>\<open>plot\<close> is the \<^verbatim>\<open>writePixel\<close> of the surface.\<close>

partial_function (option) line_loop :: "(u16 \<Rightarrow> u16 \<Rightarrow> 's \<Rightarrow> 's) \<Rightarrow> u16 \<Rightarrow> u16 \<Rightarrow> u16 \<Rightarrow> u16 \<Rightarrow> u16 \<Rightarrow> u16 \<Rightarrow>
    u16 \<Rightarrow> u16 \<Rightarrow> u16 \<Rightarrow> 's \<Rightarrow> 's option" where
  "line_loop plot dx dy sx sy x1 y1 err x y s =
     (let s = plot x y s in
      if x = x1 \<and> y = y1 then Some s
      else
        let e2 = 2 * err;
            (err, x) = (if sint e2 > - sint dy then (err - dy, x + sx) else (err, x));
            (err, y) = (if sint e2 < sint dx then (err + dx, y + sy) else (err, y))
        in line_loop plot dx dy sx sy x1 y1 err x y s)"

definition writeLine :: "(u16 \<Rightarrow> u16 \<Rightarrow> 's \<Rightarrow> 's) \<Rightarrow> u16 \<Rightarrow> u16 \<Rightarrow> u16 \<Rightarrow> u16 \<Rightarrow> 's \<Rightarrow> 's option" where
  "writeLine plot x0 y0 x1 y1 s =
     (let dx = of_int \<bar>sint x1 - sint x0\<bar>; dy = of_int \<bar>sint y1 - sint y0\<bar>;
          sx = (if sint x0 < sint x1 then 1 else - 1); sy = (if sint y0 < sint y1 then 1 else - 1)
      in line_loop plot dx dy sx sy x1 y1 (dx - dy) x0 y0 s)"

section \<open>Circles\<close>

lemma sint16_succ: "sint (x :: u16) < sint (y :: u16) \<Longrightarrow> sint (x + 1) = sint x + 1"
  using sint16_add [of x 1] sint16_bounds [of x] sint16_bounds [of y] by simp

lemma sint16_pred: "sint (x :: u16) < sint (y :: u16) \<Longrightarrow> sint (y - 1) = sint y - 1"
  using sint16_add [of y "- 1"] sint16_bounds [of x] sint16_bounds [of y] by simp

text \<open>The midpoint loop the circle routines share, with the counters \<^verbatim>\<open>f\<close>, \<^verbatim>\<open>ddx\<close>, \<^verbatim>\<open>ddy\<close>, \<^verbatim>\<open>x\<close>, \<^verbatim>\<open>y\<close>: the points
  \<open>(x, y)\<close> of an octant in the order they are reached.\<close>

function (sequential) circle_steps :: "u16 \<Rightarrow> u16 \<Rightarrow> u16 \<Rightarrow> u16 \<Rightarrow> u16 \<Rightarrow> (u16 \<times> u16) list" where
  "circle_steps f ddx ddy x y =
     (if sint x < sint y then
        let (y, ddy, f) = (if sint f \<ge> 0 then (y - 1, ddy + 2, f + (ddy + 2)) else (y, ddy, f));
            x = x + 1; ddx = ddx + 2; f = f + ddx
        in (x, y) # circle_steps f ddx ddy x y
      else [])"
  by pat_completeness auto
termination
  by (relation "measure (\<lambda>(f, ddx, ddy, x, y). nat (sint y - sint x))")
    (auto simp: sint16_succ sint16_pred split: if_splits)

declare circle_steps.simps [simp del]

definition circle_walk :: "u16 \<Rightarrow> (u16 \<times> u16) list" where
  "circle_walk r = circle_steps (1 - r) 1 (- 2 * r) 0 r"

definition plot_all :: "(u16 \<Rightarrow> u16 \<Rightarrow> 's \<Rightarrow> 's) \<Rightarrow> (u16 \<times> u16) list \<Rightarrow> 's \<Rightarrow> 's" where
  "plot_all plot ps = fold (\<lambda>(x, y). plot x y) ps"

definition helper_points :: "u16 \<Rightarrow> u16 \<Rightarrow> u8 \<Rightarrow> u16 \<Rightarrow> u16 \<Rightarrow> (u16 \<times> u16) list" where
  "helper_points x0 y0 c x y =
     (if c AND 4 \<noteq> 0 then [(x0 + x, y0 + y), (x0 + y, y0 + x)] else []) @
     (if c AND 2 \<noteq> 0 then [(x0 + x, y0 - y), (x0 + y, y0 - x)] else []) @
     (if c AND 8 \<noteq> 0 then [(x0 - y, y0 + x), (x0 - x, y0 + y)] else []) @
     (if c AND 1 \<noteq> 0 then [(x0 - y, y0 - x), (x0 - x, y0 - y)] else [])"

definition drawCircleHelper :: "(u16 \<Rightarrow> u16 \<Rightarrow> 's \<Rightarrow> 's) \<Rightarrow> u16 \<Rightarrow> u16 \<Rightarrow> u16 \<Rightarrow> u8 \<Rightarrow> 's \<Rightarrow> 's" where
  "drawCircleHelper plot x0 y0 r c s =
     plot_all plot (concat (map (\<lambda>(x, y). helper_points x0 y0 c x y) (circle_walk r))) s"

text \<open>The thin outline, which \<^verbatim>\<open>drawCircle\<close> draws when the stroke is one pixel wide and not anti-aliased.\<close>

definition drawCircle_thin :: "(u16 \<Rightarrow> u16 \<Rightarrow> 's \<Rightarrow> 's) \<Rightarrow> u16 \<Rightarrow> u16 \<Rightarrow> u16 \<Rightarrow> 's \<Rightarrow> 's" where
  "drawCircle_thin plot x0 y0 r s =
     plot_all plot
       ([(x0, y0 + r), (x0, y0 - r), (x0 + r, y0), (x0 - r, y0)] @
        concat (map (\<lambda>(x, y).
          [(x0 + x, y0 + y), (x0 - x, y0 + y), (x0 + x, y0 - y), (x0 - x, y0 - y),
           (x0 + y, y0 + x), (x0 - y, y0 + x), (x0 + y, y0 - x), (x0 - y, y0 - x)]) (circle_walk r))) s"

text \<open>Calls one after the other, as long as each returns.\<close>

primrec run_all :: "('s \<Rightarrow> 's option) list \<Rightarrow> 's \<Rightarrow> 's option" where
  "run_all [] s = Some s"
| "run_all (f # fs) s = Option.bind (f s) (run_all fs)"

definition fillCircleHelper :: "u16 \<Rightarrow> u16 \<Rightarrow> u16 \<Rightarrow> u8 \<Rightarrow> u16 \<Rightarrow> u32 \<Rightarrow> canvas \<Rightarrow> canvas option" where
  "fillCircleHelper x0 y0 r c delta color =
     run_all (concat (map (\<lambda>(x, y).
       (if c AND 1 \<noteq> 0 then [writeFastVLine (x0 + x) (y0 - y) (2 * y + 1 + delta) color,
                              writeFastVLine (x0 + y) (y0 - x) (2 * x + 1 + delta) color] else []) @
       (if c AND 2 \<noteq> 0 then [writeFastVLine (x0 - x) (y0 - y) (2 * y + 1 + delta) color,
                              writeFastVLine (x0 - y) (y0 - x) (2 * x + 1 + delta) color] else [])) (circle_walk r)))"

definition fillCircle :: "u16 \<Rightarrow> u16 \<Rightarrow> u16 \<Rightarrow> u32 \<Rightarrow> canvas \<Rightarrow> canvas option" where
  "fillCircle x0 y0 r color cv =
     do { cv \<leftarrow> writeFastVLine x0 (y0 - r) (2 * r + 1) color cv;
          fillCircleHelper x0 y0 r 3 0 color cv }"

section \<open>Rounded rectangles\<close>

text \<open>Integer division of the language, towards zero.\<close>

definition cdiv :: "int \<Rightarrow> int \<Rightarrow> int" where
  "cdiv a b = (if (a < 0) = (b < 0) then \<bar>a\<bar> div \<bar>b\<bar> else - (\<bar>a\<bar> div \<bar>b\<bar>))"

definition corner_radius :: "u16 \<Rightarrow> u16 \<Rightarrow> u16 \<Rightarrow> u16" where
  "corner_radius w h r =
     (let mx = of_int (cdiv (if sint w < sint h then sint w else sint h) 2) in if sint r > sint mx then mx else r)"

text \<open>The branch for strokes of one pixel.\<close>

definition drawRoundRect_thin :: "u16 \<Rightarrow> u16 \<Rightarrow> u16 \<Rightarrow> u16 \<Rightarrow> u16 \<Rightarrow> u32 \<Rightarrow> canvas \<Rightarrow> canvas option" where
  "drawRoundRect_thin x y w h r color cv =
     (let r = corner_radius w h r; plot = (\<lambda>x y. writePixel x y color) in
      do { let cv = writeFastHLine (x + r) y (w - 2 * r) color cv;
           let cv = writeFastHLine (x + r) (y + h - 1) (w - 2 * r) color cv;
           cv \<leftarrow> writeFastVLine x (y + r) (h - 2 * r) color cv;
           cv \<leftarrow> writeFastVLine (x + w - 1) (y + r) (h - 2 * r) color cv;
           let cv = drawCircleHelper plot (x + r) (y + r) r 1 cv;
           let cv = drawCircleHelper plot (x + w - r - 1) (y + r) r 2 cv;
           let cv = drawCircleHelper plot (x + w - r - 1) (y + h - r - 1) r 4 cv;
           Some (drawCircleHelper plot (x + r) (y + h - r - 1) r 8 cv) })"

definition fillRoundRect :: "u16 \<Rightarrow> u16 \<Rightarrow> u16 \<Rightarrow> u16 \<Rightarrow> u16 \<Rightarrow> u32 \<Rightarrow> canvas \<Rightarrow> canvas option" where
  "fillRoundRect x y w h r color cv =
     (let r = corner_radius w h r in
      do { cv \<leftarrow> writeFillRect (x + r) y (w - 2 * r) h color cv;
           cv \<leftarrow> fillCircleHelper (x + w - r - 1) (y + r) r 1 (h - 2 * r - 1) color cv;
           fillCircleHelper (x + r) (y + r) r 2 (h - 2 * r - 1) color cv })"

section \<open>Triangles\<close>

type_synonym corner = "u16 \<times> u16"

definition order_corners :: "corner \<Rightarrow> corner \<Rightarrow> corner \<Rightarrow> corner \<times> corner \<times> corner" where
  "order_corners p0 p1 p2 =
     (let (p0, p1) = (if sint (snd p0) > sint (snd p1) then (p1, p0) else (p0, p1));
          (p1, p2) = (if sint (snd p1) > sint (snd p2) then (p2, p1) else (p1, p2));
          (p0, p1) = (if sint (snd p0) > sint (snd p1) then (p1, p0) else (p0, p1))
      in (p0, p1, p2))"

text \<open>One scanline between the edges \<open>xa + sa/da\<close> and \<open>xb + sb/db\<close>. A division by zero kills the program, which
  \<open>m_fault\<close> records; what follows it is not modelled.\<close>

definition triangle_line :: "u16 \<Rightarrow> u16 \<Rightarrow> u16 \<Rightarrow> u16 \<Rightarrow> u16 \<Rightarrow> u16 \<Rightarrow> u32 \<Rightarrow> u16 \<Rightarrow> int \<times> int \<times> canvas \<Rightarrow>
    (int \<times> int \<times> canvas) option" where
  "triangle_line xa xb da db dxa dxb color y st =
     (case st of (sa, sb, cv) \<Rightarrow>
        if da = 0 \<or> db = 0 then Some (sa, sb, cv\<lparr>m_fault := True\<rparr>)
        else
          let a = xa + of_int (cdiv sa (sint da)); b = xb + of_int (cdiv sb (sint db));
              sa = sa + sint dxa; sb = sb + sint dxb;
              (a, b) = (if sint a > sint b then (b, a) else (a, b))
          in Some (sa, sb, writeFastHLine a y (b - a + 1) color cv))"

definition fillTriangle :: "u16 \<Rightarrow> u16 \<Rightarrow> u16 \<Rightarrow> u16 \<Rightarrow> u16 \<Rightarrow> u16 \<Rightarrow> u32 \<Rightarrow> canvas \<Rightarrow> canvas option" where
  "fillTriangle x0 y0 x1 y1 x2 y2 color cv =
     (case order_corners (x0, y0) (x1, y1) (x2, y2) of ((x0, y0), (x1, y1), (x2, y2)) \<Rightarrow>
        if y0 = y2 then
          (let a = smin x0 (smin x1 x2); b = smax x0 (smax x1 x2) in Some (cv_drawFastHLine a y0 (b - a + 1) color cv))
        else
          let dx01 = x1 - x0; dy01 = y1 - y0; dx02 = x2 - x0; dy02 = y2 - y0; dx12 = x2 - x1; dy12 = y2 - y1;
              last = (if y1 = y2 then y1 else y1 - 1)
          in do { (sa, sb, cv) \<leftarrow> int16_for (sint last + 1) (triangle_line x0 x0 dy01 dy02 dx01 dx02 color) y0 (0, 0, cv);
                  if dy12 \<noteq> 0 then
                    do { (sa, sb, cv) \<leftarrow> int16_for (sint y2 + 1) (triangle_line x1 x0 dy12 dy02 dx12 dx02 color) y1
                             (0, sint dx02 * (sint y1 - sint y0), cv);
                         Some cv }
                  else Some cv })"

section \<open>Bitmaps\<close>

text \<open>A bitmap is the memory its pointer leads to. The one-bit formats shift a byte through a register that is
  reloaded every eight pixels.\<close>

definition bit_reg :: "bool \<Rightarrow> (nat \<Rightarrow> u8) \<Rightarrow> int \<Rightarrow> int \<Rightarrow> int \<Rightarrow> u8 \<Rightarrow> u8" where
  "bit_reg lsb bitmap bw j i b =
     (if i mod 8 \<noteq> 0 then (if lsb then drop_bit 1 b else push_bit 1 b) else bitmap (nat (j * bw + i div 8)))"

definition bitmap_loop :: "bool \<Rightarrow> (nat \<Rightarrow> u8) \<Rightarrow> u16 \<Rightarrow> u16 \<Rightarrow> (int \<Rightarrow> int \<Rightarrow> bool \<Rightarrow> 's \<Rightarrow> 's) \<Rightarrow> 's \<Rightarrow> 's" where
  "bitmap_loop lsb bitmap w h px s =
     (let bw = sint (of_int (cdiv (sint w + 7) 8) :: u16) in
      snd (fold (\<lambda>j. fold (\<lambda>i (b, s).
              let b = bit_reg lsb bitmap bw j i b in (b, px j i (if lsb then bit b 0 else bit b 7) s)) [0..sint w - 1])
            [0..sint h - 1] (0, s)))"

definition drawBitmap :: "(u16 \<Rightarrow> u16 \<Rightarrow> u32 \<Rightarrow> 's \<Rightarrow> 's) \<Rightarrow> u16 \<Rightarrow> u16 \<Rightarrow> (nat \<Rightarrow> u8) \<Rightarrow> u16 \<Rightarrow> u16 \<Rightarrow> u32 \<Rightarrow> 's \<Rightarrow> 's" where
  "drawBitmap plot x y bitmap w h color =
     bitmap_loop False bitmap w h (\<lambda>j i on s. if on then plot (x + of_int i) (y + of_int j) color s else s)"

definition drawBitmap_bg :: "(u16 \<Rightarrow> u16 \<Rightarrow> u32 \<Rightarrow> 's \<Rightarrow> 's) \<Rightarrow> u16 \<Rightarrow> u16 \<Rightarrow> (nat \<Rightarrow> u8) \<Rightarrow> u16 \<Rightarrow> u16 \<Rightarrow> u32 \<Rightarrow> u32 \<Rightarrow> 's \<Rightarrow> 's" where
  "drawBitmap_bg plot x y bitmap w h color bg =
     bitmap_loop False bitmap w h (\<lambda>j i on s.
       let px = (if on then color else bg) in
       if drop_bit 24 px \<noteq> 0 then plot (x + of_int i) (y + of_int j) px s else s)"

definition drawXBitmap :: "(u16 \<Rightarrow> u16 \<Rightarrow> u32 \<Rightarrow> 's \<Rightarrow> 's) \<Rightarrow> u16 \<Rightarrow> u16 \<Rightarrow> (nat \<Rightarrow> u8) \<Rightarrow> u16 \<Rightarrow> u16 \<Rightarrow> u32 \<Rightarrow> 's \<Rightarrow> 's" where
  "drawXBitmap plot x y bitmap w h color =
     bitmap_loop True bitmap w h (\<lambda>j i on s. if on then plot (x + of_int i) (y + of_int j) color s else s)"

definition drawGrayscaleBitmap :: "(u16 \<Rightarrow> u16 \<Rightarrow> u32 \<Rightarrow> 's \<Rightarrow> 's) \<Rightarrow> u16 \<Rightarrow> u16 \<Rightarrow> (nat \<Rightarrow> u8) \<Rightarrow> u16 \<Rightarrow> u16 \<Rightarrow> 's \<Rightarrow> 's" where
  "drawGrayscaleBitmap plot x y bitmap w h =
     fold (\<lambda>j. fold (\<lambda>i. plot (x + of_int i) (y + of_int j) (argbFromGray8 (bitmap (nat (j * sint w + i)))))
        [0..sint w - 1]) [0..sint h - 1]"

definition drawGrayscaleBitmap_mask :: "(u16 \<Rightarrow> u16 \<Rightarrow> u32 \<Rightarrow> 's \<Rightarrow> 's) \<Rightarrow> u16 \<Rightarrow> u16 \<Rightarrow> (nat \<Rightarrow> u8) \<Rightarrow> (nat \<Rightarrow> u8) \<Rightarrow> u16 \<Rightarrow> u16 \<Rightarrow>
    's \<Rightarrow> 's" where
  "drawGrayscaleBitmap_mask plot x y bitmap mask8 w h =
     bitmap_loop False mask8 w h (\<lambda>j i on s.
       if on then plot (x + of_int i) (y + of_int j) (argbFromGray8 (bitmap (nat (j * sint w + i)))) s else s)"

definition drawRGBBitmap :: "(u16 \<Rightarrow> u16 \<Rightarrow> u32 \<Rightarrow> 's \<Rightarrow> 's) \<Rightarrow> u16 \<Rightarrow> u16 \<Rightarrow> (nat \<Rightarrow> u32) \<Rightarrow> u16 \<Rightarrow> u16 \<Rightarrow> 's \<Rightarrow> 's" where
  "drawRGBBitmap plot x y bitmap w h =
     fold (\<lambda>j. fold (\<lambda>i. plot (x + of_int i) (y + of_int j) (bitmap (nat (j * sint w + i))))
        [0..sint w - 1]) [0..sint h - 1]"

definition drawRGBBitmap_mask :: "(u16 \<Rightarrow> u16 \<Rightarrow> u32 \<Rightarrow> 's \<Rightarrow> 's) \<Rightarrow> u16 \<Rightarrow> u16 \<Rightarrow> (nat \<Rightarrow> u32) \<Rightarrow> (nat \<Rightarrow> u8) \<Rightarrow> u16 \<Rightarrow> u16 \<Rightarrow>
    's \<Rightarrow> 's" where
  "drawRGBBitmap_mask plot x y bitmap mask8 w h =
     bitmap_loop False mask8 w h (\<lambda>j i on s.
       if on then plot (x + of_int i) (y + of_int j) (bitmap (nat (j * sint w + i))) s else s)"

text \<open>\<^verbatim>\<open>drawRGB565Bitmap\<close> writes through \<^verbatim>\<open>m_pBuffer\<close> with rows \<^verbatim>\<open>m_pitch / 4\<close> apart; the pitch of a canvas is 0.\<close>

definition cv_pitch :: nat where "cv_pitch = 0"

definition drawRGB565Bitmap :: "u16 \<Rightarrow> u16 \<Rightarrow> (nat \<Rightarrow> u16) \<Rightarrow> u16 \<Rightarrow> u16 \<Rightarrow> canvas \<Rightarrow> canvas" where
  "drawRGB565Bitmap x y bitmap w h cv =
     (if \<not> cv_mapped cv then cv
      else
        let x1 = x + w; y1 = y + h;
            x0 = (if sint x < 0 then 0 else x); bx = (if sint x < 0 then - x else 0);
            y0 = (if sint y < 0 then 0 else y); bby = (if sint y < 0 then - y else 0);
            x1 = (if sint x1 > sint (m_width cv) then m_width cv else x1);
            y1 = (if sint y1 > sint (m_height cv) then m_height cv else y1);
            dw = x1 - x0; dh = y1 - y0
        in if sint dw \<le> 0 \<or> sint dh \<le> 0 then cv
           else
             let dstStride = cv_pitch div 4;
                 dst = nat (sint y0) * dstStride + nat (sint x0);
                 src = nat ((sint bby * sint w + sint bx) mod 2 ^ 32)
             in fold (\<lambda>j. fold (\<lambda>i. cv_store (argbFromRGB565 (bitmap (nat (int src + j * sint w + i))))
                                    (dst + nat j * dstStride + nat i))
                  [0..sint dw - 1]) [0..sint dh - 1] cv)"

section \<open>Characters\<close>

text \<open>The built-in font: five columns for each of the codes 32 to 127, the low bit on top.\<close>

definition s_font :: bytes where
  "s_font = [
     0x00, 0x00, 0x00, 0x00, 0x00, 0x00, 0x00, 0x5F, 0x00, 0x00, 0x00, 0x07, 0x00, 0x07, 0x00, 0x14, 0x7F, 0x14, 0x7F, 0x14,
     0x24, 0x2A, 0x7F, 0x2A, 0x12, 0x23, 0x13, 0x08, 0x64, 0x62, 0x36, 0x49, 0x55, 0x22, 0x50, 0x00, 0x05, 0x03, 0x00, 0x00,
     0x00, 0x1C, 0x22, 0x41, 0x00, 0x00, 0x41, 0x22, 0x1C, 0x00, 0x14, 0x08, 0x3E, 0x08, 0x14, 0x08, 0x08, 0x3E, 0x08, 0x08,
     0x00, 0x50, 0x30, 0x00, 0x00, 0x08, 0x08, 0x08, 0x08, 0x08, 0x00, 0x60, 0x60, 0x00, 0x00, 0x20, 0x10, 0x08, 0x04, 0x02,
     0x3E, 0x51, 0x49, 0x45, 0x3E, 0x00, 0x42, 0x7F, 0x40, 0x00, 0x42, 0x61, 0x51, 0x49, 0x46, 0x21, 0x41, 0x45, 0x4B, 0x31,
     0x18, 0x14, 0x12, 0x7F, 0x10, 0x27, 0x45, 0x45, 0x45, 0x39, 0x3C, 0x4A, 0x49, 0x49, 0x30, 0x01, 0x71, 0x09, 0x05, 0x03,
     0x36, 0x49, 0x49, 0x49, 0x36, 0x06, 0x49, 0x49, 0x29, 0x1E, 0x00, 0x36, 0x36, 0x00, 0x00, 0x00, 0x56, 0x36, 0x00, 0x00,
     0x08, 0x14, 0x22, 0x41, 0x00, 0x14, 0x14, 0x14, 0x14, 0x14, 0x00, 0x41, 0x22, 0x14, 0x08, 0x02, 0x01, 0x51, 0x09, 0x06,
     0x32, 0x49, 0x79, 0x41, 0x3E, 0x7E, 0x11, 0x11, 0x11, 0x7E, 0x7F, 0x49, 0x49, 0x49, 0x36, 0x3E, 0x41, 0x41, 0x41, 0x22,
     0x7F, 0x41, 0x41, 0x22, 0x1C, 0x7F, 0x49, 0x49, 0x49, 0x41, 0x7F, 0x09, 0x09, 0x09, 0x01, 0x3E, 0x41, 0x49, 0x49, 0x7A,
     0x7F, 0x08, 0x08, 0x08, 0x7F, 0x00, 0x41, 0x7F, 0x41, 0x00, 0x20, 0x40, 0x41, 0x3F, 0x01, 0x7F, 0x08, 0x14, 0x22, 0x41,
     0x7F, 0x40, 0x40, 0x40, 0x40, 0x7F, 0x02, 0x0C, 0x02, 0x7F, 0x7F, 0x04, 0x08, 0x10, 0x7F, 0x3E, 0x41, 0x41, 0x41, 0x3E,
     0x7F, 0x09, 0x09, 0x09, 0x06, 0x3E, 0x41, 0x51, 0x21, 0x5E, 0x7F, 0x09, 0x19, 0x29, 0x46, 0x46, 0x49, 0x49, 0x49, 0x31,
     0x01, 0x01, 0x7F, 0x01, 0x01, 0x3F, 0x40, 0x40, 0x40, 0x3F, 0x1F, 0x20, 0x40, 0x20, 0x1F, 0x3F, 0x40, 0x38, 0x40, 0x3F,
     0x63, 0x14, 0x08, 0x14, 0x63, 0x07, 0x08, 0x70, 0x08, 0x07, 0x61, 0x51, 0x49, 0x45, 0x43, 0x00, 0x7F, 0x41, 0x41, 0x00,
     0x02, 0x04, 0x08, 0x10, 0x20, 0x00, 0x41, 0x41, 0x7F, 0x00, 0x04, 0x02, 0x01, 0x02, 0x04, 0x40, 0x40, 0x40, 0x40, 0x40,
     0x00, 0x01, 0x02, 0x04, 0x00, 0x20, 0x54, 0x54, 0x54, 0x78, 0x7F, 0x48, 0x44, 0x44, 0x38, 0x38, 0x44, 0x44, 0x44, 0x20,
     0x38, 0x44, 0x44, 0x48, 0x7F, 0x38, 0x54, 0x54, 0x54, 0x18, 0x08, 0x7E, 0x09, 0x01, 0x02, 0x0C, 0x52, 0x52, 0x52, 0x3E,
     0x7F, 0x08, 0x04, 0x04, 0x78, 0x00, 0x44, 0x7D, 0x40, 0x00, 0x20, 0x40, 0x44, 0x3D, 0x00, 0x7F, 0x10, 0x28, 0x44, 0x00,
     0x00, 0x41, 0x7F, 0x40, 0x00, 0x7C, 0x04, 0x18, 0x04, 0x78, 0x7C, 0x08, 0x04, 0x04, 0x78, 0x38, 0x44, 0x44, 0x44, 0x38,
     0x7C, 0x14, 0x14, 0x14, 0x08, 0x08, 0x14, 0x14, 0x18, 0x7C, 0x7C, 0x08, 0x04, 0x04, 0x08, 0x48, 0x54, 0x54, 0x54, 0x20,
     0x04, 0x3F, 0x44, 0x40, 0x20, 0x3C, 0x40, 0x40, 0x20, 0x7C, 0x1C, 0x20, 0x40, 0x20, 0x1C, 0x3C, 0x40, 0x30, 0x40, 0x3C,
     0x44, 0x28, 0x10, 0x28, 0x44, 0x0C, 0x50, 0x50, 0x50, 0x3C, 0x44, 0x64, 0x54, 0x4C, 0x44, 0x00, 0x08, 0x36, 0x41, 0x00,
     0x00, 0x00, 0x7F, 0x00, 0x00, 0x00, 0x41, 0x36, 0x08, 0x00, 0x10, 0x08, 0x08, 0x10, 0x08, 0x78, 0x46, 0x41, 0x46, 0x78]"

definition draw_cell :: "u16 \<Rightarrow> u16 \<Rightarrow> u8 \<Rightarrow> u8 \<Rightarrow> u16 \<Rightarrow> u16 \<Rightarrow> u32 \<Rightarrow> canvas \<Rightarrow> canvas option" where
  "draw_cell x y sx sy col row color cv =
     (if sx = 1 \<and> sy = 1 then Some (writePixel (x + col) (y + row) color cv)
      else writeFillRect (x + col * ucast sx) (y + row * ucast sy) (ucast sx) (ucast sy) color cv)"

definition drawChar_builtin :: "u16 \<Rightarrow> u16 \<Rightarrow> u8 \<Rightarrow> u32 \<Rightarrow> u32 \<Rightarrow> u8 \<Rightarrow> u8 \<Rightarrow> canvas \<Rightarrow> canvas option" where
  "drawChar_builtin x y c color bg sx sy cv =
     (let transBg = (drop_bit 24 bg = 0) in
      if sint x \<ge> sint (m_width cv) \<or> sint y \<ge> sint (m_height cv) \<or> sint x + 6 * uint sx - 1 < 0 \<or>
         sint y + 8 * uint sy - 1 < 0 then Some cv
      else
        let c = (if c < 32 \<or> c > 126 then 63 else c); glyph = take 5 (drop ((unat c - 32) * 5) s_font) in
        do { cv \<leftarrow> run_all (concat (map (\<lambda>col. map (\<lambda>row.
                 if bit (glyph ! col) row then draw_cell x y sx sy (of_nat col) (of_nat row) color
                 else if \<not> transBg then draw_cell x y sx sy (of_nat col) (of_nat row) bg
                 else Some) [0..<8]) [0..<5])) cv;
             if \<not> transBg then run_all (map (\<lambda>row. draw_cell x y sx sy 5 (of_nat row) bg) [0..<8]) cv else Some cv })"

text \<open>A glyph's bits are packed without padding between its rows.\<close>

definition drawChar_font :: "gfx_font \<Rightarrow> u16 \<Rightarrow> u16 \<Rightarrow> u8 \<Rightarrow> u32 \<Rightarrow> u8 \<Rightarrow> u8 \<Rightarrow> canvas \<Rightarrow> canvas option" where
  "drawChar_font f x y c color sx sy cv =
     (if ucast c < fo_first f \<or> ucast c > fo_last f then Some cv
      else
        let ci = unat (ucast (ucast c - fo_first f :: u16) :: u8) in
        if ci \<ge> length (fo_glyph f) then Some (cv\<lparr>m_fault := True\<rparr>)
        else
          let gl = fo_glyph f ! ci; gx = x + scast (gl_xOffset gl); gy = y + scast (gl_yOffset gl);
              gw = unat (gl_width gl); gh = unat (gl_height gl)
          in run_all (concat (map (\<lambda>r. map (\<lambda>k.
                 let n = r * gw + k; byte = unat (gl_bitmapOffset gl) + n div 8 in
                 if byte \<ge> length (fo_bitmap f) then (\<lambda>cv. Some (cv\<lparr>m_fault := True\<rparr>))
                 else if bit (fo_bitmap f ! byte) (7 - n mod 8) then draw_cell gx gy sx sy (of_nat k) (of_nat r) color
                 else Some) [0..<gw]) [0..<gh])) cv)"

definition drawChar :: "font_mem \<Rightarrow> u16 \<Rightarrow> u16 \<Rightarrow> u8 \<Rightarrow> u32 \<Rightarrow> u32 \<Rightarrow> u8 \<Rightarrow> u8 \<Rightarrow> canvas \<Rightarrow> canvas option" where
  "drawChar fonts x y c color bg sx sy cv =
     (case m_pFont cv of None \<Rightarrow> drawChar_builtin x y c color bg sx sy cv
      | Some f \<Rightarrow> drawChar_font (fonts f) x y c color sx sy cv)"

text \<open>The glyphs a text call places, drawn in their order.\<close>

definition cv_drawGlyphs :: "font_mem \<Rightarrow> glyph_draw list \<times> canvas \<Rightarrow> canvas option" where
  "cv_drawGlyphs fonts t =
     (case t of (ds, cv) \<Rightarrow>
        run_all (map (\<lambda>(x, y, c). drawChar fonts x y c (m_textColor cv) (m_textBgColor cv) (m_textSizeX cv) (m_textSizeY cv))
          ds) cv)"

definition cv_writeText :: "font_mem \<Rightarrow> bytes \<Rightarrow> canvas \<Rightarrow> canvas option" where
  "cv_writeText fonts s cv = cv_drawGlyphs fonts (writeText fonts s cv)"

end
