(* ===== verification/GfxLaws.thy ===== *)
theory GfxLaws
  imports GfxDraw
begin

text \<open>
  What the drawing primitives do: which of their loops end and for which arguments, how far a plotted circle
  is from the true one, where a line goes, which pixels a bitmap sets.
\<close>

section \<open>Counted loops\<close>

lemma int16_for_fold:
  assumes body: "\<And>i s. body i s = Some (f i s)" and bound: "bound \<le> 32767"
  shows "int16_for bound body i s = Some (fold (\<lambda>k. f (of_int k)) [sint i..bound - 1] s)"
proof (induction "nat (bound - sint i)" arbitrary: i s rule: less_induct)
  case less
  show ?case
  proof (cases "sint i < bound")
    case True
    then have s1: "sint (i + 1) = sint i + 1"
      using bound sint16_bounds [of i] sint16_add [of i 1] by simp
    then have "int16_for bound body (i + 1) (f i s) = Some (fold (\<lambda>k. f (of_int k)) [sint i + 1..bound - 1] (f i s))"
      using less [of "i + 1" "f i s"] True by simp
    then show ?thesis
      using True by (subst int16_for.simps) (simp add: body upto_rec1 [of "sint i"])
  next
    case False
    then show ?thesis by (subst int16_for.simps) simp
  qed
qed

lemma int16_for_bounded:
  assumes "int16_for bound body i s = Some s'"
  shows "bound \<le> 32767"
  using assms
proof (rule int16_for.raw_induct [where P = "\<lambda>b bd i s s'. b \<le> 32767", rotated])
  fix loop :: "int \<Rightarrow> (u16 \<Rightarrow> 's \<Rightarrow> 's option) \<Rightarrow> u16 \<Rightarrow> 's \<Rightarrow> 's option" and bound body i s s'
  assume "\<And>b bd i s s'. loop b bd i s = Some s' \<Longrightarrow> b \<le> 32767"
    and "(if sint i < bound then Option.bind (body i s) (loop bound body (i + 1)) else Some s) = Some s'"
  then show "bound \<le> 32767"
    using sint16_bounds [of i] by (cases "sint i < bound") (auto simp: bind_eq_Some_conv)
qed

lemma int16_for_returns:
  assumes "\<And>i s. body i s = Some (f i s)"
  shows "(\<exists>s'. int16_for bound body i s = Some s') \<longleftrightarrow> bound \<le> 32767"
  using int16_for_fold [of body f bound i s] int16_for_bounded [of bound body i s] assms by auto

text \<open>C30: Filling a rectangle returns exactly when the colour is transparent or the row below the rectangle is a
  16-bit number: otherwise the 16-bit row counter wraps below its bound for ever. The coordinates are those of
  the caller, so one FILL_RECT of a received drawing can hang the display.\<close>

theorem fill_rect_returns_iff:
  "(\<exists>cv'. fillRect x y w h c cv = Some cv') \<longleftrightarrow> drop_bit 24 c = 0 \<or> sint y + sint h \<le> 32767"
proof (cases "drop_bit 24 c = 0")
  case False
  have "(\<exists>cv'. fillRect x y w h c cv = Some cv') \<longleftrightarrow>
      (\<exists>cv'. int16_for (sint y + sint h) (\<lambda>i cv. Some (writeFastHLine x i w c cv)) y cv = Some cv')"
    using False by (simp add: fillRect_def writeFillRect_def)
  also have "\<dots> \<longleftrightarrow> sint y + sint h \<le> 32767"
    by (rule int16_for_returns) (rule refl)
  finally show ?thesis using False by simp
qed (simp add: fillRect_def writeFillRect_def)

section \<open>Fast spans\<close>

lemma blend_alpha: "drop_bit 24 c \<noteq> 0 \<Longrightarrow> drop_bit 24 (blendARGB c old) = 0xFF"
proof -
  have top: "drop_bit 24 (0xFF000000 OR push_bit 16 (ucast (r :: u8)) OR push_bit 8 (ucast (g :: u8)) OR ucast (b :: u8) :: u32) = 0xFF"
    for r g b
    unfolding opaque_mask mask8_numeral by (rule bit_word_eqI) (auto simp: bit_simps dest: bit_imp_le_length)
  assume "drop_bit 24 c \<noteq> 0"
  then show ?thesis
    unfolding blendARGB_def drop_24_and_FF Let_def by (cases "drop_bit 24 c = 0xFF") (simp_all only: if_True if_False top simp_thms)
qed

text \<open>On an unrotated canvas a written pixel is one store.\<close>

lemma writePixel_store:
  assumes "canvas_wf cv" "m_rotation cv = 0" "drop_bit 24 c \<noteq> 0"
  shows "writePixel x y c cv =
    (if on_surface cv x y then cv_store (blendARGB c (cv_pixel cv (cv_offset cv x y))) (cv_offset cv x y) cv else cv)"
proof (cases "on_surface cv x y")
  case True
  have raw: "cv_getPixel cv x y = Some (cv_pixel cv (cv_offset cv x y))"
    using True assms(1,2) by (simp add: cv_getPixel_raw cv_rotate_def getPixelRaw_pixel)
  show ?thesis
    using True assms raw
    by (auto simp: writePixel_def Let_def cv_setPixel_def setPixelRaw_opaque blend_opaque blend_alpha)
qed (simp add: writePixel_def Let_def)

lemma blend_at_store:
  "canvas_wf cv \<Longrightarrow> cv_format cv = ARGB8888 \<Longrightarrow> i < cv_pixels cv \<Longrightarrow>
   cv_blend_at c i cv = cv_store (blendARGB c (cv_pixel cv i)) i cv"
  using canvas_wf_inside [of cv _ i] by (auto simp: cv_blend_at_def cv_store_def cv_pixel_def split: option.splits)

text \<open>The fast path of the horizontal span, which writes a row of \<^verbatim>\<open>m_pBuffer\<close> directly, and the per-pixel path of the
  other surfaces leave the same canvas: on an unrotated ARGB8888 canvas a span is the same as writing its clipped
  pixels one at a time, for opaque and translucent colours.\<close>

theorem hline_fast_path:
  assumes wf: "canvas_wf cv" and fmt: "cv_format cv = ARGB8888" and rot: "m_rotation cv = 0"
    and y: "0 \<le> sint y" "sint y < sint (m_height cv)" and c: "drop_bit 24 c \<noteq> 0"
  shows "writeFastHLine x y w c cv = fold (\<lambda>i. writePixel i y c) (span (smax 0 x) (smin (m_width cv) (x + w))) cv"
proof (cases "cv_mapped cv")
  case True
  let ?W = "sint (m_width cv)"
  define xs where "xs = smax 0 x"
  define xe where "xe = smin (m_width cv) (x + w)"
  have b: "0 \<le> sint xs" "sint xe \<le> ?W" by (simp_all add: xs_def xe_def smax_def smin_def)
  have W: "0 \<le> ?W" using wf by (simp add: canvas_wf_def)
  have lhs: "writeFastHLine x y w c cv =
      (if sint xs \<ge> sint xe then cv else fold (\<lambda>k. cv_blend_at c (pBuffer_index cv xs y + k)) [0..<nat (sint (xe - xs))] cv)"
    using True y c unfolding writeFastHLine_def xs_def xe_def by (simp add: Let_def)
  show ?thesis
  proof (cases "sint xe \<le> sint xs")
    case True
    then show ?thesis unfolding lhs by (simp add: span_def flip: xs_def xe_def)
  next
    case False
    have n: "sint (xe - xs) = sint xe - sint xs" using b False by (simp add: sint16_diff)
    have at: "cv_offset cv (of_int i) y = pBuffer_index cv xs y + nat (i - sint xs)" "on_surface cv (of_int i) y"
      if "sint xs \<le> i" "i < sint xe" for i
    proof -
      have i: "0 \<le> i" "i < ?W" "i \<le> 32767" using that b sint16_bounds [of "m_width cv"] by simp_all
      show on: "on_surface cv (of_int i) y" using i y by (simp add: on_surface_of_int)
      have "0 \<le> sint y * ?W" "sint y * ?W \<le> 1073676289"
        using small_product [of "sint y" ?W] y W sint16_bounds [of y] sint16_bounds [of "m_width cv"] by simp_all
      then have "int (pBuffer_index cv xs y) = sint y * ?W + sint xs"
        using W b sint16_bounds [of "m_width cv"] sint16_bounds [of xs] by (simp add: pBuffer_index_def stridePx_def)
      then show "cv_offset cv (of_int i) y = pBuffer_index cv xs y + nat (i - sint xs)"
        using cv_offset_wf(1) [OF wf on] i that by (simp add: sint16_of_int)
    qed
    have "fold (\<lambda>i. writePixel (of_int i) y c) [sint xs..sint xe - 1] cv
        = fold (\<lambda>i. cv_blend_at c (pBuffer_index cv xs y + nat (i - sint xs))) (filter (\<lambda>_. True) [sint xs..sint xe - 1]) cv"
    proof (rule fold_kept_filter [where cv = cv])
      fix i cv' assume i: "i \<in> set [sint xs..sint xe - 1]" and k: "cv_kept cv cv'"
      note f = cv_kept_fields [OF k]
      have i': "sint xs \<le> i" "i < sint xe" using i by auto
      have lt: "pBuffer_index cv xs y + nat (i - sint xs) < cv_pixels cv"
        using cv_offset_wf(2) [OF wf at(2) [OF i']] at(1) [OF i'] by simp
      have bl: "cv_blend_at c (pBuffer_index cv xs y + nat (i - sint xs)) cv'
          = cv_store (blendARGB c (cv_pixel cv' (cv_offset cv (of_int i) y))) (cv_offset cv (of_int i) y) cv'"
        using blend_at_store [of cv'] f wf fmt lt at(1) [OF i'] by simp
      show "writePixel (of_int i) y c cv' = (if True then cv_blend_at c (pBuffer_index cv xs y + nat (i - sint xs)) cv' else cv')"
        unfolding bl using f wf rot c at(2) [OF i'] by (simp add: writePixel_store)
      show "cv_kept cv' (cv_blend_at c (pBuffer_index cv xs y + nat (i - sint xs)) cv')"
        unfolding bl using f wf lt at(1) [OF i'] by (intro cv_store_kept) simp_all
    qed simp
    also have "\<dots> = fold (\<lambda>k. cv_blend_at c (pBuffer_index cv xs y + k)) (map (\<lambda>i. nat (- sint xs + i)) [sint xs..sint xe - 1]) cv"
      by (simp add: fold_map o_def)
    also have "\<dots> = fold (\<lambda>k. cv_blend_at c (pBuffer_index cv xs y + k)) [0..<nat (sint (xe - xs))] cv"
      by (subst map_nat_upto) (simp_all add: n)
    finally show ?thesis
      unfolding lhs using False by (simp add: span_def fold_map o_def flip: xs_def xe_def)
  qed
qed (use y c in \<open>simp add: writeFastHLine_def Let_def\<close>)

theorem hline_fast_path_witness:
  "writeFastHLine (- 1) 1 3 0x80FF0000 (small_canvas ARGB8888)
     = fold (\<lambda>i. writePixel i 1 0x80FF0000) (span (smax 0 (- 1)) (smin 3 2)) (small_canvas ARGB8888)"
  using hline_fast_path [of "small_canvas ARGB8888" 1 "0x80FF0000" "- 1" 3] by simp

section \<open>Circles\<close>

text \<open>The counters of the loop, as long as nothing overflows: \<open>f\<close> is the error of the midpoint between the two
  candidates for the next point.\<close>

definition circle_inv :: "int \<Rightarrow> u16 \<Rightarrow> u16 \<Rightarrow> u16 \<Rightarrow> u16 \<Rightarrow> u16 \<Rightarrow> bool" where
  "circle_inv r f ddx ddy x y \<longleftrightarrow>
     0 \<le> sint x \<and> 0 \<le> sint y \<and> sint y \<le> r \<and> sint ddx = 2 * sint x + 1 \<and> sint ddy = - 2 * sint y \<and>
     sint f = (sint x + 1)\<^sup>2 + (sint y)\<^sup>2 - sint y - r\<^sup>2 \<and>
     - sint y \<le> (sint x)\<^sup>2 + (sint y)\<^sup>2 - r\<^sup>2 \<and> (sint x)\<^sup>2 + (sint y)\<^sup>2 - r\<^sup>2 \<le> r \<and>
     (sint x < sint y \<longrightarrow> (sint x)\<^sup>2 + (sint y)\<^sup>2 - r\<^sup>2 \<le> sint y)"

lemma circle_inv_keep:
  assumes inv: "circle_inv r f ddx ddy x y" and lt: "sint x < sint y" and f: "sint f < 0" and r: "r \<le> 16000"
  shows "circle_inv r (f + (ddx + 2)) (ddx + 2) ddy (x + 1) y"
proof -
  note i = inv [unfolded circle_inv_def]
  define e where "e = (sint x)\<^sup>2 + (sint y)\<^sup>2 - r\<^sup>2"
  have x: "sint (x + 1) = sint x + 1" using lt by (rule sint16_succ)
  have fe: "sint f = e + 2 * sint x + 1 - sint y" using i by (simp add: e_def power2_eq_square algebra_simps)
  have ddx: "sint (ddx + 2) = 2 * sint x + 3"
    using i lt r by (subst sint16_add) simp_all
  have f': "sint (f + (ddx + 2)) = sint f + 2 * sint x + 3"
    using i lt r f fe e_def unfolding ddx [symmetric] by (subst sint16_add) (simp_all add: ddx)
  show ?thesis
    unfolding circle_inv_def x ddx f' using i lt f fe e_def by (simp add: power2_eq_square algebra_simps)
qed

lemma circle_inv_drop:
  assumes inv: "circle_inv r f ddx ddy x y" and lt: "sint x < sint y" and f: "0 \<le> sint f" and r: "r \<le> 16000"
  shows "circle_inv r (f + (ddy + 2) + (ddx + 2)) (ddx + 2) (ddy + 2) (x + 1) (y - 1)"
proof -
  note i = inv [unfolded circle_inv_def]
  define e where "e = (sint x)\<^sup>2 + (sint y)\<^sup>2 - r\<^sup>2"
  have x: "sint (x + 1) = sint x + 1" using lt by (rule sint16_succ)
  have y: "sint (y - 1) = sint y - 1" using lt by (rule sint16_pred)
  have fe: "sint f = e + 2 * sint x + 1 - sint y" using i by (simp add: e_def power2_eq_square algebra_simps)
  have eb: "- sint y \<le> e" "e \<le> sint y" using i lt by (simp_all add: e_def)
  have ddx: "sint (ddx + 2) = 2 * sint x + 3" using i lt r by (subst sint16_add) simp_all
  have ddy: "sint (ddy + 2) = 2 - 2 * sint y" using i lt r by (subst sint16_add) simp_all
  have f1: "sint (f + (ddy + 2)) = sint f + 2 - 2 * sint y"
    using i lt r f fe eb ddy by (subst sint16_add) simp_all
  have f': "sint (f + (ddy + 2) + (ddx + 2)) = sint f + 5 + 2 * sint x - 2 * sint y"
    using i lt r f fe eb ddx f1 by (subst sint16_add) simp_all
  have e': "(sint x + 1)\<^sup>2 + (sint y - 1)\<^sup>2 - r\<^sup>2 = e + 2 * (sint x - sint y + 1)"
    by (simp add: e_def power2_eq_square algebra_simps)
  have "sint f + 5 + 2 * sint x - 2 * sint y = (sint x + 1 + 1)\<^sup>2 + (sint y - 1)\<^sup>2 - (sint y - 1) - r\<^sup>2"
    using i by (simp add: power2_eq_square algebra_simps)
  then show ?thesis
    unfolding circle_inv_def x y ddx ddy f' e' using i lt f fe eb by simp
qed

lemma circle_steps_inv:
  assumes "circle_inv r f ddx ddy x y" "r \<le> 16000" "(a, b) \<in> set (circle_steps f ddx ddy x y)"
  shows "\<bar>(sint a)\<^sup>2 + (sint b)\<^sup>2 - r\<^sup>2\<bar> \<le> r \<and> 0 \<le> sint a \<and> 0 \<le> sint b \<and> sint b \<le> r"
  using assms
proof (induction f ddx ddy x y rule: circle_steps.induct)
  case (1 f ddx ddy x y)
  have lt: "sint x < sint y"
    using "1.prems"(3) by (subst (asm) circle_steps.simps) (simp split: if_splits)
  have ok: "\<bar>(sint u)\<^sup>2 + (sint v)\<^sup>2 - r\<^sup>2\<bar> \<le> r \<and> 0 \<le> sint u \<and> 0 \<le> sint v \<and> sint v \<le> r"
    if "circle_inv r f' ddx' ddy' u v" for f' ddx' ddy' u v
    using that by (simp add: circle_inv_def abs_le_iff)
  show ?case
  proof (cases "0 \<le> sint f")
    case True
    have inv: "circle_inv r (f + (ddy + 2) + (ddx + 2)) (ddx + 2) (ddy + 2) (x + 1) (y - 1)"
      using "1.prems"(1) lt True "1.prems"(2) by (rule circle_inv_drop)
    have "(a, b) = (x + 1, y - 1) \<or> (a, b) \<in> set (circle_steps (f + (ddy + 2) + (ddx + 2)) (ddx + 2) (ddy + 2) (x + 1) (y - 1))"
      using "1.prems"(3) lt True by (subst (asm) circle_steps.simps) (simp add: Let_def)
    then show ?thesis
      using ok [OF inv] inv "1.prems"(2) True
        "1.IH" [OF lt, of "(y - 1, ddy + 2, f + (ddy + 2))" "y - 1" "(ddy + 2, f + (ddy + 2))" "ddy + 2" "f + (ddy + 2)"
          "x + 1" "ddx + 2" "f + (ddy + 2) + (ddx + 2)"] by auto
  next
    case False
    then have neg: "sint f < 0" by simp
    have inv: "circle_inv r (f + (ddx + 2)) (ddx + 2) ddy (x + 1) y"
      using "1.prems"(1) lt neg "1.prems"(2) by (rule circle_inv_keep)
    have "(a, b) = (x + 1, y) \<or> (a, b) \<in> set (circle_steps (f + (ddx + 2)) (ddx + 2) ddy (x + 1) y)"
      using "1.prems"(3) lt False by (subst (asm) circle_steps.simps) (simp add: Let_def)
    then show ?thesis
      using ok [OF inv] inv "1.prems"(2) False
        "1.IH" [OF lt, of "(y, ddy, f)" y "(ddy, f)" ddy f "x + 1" "ddx + 2" "f + (ddx + 2)"] by auto
  qed
qed

lemma circle_walk_close:
  assumes "0 \<le> sint r" "sint r \<le> 16000" "(a, b) \<in> set (circle_walk r)"
  shows "\<bar>(sint a)\<^sup>2 + (sint b)\<^sup>2 - (sint r)\<^sup>2\<bar> \<le> sint r"
proof -
  have "sint (- 2 * r) = - 2 * sint r"
  proof -
    have "- 2 * r = of_int (- 2 * sint r)" by (simp add: signed_word_eqI)
    then show ?thesis using assms(1,2) by (simp only:) (rule sint16_of_int; simp)
  qed
  moreover have "sint (1 - r) = 1 - sint r"
    using assms(1) by (simp add: sint16_diff)
  ultimately have "circle_inv (sint r) (1 - r) 1 (- 2 * r) 0 r"
    using assms(1) by (simp add: circle_inv_def)
  then show ?thesis
    using circle_steps_inv assms(2,3) unfolding circle_walk_def by blast
qed

text \<open>Every pixel of a thin circle of radius at most 16000 lies within about half a pixel of the true circle: its
  offset \<open>(dx, dy)\<close> from the centre satisfies \<open>\<bar>dx\<^sup>2 + dy\<^sup>2 - r\<^sup>2\<bar> \<le> r\<close>. None of the 16-bit counters of the loop
  overflows.\<close>

theorem circle_pixels_on_circle:
  assumes "0 \<le> sint r" "sint r \<le> 16000"
    and "(px, py) \<in> set (drawCircle_thin (\<lambda>x y ps. (x, y) # ps) x0 y0 r [])"
  shows "\<exists>dx dy. px = x0 + of_int dx \<and> py = y0 + of_int dy \<and> \<bar>dx\<^sup>2 + dy\<^sup>2 - (sint r)\<^sup>2\<bar> \<le> sint r"
proof -
  have collect: "set (plot_all (\<lambda>x y ps. (x, y) # ps) ps qs) = set ps \<union> set qs" for ps qs :: "(u16 \<times> u16) list"
    unfolding plot_all_def by (induction ps arbitrary: qs) auto
  define near where "near px py \<longleftrightarrow> (\<exists>dx dy. px = x0 + of_int dx \<and> py = y0 + of_int dy \<and> \<bar>dx\<^sup>2 + dy\<^sup>2 - (sint r)\<^sup>2\<bar> \<le> sint r)"
    for px py
  have near: "near (x0 + u) (y0 + v) \<and> near (x0 - u) (y0 + v) \<and> near (x0 + u) (y0 - v) \<and> near (x0 - u) (y0 - v)"
    if "\<bar>(sint u)\<^sup>2 + (sint v)\<^sup>2 - (sint r)\<^sup>2\<bar> \<le> sint r" for u v
  proof -
    have "near (x0 + of_int dx) (y0 + of_int dy)" if "\<bar>dx\<^sup>2 + dy\<^sup>2 - (sint r)\<^sup>2\<bar> \<le> sint r" for dx dy
      using that unfolding near_def by blast
    from this [of "sint u" "sint v"] this [of "- sint u" "sint v"] this [of "sint u" "- sint v"]
      this [of "- sint u" "- sint v"] that
    show ?thesis by simp
  qed
  have axis: "near x0 (y0 + r) \<and> near x0 (y0 - r) \<and> near (x0 + r) y0 \<and> near (x0 - r) y0"
    using near [of 0 r] near [of r 0] assms(1) by simp
  have octant: "near (x0 + u) (y0 + v) \<and> near (x0 - u) (y0 + v) \<and> near (x0 + u) (y0 - v) \<and> near (x0 - u) (y0 - v) \<and>
      near (x0 + v) (y0 + u) \<and> near (x0 - v) (y0 + u) \<and> near (x0 + v) (y0 - u) \<and> near (x0 - v) (y0 - u)"
    if "(u, v) \<in> set (circle_walk r)" for u v
    using circle_walk_close [OF assms(1,2) that] near [of u v] near [of v u] by (simp add: add.commute)
  have "near px py"
    using assms(3) unfolding drawCircle_thin_def collect
    by (simp only: set_append Un_iff set_concat set_map list.set) (use axis octant in fastforce)
  then show ?thesis unfolding near_def .
qed

theorem circle_pixels_on_circle_witness:
  "\<exists>dx dy. (13 :: u16) = 10 + of_int dx \<and> (9 :: u16) = 10 + of_int dy \<and> \<bar>dx\<^sup>2 + dy\<^sup>2 - (sint (3 :: u16))\<^sup>2\<bar> \<le> sint (3 :: u16)"
  by (rule circle_pixels_on_circle) (simp, simp, code_simp)

section \<open>Lines\<close>

text \<open>The line algorithm on mathematical integers: the steps taken along each axis after \<open>k\<close> rounds of the loop of a
  line that spans \<open>a\<close> columns and \<open>b\<close> rows.\<close>

primrec line_steps :: "int \<Rightarrow> int \<Rightarrow> nat \<Rightarrow> int \<times> int" where
  "line_steps a b 0 = (0, 0)"
| "line_steps a b (Suc k) =
     (case line_steps a b k of (i, j) \<Rightarrow>
        let e = a - b + (j * a - i * b) in (if 2 * e > - b then i + 1 else i, if 2 * e < a then j + 1 else j))"

definition line_ok :: "int \<Rightarrow> int \<Rightarrow> nat \<Rightarrow> int \<Rightarrow> int \<Rightarrow> bool" where
  "line_ok a b k i j \<longleftrightarrow> 0 \<le> i \<and> 0 \<le> j \<and> (b \<le> a \<longrightarrow> i = int k) \<and> (a \<le> b \<longrightarrow> j = int k) \<and>
     2 * \<bar>j * a - i * b\<bar> \<le> max a b"

lemma line_ok_step:
  assumes "0 \<le> a" "0 \<le> b" "int k < max a b" "line_ok a b k i j"
  defines "e \<equiv> a - b + (j * a - i * b)"
  shows "line_ok a b (Suc k) (if 2 * e > - b then i + 1 else i) (if 2 * e < a then j + 1 else j)"
proof -
  define d where "d = j * a - i * b"
  have d: "2 * \<bar>d\<bar> \<le> max a b" and ij: "0 \<le> i" "0 \<le> j" and e: "e = a - b + d"
    using assms by (simp_all add: line_ok_def d_def)
  have moves: "(j + 1) * a - i * b = d + a" "j * a - (i + 1) * b = d - b" "(j + 1) * a - (i + 1) * b = d + a - b"
    by (simp_all add: d_def algebra_simps)
  consider (eq) "a = b" | (flat) "b < a" | (steep) "a < b" by linarith
  then show ?thesis
  proof cases
    case eq
    then have "i = int k" "j = int k" "d = 0" using assms(4) by (simp_all add: line_ok_def d_def)
    then show ?thesis using eq assms(1,3) e by (simp add: line_ok_def)
  next
    case flat
    then have i: "i = int k" using assms(4) by (simp add: line_ok_def)
    have d: "2 * \<bar>d\<bar> \<le> a" using d flat by simp
    have x: "- b < 2 * e" using flat d e by linarith
    have "2 * \<bar>d + a - b\<bar> \<le> a" if "2 * e < a" using that flat d e assms(2) by (auto simp: abs_if)
    moreover have "2 * \<bar>d - b\<bar> \<le> a" if "\<not> 2 * e < a" using that flat d e assms(2) by (auto simp: abs_if)
    ultimately show ?thesis
      unfolding line_ok_def using flat ij i x by (cases "2 * e < a") (simp_all only: if_True if_False moves [unfolded i], simp_all)
  next
    case steep
    then have j: "j = int k" using assms(4) by (simp add: line_ok_def)
    have d: "2 * \<bar>d\<bar> \<le> b" using d steep by simp
    have y: "2 * e < a" using steep d e by linarith
    have "2 * \<bar>d + a - b\<bar> \<le> b" if "- b < 2 * e" using that steep d e assms(1) by (auto simp: abs_if)
    moreover have "2 * \<bar>d + a\<bar> \<le> b" if "\<not> - b < 2 * e" using that steep d e assms(1) by (auto simp: abs_if)
    ultimately show ?thesis
      unfolding line_ok_def using steep ij j y by (cases "- b < 2 * e") (simp_all only: if_True if_False moves [unfolded j], simp_all)
  qed
qed

lemma line_steps_ok:
  "0 \<le> a \<Longrightarrow> 0 \<le> b \<Longrightarrow> int k \<le> max a b \<Longrightarrow> line_ok a b k (fst (line_steps a b k)) (snd (line_steps a b k))"
proof (induction k)
  case (Suc k)
  obtain i j where ij: "line_steps a b k = (i, j)" by fastforce
  then have "line_ok a b k i j" using Suc by simp
  then show ?case
    using line_ok_step [of a b k i j] Suc.prems ij by (simp add: Let_def)
qed (simp add: line_ok_def)

text \<open>Neither axis overshoots, and the last point is the far end.\<close>

lemma line_ok_inside:
  assumes "0 \<le> a" "0 \<le> b" "int k \<le> max a b" "line_ok a b k i j"
  shows "i \<le> a" "j \<le> b"
proof -
  note l = assms(4) [unfolded line_ok_def]
  have cut: "u \<le> v" if "u * m \<le> v * m + n" "2 * n \<le> m" "0 < m" for u v m n :: int
  proof (rule ccontr)
    assume "\<not> u \<le> v"
    then have "(v + 1) * m \<le> u * m" using that by (intro mult_right_mono) simp_all
    then show False using that by (simp add: distrib_right)
  qed
  have dev: "2 * \<bar>j * a - i * b\<bar> \<le> max a b" and ik: "b \<le> a \<longrightarrow> i = int k" and jk: "a \<le> b \<longrightarrow> j = int k"
    using l by simp_all
  have jb: "a \<le> b \<Longrightarrow> j \<le> b" and ia: "b \<le> a \<Longrightarrow> i \<le> a" using ik jk assms(3) by simp_all
  show "i \<le> a"
  proof (cases "b \<le> a")
    case False
    then have "j * a \<le> b * a" using jb assms(1) by (intro mult_right_mono) simp_all
    then have "i * b \<le> a * b + \<bar>j * a - i * b\<bar>" by (simp add: mult.commute)
    then show ?thesis by (rule cut) (use False dev assms(1) in simp_all)
  qed (rule ia)
  show "j \<le> b"
  proof (cases "a \<le> b")
    case False
    then have "i * b \<le> a * b" using ia assms(2) by (intro mult_right_mono) simp_all
    then have "j * a \<le> b * a + \<bar>j * a - i * b\<bar>" by (simp add: mult.commute)
    then show ?thesis by (rule cut) (use False dev assms(2) in simp_all)
  qed (rule jb)
qed

lemma line_ok_end:
  assumes "0 \<le> a" "0 \<le> b" "int k = max a b" "line_ok a b k i j"
  shows "i = a \<and> j = b"
proof -
  note l = assms(4) [unfolded line_ok_def]
  have dev: "2 * \<bar>j * a - i * b\<bar> \<le> max a b" using l by blast
  have le: "j \<le> b" using line_ok_inside(2) [OF assms(1,2) _ assms(4)] assms(3) by simp
  have zero: "u = v" if "2 * \<bar>u * m - v * m\<bar> \<le> m" "0 < m" for u v m :: int
  proof (rule ccontr)
    assume "u \<noteq> v"
    then have "1 * m \<le> \<bar>u - v\<bar> * m" using that by (intro mult_right_mono) simp_all
    also have "\<dots> = \<bar>u * m - v * m\<bar>" using that(2) by (simp add: left_diff_distrib [symmetric] abs_mult)
    finally show False using that by simp
  qed
  show ?thesis
  proof (cases "b \<le> a")
    case True
    have ba: "b \<le> a" by fact
    then have i: "i = a" using l assms(3) by simp
    have "j = b"
    proof (cases "a = 0")
      case True
      then show ?thesis using ba le assms(2) l by simp
    next
      case False
      have "2 * \<bar>j * a - a * b\<bar> \<le> a" using dev unfolding i max_absorb1 [OF ba] .
      then have "2 * \<bar>j * a - b * a\<bar> \<le> a" by (simp add: mult.commute)
      then show ?thesis by (rule zero) (use False assms(1) in simp)
    qed
    then show ?thesis using i by simp
  next
    case False
    then have j: "j = b" using l assms(3) by simp
    have "2 * \<bar>b * a - i * b\<bar> \<le> b" using dev False unfolding j by (simp add: max_absorb2)
    then have "2 * \<bar>a * b - i * b\<bar> \<le> b" by (simp add: mult.commute)
    then have "a = i" by (rule zero) (use False assms(1) in simp)
    then show ?thesis using j by simp
  qed
qed

text \<open>The point the line reaches after \<open>k\<close> steps.\<close>

definition line_dir :: "u16 \<Rightarrow> u16 \<Rightarrow> int" where "line_dir p q = (if sint p < sint q then 1 else - 1)"
definition line_len :: "u16 \<Rightarrow> u16 \<Rightarrow> int" where "line_len p q = \<bar>sint q - sint p\<bar>"

definition line_point :: "u16 \<Rightarrow> u16 \<Rightarrow> u16 \<Rightarrow> u16 \<Rightarrow> nat \<Rightarrow> u16 \<times> u16" where
  "line_point x0 y0 x1 y1 k =
     (case line_steps (line_len x0 x1) (line_len y0 y1) k of (i, j) \<Rightarrow>
        (of_int (sint x0 + line_dir x0 x1 * i), of_int (sint y0 + line_dir y0 y1 * j)))"

lemma line_far_end: "sint q = sint p + line_dir p q * line_len p q"
  by (simp add: line_dir_def line_len_def)

lemma line_coord:
  assumes "0 \<le> i" "i \<le> line_len p q"
  shows "sint (of_int (sint p + line_dir p q * i) :: u16) = sint p + line_dir p q * i"
    and "of_int (sint p + line_dir p q * i) = q \<longleftrightarrow> i = line_len p q"
proof -
  have r: "- 32768 \<le> sint p + line_dir p q * i" "sint p + line_dir p q * i \<le> 32767"
    using assms sint16_bounds [of p] sint16_bounds [of q] unfolding line_dir_def line_len_def abs_if by presburger+
  then show s: "sint (of_int (sint p + line_dir p q * i) :: u16) = sint p + line_dir p q * i"
    by (rule sint16_of_int)
  have "of_int (sint p + line_dir p q * i) = q \<longleftrightarrow> sint (of_int (sint p + line_dir p q * i) :: u16) = sint q"
    by (auto intro: signed_word_eqI)
  also have "\<dots> \<longleftrightarrow> i = line_len p q"
    unfolding s line_far_end [of q p] by (simp add: line_dir_def)
  finally show "of_int (sint p + line_dir p q * i) = q \<longleftrightarrow> i = line_len p q" .
qed

lemma line_loop_step:
  assumes "\<not> (x = x1 \<and> y = y1)" "sint dx = a" "sint dy = b" "sint (2 * err) = 2 * e"
  shows "line_loop plot dx dy sx sy x1 y1 err x y s =
    line_loop plot dx dy sx sy x1 y1 (err - (if - b < 2 * e then dy else 0) + (if 2 * e < a then dx else 0))
      (if - b < 2 * e then x + sx else x) (if 2 * e < a then y + sy else y) (plot x y s)"
  using assms by (subst line_loop.simps) (auto simp: Let_def)

lemma line_loop_run:
  assumes len: "line_len x0 x1 \<le> 10922" "line_len y0 y1 \<le> 10922"
    and a: "a = line_len x0 x1" and b: "b = line_len y0 y1" and k: "k \<le> nat (max a b)"
    and ij: "line_steps a b k = (i, j)"
  shows "line_loop plot (of_int a) (of_int b) (of_int (line_dir x0 x1)) (of_int (line_dir y0 y1)) x1 y1
      (of_int (a - b + (j * a - i * b))) (of_int (sint x0 + line_dir x0 x1 * i)) (of_int (sint y0 + line_dir y0 y1 * j)) s
    = Some (plot_all plot (map (line_point x0 y0 x1 y1) [k..<Suc (nat (max a b))]) s)"
  using k ij
proof (induction "nat (max a b) - k" arbitrary: k i j s)
  case 0
  have nn: "0 \<le> a" "0 \<le> b" using a b by (simp_all add: line_len_def)
  have "k = nat (max a b)" using 0 by simp
  then have k: "int k = max a b" using nn by (simp add: max_def)
  have "line_ok a b k i j" using line_steps_ok [of a b k] nn k 0(3) by simp
  then have e: "i = a" "j = b" using line_ok_end [OF nn k] by auto
  have "line_point x0 y0 x1 y1 k = (x1, y1)"
    using 0(3) e line_coord(2) [of a x0 x1] line_coord(2) [of b y0 y1] nn a b by (simp add: line_point_def)
  moreover have "of_int (sint x0 + line_dir x0 x1 * a) = x1" "of_int (sint y0 + line_dir y0 y1 * b) = y1"
    using line_coord(2) [of a x0 x1] line_coord(2) [of b y0 y1] nn a b by simp_all
  ultimately show ?case
    using \<open>k = nat (max a b)\<close> e by (subst line_loop.simps) (simp add: Let_def plot_all_def)
next
  case (Suc n)
  have nn: "0 \<le> a" "0 \<le> b" using a b by (simp_all add: line_len_def)
  have lt: "int k < max a b" using Suc(2) nn by simp
  have ok: "line_ok a b k i j" using line_steps_ok [of a b k] nn lt Suc(4) by simp
  then have dev: "2 * \<bar>j * a - i * b\<bar> \<le> max a b" and ij: "0 \<le> i" "0 \<le> j" "i \<le> a" "j \<le> b"
    using line_ok_inside [OF nn _ ok] lt by (simp_all add: line_ok_def)
  have open_end: "\<not> (i = a \<and> j = b)" using ok lt by (auto simp: line_ok_def max_def split: if_splits)
  define e where "e = a - b + (j * a - i * b)"
  define i' where "i' = (if - b < 2 * e then i + 1 else i)"
  define j' where "j' = (if 2 * e < a then j + 1 else j)"
  have bound: "2 * e \<le> 32767" "- 32768 \<le> 2 * e" using dev len a b nn by (auto simp: e_def abs_if max_def split: if_splits)
  have s: "sint (of_int a :: u16) = a" "sint (of_int b :: u16) = b" "sint (2 * of_int e :: u16) = 2 * e"
    using len a b nn bound sint16_of_int [of "2 * e"] by (simp_all add: sint16_of_int)
  have nxt: "line_steps a b (Suc k) = (i', j')" using Suc(4) by (simp add: e_def i'_def j'_def Let_def)
  have e': "a - b + (j' * a - i' * b) = e - (if - b < 2 * e then b else 0) + (if 2 * e < a then a else 0)"
    by (simp add: e_def i'_def j'_def algebra_simps)
  have pt: "line_point x0 y0 x1 y1 k = (of_int (sint x0 + line_dir x0 x1 * i), of_int (sint y0 + line_dir y0 y1 * j))"
    using Suc(4) a b by (simp add: line_point_def)
  have ends: "of_int (sint x0 + line_dir x0 x1 * i) = x1 \<longleftrightarrow> i = a" "of_int (sint y0 + line_dir y0 y1 * j) = y1 \<longleftrightarrow> j = b"
    using line_coord(2) ij a b by simp_all
  have step: "line_loop plot (of_int a) (of_int b) (of_int (line_dir x0 x1)) (of_int (line_dir y0 y1)) x1 y1
      (of_int e) (of_int (sint x0 + line_dir x0 x1 * i)) (of_int (sint y0 + line_dir y0 y1 * j)) s
    = line_loop plot (of_int a) (of_int b) (of_int (line_dir x0 x1)) (of_int (line_dir y0 y1)) x1 y1
      (of_int (a - b + (j' * a - i' * b))) (of_int (sint x0 + line_dir x0 x1 * i')) (of_int (sint y0 + line_dir y0 y1 * j'))
      (plot (of_int (sint x0 + line_dir x0 x1 * i)) (of_int (sint y0 + line_dir y0 y1 * j)) s)"
    unfolding e'
    by (subst line_loop_step [OF _ s]) (use open_end ends in blast, simp add: i'_def j'_def algebra_simps)
  have "[k..<Suc (nat (max a b))] = k # [Suc k..<Suc (nat (max a b))]"
    using lt nn by (simp add: upt_rec)
  then show ?case
    unfolding e_def [symmetric] step
    using Suc(1) [of "Suc k" i' j'] Suc(2) lt nn nxt pt by (simp add: plot_all_def del: upt_Suc)
qed



section \<open>Bitmaps\<close>

definition bitmap_bit :: "bool \<Rightarrow> (nat \<Rightarrow> u8) \<Rightarrow> int \<Rightarrow> int \<Rightarrow> int \<Rightarrow> bool" where
  "bitmap_bit lsb bitmap bw j i =
     bit (bitmap (nat (j * bw + i div 8))) (nat (if lsb then i mod 8 else 7 - i mod 8))"

definition shifted :: "bool \<Rightarrow> nat \<Rightarrow> u8 \<Rightarrow> u8" where
  "shifted lsb n b = (if lsb then drop_bit n b else push_bit n b)"

lemma shifted_bit: "n < 8 \<Longrightarrow> (if lsb then bit (shifted lsb n b) 0 else bit (shifted lsb n b) 7) =
    bit b (if lsb then n else 7 - n)"
  by (auto simp: shifted_def bit_simps)

lemma upto_nat: "[0..n - 1] = map int [0..<nat n]"
  by (rule nth_equalityI) auto

lemma bit_reg_row:
  "bit_reg lsb bitmap bw j (int n) (if n = 0 then b else shifted lsb ((n - 1) mod 8) (bitmap (nat (j * bw + int ((n - 1) div 8)))))
    = shifted lsb (n mod 8) (bitmap (nat (j * bw + int (n div 8))))"
proof (cases "n mod 8 = 0")
  case True
  moreover from this have "int n mod 8 = 0" by presburger
  ultimately show ?thesis by (simp add: bit_reg_def shifted_def zdiv_int)
next
  case False
  then obtain k where k: "n = Suc k" by (cases n) auto
  have m: "Suc k mod 8 = Suc (k mod 8)" and d: "Suc k div 8 = k div 8"
    using False unfolding k by (simp_all add: mod_Suc div_Suc split: if_splits)
  have i: "int (Suc k) mod 8 \<noteq> 0"
    using False unfolding k by (metis int_ops(3) of_nat_0_eq_iff of_nat_mod of_nat_numeral)
  have "n - 1 = k" "n \<noteq> 0" using k by simp_all
  then show ?thesis
    unfolding bit_reg_def shifted_def k using i by (cases lsb) (simp_all only: m d if_True if_False not_False_eq_True
        push_bit_push_bit drop_bit_drop_bit plus_1_eq_Suc diff_Suc_1 nat.simps)
qed

lemma bitmap_row:
  "fold (\<lambda>i (b, s). let b = bit_reg lsb bitmap bw j i b in (b, px i (if lsb then bit b 0 else bit b 7) s)) (map int [0..<n]) (b, s)
    = (if n = 0 then b else shifted lsb ((n - 1) mod 8) (bitmap (nat (j * bw + int ((n - 1) div 8)))),
       fold (\<lambda>i. px i (bitmap_bit lsb bitmap bw j i)) (map int [0..<n]) s)"
proof (induction n)
  case (Suc n)
  let ?byte = "bitmap (nat (j * bw + int (n div 8)))"
  have bt: "(if lsb then bit (shifted lsb (n mod 8) ?byte) 0 else bit (shifted lsb (n mod 8) ?byte) 7)
      = bitmap_bit lsb bitmap bw j (int n)"
  proof -
    have "nat (int n mod 8) = n mod 8" "nat (7 - int n mod 8) = 7 - n mod 8"
      by (simp_all add: nat_mod_distrib nat_diff_distrib')
    then show ?thesis
      using shifted_bit [of "n mod 8" lsb ?byte] by (cases lsb) (simp_all add: bitmap_bit_def zdiv_int)
  qed
  define prev where
    "prev = (if n = 0 then b else shifted lsb ((n - 1) mod 8) (bitmap (nat (j * bw + int ((n - 1) div 8)))))"
  have reg: "bit_reg lsb bitmap bw j (int n) prev = shifted lsb (n mod 8) ?byte"
    unfolding prev_def by (rule bit_reg_row)
  show ?case
    using Suc [folded prev_def] reg bt by (cases lsb) (simp_all add: Let_def)
qed simp

lemma bitmap_loop_bits:
  "bitmap_loop lsb bitmap w h px s =
    fold (\<lambda>j. fold (\<lambda>i. px j i (bitmap_bit lsb bitmap (sint (of_int (cdiv (sint w + 7) 8) :: u16)) j i)) [0..sint w - 1])
      [0..sint h - 1] s"
proof -
  let ?bw = "sint (of_int (cdiv (sint w + 7) 8) :: u16)"
  have "snd (fold (\<lambda>j. fold (\<lambda>i (b, s). let b = bit_reg lsb bitmap ?bw j i b in
            (b, px j i (if lsb then bit b 0 else bit b 7) s)) [0..sint w - 1]) js (b, s))
      = fold (\<lambda>j. fold (\<lambda>i. px j i (bitmap_bit lsb bitmap ?bw j i)) [0..sint w - 1]) js s" for js b
    unfolding upto_nat by (induction js arbitrary: b s) (simp_all add: bitmap_row)
  then show ?thesis by (simp add: bitmap_loop_def Let_def)
qed

text \<open>The shift register of the one-bit bitmap routines reads the bits in the order of the format: the routine draws,
  row by row, exactly the pixels whose bit is set, taking bit \<open>7 - i mod 8\<close> of byte \<open>i div 8\<close> of the row, and the
  XBM variant bit \<open>i mod 8\<close>.\<close>

theorem bitmap_draws_set_bits:
  "drawBitmap plot x y bitmap w h c s =
     fold (\<lambda>j. fold (\<lambda>i s. if bit (bitmap (nat (j * sint (of_int (cdiv (sint w + 7) 8) :: u16) + i div 8))) (nat (7 - i mod 8))
                      then plot (x + of_int i) (y + of_int j) c s else s) [0..sint w - 1]) [0..sint h - 1] s \<and>
   drawXBitmap plot x y bitmap w h c s =
     fold (\<lambda>j. fold (\<lambda>i s. if bit (bitmap (nat (j * sint (of_int (cdiv (sint w + 7) 8) :: u16) + i div 8))) (nat (i mod 8))
                      then plot (x + of_int i) (y + of_int j) c s else s) [0..sint w - 1]) [0..sint h - 1] s"
  unfolding drawBitmap_def drawXBitmap_def bitmap_loop_bits bitmap_bit_def by simp

section \<open>The pitch of a canvas\<close>

lemma fold_nested: "fold (\<lambda>j. fold (\<lambda>i. f j i) is) js s = fold (\<lambda>(j, i). f j i) (List.product js is) s"
proof (induction js arbitrary: s)
  case (Cons j js)
  have "fold (\<lambda>(j, i). f j i) (map (Pair j) is) s = fold (f j) is s" for s
    by (simp add: fold_map o_def)
  then show ?case using Cons by simp
qed simp

lemma fold_stores_elsewhere:
  "canvas_wf cv \<Longrightarrow> cv_buffer cv \<noteq> None \<Longrightarrow> \<forall>q\<in>set qs. at q < cv_pixels cv \<and> at q \<noteq> n \<Longrightarrow> n < cv_pixels cv \<Longrightarrow>
   cv_pixel (fold (\<lambda>q. cv_store (c q) (at q)) qs cv) n = cv_pixel cv n"
proof (induction qs arbitrary: cv)
  case (Cons q qs)
  have k: "cv_kept cv (cv_store (c q) (at q) cv)" using Cons.prems by (intro cv_store_kept) auto
  show ?case using Cons.prems Cons.IH [of "cv_store (c q) (at q) cv"] cv_kept_fields [OF k] by (auto simp: cv_store_pixel)
qed simp

lemma cv_stride: "cv_pitch div 4 = 0"
  by (simp add: cv_pitch_def)

text \<open>\<^verbatim>\<open>drawRGB565Bitmap\<close> on an ARGB8888 canvas never changes a pixel below the first row, however tall the
  bitmap and wherever it is placed: it steps its destination by \<^verbatim>\<open>m_pitch / 4\<close>, which a canvas leaves at 0, so
  every row of the bitmap is written over the previous one.\<close>

theorem rgb565_bitmap_collapses:
  assumes wf: "canvas_wf cv" and buf: "cv_buffer cv \<noteq> None" and size: "0 \<le> sint w" "sint x + sint w \<le> 32767"
    and n: "nat (sint (m_width cv)) \<le> n" "n < cv_pixels cv"
  shows "cv_pixel (drawRGB565Bitmap x y bitmap w h cv) n = cv_pixel cv n"
proof (cases "cv_mapped cv")
  case True
  let ?W = "sint (m_width cv)"
  define x0 where "x0 = (if sint x < 0 then 0 else x)"
  define x1 where "x1 = (if sint (x + w) > ?W then m_width cv else x + w)"
  define dw where "dw = x1 - x0"
  have xw: "sint (x + w) = sint x + sint w" using size sint16_bounds [of x] by (intro sint16_add) simp_all
  have x0: "0 \<le> sint x0" by (simp add: x0_def)
  have end_dw: "sint x0 + sint dw \<le> ?W" if "0 < sint dw"
  proof (cases "sint x < 0")
    case True
    then have "x0 = 0" "dw = x1" by (simp_all add: x0_def dw_def)
    moreover have "sint x1 \<le> ?W" by (simp add: x1_def)
    ultimately show ?thesis by simp
  next
    case False
    then have "0 \<le> sint x1" using xw size wf by (simp add: x1_def canvas_wf_def)
    then have "sint dw = sint x1 - sint x0" using x0 unfolding dw_def by (rule sint16_diff)
    moreover have "sint x1 \<le> ?W" by (simp add: x1_def)
    ultimately show ?thesis by simp
  qed
  have "\<exists>c dh. drawRGB565Bitmap x y bitmap w h cv = (if sint dw \<le> 0 \<or> sint dh \<le> 0 then cv
      else fold (\<lambda>j. fold (\<lambda>i. cv_store (c j i) (nat (sint x0) + nat i)) [0..sint dw - 1]) [0..sint (dh :: u16) - 1] cv)"
    unfolding drawRGB565Bitmap_def Let_def x0_def [symmetric] x1_def [symmetric] dw_def [symmetric]
    unfolding cv_stride mult_0_right add_0 add_0_right
    by (intro exI) (subst if_not_P, simp add: True, rule refl)
  then obtain c and dh :: u16 where run: "drawRGB565Bitmap x y bitmap w h cv = (if sint dw \<le> 0 \<or> sint dh \<le> 0 then cv
      else fold (\<lambda>j. fold (\<lambda>i. cv_store (c j i) (nat (sint x0) + nat i)) [0..sint dw - 1]) [0..sint dh - 1] cv)"
    by blast
  show ?thesis
  proof (cases "sint dw \<le> 0 \<or> sint dh \<le> 0")
    case False
    let ?at = "\<lambda>q. nat (sint x0) + nat (snd q)"
    let ?qs = "List.product [0..sint dh - 1] [0..sint dw - 1]"
    have "\<forall>q\<in>set ?qs. ?at q < nat ?W"
      using end_dw False x0 by auto
    then have "\<forall>q\<in>set ?qs. ?at q < cv_pixels cv \<and> ?at q \<noteq> n"
      using n by fastforce
    then have "cv_pixel (fold (\<lambda>q. cv_store (c (fst q) (snd q)) (?at q)) ?qs cv) n = cv_pixel cv n"
      using wf buf n(2) by (intro fold_stores_elsewhere) simp_all
    then show ?thesis unfolding run fold_nested using False by (simp add: case_prod_unfold)
  qed (simp add: run)
qed (simp add: drawRGB565Bitmap_def)

theorem rgb565_bitmap_collapses_witness:
  "\<forall>bitmap. cv_pixel (drawRGB565Bitmap 0 0 bitmap 3 2 (small_canvas ARGB8888)) 3 = cv_pixel (small_canvas ARGB8888) 3"
proof
  fix bitmap
  have n: "3 < cv_pixels (small_canvas ARGB8888)" by (simp add: cv_pixels_def)
  show "cv_pixel (drawRGB565Bitmap 0 0 bitmap 3 2 (small_canvas ARGB8888)) 3 = cv_pixel (small_canvas ARGB8888) 3"
    by (rule rgb565_bitmap_collapses) (use n in simp_all)
qed

end
