(* ===== verification/Ring.thy ===== *)
theory Ring
  imports Prelude
begin

text \<open>
  The two ring buffers of the services: the byte ring of usbd (services/usbd.cpp, free-running 32-bit
  counters, bulk copies that wrap) and the single-producer ring of the southbridge driver
  (libs/hwinterface/ring_buffer.h, masked indices, one slot kept free). Both are shown to implement a queue, the
  locale \<open>fifo\<close>, whose client lemma says that what any sequence of calls put in comes out once and in order.
  Each call is atomic: the byte ring takes its mutex, the other has one producer and one consumer.
\<close>

section \<open>The contract of a queue\<close>

text \<open>A sequence of calls, with the items taken in and given out.\<close>

fun run_ops :: "('x \<Rightarrow> 'r \<Rightarrow> 'a list \<times> 'r) \<Rightarrow> ('g \<Rightarrow> 'r \<Rightarrow> 'a list \<times> 'r) \<Rightarrow> ('x + 'g) list \<Rightarrow> 'r \<Rightarrow>
    ('a list \<times> 'a list) \<times> 'r" where
  "run_ops put get [] r = (([], []), r)"
| "run_ops put get (Inl x # ops) r =
     (let (taken, r) = put x r; ((ins, outs), r) = run_ops put get ops r in ((taken @ ins, outs), r))"
| "run_ops put get (Inr g # ops) r =
     (let (given, r) = get g r; ((ins, outs), r) = run_ops put get ops r in ((ins, given @ outs), r))"

text \<open>\<open>put\<close> answers with the items it took, \<open>get\<close> with the items it gave.\<close>

locale fifo =
  fixes inv :: "'r \<Rightarrow> bool"
    and content :: "'r \<Rightarrow> 'a list"
    and put :: "'x \<Rightarrow> 'r \<Rightarrow> 'a list \<times> 'r"
    and get :: "'g \<Rightarrow> 'r \<Rightarrow> 'a list \<times> 'r"
  assumes put_inv: "inv r \<Longrightarrow> inv (snd (put x r))"
    and get_inv: "inv r \<Longrightarrow> inv (snd (get g r))"
    and put_content: "inv r \<Longrightarrow> content (snd (put x r)) = content r @ fst (put x r)"
    and get_content: "inv r \<Longrightarrow> content r = fst (get g r) @ content (snd (get g r))"
begin

lemma run_conserves:
  "inv r \<Longrightarrow> inv (snd (run_ops put get ops r)) \<and>
   content r @ fst (fst (run_ops put get ops r)) = snd (fst (run_ops put get ops r)) @ content (snd (run_ops put get ops r))"
proof (induction ops arbitrary: r)
  case (Cons op ops)
  show ?case
  proof (cases op)
    case (Inl x)
    then show ?thesis
      using Cons.IH [OF put_inv [OF Cons.prems, of x]] put_content [OF Cons.prems, of x]
      by (simp add: case_prod_beta Let_def)
  next
    case (Inr g)
    then show ?thesis
      using Cons.IH [OF get_inv [OF Cons.prems, of g]] get_content [OF Cons.prems, of g]
      by (simp add: case_prod_beta Let_def)
  qed
qed simp

text \<open>From an empty queue, the items given out are a prefix of the items taken in, and the rest is inside.\<close>

lemma run_fifo:
  "inv r \<Longrightarrow> content r = [] \<Longrightarrow> run_ops put get ops r = ((ins, outs), r') \<Longrightarrow> ins = outs @ content r'"
  using run_conserves [of r ops] by simp

end

section \<open>Copies that wrap\<close>

definition wrap_put :: "nat \<Rightarrow> 'a list \<Rightarrow> 'a list \<Rightarrow> 'a list" where
  "wrap_put pos data buf =
     (if pos + length data \<le> length buf then memcpy_at pos data buf
      else
        let first = length buf - pos
        in memcpy_at 0 (drop first data) (memcpy_at pos (take first data) buf))"

definition wrap_get :: "nat \<Rightarrow> nat \<Rightarrow> 'a list \<Rightarrow> 'a list" where
  "wrap_get pos len buf =
     (if pos + len \<le> length buf then take len (drop pos buf)
      else drop pos buf @ take (len - (length buf - pos)) buf)"

lemma length_wrap_put [simp]:
  "pos < length buf \<Longrightarrow> length data \<le> length buf \<Longrightarrow> length (wrap_put pos data buf) = length buf"
  by (auto simp: wrap_put_def Let_def)

lemma nth_memcpy:
  "off + length src \<le> length dst \<Longrightarrow> i < length dst \<Longrightarrow>
   memcpy_at off src dst ! i = (if off \<le> i \<and> i < off + length src then src ! (i - off) else dst ! i)"
  by (auto simp: memcpy_at_def nth_append)

lemma wrap_index: "pos < n \<Longrightarrow> k < n \<Longrightarrow> (pos + k) mod n = (if pos + k < n then pos + k else pos + k - n)"
  for pos n k :: nat
  by (auto simp: mod_if)

lemma nth_wrap_put:
  assumes "pos < length buf" "length data \<le> length buf" "k < length buf"
  shows "wrap_put pos data buf ! ((pos + k) mod length buf) =
    (if k < length data then data ! k else buf ! ((pos + k) mod length buf))"
  using assms by (auto simp: wrap_put_def Let_def wrap_index nth_memcpy)

lemma wrap_get_nth:
  assumes "pos < length buf" "len \<le> length buf"
  shows "wrap_get pos len buf = map (\<lambda>k. buf ! ((pos + k) mod length buf)) [0..<len]"
  using assms by (intro nth_equalityI) (auto simp: wrap_get_def wrap_index nth_append add.commute)

section \<open>The byte ring of usbd\<close>

record byte_ring =
  br_buf :: bytes
  br_cap :: u32
  br_head :: u32
  br_tail :: u32

text \<open>\<open>mem\<close> is the allocation, with whatever it holds.\<close>

definition br_init :: "bytes \<Rightarrow> byte_ring" where
  "br_init mem = \<lparr>br_buf = mem, br_cap = of_nat (length mem), br_head = 0, br_tail = 0\<rparr>"

definition br_used :: "byte_ring \<Rightarrow> u32" where "br_used r = br_head r - br_tail r"
definition br_free_space :: "byte_ring \<Rightarrow> u32" where "br_free_space r = br_cap r - br_used r"

definition br_write :: "bytes \<Rightarrow> byte_ring \<Rightarrow> nat \<times> byte_ring" where
  "br_write data r =
     (let avail = br_cap r - (br_head r - br_tail r);
          len = (if unat avail < length data then unat avail else length data);
          pos = unat (br_head r mod br_cap r)
      in (len, r\<lparr>br_buf := wrap_put pos (take len data) (br_buf r), br_head := br_head r + of_nat len\<rparr>))"

text \<open>\<open>read_exact\<close> without the wait: \<open>None\<close> when the bytes are not there, which the caller's timeout turns into
  false.\<close>

definition br_read_exact :: "nat \<Rightarrow> byte_ring \<Rightarrow> (bytes \<times> byte_ring) option" where
  "br_read_exact len r =
     (if unat (br_head r - br_tail r) < len then None
      else
        let pos = unat (br_tail r mod br_cap r)
        in Some (wrap_get pos len (br_buf r), r\<lparr>br_tail := br_tail r + of_nat len\<rparr>))"

text \<open>The capacity divides $2^{32}$, so that the free-running counters may wrap.\<close>

definition br_inv :: "byte_ring \<Rightarrow> bool" where
  "br_inv r \<longleftrightarrow> unat (br_cap r) = length (br_buf r) \<and> 0 < length (br_buf r) \<and> length (br_buf r) dvd 2 ^ 32 \<and>
     length (br_buf r) < 2 ^ 32 \<and> unat (br_head r - br_tail r) \<le> length (br_buf r)"

definition br_content :: "byte_ring \<Rightarrow> bytes" where
  "br_content r =
     map (\<lambda>k. br_buf r ! ((unat (br_tail r) + k) mod length (br_buf r))) [0..<unat (br_head r - br_tail r)]"

lemma length_br_content [simp]: "length (br_content r) = unat (br_head r - br_tail r)"
  by (simp add: br_content_def)

lemma br_init_inv: "0 < length mem \<Longrightarrow> length mem dvd 2 ^ 32 \<Longrightarrow> length mem < 2 ^ 32 \<Longrightarrow> br_inv (br_init mem)"
  by (simp add: br_inv_def br_init_def unat_of_nat_lt)

lemma br_init_empty [simp]: "br_content (br_init mem) = []"
  by (simp add: br_content_def br_init_def)

text \<open>The counters stand for positions modulo the capacity.\<close>

lemma unat_add_mod32: "n dvd 2 ^ 32 \<Longrightarrow> unat ((a :: u32) + b) mod n = (unat a + unat b) mod n"
  by (simp add: unat_word_ariths mod_mod_cancel)

lemma br_head_pos:
  assumes "br_inv r"
  shows "unat (br_head r mod br_cap r) = (unat (br_tail r) + length (br_content r)) mod length (br_buf r)"
proof -
  have "unat (br_head r mod br_cap r) = unat (br_tail r + (br_head r - br_tail r)) mod length (br_buf r)"
    using assms by (simp add: br_inv_def unat_mod)
  also have "\<dots> = (unat (br_tail r) + unat (br_head r - br_tail r)) mod length (br_buf r)"
    using assms by (intro unat_add_mod32) (simp add: br_inv_def)
  finally show ?thesis by simp
qed

lemma br_free:
  assumes "br_inv r"
  shows "unat (br_cap r - (br_head r - br_tail r)) = length (br_buf r) - length (br_content r)"
  using assms by (subst unat_sub) (simp_all add: br_inv_def word_le_nat_alt)

lemma unat_plus_small: "unat (a :: u32) + n < 2 ^ 32 \<Longrightarrow> unat (a + of_nat n) = unat a + n"
  by (simp add: unat_word_ariths unat_of_nat_lt)

lemma br_write_spec:
  assumes inv: "br_inv r" and w: "br_write data r = (n, r')"
  shows "n = min (length data) (length (br_buf r) - length (br_content r)) \<and> br_inv r' \<and>
    br_content r' = br_content r @ take n data \<and> length (br_buf r') = length (br_buf r)"
proof -
  let ?cap = "length (br_buf r)" and ?used = "length (br_content r)"
  let ?pos = "(unat (br_tail r) + ?used) mod ?cap"
  note i = inv [unfolded br_inv_def]
  have n: "n = min (length data) (?cap - ?used)"
    using w br_free [OF inv] by (auto simp: br_write_def Let_def min_def)
  have r': "r' = r\<lparr>br_buf := wrap_put ?pos (take n data) (br_buf r), br_head := br_head r + of_nat n\<rparr>"
    using w br_head_pos [OF inv] by (auto simp: br_write_def Let_def)
  have cap: "0 < ?cap" "?used \<le> ?cap" "?cap < 2 ^ 32" using i by simp_all
  have n32: "?used + n < 2 ^ 32" "?used + n \<le> ?cap" using n cap by simp_all
  have used': "unat (br_head r' - br_tail r') = ?used + n"
  proof -
    have "br_head r' - br_tail r' = (br_head r - br_tail r) + of_nat n" by (simp add: r')
    then show ?thesis using n32 unat_plus_small [of "br_head r - br_tail r" n] by simp
  qed
  have len': "length (br_buf r') = ?cap" using cap n by (simp add: r')
  have "br_inv r'" unfolding br_inv_def using i used' n32 len' by (simp add: r')
  moreover have "br_content r' = br_content r @ take n data"
  proof (rule nth_equalityI)
    fix k assume "k < length (br_content r')"
    then have k: "k < ?used + n" using used' by simp
    define q where "q = (if k < ?used then ?cap - ?used + k else k - ?used)"
    have q: "q < ?cap" using k cap n32 by (auto simp: q_def)
    have at: "(unat (br_tail r) + k) mod ?cap = (?pos + q) mod ?cap"
    proof -
      have "(?pos + q) mod ?cap = (unat (br_tail r) + ?used + q) mod ?cap" by (simp add: mod_add_left_eq)
      also have "\<dots> = (unat (br_tail r) + k) mod ?cap"
      proof (cases "k < ?used")
        case True
        then have "unat (br_tail r) + ?used + q = (unat (br_tail r) + k) + ?cap" using cap by (simp add: q_def)
        then show ?thesis by (simp only: mod_add_self2)
      qed (simp add: q_def)
      finally show ?thesis by simp
    qed
    have "br_content r' ! k = br_buf r' ! ((?pos + q) mod ?cap)"
      using k used' len' at by (simp add: br_content_def r')
    also have "\<dots> = (if q < n then data ! q else br_buf r ! ((?pos + q) mod ?cap))"
      using q n cap by (simp add: r' nth_wrap_put)
    also have "\<dots> = (br_content r @ take n data) ! k"
      using k n at by (auto simp: q_def nth_append br_content_def)
    finally show "br_content r' ! k = (br_content r @ take n data) ! k" .
  qed (use used' n in simp)
  ultimately show ?thesis using n len' by simp
qed

lemma br_read_short: "length (br_content r) < n \<longleftrightarrow> br_read_exact n r = None"
  by (simp add: br_read_exact_def Let_def)

lemma br_read_spec:
  assumes inv: "br_inv r" and rd: "br_read_exact n r = Some (out, r')"
  shows "out = take n (br_content r) \<and> n \<le> length (br_content r) \<and> br_inv r' \<and> br_content r' = drop n (br_content r) \<and>
    length (br_buf r') = length (br_buf r)"
proof -
  let ?cap = "length (br_buf r)" and ?used = "length (br_content r)"
  let ?pos = "unat (br_tail r) mod ?cap"
  note i = inv [unfolded br_inv_def]
  have n: "n \<le> ?used" and out: "out = wrap_get ?pos n (br_buf r)"
    and r': "r' = r\<lparr>br_tail := br_tail r + of_nat n\<rparr>"
    using rd i by (auto simp: br_read_exact_def Let_def unat_mod split: if_splits)
  have cap: "0 < ?cap" "?used \<le> ?cap" "?cap < 2 ^ 32" "?cap dvd 2 ^ 32" using i by simp_all
  have used': "unat (br_head r' - br_tail r') = ?used - n"
  proof -
    have "br_head r' - br_tail r' = (br_head r - br_tail r) - of_nat n" by (simp add: r')
    moreover have "(of_nat n :: u32) \<le> br_head r - br_tail r"
      using n cap by (simp add: word_le_nat_alt unat_of_nat_lt)
    ultimately show ?thesis using n cap by (simp add: unat_sub unat_of_nat_lt)
  qed
  have at: "unat (br_tail r') mod ?cap = (unat (br_tail r) + n) mod ?cap"
    using unat_add_mod32 [OF cap(4), of "br_tail r" "of_nat n"] n cap by (simp add: r' unat_of_nat_lt)
  have "out = take n (br_content r)"
    unfolding out using n cap
    by (subst wrap_get_nth) (simp_all add: br_content_def take_map mod_add_left_eq del: upt_Suc)
  moreover have "br_content r' = drop n (br_content r)"
  proof (rule nth_equalityI)
    fix k assume "k < length (br_content r')"
    then have k: "k < ?used - n" using used' by simp
    then have nk: "n + k < ?used" using n by simp
    have "(unat (br_tail r') + k) mod ?cap = (unat (br_tail r) + (n + k)) mod ?cap"
      using at by (metis add.assoc mod_add_left_eq)
    then show "br_content r' ! k = drop n (br_content r) ! k"
      using k nk used' by (simp add: br_content_def r')
  qed (use used' in simp)
  moreover have "br_inv r'" unfolding br_inv_def using i used' n by (simp add: r', linarith)
  ultimately show ?thesis using n by (simp add: r')
qed

text \<open>The two calls as a queue: a read that would wait gives nothing.\<close>

definition br_put :: "bytes \<Rightarrow> byte_ring \<Rightarrow> bytes \<times> byte_ring" where
  "br_put data r = (case br_write data r of (n, r) \<Rightarrow> (take n data, r))"

definition br_get :: "nat \<Rightarrow> byte_ring \<Rightarrow> bytes \<times> byte_ring" where
  "br_get n r = (case br_read_exact n r of None \<Rightarrow> ([], r) | Some (out, r) \<Rightarrow> (out, r))"

interpretation bytes_queue: fifo br_inv br_content br_put br_get
proof
  fix r x n assume inv: "br_inv r"
  obtain k r' where w: "br_write x r = (k, r')" by fastforce
  show "br_inv (snd (br_put x r))" "br_content (snd (br_put x r)) = br_content r @ fst (br_put x r)"
    using br_write_spec [OF inv w] w by (simp_all add: br_put_def)
  show "br_inv (snd (br_get n r))" "br_content r = fst (br_get n r) @ br_content (snd (br_get n r))"
    using br_read_spec [OF inv, of n] inv by (auto simp: br_get_def split: option.splits)
qed

section \<open>The single-producer ring of the southbridge driver\<close>

record 'a spsc_ring =
  rq_capacity :: u64
  rq_mask :: u64
  rq_buf :: "'a list"
  rq_head :: u64
  rq_tail :: u64

definition rq_new :: "u64 \<Rightarrow> 'a \<Rightarrow> 'a spsc_ring" where
  "rq_new capacity x =
     \<lparr>rq_capacity = capacity, rq_mask = capacity - 1, rq_buf = replicate (unat capacity) x, rq_head = 0, rq_tail = 0\<rparr>"

definition rq_push :: "'a \<Rightarrow> 'a spsc_ring \<Rightarrow> bool \<times> 'a spsc_ring" where
  "rq_push item r =
     (let h = rq_head r; next = (h + 1) AND rq_mask r in
      if next = rq_tail r then (False, r)
      else (True, r\<lparr>rq_buf := (rq_buf r)[unat h := item], rq_head := next\<rparr>))"

definition rq_push_overwrite :: "'a \<Rightarrow> 'a spsc_ring \<Rightarrow> 'a spsc_ring" where
  "rq_push_overwrite item r =
     (let h = rq_head r; next = (h + 1) AND rq_mask r;
          r = (if next = rq_tail r then r\<lparr>rq_tail := (rq_tail r + 1) AND rq_mask r\<rparr> else r)
      in r\<lparr>rq_buf := (rq_buf r)[unat h := item], rq_head := next\<rparr>)"

definition rq_pop :: "'a spsc_ring \<Rightarrow> 'a option \<times> 'a spsc_ring" where
  "rq_pop r =
     (let t = rq_tail r in
      if t = rq_head r then (None, r) else (Some (rq_buf r ! unat t), r\<lparr>rq_tail := (t + 1) AND rq_mask r\<rparr>))"

definition rq_size :: "'a spsc_ring \<Rightarrow> u64" where
  "rq_size r = (rq_head r - rq_tail r) AND rq_mask r"

definition rq_empty :: "'a spsc_ring \<Rightarrow> bool" where "rq_empty r \<longleftrightarrow> rq_size r = 0"

definition rq_inv :: "'a spsc_ring \<Rightarrow> bool" where
  "rq_inv r \<longleftrightarrow> (\<exists>m < 64. rq_mask r = mask m \<and> length (rq_buf r) = 2 ^ m) \<and>
     unat (rq_head r) < length (rq_buf r) \<and> unat (rq_tail r) < length (rq_buf r)"

definition rq_content :: "'a spsc_ring \<Rightarrow> 'a list" where
  "rq_content r = map (\<lambda>k. rq_buf r ! ((unat (rq_tail r) + k) mod length (rq_buf r))) [0..<unat (rq_size r)]"

lemma rq_masked:
  assumes "rq_inv r"
  shows "unat ((a + b) AND rq_mask r) = (unat a + unat b) mod length (rq_buf r)"
proof -
  obtain m where m: "m < 64" "rq_mask r = mask m" "length (rq_buf r) = 2 ^ m" using assms by (auto simp: rq_inv_def)
  have d: "(2 :: nat) ^ m dvd 2 ^ 64" using m(1) by (intro le_imp_power_dvd) simp
  have "unat ((a + b) AND rq_mask r) = unat (a + b) mod 2 ^ m"
    by (simp only: m(2) take_bit_eq_mask [symmetric] unsigned_take_bit_eq) (simp only: take_bit_eq_mod)
  also have "\<dots> = (unat a + unat b) mod 2 ^ m"
    using d by (simp add: unat_word_ariths mod_mod_cancel)
  finally show ?thesis by (simp add: m(3))
qed

lemma rq_size_pos:
  assumes "rq_inv r"
  shows "(unat (rq_tail r) + unat (rq_size r)) mod length (rq_buf r) = unat (rq_head r)"
    and "unat (rq_size r) < length (rq_buf r)"
proof -
  let ?n = "length (rq_buf r)"
  have size: "unat (rq_size r) = unat (rq_head r - rq_tail r) mod ?n"
    using rq_masked [OF assms, of "rq_head r - rq_tail r" 0] by (simp add: rq_size_def)
  have "(unat (rq_tail r) + unat (rq_size r)) mod ?n = (unat (rq_tail r) + unat (rq_head r - rq_tail r)) mod ?n"
    by (simp add: size mod_add_right_eq)
  also have "\<dots> = unat (rq_head r AND rq_mask r)"
    using rq_masked [OF assms, of "rq_tail r" "rq_head r - rq_tail r"] by simp
  also have "\<dots> = unat (rq_head r)"
    using rq_masked [OF assms, of "rq_head r" 0] assms by (simp add: rq_inv_def)
  finally show "(unat (rq_tail r) + unat (rq_size r)) mod ?n = unat (rq_head r)" .
  have "0 < ?n" using assms by (auto simp: rq_inv_def)
  then show "unat (rq_size r) < ?n" by (simp add: size)
qed

lemma rq_size_unique:
  assumes "rq_inv r" "u < length (rq_buf r)" "(unat (rq_tail r) + u) mod length (rq_buf r) = unat (rq_head r)"
  shows "unat (rq_size r) = u"
proof -
  have t: "unat (rq_tail r) < length (rq_buf r)" using assms(1) by (simp add: rq_inv_def)
  show ?thesis
    using rq_size_pos [OF assms(1)] assms(2,3) t by (auto simp: wrap_index split: if_splits)
qed

lemma length_rq_content [simp]: "length (rq_content r) = unat (rq_size r)"
  by (simp add: rq_content_def)

lemma rq_next:
  assumes "rq_inv r"
  shows "unat ((rq_head r + 1) AND rq_mask r) = (unat (rq_head r) + 1) mod length (rq_buf r)"
    and "unat ((rq_tail r + 1) AND rq_mask r) = (unat (rq_tail r) + 1) mod length (rq_buf r)"
  using rq_masked [OF assms, of _ 1] by simp_all

lemma rq_full_iff:
  assumes "rq_inv r"
  shows "(rq_head r + 1) AND rq_mask r = rq_tail r \<longleftrightarrow> Suc (length (rq_content r)) = length (rq_buf r)"
proof -
  let ?n = "length (rq_buf r)" and ?u = "unat (rq_size r)"
  have b: "unat (rq_tail r) < ?n" "?u < ?n" using assms rq_size_pos(2) by (auto simp: rq_inv_def)
  have "unat ((rq_head r + 1) AND rq_mask r) = (unat (rq_tail r) + Suc ?u) mod ?n"
    using rq_next(1) [OF assms] rq_size_pos(1) [OF assms] by (metis Suc_eq_plus1 add_Suc_right mod_Suc_eq)
  then have "(rq_head r + 1) AND rq_mask r = rq_tail r \<longleftrightarrow> (unat (rq_tail r) + Suc ?u) mod ?n = unat (rq_tail r)"
    by (metis word_unat_eq_iff)
  also have "\<dots> \<longleftrightarrow> Suc ?u = ?n"
    using b by (auto simp: mod_if)
  finally show ?thesis by simp
qed

lemma rq_store:
  fixes r :: "'a spsc_ring" and item :: 'a
  assumes inv: "rq_inv r" and room: "Suc (length (rq_content r)) < length (rq_buf r)"
  defines "r' \<equiv> r\<lparr>rq_buf := (rq_buf r)[unat (rq_head r) := item], rq_head := (rq_head r + 1) AND rq_mask r\<rparr>"
  shows "rq_inv r'" and "rq_content r' = rq_content r @ [item]"
proof -
  let ?n = "length (rq_buf r)" and ?u = "unat (rq_size r)" and ?t = "unat (rq_tail r)"
  have b: "?t < ?n" "unat (rq_head r) < ?n" "?u < ?n" and pos: "(?t + ?u) mod ?n = unat (rq_head r)"
    using inv rq_size_pos [OF inv] by (auto simp: rq_inv_def)
  have head: "unat (rq_head r') = (unat (rq_head r) + 1) mod ?n"
    using rq_next(1) [OF inv] by (simp add: r'_def)
  have n0: "0 < ?n" using b(1) by linarith
  show inv': "rq_inv r'"
    using inv head b n0 by (simp add: rq_inv_def r'_def)
  have "(?t + Suc ?u) mod ?n = unat (rq_head r')"
    using pos by (simp add: head mod_Suc_eq flip: pos)
  then have size: "unat (rq_size r') = Suc ?u"
    using room by (intro rq_size_unique [OF inv']) (simp_all add: r'_def)
  show "rq_content r' = rq_content r @ [item]"
  proof (rule nth_equalityI)
    fix k assume k: "k < length (rq_content r')"
    have kn: "k < ?n" using k size room by simp
    have at: "rq_content r' ! k = (rq_buf r)[unat (rq_head r) := item] ! ((?t + k) mod ?n)"
      using k by (simp add: rq_content_def r'_def)
    show "rq_content r' ! k = (rq_content r @ [item]) ! k"
    proof (cases "k = ?u")
      case True
      then show ?thesis using at pos b by (simp add: nth_append)
    next
      case False
      then have "k < ?u" using k size by simp
      moreover have "(?t + k) mod ?n \<noteq> unat (rq_head r)"
        using pos b False kn by (auto simp: wrap_index split: if_splits)
      ultimately show ?thesis using at by (simp add: nth_append rq_content_def)
    qed
  qed (simp add: size)
qed

lemma rq_drop_oldest:
  fixes r :: "'a spsc_ring"
  assumes inv: "rq_inv r" and ne: "rq_content r \<noteq> []"
  defines "r' \<equiv> r\<lparr>rq_tail := (rq_tail r + 1) AND rq_mask r\<rparr>"
  shows "rq_inv r'" and "rq_content r' = tl (rq_content r)" and "hd (rq_content r) = rq_buf r ! unat (rq_tail r)"
proof -
  let ?n = "length (rq_buf r)" and ?u = "unat (rq_size r)" and ?t = "unat (rq_tail r)"
  have b: "?t < ?n" "?u < ?n" "0 < ?u" and pos: "(?t + ?u) mod ?n = unat (rq_head r)"
    using inv ne rq_size_pos [OF inv] by (auto simp: rq_inv_def simp flip: length_greater_0_conv)
  have tail: "unat (rq_tail r') = (?t + 1) mod ?n"
    using rq_next(2) [OF inv] by (simp add: r'_def)
  have n0: "0 < ?n" using b(1) by linarith
  show inv': "rq_inv r'"
    using inv tail b n0 by (simp add: rq_inv_def r'_def)
  have "(unat (rq_tail r') + (?u - 1)) mod ?n = unat (rq_head r')"
  proof -
    have "(unat (rq_tail r') + (?u - 1)) mod ?n = (?t + 1 + (?u - 1)) mod ?n"
      unfolding tail by (rule mod_add_left_eq)
    also have "?t + 1 + (?u - 1) = ?t + ?u" using b(3) by simp
    finally show ?thesis using pos by (simp add: r'_def)
  qed
  then have size: "unat (rq_size r') = ?u - 1"
    using b by (intro rq_size_unique [OF inv']) (simp_all add: r'_def)
  show "rq_content r' = tl (rq_content r)"
  proof (rule nth_equalityI)
    fix k assume k: "k < length (rq_content r')"
    then have "Suc k < ?u" using size by simp
    moreover have "(unat (rq_tail r') + k) mod ?n = (?t + Suc k) mod ?n"
      by (simp add: tail mod_add_left_eq)
    ultimately show "rq_content r' ! k = tl (rq_content r) ! k"
      using k by (simp add: nth_tl) (simp add: rq_content_def r'_def)
  qed (simp add: size)
  show "hd (rq_content r) = rq_buf r ! ?t"
    using b ne by (simp add: hd_conv_nth) (simp add: rq_content_def)
qed

lemma rq_push_spec:
  assumes "rq_inv r"
  shows "rq_inv (snd (rq_push x r)) \<and>
    (if Suc (length (rq_content r)) = length (rq_buf r) then rq_push x r = (False, r)
     else fst (rq_push x r) \<and> rq_content (snd (rq_push x r)) = rq_content r @ [x])"
proof -
  have "Suc (length (rq_content r)) \<le> length (rq_buf r)" using rq_size_pos(2) [OF assms] by simp
  then show ?thesis
    using assms rq_full_iff [OF assms] rq_store [OF assms, of x] by (auto simp: rq_push_def Let_def)
qed

lemma rq_pop_spec:
  assumes "rq_inv r"
  shows "rq_inv (snd (rq_pop r)) \<and>
    (case rq_content r of [] \<Rightarrow> rq_pop r = (None, r)
     | x # xs \<Rightarrow> fst (rq_pop r) = Some x \<and> rq_content (snd (rq_pop r)) = xs)"
proof (cases "rq_content r")
  case Nil
  then have "unat (rq_size r) = 0" by (metis length_rq_content list.size(3))
  then have "rq_tail r = rq_head r"
    using rq_size_pos(1) [OF assms] assms by (simp add: rq_inv_def word_unat_eq_iff)
  then show ?thesis using Nil assms by (simp add: rq_pop_def)
next
  case (Cons x xs)
  have "rq_tail r \<noteq> rq_head r"
  proof
    assume "rq_tail r = rq_head r"
    then have "rq_size r = 0" by (simp add: rq_size_def)
    then show False using Cons by (metis length_rq_content length_0_conv list.distinct(1) unat_0)
  qed
  then show ?thesis
    using Cons rq_drop_oldest [OF assms] by (simp add: rq_pop_def Let_def)
qed

lemma rq_push_overwrite_spec:
  assumes "rq_inv r" "2 \<le> length (rq_buf r)"
  shows "rq_inv (rq_push_overwrite x r) \<and>
    rq_content (rq_push_overwrite x r) =
      (if Suc (length (rq_content r)) = length (rq_buf r) then tl (rq_content r) else rq_content r) @ [x]"
proof (cases "Suc (length (rq_content r)) = length (rq_buf r)")
  case True
  let ?d = "r\<lparr>rq_tail := (rq_tail r + 1) AND rq_mask r\<rparr>"
  have ne: "rq_content r \<noteq> []"
  proof
    assume "rq_content r = []"
    then show False using True assms(2) by (simp del: length_rq_content)
  qed
  note d = rq_drop_oldest [OF assms(1) ne]
  have "Suc (length (rq_content ?d)) < length (rq_buf ?d)" using d(2) True ne by (cases "rq_content r") simp_all
  then show ?thesis
    using rq_store [OF d(1), of x] d(2) True rq_full_iff [OF assms(1)] by (simp add: rq_push_overwrite_def Let_def)
next
  case False
  then have "Suc (length (rq_content r)) < length (rq_buf r)"
    using rq_size_pos(2) [OF assms(1)] by simp
  then show ?thesis
    using rq_store [OF assms(1), of x] False rq_full_iff [OF assms(1)] by (simp add: rq_push_overwrite_def Let_def)
qed

text \<open>The two calls as a queue.\<close>

definition rq_put :: "'a \<Rightarrow> 'a spsc_ring \<Rightarrow> 'a list \<times> 'a spsc_ring" where
  "rq_put x r = (case rq_push x r of (ok, r) \<Rightarrow> (if ok then [x] else [], r))"

definition rq_get :: "unit \<Rightarrow> 'a spsc_ring \<Rightarrow> 'a list \<times> 'a spsc_ring" where
  "rq_get u r = (case rq_pop r of (None, r) \<Rightarrow> ([], r) | (Some x, r) \<Rightarrow> ([x], r))"

interpretation items_queue: fifo rq_inv rq_content rq_put rq_get
proof
  fix r :: "'a spsc_ring" and x u assume inv: "rq_inv r"
  show "rq_inv (snd (rq_put x r))" "rq_content (snd (rq_put x r)) = rq_content r @ fst (rq_put x r)"
    using rq_push_spec [OF inv, of x] by (auto simp: rq_put_def split: if_splits prod.splits)
  show "rq_inv (snd (rq_get u r))" "rq_content r = fst (rq_get u r) @ rq_content (snd (rq_get u r))"
    using rq_pop_spec [OF inv] by (auto simp: rq_get_def split: list.splits prod.splits option.splits)
qed

lemma length_br_buf_run:
  "br_inv r \<Longrightarrow> length (br_buf (snd (run_ops br_put br_get ops r))) = length (br_buf r)"
proof (induction ops arbitrary: r)
  case (Cons op ops)
  have "br_inv (snd (br_put x r)) \<and> length (br_buf (snd (br_put x r))) = length (br_buf r)" for x
    using br_write_spec [OF Cons.prems, of x "fst (br_write x r)" "snd (br_write x r)"] by (simp add: br_put_def case_prod_beta)
  moreover have "br_inv (snd (br_get n r)) \<and> length (br_buf (snd (br_get n r))) = length (br_buf r)" for n
    using br_read_spec [OF Cons.prems, of n] Cons.prems by (auto simp: br_get_def split: option.splits)
  ultimately show ?case
    by (cases op) (simp_all add: Cons.IH case_prod_beta Let_def)
qed simp

text \<open>C32: The byte ring of usbd is a queue of bounded size: after any sequence of writes and exact reads on a fresh ring,
  the bytes accepted are the bytes read followed by the bytes still inside, across every wrap of the buffer and of
  the 32-bit counters; and a write is accepted up to the free space, its first bytes.\<close>

theorem byte_ring_is_queue:
  assumes "0 < length mem" "length mem dvd 2 ^ 32" "length mem < 2 ^ 32"
    and run: "run_ops br_put br_get ops (br_init mem) = ((ins, outs), r)"
  shows "ins = outs @ br_content r \<and>
    br_write data r = (min (length data) (length mem - length (br_content r)), snd (br_write data r)) \<and>
    br_content (snd (br_write data r)) = br_content r @ take (length mem - length (br_content r)) data"
proof -
  have inv0: "br_inv (br_init mem)" using assms by (intro br_init_inv)
  have fifo: "ins = outs @ br_content r"
    using bytes_queue.run_fifo [OF inv0 _ run] by simp
  have inv: "br_inv r"
    using bytes_queue.run_conserves [OF inv0, of ops] run by simp
  have len: "length (br_buf r) = length mem"
    using length_br_buf_run [OF inv0, of ops] run by (simp add: br_init_def)
  show ?thesis
    using fifo br_write_spec [OF inv, of data "fst (br_write data r)" "snd (br_write data r)"] len
    by (auto simp: prod_eq_iff min_def)
qed

theorem byte_ring_is_queue_witness:
  "br_content (snd (br_write [7, 8, 9, 10] (snd (run_ops br_put br_get [Inl [1, 2, 3], Inr 2] (br_init [0, 0, 0, 0])))))
     = [3, 7, 8, 9]"
proof -
  have run: "run_ops br_put br_get [Inl [1, 2, 3], Inr 2] (br_init [0, 0, 0, 0])
      = (([1, 2, 3], [1, 2]), snd (run_ops br_put br_get [Inl [1, 2, 3], Inr 2] (br_init [0, 0, 0, 0])))"
    by code_simp
  have "br_content (snd (run_ops br_put br_get [Inl [1, 2, 3], Inr 2] (br_init [0, 0, 0, 0]))) = [3]"
    by code_simp
  moreover have "length [0 :: u8, 0, 0, 0] dvd 2 ^ 32"
    by (rule dvdI [of _ _ "2 ^ 30"]) simp
  ultimately show ?thesis
    using byte_ring_is_queue [OF _ _ _ run, of "[7, 8, 9, 10]"] by (simp del: run_ops.simps)
qed

lemma rq_new_inv: "m < 64 \<Longrightarrow> rq_inv (rq_new (2 ^ m) x) \<and> rq_content (rq_new (2 ^ m) x) = []"
proof -
  assume "m < 64"
  then have "(2 :: nat) ^ m < 2 ^ LENGTH(64)" by (intro power_strict_increasing) simp_all
  then have "unat (of_nat (2 ^ m) :: u64) = 2 ^ m" by (rule unat_of_nat_lt)
  then have "unat (2 ^ m :: u64) = 2 ^ m" by simp
  then show ?thesis
    using \<open>m < 64\<close> by (auto simp: rq_inv_def rq_new_def mask_eq_exp_minus_1 rq_content_def rq_size_def)
qed

text \<open>The constructor's assertion lets a capacity of zero through; the first push then stores outside the buffer.\<close>

lemma rq_capacity_zero: "fst (rq_push x (rq_new 0 x)) \<and> rq_buf (rq_new 0 x) = []"
  by (simp add: rq_push_def rq_new_def Let_def)

end
