(* ===== verification/Southbridge.thy ===== *)
theory Southbridge
  imports Ring Crc16
begin

text \<open>
  The audio link to the second microcontroller (libs/hwinterface/southbridge.cpp, protocol.h): \<^verbatim>\<open>send_audio\<close> cuts
  samples into framed packets for a ring, a transmit thread clocks one packet per SPI transfer and reads the
  status byte that comes back, and a second SPI device carries 64-byte command frames. The calls and the turns of
  both threads are operations on one state; a transfer is the bytes sent, appended to a list, and the bytes
  received, an argument. A failing transfer raises and ends the process, and is not modelled.
\<close>

section \<open>Frames\<close>

abbreviation (input) SB_FRAME_BYTES :: nat where "SB_FRAME_BYTES \<equiv> 268"
abbreviation (input) SB_AUDIO_PAYLOAD_BYTES :: nat where "SB_AUDIO_PAYLOAD_BYTES \<equiv> 256"
abbreviation (input) SB_CMD_FRAME_BYTES :: nat where "SB_CMD_FRAME_BYTES \<equiv> 64"
abbreviation (input) FRAME_SAMPLES :: nat where "FRAME_SAMPLES \<equiv> 128"

abbreviation (input) SB_FTYPE_AUDIO :: u8 where "SB_FTYPE_AUDIO \<equiv> 0x01"
abbreviation (input) SB_FTYPE_SILENCE :: u8 where "SB_FTYPE_SILENCE \<equiv> 0x02"
abbreviation (input) SB_FTYPE_RESET :: u8 where "SB_FTYPE_RESET \<equiv> 0xFE"
abbreviation (input) SB_STATUS_OVERFLOW :: u8 where "SB_STATUS_OVERFLOW \<equiv> 0x01"
abbreviation (input) SB_STATUS_UNDERRUN :: u8 where "SB_STATUS_UNDERRUN \<equiv> 0x02"
abbreviation (input) SB_STATUS_CRC_ERR :: u8 where "SB_STATUS_CRC_ERR \<equiv> 0x04"
abbreviation (input) SB_STATUS_BUSY :: u8 where "SB_STATUS_BUSY \<equiv> 0x08"

record sb_audio_frame =
  fr_magic_hi :: u8
  fr_magic_lo :: u8
  fr_type :: u8
  fr_status :: u8
  fr_seq :: u32
  fr_payload :: bytes
  fr_crc16 :: u16

text \<open>The packed structure in memory, little-endian.\<close>

definition sb_header_bytes :: "sb_audio_frame \<Rightarrow> bytes" where
  "sb_header_bytes f = [fr_magic_hi f, fr_magic_lo f, fr_type f, fr_status f] @ putU32LE (fr_seq f)"

definition sb_frame_bytes :: "sb_audio_frame \<Rightarrow> bytes" where
  "sb_frame_bytes f = sb_header_bytes f @ fr_payload f @ putU16LE (fr_crc16 f)"

definition sb_zero_frame :: sb_audio_frame where
  "sb_zero_frame = \<lparr>fr_magic_hi = 0, fr_magic_lo = 0, fr_type = 0, fr_status = 0, fr_seq = 0,
     fr_payload = replicate SB_AUDIO_PAYLOAD_BYTES 0, fr_crc16 = 0\<rparr>"

text \<open>A sample is two bytes in the memory of a little-endian machine.\<close>

definition pcm_bytes :: "u16 list \<Rightarrow> bytes" where
  "pcm_bytes pcm = concat (map putU16LE pcm)"

definition sb_make_frame :: "u32 \<Rightarrow> u16 list \<Rightarrow> sb_audio_frame" where
  "sb_make_frame seq pcm =
     (let frame = sb_zero_frame\<lparr>fr_magic_hi := 0x5B, fr_magic_lo := 0xA4, fr_type := SB_FTYPE_AUDIO, fr_status := 0,
            fr_seq := seq, fr_payload := pcm_bytes pcm\<rparr>
      in frame\<lparr>fr_crc16 := sb_crc16 (sb_frame_bytes frame) 264\<rparr>)"

section \<open>The driver's state\<close>

text \<open>\<open>sb_threshold\<close> is the overflow threshold in per cent, 90 unless configured. \<open>sb_spi\<close> and \<open>sb_cmd_spi\<close> are the
  transfers made on the two devices, \<open>sb_commands\<close> the commands handed to the callback.\<close>

record sb_config =
  ring_capacity :: u32
  sb_threshold :: nat
  send_silence_on_underrun :: bool
  has_cmd_spi :: bool

record southbridge =
  sb_cfg :: sb_config
  sb_ring :: "sb_audio_frame spsc_ring"
  sb_running :: bool
  sb_seq :: u32
  sb_tx_buf :: bytes
  sb_rx_buf :: bytes
  sb_spi :: "bytes list"
  sb_cmd_spi :: "bytes list"
  sb_commands :: "bytes list"
  frames_sent :: u64
  frames_dropped :: u64
  pico_overflows :: u64
  pico_underruns :: u64
  crc_errors :: u64

text \<open>\<^verbatim>\<open>for (size_t s = 1; s < 64; s <<= 1) v |= v >> s\<close>, which makes six rounds.\<close>

definition smear :: "nat \<Rightarrow> u64 \<Rightarrow> u64" where "smear s v = v OR drop_bit s v"

definition next_pow2 :: "u64 \<Rightarrow> u64" where
  "next_pow2 v = (if v = 0 then 1 else fold smear [1, 2, 4, 8, 16, 32] (v - 1) + 1)"

definition sb_create :: "sb_config \<Rightarrow> southbridge" where
  "sb_create cfg =
     \<lparr>sb_cfg = cfg, sb_ring = rq_new (next_pow2 (ucast (ring_capacity cfg))) sb_zero_frame, sb_running = False, sb_seq = 0,
      sb_tx_buf = replicate SB_FRAME_BYTES 0, sb_rx_buf = replicate SB_FRAME_BYTES 0xFF,
      sb_spi = [], sb_cmd_spi = [], sb_commands = [],
      frames_sent = 0, frames_dropped = 0, pico_overflows = 0, pico_underruns = 0, crc_errors = 0\<rparr>"

definition sb_start :: "southbridge \<Rightarrow> southbridge" where "sb_start sb = sb\<lparr>sb_running := True\<rparr>"
definition sb_stop :: "southbridge \<Rightarrow> southbridge" where "sb_stop sb = sb\<lparr>sb_running := False\<rparr>"

section \<open>Sending audio\<close>

text \<open>\<^verbatim>\<open>fill_pct() >= overflow_drop_threshold\<close>. With one slot the figure is 0/0, which compares false. At the threshold of 90
  the test in doubles is this one: 9/10 is not a quotient by a power of two less one.\<close>

definition over_threshold :: "southbridge \<Rightarrow> bool" where
  "over_threshold sb \<longleftrightarrow>
     (let slots = unat (rq_capacity (sb_ring sb)) - 1
      in slots \<noteq> 0 \<and> sb_threshold (sb_cfg sb) * slots \<le> 100 * unat (rq_size (sb_ring sb)))"

text \<open>One round of the loop, and whether the frame was queued.\<close>

definition sb_queue_frame :: "u16 list \<Rightarrow> southbridge \<Rightarrow> bool \<times> southbridge" where
  "sb_queue_frame pcm sb =
     (let frame = sb_make_frame (sb_seq sb) pcm; sb = sb\<lparr>sb_seq := sb_seq sb + 1\<rparr>
      in if over_threshold sb then
           (True, sb\<lparr>sb_ring := rq_push_overwrite frame (sb_ring sb), frames_dropped := frames_dropped sb + 1\<rparr>)
         else case rq_push frame (sb_ring sb) of
           (ok, r) \<Rightarrow> (ok, sb\<lparr>sb_ring := r, frames_dropped := (if ok then frames_dropped sb else frames_dropped sb + 1)\<rparr>))"

function send_audio_loop :: "u16 list \<Rightarrow> nat \<Rightarrow> nat \<Rightarrow> southbridge \<Rightarrow> nat \<times> southbridge" where
  "send_audio_loop pcm n_samples enqueued sb =
     (if enqueued + FRAME_SAMPLES \<le> n_samples then
        (case sb_queue_frame (take FRAME_SAMPLES (drop enqueued pcm)) sb of
           (True, sb) \<Rightarrow> send_audio_loop pcm n_samples (enqueued + FRAME_SAMPLES) sb
         | (False, sb) \<Rightarrow> (enqueued, sb))
      else (enqueued, sb))"
  by auto
termination by (relation "measure (\<lambda>(pcm, n_samples, enqueued, sb). n_samples - enqueued)") auto

declare send_audio_loop.simps [simp del]

definition send_audio :: "u16 list \<Rightarrow> southbridge \<Rightarrow> nat \<times> southbridge" where
  "send_audio pcm sb = (if \<not> sb_running sb then (0, sb) else send_audio_loop pcm (length pcm) 0 sb)"

section \<open>The transmit thread\<close>

definition sb_transfer :: "bytes \<Rightarrow> southbridge \<Rightarrow> southbridge" where
  "sb_transfer miso sb = sb\<lparr>sb_spi := sb_spi sb @ [sb_tx_buf sb], sb_rx_buf := miso\<rparr>"

definition sb_count_status :: "u8 \<Rightarrow> southbridge \<Rightarrow> southbridge" where
  "sb_count_status status sb =
     sb\<lparr>pico_overflows := (if status AND SB_STATUS_OVERFLOW \<noteq> 0 then pico_overflows sb + 1 else pico_overflows sb),
        pico_underruns := (if status AND SB_STATUS_UNDERRUN \<noteq> 0 then pico_underruns sb + 1 else pico_underruns sb),
        crc_errors := (if status AND SB_STATUS_CRC_ERR \<noteq> 0 then crc_errors sb + 1 else crc_errors sb)\<rparr>"

text \<open>A round of the loop after its wait, \<open>miso\<close> being what the transfer returns if there is one.\<close>

definition sb_tx_turn :: "bytes \<Rightarrow> southbridge \<Rightarrow> southbridge" where
  "sb_tx_turn miso sb =
     (if \<not> sb_running sb then sb
      else case rq_pop (sb_ring sb) of
        (None, r) \<Rightarrow>
          if send_silence_on_underrun (sb_cfg sb) then
            sb\<lparr>sb_ring := r, sb_seq := sb_seq sb + 1,
               sb_tx_buf := [0x5B, 0xA4, SB_FTYPE_SILENCE, 0] @ putU32LE (sb_seq sb) @ replicate (SB_FRAME_BYTES - 8) 0\<rparr>
          else sb\<lparr>sb_ring := r\<rparr>
      | (Some frame, r) \<Rightarrow>
          let sb = sb\<lparr>sb_ring := r, sb_tx_buf := memcpy_at 0 (sb_frame_bytes frame) (replicate SB_FRAME_BYTES 0)\<rparr>;
              sb = sb_transfer miso sb; sb = sb\<lparr>frames_sent := frames_sent sb + 1\<rparr>; status = sb_rx_buf sb ! 3;
              sb = sb_count_status status sb
          in if status AND SB_STATUS_BUSY \<noteq> 0 then sb\<lparr>sb_ring := rq_push_overwrite frame (sb_ring sb)\<rparr> else sb)"

text \<open>\<^verbatim>\<open>while (ring_.pop(dummy)) {}\<close>; \<open>None\<close> would be a loop that never ends.\<close>

partial_function (option) sb_drain :: "sb_audio_frame spsc_ring \<Rightarrow> sb_audio_frame spsc_ring option" where
  "sb_drain r = (case rq_pop r of (None, r) \<Rightarrow> Some r | (Some dummy, r) \<Rightarrow> sb_drain r)"

definition sb_reset :: "bytes \<Rightarrow> southbridge \<Rightarrow> southbridge option" where
  "sb_reset miso sb =
     map_option
       (\<lambda>r. let rf = sb_zero_frame\<lparr>fr_magic_hi := 0x5B, fr_magic_lo := 0xA4, fr_type := SB_FTYPE_RESET\<rparr>
            in sb_transfer miso (sb\<lparr>sb_seq := 0, sb_ring := r,
                 sb_tx_buf := memcpy_at 0 (sb_header_bytes rf) (replicate SB_FRAME_BYTES 0)\<rparr>))
       (sb_drain (sb_ring sb))"

section \<open>Commands\<close>

definition sb_cmd_bytes :: "bytes \<Rightarrow> bytes" where
  "sb_cmd_bytes json =
     memcpy_at 4 json (memcpy_at 0 [0x5C, 0xB5, of_nat (length json)] (replicate SB_CMD_FRAME_BYTES 0))"

definition send_command :: "bytes \<Rightarrow> southbridge \<Rightarrow> bool \<times> southbridge" where
  "send_command json sb =
     (if \<not> has_cmd_spi (sb_cfg sb) then (False, sb)
      else if length json > SB_CMD_FRAME_BYTES - 4 then (False, sb)
      else (True, sb\<lparr>sb_cmd_spi := sb_cmd_spi sb @ [sb_cmd_bytes json]\<rparr>))"

text \<open>A poll of the command thread: 64 bytes of 0xFF go out and \<open>rx\<close> comes back.\<close>

definition sb_cmd_turn :: "bytes \<Rightarrow> southbridge \<Rightarrow> southbridge" where
  "sb_cmd_turn rx sb =
     (if \<not> sb_running sb \<or> \<not> has_cmd_spi (sb_cfg sb) then sb
      else
        let sb = sb\<lparr>sb_cmd_spi := sb_cmd_spi sb @ [replicate SB_CMD_FRAME_BYTES 0xFF]\<rparr> in
        if rx ! 0 = 0x5C \<and> rx ! 1 = 0xB5 \<and> rx ! 2 > 0 then
          let len = unat (rx ! 2) in
          if len \<le> SB_CMD_FRAME_BYTES - 4 then sb\<lparr>sb_commands := sb_commands sb @ [take len (drop 4 rx)]\<rparr> else sb
        else sb)"

end
