(* ===== verification/SouthbridgeLaws.thy ===== *)
theory SouthbridgeLaws
  imports Southbridge "HOL-Library.Sublist"
begin

text \<open>
  The audio link: the ring's size, what \<^verbatim>\<open>send_audio\<close> keeps when the ring is full, and the order in which
  frames reach the wire.
\<close>

section \<open>The size of the ring\<close>

lemma bit_smear: "bit (smear s v) i \<longleftrightarrow> bit v i \<or> bit v (s + i)"
  by (simp add: smear_def bit_or_iff bit_drop_bit_eq)

lemma smear_reach:
  assumes "\<forall>i. bit v i \<longleftrightarrow> (\<exists>k < s. bit w (i + k))"
  shows "\<forall>i. bit (smear s v) i \<longleftrightarrow> (\<exists>k<2 * s. bit w (i + k))"
proof
  fix i
  have "(\<exists>k<2 * s. bit w (i + k)) \<longleftrightarrow> (\<exists>k < s. bit w (i + k)) \<or> (\<exists>k < s. bit w (s + i + k))"
  proof
    assume "\<exists>k<2 * s. bit w (i + k)"
    then obtain k where k: "k < 2 * s" "bit w (i + k)" by blast
    show "(\<exists>k < s. bit w (i + k)) \<or> (\<exists>k < s. bit w (s + i + k))"
    proof (cases "k < s")
      case False
      then have "k - s < s" "s + i + (k - s) = i + k" using k by auto
      then show ?thesis using k(2) by metis
    qed (use k in blast)
  next
    assume "(\<exists>k < s. bit w (i + k)) \<or> (\<exists>k < s. bit w (s + i + k))"
    then show "\<exists>k<2 * s. bit w (i + k)"
    proof
      assume "\<exists>k < s. bit w (s + i + k)"
      then obtain k where "k < s" "bit w (s + i + k)" by blast
      then show ?thesis by (intro exI [of _ "s + k"]) (simp add: add.assoc add.left_commute)
    next
      assume "\<exists>k < s. bit w (i + k)"
      then obtain k where "k < s" "bit w (i + k)" by blast
      then show ?thesis by (intro exI [of _ k]) simp
    qed
  qed
  then show "bit (smear s v) i \<longleftrightarrow> (\<exists>k<2 * s. bit w (i + k))"
    using assms by (simp add: bit_smear)
qed

lemma smear_all: "bit (fold smear [1, 2, 4, 8, 16, 32] w) i \<longleftrightarrow> (\<exists>k<64. bit w (i + k))"
proof -
  have "\<forall>i. bit w i \<longleftrightarrow> (\<exists>k<1. bit w (i + k))" by simp
  note smear_reach [OF this]
  note smear_reach [OF this]
  note smear_reach [OF this]
  note smear_reach [OF this]
  note smear_reach [OF this]
  note smear_reach [OF this]
  then show ?thesis by simp
qed

lemma top_bit:
  fixes n :: nat
  assumes "n \<noteq> 0"
  obtains m where "2 ^ m \<le> n" "n < 2 ^ Suc m"
proof -
  have "\<exists>m. 2 ^ m \<le> n \<and> n < 2 ^ Suc m"
    using assms
  proof (induction n rule: less_induct)
    case (less n)
    show ?case
    proof (cases "n = 1")
      case True
      then show ?thesis by (intro exI [of _ 0]) simp
    next
      case False
      then have "n div 2 < n" "n div 2 \<noteq> 0" using less.prems by auto
      from less.IH [OF this] obtain m where "2 ^ m \<le> n div 2" "n div 2 < 2 ^ Suc m" by blast
      then show ?thesis by (intro exI [of _ "Suc m"]) auto
    qed
  qed
  then show thesis using that by blast
qed

lemma next_pow2_least:
  assumes "0 < v" "v \<le> 2 ^ 63"
  shows "\<exists>m \<le> 63. next_pow2 v = 2 ^ m \<and> v \<le> 2 ^ m \<and> 2 ^ m < 2 * unat v"
proof -
  have v: "0 < unat v" "unat v \<le> 2 ^ 63" using assms by (simp_all add: word_less_nat_alt word_le_nat_alt)
  have w: "unat (v - 1) = unat v - 1" using v(1) by (simp add: unat_minus_one unat_gt_0)
  show ?thesis
  proof (cases "unat v = 1")
    case True
    then have "v = 1" by (simp add: word_unat_eq_iff)
    then show ?thesis by (intro exI [of _ 0]) (simp add: next_pow2_def smear_def)
  next
    case False
    then have "unat (v - 1) \<noteq> 0" using v w by simp
    then obtain m where m: "2 ^ m \<le> unat (v - 1)" "unat (v - 1) < 2 ^ Suc m" by (rule top_bit)
    have "m < 63"
    proof (rule ccontr)
      assume "\<not> m < 63"
      then have "(2 :: nat) ^ 63 \<le> 2 ^ m" by (intro power_increasing) simp_all
      then show False using m v w by simp
    qed
    have bit_m: "bit (v - 1) m"
    proof -
      have "unat (v - 1) div 2 ^ m = 1" using m by (simp add: div_nat_eqI)
      then have "bit (unat (v - 1)) m" by (simp add: bit_iff_odd)
      then show ?thesis by (simp add: bit_unsigned_iff)
    qed
    have above: "\<not> bit (v - 1) j" if "m < j" for j
    proof -
      have "(2 :: nat) ^ Suc m \<le> 2 ^ j" using that by (intro power_increasing) simp_all
      then have "unat (v - 1) div 2 ^ j = 0" using m by (intro div_less) simp
      then have "\<not> bit (unat (v - 1)) j" by (simp add: bit_iff_odd)
      then show ?thesis by (auto simp: bit_unsigned_iff bit_imp_le_length dest: bit_imp_le_length)
    qed
    have "fold smear [1, 2, 4, 8, 16, 32] (v - 1) = mask (Suc m)"
    proof (rule bit_word_eqI)
      fix i assume "i < LENGTH(64)"
      have "(\<exists>k<64. bit (v - 1) (i + k)) \<longleftrightarrow> i \<le> m"
      proof
        assume "i \<le> m"
        then show "\<exists>k<64. bit (v - 1) (i + k)" using bit_m \<open>m < 63\<close> by (intro exI [of _ "m - i"]) simp
      next
        assume "\<exists>k<64. bit (v - 1) (i + k)"
        then obtain k where "bit (v - 1) (i + k)" by blast
        then show "i \<le> m" using above [of "i + k"] by (cases "m < i + k") auto
      qed
      then show "bit (fold smear [1, 2, 4, 8, 16, 32] (v - 1)) i = bit (mask (Suc m) :: u64) i"
        using \<open>m < 63\<close> \<open>i < LENGTH(64)\<close> unfolding smear_all by (simp add: bit_mask_iff less_Suc_eq_le)
    qed
    then have p: "next_pow2 v = 2 ^ Suc m"
      using assms(1) by (auto simp add: next_pow2_def mask_eq_exp_minus_1)
    have "(2 :: nat) ^ Suc m < 2 ^ LENGTH(64)" using \<open>m < 63\<close> by (intro power_strict_increasing) simp_all
    then have "unat (of_nat (2 ^ Suc m) :: u64) = 2 ^ Suc m" by (rule unat_of_nat_lt)
    then have u: "unat (2 ^ Suc m :: u64) = 2 ^ Suc m" by simp
    show ?thesis
      using p m v w u \<open>m < 63\<close> by (intro exI [of _ "Suc m"]) (auto simp add: word_le_nat_alt)
  qed
qed


section \<open>What a full ring keeps\<close>

definition sb_ok :: "southbridge \<Rightarrow> bool" where
  "sb_ok sb \<longleftrightarrow> rq_inv (sb_ring sb) \<and> unat (rq_capacity (sb_ring sb)) = length (rq_buf (sb_ring sb)) \<and>
     2 \<le> length (rq_buf (sb_ring sb)) \<and> sb_threshold (sb_cfg sb) \<le> 100"

definition sb_slots :: "southbridge \<Rightarrow> nat" where "sb_slots sb = length (rq_buf (sb_ring sb)) - 1"

abbreviation sb_queue :: "southbridge \<Rightarrow> sb_audio_frame list" where "sb_queue sb \<equiv> rq_content (sb_ring sb)"

text \<open>The frames of a run of samples, numbered from \<open>seq\<close>.\<close>

definition audio_frames :: "u32 \<Rightarrow> u16 list \<Rightarrow> sb_audio_frame list" where
  "audio_frames seq pcm =
     map (\<lambda>k. sb_make_frame (seq + of_nat k) (take FRAME_SAMPLES (drop (FRAME_SAMPLES * k) pcm))) [0..<length pcm div FRAME_SAMPLES]"

definition newest :: "nat \<Rightarrow> 'a list \<Rightarrow> 'a list" where "newest n xs = drop (length xs - n) xs"

lemma newest_snoc: "0 < n \<Longrightarrow> newest n (newest n xs @ [x]) = newest n (xs @ [x])"
  by (cases "length xs \<le> n") (auto simp: newest_def Suc_diff_le)

lemma newest_small: "length xs \<le> n \<Longrightarrow> newest n xs = xs"
  by (simp add: newest_def)

lemma newest_append: "newest n (newest n xs @ ys) = newest n (xs @ ys)"
  by (cases "length xs \<le> n") (auto simp: newest_def add.commute)

lemma sb_queue_le: "sb_ok sb \<Longrightarrow> length (sb_queue sb) \<le> sb_slots sb"
  using rq_size_pos(2) [of "sb_ring sb"] by (auto simp: sb_ok_def sb_slots_def)

lemma rq_fields [simp]:
  "rq_capacity (rq_push_overwrite x r) = rq_capacity r" "length (rq_buf (rq_push_overwrite x r)) = length (rq_buf r)"
  "rq_capacity (snd (rq_push x r)) = rq_capacity r" "length (rq_buf (snd (rq_push x r))) = length (rq_buf r)"
  "rq_capacity (snd (rq_pop r)) = rq_capacity r" "length (rq_buf (snd (rq_pop r))) = length (rq_buf r)"
  by (simp_all add: rq_push_overwrite_def rq_push_def rq_pop_def Let_def)

text \<open>A frame is never refused: a ring with no room left is over any threshold up to 100 per cent.\<close>

lemma queue_frame:
  assumes ok: "sb_ok sb"
  shows "\<exists>sb'. sb_queue_frame pcm sb = (True, sb') \<and> sb_ok sb' \<and> sb_slots sb' = sb_slots sb \<and>
    sb_queue sb' = newest (sb_slots sb) (sb_queue sb @ [sb_make_frame (sb_seq sb) pcm]) \<and>
    sb' = sb\<lparr>sb_seq := sb_seq sb + 1, sb_ring := sb_ring sb',
      frames_dropped := frames_dropped sb + (if over_threshold sb then 1 else 0)\<rparr> \<and>
    Suc (length (sb_queue sb)) \<le> length (sb_queue sb') + (if over_threshold sb then 1 else 0)"
proof -
  let ?f = "sb_make_frame (sb_seq sb) pcm" and ?r = "sb_ring sb"
  note o = ok [unfolded sb_ok_def]
  have le: "length (sb_queue sb) \<le> sb_slots sb" using ok by (rule sb_queue_le)
  have full: "Suc (length (sb_queue sb)) = length (rq_buf ?r) \<longleftrightarrow> length (sb_queue sb) = sb_slots sb"
    using o by (auto simp: sb_slots_def)
  have over: "over_threshold (sb\<lparr>sb_seq := sb_seq sb + 1\<rparr>) = over_threshold sb" by (simp add: over_threshold_def)
  show ?thesis
  proof (cases "over_threshold sb")
    case True
    have q: "sb_queue_frame pcm sb = (True, sb\<lparr>sb_seq := sb_seq sb + 1, sb_ring := rq_push_overwrite ?f ?r,
        frames_dropped := frames_dropped sb + 1\<rparr>)"
      using True over by (simp add: sb_queue_frame_def Let_def)
    have c: "rq_inv (rq_push_overwrite ?f ?r)"
      "rq_content (rq_push_overwrite ?f ?r) = newest (sb_slots sb) (sb_queue sb @ [?f])"
      using rq_push_overwrite_spec [of ?r ?f] o le full
      by (auto simp: newest_def Suc_diff_le drop_Suc simp del: length_rq_content)
    have "length (sb_queue sb) \<le> length (rq_content (rq_push_overwrite ?f ?r))"
      using rq_push_overwrite_spec [of ?r ?f] o by (auto simp del: length_rq_content)
    then show ?thesis using o c True unfolding q by (auto simp: sb_ok_def sb_slots_def simp del: length_rq_content)
  next
    case False
    have nf: "length (sb_queue sb) \<noteq> sb_slots sb"
    proof
      assume eq: "length (sb_queue sb) = sb_slots sb"
      then have "unat (rq_capacity ?r) - 1 = sb_slots sb" "unat (rq_size ?r) = sb_slots sb" "sb_slots sb \<noteq> 0"
        using o by (simp_all add: sb_slots_def)
      then show False using False o by (simp add: over_threshold_def)
    qed
    obtain r' where p: "rq_push ?f ?r = (True, r')" "rq_inv r'" "rq_content r' = sb_queue sb @ [?f]"
      using rq_push_spec [of ?r ?f] o nf full by (cases "rq_push ?f ?r") auto
    have b: "rq_capacity r' = rq_capacity ?r" "length (rq_buf r') = length (rq_buf ?r)"
      using rq_fields(3,4) [of ?f ?r] p(1) by simp_all
    have q: "sb_queue_frame pcm sb = (True, sb\<lparr>sb_seq := sb_seq sb + 1, sb_ring := r'\<rparr>)"
      using False over p by (simp add: sb_queue_frame_def Let_def)
    have "newest (sb_slots sb) (sb_queue sb @ [?f]) = sb_queue sb @ [?f]"
      using le nf by (intro newest_small) (simp del: length_rq_content)
    then show ?thesis using o p b False unfolding q by (auto simp: sb_ok_def sb_slots_def simp del: length_rq_content)
  qed
qed


lemma audio_frames_step:
  assumes "FRAME_SAMPLES \<le> length pcm"
  shows "audio_frames seq pcm = sb_make_frame seq (take FRAME_SAMPLES pcm) # audio_frames (seq + 1) (drop FRAME_SAMPLES pcm)"
proof -
  define n where "n = (length pcm - FRAME_SAMPLES) div FRAME_SAMPLES"
  then have n: "length pcm div FRAME_SAMPLES = Suc n" "(length pcm - FRAME_SAMPLES) div FRAME_SAMPLES = n"
    using assms by (simp_all add: le_div_geq)
  show ?thesis
    by (rule nth_equalityI) (auto simp: audio_frames_def n nth_Cons' algebra_simps simp del: upt_Suc split: nat_diff_split)
qed

text \<open>The loop, from \<open>enqueued\<close> samples on.\<close>

lemma send_audio_loop_spec:
  assumes "sb_ok sb" "enqueued \<le> length pcm"
  shows "\<exists>sb'. send_audio_loop pcm (length pcm) enqueued sb
      = (enqueued + FRAME_SAMPLES * (length (drop enqueued pcm) div FRAME_SAMPLES), sb') \<and>
    sb_ok sb' \<and> sb_slots sb' = sb_slots sb \<and>
    sb_queue sb' = newest (sb_slots sb) (sb_queue sb @ audio_frames (sb_seq sb) (drop enqueued pcm)) \<and>
    sb' = sb\<lparr>sb_seq := sb_seq sb + of_nat (length (drop enqueued pcm) div FRAME_SAMPLES), sb_ring := sb_ring sb',
      frames_dropped := frames_dropped sb'\<rparr> \<and>
    (\<exists>d \<le> length (drop enqueued pcm) div FRAME_SAMPLES. frames_dropped sb' = frames_dropped sb + of_nat d \<and>
       length (sb_queue sb) + length (drop enqueued pcm) div FRAME_SAMPLES \<le> length (sb_queue sb') + d)"
  using assms
proof (induction "length pcm - enqueued" arbitrary: enqueued sb rule: less_induct)
  case less
  let ?rest = "drop enqueued pcm"
  note step = send_audio_loop.simps [of pcm "length pcm" enqueued sb]
  show ?case
  proof (cases "enqueued + FRAME_SAMPLES \<le> length pcm")
    case True
    obtain sb1 where q: "sb_queue_frame (take FRAME_SAMPLES ?rest) sb = (True, sb1)"
      "sb_ok sb1" "sb_slots sb1 = sb_slots sb"
      "sb_queue sb1 = newest (sb_slots sb) (sb_queue sb @ [sb_make_frame (sb_seq sb) (take FRAME_SAMPLES ?rest)])"
      "sb1 = sb\<lparr>sb_seq := sb_seq sb + 1, sb_ring := sb_ring sb1,
         frames_dropped := frames_dropped sb + (if over_threshold sb then 1 else 0)\<rparr>"
      "Suc (length (sb_queue sb)) \<le> length (sb_queue sb1) + (if over_threshold sb then 1 else 0)"
      using queue_frame [OF less.prems(1), of "take FRAME_SAMPLES ?rest"] by blast
    have seq1: "sb_seq sb1 = sb_seq sb + 1" by (subst q(5)) simp
    have drop1: "frames_dropped sb1 = frames_dropped sb + (if over_threshold sb then 1 else 0)" by (subst q(5)) simp
    have "length pcm - (enqueued + FRAME_SAMPLES) < length pcm - enqueued" using True by simp
    from less.hyps [OF this q(2) True] obtain sb' d where
      r: "send_audio_loop pcm (length pcm) (enqueued + FRAME_SAMPLES) sb1
          = (enqueued + FRAME_SAMPLES + FRAME_SAMPLES * (length (drop (enqueued + FRAME_SAMPLES) pcm) div FRAME_SAMPLES), sb')"
      "sb_ok sb'" "sb_slots sb' = sb_slots sb1"
      "sb_queue sb' = newest (sb_slots sb1) (sb_queue sb1 @ audio_frames (sb_seq sb1) (drop (enqueued + FRAME_SAMPLES) pcm))"
      "sb' = sb1\<lparr>sb_seq := sb_seq sb1 + of_nat (length (drop (enqueued + FRAME_SAMPLES) pcm) div FRAME_SAMPLES),
         sb_ring := sb_ring sb', frames_dropped := frames_dropped sb'\<rparr>"
      "d \<le> length (drop (enqueued + FRAME_SAMPLES) pcm) div FRAME_SAMPLES" "frames_dropped sb' = frames_dropped sb1 + of_nat d"
      "length (sb_queue sb1) + length (drop (enqueued + FRAME_SAMPLES) pcm) div FRAME_SAMPLES \<le> length (sb_queue sb') + d"
      by blast
    have len: "FRAME_SAMPLES \<le> length ?rest" using True by simp
    have dd: "drop (enqueued + FRAME_SAMPLES) pcm = drop FRAME_SAMPLES ?rest" by (simp add: add.commute)
    have div: "length ?rest div FRAME_SAMPLES = Suc (length (drop FRAME_SAMPLES ?rest) div FRAME_SAMPLES)"
      using len by (simp add: le_div_geq)
    have "0 < sb_slots sb" using less.prems(1) by (simp add: sb_ok_def sb_slots_def)
    then have queue: "sb_queue sb' = newest (sb_slots sb) (sb_queue sb @ audio_frames (sb_seq sb) ?rest)"
      unfolding r(4) q(3,4) seq1 dd audio_frames_step [OF len]
      using newest_append [of "sb_slots sb" "sb_queue sb @ [sb_make_frame (sb_seq sb) (take FRAME_SAMPLES ?rest)]"] by simp
    have "sb' = sb\<lparr>sb_seq := sb_seq sb + of_nat (length ?rest div FRAME_SAMPLES), sb_ring := sb_ring sb',
        frames_dropped := frames_dropped sb'\<rparr>"
      by (subst r(5), subst q(5)) (simp only: div dd seq1, simp)
    moreover have "\<exists>d \<le> length ?rest div FRAME_SAMPLES. frames_dropped sb' = frames_dropped sb + of_nat d \<and>
        length (sb_queue sb) + length ?rest div FRAME_SAMPLES \<le> length (sb_queue sb') + d"
      using q(6) r(6,7,8) unfolding div dd drop1
      by (intro exI [of _ "d + (if over_threshold sb then 1 else 0)"]) (auto simp del: length_rq_content)
    ultimately show ?thesis
      using True q(1) r(1,2,3) q(3) queue unfolding step dd div by (simp del: length_rq_content)
  next
    case False
    then have "length ?rest div FRAME_SAMPLES = 0" by simp
    then show ?thesis
      using False less.prems sb_queue_le [OF less.prems(1)] unfolding step
      by (simp add: audio_frames_def newest_small del: length_rq_content)
  qed
qed


lemma length_pcm_bytes: "length (pcm_bytes pcm) = 2 * length pcm"
  by (induction pcm) (simp_all add: pcm_bytes_def putU16LE_def)

lemma send_audio_keeps_newest_aux:
  assumes "sb_ok sb" "sb_running sb"
  shows "\<exists>sb' d. send_audio pcm sb = (FRAME_SAMPLES * (length pcm div FRAME_SAMPLES), sb') \<and> sb_ok sb' \<and>
    sb_queue sb' = newest (sb_slots sb) (sb_queue sb @ audio_frames (sb_seq sb) pcm) \<and>
    d \<le> length pcm div FRAME_SAMPLES \<and> length (sb_queue sb @ audio_frames (sb_seq sb) pcm) \<le> length (sb_queue sb') + d \<and>
    sb' = sb\<lparr>sb_seq := sb_seq sb + of_nat (length pcm div FRAME_SAMPLES), sb_ring := sb_ring sb',
      frames_dropped := frames_dropped sb + of_nat d\<rparr>"
proof -
  obtain sb' d where s: "send_audio_loop pcm (length pcm) 0 sb = (FRAME_SAMPLES * (length pcm div FRAME_SAMPLES), sb')"
    "sb_ok sb'" "sb_queue sb' = newest (sb_slots sb) (sb_queue sb @ audio_frames (sb_seq sb) pcm)"
    "sb' = sb\<lparr>sb_seq := sb_seq sb + of_nat (length pcm div FRAME_SAMPLES), sb_ring := sb_ring sb', frames_dropped := frames_dropped sb'\<rparr>"
    "d \<le> length pcm div FRAME_SAMPLES" "frames_dropped sb' = frames_dropped sb + of_nat d"
    "length (sb_queue sb) + length pcm div FRAME_SAMPLES \<le> length (sb_queue sb') + d"
    using send_audio_loop_spec [OF assms(1) le0, of pcm, unfolded drop_0 add_0_left] by blast
  have "length (audio_frames (sb_seq sb) pcm) = length pcm div FRAME_SAMPLES" by (simp add: audio_frames_def)
  then show ?thesis
    using s assms(2) by (intro exI [of _ sb'] exI [of _ d]) (simp add: send_audio_def del: length_rq_content)
qed

text \<open>\<^verbatim>\<open>send_audio\<close> never refuses a whole frame: it queues all of them, numbered on from the sequence counter,
  and of what was waiting and what is new the ring keeps the newest frames, as many as it has slots. The drop
  counter moves once for every frame queued at or above the threshold, so it covers what was dropped.\<close>

theorem send_audio_keeps_newest:
  assumes "sb_ok sb" "sb_running sb"
  shows "\<exists>sb' d. send_audio pcm sb = (FRAME_SAMPLES * (length pcm div FRAME_SAMPLES), sb') \<and> sb_ok sb' \<and>
    sb_queue sb' = newest (sb_slots sb) (sb_queue sb @ audio_frames (sb_seq sb) pcm) \<and>
    d \<le> length pcm div FRAME_SAMPLES \<and> length (sb_queue sb @ audio_frames (sb_seq sb) pcm) \<le> length (sb_queue sb') + d \<and>
    sb' = sb\<lparr>sb_seq := sb_seq sb + of_nat (length pcm div FRAME_SAMPLES), sb_ring := sb_ring sb',
      frames_dropped := frames_dropped sb + of_nat d\<rparr>"
  by (rule send_audio_keeps_newest_aux [OF assms])

section \<open>The order on the wire\<close>

datatype sb_event = Audio "u16 list" | TxTurn bytes

fun sb_step :: "sb_event \<Rightarrow> southbridge \<Rightarrow> southbridge" where
  "sb_step (Audio pcm) sb = snd (send_audio pcm sb)"
| "sb_step (TxTurn miso) sb = sb_tx_turn miso sb"

text \<open>The frames \<^verbatim>\<open>send_audio\<close> makes in a run.\<close>

fun sb_made :: "sb_event list \<Rightarrow> southbridge \<Rightarrow> sb_audio_frame list" where
  "sb_made [] sb = []"
| "sb_made (e # evs) sb =
     (case e of Audio pcm \<Rightarrow> audio_frames (sb_seq sb) pcm | TxTurn miso \<Rightarrow> []) @ sb_made evs (sb_step e sb)"

definition sb_wire :: "sb_audio_frame \<Rightarrow> bytes" where
  "sb_wire f = sb_frame_bytes f @ replicate (SB_FRAME_BYTES - length (sb_frame_bytes f)) 0"

lemma sb_wire_eq: "memcpy_at 0 (sb_frame_bytes f) (replicate SB_FRAME_BYTES 0) = sb_wire f"
  by (simp add: memcpy_at_def sb_wire_def)

definition not_busy :: "sb_event \<Rightarrow> bool" where
  "not_busy e = (case e of Audio pcm \<Rightarrow> True | TxTurn miso \<Rightarrow> miso ! 3 AND SB_STATUS_BUSY = 0)"

text \<open>What has been sent, then what waits, is what was made less what was dropped.\<close>

definition sb_track :: "southbridge \<Rightarrow> sb_audio_frame list \<Rightarrow> sb_audio_frame list \<Rightarrow> bool" where
  "sb_track sb sent made \<longleftrightarrow> sb_ok sb \<and> sb_running sb \<and> sb_spi sb = map sb_wire sent \<and>
     subseq (sent @ sb_queue sb) made \<and> frames_sent sb = of_nat (length sent) \<and>
     (\<exists>d \<le> length made. frames_dropped sb = of_nat d \<and> length made \<le> length (sent @ sb_queue sb) + d)"

lemma subseq_newest: "subseq (newest n xs) xs"
  unfolding newest_def by (metis append_take_drop_id list_emb_append2 subseq_order.refl)

lemma track_audio:
  assumes t: "sb_track sb sent made"
  shows "sb_track (snd (send_audio pcm sb)) sent (made @ audio_frames (sb_seq sb) pcm)"
proof -
  note t' = t [unfolded sb_track_def]
  let ?fs = "audio_frames (sb_seq sb) pcm"
  have n: "length ?fs = length pcm div FRAME_SAMPLES" by (simp add: audio_frames_def)
  obtain sb' d where s: "snd (send_audio pcm sb) = sb'" "sb_ok sb'"
    "sb_queue sb' = newest (sb_slots sb) (sb_queue sb @ ?fs)" "d \<le> length ?fs"
    "length (sb_queue sb @ ?fs) \<le> length (sb_queue sb') + d"
    "sb' = sb\<lparr>sb_seq := sb_seq sb + of_nat (length pcm div FRAME_SAMPLES), sb_ring := sb_ring sb',
      frames_dropped := frames_dropped sb + of_nat d\<rparr>"
    using send_audio_keeps_newest_aux [of sb pcm] t' unfolding n by (metis snd_conv)
  have f: "sb_running sb' = sb_running sb" "sb_spi sb' = sb_spi sb" "frames_sent sb' = frames_sent sb"
    "frames_dropped sb' = frames_dropped sb + of_nat d"
    by (subst s(6), simp)+
  have "subseq (sent @ sb_queue sb') ((sent @ sb_queue sb) @ ?fs)"
    unfolding s(3) append_assoc by (intro list_emb_append_mono subseq_newest) simp
  moreover have "subseq ((sent @ sb_queue sb) @ ?fs) (made @ ?fs)"
    using t' by (intro list_emb_append_mono) simp_all
  ultimately have sub: "subseq (sent @ sb_queue sb') (made @ ?fs)" by (rule subseq_order.trans)
  obtain d0 where d0: "d0 \<le> length made" "frames_dropped sb = of_nat d0" "length made \<le> length (sent @ sb_queue sb) + d0"
    using t' by blast
  have "\<exists>d' \<le> length (made @ ?fs). frames_dropped sb' = of_nat d' \<and>
      length (made @ ?fs) \<le> length (sent @ sb_queue sb') + d'"
    using d0 s(4,5) f(4) by (intro exI [of _ "d0 + d"]) (simp del: length_rq_content)
  then show ?thesis using t' s(1,2) f sub by (simp add: sb_track_def del: length_rq_content)
qed


lemma track_turn:
  assumes t: "sb_track sb sent made" and calm: "miso ! 3 AND SB_STATUS_BUSY = 0"
  shows "\<exists>sent'. sb_track (sb_tx_turn miso sb) sent' made"
proof -
  note t' = t [unfolded sb_track_def sb_ok_def]
  let ?r = "sb_ring sb"
  have inv: "rq_inv ?r" using t' by blast
  show ?thesis
  proof (cases "sb_queue sb")
    case Nil
    then have "rq_pop ?r = (None, ?r)" using rq_pop_spec [OF inv] by simp
    then have "sb_track (sb_tx_turn miso sb) sent made"
      using t' by (simp add: sb_tx_turn_def sb_track_def sb_ok_def)
    then show ?thesis by blast
  next
    case (Cons f fs)
    obtain r' where p: "rq_pop ?r = (Some f, r')" "rq_inv r'" "rq_content r' = fs"
      using rq_pop_spec [OF inv] Cons by (cases "rq_pop ?r") auto
    have b: "rq_capacity r' = rq_capacity ?r" "length (rq_buf r') = length (rq_buf ?r)"
      using rq_fields(5,6) [of ?r] p(1) by simp_all
    have turn: "sb_ring (sb_tx_turn miso sb) = r'" "sb_spi (sb_tx_turn miso sb) = sb_spi sb @ [sb_wire f]"
      "frames_sent (sb_tx_turn miso sb) = frames_sent sb + 1" "frames_dropped (sb_tx_turn miso sb) = frames_dropped sb"
      "sb_running (sb_tx_turn miso sb)" "sb_cfg (sb_tx_turn miso sb) = sb_cfg sb"
      using t' p calm
      by (simp_all add: sb_tx_turn_def sb_transfer_def sb_count_status_def Let_def sb_wire_eq)
    have "sb_track (sb_tx_turn miso sb) (sent @ [f]) made"
      using t' p(2,3) b turn Cons by (simp add: sb_track_def sb_ok_def del: length_rq_content)
    then show ?thesis by blast
  qed
qed

lemma run_track:
  "sb_track sb sent made \<Longrightarrow> \<forall>e\<in>set evs. not_busy e \<Longrightarrow>
   \<exists>sent'. sb_track (fold sb_step evs sb) sent' (made @ sb_made evs sb)"
proof (induction evs arbitrary: sb sent made)
  case (Cons e evs)
  show ?case
  proof (cases e)
    case (Audio pcm)
    then show ?thesis using Cons.IH [OF track_audio [OF Cons.prems(1), of pcm]] Cons.prems(2) by simp
  next
    case (TxTurn miso)
    obtain sent' where "sb_track (sb_tx_turn miso sb) sent' made"
      using track_turn [OF Cons.prems(1), of miso] Cons.prems(2) TxTurn by (auto simp: not_busy_def)
    then show ?thesis using Cons.IH Cons.prems(2) TxTurn by fastforce
  qed
qed auto

lemma created_ok:
  assumes "2 \<le> ring_capacity cfg" "sb_threshold cfg \<le> 100"
  shows "sb_ok (sb_create cfg)" "sb_queue (sb_create cfg) = []"
    "unat (ring_capacity cfg) \<le> Suc (sb_slots (sb_create cfg))" "Suc (sb_slots (sb_create cfg)) < 2 * unat (ring_capacity cfg)"
proof -
  let ?v = "ucast (ring_capacity cfg) :: u64"
  have lt: "unat (ring_capacity cfg) < 2 ^ LENGTH(32)" by (rule unsigned_less)
  have u: "unat ?v = unat (ring_capacity cfg)"
    unfolding unsigned_ucast_eq using lt by (intro take_bit_nat_eq_self) simp
  note lt
  then have v: "0 < ?v" "?v \<le> 2 ^ 63" "2 \<le> unat ?v"
    using assms(1) u by (simp_all add: word_less_nat_alt word_le_nat_alt)
  obtain m where m: "m \<le> 63" "next_pow2 ?v = 2 ^ m" "?v \<le> 2 ^ m" "2 ^ m < 2 * unat ?v"
    using next_pow2_least [OF v(1,2)] by blast
  have "(2 :: nat) ^ m < 2 ^ LENGTH(64)" using m(1) by (intro power_strict_increasing) simp_all
  then have "unat (of_nat (2 ^ m) :: u64) = 2 ^ m" by (rule unat_of_nat_lt)
  then have p: "unat (2 ^ m :: u64) = 2 ^ m" by simp
  have le: "unat ?v \<le> 2 ^ m" using m(3) p by (simp add: word_le_nat_alt)
  have len: "length (rq_buf (sb_ring (sb_create cfg))) = 2 ^ m" "unat (rq_capacity (sb_ring (sb_create cfg))) = 2 ^ m"
    using m(2) p by (simp_all add: sb_create_def rq_new_def)
  have inv: "rq_inv (rq_new (2 ^ m) sb_zero_frame)" "rq_content (rq_new (2 ^ m) sb_zero_frame) = []"
    using rq_new_inv [of m sb_zero_frame] m(1) by simp_all
  then show "sb_ok (sb_create cfg)" "sb_queue (sb_create cfg) = []"
    using assms(2) len m(2) v(3) le by (simp_all add: sb_ok_def sb_create_def del: length_rq_content)
  show "unat (ring_capacity cfg) \<le> Suc (sb_slots (sb_create cfg))" "Suc (sb_slots (sb_create cfg)) < 2 * unat (ring_capacity cfg)"
    using le m(4) u v(3) by (simp_all add: sb_slots_def len)
qed


text \<open>Every frame is 268 bytes on the wire, with its checksum.\<close>

lemma made_frame_wire:
  assumes "f \<in> set (audio_frames seq pcm)"
  shows "length (sb_wire f) = SB_FRAME_BYTES \<and> take 4 (sb_wire f) = [0x5B, 0xA4, SB_FTYPE_AUDIO, 0] \<and>
    getU16LE (drop 264 (sb_wire f)) = sb_crc16 (sb_wire f) 264"
proof -
  obtain k where k: "k < length pcm div FRAME_SAMPLES" "f = sb_make_frame (seq + of_nat k) (take FRAME_SAMPLES (drop (FRAME_SAMPLES * k) pcm))"
    using assms by (auto simp: audio_frames_def)
  let ?pcm = "take FRAME_SAMPLES (drop (FRAME_SAMPLES * k) pcm)"
  have "FRAME_SAMPLES * Suc k \<le> length pcm" using less_eq_div_iff_mult_less_eq [of FRAME_SAMPLES "Suc k" "length pcm"] k(1) by (simp add: mult.commute)
  then have len: "length (pcm_bytes ?pcm) = SB_AUDIO_PAYLOAD_BYTES" by (simp add: length_pcm_bytes)
  define g where "g = sb_header_bytes f @ fr_payload f"
  have g: "length g = 264" using len by (simp add: g_def k(2) sb_make_frame_def sb_header_bytes_def Let_def putU32LE_def)
  have w: "sb_wire f = g @ putU16LE (fr_crc16 f) @ [0, 0]"
    using g by (simp add: sb_wire_def sb_frame_bytes_def g_def putU16LE_def numeral_eq_Suc)
  have crc: "fr_crc16 f = sb_crc16 (g @ putU16LE 0) 264"
    by (simp add: g_def k(2) sb_make_frame_def sb_frame_bytes_def sb_header_bytes_def sb_zero_frame_def Let_def)
  show ?thesis
  proof (intro conjI)
    show "length (sb_wire f) = SB_FRAME_BYTES" using g by (simp add: w putU16LE_def)
    show "take 4 (sb_wire f) = [0x5B, 0xA4, SB_FTYPE_AUDIO, 0]"
      by (simp add: sb_wire_def sb_frame_bytes_def k(2) sb_make_frame_def sb_header_bytes_def Let_def)
    show "getU16LE (drop 264 (sb_wire f)) = sb_crc16 (sb_wire f) 264"
      using g by (simp add: w crc sb_crc16_eq)
  qed
qed

section \<open>Faults of the link\<close>

text \<open>A frame the other side was too busy to take is queued again behind everything that waits, so it is played after
  its successors; and when the ring is empty the silence frame is built, takes a sequence number and is not sent.\<close>

theorem sb_busy_and_underrun:
  assumes "sb_ok sb" "sb_running sb"
  shows "case sb_queue sb of
      [] \<Rightarrow> sb_spi (sb_tx_turn miso sb) = sb_spi sb \<and>
        sb_seq (sb_tx_turn miso sb) = (if send_silence_on_underrun (sb_cfg sb) then sb_seq sb + 1 else sb_seq sb)
    | f # fs \<Rightarrow> sb_spi (sb_tx_turn miso sb) = sb_spi sb @ [sb_wire f] \<and>
        sb_queue (sb_tx_turn miso sb) = (if miso ! 3 AND SB_STATUS_BUSY = 0 then fs else fs @ [f])"
proof (cases "sb_queue sb")
  case Nil
  have "rq_inv (sb_ring sb)" using assms(1) by (simp add: sb_ok_def)
  then have "rq_pop (sb_ring sb) = (None, sb_ring sb)" using Nil rq_pop_spec [of "sb_ring sb"] by simp
  then show ?thesis using Nil assms(2) by (simp add: sb_tx_turn_def)
next
  case (Cons f fs)
  have inv: "rq_inv (sb_ring sb)" "2 \<le> length (rq_buf (sb_ring sb))" using assms(1) by (simp_all add: sb_ok_def)
  obtain r' where p: "rq_pop (sb_ring sb) = (Some f, r')" "rq_inv r'" "rq_content r' = fs"
    using rq_pop_spec [OF inv(1)] Cons by (cases "rq_pop (sb_ring sb)") auto
  have b: "length (rq_buf r') = length (rq_buf (sb_ring sb))"
    using rq_fields(6) [of "sb_ring sb"] p(1) by simp
  have room: "Suc (length fs) < length (rq_buf r')"
    using rq_size_pos(2) [OF inv(1)] Cons b length_rq_content [of "sb_ring sb"] by (simp del: length_rq_content)
  then have "rq_content (rq_push_overwrite f r') = fs @ [f]"
    using rq_push_overwrite_spec [OF p(2), of f] b inv(2) p(3) by simp
  then show ?thesis
    using Cons p assms(2) by (simp add: sb_tx_turn_def sb_transfer_def sb_count_status_def Let_def sb_wire_eq)
qed

section \<open>Witnesses\<close>

definition sb_default :: sb_config where
  "sb_default = \<lparr>ring_capacity = 64, sb_threshold = 90, send_silence_on_underrun = True, has_cmd_spi = True\<rparr>"

lemma sb_default_ok: "sb_ok (sb_start (sb_create sb_default))" "sb_running (sb_start (sb_create sb_default))"
  "sb_queue (sb_start (sb_create sb_default)) = []"
  using created_ok [of sb_default] by (simp_all add: sb_default_def sb_start_def sb_ok_def del: length_rq_content)

theorem send_audio_keeps_newest_witness:
  "\<exists>sb'. send_audio (replicate 300 7) (sb_start (sb_create sb_default)) = (256, sb')"
  using send_audio_keeps_newest [OF sb_default_ok(1,2), of "replicate 300 7"] by auto


theorem sb_busy_and_underrun_witness:
  "sb_spi (sb_tx_turn [] (sb_start (sb_create sb_default))) = [] \<and>
   sb_seq (sb_tx_turn [] (sb_start (sb_create sb_default))) = 1"
  using sb_busy_and_underrun [OF sb_default_ok(1,2), of "[]"] unfolding sb_default_ok(3)
  by (simp add: sb_start_def sb_create_def sb_default_def)

end
