(* ===== verification/Ota.thy ===== *)
theory Ota
  imports Md5
begin

text \<open>
  The update daemon (services/otad.cpp) and the client side of the USB daemon's socket it uses
  (libs/hwinterface/usbd_client.cpp): packets with an XOR checksum on a byte stream reassembled from length-framed
  messages, and the session that stages an archive part by part, checks it and installs it. The socket is the bytes
  that are still to be read, after which it is at its end; writes succeed.
\<close>

section \<open>The client of the USB daemon\<close>

record usbd_client =
  uc_connected :: bool
  uc_in :: bytes
  uc_out :: bytes

text \<open>\<open>_read\<close> of at least one byte: \<open>None\<close> is the return value -1, at the end of the stream.\<close>

definition client_read :: "nat \<Rightarrow> usbd_client \<Rightarrow> bytes option \<times> usbd_client" where
  "client_read len c =
     (if len \<noteq> 0 \<and> uc_in c = [] then (None, c) else (Some (take len (uc_in c)), c\<lparr>uc_in := drop len (uc_in c)\<rparr>))"

definition client_send :: "bytes \<Rightarrow> usbd_client \<Rightarrow> bool \<times> usbd_client" where
  "client_send data c =
     (if \<not> uc_connected c then (False, c)
      else (True, c\<lparr>uc_out := uc_out c @ putU32LE (of_nat (length data)) @ data\<rparr>))"

definition client_disconnect :: "usbd_client \<Rightarrow> usbd_client" where
  "client_disconnect c = c\<lparr>uc_connected := False\<rparr>"

definition client_recv :: "nat \<Rightarrow> usbd_client \<Rightarrow> bytes option \<times> usbd_client" where
  "client_recv buf_size c =
     (if \<not> uc_connected c then (None, c)
      else case client_read 4 c of
        (None, c) \<Rightarrow> (None, client_disconnect c)
      | (Some lenb, c) \<Rightarrow>
          if length lenb \<noteq> 4 then (None, client_disconnect c)
          else
            let plen = unat (getU32LE lenb) in
            if plen = 0 \<or> plen > buf_size then (None, c)
            else case client_read plen c of
              (None, c) \<Rightarrow> (None, client_disconnect c)
            | (Some data, c) \<Rightarrow> (Some data, c))"

section \<open>Packets\<close>

abbreviation (input) OTA_MAGIC :: u8 where "OTA_MAGIC \<equiv> 0x0A"
abbreviation (input) OTA_BEGIN :: u8 where "OTA_BEGIN \<equiv> 0x01"
abbreviation (input) OTA_CHUNK :: u8 where "OTA_CHUNK \<equiv> 0x02"
abbreviation (input) OTA_END :: u8 where "OTA_END \<equiv> 0x03"
abbreviation (input) OTA_ACK :: u8 where "OTA_ACK \<equiv> 0x04"
abbreviation (input) OTA_NAK :: u8 where "OTA_NAK \<equiv> 0x05"
abbreviation (input) OTA_ABORT :: u8 where "OTA_ABORT \<equiv> 0x06"
abbreviation (input) PKT_BUF :: nat where "PKT_BUF \<equiv> 1048704"

definition xor_checksum :: "bytes \<Rightarrow> u8" where "xor_checksum data = fold (XOR) data 0"

definition encode_packet :: "nat \<Rightarrow> u8 \<Rightarrow> bytes \<Rightarrow> bytes option" where
  "encode_packet buf_size ty payload =
     (if buf_size < 1 + 1 + 4 + length payload + 1 then None
      else Some ([OTA_MAGIC, ty] @ putU32LE (of_nat (length payload)) @ payload @ [xor_checksum payload]))"

text \<open>The stream: a client, the bytes pulled and how many of them are consumed.\<close>

record ota_stream =
  os_client :: usbd_client
  os_buf :: bytes
  os_head :: nat

definition os_avail :: "ota_stream \<Rightarrow> nat" where "os_avail s = length (os_buf s) - os_head s"

text \<open>\<open>wait_readable\<close> succeeds while the client is connected: a socket at its end is readable too.\<close>

definition pull_one :: "ota_stream \<Rightarrow> bool \<times> ota_stream" where
  "pull_one s =
     (if \<not> uc_connected (os_client s) then (False, s)
      else case client_recv PKT_BUF (os_client s) of
        (None, c) \<Rightarrow> (False, s\<lparr>os_client := c\<rparr>)
      | (Some msg, c) \<Rightarrow>
          if msg = [] then (False, s\<lparr>os_client := c\<rparr>)
          else (True, s\<lparr>os_client := c, os_buf := drop (os_head s) (os_buf s) @ msg, os_head := 0\<rparr>))"

lemma client_read_in: "length (uc_in (snd (client_read n c))) \<le> length (uc_in c)"
  by (simp add: client_read_def)

lemma recv_shrinks: "client_recv n c = (Some msg, c') \<Longrightarrow> length (uc_in c') < length (uc_in c)"
  by (auto simp: client_recv_def client_read_def Let_def split: if_splits)

lemma pull_shrinks: "pull_one s = (True, s') \<Longrightarrow> length (uc_in (os_client s')) < length (uc_in (os_client s))"
  by (auto simp: pull_one_def dest: recv_shrinks split: if_splits prod.splits option.splits)

function stream_fill :: "nat \<Rightarrow> ota_stream \<Rightarrow> bool \<times> ota_stream" where
  "stream_fill n s =
     (if os_avail s < n then
        (case pull_one s of (True, s) \<Rightarrow> stream_fill n s | (False, s) \<Rightarrow> (False, s))
      else (True, s))"
  by auto
termination by (relation "measure (\<lambda>(n, s). length (uc_in (os_client s)))") (auto simp: pull_shrinks)

declare stream_fill.simps [simp del]

definition stream_read_exact :: "nat \<Rightarrow> ota_stream \<Rightarrow> bytes option \<times> ota_stream" where
  "stream_read_exact n s =
     (case stream_fill n s of
        (False, s) \<Rightarrow> (None, s)
      | (True, s) \<Rightarrow> (Some (take n (drop (os_head s) (os_buf s))), s\<lparr>os_head := os_head s + n\<rparr>))"

text \<open>The type and payload length of a packet, and the payload buffer after it: a refused packet may have written it.\<close>

definition recv_packet :: "ota_stream \<Rightarrow> bytes \<Rightarrow> (u8 \<times> nat) option \<times> ota_stream \<times> bytes" where
  "recv_packet s payload_buf =
     (case stream_read_exact 6 s of
        (None, s) \<Rightarrow> (None, s, payload_buf)
      | (Some header, s) \<Rightarrow>
          if header ! 0 \<noteq> OTA_MAGIC then (None, s, payload_buf)
          else
            let payload_len = unat (getU32LE (drop 2 header)) in
            if payload_len > length payload_buf then (None, s, payload_buf)
            else
              case (if payload_len = 0 then (Some [], s) else stream_read_exact payload_len s) of
                (None, s) \<Rightarrow> (None, s, payload_buf)
              | (Some payload, s) \<Rightarrow>
                  let payload_buf = memcpy_at 0 payload payload_buf in
                  case stream_read_exact 1 s of
                    (None, s) \<Rightarrow> (None, s, payload_buf)
                  | (Some cs, s) \<Rightarrow>
                      if cs ! 0 \<noteq> xor_checksum (take payload_len payload_buf) then (None, s, payload_buf)
                      else (Some (header ! 1, payload_len), s, payload_buf))"

definition stream_send :: "bytes option \<Rightarrow> ota_stream \<Rightarrow> bool \<times> ota_stream" where
  "stream_send packet s =
     (case packet of None \<Rightarrow> (False, s)
      | Some p \<Rightarrow> case client_send p (os_client s) of (ok, c) \<Rightarrow> (ok, s\<lparr>os_client := c\<rparr>))"

definition send_ack :: "u32 \<Rightarrow> ota_stream \<Rightarrow> bool \<times> ota_stream" where
  "send_ack part s = stream_send (encode_packet PKT_BUF OTA_ACK (putU32LE part)) s"

text \<open>A reason is given with its terminating null, in a field of 64 bytes.\<close>

definition send_nak :: "u32 \<Rightarrow> bytes \<Rightarrow> ota_stream \<Rightarrow> bool \<times> ota_stream" where
  "send_nak part reason s =
     (let payload = putU32LE part @ take 63 reason @ replicate (64 - length (take 63 reason)) 0
      in stream_send (encode_packet PKT_BUF OTA_NAK (take (4 + length reason + 1) payload)) s)"


text \<open>What can still be read: the bytes pulled and the bytes of the socket. Reading shrinks it.\<close>

definition os_unread :: "ota_stream \<Rightarrow> nat" where
  "os_unread s = os_avail s + length (uc_in (os_client s))"

lemma recv_count: "client_recv n c = (Some msg, c') \<Longrightarrow> length msg + length (uc_in c') \<le> length (uc_in c)"
  by (auto simp: client_recv_def client_read_def Let_def split: if_splits)

lemma pull_unread: "pull_one s = (ok, s') \<Longrightarrow> os_unread s' \<le> os_unread s"
proof -
  have fail: "client_recv n c = (None, c') \<Longrightarrow> length (uc_in c') \<le> length (uc_in c)" for n c c'
    by (auto simp: client_recv_def client_read_def client_disconnect_def Let_def split: if_splits)
  assume "pull_one s = (ok, s')"
  then show ?thesis
    by (auto simp: pull_one_def os_unread_def os_avail_def dest!: fail recv_count split: if_splits prod.splits option.splits)
qed

lemma fill_unread: "stream_fill n s = (ok, s') \<Longrightarrow> os_unread s' \<le> os_unread s \<and> (ok \<longrightarrow> n \<le> os_avail s')"
proof (induction n s rule: stream_fill.induct)
  case (1 n s)
  then show ?case
    using pull_unread by (fastforce simp: stream_fill.simps [of n s] dest: order.trans split: if_splits prod.splits bool.splits)
qed

lemma read_unread: "stream_read_exact n s = (b, s') \<Longrightarrow> os_unread s' + (if b = None then 0 else n) \<le> os_unread s"
  by (auto simp: stream_read_exact_def os_unread_def os_avail_def dest!: fill_unread split: prod.splits bool.splits)

lemma recv_packet_shrinks: "recv_packet s rx = (Some p, s', rx') \<Longrightarrow> os_unread s' < os_unread s"
  by (auto simp: recv_packet_def Let_def dest!: read_unread split: if_splits prod.splits option.splits)

lemma stream_send_unread [simp]: "os_unread (snd (stream_send pk s)) = os_unread s"
  by (simp add: stream_send_def client_send_def os_unread_def os_avail_def split: option.splits)

section \<open>The session\<close>

text \<open>\<open>se_rx\<close> is the receive buffer, which keeps what earlier packets left in it; \<open>se_zip\<close> the staged archive, \<open>None\<close> when the
  staging directory is removed. The environment says whether the directory and the file could be created and what
  unpacking and installing an archive answers.\<close>

record ota_session =
  se_stream :: ota_stream
  se_rx :: bytes
  se_zip :: "bytes option"

record ota_env =
  env_mkdir :: bool
  env_fopen :: bool
  env_apply :: "bytes \<Rightarrow> bool"

text \<open>\<open>Ota_outside\<close>: a chunk's size led behind the receive buffer, after which nothing is known.\<close>

datatype ota_end = Ota_returned | Ota_apply_failed bytes | Ota_rebooted bytes | Ota_outside

definition se_ack :: "u32 \<Rightarrow> ota_session \<Rightarrow> bool \<times> ota_session" where
  "se_ack part se = (case send_ack part (se_stream se) of (ok, s) \<Rightarrow> (ok, se\<lparr>se_stream := s\<rparr>))"

definition se_nak :: "u32 \<Rightarrow> string \<Rightarrow> ota_session \<Rightarrow> ota_session" where
  "se_nak part reason se = se\<lparr>se_stream := snd (send_nak part (map of_char reason) (se_stream se))\<rparr>"

definition se_recv :: "ota_session \<Rightarrow> (u8 \<times> nat) option \<times> ota_session" where
  "se_recv se = (case recv_packet (se_stream se) (se_rx se) of (pkt, s, rx) \<Rightarrow> (pkt, se\<lparr>se_stream := s, se_rx := rx\<rparr>))"

definition cleanup_staging :: "ota_session \<Rightarrow> ota_session" where "cleanup_staging se = se\<lparr>se_zip := None\<rparr>"

text \<open>The digest context lives on the stack; its buffer's memory does not matter.\<close>

abbreviation (input) stack64 :: bytes where "stack64 \<equiv> replicate 64 0"

datatype chunk_end = Chunk_stored | Chunk_mismatch | Chunk_outside

definition ota_chunk :: "ota_session \<Rightarrow> chunk_end \<times> ota_session" where
  "ota_chunk se =
     (let rx = se_rx se; part_num = getU32LE rx; part_size = unat (getU32LE (drop 4 rx)); md5_chunk = take 16 (drop 8 rx) in
      if 24 + part_size > length rx then (Chunk_outside, se)
      else
        let chunk_data = take part_size (drop 24 rx) in
        if md5_of_buf stack64 chunk_data \<noteq> md5_chunk then
          (Chunk_mismatch, cleanup_staging (se_nak part_num ''md5 mismatch'' se))
        else (Chunk_stored, snd (se_ack part_num (se\<lparr>se_zip := map_option (\<lambda>z. z @ chunk_data) (se_zip se)\<rparr>))))"

lemma ota_chunk_unread: "os_unread (se_stream (snd (ota_chunk se))) = os_unread (se_stream se)"
  by (auto simp: ota_chunk_def cleanup_staging_def se_nak_def send_nak_def se_ack_def send_ack_def Let_def case_prod_beta)

lemma chunk_unread: "(e, se') = ota_chunk se \<Longrightarrow> os_unread (se_stream se') = os_unread (se_stream se)"
  using ota_chunk_unread [of se] by (metis snd_conv)

lemma se_recv_shrinks: "(Some p, se') = se_recv se \<Longrightarrow> os_unread (se_stream se') < os_unread (se_stream se)"
  by (auto simp: se_recv_def dest!: recv_packet_shrinks split: prod.splits)

datatype loop_end = Loop_left | Loop_returned | Loop_outside

function ota_chunks :: "u32 \<Rightarrow> ota_session \<Rightarrow> loop_end \<times> u32 \<times> ota_session" where
  "ota_chunks received se =
     (if \<not> uc_connected (os_client (se_stream se)) then (Loop_left, received, se)
      else case se_recv se of
        (None, se) \<Rightarrow> (Loop_left, received, se)
      | (Some (ty, payload_len), se) \<Rightarrow>
          if ty = OTA_ABORT then (Loop_returned, received, cleanup_staging se)
          else if ty = OTA_END then (Loop_left, received, se)
          else if ty \<noteq> OTA_CHUNK then ota_chunks received se
          else (case ota_chunk se of
                  (Chunk_stored, se') \<Rightarrow> ota_chunks (received + 1) se'
                | (Chunk_mismatch, se') \<Rightarrow> (Loop_returned, received, se')
                | (Chunk_outside, se') \<Rightarrow> (Loop_outside, received, se')))"
  by auto
termination
  by (relation "measure (\<lambda>(received, se). os_unread (se_stream se))") (auto dest!: se_recv_shrinks chunk_unread)

declare ota_chunks.simps [simp del]

text \<open>From the end of the chunks on.\<close>

definition ota_finish :: "ota_env \<Rightarrow> u32 \<Rightarrow> bytes \<Rightarrow> u32 \<Rightarrow> ota_session \<Rightarrow> ota_end \<times> ota_session" where
  "ota_finish env total_parts md5_full received se =
     (if received \<noteq> total_parts then (Ota_returned, cleanup_staging se)
      else if md5_of_file stack64 (se_zip se) \<noteq> Some md5_full then
        (Ota_returned, cleanup_staging (se_nak 0 ''full zip md5 mismatch'' se))
      else
        let se = snd (se_ack 0xFFFFFFFF se); zip = the (se_zip se) in
        if env_apply env zip then (Ota_rebooted zip, cleanup_staging se)
        else (Ota_apply_failed zip, cleanup_staging se))"

definition run_ota_session :: "ota_env \<Rightarrow> ota_session \<Rightarrow> ota_end \<times> ota_session" where
  "run_ota_session env se =
     (case se_recv se of
        (None, se) \<Rightarrow> (Ota_returned, se)
      | (Some (ty, payload_len), se) \<Rightarrow>
          if ty \<noteq> OTA_BEGIN then (Ota_returned, se)
          else if payload_len < 29 then (Ota_returned, se_nak 0 ''begin payload too short'' se)
          else
            let total_parts = getU32LE (se_rx se); total_size = getU64LE (drop 4 (se_rx se)); md5_full = take 16 (drop 12 (se_rx se)) in
            if total_parts = 0 \<or> total_size = 0 then (Ota_returned, se_nak 0 ''invalid begin params'' se)
            else
              let se = cleanup_staging se in
              if \<not> env_mkdir env then (Ota_returned, se_nak 0 ''staging mkdir failed'' se)
              else
                (case se_ack 0 se of
                   (False, se) \<Rightarrow> (Ota_returned, cleanup_staging se)
                 | (True, se) \<Rightarrow>
                     if \<not> env_fopen env then (Ota_returned, se_nak 0 ''cannot open staging zip'' se)
                     else
                       (case ota_chunks 0 (se\<lparr>se_zip := Some []\<rparr>) of
                          (Loop_returned, received, se) \<Rightarrow> (Ota_returned, se)
                        | (Loop_outside, received, se) \<Rightarrow> (Ota_outside, se)
                        | (Loop_left, received, se) \<Rightarrow> ota_finish env total_parts md5_full received se)))"

text \<open>A new session on a connected client; the vector's elements are zero.\<close>

definition ota_start :: "usbd_client \<Rightarrow> ota_session" where
  "ota_start c = \<lparr>se_stream = \<lparr>os_client = c, os_buf = [], os_head = 0\<rparr>, se_rx = replicate PKT_BUF 0, se_zip = None\<rparr>"

end
