(* ===== verification/Md5Laws.thy ===== *)
theory Md5Laws
  imports Md5
begin

text \<open>
  The incremental context stands for the message hashed so far, whatever pieces it came in, and the final value is
  the digest of the padded message, as RFC 1321 defines it.
\<close>

section \<open>The digest of a message\<close>

function blocks64 :: "bytes \<Rightarrow> bytes list" where
  "blocks64 m = (if length m < 64 then [] else take 64 m # blocks64 (drop 64 m))"
  by auto
termination by (relation "measure length") auto

declare blocks64.simps [simp del]

definition tail64 :: "bytes \<Rightarrow> bytes" where
  "tail64 m = drop (64 * (length m div 64)) m"

text \<open>A byte 0x80, zeros up to 56 modulo 64, and the number of bits as eight bytes, least significant first.\<close>

definition md5_pad :: "bytes \<Rightarrow> bytes" where
  "md5_pad m = m @ 0x80 # replicate ((119 - length m mod 64) mod 64) 0
     @ map (\<lambda>i. of_nat (8 * length m div 2 ^ (8 * i))) [0..<8]"

definition md5_words_bytes :: "md5_words \<Rightarrow> bytes" where
  "md5_words_bytes s = (case s of (a, b, c, d) \<Rightarrow> putU32LE a @ putU32LE b @ putU32LE c @ putU32LE d)"

definition md5 :: "bytes \<Rightarrow> bytes" where
  "md5 m = md5_words_bytes (fold md5_transform (blocks64 (md5_pad m)) (0x67452301, 0xefcdab89, 0x98badcfe, 0x10325476))"

lemma blocks64_short: "length m < 64 \<Longrightarrow> blocks64 m = []"
  by (subst blocks64.simps) simp

lemma blocks64_block: "length b = 64 \<Longrightarrow> blocks64 (b @ m) = b # blocks64 m"
  by (subst blocks64.simps) simp

lemma tail64_short: "length m < 64 \<Longrightarrow> tail64 m = m"
  by (simp add: tail64_def)

lemma tail64_block: "length b = 64 \<Longrightarrow> tail64 (b @ m) = tail64 m"
  by (simp add: tail64_def div_add_self1)

lemma length_tail64: "length (tail64 m) = length m mod 64"
  by (simp add: tail64_def minus_mult_div_eq_mod)

text \<open>Cutting a message into blocks can go on from what was left over.\<close>

lemma blocks64_append: "blocks64 (m @ x) = blocks64 m @ blocks64 (tail64 m @ x) \<and> tail64 (m @ x) = tail64 (tail64 m @ x)"
proof (induction "length m" arbitrary: m rule: less_induct)
  case less
  show ?case
  proof (cases "length m < 64")
    case False
    then have m: "m = take 64 m @ drop 64 m" "length (take 64 m) = 64" by simp_all
    have "length (drop 64 m) < length m" using False by simp
    from less [OF this] show ?thesis
      using blocks64_block [OF m(2)] tail64_block [OF m(2)] m(1) by (metis append.assoc append_Cons)
  qed (simp add: blocks64_short tail64_short)
qed

lemma blocks_loop:
  "i \<le> length data \<Longrightarrow> md5_blocks_loop data i s = (j, s') \<Longrightarrow>
   s' = fold md5_transform (blocks64 (drop i data)) s \<and> drop j data = tail64 (drop i data)"
proof (induction data i s rule: md5_blocks_loop.induct)
  case (1 data i s)
  note step = md5_blocks_loop.simps [of data i s]
  show ?case
  proof (cases "i + 63 < length data")
    case True
    have split: "drop i data = take 64 (drop i data) @ drop (i + 64) data" "length (take 64 (drop i data)) = 64"
      using True by (metis add.commute append_take_drop_id drop_drop, simp)
    have "s' = fold md5_transform (blocks64 (drop (i + 64) data)) (md5_transform (take 64 (drop i data)) s) \<and>
        drop j data = tail64 (drop (i + 64) data)"
      using 1 True step by simp
    then show ?thesis
      using blocks64_block [OF split(2), of "drop (i + 64) data"] tail64_block [OF split(2), of "drop (i + 64) data"] split(1)
      by simp
  next
    case False
    then show ?thesis using 1 step by (simp add: blocks64_short tail64_short)
  qed
qed

section \<open>The context\<close>

text \<open>What the context holds after a message: the state over its whole blocks, the rest at the front of the buffer, and
  the number of bits modulo $2^{64}$.\<close>

definition md5_rep :: "md5_ctx \<Rightarrow> bytes \<Rightarrow> bool" where
  "md5_rep ctx m \<longleftrightarrow> length (md5_buffer ctx) = 64 \<and>
     md5_state ctx = fold md5_transform (blocks64 m) (0x67452301, 0xefcdab89, 0x98badcfe, 0x10325476) \<and>
     take (length m mod 64) (md5_buffer ctx) = tail64 m \<and>
     md5_count0 ctx = of_nat (8 * length m) \<and> md5_count1 ctx = of_nat (8 * length m div 2 ^ 32)"

lemma init_rep: "length mem = 64 \<Longrightarrow> md5_rep (md5_init mem) []"
  by (simp add: md5_rep_def md5_init_def blocks64_short tail64_short)

text \<open>The index into the buffer, read from the low word of the counter.\<close>

lemma count_index: "unat (drop_bit 3 (of_nat (8 * n) :: u32) AND 0x3F) = n mod 64"
proof -
  have "(0x3F :: u32) = mask 6" by (simp add: mask_eq_exp_minus_1)
  then have "unat (drop_bit 3 (of_nat (8 * n) :: u32) AND 0x3F) = unat (take_bit 6 (drop_bit 3 (of_nat (8 * n) :: u32)))"
    by (simp add: take_bit_eq_mask)
  also have "\<dots> = (8 * n) mod 2 ^ 32 div 8 mod 64"
    by (simp only: unsigned_take_bit_eq unsigned_drop_bit_eq unat_of_nat)
      (simp add: take_bit_eq_mod drop_bit_eq_div)
  also have "(8 * n) mod 2 ^ 32 = 8 * (n mod 2 ^ 29)" by (simp add: mult_mod_right)
  also have "8 * (n mod 2 ^ 29) div 8 mod 64 = n mod 64" by (simp add: mod_mod_cancel)
  finally show ?thesis .
qed

text \<open>The carry out of the low word, and the high word.\<close>

lemma carry_digit:
  fixes x y c :: nat
  assumes "x < c" "y < c"
  shows "(x + y) div c = (if (x + y) mod c < y then 1 else 0)"
proof (cases "x + y < c")
  case False
  then have "(x + y) div c = Suc ((x + y - c) div c)" "(x + y) mod c = (x + y - c) mod c"
    using assms by (simp_all add: le_div_geq le_mod_geq)
  moreover have "x + y - c < c" using assms by simp
  ultimately show ?thesis using assms False by simp
qed simp

lemma div_add_carry:
  fixes a b c :: nat
  assumes "0 < c"
  shows "(a + b) div c = (if (a + b) mod c < b mod c then 1 else 0) + a div c + b div c"
  using carry_digit [of "a mod c" c "b mod c"] assms div_add1_eq [of a b c] by (simp add: mod_add_eq)

lemma count_add:
  fixes n k :: nat
  defines "c \<equiv> of_nat (8 * n) + (of_nat (8 * k) :: u32)"
  shows "c = of_nat (8 * (n + k))"
    and "(if c < of_nat (8 * k) then of_nat (8 * n div 2 ^ 32) + 1 else of_nat (8 * n div 2 ^ 32)) + of_nat (k div 2 ^ 29)
      = (of_nat (8 * (n + k) div 2 ^ 32) :: u32)"
proof -
  show c: "c = of_nat (8 * (n + k))" by (simp add: c_def)
  have lt: "c < of_nat (8 * k) \<longleftrightarrow> 8 * (n + k) mod 2 ^ 32 < 8 * k mod 2 ^ 32"
    by (simp only: c word_less_nat_alt unat_of_nat) simp
  let ?A = "8 * n div 2 ^ 32" and ?K = "k div 2 ^ 29" and ?lt = "c < of_nat (8 * k)"
  have "8 * k div 2 ^ 32 = ?K" using div_mult_mult1 [of 8 k "2 ^ 29"] by simp
  then have "(if ?lt then 1 else 0) + ?A + ?K = 8 * (n + k) div 2 ^ 32"
    unfolding lt using div_add_carry [of "2 ^ 32" "8 * n" "8 * k"] by (simp only: distrib_left) simp
  moreover have "(if ?lt then of_nat ?A + 1 else of_nat ?A) + of_nat ?K = (of_nat ((if ?lt then 1 else 0) + ?A + ?K) :: u32)"
    by (cases ?lt) (simp_all only: if_True if_False add_0 of_nat_add of_nat_1 add.commute add.left_commute)
  ultimately show "(if ?lt then of_nat ?A + 1 else of_nat ?A) + of_nat ?K = (of_nat (8 * (n + k) div 2 ^ 32) :: u32)"
    by (simp only:)
qed

lemma update_rep:
  assumes rep: "md5_rep ctx m"
  shows "md5_rep (md5_update data ctx) (m @ data)"
proof -
  note r = rep [unfolded md5_rep_def]
  let ?index = "length m mod 64" and ?len = "length data"
  have index: "unat (drop_bit 3 (md5_count0 ctx) AND 0x3F) = ?index" using r count_index by simp
  have c0: "md5_count0 ctx + of_nat (8 * ?len) = of_nat (8 * (length m + ?len))"
    using r count_add(1) [of "length m" ?len] by (simp only:)
  have c1: "(if of_nat (8 * (length m + ?len)) < (of_nat (8 * ?len) :: u32) then md5_count1 ctx + 1 else md5_count1 ctx)
      + of_nat (?len div 2 ^ 29) = of_nat (8 * (length m + ?len) div 2 ^ 32)"
    using r count_add(2) [of "length m" ?len, unfolded count_add(1)] by (simp only:)
  have il: "?index < 64" by simp
  have tl: "length (tail64 m) = ?index" by (rule length_tail64)
  let ?part = "64 - ?index"
  show ?thesis
  proof (cases "?part \<le> ?len")
    case True
    let ?buf = "memcpy_at ?index (take ?part data) (md5_buffer ctx)"
    have buf: "?buf = tail64 m @ take ?part data" using r True il by (simp add: memcpy_at_def)
    have blen: "length (tail64 m @ take ?part data) = 64" using True il tl by simp
    obtain j s' where loop: "md5_blocks_loop data ?part (md5_transform ?buf (md5_state ctx)) = (j, s')" by (metis surj_pair)
    have l: "s' = fold md5_transform (blocks64 (drop ?part data)) (md5_transform ?buf (md5_state ctx))"
      "drop j data = tail64 (drop ?part data)"
      using blocks_loop [OF True loop] by simp_all
    have split: "tail64 m @ data = (tail64 m @ take ?part data) @ drop ?part data" by simp
    have all: "blocks64 (m @ data) = blocks64 m @ ?buf # blocks64 (drop ?part data)"
      "tail64 (m @ data) = tail64 (drop ?part data)"
      using blocks64_append [of m data] blocks64_block [OF blen, of "drop ?part data"] tail64_block [OF blen, of "drop ?part data"]
      unfolding buf split by simp_all
    have rest: "length (tail64 (m @ data)) < 64" by (simp add: length_tail64)
    have mod_tail: "(length m + ?len) mod 64 = length (tail64 (drop ?part data))"
      using length_tail64 [of "m @ data"] all(2) by simp
    have "md5_update data ctx = ctx\<lparr>md5_count0 := of_nat (8 * (length m + ?len)), md5_count1 := of_nat (8 * (length m + ?len) div 2 ^ 32),
        md5_state := s', md5_buffer := memcpy_at 0 (drop j data) ?buf\<rparr>"
      unfolding md5_update_def Let_def index c0 c1 using True loop
      by (simp only: md5_ctx.simps if_True split) simp
    moreover have "length (memcpy_at 0 (drop j data) ?buf) = 64"
      using blen rest l(2) all(2) unfolding buf by (subst length_memcpy_at) simp_all
    moreover have "take (length (tail64 (drop ?part data))) (memcpy_at 0 (drop j data) ?buf) = tail64 (drop ?part data)"
      using l(2) by (simp add: memcpy_at_def)
    ultimately show ?thesis
      unfolding md5_rep_def all length_append mod_tail using r l(1) by (simp del: of_nat_mult)
  next
    case False
    have short: "length (tail64 m @ data) < 64" using False il tl by simp
    have all: "blocks64 (m @ data) = blocks64 m" "tail64 (m @ data) = tail64 m @ data"
      using blocks64_append [of m data] short by (simp_all add: blocks64_short tail64_short)
    have len: "(length m + ?len) mod 64 = ?index + ?len"
      using length_tail64 [of "m @ data"] tl by (simp add: all(2))
    have "md5_update data ctx = ctx\<lparr>md5_count0 := of_nat (8 * (length m + ?len)), md5_count1 := of_nat (8 * (length m + ?len) div 2 ^ 32),
        md5_buffer := memcpy_at ?index data (md5_buffer ctx)\<rparr>"
      unfolding md5_update_def Let_def index c0 c1 using False by (simp only: md5_ctx.simps if_False) simp
    then show ?thesis
      using r all len short tl by (simp add: md5_rep_def memcpy_at_def)
  qed
qed


text \<open>A digest that takes its input piece by piece: \<open>rep\<close> relates a context to what it has taken.\<close>

locale incremental =
  fixes rep :: "'c \<Rightarrow> 'a list \<Rightarrow> bool" and start :: "'c" and update :: "'a list \<Rightarrow> 'c \<Rightarrow> 'c" and final :: "'c \<Rightarrow> 'd"
    and digest :: "'a list \<Rightarrow> 'd"
  assumes rep_start: "rep start []"
    and rep_update: "rep c m \<Longrightarrow> rep (update x c) (m @ x)"
    and rep_final: "rep c m \<Longrightarrow> final c = digest m"
begin

lemma rep_pieces: "rep c m \<Longrightarrow> rep (fold update pieces c) (m @ concat pieces)"
  by (induction pieces arbitrary: c m) (use rep_update in fastforce)+

lemma pieces_digest: "final (fold update pieces start) = digest (concat pieces)"
  using rep_final [OF rep_pieces [OF rep_start]] by simp

end

lemma low_byte:
  assumes "i < 4"
  shows "ucast (drop_bit (i * 8) (of_nat n :: u32) AND 0xFF) = (of_nat (n div 2 ^ (8 * i)) :: u8)"
  unfolding ucast_and_0xFF
proof (rule bit_word_eqI)
  fix k assume k: "k < LENGTH(8)"
  have "bit (n div 2 ^ (8 * i)) k = bit n (8 * i + k)"
    by (simp add: bit_drop_bit_eq flip: drop_bit_eq_div)
  then show "bit (ucast (drop_bit (i * 8) (of_nat n :: u32)) :: u8) k = bit (of_nat (n div 2 ^ (8 * i)) :: u8) k"
    using k assms by (simp add: bit_simps mult.commute)
qed

lemma upto4: "[0..<4] = [0, 1, 2, 3 :: nat]"
  by (simp add: upt_rec)

lemma length_bits:
  "map (\<lambda>i. ucast (drop_bit (i * 8) (of_nat n :: u32) AND 0xFF)) [0..<4] @
   map (\<lambda>i. ucast (drop_bit (i * 8) (of_nat (n div 2 ^ 32) :: u32) AND 0xFF)) [0..<4]
   = (map (\<lambda>i. of_nat (n div 2 ^ (8 * i))) [0..<8] :: bytes)"
proof -
  have hi: "map (\<lambda>i. of_nat (n div 2 ^ 32 div 2 ^ (8 * i))) [0..<4] = (map (\<lambda>i. of_nat (n div 2 ^ (8 * i))) [4..<8] :: bytes)"
    by (simp add: upto4 upt_rec_numeral flip: div_mult2_eq)
  have lo: "map (\<lambda>i. ucast (drop_bit (i * 8) (of_nat k :: u32) AND 0xFF)) [0..<4]
      = (map (\<lambda>i. of_nat (k div 2 ^ (8 * i))) [0..<4] :: bytes)" for k
    by (rule map_cong [OF refl]) (simp add: low_byte)
  have "[0..<8] = [0..<4] @ [4..<(8 :: nat)]" using upt_add_eq_append [of 0 4 4] by simp
  then show ?thesis unfolding lo hi by (simp only: map_append)
qed

lemma final_rep:
  assumes rep: "md5_rep ctx m"
  shows "md5_final ctx = md5 m"
proof -
  note r = rep [unfolded md5_rep_def]
  let ?index = "length m mod 64"
  let ?padLen = "if ?index < 56 then 56 - ?index else 120 - ?index"
  let ?bits = "map (\<lambda>i. of_nat (8 * length m div 2 ^ (8 * i))) [0..<8] :: bytes"
  have index: "unat (drop_bit 3 (md5_count0 ctx) AND 0x3F) = ?index" using r count_index by simp
  have il: "?index < 64" by simp
  have pl: "?padLen = Suc ((119 - ?index) mod 64)"
  proof (cases "?index < 56")
    case True
    then have "119 - ?index = 64 + (55 - ?index)" by simp
    then have "(119 - ?index) mod 64 = (55 - ?index) mod 64" by (simp only: mod_add_self1)
    also have "\<dots> = 55 - ?index" by (rule mod_less) simp
    finally have "(119 - ?index) mod 64 = 55 - ?index" .
    moreover have "56 - ?index = Suc (55 - ?index)" using True by (simp add: Suc_diff_le flip: Suc_diff_Suc)
    ultimately show ?thesis using True by (simp only: if_True)
  qed (use il in auto)
  have pad: "take ?padLen md5_padding = 0x80 # replicate ((119 - ?index) mod 64) 0"
    unfolding pl md5_padding_def by (simp add: min_def)
  have bits: "map (\<lambda>i. ucast (drop_bit (i * 8) (md5_count0 ctx) AND 0xFF)) [0..<4]
      @ map (\<lambda>i. ucast (drop_bit (i * 8) (md5_count1 ctx) AND 0xFF)) [0..<4] = ?bits"
    using r length_bits [of "8 * length m"] by (simp only:)
  define ctx' where "ctx' = md5_update ?bits (md5_update (take ?padLen md5_padding) ctx)"
  have "md5_rep ctx' (md5_pad m)"
    using update_rep [OF update_rep [OF rep, of "take ?padLen md5_padding"], of ?bits]
    unfolding ctx'_def md5_pad_def pad by simp
  then have "md5_state ctx' = fold md5_transform (blocks64 (md5_pad m)) (0x67452301, 0xefcdab89, 0x98badcfe, 0x10325476)"
    by (simp add: md5_rep_def)
  then show ?thesis
    unfolding md5_final_def Let_def bits index ctx'_def [symmetric] md5_def md5_words_bytes_def
    by (simp add: putU32LE_def split: prod.split)
qed

text \<open>The starting context depends on the buffer's memory; any memory of 64 bytes gives the same digests.\<close>

definition md5_mem :: "bytes \<Rightarrow> bytes" where "md5_mem mem = memcpy_at 0 (take 64 mem) (replicate 64 0)"

lemma length_md5_mem: "length (md5_mem mem) = 64"
  by (simp add: md5_mem_def)

interpretation md5_stream: incremental md5_rep "md5_init (md5_mem mem)" md5_update md5_final md5 for mem
  by unfold_locales (simp_all add: init_rep length_md5_mem update_rep final_rep)

lemma md5_mem_id: "length mem = 64 \<Longrightarrow> md5_mem mem = mem"
  by (simp add: md5_mem_def memcpy_at_def)

lemma file_pieces: "\<exists>pieces. md5_file_loop f c = fold md5_update pieces c \<and> concat pieces = f"
proof (induction "length f" arbitrary: f c rule: less_induct)
  case less
  show ?case
  proof (cases "take 4096 f = []")
    case True
    then show ?thesis by (intro exI [of _ "[]"]) (simp add: md5_file_loop.simps)
  next
    case False
    then have "length (drop 4096 f) < length f" by (cases f) auto
    then obtain pieces where "md5_file_loop (drop 4096 f) (md5_update (take 4096 f) c)
        = fold md5_update pieces (md5_update (take 4096 f) c)" "concat pieces = drop 4096 f"
      using less by blast
    then show ?thesis
      using False by (intro exI [of _ "take 4096 f # pieces"]) (simp add: md5_file_loop.simps [of f])
  qed
qed

text \<open>C34: The digest does not depend on how the message is cut: updates with any pieces, in any buffer memory, end in the
  MD5 of their concatenation (padding and 64-bit bit count as RFC 1321 defines them, for every length); hence the
  hash of a file read in 4096-byte pieces is that of the same bytes hashed at once.\<close>

theorem md5_incremental:
  assumes "length mem = 64" "length mem' = 64"
  shows "md5_final (fold md5_update pieces (md5_init mem)) = md5 (concat pieces) \<and>
    md5_of_file mem (Some data) = Some (md5_of_buf mem' data) \<and> md5_of_buf mem' data = md5 data"
proof -
  obtain fp where "md5_file_loop data (md5_init mem) = fold md5_update fp (md5_init mem)" "concat fp = data"
    using file_pieces by blast
  then show ?thesis
    using md5_stream.pieces_digest [of pieces mem] md5_stream.pieces_digest [of fp mem] md5_stream.pieces_digest [of "[data]" mem']
      assms
    by (simp add: md5_mem_id md5_of_file_def md5_of_buf_def)
qed

theorem md5_incremental_witness:
  "md5_final (fold md5_update [[1, 2], [], [3]] (md5_init (replicate 64 0))) = md5 [1, 2, 3]"
  using md5_incremental [of "replicate 64 0" "replicate 64 0" "[[1, 2], [], [3]]"] by simp

end
