(* ===== verification/Usbd.thy ===== *)
theory Usbd
  imports Ring Mubd
begin

text \<open>
  The USB daemon (services/usbd.cpp): bulk OUT bytes are reassembled into MUBD frames and dispatched to the
  channels' receive rings, each of which a thread empties to its application's socket; what applications write
  goes through a transmit ring and a double-buffered sender to bulk IN. Every mutex-protected ring call is atomic;
  the threads are the turns of an event list, in any interleaving. Sockets and endpoints are what is written to
  them and, for reads, the answers of the calls.
\<close>

section \<open>Reading and writing descriptors\<close>

text \<open>The answers of successive \<^verbatim>\<open>read\<close> calls; \<open>Got []\<close> is the end of the stream.\<close>

datatype read_answer = Got bytes | Rd_eintr | Rd_again | Rd_fail

text \<open>\<open>None\<close> is a call that never returns. The result is the bytes read, or \<open>None\<close> for the return value -1, with the number of
  the next call.\<close>

partial_function (option) read_all :: "(nat \<Rightarrow> read_answer) \<Rightarrow> nat \<Rightarrow> bytes \<Rightarrow> nat \<Rightarrow> (bytes option \<times> nat) option" where
  "read_all answers k got len =
     (if length got < len then
        (case answers k of
           Rd_eintr \<Rightarrow> read_all answers (Suc k) got len
         | Rd_again \<Rightarrow> read_all answers (Suc k) got len
         | Rd_fail \<Rightarrow> Some (None, Suc k)
         | Got r \<Rightarrow> read_all answers (Suc k) (got @ take (len - length got) r) len)
      else Some (Some got, k))"

datatype write_answer = Took nat | Wr_eintr | Wr_fail

partial_function (option) write_all :: "(nat \<Rightarrow> write_answer) \<Rightarrow> nat \<Rightarrow> nat \<Rightarrow> nat \<Rightarrow> (nat option \<times> nat) option" where
  "write_all answers k sent len =
     (if sent < len then
        (case answers k of
           Wr_eintr \<Rightarrow> write_all answers (Suc k) sent len
         | Wr_fail \<Rightarrow> Some (None, Suc k)
         | Took r \<Rightarrow> write_all answers (Suc k) (sent + min r (len - sent)) len)
      else Some (Some sent, k))"

section \<open>Channels\<close>

text \<open>\<open>ch_rx\<close>, \<open>ch_tx\<close>: the rings towards and from the application. \<open>ch_sock\<close> is what the application's socket was sent,
  \<open>ch_taken\<close> what was read from it and \<open>ch_pending\<close> the part of that the reader thread still has to put into the ring.
  \<open>ch_cur\<close> is the filled buffer of the transmit thread. Two fields observe what the code does not look at:
  \<open>ch_overrun\<close>, that the receive ring took less than it was given, and \<open>ch_txfail\<close>, that a frame could not be
  sent.\<close>

datatype tx_phase = TxWait | TxLoop | TxFlush | TxEnded

record usbd_chan =
  ch_active :: bool
  ch_rx :: byte_ring
  ch_tx :: byte_ring
  ch_sock :: bytes
  ch_overrun :: bool
  ch_taken :: bytes
  ch_pending :: bytes
  ch_cur :: bytes
  ch_phase :: tx_phase
  ch_txfail :: bool

definition chan_init :: "bytes \<Rightarrow> bytes \<Rightarrow> usbd_chan" where
  "chan_init rxmem txmem = \<lparr>ch_active = True, ch_rx = br_init rxmem, ch_tx = br_init txmem, ch_sock = [],
     ch_overrun = False, ch_taken = [], ch_pending = [], ch_cur = [], ch_phase = TxWait, ch_txfail = False\<rparr>"

text \<open>A frame: channel, flags, payload. \<open>ud_ep2\<close> is the frames written to bulk IN. \<open>ud_outside\<close> records an access outside
  the channel array; what the program does after it is not modelled.\<close>

type_synonym usb_mux_frame = "u8 \<times> u8 \<times> bytes"

record usbd =
  ud_chans :: "usbd_chan list"
  ud_reasm :: bytes
  ud_ep2 :: "usb_mux_frame list"
  ud_outside :: bool

abbreviation (input) READ_CHUNK :: nat where "READ_CHUNK \<equiv> 524288"
abbreviation (input) REASSEMBLY_MAX :: nat where "REASSEMBLY_MAX \<equiv> 4194316"

definition upd_chan :: "u8 \<Rightarrow> (usbd_chan \<Rightarrow> usbd_chan) \<Rightarrow> usbd \<Rightarrow> usbd" where
  "upd_chan cid f d = d\<lparr>ud_chans := (ud_chans d)[unat cid := f (ud_chans d ! unat cid)]\<rparr>"

text \<open>The bytes of a frame on bulk IN, one \<^verbatim>\<open>write\<close>.\<close>

definition usb_frame_bytes :: "usb_mux_frame \<Rightarrow> bytes" where
  "usb_frame_bytes f =
     (case f of (channel, flags, payload) \<Rightarrow>
        putU32LE FRAME_MAGIC @ [channel, flags] @ putU16LE 0 @ putU32LE (of_nat (length payload)) @ payload)"

definition usb_send_frame :: "u8 \<Rightarrow> u8 \<Rightarrow> bytes \<Rightarrow> usbd \<Rightarrow> usbd" where
  "usb_send_frame channel flags payload d = d\<lparr>ud_ep2 := ud_ep2 d @ [(channel, flags, payload)]\<rparr>"

section \<open>Receiving\<close>

text \<open>The frames in the reassembly buffer, and what is left of it.\<close>

function rx_scan :: "bytes \<Rightarrow> usb_mux_frame list \<times> bytes" where
  "rx_scan buf =
     (if length buf < HEADER_SIZE then ([], buf)
      else if getU32LE buf \<noteq> FRAME_MAGIC then rx_scan (tl buf)
      else
        let plen = unat (getU32LE (drop 8 buf)); total_needed = HEADER_SIZE + plen in
        if total_needed > length buf then ([], buf)
        else
          let (frames, rest) = rx_scan (drop total_needed buf)
          in ((buf ! 4, buf ! 5, take plen (drop HEADER_SIZE buf)) # frames, rest))"
  by auto
termination by (relation "measure length") auto

declare rx_scan.simps [simp del]

text \<open>Both writes of a message to the ring, whose counts are dropped.\<close>

definition rx_ring_message :: "bytes \<Rightarrow> usbd_chan \<Rightarrow> usbd_chan" where
  "rx_ring_message payload ch =
     (let net = putU32LE (of_nat (length payload)); (n1, r) = br_write net (ch_rx ch); (n2, r) = br_write payload r
      in ch\<lparr>ch_rx := r, ch_overrun := (ch_overrun ch \<or> n1 < 4 \<or> n2 < length payload)\<rparr>)"

definition rx_dispatch :: "usb_mux_frame \<Rightarrow> usbd \<Rightarrow> usbd" where
  "rx_dispatch frame d =
     (case frame of (cid, flag, payload) \<Rightarrow>
        if unat cid \<ge> length (ud_chans d) then d\<lparr>ud_outside := True\<rparr>
        else
          let active = ch_active (ud_chans d ! unat cid) in
          if flag = FLAG_DATA \<and> active \<and> payload \<noteq> [] then upd_chan cid (rx_ring_message payload) d
          else if flag = FLAG_OPEN then usb_send_frame cid FLAG_ACK [] d
          else if flag = FLAG_CLOSE \<and> active then upd_chan cid (\<lambda>ch. ch\<lparr>ch_active := False\<rparr>) d
          else d)"

text \<open>One successful \<^verbatim>\<open>read\<close> of bulk OUT.\<close>

definition usb_rx :: "bytes \<Rightarrow> usbd \<Rightarrow> usbd" where
  "usb_rx chunk d =
     (let kept = (if length (ud_reasm d) + length chunk > REASSEMBLY_MAX then [] else ud_reasm d);
          (frames, rest) = rx_scan (kept @ chunk)
      in (fold rx_dispatch frames d)\<lparr>ud_reasm := rest\<rparr>)"

text \<open>One turn of a channel's receive thread: it waits for four bytes, takes a length and the message. A drain and a
  message stop at the bytes that are there.\<close>

function rx_drain :: "nat \<Rightarrow> byte_ring \<Rightarrow> byte_ring" where
  "rx_drain skip r =
     (if skip = 0 then r
      else
        let n = (if skip < 256 then skip else 256) in
        case br_read_exact n r of None \<Rightarrow> r | Some (trash, r) \<Rightarrow> rx_drain (skip - n) r)"
  by auto
termination by (relation "measure fst") auto

declare rx_drain.simps [simp del]

definition rx_turn_chan :: "usbd_chan \<Rightarrow> usbd_chan" where
  "rx_turn_chan ch =
     (if \<not> ch_active ch then ch
      else
        case br_read_exact 4 (ch_rx ch) of
          None \<Rightarrow> ch
        | Some (lenb, r) \<Rightarrow>
            let plen = unat (getU32LE lenb) in
            if plen = 0 \<or> plen > MAX_FRAME_SIZE then ch\<lparr>ch_rx := rx_drain plen r\<rparr>
            else
              case br_read_exact plen r of
                None \<Rightarrow> ch\<lparr>ch_rx := r\<rparr>
              | Some (rxbuf, r) \<Rightarrow> ch\<lparr>ch_rx := r, ch_sock := ch_sock ch @ putU32LE (of_nat plen) @ rxbuf\<rparr>)"

definition channel_rx_turn :: "u8 \<Rightarrow> usbd \<Rightarrow> usbd" where
  "channel_rx_turn cid d = (if unat cid \<ge> length (ud_chans d) then d else upd_chan cid rx_turn_chan d)"

section \<open>Transmitting\<close>

text \<open>The reader thread of an application: a message of its socket, and a turn that moves what the transmit ring takes.
  The message is handed over in pieces of at most 512 KiB, whose bytes reach the ring in the same order.\<close>

definition app_disconnect :: "u8 \<Rightarrow> usbd \<Rightarrow> usbd" where
  "app_disconnect cid d = usb_send_frame cid FLAG_CLOSE [] (upd_chan cid (\<lambda>ch. ch\<lparr>ch_active := False\<rparr>) d)"

definition app_message :: "u8 \<Rightarrow> bytes \<Rightarrow> usbd \<Rightarrow> usbd" where
  "app_message cid data d =
     (let ch = ud_chans d ! unat cid in
      if unat cid \<ge> length (ud_chans d) \<or> \<not> ch_active ch \<or> ch_pending ch \<noteq> [] then d
      else if data = [] \<or> length data > MAX_FRAME_SIZE then app_disconnect cid d
      else upd_chan cid (\<lambda>ch. ch\<lparr>ch_taken := ch_taken ch @ data, ch_pending := data\<rparr>) d)"

definition app_turn_chan :: "usbd_chan \<Rightarrow> usbd_chan" where
  "app_turn_chan ch =
     (if \<not> ch_active ch then ch
      else case br_write (ch_pending ch) (ch_tx ch) of (n, r) \<Rightarrow> ch\<lparr>ch_tx := r, ch_pending := drop n (ch_pending ch)\<rparr>)"

text \<open>A buffer filled from the ring, which holds the bytes.\<close>

definition tx_fill :: "byte_ring \<Rightarrow> bytes \<times> byte_ring" where
  "tx_fill r =
     (let avail = unat (br_used r); n = (if avail < USB_MAX_PAYLOAD then avail else USB_MAX_PAYLOAD) in
      case br_read_exact n r of None \<Rightarrow> ([], r) | Some (out, r) \<Rightarrow> (out, r))"

text \<open>A turn of the transmit thread, up to its next blocking call; \<open>ok\<close> is whether the endpoint took the frame. The frames
  sent are the result's first part.\<close>

definition tx_turn_chan :: "bool \<Rightarrow> usbd_chan \<Rightarrow> bytes list \<times> usbd_chan" where
  "tx_turn_chan ok ch =
     (case ch_phase ch of
        TxWait \<Rightarrow>
          if br_used (ch_tx ch) = 0 then ([], if ch_active ch then ch else ch\<lparr>ch_phase := TxFlush\<rparr>)
          else (case tx_fill (ch_tx ch) of (out, r) \<Rightarrow> ([], ch\<lparr>ch_cur := out, ch_tx := r, ch_phase := TxLoop\<rparr>))
      | TxLoop \<Rightarrow>
          if \<not> ch_active ch then ([], ch\<lparr>ch_phase := TxFlush\<rparr>)
          else if br_used (ch_tx ch) = 0 then
            (if ch_cur ch \<noteq> [] then
               (if ok then ([ch_cur ch], ch\<lparr>ch_cur := [], ch_phase := TxWait\<rparr>)
                else ([], ch\<lparr>ch_phase := TxFlush, ch_txfail := True\<rparr>))
             else ([], ch\<lparr>ch_phase := TxWait\<rparr>))
          else
            (case tx_fill (ch_tx ch) of (nxt, r) \<Rightarrow>
               if ch_cur ch \<noteq> [] \<and> \<not> ok then ([], ch\<lparr>ch_tx := r, ch_phase := TxFlush, ch_txfail := True\<rparr>)
               else (if ch_cur ch \<noteq> [] then [ch_cur ch] else [], ch\<lparr>ch_tx := r, ch_cur := nxt\<rparr>))
      | TxFlush \<Rightarrow>
          if ch_cur ch \<noteq> [] \<and> ok then ([ch_cur ch], ch\<lparr>ch_phase := TxEnded, ch_cur := []\<rparr>)
          else ([], ch\<lparr>ch_phase := TxEnded, ch_txfail := (ch_txfail ch \<or> ch_cur ch \<noteq> [])\<rparr>)
      | TxEnded \<Rightarrow> ([], ch))"

definition channel_tx_turn :: "u8 \<Rightarrow> bool \<Rightarrow> usbd \<Rightarrow> usbd" where
  "channel_tx_turn cid ok d =
     (if unat cid \<ge> length (ud_chans d) then d
      else case tx_turn_chan ok (ud_chans d ! unat cid) of (sent, ch) \<Rightarrow>
        fold (usb_send_frame cid FLAG_DATA) sent (upd_chan cid (\<lambda>_. ch) d))"

section \<open>The daemon\<close>

datatype usbd_event =
    UsbBytes bytes
  | RxTurn u8
  | AppMessage u8 bytes
  | AppTurn u8
  | TxTurn u8 bool

definition usbd_step :: "usbd_event \<Rightarrow> usbd \<Rightarrow> usbd" where
  "usbd_step e d =
     (case e of
        UsbBytes chunk \<Rightarrow> usb_rx chunk d
      | RxTurn cid \<Rightarrow> channel_rx_turn cid d
      | AppMessage cid data \<Rightarrow> app_message cid data d
      | AppTurn cid \<Rightarrow> (if unat cid \<ge> length (ud_chans d) then d else upd_chan cid app_turn_chan d)
      | TxTurn cid ok \<Rightarrow> channel_tx_turn cid ok d)"

definition first_free :: "usbd_chan list \<Rightarrow> nat option" where
  "first_free chans = (case filter (\<lambda>i. \<not> ch_active (chans ! i)) [0..<length chans] of [] \<Rightarrow> None | i # _ \<Rightarrow> Some i)"

text \<open>The accept thread's answer to an application that asks for a channel: the byte it is sent. The memory is what the
  two rings are allocated.\<close>

definition ipc_accept :: "u8 \<Rightarrow> bytes \<Rightarrow> bytes \<Rightarrow> usbd \<Rightarrow> u8 \<times> usbd" where
  "ipc_accept req_cid rxmem txmem d =
     (let assigned = (if req_cid = 0xFF then first_free (ud_chans d)
                      else if unat req_cid < MAX_CHANNELS \<and> \<not> ch_active (ud_chans d ! unat req_cid) then Some (unat req_cid)
                      else None)
      in case assigned of
           None \<Rightarrow> (0xFF, d)
         | Some i \<Rightarrow>
             let d = d\<lparr>ud_chans := (ud_chans d)[i := chan_init rxmem txmem]\<rparr>
             in (of_nat i, usb_send_frame (of_nat i) FLAG_OPEN [] d))"

definition usbd_start :: usbd where
  "usbd_start = \<lparr>ud_chans = replicate MAX_CHANNELS ((chan_init [] [])\<lparr>ch_active := False\<rparr>),
     ud_reasm = [], ud_ep2 = [], ud_outside = False\<rparr>"

end
