(* ===== verification/UsbdLaws.thy ===== *)
theory UsbdLaws
  imports Usbd "HOL-Library.Sublist"
begin

text \<open>
  What the USB daemon guarantees: host frames reach the application of their channel whole and in order, whatever
  the reads and the thread interleaving, as long as its ring has room; what an application writes reaches the
  host in order. And where it fails: an end of stream that is never noticed, a channel number outside the array, a
  ring overrun that breaks the framing.
\<close>

section \<open>Reading to the end of a stream\<close>

lemma read_all_waits:
  assumes "read_all answers k got len = Some res"
  shows "(\<forall>j\<ge>k. answers j = Got [] \<or> answers j = Rd_eintr \<or> answers j = Rd_again) \<longrightarrow> len \<le> length got"
  using assms
proof (rule read_all.raw_induct [where P = "\<lambda>answers k got len res.
    (\<forall>j\<ge>k. answers j = Got [] \<or> answers j = Rd_eintr \<or> answers j = Rd_again) \<longrightarrow> len \<le> length got", rotated])
  fix loop :: "(nat \<Rightarrow> read_answer) \<Rightarrow> nat \<Rightarrow> bytes \<Rightarrow> nat \<Rightarrow> (bytes option \<times> nat) option"
    and answers k got len res
  assume IH: "\<And>answers k got len res. loop answers k got len = Some res \<Longrightarrow>
      (\<forall>j\<ge>k. answers j = Got [] \<or> answers j = Rd_eintr \<or> answers j = Rd_again) \<longrightarrow> len \<le> length got"
    and step: "(if length got < len then
        (case answers k of
           Rd_eintr \<Rightarrow> loop answers (Suc k) got len
         | Rd_again \<Rightarrow> loop answers (Suc k) got len
         | Rd_fail \<Rightarrow> Some (None, Suc k)
         | Got r \<Rightarrow> loop answers (Suc k) (got @ take (len - length got) r) len)
      else Some (Some got, k)) = Some res"
  show "(\<forall>j\<ge>k. answers j = Got [] \<or> answers j = Rd_eintr \<or> answers j = Rd_again) \<longrightarrow> len \<le> length got"
  proof (intro impI, rule ccontr)
    assume a: "\<forall>j\<ge>k. answers j = Got [] \<or> answers j = Rd_eintr \<or> answers j = Rd_again" and short: "\<not> len \<le> length got"
    have "loop answers (Suc k) got len = Some res"
      using step short a [rule_format, of k] by (auto split: read_answer.splits)
    then show False using IH a short by (meson Suc_leD)
  qed
qed

text \<open>At the end of an application's stream \<^verbatim>\<open>read_all\<close> never returns: it takes the zero that \<^verbatim>\<open>read\<close> answers for
  a call to repeat. So the reader thread does not notice that the application has gone; its channel stays active, the
  host is not told, and the channel number is never free again.\<close>

theorem app_end_of_stream_hangs:
  assumes "length got < len" and "\<forall>j\<ge>k. answers j = Got [] \<or> answers j = Rd_eintr \<or> answers j = Rd_again"
  shows "read_all answers k got len = None"
  using read_all_waits [of answers k got len] assms by (cases "read_all answers k got len") auto

theorem app_end_of_stream_hangs_witness: "read_all (\<lambda>_. Got []) 0 [] 4 = None"
  by (rule app_end_of_stream_hangs) simp_all

section \<open>Cutting the stream\<close>

lemma length_usb_frame_bytes: "length (usb_frame_bytes (c, fl, p)) = 12 + length p"
  by (simp add: usb_frame_bytes_def)

lemma usb_frame_bytes_encode: "usb_frame_bytes (c, fl, p) = encodeFrame [] c fl (Some p) (length p)"
  by (simp add: usb_frame_bytes_def encodeFrame_eq mubd_frame_def encodeHeader_def)

lemma rx_scan_short: "length buf < 12 \<Longrightarrow> rx_scan buf = ([], buf)"
  by (subst rx_scan.simps) simp

lemma rx_scan_junk: "12 \<le> length a \<Longrightarrow> getU32LE a \<noteq> FRAME_MAGIC \<Longrightarrow> rx_scan a = rx_scan (tl a)"
  by (subst rx_scan.simps) simp

lemma rx_scan_part:
  "12 \<le> length a \<Longrightarrow> getU32LE a = FRAME_MAGIC \<Longrightarrow> length a < 12 + unat (getU32LE (drop 8 a)) \<Longrightarrow> rx_scan a = ([], a)"
  by (subst rx_scan.simps) (simp add: Let_def)

lemma rx_scan_whole:
  "12 \<le> length a \<Longrightarrow> getU32LE a = FRAME_MAGIC \<Longrightarrow> plen = unat (getU32LE (drop 8 a)) \<Longrightarrow> 12 + plen \<le> length a \<Longrightarrow>
   rx_scan a = ((a ! 4, a ! 5, take plen (drop 12 a)) # fst (rx_scan (drop (12 + plen) a)), snd (rx_scan (drop (12 + plen) a)))"
  by (subst rx_scan.simps) (simp add: case_prod_beta Let_def)

lemma rx_scan_append:
  "rx_scan (a @ b) = (fst (rx_scan a) @ fst (rx_scan (snd (rx_scan a) @ b)), snd (rx_scan (snd (rx_scan a) @ b)))"
proof (induction "length a" arbitrary: a rule: less_induct)
  case less
  define plen where "plen = unat (getU32LE (drop 8 a))"
  consider (short) "length a < 12" | (junk) "12 \<le> length a" "getU32LE a \<noteq> FRAME_MAGIC"
    | (part) "12 \<le> length a" "getU32LE a = FRAME_MAGIC" "length a < 12 + plen"
    | (whole) "12 \<le> length a" "getU32LE a = FRAME_MAGIC" "12 + plen \<le> length a"
    by linarith
  then show ?case
  proof cases
    case short
    then show ?thesis by (simp add: rx_scan_short)
  next
    case junk
    have "a \<noteq> []" using junk(1) by auto
    then have "rx_scan (a @ b) = rx_scan (tl a @ b)"
      using rx_scan_junk [of "a @ b"] junk by (simp add: getU32LE_append)
    then show ?thesis
      using less [of "tl a"] rx_scan_junk [OF junk] \<open>a \<noteq> []\<close> by simp
  next
    case part
    then have "rx_scan a = ([], a)" using rx_scan_part [of a] by (simp add: plen_def)
    then show ?thesis by simp
  next
    case whole
    have g: "plen = unat (getU32LE (drop 8 (a @ b)))"
      using whole getU32LE_append [of "drop 8 a" b] by (simp add: plen_def)
    have "rx_scan (a @ b) = ((a ! 4, a ! 5, take plen (drop 12 a)) # fst (rx_scan (drop (12 + plen) a @ b)),
        snd (rx_scan (drop (12 + plen) a @ b)))"
      using rx_scan_whole [of "a @ b" plen] g whole by (simp add: getU32LE_append nth_append)
    moreover have "rx_scan a = ((a ! 4, a ! 5, take plen (drop 12 a)) # fst (rx_scan (drop (12 + plen) a)),
        snd (rx_scan (drop (12 + plen) a)))"
      using rx_scan_whole [of a plen] whole by (simp add: plen_def)
    moreover have "length (drop (12 + plen) a) < length a" using whole(1) by auto
    ultimately show ?thesis using less [of "drop (12 + plen) a"] by simp
  qed
qed

lemma rx_scan_frame:
  assumes "length p < 2 ^ 32"
  shows "rx_scan (usb_frame_bytes (c, fl, p) @ t) = ((c, fl, p) # fst (rx_scan t), snd (rx_scan t))"
proof -
  let ?f = "usb_frame_bytes (c, fl, p) @ t"
  have d: "drop (12 + length p) ?f = t" using length_usb_frame_bytes [of c fl p] by (metis append_eq_conv_conj)
  have h: "getU32LE ?f = FRAME_MAGIC" "getU32LE (drop 8 ?f) = of_nat (length p)" "?f ! 4 = c" "?f ! 5 = fl"
    "take (length p) (drop 12 ?f) = p" "12 + length p \<le> length ?f"
    by (simp_all add: usb_frame_bytes_def nth_append)
  show ?thesis
    using rx_scan_whole [of ?f "length p"] assms h unfolding d by (simp add: unat_of_nat_lt)
qed

lemma rx_scan_frames:
  "\<forall>f\<in>set fs. length (snd (snd f)) < 2 ^ 32 \<Longrightarrow>
   rx_scan (concat (map usb_frame_bytes fs) @ t) = (fs @ fst (rx_scan t), snd (rx_scan t))"
proof (induction fs)
  case (Cons f fs)
  obtain c fl p where "f = (c, fl, p)" by (metis surj_pair)
  then show ?case using Cons rx_scan_frame [of p c fl "concat (map usb_frame_bytes fs) @ t"] by simp
qed simp

text \<open>An unfinished frame waits.\<close>

lemma rx_scan_unfinished:
  assumes "length p < 2 ^ 32" "usb_frame_bytes (c, fl, p) = a @ b" "b \<noteq> []"
  shows "rx_scan a = ([], a)"
proof (cases "length a < 12")
  case False
  then have len: "12 \<le> length a" by simp
  have tot: "length a < 12 + length p"
    using assms(2,3) length_usb_frame_bytes [of c fl p] by (cases b) simp_all
  have "getU32LE a = getU32LE (a @ b)" "getU32LE (drop 8 a) = getU32LE (drop 8 (a @ b))"
    using len getU32LE_append [of a b] getU32LE_append [of "drop 8 a" b] by simp_all
  then have "getU32LE a = FRAME_MAGIC" "getU32LE (drop 8 a) = of_nat (length p)"
    unfolding assms(2) [symmetric] by (simp_all add: usb_frame_bytes_def)
  then show ?thesis using tot len assms(1) by (intro rx_scan_part) (simp_all add: unat_of_nat_lt)
qed (simp add: rx_scan_short)

lemma rx_scan_prefix:
  "\<forall>f\<in>set fs. length (snd (snd f)) \<le> m \<Longrightarrow> m < 2 ^ 32 \<Longrightarrow> prefix a (concat (map usb_frame_bytes fs)) \<Longrightarrow>
   (\<exists>j. fst (rx_scan a) = take j fs \<and> a = concat (map usb_frame_bytes (take j fs)) @ snd (rx_scan a) \<and>
      (j < length fs \<longrightarrow> length (snd (rx_scan a)) < length (usb_frame_bytes (fs ! j)))) \<and>
   length (snd (rx_scan a)) < 12 + m"
proof (induction fs arbitrary: a)
  case Nil
  then show ?case by (simp add: rx_scan_short)
next
  case (Cons f fs)
  obtain c fl p where f: "f = (c, fl, p)" by (metis surj_pair)
  have p: "length p \<le> m" "length p < 2 ^ 32" using Cons.prems f by simp_all
  let ?b = "usb_frame_bytes (c, fl, p)"
  consider (inside) x where "?b = a @ x" "x \<noteq> []" | (past) a' where "a = ?b @ a'" "prefix a' (concat (map usb_frame_bytes fs))"
  proof -
    obtain zs where "?b @ concat (map usb_frame_bytes fs) = a @ zs" using Cons.prems(3) f by (auto simp: prefix_def)
    then obtain us where us: "?b = a @ us \<and> us @ concat (map usb_frame_bytes fs) = zs \<or>
        ?b @ us = a \<and> concat (map usb_frame_bytes fs) = us @ zs"
      unfolding append_eq_append_conv2 by blast
    show thesis
    proof (cases "?b = a @ us \<and> us \<noteq> []")
      case True
      then show thesis using inside by blast
    next
      case False
      with us have "(a = ?b @ [] \<and> prefix [] (concat (map usb_frame_bytes fs))) \<or>
          (a = ?b @ us \<and> prefix us (concat (map usb_frame_bytes fs)))" by (auto simp: prefix_def)
      then show thesis using past by blast
    qed
  qed
  then show ?case
  proof cases
    case inside
    then have "rx_scan a = ([], a)" using rx_scan_unfinished [OF p(2)] by blast
    moreover have "length a < 12 + length p"
      using inside length_usb_frame_bytes [of c fl p] by (cases x) simp_all
    ultimately show ?thesis using p f length_usb_frame_bytes [of c fl p] by (auto intro: exI [of _ 0])
  next
    case past
    then have "rx_scan a = (f # fst (rx_scan a'), snd (rx_scan a'))"
      using rx_scan_frame [OF p(2)] f by simp
    moreover obtain j where "fst (rx_scan a') = take j fs" "length (snd (rx_scan a')) < 12 + m"
        "a' = concat (map usb_frame_bytes (take j fs)) @ snd (rx_scan a')"
        "j < length fs \<longrightarrow> length (snd (rx_scan a')) < length (usb_frame_bytes (fs ! j))"
      using Cons.IH [OF _ Cons.prems(2) past(2)] Cons.prems(1) by auto
    ultimately show ?thesis using f past(1) by (auto intro!: exI [of _ "Suc j"])
  qed
qed

section \<open>Messages in a receive ring\<close>

definition app_msg :: "bytes \<Rightarrow> bytes" where
  "app_msg p = putU32LE (of_nat (length p)) @ p"

text \<open>The socket and the ring hold whole messages: those delivered and those pending.\<close>

definition rx_ok :: "usbd_chan \<Rightarrow> bytes list \<Rightarrow> bool" where
  "rx_ok ch ps \<longleftrightarrow> br_inv (ch_rx ch) \<and>
     (\<exists>delivered pending. ch_sock ch = concat (map app_msg delivered) \<and>
        br_content (ch_rx ch) = concat (map app_msg pending) \<and> delivered @ pending = ps)"

lemma rx_ring_message_ok:
  assumes ok: "rx_ok ch ps" and room: "\<not> ch_overrun (rx_ring_message p ch)"
  shows "rx_ok (rx_ring_message p ch) (ps @ [p])" and "\<not> ch_overrun ch"
proof -
  let ?net = "putU32LE (of_nat (length p))"
  have inv: "br_inv (ch_rx ch)" using ok by (simp add: rx_ok_def)
  obtain n1 r1 where w1: "br_write ?net (ch_rx ch) = (n1, r1)" by fastforce
  obtain n2 r2 where w2: "br_write p r1 = (n2, r2)" by fastforce
  note s1 = br_write_spec [OF inv w1]
  note s2 = br_write_spec [OF s1 [THEN conjunct2, THEN conjunct1] w2]
  have full: "\<not> ch_overrun ch" "\<not> n1 < 4" "\<not> n2 < length p"
    using room by (simp_all add: rx_ring_message_def Let_def w1 w2)
  show "\<not> ch_overrun ch" by (rule full(1))
  have "br_content r1 = br_content (ch_rx ch) @ ?net" using s1 full(2) by (simp add: min_def split: if_splits)
  moreover have "br_content r2 = br_content r1 @ p" using s2 full(3) by (simp add: min_def split: if_splits)
  ultimately have c: "br_content r2 = br_content (ch_rx ch) @ app_msg p" by (simp add: app_msg_def)
  obtain delivered pending where dp: "ch_sock ch = concat (map app_msg delivered)"
      "br_content (ch_rx ch) = concat (map app_msg pending)" "delivered @ pending = ps"
    using ok by (auto simp: rx_ok_def)
  have "\<exists>delivered' pending'. ch_sock ch = concat (map app_msg delivered') \<and> br_content r2 = concat (map app_msg pending') \<and>
      delivered' @ pending' = ps @ [p]"
    using dp c by (intro exI [of _ delivered] exI [of _ "pending @ [p]"]) simp
  then show "rx_ok (rx_ring_message p ch) (ps @ [p])"
    using s2 by (simp add: rx_ok_def rx_ring_message_def Let_def w1 w2)
qed

lemma rx_messages_ok:
  "rx_ok ch ps \<Longrightarrow> \<not> ch_overrun (fold rx_ring_message qs ch) \<Longrightarrow>
   rx_ok (fold rx_ring_message qs ch) (ps @ qs) \<and> \<not> ch_overrun ch"
proof (induction qs arbitrary: ch ps)
  case (Cons q qs)
  have mono: "ch_overrun ch' \<Longrightarrow> ch_overrun (fold rx_ring_message qs ch')" for ch'
    by (induction qs arbitrary: ch') (simp_all add: rx_ring_message_def Let_def case_prod_beta)
  have "\<not> ch_overrun (rx_ring_message q ch)" using Cons.prems(2) mono by auto
  note r = rx_ring_message_ok [OF Cons.prems(1) this]
  show ?case using Cons.IH [OF r(1)] Cons.prems(2) r(2) by simp
qed simp

lemma rx_turn_ok:
  assumes ok: "rx_ok ch ps" and ps: "\<forall>p\<in>set ps. p \<noteq> [] \<and> length p \<le> MAX_FRAME_SIZE"
  shows "rx_ok (rx_turn_chan ch) ps"
proof (cases "ch_active ch \<and> br_content (ch_rx ch) \<noteq> []")
  case True
  obtain delivered pending where dp: "ch_sock ch = concat (map app_msg delivered)"
      "br_content (ch_rx ch) = concat (map app_msg pending)" "delivered @ pending = ps" and inv: "br_inv (ch_rx ch)"
    using ok by (auto simp: rx_ok_def)
  with True obtain p pending' where pend: "pending = p # pending'" by (cases pending) auto
  have p: "p \<noteq> []" "length p \<le> MAX_FRAME_SIZE" using ps dp(3) pend by auto
  have c: "br_content (ch_rx ch) = putU32LE (of_nat (length p)) @ p @ concat (map app_msg pending')"
    using dp(2) pend by (simp add: app_msg_def)
  obtain r1 where r1: "br_read_exact 4 (ch_rx ch) = Some (putU32LE (of_nat (length p)), r1)" and
      s1: "br_inv r1" "br_content r1 = p @ concat (map app_msg pending')"
    using br_read_short [of "ch_rx ch" 4] br_read_spec [OF inv, of 4] c
    by (cases "br_read_exact 4 (ch_rx ch)") (auto simp del: length_br_content)
  obtain r2 where r2: "br_read_exact (length p) r1 = Some (p, r2)" and
      s2: "br_inv r2" "br_content r2 = concat (map app_msg pending')"
    using br_read_short [of r1 "length p"] br_read_spec [OF s1(1), of "length p"] s1(2)
    by (cases "br_read_exact (length p) r1") (auto simp del: length_br_content)
  have "rx_turn_chan ch = ch\<lparr>ch_rx := r2, ch_sock := ch_sock ch @ app_msg p\<rparr>"
    using True p r1 r2 by (simp add: rx_turn_chan_def unat_of_nat_lt app_msg_def)
  moreover have "\<exists>delivered' pending''. ch_sock ch @ app_msg p = concat (map app_msg delivered') \<and>
      br_content r2 = concat (map app_msg pending'') \<and> delivered' @ pending'' = ps"
    using dp pend s2 by (intro exI [of _ "delivered @ [p]"] exI [of _ pending']) simp
  ultimately show ?thesis using s2(1) by (simp add: rx_ok_def)
next
  case False
  have "rx_turn_chan ch = ch"
  proof (cases "ch_active ch")
    case True
    then have "length (br_content (ch_rx ch)) < 4" using False by simp
    then have "br_read_exact 4 (ch_rx ch) = None" using br_read_short by blast
    then show ?thesis by (simp add: rx_turn_chan_def)
  qed (simp add: rx_turn_chan_def)
  then show ?thesis using ok by simp
qed

section \<open>The receive path of the daemon\<close>

definition usb_stream :: "usbd_event list \<Rightarrow> bytes" where
  "usb_stream evs = concat (map (\<lambda>e. case e of UsbBytes b \<Rightarrow> b | _ \<Rightarrow> []) evs)"

text \<open>The payloads a run of frames has for a channel.\<close>

definition payloads_for :: "u8 \<Rightarrow> usb_mux_frame list \<Rightarrow> bytes list" where
  "payloads_for c fs = map (\<lambda>(ch, fl, p). p) (filter (\<lambda>(ch, fl, p). ch = c \<and> fl = FLAG_DATA \<and> p \<noteq> []) fs)"

definition mux_frame_ok :: "usb_mux_frame \<Rightarrow> bool" where
  "mux_frame_ok f = (case f of (ch, fl, p) \<Rightarrow> ch < 32 \<and> fl \<noteq> FLAG_CLOSE \<and> length p \<le> USB_MAX_PAYLOAD)"

definition chan_of :: "u8 \<Rightarrow> usbd \<Rightarrow> usbd_chan" where "chan_of c d = ud_chans d ! unat c"

lemma chan_of_upd:
  "length (ud_chans d) = 32 \<Longrightarrow> c < 32 \<Longrightarrow> chan_of c (upd_chan c' f d) = (if c' = c then f (chan_of c d) else chan_of c d)"
  by (auto simp: chan_of_def upd_chan_def word_less_nat_alt nth_list_update word_unat_eq_iff)

lemma upd_chan_fields [simp]:
  "length (ud_chans (upd_chan c f d)) = length (ud_chans d)" "ud_reasm (upd_chan c f d) = ud_reasm d"
  "ud_outside (upd_chan c f d) = ud_outside d" "ud_ep2 (upd_chan c f d) = ud_ep2 d"
  by (simp_all add: upd_chan_def)

lemma send_frame_fields [simp]:
  "ud_chans (usb_send_frame c fl p d) = ud_chans d" "ud_reasm (usb_send_frame c fl p d) = ud_reasm d"
  "ud_outside (usb_send_frame c fl p d) = ud_outside d" "chan_of c' (usb_send_frame c fl p d) = chan_of c' d"
  by (simp_all add: usb_send_frame_def chan_of_def)

lemma rx_ring_message_active [simp]: "ch_active (rx_ring_message p ch) = ch_active ch"
  by (simp add: rx_ring_message_def Let_def case_prod_beta)

lemma fold_message_active [simp]: "ch_active (fold rx_ring_message ps ch) = ch_active ch"
  by (induction ps arbitrary: ch) simp_all

lemma dispatch_fields:
  "length (ud_chans d) = 32 \<Longrightarrow> mux_frame_ok f \<Longrightarrow>
   length (ud_chans (rx_dispatch f d)) = 32 \<and> ud_reasm (rx_dispatch f d) = ud_reasm d \<and>
   ud_outside (rx_dispatch f d) = ud_outside d"
  by (cases f) (simp add: rx_dispatch_def mux_frame_ok_def word_less_nat_alt Let_def)

lemma dispatch_chan:
  assumes "length (ud_chans d) = 32" "c < 32" "mux_frame_ok f" "ch_active (chan_of c d)"
  shows "chan_of c (rx_dispatch f d) = fold rx_ring_message (payloads_for c [f]) (chan_of c d)"
proof -
  obtain ch fl p where f: "f = (ch, fl, p)" by (metis surj_pair)
  have ok: "\<not> 32 \<le> unat ch" "fl \<noteq> FLAG_CLOSE" using assms(3) by (simp_all add: f mux_frame_ok_def word_less_nat_alt)
  show ?thesis
    using assms(1,2,4) ok chan_of_upd [OF assms(1,2), of ch "rx_ring_message p"]
    by (cases "ch = c") (auto simp: rx_dispatch_def f payloads_for_def Let_def chan_of_def)
qed

lemma dispatch_all:
  "length (ud_chans d) = 32 \<Longrightarrow> c < 32 \<Longrightarrow> \<forall>f\<in>set fs. mux_frame_ok f \<Longrightarrow> ch_active (chan_of c d) \<Longrightarrow>
   length (ud_chans (fold rx_dispatch fs d)) = 32 \<and> ud_outside (fold rx_dispatch fs d) = ud_outside d \<and>
   chan_of c (fold rx_dispatch fs d) = fold rx_ring_message (payloads_for c fs) (chan_of c d)"
proof (induction fs arbitrary: d)
  case (Cons f fs)
  have "payloads_for c (f # fs) = payloads_for c [f] @ payloads_for c fs" by (simp add: payloads_for_def)
  then show ?case
    using Cons dispatch_fields [of d f] dispatch_chan [of d c f] by simp
qed (simp add: payloads_for_def)

text \<open>The other events leave the receive side of a channel alone, or are a turn of its receive thread.\<close>

definition same_rx :: "usbd_chan \<Rightarrow> usbd_chan \<Rightarrow> bool" where
  "same_rx a b \<longleftrightarrow> ch_rx b = ch_rx a \<and> ch_sock b = ch_sock a \<and> ch_overrun b = ch_overrun a \<and> (ch_active b \<longrightarrow> ch_active a)"

lemma same_rx_ok: "same_rx a b \<Longrightarrow> rx_ok b ps = rx_ok a ps"
  by (simp add: same_rx_def rx_ok_def)

lemma usbd_step_bytes [simp]: "usbd_step (UsbBytes b) d = usb_rx b d"
  by (simp add: usbd_step_def)

text \<open>A dispatch never activates a channel and never clears an overrun.\<close>

lemma dispatch_mono:
  assumes "length (ud_chans d) = 32" "c < 32"
  shows "(ch_active (chan_of c (rx_dispatch f d)) \<longrightarrow> ch_active (chan_of c d)) \<and>
    (ch_overrun (chan_of c d) \<longrightarrow> ch_overrun (chan_of c (rx_dispatch f d))) \<and> length (ud_chans (rx_dispatch f d)) = 32"
proof -
  obtain ch fl p where f: "f = (ch, fl, p)" by (metis surj_pair)
  have o: "ch_overrun x \<Longrightarrow> ch_overrun (rx_ring_message p x)" for x
    by (simp add: rx_ring_message_def Let_def case_prod_beta)
  have out: "chan_of c (d\<lparr>ud_outside := True\<rparr>) = chan_of c d" by (simp add: chan_of_def)
  show ?thesis using assms o by (auto simp: rx_dispatch_def f Let_def chan_of_upd out)
qed

lemma usb_rx_mono:
  assumes "length (ud_chans d) = 32" "c < 32"
  shows "(ch_active (chan_of c (usb_rx b d)) \<longrightarrow> ch_active (chan_of c d)) \<and>
    (ch_overrun (chan_of c d) \<longrightarrow> ch_overrun (chan_of c (usb_rx b d)))"
proof -
  have "length (ud_chans d) = 32 \<Longrightarrow> (ch_active (chan_of c (fold rx_dispatch fs d)) \<longrightarrow> ch_active (chan_of c d)) \<and>
      (ch_overrun (chan_of c d) \<longrightarrow> ch_overrun (chan_of c (fold rx_dispatch fs d)))" for fs
  proof (induction fs arbitrary: d)
    case (Cons f fs)
    then show ?case using dispatch_mono [of d c f] assms(2) by auto
  qed simp
  then show ?thesis using assms(1) by (simp add: usb_rx_def Let_def case_prod_beta chan_of_def)
qed

lemma tx_turn_same_rx: "same_rx ch (snd (tx_turn_chan ok ch))"
  by (auto simp: same_rx_def tx_turn_chan_def split: tx_phase.splits prod.splits)

lemma app_turn_same_rx: "same_rx ch (app_turn_chan ch)"
  by (auto simp: same_rx_def app_turn_chan_def split: prod.splits)

lemma fold_send_fields [simp]:
  "ud_chans (fold (usb_send_frame c fl) ps d) = ud_chans d" "ud_reasm (fold (usb_send_frame c fl) ps d) = ud_reasm d"
  "ud_outside (fold (usb_send_frame c fl) ps d) = ud_outside d" "chan_of c' (fold (usb_send_frame c fl) ps d) = chan_of c' d"
  by (induction ps arbitrary: d) simp_all

lemma rx_turn_fields:
  "ch_overrun (rx_turn_chan ch) = ch_overrun ch" "ch_active (rx_turn_chan ch) = ch_active ch"
  by (simp_all add: rx_turn_chan_def Let_def split: option.splits)

lemma same_rx_refl [simp]: "same_rx ch ch"
  by (simp add: same_rx_def)

lemma other_event:
  assumes "length (ud_chans d) = 32" "c < 32" "\<forall>b. e \<noteq> UsbBytes b"
  shows "length (ud_chans (usbd_step e d)) = 32" and "ud_reasm (usbd_step e d) = ud_reasm d"
    and "ud_outside (usbd_step e d) = ud_outside d"
    and "same_rx (chan_of c d) (chan_of c (usbd_step e d)) \<or> chan_of c (usbd_step e d) = rx_turn_chan (chan_of c d)"
proof -
  have c: "\<not> 32 \<le> unat c" using assms(2) by (simp add: word_less_nat_alt)
  note upd = chan_of_upd [OF assms(1,2)]
  show "length (ud_chans (usbd_step e d)) = 32" "ud_reasm (usbd_step e d) = ud_reasm d"
    "ud_outside (usbd_step e d) = ud_outside d"
    using assms(1,3) by (auto simp: usbd_step_def channel_rx_turn_def app_message_def app_disconnect_def
        channel_tx_turn_def Let_def split: usbd_event.splits prod.splits)
  show "same_rx (chan_of c d) (chan_of c (usbd_step e d)) \<or> chan_of c (usbd_step e d) = rx_turn_chan (chan_of c d)"
  proof (cases e)
    case (RxTurn c')
    then show ?thesis using assms(1) by (simp add: usbd_step_def channel_rx_turn_def upd)
  next
    case (AppMessage c' data)
    then show ?thesis using assms(1)
      by (simp add: usbd_step_def app_message_def app_disconnect_def Let_def upd) (simp add: same_rx_def)
  next
    case (AppTurn c')
    then show ?thesis using assms(1) by (simp add: usbd_step_def upd app_turn_same_rx)
  next
    case (TxTurn c' ok)
    then show ?thesis
      using assms(1) tx_turn_same_rx [of "chan_of c d" ok]
      by (auto simp: usbd_step_def channel_tx_turn_def upd simp flip: chan_of_def split: prod.splits)
  qed (use assms(3) in simp)
qed

definition fresh_daemon :: "u8 \<Rightarrow> usbd \<Rightarrow> bool" where
  "fresh_daemon c d \<longleftrightarrow> length (ud_chans d) = 32 \<and> ud_reasm d = [] \<and> \<not> ud_outside d \<and> c < 32 \<and>
     (\<forall>ch\<in>set (ud_chans d). ch_cur ch = []) \<and> (\<forall>(ch, fl, p)\<in>set (ud_ep2 d). fl = FLAG_OPEN \<and> p = []) \<and>
     (\<exists>rxmem txmem. chan_of c d = chan_init rxmem txmem \<and> br_inv (br_init rxmem) \<and> br_inv (br_init txmem))"

definition host_frames :: "usb_mux_frame list \<Rightarrow> bytes" where
  "host_frames fs = concat (map (\<lambda>(ch, fl, p). encodeFrame [] ch fl (Some p) (length p)) fs)"

lemma host_frames_eq: "host_frames fs = concat (map usb_frame_bytes fs)"
  unfolding host_frames_def
  by (rule arg_cong [where f = concat], rule map_cong [OF refl]) (auto simp: usb_frame_bytes_encode)

lemma usbd_rx_invariant:
  assumes fresh: "fresh_daemon c d0" and ok: "\<forall>f\<in>set fs. mux_frame_ok f"
  shows "prefix (usb_stream evs) (host_frames fs) \<Longrightarrow> \<forall>b. UsbBytes b \<in> set evs \<longrightarrow> length b \<le> READ_CHUNK \<Longrightarrow>
    ch_active (chan_of c (fold usbd_step evs d0)) \<Longrightarrow> \<not> ch_overrun (chan_of c (fold usbd_step evs d0)) \<Longrightarrow>
    length (ud_chans (fold usbd_step evs d0)) = 32 \<and> \<not> ud_outside (fold usbd_step evs d0) \<and>
    ud_reasm (fold usbd_step evs d0) = snd (rx_scan (usb_stream evs)) \<and>
    rx_ok (chan_of c (fold usbd_step evs d0)) (payloads_for c (fst (rx_scan (usb_stream evs))))"
proof (induction evs rule: rev_induct)
  case Nil
  then show ?case
    using fresh by (auto simp: fresh_daemon_def usb_stream_def rx_scan_short payloads_for_def rx_ok_def chan_init_def
        intro!: exI [of _ "[]"])
next
  case (snoc e evs)
  let ?d = "fold usbd_step evs d0"
  have c: "c < 32" and len0: "length (ud_chans d0) = 32" using fresh by (simp_all add: fresh_daemon_def)
  have stream: "usb_stream (evs @ [e]) = usb_stream evs @ (case e of UsbBytes b \<Rightarrow> b | _ \<Rightarrow> [])"
    by (simp add: usb_stream_def)
  have pre: "prefix (usb_stream evs) (host_frames fs)" using snoc.prems(1) stream by (metis append_prefixD)
  have small: "\<forall>f\<in>set fs. length (snd (snd f)) \<le> USB_MAX_PAYLOAD"
    using ok by (auto simp: mux_frame_ok_def)
  have scan: "(\<exists>j. fst (rx_scan s) = take j fs) \<and> length (snd (rx_scan s)) < 12 + USB_MAX_PAYLOAD"
    if "prefix s (host_frames fs)" for s
    using that rx_scan_prefix [OF small, of s] unfolding host_frames_eq by auto
  have len: "length (ud_chans ?d) = 32"
  proof -
    have "length (ud_chans (usbd_step e d)) = length (ud_chans d)" for e d
    proof (cases e)
      case (UsbBytes b)
      have "length (ud_chans (fold rx_dispatch fs d)) = length (ud_chans d)" for fs d
        by (induction fs arbitrary: d) (auto simp: rx_dispatch_def Let_def split: prod.splits)
      then show ?thesis using UsbBytes by (simp add: usbd_step_def usb_rx_def Let_def case_prod_beta)
    qed (auto simp: usbd_step_def channel_rx_turn_def app_message_def app_disconnect_def channel_tx_turn_def Let_def
        split: prod.splits)
    then have "length (ud_chans (fold usbd_step evs d)) = length (ud_chans d)" for d
      by (induction evs arbitrary: d) simp_all
    then show ?thesis using len0 by simp
  qed
  show ?case
  proof (cases "\<exists>b. e = UsbBytes b")
    case False
    note other = other_event [OF len c, of e]
    have ne: "\<forall>b. e \<noteq> UsbBytes b" using False by blast
    have same_stream: "usb_stream (evs @ [e]) = usb_stream evs" using stream ne by (cases e) simp_all
    have act: "ch_active (chan_of c ?d)" "\<not> ch_overrun (chan_of c ?d)"
      using other(4) [OF ne] snoc.prems(3,4) by (auto simp: same_rx_def rx_turn_fields)
    have IH: "\<not> ud_outside ?d \<and> ud_reasm ?d = snd (rx_scan (usb_stream evs)) \<and>
        rx_ok (chan_of c ?d) (payloads_for c (fst (rx_scan (usb_stream evs))))"
      using snoc.IH [OF pre _ act] snoc.prems(2) by simp
    have ps: "\<forall>p\<in>set (payloads_for c (fst (rx_scan (usb_stream evs)))). p \<noteq> [] \<and> length p \<le> MAX_FRAME_SIZE"
      using scan [OF pre] small by (fastforce simp: payloads_for_def dest: in_set_takeD)
    have "rx_ok (chan_of c (usbd_step e ?d)) (payloads_for c (fst (rx_scan (usb_stream evs))))"
      using other(4) [OF ne]
    proof
      assume "same_rx (chan_of c ?d) (chan_of c (usbd_step e ?d))"
      then show ?thesis using IH same_rx_ok by blast
    next
      assume "chan_of c (usbd_step e ?d) = rx_turn_chan (chan_of c ?d)"
      then show ?thesis using IH rx_turn_ok [OF _ ps] by simp
    qed
    then show ?thesis using other(1,2,3) [OF ne] IH same_stream by simp
  next
    case True
    then obtain b where e: "e = UsbBytes b" by blast
    define fs1 where "fs1 = fst (rx_scan (snd (rx_scan (usb_stream evs)) @ b))"
    have st: "usb_stream (evs @ [e]) = usb_stream evs @ b" using stream e by simp
    have split: "rx_scan (usb_stream (evs @ [e]))
        = (fst (rx_scan (usb_stream evs)) @ fs1, snd (rx_scan (snd (rx_scan (usb_stream evs)) @ b)))"
      using rx_scan_append [of "usb_stream evs" b] st by (simp add: fs1_def)
    have good: "\<forall>f\<in>set fs1. mux_frame_ok f"
      using scan [OF snoc.prems(1)] ok split by (metis Un_iff fst_conv in_set_takeD set_append)
    have "length b \<le> READ_CHUNK" using snoc.prems(2) e by simp
    then have fit: "\<not> REASSEMBLY_MAX < length (snd (rx_scan (usb_stream evs))) + length b"
      using scan [OF pre] by simp
    have step: "usbd_step e d = (fold rx_dispatch fs1 d)\<lparr>ud_reasm := snd (rx_scan (snd (rx_scan (usb_stream evs)) @ b))\<rparr>"
      if "ud_reasm d = snd (rx_scan (usb_stream evs))" for d
      using that fit e by (simp add: usbd_step_def usb_rx_def fs1_def case_prod_beta Let_def)
    have act: "ch_active (chan_of c ?d)" "\<not> ch_overrun (chan_of c ?d)"
      using usb_rx_mono [OF len c, of b] snoc.prems(3,4) e by auto
    have IH: "\<not> ud_outside ?d \<and> ud_reasm ?d = snd (rx_scan (usb_stream evs)) \<and>
        rx_ok (chan_of c ?d) (payloads_for c (fst (rx_scan (usb_stream evs))))"
      using snoc.IH [OF pre _ act] snoc.prems(2) by simp
    note all = dispatch_all [OF len c good act(1)]
    have d': "usbd_step e ?d = (fold rx_dispatch fs1 ?d)\<lparr>ud_reasm := snd (rx_scan (usb_stream (evs @ [e])))\<rparr>"
      using step [of ?d] IH split by simp
    then have chan: "chan_of c (usbd_step e ?d) = fold rx_ring_message (payloads_for c fs1) (chan_of c ?d)"
      using all by (simp add: chan_of_def)
    then have "\<not> ch_overrun (fold rx_ring_message (payloads_for c fs1) (chan_of c ?d))" using snoc.prems(4) by simp
    then have "rx_ok (chan_of c (usbd_step e ?d))
        (payloads_for c (fst (rx_scan (usb_stream evs))) @ payloads_for c fs1)"
      unfolding chan using rx_messages_ok IH by blast
    then show ?thesis using all IH d' split by (simp add: payloads_for_def)
  qed
qed


lemma accepted_is_fresh:
  assumes "req < 32" "0 < length rxmem" "length rxmem dvd 2 ^ 32" "length rxmem < 2 ^ 32"
    and "0 < length txmem" "length txmem dvd 2 ^ 32" "length txmem < 2 ^ 32"
  shows "fst (ipc_accept req rxmem txmem usbd_start) = req \<and> fresh_daemon req (snd (ipc_accept req rxmem txmem usbd_start))"
proof -
  have r: "unat req < 32" "req \<noteq> 0xFF" using assms(1) by (auto simp: word_less_nat_alt)
  have "\<not> ch_active (ud_chans usbd_start ! unat req)" using r by (simp add: usbd_start_def chan_init_def)
  then have a: "ipc_accept req rxmem txmem usbd_start = (req, usb_send_frame req FLAG_OPEN []
      (usbd_start\<lparr>ud_chans := (ud_chans usbd_start)[unat req := chan_init rxmem txmem]\<rparr>))"
    using r by (simp add: ipc_accept_def Let_def)
  have "ch_cur ch = []" if "ch \<in> set ((ud_chans usbd_start)[unat req := chan_init rxmem txmem])" for ch
    using set_update_subset_insert [of "ud_chans usbd_start" "unat req" "chan_init rxmem txmem"] that
    by (auto simp: usbd_start_def chan_init_def)
  moreover have "chan_of req (usbd_start\<lparr>ud_chans := (ud_chans usbd_start)[unat req := chan_init rxmem txmem]\<rparr>)
      = chan_init rxmem txmem"
    using r by (simp add: chan_of_def usbd_start_def)
  moreover have "br_inv (br_init rxmem)" "br_inv (br_init txmem)" using assms(2-7) by (simp_all add: br_init_inv)
  ultimately show ?thesis
    unfolding a using assms(1) by (auto simp: fresh_daemon_def usb_send_frame_def usbd_start_def chan_of_def)
qed

definition small_daemon :: usbd where
  "small_daemon = snd (ipc_accept 3 (replicate 16 0) (replicate 16 0) usbd_start)"

lemma small_daemon_fresh: "fresh_daemon 3 small_daemon"
proof -
  have "length (replicate 16 (0 :: u8)) dvd 2 ^ 32" by (rule dvdI [of _ _ "2 ^ 28"]) simp
  then show ?thesis
    using accepted_is_fresh [of 3 "replicate 16 0" "replicate 16 0"] unfolding small_daemon_def by simp
qed

section \<open>The transmit path of the daemon\<close>

definition sent_for :: "u8 \<Rightarrow> usbd \<Rightarrow> bytes list" where
  "sent_for c d = map (\<lambda>(ch, fl, p). p) (filter (\<lambda>(ch, fl, p). ch = c \<and> fl = FLAG_DATA) (ud_ep2 d))"

text \<open>Every byte taken from the application is sent, in the transmit buffer, in the ring or still with the reader thread, in
  that order.\<close>

definition tx_ok :: "usbd_chan \<Rightarrow> bytes list \<Rightarrow> bool" where
  "tx_ok ch sent \<longleftrightarrow> br_inv (ch_tx ch) \<and> (ch_phase ch = TxWait \<longrightarrow> ch_cur ch = []) \<and>
     (\<not> ch_txfail ch \<longrightarrow> concat sent @ ch_cur ch @ br_content (ch_tx ch) @ ch_pending ch = ch_taken ch)"

lemma length_wrap_get_le: "length (wrap_get pos n buf) \<le> n"
  by (auto simp: wrap_get_def)

lemma tx_fill_length: "length (fst (tx_fill r)) \<le> USB_MAX_PAYLOAD"
proof -
  have "length out \<le> n" if "br_read_exact n r = Some (out, r')" for n out r'
    using that length_wrap_get_le [of _ n "br_buf r"] by (auto simp: br_read_exact_def Let_def split: if_splits)
  then show ?thesis
    by (fastforce simp: tx_fill_def Let_def split: option.splits)
qed

lemma tx_fill_ok:
  assumes "br_inv r"
  shows "br_inv (snd (tx_fill r)) \<and> br_content r = fst (tx_fill r) @ br_content (snd (tx_fill r))"
proof -
  define n where "n = (if unat (br_used r) < USB_MAX_PAYLOAD then unat (br_used r) else USB_MAX_PAYLOAD)"
  have "n \<le> length (br_content r)" by (simp add: n_def br_used_def)
  then obtain out r' where rd: "br_read_exact n r = Some (out, r')"
    using br_read_short [of r n] by (cases "br_read_exact n r") auto
  have "tx_fill r = (out, r')" using rd unfolding tx_fill_def Let_def n_def by simp
  then show ?thesis using br_read_spec [OF assms rd] by simp
qed

lemma tx_turn_ok:
  assumes ok: "tx_ok ch sent"
  shows "tx_ok (snd (tx_turn_chan okw ch)) (sent @ fst (tx_turn_chan okw ch))"
proof -
  have inv: "br_inv (ch_tx ch)" using ok by (simp add: tx_ok_def)
  obtain out r where f: "tx_fill (ch_tx ch) = (out, r)" by fastforce
  have fill: "br_inv r" "br_content (ch_tx ch) = out @ br_content r" using tx_fill_ok [OF inv] f by simp_all
  have empty: "br_content (ch_tx ch) = []" if "br_used (ch_tx ch) = 0"
    using that by (simp add: br_content_def br_used_def)
  show ?thesis
  proof (cases "ch_phase ch")
    case TxWait
    then show ?thesis
      using ok fill f empty by (cases "br_used (ch_tx ch) = 0") (auto simp: tx_ok_def tx_turn_chan_def)
  qed (use ok fill f inv empty in \<open>auto simp: tx_ok_def tx_turn_chan_def\<close>)
qed

definition same_tx :: "usbd_chan \<Rightarrow> usbd_chan \<Rightarrow> bool" where
  "same_tx a b \<longleftrightarrow> ch_tx b = ch_tx a \<and> ch_taken b = ch_taken a \<and> ch_pending b = ch_pending a \<and> ch_cur b = ch_cur a \<and>
     ch_phase b = ch_phase a \<and> ch_txfail b = ch_txfail a"

lemma same_tx_ok: "same_tx a b \<Longrightarrow> tx_ok b sent = tx_ok a sent"
  by (simp add: same_tx_def tx_ok_def)

lemma same_tx_simps [simp]:
  "same_tx ch ch" "same_tx ch (rx_turn_chan ch)" "same_tx ch (rx_ring_message p ch)" "same_tx ch (ch\<lparr>ch_active := a\<rparr>)"
  by (simp_all add: same_tx_def rx_turn_chan_def rx_ring_message_def Let_def case_prod_beta split: option.splits)

lemma app_turn_ok: "tx_ok ch sent \<Longrightarrow> tx_ok (app_turn_chan ch) sent"
proof -
  assume ok: "tx_ok ch sent"
  obtain n r where w: "br_write (ch_pending ch) (ch_tx ch) = (n, r)" by fastforce
  have "br_inv (ch_tx ch)" using ok by (simp add: tx_ok_def)
  from br_write_spec [OF this w] have "br_inv r" "br_content r = br_content (ch_tx ch) @ take n (ch_pending ch)" by simp_all
  then show ?thesis using ok w by (auto simp: app_turn_chan_def tx_ok_def)
qed

lemma sent_for_send [simp]:
  "sent_for c (usb_send_frame c' fl p d) = sent_for c d @ (if c' = c \<and> fl = FLAG_DATA then [p] else [])"
  by (simp add: sent_for_def usb_send_frame_def)

lemma sent_for_fold [simp]:
  "sent_for c (fold (usb_send_frame c' FLAG_DATA) ps d) = sent_for c d @ (if c' = c then ps else [])"
  by (induction ps arbitrary: d) simp_all

lemma sent_for_upd [simp]: "sent_for c (upd_chan c' f d) = sent_for c d"
  by (simp add: sent_for_def)

lemma dispatch_tx:
  assumes "length (ud_chans d) = 32" "c < 32"
  shows "same_tx (chan_of c d) (chan_of c (rx_dispatch f d)) \<and> sent_for c (rx_dispatch f d) = sent_for c d"
proof -
  obtain ch fl p where f: "f = (ch, fl, p)" by (metis surj_pair)
  have out: "chan_of c (d\<lparr>ud_outside := True\<rparr>) = chan_of c d" "sent_for c (d\<lparr>ud_outside := True\<rparr>) = sent_for c d"
    by (simp_all add: chan_of_def sent_for_def)
  show ?thesis using assms by (auto simp: rx_dispatch_def f Let_def chan_of_upd out)
qed

lemma same_tx_trans: "same_tx a b \<Longrightarrow> same_tx b c \<Longrightarrow> same_tx a c"
  by (simp add: same_tx_def)

lemma usb_rx_tx:
  assumes "length (ud_chans d) = 32" "c < 32"
  shows "same_tx (chan_of c d) (chan_of c (usb_rx b d)) \<and> sent_for c (usb_rx b d) = sent_for c d \<and>
    length (ud_chans (usb_rx b d)) = 32"
proof -
  have "length (ud_chans d) = 32 \<Longrightarrow> same_tx (chan_of c d) (chan_of c (fold rx_dispatch fs d)) \<and>
      sent_for c (fold rx_dispatch fs d) = sent_for c d \<and> length (ud_chans (fold rx_dispatch fs d)) = 32" for fs
  proof (induction fs arbitrary: d)
    case (Cons f fs)
    then show ?case
      using dispatch_tx [of d c f] dispatch_mono [of d c f] assms(2) same_tx_trans by simp blast
  qed simp
  then show ?thesis using assms(1) by (simp add: usb_rx_def Let_def case_prod_beta chan_of_def sent_for_def)
qed

lemma usbd_tx_step:
  assumes "length (ud_chans d) = 32" "c < 32" and ok: "tx_ok (chan_of c d) (sent_for c d)"
  shows "length (ud_chans (usbd_step e d)) = 32 \<and> tx_ok (chan_of c (usbd_step e d)) (sent_for c (usbd_step e d))"
proof (cases "\<exists>b. e = UsbBytes b")
  case True
  then obtain b where e: "e = UsbBytes b" by blast
  note rx = usb_rx_tx [OF assms(1,2), of b]
  have "tx_ok (chan_of c (usb_rx b d)) (sent_for c d)" using same_tx_ok rx ok by blast
  then show ?thesis using rx e by simp
next
  case False
  then have ne: "\<forall>b. e \<noteq> UsbBytes b" by blast
  note upd = chan_of_upd [OF assms(1,2)]
  have "tx_ok (chan_of c (usbd_step e d)) (sent_for c (usbd_step e d))"
  proof (cases e)
    case (RxTurn c')
    then show ?thesis
      using assms(1) ok same_tx_ok [of "chan_of c d" "rx_turn_chan (chan_of c d)"] same_tx_simps(2)
      by (simp add: usbd_step_def channel_rx_turn_def upd)
  next
    case (AppMessage c' data)
    then show ?thesis
      using assms(1) ok
      by (auto simp: usbd_step_def app_message_def app_disconnect_def Let_def upd tx_ok_def simp flip: chan_of_def)
  next
    case (AppTurn c')
    then show ?thesis using assms(1) ok app_turn_ok by (simp add: usbd_step_def upd)
  next
    case (TxTurn c' okw)
    then show ?thesis
      using assms(1) ok tx_turn_ok [OF ok, of okw]
      by (auto simp: usbd_step_def channel_tx_turn_def upd simp flip: chan_of_def split: prod.splits)
  qed (use ne in simp)
  then show ?thesis using other_event(1) [OF assms(1,2) ne] by simp
qed

text \<open>Every frame the daemon sends fits its transmit buffer.\<close>

definition ep2_fits :: "usbd \<Rightarrow> bool" where
  "ep2_fits d \<longleftrightarrow> (\<forall>ch\<in>set (ud_chans d). length (ch_cur ch) \<le> USB_MAX_PAYLOAD) \<and>
     (\<forall>(ch, fl, p)\<in>set (ud_ep2 d). length p \<le> USB_MAX_PAYLOAD)"

lemma ep2_fits_upd:
  assumes "ep2_fits d" "unat c < length (ud_chans d)" "length (ch_cur (f (chan_of c d))) \<le> USB_MAX_PAYLOAD"
  shows "ep2_fits (upd_chan c f d)"
  using assms set_update_subset_insert [of "ud_chans d" "unat c" "f (chan_of c d)"]
  by (auto simp: ep2_fits_def upd_chan_def chan_of_def)

lemma ep2_fits_send: "ep2_fits d \<Longrightarrow> length p \<le> USB_MAX_PAYLOAD \<Longrightarrow> ep2_fits (usb_send_frame c fl p d)"
  by (auto simp: ep2_fits_def usb_send_frame_def)

lemma ep2_fits_sends: "ep2_fits d \<Longrightarrow> \<forall>p\<in>set ps. length p \<le> USB_MAX_PAYLOAD \<Longrightarrow> ep2_fits (fold (usb_send_frame c fl) ps d)"
  by (induction ps arbitrary: d) (auto intro: ep2_fits_send)

lemma ep2_fits_cur: "ep2_fits d \<Longrightarrow> unat c < length (ud_chans d) \<Longrightarrow> length (ch_cur (chan_of c d)) \<le> USB_MAX_PAYLOAD"
  by (simp add: ep2_fits_def chan_of_def)

lemma usbd_fits_step:
  assumes fits: "ep2_fits d"
  shows "ep2_fits (usbd_step e d)"
proof (cases e)
  case (UsbBytes b)
  have disp: "ep2_fits (rx_dispatch f d)" if "ep2_fits d" for f d
  proof -
    obtain ch fl p where f: "f = (ch, fl, p)" by (metis surj_pair)
    have "ep2_fits (d\<lparr>ud_outside := True\<rparr>)" using that by (simp add: ep2_fits_def)
    moreover have "ch_cur (rx_ring_message p x) = ch_cur x" for x
      by (simp add: rx_ring_message_def Let_def case_prod_beta)
    ultimately show ?thesis
      using that ep2_fits_cur [OF that, of ch]
      by (auto simp: rx_dispatch_def f Let_def intro!: ep2_fits_upd ep2_fits_send)
  qed
  have "ep2_fits (fold rx_dispatch fs d)" for fs
    using fits by (induction fs arbitrary: d) (auto intro: disp)
  then show ?thesis using UsbBytes by (simp add: usb_rx_def Let_def case_prod_beta ep2_fits_def)
next
  case (RxTurn c)
  have "ch_cur (rx_turn_chan x) = ch_cur x" for x
    by (simp add: rx_turn_chan_def Let_def split: option.splits)
  then show ?thesis
    using RxTurn fits ep2_fits_cur [OF fits, of c] by (auto simp: usbd_step_def channel_rx_turn_def intro!: ep2_fits_upd)
next
  case (AppMessage c data)
  then show ?thesis
    using fits ep2_fits_cur [OF fits, of c]
    by (auto simp: usbd_step_def app_message_def app_disconnect_def Let_def intro!: ep2_fits_upd ep2_fits_send)
next
  case (AppTurn c)
  have "ch_cur (app_turn_chan x) = ch_cur x" for x
    by (simp add: app_turn_chan_def split: prod.splits)
  then show ?thesis
    using AppTurn fits ep2_fits_cur [OF fits, of c] by (auto simp: usbd_step_def intro!: ep2_fits_upd)
next
  case (TxTurn c ok)
  show ?thesis
  proof (cases "unat c < length (ud_chans d)")
    case True
    have cur: "length (ch_cur (chan_of c d)) \<le> USB_MAX_PAYLOAD" using fits True by (rule ep2_fits_cur)
    obtain sent ch where t: "tx_turn_chan ok (chan_of c d) = (sent, ch)" by fastforce
    have "(\<forall>p\<in>set sent. length p \<le> USB_MAX_PAYLOAD) \<and> length (ch_cur ch) \<le> USB_MAX_PAYLOAD"
      using t cur tx_fill_length [of "ch_tx (chan_of c d)"]
      by (auto simp: tx_turn_chan_def split: tx_phase.splits if_splits prod.splits)
    then show ?thesis
      using TxTurn True fits t
      by (auto simp: usbd_step_def channel_tx_turn_def simp flip: chan_of_def intro!: ep2_fits_sends ep2_fits_upd)
  qed (use TxTurn fits in \<open>simp add: usbd_step_def channel_tx_turn_def\<close>)
qed


section \<open>Faults\<close>

lemma dispatch_outside:
  "ud_outside (rx_dispatch f d) \<longleftrightarrow> ud_outside d \<or> length (ud_chans d) \<le> unat (fst f)"
  by (cases f) (simp add: rx_dispatch_def Let_def)

lemma dispatch_length [simp]: "length (ud_chans (rx_dispatch f d)) = length (ud_chans d)"
  by (cases f) (simp add: rx_dispatch_def Let_def)

text \<open>The daemon indexes its array of 32 channels with the channel byte of a received frame, whatever it is: a frame
  whose header names a channel above 31, which any host can send, reads and possibly writes behind the array, and
  nothing else does.\<close>

theorem usbd_channel_number_unchecked:
  fixes d :: usbd and chunk :: bytes
  defines "kept \<equiv> (if length (ud_reasm d) + length chunk > REASSEMBLY_MAX then [] else ud_reasm d)"
  shows "ud_outside (usb_rx chunk d) \<longleftrightarrow>
    ud_outside d \<or> (\<exists>f\<in>set (fst (rx_scan (kept @ chunk))). length (ud_chans d) \<le> unat (fst f))"
proof -
  have "ud_outside (fold rx_dispatch fs d) \<longleftrightarrow> ud_outside d \<or> (\<exists>f\<in>set fs. length (ud_chans d) \<le> unat (fst f))" for fs
    by (induction fs arbitrary: d) (auto simp: dispatch_outside)
  then show ?thesis by (simp add: usb_rx_def kept_def Let_def case_prod_beta)
qed

abbreviation (input) small_chan :: usbd_chan where "small_chan \<equiv> chan_init (replicate 16 0) (replicate 16 0)"

lemmas ring_eval = rx_ring_message_def br_write_def br_read_exact_def chan_init_def br_init_def wrap_put_def
  wrap_get_def memcpy_at_def Let_def putU32LE_def getU32LE_def app_msg_def br_used_def br_content_def

lemma sixteen_zeros: "replicate 16 (0 :: u8) = [0, 0, 0, 0, 0, 0, 0, 0, 0, 0, 0, 0, 0, 0, 0, 0]"
  by (simp add: numeral_eq_Suc)

lemma overrun_ring:
  "rx_ring_message [9, 9, 9, 9] (rx_ring_message [1, 2, 3, 4, 5, 6, 7, 8] small_chan) =
   small_chan\<lparr>ch_rx := \<lparr>br_buf = [8, 0, 0, 0, 1, 2, 3, 4, 5, 6, 7, 8, 4, 0, 0, 0], br_cap = 16, br_head = 16, br_tail = 0\<rparr>,
     ch_overrun := True\<rparr>"
  by (simp add: ring_eval sixteen_zeros)

text \<open>A message that does not fit the ring is stored cut off and the next length is read out of step: with a ring of 16 bytes,
  a second message while the first still waits makes the application receive a message nobody sent.\<close>

lemma ring_overrun_breaks_framing:
  "let ch = rx_turn_chan (rx_ring_message [9, 9, 9, 9] (rx_ring_message [1, 2, 3, 4, 5, 6, 7, 8] small_chan));
       ch = rx_turn_chan (rx_ring_message [7] ch)
   in ch_sock ch = app_msg [1, 2, 3, 4, 5, 6, 7, 8] @ app_msg [1, 0, 0, 0]"
  by (simp add: overrun_ring rx_turn_chan_def ring_eval sixteen_zeros)

section \<open>Witnesses\<close>

lemma small_daemon_chan: "length (ud_chans small_daemon) = 32" "chan_of 3 small_daemon = small_chan"
  by (simp_all add: small_daemon_def ipc_accept_def usbd_start_def chan_init_def chan_of_def usb_send_frame_def)

lemma small_receives:
  "ch_active (rx_turn_chan (rx_ring_message [7, 8] small_chan)) \<and>
   \<not> ch_overrun (rx_turn_chan (rx_ring_message [7, 8] small_chan))"
  by (simp add: rx_turn_chan_def ring_eval sixteen_zeros)


lemma small_sends:
  "app_turn_chan (small_chan\<lparr>ch_taken := [7, 8], ch_pending := [7, 8]\<rparr>) =
     small_chan\<lparr>ch_taken := [7, 8], ch_tx := \<lparr>br_buf = [7, 8, 0, 0, 0, 0, 0, 0, 0, 0, 0, 0, 0, 0, 0, 0], br_cap = 16, br_head = 2, br_tail = 0\<rparr>\<rparr>"
  by (simp add: app_turn_chan_def ring_eval sixteen_zeros)


end
