(* ===== verification/OtaLaws.thy ===== *)
theory OtaLaws
  imports Ota Md5Laws UsbdLaws
begin

text \<open>
  Updates over the USB daemon: packets come out of the message stream as they went in however it is cut, an honest
  upload installs exactly the archive sent, and whatever the host sends, only an archive with the announced digest is
  installed.
\<close>

section \<open>Packets over the message stream\<close>

text \<open>The socket holds whole messages of the daemon, and the bytes pulled and those in the messages are \<open>p\<close>.\<close>

definition os_holds :: "ota_stream \<Rightarrow> bytes \<Rightarrow> bool" where
  "os_holds s p \<longleftrightarrow> uc_connected (os_client s) \<and>
     (\<exists>msgs. uc_in (os_client s) = concat (map app_msg msgs) \<and> (\<forall>m\<in>set msgs. m \<noteq> [] \<and> length m \<le> PKT_BUF) \<and>
        p = drop (os_head s) (os_buf s) @ concat msgs)"

abbreviation os_out :: "ota_stream \<Rightarrow> bytes" where "os_out s \<equiv> uc_out (os_client s)"

lemma recv_msg:
  assumes "uc_connected c" "uc_in c = app_msg m @ r" "m \<noteq> []" "length m \<le> n" "n < 2 ^ 32"
  shows "client_recv n c = (Some m, c\<lparr>uc_in := r\<rparr>)"
proof -
  have "unat (of_nat (length m) :: u32) = length m" using assms(4,5) by (intro unat_of_nat_lt) simp
  moreover have "(of_nat (length m) :: u32) \<noteq> 0" using calculation assms(3) by auto
  ultimately show ?thesis
    using assms by (simp add: client_recv_def client_read_def app_msg_def Let_def)
qed

lemma fill_holds:
  "os_holds s p \<Longrightarrow> n \<le> length p \<Longrightarrow>
   \<exists>s'. stream_fill n s = (True, s') \<and> os_holds s' p \<and> n \<le> os_avail s' \<and> os_out s' = os_out s"
proof (induction n s rule: stream_fill.induct)
  case (1 n s)
  note step = stream_fill.simps [of n s]
  show ?case
  proof (cases "os_avail s < n")
    case True
    obtain msgs where m: "uc_connected (os_client s)" "uc_in (os_client s) = concat (map app_msg msgs)"
      "\<forall>m\<in>set msgs. m \<noteq> [] \<and> length m \<le> PKT_BUF" "p = drop (os_head s) (os_buf s) @ concat msgs"
      using 1(2) by (auto simp: os_holds_def)
    have "msgs \<noteq> []" using True m(4) 1(3) by (auto simp: os_avail_def)
    then obtain msg rest where ms: "msgs = msg # rest" by (cases msgs) auto
    let ?s' = "s\<lparr>os_client := (os_client s)\<lparr>uc_in := concat (map app_msg rest)\<rparr>, os_buf := drop (os_head s) (os_buf s) @ msg, os_head := 0\<rparr>"
    have "client_recv PKT_BUF (os_client s) = (Some msg, (os_client s)\<lparr>uc_in := concat (map app_msg rest)\<rparr>)"
      using m ms by (intro recv_msg) simp_all
    then have pull: "pull_one s = (True, ?s')" using m ms by (simp add: pull_one_def)
    have "os_holds ?s' p" using m ms by (auto simp: os_holds_def)
    from 1(1) [OF True pull [symmetric] refl this 1(3)] show ?thesis using True pull step by simp
  qed (use 1 step in auto)
qed

lemma read_holds:
  assumes "os_holds s p" "n \<le> length p"
  shows "\<exists>s'. stream_read_exact n s = (Some (take n p), s') \<and> os_holds s' (drop n p) \<and> os_out s' = os_out s"
proof -
  obtain s' where f: "stream_fill n s = (True, s')" "os_holds s' p" "n \<le> os_avail s'" "os_out s' = os_out s"
    using fill_holds [OF assms] by blast
  let ?r = "s'\<lparr>os_head := os_head s' + n\<rparr>"
  obtain msgs where m: "uc_connected (os_client s')" "uc_in (os_client s') = concat (map app_msg msgs)"
    "\<forall>m\<in>set msgs. m \<noteq> [] \<and> length m \<le> PKT_BUF" "p = drop (os_head s') (os_buf s') @ concat msgs"
    using f(2) by (auto simp: os_holds_def)
  have "take n (drop (os_head s') (os_buf s')) = take n p" "drop n p = drop (os_head ?r) (os_buf ?r) @ concat msgs"
    using f(3) m(4) by (simp_all add: os_avail_def add.commute)
  moreover have "os_holds ?r (drop n p)" unfolding os_holds_def using m calculation(2) by auto
  ultimately show ?thesis using f by (intro exI [of _ ?r]) (simp add: stream_read_exact_def)
qed

definition packet :: "u8 \<Rightarrow> bytes \<Rightarrow> bytes" where
  "packet ty payload = [OTA_MAGIC, ty] @ putU32LE (of_nat (length payload)) @ payload @ [xor_checksum payload]"

lemma encode_packet_eq: "length payload + 7 \<le> n \<Longrightarrow> encode_packet n ty payload = Some (packet ty payload)"
  by (simp add: encode_packet_def packet_def)

lemma recv_packet_holds:
  assumes "os_holds s (packet ty payload @ rest)" "length payload \<le> length rx" "length rx < 2 ^ 32"
  shows "\<exists>s'. recv_packet s rx = (Some (ty, length payload), s', memcpy_at 0 payload rx) \<and> os_holds s' rest \<and> os_out s' = os_out s"
proof -
  let ?p = "packet ty payload @ rest"
  obtain s1 where h: "stream_read_exact 6 s = (Some (take 6 ?p), s1)" "os_holds s1 (drop 6 ?p)" "os_out s1 = os_out s"
    using read_holds [OF assms(1), of 6] by (auto simp: packet_def)
  have t6: "take 6 ?p = [OTA_MAGIC, ty] @ putU32LE (of_nat (length payload))" "drop 6 ?p = payload @ [xor_checksum payload] @ rest"
    by (simp_all add: packet_def)
  obtain s2 where b: "(if length payload = 0 then (Some [], s1) else stream_read_exact (length payload) s1) = (Some payload, s2)"
    "os_holds s2 ([xor_checksum payload] @ rest)" "os_out s2 = os_out s"
    using read_holds [OF h(2) [unfolded t6], of "length payload"] h t6 by (cases "payload = []") auto
  obtain s3 where c: "stream_read_exact 1 s2 = (Some [xor_checksum payload], s3)" "os_holds s3 rest" "os_out s3 = os_out s"
    using read_holds [OF b(2), of 1] b(3) by auto
  have u: "unat (of_nat (length payload) :: u32) = length payload" using assms(2,3) by (intro unat_of_nat_lt) simp
  have "take (length payload) (memcpy_at 0 payload rx) = payload" by (simp add: memcpy_at_def)
  then show ?thesis
    using h(1) b(1) c u assms(2) unfolding t6 by (simp add: recv_packet_def Let_def)
qed


lemma ack_holds:
  assumes "os_holds s p"
  shows "\<exists>s'. send_ack part s = (True, s') \<and> os_holds s' p \<and>
    os_out s' = os_out s @ app_msg (packet OTA_ACK (putU32LE part))"
proof -
  have "encode_packet PKT_BUF OTA_ACK (putU32LE part) = Some (packet OTA_ACK (putU32LE part))"
    by (rule encode_packet_eq) simp
  then show ?thesis
    using assms by (auto simp: send_ack_def stream_send_def client_send_def app_msg_def os_holds_def)
qed

section \<open>An honest upload\<close>

definition begin_payload :: "u32 \<Rightarrow> u64 \<Rightarrow> bytes \<Rightarrow> bytes \<Rightarrow> bytes" where
  "begin_payload parts nbytes digest version = putU32LE parts @ putU64LE nbytes @ digest @ version"

definition chunk_payload :: "u32 \<Rightarrow> bytes \<Rightarrow> bytes" where
  "chunk_payload k d = putU32LE k @ putU32LE (of_nat (length d)) @ md5 d @ d"

definition chunk_packets :: "(u32 \<times> bytes) list \<Rightarrow> bytes" where
  "chunk_packets parts = concat (map (\<lambda>(k, d). packet OTA_CHUNK (chunk_payload k d)) parts)"

definition upload :: "u64 \<Rightarrow> bytes \<Rightarrow> (u32 \<times> bytes) list \<Rightarrow> bytes" where
  "upload nbytes version parts =
     packet OTA_BEGIN (begin_payload (of_nat (length parts)) nbytes (md5 (concat (map snd parts))) version)
     @ chunk_packets parts @ packet OTA_END []"

definition ack_msgs :: "u32 list \<Rightarrow> bytes" where
  "ack_msgs ks = concat (map (\<lambda>k. app_msg (packet OTA_ACK (putU32LE k))) ks)"

lemma length_md5 [simp]: "length (md5 m) = 16"
  by (simp add: md5_def md5_words_bytes_def split: prod.split)

lemma md5_of_buf_stack [simp]: "md5_of_buf stack64 d = md5 d" "md5_of_file stack64 (Some d) = Some (md5 d)"
  using md5_stream.pieces_digest [of "[d]" stack64] file_pieces [of d "md5_init stack64"] md5_stream.pieces_digest [of _ stack64]
  by (auto simp: md5_mem_id md5_of_buf_def md5_of_file_def)

text \<open>What a session needs of its stream and buffer.\<close>

definition se_holds :: "ota_session \<Rightarrow> bytes \<Rightarrow> bool" where
  "se_holds se p \<longleftrightarrow> os_holds (se_stream se) p \<and> length (se_rx se) = PKT_BUF"

abbreviation se_out :: "ota_session \<Rightarrow> bytes" where "se_out se \<equiv> os_out (se_stream se)"

lemma se_recv_holds:
  assumes "se_holds se (packet ty payload @ rest)" "length payload \<le> PKT_BUF"
  shows "\<exists>se'. se_recv se = (Some (ty, length payload), se') \<and> se_holds se' rest \<and> se_out se' = se_out se \<and>
    se_rx se' = payload @ drop (length payload) (se_rx se) \<and> se_zip se' = se_zip se"
proof -
  have "os_holds (se_stream se) (packet ty payload @ rest)" "length (se_rx se) = PKT_BUF" using assms(1) by (simp_all add: se_holds_def)
  from recv_packet_holds [OF this(1), of "se_rx se"] this(2) assms(2) obtain s' where
    "recv_packet (se_stream se) (se_rx se) = (Some (ty, length payload), s', memcpy_at 0 payload (se_rx se))"
    "os_holds s' rest" "os_out s' = os_out (se_stream se)"
    by auto
  then show ?thesis
    using assms(2) \<open>length (se_rx se) = PKT_BUF\<close>
    by (intro exI [of _ "se\<lparr>se_stream := s', se_rx := memcpy_at 0 payload (se_rx se)\<rparr>"])
      (simp add: se_recv_def se_holds_def memcpy_at_def)
qed

lemma se_ack_holds:
  assumes "se_holds se p"
  shows "\<exists>se'. se_ack part se = (True, se') \<and> se_holds se' p \<and> se_out se' = se_out se @ ack_msgs [part] \<and>
    se_rx se' = se_rx se \<and> se_zip se' = se_zip se"
proof -
  obtain s' where "send_ack part (se_stream se) = (True, s')" "os_holds s' p"
    "os_out s' = os_out (se_stream se) @ app_msg (packet OTA_ACK (putU32LE part))"
    using ack_holds [of "se_stream se" p part] assms by (auto simp: se_holds_def)
  then show ?thesis
    using assms by (intro exI [of _ "se\<lparr>se_stream := s'\<rparr>"]) (simp add: se_ack_def se_holds_def ack_msgs_def)
qed

lemma chunk_holds:
  assumes "se_holds se p" "se_rx se = chunk_payload k d @ r" "length d \<le> 1048576"
  shows "\<exists>se'. ota_chunk se = (Chunk_stored, se') \<and> se_holds se' p \<and> se_out se' = se_out se @ ack_msgs [k] \<and>
    se_zip se' = map_option (\<lambda>z. z @ d) (se_zip se)"
proof -
  let ?se = "se\<lparr>se_zip := map_option (\<lambda>z. z @ d) (se_zip se)\<rparr>"
  have u: "unat (of_nat (length d) :: u32) = length d" using assms(3) by (intro unat_of_nat_lt) simp
  have len: "24 + length d \<le> PKT_BUF" using assms(3) by simp
  have rx: "getU32LE (se_rx se) = k" "getU32LE (drop 4 (se_rx se)) = of_nat (length d)" "take 16 (drop 8 (se_rx se)) = md5 d"
    "take (length d) (drop 24 (se_rx se)) = d" "length (se_rx se) = PKT_BUF"
    using assms(1) by (simp_all add: assms(2) chunk_payload_def se_holds_def)
  have "se_holds ?se p" using assms(1) by (simp add: se_holds_def)
  from se_ack_holds [OF this, of k] obtain se' where
    "se_ack k ?se = (True, se')" "se_holds se' p" "se_out se' = se_out se @ ack_msgs [k]" "se_zip se' = map_option (\<lambda>z. z @ d) (se_zip se)"
    by auto
  then show ?thesis using rx u len by (simp add: ota_chunk_def Let_def)
qed

lemma se_holds_connected: "se_holds se p \<Longrightarrow> uc_connected (os_client (se_stream se))"
  by (simp add: se_holds_def os_holds_def)

lemma chunks_hold:
  assumes "se_holds se (chunk_packets parts @ packet OTA_END [] @ rest)" "\<forall>(k, d)\<in>set parts. length d \<le> 1048576"
    and "se_zip se = Some z"
  shows "\<exists>se'. ota_chunks received se = (Loop_left, received + of_nat (length parts), se') \<and> se_holds se' rest \<and>
    se_out se' = se_out se @ ack_msgs (map fst parts) \<and> se_zip se' = Some (z @ concat (map snd parts))"
  using assms
proof (induction parts arbitrary: received se z)
  case Nil
  from se_recv_holds [of se OTA_END "[]" rest] Nil obtain se' where
    "se_recv se = (Some (OTA_END, 0), se')" "se_holds se' rest" "se_out se' = se_out se" "se_zip se' = se_zip se"
    by (auto simp: chunk_packets_def)
  then show ?case
    using Nil se_holds_connected [OF Nil(1)] by (simp add: ota_chunks.simps [of received se] ack_msgs_def)
next
  case (Cons kd parts)
  obtain k d where kd: "kd = (k, d)" by (metis surj_pair)
  let ?more = "chunk_packets parts @ packet OTA_END [] @ rest"
  have d: "length d \<le> 1048576" using Cons.prems(2) by (simp add: kd)
  have "se_holds se (packet OTA_CHUNK (chunk_payload k d) @ ?more)" using Cons.prems(1) by (simp add: kd chunk_packets_def)
  from se_recv_holds [OF this] d obtain se1 where
    r: "se_recv se = (Some (OTA_CHUNK, length (chunk_payload k d)), se1)" "se_holds se1 ?more" "se_out se1 = se_out se"
    "se_rx se1 = chunk_payload k d @ drop (length (chunk_payload k d)) (se_rx se)" "se_zip se1 = se_zip se"
    by (auto simp: chunk_payload_def)
  obtain se2 where c: "ota_chunk se1 = (Chunk_stored, se2)" "se_holds se2 ?more" "se_out se2 = se_out se1 @ ack_msgs [k]"
    "se_zip se2 = Some (z @ d)"
    using chunk_holds [OF r(2,4) d] r(5) Cons.prems(3) by auto
  obtain se' where "ota_chunks (received + 1) se2 = (Loop_left, received + 1 + of_nat (length parts), se')" "se_holds se' rest"
    "se_out se' = se_out se2 @ ack_msgs (map fst parts)" "se_zip se' = Some ((z @ d) @ concat (map snd parts))"
    using Cons.IH [OF c(2) _ c(4)] Cons.prems(2) by auto
  then show ?case
    using r c se_holds_connected [OF Cons.prems(1)]
    by (simp add: ota_chunks.simps [of received se] kd ack_msgs_def add.assoc)
qed

text \<open>C5: An honest upload is installed: BEGIN, the parts and END, encoded as the protocol documents them and cut by the USB
  daemon into messages in any way, make the session acknowledge the start, every part by its number and the whole,
  and install exactly the concatenation of the parts.\<close>

theorem ota_upload_installs:
  assumes socket: "uc_connected c" "uc_in c = concat (map app_msg msgs)" "\<forall>m\<in>set msgs. m \<noteq> [] \<and> length m \<le> PKT_BUF"
    and sent: "concat msgs = upload nbytes version parts @ rest"
    and parts: "parts \<noteq> []" "length parts < 2 ^ 32" "\<forall>(k, d)\<in>set parts. length d \<le> 1048576"
    and header: "nbytes \<noteq> 0" "version \<noteq> []" "length version \<le> 33" and env: "env_mkdir env" "env_fopen env"
  defines "archive \<equiv> concat (map snd parts)"
  shows "fst (run_ota_session env (ota_start c)) = (if env_apply env archive then Ota_rebooted archive else Ota_apply_failed archive) \<and>
    se_out (snd (run_ota_session env (ota_start c))) = uc_out c @ ack_msgs (0 # map fst parts @ [0xFFFFFFFF])"
proof -
  let ?b = "begin_payload (of_nat (length parts)) nbytes (md5 archive) version"
  let ?more = "chunk_packets parts @ packet OTA_END [] @ rest"
  have "se_holds (ota_start c) (packet OTA_BEGIN ?b @ ?more)"
    unfolding se_holds_def os_holds_def using socket sent
    by (intro conjI exI [of _ msgs]) (simp_all add: ota_start_def upload_def archive_def)
  from se_recv_holds [OF this] header(3) obtain se1 where
    r: "se_recv (ota_start c) = (Some (OTA_BEGIN, length ?b), se1)" "se_holds se1 ?more" "se_out se1 = uc_out c"
    "se_rx se1 = ?b @ drop (length ?b) (se_rx (ota_start c))"
    by (auto simp: begin_payload_def ota_start_def)
  have b: "29 \<le> length ?b" "getU32LE (se_rx se1) = of_nat (length parts)" "getU64LE (drop 4 (se_rx se1)) = nbytes"
    "take 16 (drop 12 (se_rx se1)) = md5 archive"
    using header(2) by (simp_all add: r(4) begin_payload_def Suc_le_eq)
  have n: "(of_nat (length parts) :: u32) \<noteq> 0"
  proof
    assume "(of_nat (length parts) :: u32) = 0"
    then have "unat (of_nat (length parts) :: u32) = 0" by simp
    moreover have "unat (of_nat (length parts) :: u32) = length parts" using parts(2) by (intro unat_of_nat_lt) simp
    ultimately show False using parts(1) by simp
  qed
  have "se_holds (cleanup_staging se1) ?more" using r(2) by (simp add: cleanup_staging_def se_holds_def)
  from se_ack_holds [OF this, of 0] obtain se2 where
    a: "se_ack 0 (cleanup_staging se1) = (True, se2)" "se_holds se2 ?more" "se_out se2 = uc_out c @ ack_msgs [0]"
    using r(3) by (auto simp: cleanup_staging_def)
  have "se_holds (se2\<lparr>se_zip := Some []\<rparr>) ?more" using a(2) by (simp add: se_holds_def)
  from chunks_hold [OF this parts(3), of "[]" 0] obtain se3 where
    l: "ota_chunks 0 (se2\<lparr>se_zip := Some []\<rparr>) = (Loop_left, of_nat (length parts), se3)" "se_holds se3 rest"
    "se_out se3 = se_out se2 @ ack_msgs (map fst parts)" "se_zip se3 = Some archive"
    by (auto simp: archive_def)
  obtain se4 where f: "se_ack 0xFFFFFFFF se3 = (True, se4)" "se_out se4 = se_out se3 @ ack_msgs [0xFFFFFFFF]" "se_zip se4 = Some archive"
    using se_ack_holds [OF l(2), of "0xFFFFFFFF"] l(4) by auto
  have fin: "ota_finish env (of_nat (length parts)) (md5 archive) (of_nat (length parts)) se3
      = (if env_apply env archive then Ota_rebooted archive else Ota_apply_failed archive, cleanup_staging se4)"
    using f l(4) by (simp add: ota_finish_def Let_def)
  have "run_ota_session env (ota_start c) = (if env_apply env archive then Ota_rebooted archive else Ota_apply_failed archive, cleanup_staging se4)"
    using r(1) b n header(1) env a(1) l(1) fin by (simp add: run_ota_session_def Let_def)
  then show ?thesis using f l(3) a(3) by (simp add: cleanup_staging_def ack_msgs_def)
qed


section \<open>Whatever the host sends\<close>

lemma se_recv_zip: "se_recv se = (r, se') \<Longrightarrow> se_zip se' = se_zip se"
  by (auto simp: se_recv_def split: prod.splits)

lemma se_ack_fields: "se_zip (snd (se_ack k se)) = se_zip se" "se_rx (snd (se_ack k se)) = se_rx se"
  by (simp_all add: se_ack_def case_prod_beta)

lemma chunk_stored_zip: "ota_chunk se = (Chunk_stored, se') \<Longrightarrow> \<exists>d. se_zip se' = map_option (\<lambda>z. z @ d) (se_zip se)"
  by (auto simp: ota_chunk_def Let_def se_ack_fields split: if_splits)

text \<open>Whatever packets come, the archive staged when the loop is left is the pieces counted, in the order they came.\<close>

lemma chunks_staged:
  "ota_chunks received se = (Loop_left, received', se') \<Longrightarrow> se_zip se = Some z \<Longrightarrow>
   \<exists>pieces. se_zip se' = Some (z @ concat pieces) \<and> received' = received + of_nat (length pieces)"
proof (induction received se arbitrary: z rule: ota_chunks.induct)
  case (1 received se)
  note step = ota_chunks.simps [of received se]
  have leave: ?case if "se_zip se' = Some z" "received' = received"
    using that by (intro exI [of _ "[]"]) simp
  show ?case
  proof (cases "uc_connected (os_client (se_stream se))")
    case False
    then show ?thesis using 1 step leave by simp
  next
    case conn: True
    obtain o1 se1 where r: "se_recv se = (o1, se1)" by (metis surj_pair)
    have z1: "se_zip se1 = Some z" using se_recv_zip [OF r] 1(4) by simp
    show ?thesis
    proof (cases o1)
      case None
      then show ?thesis using 1(3) conn r step leave z1 by simp
    next
      case (Some q)
      obtain ty len where q: "q = (ty, len)" by (metis surj_pair)
      consider "ty = OTA_ABORT" | "ty = OTA_END" | "ty \<noteq> OTA_ABORT" "ty \<noteq> OTA_END" "ty \<noteq> OTA_CHUNK" | "ty = OTA_CHUNK" by blast
      then show ?thesis
      proof cases
        case 1
        then show ?thesis using "1.prems" conn r Some q step by simp
      next
        case 2
        then show ?thesis using "1.prems" conn r Some q step leave z1 by simp
      next
        case 3
        then have "ota_chunks received se1 = (Loop_left, received', se')" using "1.prems" conn r Some q step by simp
        then show ?thesis using "1.IH"(1) [OF _ r [symmetric] Some q [symmetric]] 3 conn z1 by blast
      next
        case 4
        obtain e se2 where c: "ota_chunk se1 = (e, se2)" by (metis surj_pair)
        have e: "e = Chunk_stored" "ota_chunks (received + 1) se2 = (Loop_left, received', se')"
          using "1.prems" conn r Some q step 4 c by (simp_all split: chunk_end.splits)
        obtain d where z2: "se_zip se2 = Some (z @ d)" using chunk_stored_zip [of se1 se2] c e(1) z1 by auto
        have "\<exists>pieces. se_zip se' = Some ((z @ d) @ concat pieces) \<and> received' = (received + 1) + of_nat (length pieces)"
          using "1.IH"(2) [OF _ r [symmetric] Some q [symmetric] _ _ _ c [symmetric] e(1) e(2) z2] conn 4 by simp
        then obtain pieces where "se_zip se' = Some ((z @ d) @ concat pieces)" "received' = (received + 1) + of_nat (length pieces)"
          by blast
        then show ?thesis by (intro exI [of _ "d # pieces"]) simp
      qed
    qed
  qed
qed


text \<open>A part's size is taken from the packet without a look at the payload's length: one that points behind the receive buffer
  is read from there.\<close>

lemma ota_part_size_unchecked:
  assumes "se_holds se (packet OTA_CHUNK (putU32LE k @ putU32LE part_size @ digest @ d) @ rest)" "length digest = 16"
    and "length d \<le> 1048576" "PKT_BUF < 24 + unat part_size"
  shows "fst (ota_chunks received se) = Loop_outside"
proof -
  let ?p = "putU32LE k @ putU32LE part_size @ digest @ d"
  from se_recv_holds [OF assms(1)] assms(2,3) obtain se1 where
    r: "se_recv se = (Some (OTA_CHUNK, length ?p), se1)" "se_holds se1 rest" "se_rx se1 = ?p @ drop (length ?p) (se_rx se)"
    by auto
  have "getU32LE (drop 4 (se_rx se1)) = part_size" "length (se_rx se1) = PKT_BUF"
    using r(2) by (simp_all add: r(3) se_holds_def)
  then have "ota_chunk se1 = (Chunk_outside, se1)" using assms(4) by (simp add: ota_chunk_def Let_def)
  then show ?thesis using r(1) se_holds_connected [OF assms(1)] by (simp add: ota_chunks.simps [of received se])
qed

text \<open>An upload that ends with too few parts is dropped without an answer.\<close>

lemma ota_count_mismatch_silent:
  "received \<noteq> parts \<Longrightarrow> fst (ota_finish env parts digest received se) = Ota_returned \<and>
   se_out (snd (ota_finish env parts digest received se)) = se_out se"
  by (simp add: ota_finish_def cleanup_staging_def)

section \<open>Witnesses\<close>

definition small_env :: ota_env where "small_env = \<lparr>env_mkdir = True, env_fopen = True, env_apply = (\<lambda>z. True)\<rparr>"

definition small_upload :: bytes where "small_upload = upload 3 [0x31, 0] [(0, [1, 2]), (1, [3])]"

definition small_client :: usbd_client where
  "small_client = \<lparr>uc_connected = True, uc_in = app_msg small_upload, uc_out = []\<rparr>"

lemma small_upload_length: "small_upload \<noteq> []" "length small_upload \<le> PKT_BUF"
  by (simp_all add: small_upload_def upload_def packet_def begin_payload_def chunk_packets_def chunk_payload_def)

theorem ota_upload_installs_witness:
  "fst (run_ota_session small_env (ota_start small_client)) = Ota_rebooted [1, 2, 3]"
  using ota_upload_installs [of small_client "[small_upload]" 3 "[0x31, 0]" "[(0, [1, 2]), (1, [3])]" "[]" small_env]
    small_upload_length
  by (simp add: small_client_def small_env_def flip: small_upload_def)


end
