(* ===== verification/Touch.thy ===== *)
theory Touch
  imports DrLink
begin

text \<open>
  The touch controller's driver (libs/hwinterface/gt911.cpp): what the controller reports is decoded, contacts are
  tracked by their number, and press, release, move and hold events are reported, with a suppressed press when a
  contact comes back soon after its release. A pass of the polling thread is given the time in nanoseconds and,
  when the controller has signalled, the answers of its registers. The events are the list the callbacks would get.
  The handlers of gestures are called in the thread and not modelled.
\<close>

section \<open>Ordered maps\<close>

text \<open>\<^verbatim>\<open>std::map\<close>, as the list of its entries in key order.\<close>

fun map_put :: "'k::linorder \<Rightarrow> 'v \<Rightarrow> ('k \<times> 'v) list \<Rightarrow> ('k \<times> 'v) list" where
  "map_put k v [] = [(k, v)]"
| "map_put k v ((k', v') # m) =
     (if k < k' then (k, v) # (k', v') # m else if k = k' then (k, v) # m else (k', v') # map_put k v m)"

definition map_erase :: "'k \<Rightarrow> ('k \<times> 'v) list \<Rightarrow> ('k \<times> 'v) list" where
  "map_erase k m = filter (\<lambda>(k', v). k' \<noteq> k) m"

section \<open>Reports of the controller\<close>

record gt_point =
  gt_trackId :: u8
  gt_x :: u16
  gt_y :: u16
  gt_area :: u16

definition gt_point_of :: "bytes \<Rightarrow> gt_point" where
  "gt_point_of b = \<lparr>gt_trackId = b ! 0, gt_x = getU16LE (drop 1 b), gt_y = getU16LE (drop 3 b), gt_area = getU16LE (drop 5 b)\<rparr>"

text \<open>\<open>flag\<close> is the status register and \<open>coords\<close> what the coordinate registers hold. The second result is whether the
  status register is cleared.\<close>

definition readRawTouches :: "u8 \<Rightarrow> bytes \<Rightarrow> gt_point list option \<times> bool" where
  "readRawTouches flag coords =
     (if flag AND 0x80 = 0 then (None, False)
      else
        let count = unat (flag AND 0x0F) in
        if count > 5 then (None, True)
        else (Some (map (\<lambda>i. gt_point_of (drop (8 * i) coords)) [0..<count]), True))"

section \<open>Tracking\<close>

text \<open>Times are in nanoseconds of the steady clock.\<close>

record track_state =
  ts_point :: touch_point
  ts_pressTime :: nat
  ts_startX :: u16
  ts_startY :: u16
  ts_holdFired :: bool
  ts_debouncing :: bool

record gt911 =
  moveThreshold :: u16
  holdMs :: u32
  debounceMs :: u32
  tracked :: "(u8 \<times> track_state) list"
  lastRelease :: "(u8 \<times> nat) list"
  gt_points :: "gt_point list"

definition gt911_new :: gt911 where
  "gt911_new = \<lparr>moveThreshold = 5, holdMs = 500, debounceMs = 75, tracked = [], lastRelease = [], gt_points = []\<rparr>"

definition ms_since :: "nat \<Rightarrow> nat \<Rightarrow> u32" where "ms_since now t = of_nat ((now - t) div 1000000)"

definition touch_point_of :: "gt_point \<Rightarrow> touch_point" where
  "touch_point_of p = \<lparr>tp_id = gt_trackId p, tp_x = gt_x p, tp_y = gt_y p, tp_size = gt_area p, tp_active = True\<rparr>"

definition event_at :: "touch_event \<Rightarrow> touch_point \<Rightarrow> u16 \<Rightarrow> u16 \<Rightarrow> u32 \<Rightarrow> touch_event_data" where
  "event_at ev p dx dy dur = \<lparr>te_event = ev, te_point = p, te_dx = dx, te_dy = dy, te_duration_ms = dur\<rparr>"

text \<open>\<open>sqrt((float)(dx*dx + dy*dy)) >= limit\<close> for 16-bit differences; up to a limit of 2048, far above the thresholds in use,
  the rounding of the square root and of its argument cannot change the comparison.\<close>

definition moved_by :: "u16 \<Rightarrow> u16 \<Rightarrow> nat \<Rightarrow> bool" where
  "moved_by dx dy limit \<longleftrightarrow> int limit * int limit \<le> sint dx * sint dx + sint dy * sint dy"

definition current_map :: "gt_point list \<Rightarrow> (u8 \<times> touch_point) list" where
  "current_map ps = fold (\<lambda>p m. map_put (gt_trackId p) (touch_point_of p) m) ps []"

text \<open>A contact that is gone.\<close>

definition release_contact :: "nat \<Rightarrow> u8 \<Rightarrow> gt911 \<Rightarrow> touch_event_data list \<times> gt911" where
  "release_contact now i g =
     (case map_of (tracked g) i of
        None \<Rightarrow> ([], g)
      | Some state \<Rightarrow>
          (if ts_debouncing state then [] else [event_at RELEASE (ts_point state) 0 0 (ms_since now (ts_pressTime state))],
           g\<lparr>lastRelease := map_put i now (lastRelease g), tracked := map_erase i (tracked g)\<rparr>))"

text \<open>A contact that is there.\<close>

definition new_contact :: "nat \<Rightarrow> u8 \<Rightarrow> touch_point \<Rightarrow> gt911 \<Rightarrow> touch_event_data list \<times> gt911" where
  "new_contact now i tp g =
     (let state = \<lparr>ts_point = tp, ts_pressTime = now, ts_startX = tp_x tp, ts_startY = tp_y tp, ts_holdFired = False,
            ts_debouncing = False\<rparr>;
          pressed = ([event_at PRESS tp 0 0 0], g\<lparr>tracked := map_put i state (tracked g)\<rparr>)
      in case map_of (lastRelease g) i of
           None \<Rightarrow> pressed
         | Some rel \<Rightarrow>
             if debounceMs g > 0 \<and> ms_since now rel < debounceMs g then
               ([], g\<lparr>tracked := map_put i (state\<lparr>ts_pressTime := rel, ts_debouncing := True\<rparr>) (tracked g)\<rparr>)
             else pressed)"

definition held_contact :: "nat \<Rightarrow> u8 \<Rightarrow> touch_point \<Rightarrow> track_state \<Rightarrow> gt911 \<Rightarrow> touch_event_data list \<times> gt911" where
  "held_contact now i tp state g =
     (let dx = tp_x tp - tp_x (ts_point state); dy = tp_y tp - tp_y (ts_point state);
          dur = ms_since now (ts_pressTime state);
          moved = moved_by dx dy (unat (moveThreshold g));
          moves = (if moved then [event_at MOVE tp dx dy dur] else []);
          state = (if moved then state\<lparr>ts_point := tp\<rparr> else state);
          hold = (\<not> ts_holdFired state \<and> dur \<ge> holdMs g \<and>
            \<not> moved_by (tp_x tp - ts_startX state) (tp_y tp - ts_startY state) (unat (moveThreshold g) * 3));
          holds = (if hold then [event_at HOLD tp 0 0 dur] else []);
          state = (if hold then state\<lparr>ts_holdFired := True\<rparr> else state)
      in (moves @ holds, g\<lparr>tracked := map_put i state (tracked g)\<rparr>))"

definition present_contact :: "nat \<Rightarrow> u8 \<Rightarrow> touch_point \<Rightarrow> gt911 \<Rightarrow> touch_event_data list \<times> gt911" where
  "present_contact now i tp g =
     (case map_of (tracked g) i of None \<Rightarrow> new_contact now i tp g | Some state \<Rightarrow> held_contact now i tp state g)"

fun each_contact :: "('a \<Rightarrow> gt911 \<Rightarrow> touch_event_data list \<times> gt911) \<Rightarrow> 'a list \<Rightarrow> gt911 \<Rightarrow> touch_event_data list \<times> gt911" where
  "each_contact step [] g = ([], g)"
| "each_contact step (x # xs) g = (let (es, g) = step x g; (es', g) = each_contact step xs g in (es @ es', g))"

definition processTouches :: "nat \<Rightarrow> gt_point list \<Rightarrow> gt911 \<Rightarrow> touch_event_data list \<times> gt911" where
  "processTouches now points g =
     (let current = current_map points;
          released = filter (\<lambda>i. map_of current i = None) (map fst (tracked g));
          (es1, g) = each_contact (release_contact now) released g;
          (es2, g) = each_contact (\<lambda>(i, tp). present_contact now i tp) current g
      in (es1 @ es2, g))"

text \<open>A pass of the polling loop: \<open>report\<close> is the registers when the interrupt came, \<open>None\<close> a timeout.\<close>

definition poll_pass :: "nat \<Rightarrow> (u8 \<times> bytes) option \<Rightarrow> gt911 \<Rightarrow> touch_event_data list \<times> gt911" where
  "poll_pass now report g =
     (case report of
        Some (flag, coords) \<Rightarrow>
          (case fst (readRawTouches flag coords) of
             None \<Rightarrow> ([], g)
           | Some points \<Rightarrow> processTouches now points (g\<lparr>gt_points := points\<rparr>))
      | None \<Rightarrow> if tracked g = [] then ([], g) else processTouches now (gt_points g) g)"

text \<open>The end of the loop lifts what is still down.\<close>

definition poll_stop :: "nat \<Rightarrow> gt911 \<Rightarrow> touch_event_data list \<times> gt911" where
  "poll_stop now g =
     (map (\<lambda>(i, state). event_at RELEASE (ts_point state) 0 0 (ms_since now (ts_pressTime state))) (tracked g),
      g\<lparr>tracked := []\<rparr>)"

section \<open>Checksums of the configuration\<close>

definition calcChecksum :: "bytes \<Rightarrow> u8" where "calcChecksum buf = NOT (fold (+) buf 0) + 1"

text \<open>\<open>config\<close> and \<open>chksum\<close> are the configuration registers and their checksum as read.\<close>

definition readConfig :: "bytes \<Rightarrow> u8 \<Rightarrow> bytes option" where
  "readConfig config chksum = (if chksum = calcChecksum config then Some config else None)"

end
