(* ===== verification/TouchLaws.thy ===== *)
theory TouchLaws
  imports Touch
begin

text \<open>
  What the callbacks of the touch driver are told about a finger: presses and releases alternate, moves and at most one
  hold come in between, and after the end of the polling thread every finger is up. A suppressed press is where the
  driver departs from this: its moves are reported and its release at the end of the thread, but not its press.
\<close>

section \<open>Maps\<close>

lemma map_of_map_put [simp]: "map_of (map_put k v m) = (map_of m)(k \<mapsto> v)"
  by (induction k v m rule: map_put.induct) (auto simp: fun_eq_iff)

lemma map_of_map_erase [simp]: "map_of (map_erase k m) = (map_of m)(k := None)"
  by (induction m) (auto simp: map_erase_def fun_eq_iff)

lemma set_map_put: "fst ` set (map_put k v m) = insert k (fst ` set m)"
  by (induction k v m rule: map_put.induct) auto

lemma sorted_map_put: "sorted_wrt (<) (map fst m) \<Longrightarrow> sorted_wrt (<) (map fst (map_put k v m))"
proof (induction k v m rule: map_put.induct)
  case (2 k v k' v' m)
  then show ?case using set_map_put [of k v m] by (auto simp flip: set_map)
qed simp

lemma sorted_map_erase: "sorted_wrt (<) (map fst m) \<Longrightarrow> sorted_wrt (<) (map fst (map_erase k m))"
  by (induction m) (auto simp: map_erase_def)

section \<open>The life of a finger\<close>

datatype finger_phase = Up | Down bool

text \<open>With \<open>strict\<close>, a finger that is up is not heard of before its press.\<close>

fun finger_step :: "bool \<Rightarrow> touch_event \<Rightarrow> finger_phase \<Rightarrow> finger_phase option" where
  "finger_step strict PRESS Up = Some (Down False)"
| "finger_step strict RELEASE Up = None"
| "finger_step strict MOVE Up = (if strict then None else Some Up)"
| "finger_step strict HOLD Up = (if strict then None else Some Up)"
| "finger_step strict PRESS (Down h) = None"
| "finger_step strict RELEASE (Down h) = Some Up"
| "finger_step strict MOVE (Down h) = Some (Down h)"
| "finger_step strict HOLD (Down h) = (if h then None else Some (Down True))"

fun finger_events :: "bool \<Rightarrow> u8 \<Rightarrow> touch_event_data list \<Rightarrow> finger_phase \<Rightarrow> finger_phase option" where
  "finger_events strict i [] ph = Some ph"
| "finger_events strict i (e # es) ph =
     (if tp_id (te_point e) = i then Option.bind (finger_step strict (te_event e) ph) (finger_events strict i es)
      else finger_events strict i es ph)"

lemma finger_events_append:
  "finger_events strict i (es @ es') ph = Option.bind (finger_events strict i es ph) (finger_events strict i es')"
  by (induction strict i es ph rule: finger_events.induct) (auto split: Option.bind_splits)

definition phase_of :: "u8 \<Rightarrow> gt911 \<Rightarrow> finger_phase" where
  "phase_of i g =
     (case map_of (tracked g) i of None \<Rightarrow> Up | Some s \<Rightarrow> if ts_debouncing s then Up else Down (ts_holdFired s))"

text \<open>Entries carry their key's number, and nothing is suppressed when \<open>debounceMs\<close> is zero.\<close>

definition touch_ok :: "gt911 \<Rightarrow> bool" where
  "touch_ok g \<longleftrightarrow> sorted_wrt (<) (map fst (tracked g)) \<and>
     (\<forall>(i, s) \<in> set (tracked g). tp_id (ts_point s) = i \<and> (debounceMs g = 0 \<longrightarrow> \<not> ts_debouncing s))"

lemma touch_ok_lookup:
  assumes "touch_ok g" "map_of (tracked g) i = Some s"
  shows "tp_id (ts_point s) = i" "debounceMs g = 0 \<Longrightarrow> \<not> ts_debouncing s"
  using assms map_of_SomeD [of "tracked g" i s] by (auto simp: touch_ok_def)

lemma set_map_put_sub: "set (map_put k v m) \<subseteq> insert (k, v) (set m)"
  by (induction k v m rule: map_put.induct) auto

lemma touch_ok_put:
  assumes "touch_ok g" "tp_id (ts_point s) = i" "debounceMs g = 0 \<longrightarrow> \<not> ts_debouncing s"
  shows "touch_ok (g\<lparr>tracked := map_put i s (tracked g)\<rparr>)"
  using assms set_map_put_sub [of i s "tracked g"] unfolding touch_ok_def by (auto intro: sorted_map_put)

section \<open>The steps\<close>

text \<open>What every step keeps, and that its events are a step of each finger.\<close>

definition tells :: "gt911 \<Rightarrow> touch_event_data list \<times> gt911 \<Rightarrow> bool" where
  "tells g r \<longleftrightarrow> touch_ok (snd r) \<and> debounceMs (snd r) = debounceMs g \<and>
     (\<forall>i. finger_events (debounceMs g = 0) i (fst r) (phase_of i g) = Some (phase_of i (snd r)))"

lemma tellsI:
  assumes "touch_ok g'" "debounceMs g' = debounceMs g"
    "\<And>i. finger_events (debounceMs g = 0) i es (phase_of i g) = Some (phase_of i g')"
  shows "tells g (es, g')"
  using assms by (simp add: tells_def)

lemma release_contact_tells:
  assumes "touch_ok g" shows "tells g (release_contact now i g)"
proof (cases "map_of (tracked g) i")
  case None
  then show ?thesis using assms by (simp add: tells_def release_contact_def)
next
  case (Some s)
  note [simp] = touch_ok_lookup(1) [OF assms Some]
  show ?thesis unfolding release_contact_def Some option.case
  proof (rule tellsI)
    show "touch_ok (g\<lparr>lastRelease := map_put i now (lastRelease g), tracked := map_erase i (tracked g)\<rparr>)"
      using assms unfolding touch_ok_def using sorted_map_erase [of "tracked g" i] by (auto simp: map_erase_def)
  qed (use Some in \<open>auto simp: phase_of_def event_at_def\<close>)
qed

lemma new_contact_tells:
  assumes "touch_ok g" "map_of (tracked g) i = None" "tp_id tp = i" shows "tells g (new_contact now i tp g)"
  using assms(2,3) unfolding new_contact_def Let_def
  by (auto split: option.split intro!: tellsI touch_ok_put [OF assms(1)] simp: phase_of_def event_at_def word_gt_0_no)

lemma held_contact_tells:
  assumes "touch_ok g" "map_of (tracked g) i = Some s" "tp_id tp = i" shows "tells g (held_contact now i tp s g)"
  using assms(2,3) touch_ok_lookup [OF assms(1,2)] unfolding held_contact_def Let_def
  by (auto intro!: tellsI touch_ok_put [OF assms(1)] simp: phase_of_def event_at_def)

lemma present_contact_tells:
  assumes "touch_ok g" "tp_id tp = i" shows "tells g (present_contact now i tp g)"
  using assms by (auto simp: present_contact_def new_contact_tells held_contact_tells split: option.split)

lemma tells_bind: "tells g (es, g') \<Longrightarrow> tells g' (es', g'') \<Longrightarrow> tells g (es @ es', g'')"
  by (auto simp: tells_def finger_events_append)

lemma each_contact_tells:
  assumes "\<And>x g. x \<in> set xs \<Longrightarrow> touch_ok g \<Longrightarrow> tells g (step x g)" "touch_ok g"
  shows "tells g (each_contact step xs g)"
  using assms
proof (induction step xs g rule: each_contact.induct)
  case (1 step g)
  then show ?case by (simp add: tells_def)
next
  case (2 step x xs g)
  obtain es g' where s: "step x g = (es, g')" by fastforce
  obtain es' g'' where r: "each_contact step xs g' = (es', g'')" by fastforce
  have t: "tells g (es, g')" using "2.prems" s by (metis list.set_intros(1))
  then have "tells g' (es', g'')" using "2.IH" [OF s [symmetric] refl] "2.prems" r by (auto simp: tells_def)
  then show ?case using tells_bind [OF t] by (simp add: s r)
qed

lemma current_map_ids: "(i, tp) \<in> set (current_map ps) \<Longrightarrow> tp_id tp = i"
proof -
  have "(\<forall>(i, tp) \<in> set m. tp_id tp = i) \<Longrightarrow>
      \<forall>(i, tp) \<in> set (fold (\<lambda>p m. map_put (gt_trackId p) (touch_point_of p) m) ps m). tp_id tp = i" for m
  proof (induction ps arbitrary: m)
    case (Cons p ps)
    have "\<forall>(i, tp) \<in> set (map_put (gt_trackId p) (touch_point_of p) m). tp_id tp = i"
      using Cons.prems set_map_put_sub [of "gt_trackId p" "touch_point_of p" m] by (auto simp: touch_point_of_def)
    then show ?case using Cons.IH by simp
  qed simp
  from this [of "[]"] show "(i, tp) \<in> set (current_map ps) \<Longrightarrow> tp_id tp = i" by (auto simp: current_map_def)
qed

lemma processTouches_tells:
  assumes "touch_ok g" shows "tells g (processTouches now ps g)"
proof -
  let ?rel = "filter (\<lambda>i. map_of (current_map ps) i = None) (map fst (tracked g))"
  obtain es g' where r: "each_contact (release_contact now) ?rel g = (es, g')" by fastforce
  obtain es' g'' where p: "each_contact (\<lambda>(i, tp). present_contact now i tp) (current_map ps) g' = (es', g'')" by fastforce
  have "tells g (each_contact (release_contact now) ?rel g)"
    by (rule each_contact_tells) (simp_all add: release_contact_tells assms)
  then have t: "tells g (es, g')" by (simp only: r)
  then have "touch_ok g'" by (simp add: tells_def)
  have "tells g' (each_contact (\<lambda>(i, tp). present_contact now i tp) (current_map ps) g')"
  proof (rule each_contact_tells)
    fix x g assume "x \<in> set (current_map ps)" "touch_ok g"
    then show "tells g ((case x of (i, tp) \<Rightarrow> present_contact now i tp) g)"
      by (auto intro: present_contact_tells dest: current_map_ids split: prod.split)
  qed (rule \<open>touch_ok g'\<close>)
  then have "tells g' (es', g'')" by (simp only: p)
  then show ?thesis using tells_bind [OF t] by (simp add: processTouches_def r p Let_def)
qed

lemma poll_pass_tells:
  assumes "touch_ok g" shows "tells g (poll_pass now report g)"
proof -
  have skip: "tells g ([], g)" using assms by (simp add: tells_def)
  have "tells (g\<lparr>gt_points := ps\<rparr>) r = tells g r" for ps r by (simp add: tells_def phase_of_def)
  moreover have "touch_ok (g\<lparr>gt_points := ps\<rparr>)" for ps using assms by (simp add: touch_ok_def)
  ultimately have "tells g (processTouches now ps (g\<lparr>gt_points := ps\<rparr>))" for ps using processTouches_tells by metis
  then show ?thesis using skip processTouches_tells [OF assms]
    by (auto simp: poll_pass_def split: option.split prod.split)
qed

section \<open>The polling thread\<close>

definition poll_passes :: "(nat \<times> (u8 \<times> bytes) option) list \<Rightarrow> gt911 \<Rightarrow> touch_event_data list \<times> gt911" where
  "poll_passes passes g = each_contact (\<lambda>(now, report). poll_pass now report) passes g"

lemma poll_passes_tells: "touch_ok g \<Longrightarrow> tells g (poll_passes passes g)"
  unfolding poll_passes_def by (rule each_contact_tells) (auto simp: poll_pass_tells)

lemma touch_ok_new [simp]: "touch_ok (gt911_new\<lparr>moveThreshold := mt, holdMs := hm, debounceMs := dm\<rparr>)"
  by (simp add: touch_ok_def gt911_new_def)

lemma phase_of_new [simp]: "phase_of i (gt911_new\<lparr>moveThreshold := mt, holdMs := hm, debounceMs := dm\<rparr>) = Up"
  by (simp add: phase_of_def gt911_new_def)

lemma stop_finger:
  assumes "sorted_wrt (<) (map fst m)" "\<forall>(i, s) \<in> set m. tp_id (ts_point s) = i \<and> \<not> ts_debouncing s"
  shows "finger_events strict i (map (\<lambda>(i, s). event_at RELEASE (ts_point s) 0 0 (f s)) m)
     (case map_of m i of None \<Rightarrow> Up | Some s \<Rightarrow> if ts_debouncing s then Up else Down (ts_holdFired s)) = Some Up"
  using assms
proof (induction m)
  case (Cons e m)
  obtain j s where e: "e = (j, s)" by fastforce
  have fresh: "i = j \<Longrightarrow> map_of m i = None" using Cons.prems(1) e by (auto simp: map_of_eq_None_iff)
  show ?case using Cons e fresh by (auto simp: event_at_def)
qed simp


text \<open>With suppression, while the thread runs, presses and releases still alternate.\<close>

theorem touch_presses_alternate:
  "\<exists>ph. finger_events False i
     (fst (poll_passes passes (gt911_new\<lparr>moveThreshold := mt, holdMs := hm, debounceMs := dm\<rparr>))) Up = Some ph"
proof -
  have lax: "finger_events strict i es ph = Some ph' \<Longrightarrow> finger_events False i es ph = Some ph'" for strict es ph ph'
  proof (induction es arbitrary: ph)
    case (Cons e es)
    have "finger_step strict ev ph = Some q \<Longrightarrow> finger_step False ev ph = Some q" for ev q
      by (cases "(strict, ev, ph)" rule: finger_step.cases) (auto split: if_splits)
    then show ?case using Cons by (auto split: if_splits Option.bind_splits)
  qed simp
  let ?g = "gt911_new\<lparr>moveThreshold := mt, holdMs := hm, debounceMs := dm\<rparr>"
  have "tells ?g (poll_passes passes ?g)" by (rule poll_passes_tells) (rule touch_ok_new)
  then show ?thesis using lax unfolding tells_def phase_of_new by blast
qed

text \<open>A finger that comes back within the suppression time and is then moved: its move and, at the end of the thread, its
release are reported, and its press is not.\<close>

lemma suppressed_finger_moves:
  "map te_event (let (es, g) = poll_passes
       [(0, Some (0x81, [0, 10,0, 10,0, 0,0, 0])), (10000000, Some (0x80, [])), (20000000, Some (0x81, [0, 10,0, 10,0, 0,0, 0])),
        (30000000, Some (0x81, [0, 90,0, 10,0, 0,0, 0]))] gt911_new
     in es @ fst (poll_stop 40000000 g)) = [PRESS, RELEASE, MOVE, RELEASE]"
  by (simp add: poll_passes_def poll_pass_def readRawTouches_def gt_point_of_def getU16LE_def processTouches_def current_map_def
      present_contact_def new_contact_def held_contact_def release_contact_def gt911_new_def event_at_def touch_point_of_def
      ms_since_def moved_by_def poll_stop_def map_erase_def)

end
