(* ===== verification/Ui.thy ===== *)
theory Ui
  imports Touch DrawRender Canvas "HOL-Library.Log_Nat" "HOL-Library.Signed_Division"
begin

text \<open>
  The widgets of libs/uisys: buttons, combo boxes, the keyboard and dialogs, each with its state, its event handler and
  its drawing. A handler returns the callbacks it makes beside the new state, and a drawing is the list of calls it makes
  on its target. Coordinates are integers without a bound; only those handed to the target are cut to 16 bits.
\<close>

section \<open>Single precision\<close>

text \<open>Floats are the rationals they stand for: \<open>f32\<close> rounds to 24 significant bits, ties to even. Overflow, subnormals
  and the special values are out of the reach of a widget's numbers and not modelled.\<close>

definition round_even :: "rat \<Rightarrow> int" where
  "round_even q = (let n = \<lfloor>q\<rfloor>; r = q - of_int n in if r < 1/2 \<or> r = 1/2 \<and> even n then n else n + 1)"

definition pow2 :: "int \<Rightarrow> rat" where
  "pow2 e = (if e \<ge> 0 then 2 ^ nat e else 1 / 2 ^ nat (- e))"

definition exponent_of :: "rat \<Rightarrow> int" where
  "exponent_of q =
     (let (n, d) = quotient_of \<bar>q\<bar>; e = int (floorlog 2 (nat n)) - int (floorlog 2 (nat d)) in if \<bar>q\<bar> < pow2 e then e - 1 else e)"

definition f32 :: "rat \<Rightarrow> rat" where
  "f32 q = (if q = 0 then 0 else let u = pow2 (exponent_of q - 23) in of_int (round_even (q / u)) * u)"

definition to_int :: "rat \<Rightarrow> int" where
  "to_int q = (if q < 0 then - \<lfloor>- q\<rfloor> else \<lfloor>q\<rfloor>)"

definition std_round :: "rat \<Rightarrow> rat" where
  "std_round q = of_int (if q < 0 then - \<lfloor>1/2 - q\<rfloor> else \<lfloor>q + 1/2\<rfloor>)"

section \<open>Fonts and boxes\<close>

record ui_font =
  uf_scale :: u8
  uf_gfxFont :: "font_ptr option"

definition charW :: "ui_font \<Rightarrow> int" where "charW f = 6 * uint (uf_scale f)"

definition charH :: "ui_font \<Rightarrow> int" where "charH f = 8 * uint (uf_scale f)"

definition textWidth :: "ui_font \<Rightarrow> nat \<Rightarrow> int" where "textWidth f chars = int chars * charW f"

definition font_size :: "u8 \<Rightarrow> ui_font" where "font_size s = \<lparr>uf_scale = s, uf_gfxFont = None\<rparr>"

abbreviation (input) font_medium :: ui_font where "font_medium \<equiv> font_size 2"
abbreviation (input) font_large :: ui_font where "font_large \<equiv> font_size 3"

definition font_apply :: "ui_font \<Rightarrow> draw_call list" where
  "font_apply f = [SetTextSize (uf_scale f) (uf_scale f), SetFont (uf_gfxFont f)]"

definition in_box :: "int \<Rightarrow> int \<Rightarrow> int \<Rightarrow> int \<Rightarrow> int \<Rightarrow> int \<Rightarrow> bool" where
  "in_box x y w h tx ty \<longleftrightarrow> x \<le> tx \<and> tx \<le> x + w \<and> y \<le> ty \<and> ty \<le> y + h"

definition ev_x :: "touch_event_data \<Rightarrow> int" where "ev_x e = uint (tp_x (te_point e))"

definition ev_y :: "touch_event_data \<Rightarrow> int" where "ev_y e = uint (tp_y (te_point e))"

text \<open>The calls of a drawing, from integers and strings.\<close>

definition i16 :: "int \<Rightarrow> u16" where "i16 v = word_of_int v"

definition cstring :: "string \<Rightarrow> bytes" where "cstring s = map of_char s @ [0]"

definition ui_rect :: "int \<Rightarrow> int \<Rightarrow> int \<Rightarrow> int \<Rightarrow> u32 \<Rightarrow> draw_call" where
  "ui_rect x y w h c = DrawRect (i16 x) (i16 y) (i16 w) (i16 h) c"

definition ui_fill :: "int \<Rightarrow> int \<Rightarrow> int \<Rightarrow> int \<Rightarrow> u32 \<Rightarrow> draw_call" where
  "ui_fill x y w h c = FillRect (i16 x) (i16 y) (i16 w) (i16 h) c"

definition ui_line :: "int \<Rightarrow> int \<Rightarrow> int \<Rightarrow> int \<Rightarrow> u32 \<Rightarrow> draw_call" where
  "ui_line x0 y0 x1 y1 c = DrawLine (i16 x0) (i16 y0) (i16 x1) (i16 y1) c"

definition ui_disc :: "int \<Rightarrow> int \<Rightarrow> int \<Rightarrow> u32 \<Rightarrow> draw_call" where
  "ui_disc x y r c = FillCircle (i16 x) (i16 y) (i16 r) c"

definition ui_text :: "int \<Rightarrow> int \<Rightarrow> u32 \<Rightarrow> u32 \<Rightarrow> string \<Rightarrow> draw_call list" where
  "ui_text x y c bg s = [SetCursor (i16 x) (i16 y), SetTextColor c bg, WriteText (cstring s)]"

section \<open>Buttons\<close>

datatype button_mode = BM_TRIGGER | BM_HOLD | BM_TOGGLE | BM_TRIGGER_HOLD | BM_HOLD_SWIPE

datatype button_state = BS_TRIGGER | BS_TOGGLE_ON | BS_TOGGLE_OFF | BS_HOLD_START | BS_HOLD_END | BS_HOLD_CANCEL
  | BS_PRESS | BS_RELEASE | BS_SWIPE_DONE | BS_SWIPE_CANCEL

fun state_code :: "button_state \<Rightarrow> int" where
  "state_code BS_TRIGGER = 0"
| "state_code BS_TOGGLE_ON = 1"
| "state_code BS_TOGGLE_OFF = 2"
| "state_code BS_HOLD_START = 3"
| "state_code BS_HOLD_END = 4"
| "state_code BS_HOLD_CANCEL = 5"
| "state_code BS_PRESS = 6"
| "state_code BS_RELEASE = 7"
| "state_code BS_SWIPE_DONE = 8"
| "state_code BS_SWIPE_CANCEL = 9"

record button_theme =
  bc_normal :: u32
  bc_pressed :: u32
  bc_toggleOn :: u32
  bc_holding :: u32
  bc_border :: u32
  bc_text :: u32
  bc_swipeFill :: u32
  bc_swipeTrack :: u32

definition theme_default :: button_theme where
  "theme_default = \<lparr>bc_normal = 0xFF212021, bc_pressed = 0xFF00FF00, bc_toggleOn = 0xFF0000FF, bc_holding = 0xFFFFA600,
     bc_border = 0xFFFFFFFF, bc_text = 0xFFFFFFFF, bc_swipeFill = 0xFF00C800, bc_swipeTrack = 0xFF1A1A1A\<rparr>"

definition theme_danger :: button_theme where
  "theme_danger = theme_default\<lparr>bc_normal := 0xFF420000, bc_pressed := 0xFFFF0000, bc_toggleOn := 0xFFFF0000,
     bc_holding := 0xFFFF7D00\<rparr>"

definition theme_military :: button_theme where
  "theme_military = theme_default\<lparr>bc_normal := 0xFF1A2E00, bc_pressed := 0xFF4A8200, bc_toggleOn := 0xFF2E6B00,
     bc_holding := 0xFF636100, bc_border := 0xFF6B8C6B, bc_text := 0xFFE0FFE0, bc_swipeFill := 0xFF4A8200,
     bc_swipeTrack := 0xFF0D1600\<rparr>"

definition theme_hud :: button_theme where
  "theme_hud = theme_default\<lparr>bc_normal := 0xFF002A2B, bc_pressed := 0xFF00FF00, bc_toggleOn := 0xFF007A00,
     bc_holding := 0xFFFFA600, bc_border := 0xFF00C800, bc_text := 0xFF00FF00, bc_swipeFill := 0xFF00FF00,
     bc_swipeTrack := 0xFF001400\<rparr>"

record button =
  bt_x :: int
  bt_y :: int
  bt_w :: int
  bt_h :: int
  bt_label :: string
  bt_mode :: button_mode
  bt_theme :: button_theme
  bt_font :: ui_font
  bt_visible :: bool
  bt_pressed :: bool
  bt_toggleState :: bool
  bt_holdActive :: bool
  bt_swipeDurationMs :: u32
  bt_swipeRTL :: bool
  bt_swipePressedAt :: u32
  bt_swipeProgress :: rat
  bt_swipeFired :: bool

definition button_new :: "int \<Rightarrow> int \<Rightarrow> int \<Rightarrow> int \<Rightarrow> string \<Rightarrow> button_mode \<Rightarrow> button_theme \<Rightarrow> ui_font \<Rightarrow> button" where
  "button_new x y w h label mode theme font =
     \<lparr>bt_x = x, bt_y = y, bt_w = w, bt_h = h, bt_label = label, bt_mode = mode, bt_theme = theme, bt_font = font,
      bt_visible = True, bt_pressed = False, bt_toggleState = False, bt_holdActive = False, bt_swipeDurationMs = 1000,
      bt_swipeRTL = False, bt_swipePressedAt = 0, bt_swipeProgress = 0, bt_swipeFired = False\<rparr>"

definition bt_hit :: "button \<Rightarrow> int \<Rightarrow> int \<Rightarrow> bool" where
  "bt_hit b tx ty \<longleftrightarrow> in_box (bt_x b) (bt_y b) (bt_w b) (bt_h b) tx ty"

definition holds_mode :: "button \<Rightarrow> bool" where
  "holds_mode b \<longleftrightarrow> bt_mode b = BM_HOLD \<or> bt_mode b = BM_TRIGGER_HOLD"

definition bt_press :: "button \<Rightarrow> button_state list \<times> button" where
  "bt_press b =
     (let b = b\<lparr>bt_pressed := True\<rparr>
      in case bt_mode b of
           BM_TRIGGER \<Rightarrow> ([BS_TRIGGER], b)
         | BM_TRIGGER_HOLD \<Rightarrow> ([BS_TRIGGER], b)
         | BM_TOGGLE \<Rightarrow>
             let b = b\<lparr>bt_toggleState := \<not> bt_toggleState b\<rparr> in
             ([if bt_toggleState b then BS_TOGGLE_ON else BS_TOGGLE_OFF], b)
         | BM_HOLD_SWIPE \<Rightarrow> ([], b\<lparr>bt_swipePressedAt := 0, bt_swipeProgress := 0, bt_swipeFired := False\<rparr>)
         | BM_HOLD \<Rightarrow> ([], b))"

definition bt_hold :: "button \<Rightarrow> button_state list \<times> button" where
  "bt_hold b = (if holds_mode b \<and> \<not> bt_holdActive b then ([BS_HOLD_START], b\<lparr>bt_holdActive := True\<rparr>) else ([], b))"

text \<open>What leaving the button and letting it go have in common.\<close>

definition bt_lift :: "button_state \<Rightarrow> button \<Rightarrow> button_state list \<times> button" where
  "bt_lift end_state b =
     (let (s1, b) = (if holds_mode b \<and> bt_holdActive b then ([end_state], b\<lparr>bt_holdActive := False\<rparr>) else ([], b));
          (s2, b) = (if bt_mode b = BM_HOLD_SWIPE \<and> \<not> bt_swipeFired b
                     then ([BS_SWIPE_CANCEL], b\<lparr>bt_swipeProgress := 0\<rparr>) else ([], b))
      in (s1 @ s2, b\<lparr>bt_pressed := False\<rparr>))"

definition bt_handleEvent :: "touch_event_data \<Rightarrow> button \<Rightarrow> button_state list \<times> button" where
  "bt_handleEvent e b =
     (let hit = bt_hit b (ev_x e) (ev_y e) in
      if \<not> bt_visible b then ([], b)
      else case te_event e of
        PRESS \<Rightarrow> if hit then bt_press b else ([], b)
      | HOLD \<Rightarrow> if bt_pressed b \<and> hit then bt_hold b else ([], b)
      | MOVE \<Rightarrow> if bt_pressed b \<and> \<not> hit then bt_lift BS_HOLD_CANCEL b else ([], b)
      | RELEASE \<Rightarrow> if bt_pressed b then bt_lift BS_HOLD_END b else ([], b))"

definition bt_update :: "u32 \<Rightarrow> button \<Rightarrow> button_state list \<times> button" where
  "bt_update nowMs b =
     (if bt_mode b \<noteq> BM_HOLD_SWIPE \<or> \<not> bt_pressed b \<or> bt_swipeFired b \<or> bt_swipeDurationMs b = 0 then ([], b)
      else
        let b = (if bt_swipePressedAt b = 0 then b\<lparr>bt_swipePressedAt := nowMs\<rparr> else b);
            elapsed = nowMs - bt_swipePressedAt b;
            p = f32 (f32 (of_int (uint elapsed)) / f32 (of_int (uint (bt_swipeDurationMs b))));
            b = b\<lparr>bt_swipeProgress := (if p > 1 then 1 else p)\<rparr>
        in if bt_swipeProgress b \<ge> 1 then ([BS_SWIPE_DONE], b\<lparr>bt_swipeFired := True\<rparr>) else ([], b))"

definition bt_caption :: "button \<Rightarrow> u32 \<Rightarrow> draw_call list" where
  "bt_caption b bg =
     font_apply (bt_font b) @
     ui_text (bt_x b + (bt_w b - textWidth (bt_font b) (length (bt_label b))) sdiv 2)
       (bt_y b + (bt_h b - charH (bt_font b)) sdiv 2) (bc_text (bt_theme b)) bg (bt_label b)"

definition bt_dot :: "button \<Rightarrow> u32 \<Rightarrow> draw_call" where
  "bt_dot b c = ui_disc (bt_x b + bt_w b - 8) (bt_y b + 8) 4 c"

definition bt_frame :: "button \<Rightarrow> draw_call list" where
  "bt_frame b =
     [ui_rect (bt_x b) (bt_y b) (bt_w b) (bt_h b) (bc_border (bt_theme b)),
      ui_rect (bt_x b + 1) (bt_y b + 1) (bt_w b - 2) (bt_h b - 2) (bc_border (bt_theme b))]"

definition bt_draw_swipe :: "button \<Rightarrow> draw_call list" where
  "bt_draw_swipe b =
     (let t = bt_theme b; fillW = to_int (f32 (bt_swipeProgress b * f32 (of_int (bt_w b)))) in
      [ui_fill (bt_x b) (bt_y b) (bt_w b) (bt_h b) (bc_swipeTrack t)] @
      (if fillW > 0
       then [ui_fill (if bt_swipeRTL b then bt_x b + bt_w b - fillW else bt_x b) (bt_y b) fillW (bt_h b) (bc_swipeFill t)]
       else []) @
      take (if bt_swipeFired b then 2 else 1) (bt_frame b) @
      bt_caption b (if fillW > bt_w b sdiv 2 then bc_swipeFill t else bc_swipeTrack t) @
      [bt_dot b (if bt_pressed b then color565 0 0xFF 0xFF else color565 0 0x30 0x30)])"

definition bt_draw :: "button \<Rightarrow> draw_call list" where
  "bt_draw b =
     (if \<not> bt_visible b then []
      else if bt_mode b = BM_HOLD_SWIPE then bt_draw_swipe b
      else
        let t = bt_theme b;
            bg = (if bt_mode b = BM_TOGGLE
                  then if bt_pressed b then bc_pressed t else if bt_toggleState b then bc_toggleOn t else bc_normal t
                  else if bt_holdActive b then bc_holding t
                  else if bt_pressed b then bc_pressed t else bc_normal t)
        in [ui_fill (bt_x b) (bt_y b) (bt_w b) (bt_h b) bg] @
           take (if bt_pressed b \<or> bt_holdActive b \<or> bt_toggleState b then 2 else 1) (bt_frame b) @
           bt_caption b bg @
           [bt_dot b (case bt_mode b of
              BM_TRIGGER \<Rightarrow> color565 0xFF 0xFF 0
            | BM_HOLD \<Rightarrow> if bt_holdActive b then color565 0xFF 0x80 0 else color565 0x60 0x30 0
            | BM_TOGGLE \<Rightarrow> if bt_toggleState b then color565 0 0xFF 0xFF else color565 0 0x40 0x40
            | BM_TRIGGER_HOLD \<Rightarrow> if bt_holdActive b then color565 0xFF 0x80 0 else color565 0xFF 0xC0 0
            | BM_HOLD_SWIPE \<Rightarrow> GFX_BLACK)])"

end
