(* ===== verification/UiPanels.thy ===== *)
theory UiPanels
  imports Ui
begin

text \<open>
  The widgets that open something over the others: combo boxes (combobox_widget.h/.cpp), the shared keyboard
  (keyboard_widget.h/.cpp) and dialogs (dialog_widget.h/.cpp). The keyboard's callback is named by the widget it
  belongs to.
\<close>

section \<open>Combo boxes\<close>

record combo =
  cb_x :: int
  cb_y :: int
  cb_w :: int
  cb_h :: int
  cb_items :: "string list"
  cb_selectedIndex :: int
  cb_isOpen :: bool
  cb_font :: ui_font
  cb_scrollOffset :: int
  cb_maxVisible :: int
  cb_hoveredIndex :: int
  cb_visible :: bool

definition combo_new :: "int \<Rightarrow> int \<Rightarrow> int \<Rightarrow> int \<Rightarrow> string list \<Rightarrow> int \<Rightarrow> ui_font \<Rightarrow> int \<Rightarrow> combo" where
  "combo_new x y w h items defaultIndex font maxVisible =
     \<lparr>cb_x = x, cb_y = y, cb_w = w, cb_h = h, cb_items = items, cb_selectedIndex = defaultIndex, cb_isOpen = False,
      cb_font = font, cb_scrollOffset = 0, cb_maxVisible = maxVisible, cb_hoveredIndex = -1, cb_visible = True\<rparr>"

abbreviation (input) SCROLL_W :: int where "SCROLL_W \<equiv> 12"
abbreviation (input) ARROW_BTN_H :: int where "ARROW_BTN_H \<equiv> 24"

definition cb_count :: "combo \<Rightarrow> int" where "cb_count c = int (length (cb_items c))"

definition itemH :: "combo \<Rightarrow> int" where "itemH c = charH (cb_font c) + 12"

definition visibleCount :: "combo \<Rightarrow> int" where
  "visibleCount c = (if cb_count c < cb_maxVisible c then cb_count c else cb_maxVisible c)"

definition needsScroll :: "combo \<Rightarrow> bool" where "needsScroll c \<longleftrightarrow> cb_count c > cb_maxVisible c"

definition dropdownH :: "combo \<Rightarrow> int" where "dropdownH c = visibleCount c * itemH c"

definition hitTestHeader :: "combo \<Rightarrow> int \<Rightarrow> int \<Rightarrow> bool" where
  "hitTestHeader c tx ty \<longleftrightarrow> in_box (cb_x c) (cb_y c) (cb_w c) (cb_h c) tx ty"

definition hitTestDropdown :: "combo \<Rightarrow> int \<Rightarrow> int \<Rightarrow> int" where
  "hitTestDropdown c tx ty =
     (let dropW = (if needsScroll c then cb_w c - SCROLL_W else cb_w c);
          dropY = cb_y c + cb_h c;
          idx = cb_scrollOffset c + (ty - dropY) sdiv itemH c
      in if \<not> cb_isOpen c then -1
         else if tx < cb_x c \<or> tx > cb_x c + dropW then -1
         else if ty < dropY \<or> ty > dropY + dropdownH c then -1
         else if idx < 0 \<or> idx \<ge> cb_count c then -1 else idx)"

definition hitScrollUp :: "combo \<Rightarrow> int \<Rightarrow> int \<Rightarrow> bool" where
  "hitScrollUp c tx ty \<longleftrightarrow> cb_isOpen c \<and> needsScroll c \<and>
     in_box (cb_x c + cb_w c - SCROLL_W) (cb_y c + cb_h c) SCROLL_W ARROW_BTN_H tx ty"

definition hitScrollDown :: "combo \<Rightarrow> int \<Rightarrow> int \<Rightarrow> bool" where
  "hitScrollDown c tx ty \<longleftrightarrow> cb_isOpen c \<and> needsScroll c \<and>
     in_box (cb_x c + cb_w c - SCROLL_W) (cb_y c + cb_h c + dropdownH c - ARROW_BTN_H) SCROLL_W ARROW_BTN_H tx ty"

definition clampScroll :: "combo \<Rightarrow> combo" where
  "clampScroll c =
     (let maxOff = (if cb_count c - cb_maxVisible c < 0 then 0 else cb_count c - cb_maxVisible c);
          off = (if cb_scrollOffset c < 0 then 0 else cb_scrollOffset c)
      in c\<lparr>cb_scrollOffset := (if off > maxOff then maxOff else off)\<rparr>)"

definition scroll_by :: "int \<Rightarrow> combo \<Rightarrow> combo" where
  "scroll_by d c = clampScroll (c\<lparr>cb_scrollOffset := cb_scrollOffset c + d\<rparr>)"

definition addItem :: "string \<Rightarrow> combo \<Rightarrow> combo" where
  "addItem item c = c\<lparr>cb_items := cb_items c @ [item]\<rparr>"

definition clearItems :: "combo \<Rightarrow> combo" where
  "clearItems c = c\<lparr>cb_items := [], cb_selectedIndex := 0, cb_scrollOffset := 0\<rparr>"

definition setItems :: "string list \<Rightarrow> int \<Rightarrow> combo \<Rightarrow> combo" where
  "setItems newItems defaultIndex c =
     c\<lparr>cb_items := newItems, cb_selectedIndex := defaultIndex, cb_scrollOffset := 0, cb_isOpen := False\<rparr>"

definition setSelectedIndex :: "int \<Rightarrow> combo \<Rightarrow> combo" where
  "setSelectedIndex idx c = (if idx \<ge> 0 \<and> idx < cb_count c then c\<lparr>cb_selectedIndex := idx\<rparr> else c)"

text \<open>An index of \<open>items\<close>; \<open>None\<close> where the code reads outside the vector.\<close>

definition item_at :: "combo \<Rightarrow> int \<Rightarrow> string option" where
  "item_at c i = (if 0 \<le> i \<and> i < cb_count c then Some (cb_items c ! nat i) else None)"

definition getSelectedValue :: "combo \<Rightarrow> string option" where
  "getSelectedValue c = (if cb_items c = [] then Some '''' else item_at c (cb_selectedIndex c))"

text \<open>The second result is the argument of \<open>onChange\<close>.\<close>

definition cb_press :: "int \<Rightarrow> int \<Rightarrow> combo \<Rightarrow> (int \<times> string) option \<times> combo" where
  "cb_press tx ty c =
     (if cb_isOpen c then
        if hitScrollUp c tx ty then (None, scroll_by (-1) c)
        else if hitScrollDown c tx ty then (None, scroll_by 1 c)
        else
          let idx = hitTestDropdown c tx ty in
          (if idx \<ge> 0 then Some (idx, cb_items c ! nat idx) else None,
           (if idx \<ge> 0 then c\<lparr>cb_selectedIndex := idx\<rparr> else c)\<lparr>cb_isOpen := False\<rparr>)
      else if hitTestHeader c tx ty
      then (None, clampScroll (c\<lparr>cb_isOpen := True, cb_scrollOffset := cb_selectedIndex c\<rparr>))
      else (None, c))"

definition cb_move :: "int \<Rightarrow> int \<Rightarrow> combo \<Rightarrow> combo" where
  "cb_move tx ty c =
     (if cb_isOpen c then
        let c = c\<lparr>cb_hoveredIndex := hitTestDropdown c tx ty\<rparr>; dropY = cb_y c + cb_h c; dh = dropdownH c in
        if ty < dropY + 20 \<and> ty > dropY then scroll_by (-1) c
        else if ty > dropY + dh - 20 \<and> ty < dropY + dh then scroll_by 1 c else c
      else c)"

definition cb_handleEvent :: "touch_event_data \<Rightarrow> combo \<Rightarrow> (int \<times> string) option \<times> combo" where
  "cb_handleEvent e c =
     (if \<not> cb_visible c then (None, c)
      else case te_event e of
        PRESS \<Rightarrow> cb_press (ev_x e) (ev_y e) c
      | MOVE \<Rightarrow> (None, cb_move (ev_x e) (ev_y e) c)
      | RELEASE \<Rightarrow> (None, c\<lparr>cb_hoveredIndex := -1\<rparr>)
      | HOLD \<Rightarrow> (None, c))"

text \<open>The row of an item, or \<open>None\<close> where the drawing reads outside the items.\<close>

definition cb_draw_row :: "combo \<Rightarrow> int \<Rightarrow> int \<Rightarrow> string \<Rightarrow> draw_call list" where
  "cb_draw_row c dropW i item =
     (let itemIdx = cb_scrollOffset c + i;
          iy = cb_y c + cb_h c + i * itemH c;
          rowBg = (if itemIdx = cb_selectedIndex c then 0xFF00FF00 else if itemIdx = cb_hoveredIndex c then 0xFF313031
                   else 0xFF212021);
          ckx = cb_x c + dropW - 16; cky = iy + itemH c sdiv 2
      in [ui_fill (cb_x c + 1) (iy + 1) (dropW - 2) (itemH c - 1) rowBg] @
         (if i > 0 then [ui_line (cb_x c + 4) iy (cb_x c + dropW - 4) iy 0xFFFFFFFF] else []) @
         font_apply (cb_font c) @
         ui_text (cb_x c + 8) (iy + (itemH c - charH (cb_font c)) sdiv 2) 0xFFFFFFFF rowBg item @
         (if itemIdx = cb_selectedIndex c
          then [ui_line ckx cky (ckx + 3) (cky + 3) 0xFFFFFFFF, ui_line (ckx + 3) (cky + 3) (ckx + 7) (cky - 2) 0xFFFFFFFF]
          else []))"

definition cb_draw_rows :: "combo \<Rightarrow> int \<Rightarrow> draw_call list option" where
  "cb_draw_rows c dropW =
     map_option concat (those (map (\<lambda>i. map_option (cb_draw_row c dropW (int i)) (item_at c (cb_scrollOffset c + int i)))
       (filter (\<lambda>i. cb_scrollOffset c + int i < cb_count c) [0..<nat (visibleCount c)])))"

definition cb_draw_scrollbar :: "combo \<Rightarrow> draw_call list" where
  "cb_draw_scrollbar c =
     (let dropY = cb_y c + cb_h c; dh = dropdownH c; sx = cb_x c + cb_w c - SCROLL_W;
          ax = sx + 3; ay = dropY + 10; downY = dropY + dh - ARROW_BTN_H; ay' = downY + 10;
          maxOff = cb_count c - cb_maxVisible c;
          thumbAreaH = dh - 2 * ARROW_BTN_H;
          thumbRatio = f32 (f32 (of_int (cb_maxVisible c)) / f32 (of_int (cb_count c)));
          thumbH = to_int (f32 (f32 (of_int thumbAreaH) * thumbRatio));
          thumbH = (if thumbH < 8 then 8 else thumbH);
          scrollRatio = f32 (f32 (of_int (cb_scrollOffset c)) / f32 (of_int maxOff));
          thumbY = dropY + ARROW_BTN_H + to_int (f32 (scrollRatio * f32 (of_int (thumbAreaH - thumbH))))
      in [ui_fill sx dropY SCROLL_W dh 0xFF181818, ui_rect sx dropY SCROLL_W dh 0xFFFFFFFF,
          ui_fill sx dropY SCROLL_W ARROW_BTN_H (if cb_scrollOffset c > 0 then 0xFF00FF00 else 0xFF181818),
          ui_line ax (ay + 4) (ax + 3) ay 0xFFFFFFFF, ui_line (ax + 3) ay (ax + 6) (ay + 4) 0xFFFFFFFF,
          ui_fill sx downY SCROLL_W ARROW_BTN_H (if cb_scrollOffset c < maxOff then 0xFF00FF00 else 0xFF181818),
          ui_line ax ay' (ax + 3) (ay' + 4) 0xFFFFFFFF, ui_line (ax + 3) (ay' + 4) (ax + 6) ay' 0xFFFFFFFF] @
         (if thumbAreaH > 0 \<and> cb_items c \<noteq> [] then [ui_fill (sx + 2) thumbY (SCROLL_W - 4) thumbH 0xFFFFFFFF] else []))"

definition cb_draw_header :: "combo \<Rightarrow> draw_call list option" where
  "cb_draw_header c =
     (let bg = (if cb_isOpen c then 0xFF181818 else 0xFF212021);
          arrowX = cb_x c + cb_w c - 18; arrowY = cb_y c + (cb_h c - 8) sdiv 2;
          box = [ui_fill (cb_x c) (cb_y c) (cb_w c) (cb_h c) bg,
            ui_rect (cb_x c) (cb_y c) (cb_w c) (cb_h c) (if cb_isOpen c then 0xFF00FF00 else 0xFFFFFFFF)] @ font_apply (cb_font c);
          arrow = (if cb_isOpen c
            then [ui_line arrowX (arrowY + 5) (arrowX + 4) arrowY 0xFF00FF00, ui_line (arrowX + 4) arrowY (arrowX + 8) (arrowY + 5) 0xFF00FF00]
            else [ui_line arrowX arrowY (arrowX + 4) (arrowY + 5) 0xFF00FF00, ui_line (arrowX + 4) (arrowY + 5) (arrowX + 8) arrowY 0xFF00FF00])
      in if cb_items c = [] then Some (box @ arrow)
         else map_option (\<lambda>item. box @ ui_text (cb_x c + 8) (cb_y c + (cb_h c - charH (cb_font c)) sdiv 2) 0xFFFFFFFF bg item @ arrow)
           (item_at c (cb_selectedIndex c)))"

definition cb_draw :: "combo \<Rightarrow> draw_call list option" where
  "cb_draw c =
     (let dropY = cb_y c + cb_h c; dropW = (if needsScroll c then cb_w c - SCROLL_W else cb_w c) in
      if \<not> cb_visible c then Some []
      else if \<not> cb_isOpen c then cb_draw_header c
      else Option.bind (cb_draw_header c) (\<lambda>header. map_option (\<lambda>rows.
        header @ [ui_fill (cb_x c) dropY dropW (dropdownH c) 0xFF212021, ui_rect (cb_x c) dropY dropW (dropdownH c) 0xFFFFFFFF] @
        rows @ (if needsScroll c then cb_draw_scrollbar c else [])) (cb_draw_rows c dropW)))"

section \<open>The keyboard\<close>

record kb_key =
  k_label :: string
  k_shifted :: string
  k_action :: string
  k_x :: int
  k_y :: int
  k_w :: int
  k_h :: int
  k_isSpecial :: bool

text \<open>Whose lambda \<open>onChange\<close> holds: a text edit's or a spin box's, by its place among its kind.\<close>

datatype kb_target = ToEdit nat | ToSpin nat

record keyboard =
  kb_x :: int
  kb_y :: int
  kb_w :: int
  kb_h :: int
  kb_visible :: bool
  kb_shiftActive :: bool
  kb_capsLock :: bool
  kb_numericMode :: bool
  kb_internalBuf :: string
  kb_maxLen :: nat
  kb_onChange :: "kb_target option"
  kb_font :: ui_font
  kb_pressedKeyIdx :: int
  kb_keys :: "kb_key list"

text \<open>A key in column \<open>col\<close> (in pixels from the left) and row \<open>r\<close>, \<open>w\<close> wide; the padding is 2 pixels.\<close>

definition kb_key_at :: "keyboard \<Rightarrow> int \<Rightarrow> int \<Rightarrow> int \<Rightarrow> string \<Rightarrow> string \<Rightarrow> string \<Rightarrow> bool \<Rightarrow> kb_key" where
  "kb_key_at k col r w label shifted action special =
     (let kh = kb_h k sdiv 5 in
      \<lparr>k_label = label, k_shifted = shifted, k_action = action, k_x = kb_x k + col + 2, k_y = kb_y k + r * kh + 2,
       k_w = w - 2 * 2, k_h = kh - 2 * 2, k_isSpecial = special\<rparr>)"

definition kb_row :: "keyboard \<Rightarrow> int \<Rightarrow> int \<Rightarrow> string \<Rightarrow> string \<Rightarrow> kb_key list" where
  "kb_row k off r lower upper =
     (let kw = kb_w k sdiv 11 in
      map (\<lambda>i. kb_key_at k (off + int i * kw) r kw [lower ! i] [upper ! i] '''' False) [0..<length lower])"

definition buildQWERTY :: "keyboard \<Rightarrow> kb_key list" where
  "buildQWERTY k =
     (let kw = kb_w k sdiv 11; off2 = kw sdiv 2 in
      kb_row k 0 0 ''1234567890'' ''!@#$%^&*()'' @
      [kb_key_at k (10 * kw) 0 kw ''<'' '''' ''BKSP'' True] @
      kb_row k (kw sdiv 4) 1 ''qwertyuiop'' ''QWERTYUIOP'' @
      kb_row k off2 2 ''asdfghjkl'' ''ASDFGHJKL'' @
      [kb_key_at k (off2 + 9 * kw) 2 (kw + kw sdiv 2) ''OK'' '''' ''ENTER'' True,
       kb_key_at k 0 3 kw ''SH'' '''' ''SHIFT'' True] @
      kb_row k kw 3 ''zxcvbnm'' ''ZXCVBNM'' @
      [kb_key_at k (kw + 7 * kw) 3 kw ''.'' ''>'' '''' False,
       kb_key_at k (kw + 8 * kw) 3 kw ''-'' ''_'' '''' False,
       kb_key_at k 0 4 (kw * 2) ''123'' '''' ''NUM'' True,
       kb_key_at k (2 * kw) 4 (kw * 6) '' '' '''' ''SPACE'' False,
       kb_key_at k (8 * kw) 4 kw ''@'' '''' '''' False,
       kb_key_at k (9 * kw) 4 (kw * 2) ''X'' '''' ''CLOSE'' True])"

definition numpad_keys :: "(string \<times> string) list" where
  "numpad_keys = [(''7'', ''''), (''8'', ''''), (''9'', ''''), (''<'', ''BKSP''), (''4'', ''''), (''5'', ''''), (''6'', ''''),
     (''-'', ''''), (''1'', ''''), (''2'', ''''), (''3'', ''''), (''.'', ''''), (''X'', ''CLOSE''), (''0'', ''''), (''00'', ''''),
     (''OK'', ''ENTER'')]"

definition buildNumpad :: "keyboard \<Rightarrow> kb_key list" where
  "buildNumpad k =
     (let kw = kb_w k sdiv 4; kh = kb_h k sdiv 4 in
      map (\<lambda>i. let (label, action) = numpad_keys ! i; r = int (i div 4); c = int (i mod 4) in
        \<lparr>k_label = label, k_shifted = '''', k_action = action, k_x = kb_x k + c * kw + 3, k_y = kb_y k + r * kh + 3,
         k_w = kw - 3 * 2, k_h = kh - 3 * 2, k_isSpecial = (action \<noteq> '''')\<rparr>) [0..<4 * 4])"

definition rebuildLayout :: "keyboard \<Rightarrow> keyboard" where
  "rebuildLayout k = k\<lparr>kb_keys := (if kb_numericMode k then buildNumpad k else buildQWERTY k)\<rparr>"

definition keyboard_new :: "int \<Rightarrow> int \<Rightarrow> int \<Rightarrow> int \<Rightarrow> ui_font \<Rightarrow> keyboard" where
  "keyboard_new x y w h font =
     rebuildLayout \<lparr>kb_x = x, kb_y = y, kb_w = w, kb_h = h, kb_visible = False, kb_shiftActive = False, kb_capsLock = False,
       kb_numericMode = False, kb_internalBuf = '''', kb_maxLen = 64, kb_onChange = None, kb_font = font,
       kb_pressedKeyIdx = -1, kb_keys = []\<rparr>"

fun first_key :: "int \<Rightarrow> int \<Rightarrow> int \<Rightarrow> kb_key list \<Rightarrow> int" where
  "first_key i tx ty [] = -1"
| "first_key i tx ty (k # ks) = (if in_box (k_x k) (k_y k) (k_w k) (k_h k) tx ty then i else first_key (i + 1) tx ty ks)"

definition hitTestKey :: "keyboard \<Rightarrow> int \<Rightarrow> int \<Rightarrow> int" where
  "hitTestKey k tx ty = first_key 0 tx ty (kb_keys k)"

text \<open>\<open>fireChange\<close>: whom the text goes to, and the text.\<close>

definition fireChange :: "keyboard \<Rightarrow> (kb_target \<times> string) option" where
  "fireChange k = map_option (\<lambda>t. (t, kb_internalBuf k)) (kb_onChange k)"

definition kb_hide :: "keyboard \<Rightarrow> keyboard" where
  "kb_hide k = k\<lparr>kb_onChange := None, kb_visible := False, kb_pressedKeyIdx := -1\<rparr>"

definition kb_upper :: "keyboard \<Rightarrow> bool" where "kb_upper k \<longleftrightarrow> kb_shiftActive k \<noteq> kb_capsLock k"

definition typed :: "kb_key \<Rightarrow> keyboard \<Rightarrow> string" where
  "typed key k = (if kb_upper k \<and> k_shifted key \<noteq> '''' then k_shifted key else k_label key)"

definition processKey :: "kb_key \<Rightarrow> keyboard \<Rightarrow> (kb_target \<times> string) option \<times> keyboard" where
  "processKey key k =
     (if k_action key = '''' then
        let k' = (if length (kb_internalBuf k) < kb_maxLen k then k\<lparr>kb_internalBuf := kb_internalBuf k @ typed key k\<rparr> else k);
            k' = k'\<lparr>kb_shiftActive := False\<rparr>
        in (fireChange k', k')
      else if k_action key = ''BKSP'' then
        let k = k\<lparr>kb_internalBuf := butlast (kb_internalBuf k)\<rparr> in (fireChange k, k)
      else if k_action key = ''ENTER'' then (fireChange k, kb_hide k)
      else if k_action key = ''CLOSE'' then (None, kb_hide k)
      else if k_action key = ''SHIFT'' then (None, k\<lparr>kb_shiftActive := \<not> kb_shiftActive k\<rparr>)
      else if k_action key = ''CAPS'' then (None, k\<lparr>kb_capsLock := \<not> kb_capsLock k\<rparr>)
      else if k_action key = ''NUM'' then (None, rebuildLayout (k\<lparr>kb_numericMode := \<not> kb_numericMode k\<rparr>))
      else if k_action key = ''SPACE'' then
        let k = (if length (kb_internalBuf k) < kb_maxLen k then k\<lparr>kb_internalBuf := kb_internalBuf k @ '' ''\<rparr> else k) in
        (fireChange k, k)
      else (None, k))"

definition showWithText :: "string \<Rightarrow> bool \<Rightarrow> keyboard \<Rightarrow> keyboard" where
  "showWithText initialText numericOnly k =
     rebuildLayout (k\<lparr>kb_internalBuf := initialText, kb_numericMode := numericOnly, kb_visible := True, kb_shiftActive := False\<rparr>)"

text \<open>The first result is whether the event is consumed.\<close>

definition kb_handleEvent :: "touch_event_data \<Rightarrow> keyboard \<Rightarrow> bool \<times> (kb_target \<times> string) option \<times> keyboard" where
  "kb_handleEvent e k =
     (if \<not> kb_visible k then (False, None, k)
      else case te_event e of
        PRESS \<Rightarrow>
          let idx = hitTestKey k (ev_x e) (ev_y e); k = k\<lparr>kb_pressedKeyIdx := idx\<rparr> in
          if idx \<ge> 0 then (True, processKey (kb_keys k ! nat idx) k) else (True, None, k)
      | RELEASE \<Rightarrow> (True, None, k\<lparr>kb_pressedKeyIdx := -1\<rparr>)
      | MOVE \<Rightarrow> (True, None, k)
      | HOLD \<Rightarrow> (True, None, k))"

definition kb_draw_key :: "keyboard \<Rightarrow> nat \<Rightarrow> draw_call list" where
  "kb_draw_key k i =
     (let key = kb_keys k ! i;
          lit = (k_action key = ''SHIFT'' \<and> kb_shiftActive k \<or> k_action key = ''CAPS'' \<and> kb_capsLock k \<or>
                 k_action key = ''NUM'' \<and> kb_numericMode k);
          bg = (if lit \<or> int i = kb_pressedKeyIdx k then 0xFF00FF00 else if k_isSpecial key then 0xFF181818 else 0xFF292C29);
          lbl = (if k_action key \<noteq> '''' then k_label key else typed key k)
      in [ui_fill (k_x key) (k_y key) (k_w key) (k_h key) bg, ui_rect (k_x key) (k_y key) (k_w key) (k_h key) 0xFF8C8E8C] @
         ui_text (k_x key + (k_w key - textWidth (kb_font k) (length lbl)) sdiv 2)
           (k_y key + (k_h key - charH (kb_font k)) sdiv 2) 0xFFFFFFFF bg lbl)"

definition kb_draw :: "keyboard \<Rightarrow> draw_call list" where
  "kb_draw k =
     (if \<not> kb_visible k then []
      else [ui_fill (kb_x k) (kb_y k) (kb_w k) (kb_h k) 0xFF101010, ui_rect (kb_x k) (kb_y k) (kb_w k) (kb_h k) 0xFF8C8E8C] @
        font_apply (kb_font k) @ concat (map (kb_draw_key k) [0..<length (kb_keys k)]))"

section \<open>Dialogs\<close>

datatype dialog_mode = Notice | YesNo | YesNoCancel

datatype dialog_state = NotAsked | Asking | Asked

datatype dialog_icon = IconNone | IconInfo | IconWarning | IconError | IconQuestion

text \<open>\<^verbatim>\<open>namespace DialogResult\<close>\<close>

abbreviation (input) dr_Cancel :: int where "dr_Cancel \<equiv> 0"
abbreviation (input) dr_No :: int where "dr_No \<equiv> 1"
abbreviation (input) dr_Yes :: int where "dr_Yes \<equiv> 2"

fun dialogIconTitleBarColor :: "dialog_icon \<Rightarrow> u32" where
  "dialogIconTitleBarColor IconInfo = 0xFF1565C0"
| "dialogIconTitleBarColor IconWarning = 0xFF8A6000"
| "dialogIconTitleBarColor IconError = 0xFF7A1A1A"
| "dialogIconTitleBarColor IconQuestion = 0xFF005F61"
| "dialogIconTitleBarColor IconNone = 0xFF2A2A2A"

record dialog =
  dg_boxX :: int
  dg_boxY :: int
  dg_boxW :: int
  dg_boxH :: int
  dg_title :: string
  dg_description :: string
  dg_mode :: dialog_mode
  dg_icon :: dialog_icon
  dg_state :: dialog_state
  dg_labelBtn0 :: string
  dg_labelBtn1 :: string
  dg_labelBtn2 :: string
  dg_buttonsHidden :: bool
  dg_colTitleBar :: u32
  dg_pressedBtn :: int

definition dialog_new :: "int \<Rightarrow> int \<Rightarrow> string \<Rightarrow> string \<Rightarrow> dialog_mode \<Rightarrow> dialog_icon \<Rightarrow> dialog" where
  "dialog_new screenW screenH title description mode icon =
     (let boxW = (if screenW > 800 then 560 else screenW * 7 sdiv 10); boxH = 280 in
      \<lparr>dg_boxX = (screenW - boxW) sdiv 2, dg_boxY = (screenH - boxH) sdiv 2, dg_boxW = boxW, dg_boxH = boxH,
       dg_title = title, dg_description = description, dg_mode = mode, dg_icon = icon, dg_state = NotAsked,
       dg_labelBtn0 = '''', dg_labelBtn1 = '''', dg_labelBtn2 = '''', dg_buttonsHidden = False,
       dg_colTitleBar = dialogIconTitleBarColor icon, dg_pressedBtn = -1\<rparr>)"

record btn_layout =
  bl_x :: int
  bl_y :: int
  bl_w :: int
  bl_h :: int
  bl_label :: string
  bl_result :: int

definition dg_buildButtons :: "dialog \<Rightarrow> btn_layout list" where
  "dg_buildButtons d =
     (let lbl2 = (if dg_labelBtn2 d \<noteq> '''' then dg_labelBtn2 d else if dg_mode d = Notice then ''OK'' else ''Yes'');
          lbl1 = (if dg_labelBtn1 d \<noteq> '''' then dg_labelBtn1 d else ''No'');
          lbl0 = (if dg_labelBtn0 d \<noteq> '''' then dg_labelBtn0 d else ''Cancel'');
          totalBtns = (case dg_mode d of Notice \<Rightarrow> 1 | YesNo \<Rightarrow> 2 | YesNoCancel \<Rightarrow> 3);
          btnW = 110; gap = 12;
          totalW = totalBtns * btnW + (totalBtns - 1) * gap;
          startX = dg_boxX d + (dg_boxW d - totalW) sdiv 2;
          btnY = dg_boxY d + dg_boxH d - 40 - 12;
          btn = (\<lambda>i label result. \<lparr>bl_x = startX + (btnW + gap) * i, bl_y = btnY, bl_w = btnW, bl_h = 40,
                   bl_label = label, bl_result = result\<rparr>)
      in case dg_mode d of
           Notice \<Rightarrow> [btn 0 lbl2 dr_Yes]
         | YesNo \<Rightarrow> [btn 0 lbl1 dr_No, btn 1 lbl2 dr_Yes]
         | YesNoCancel \<Rightarrow> [btn 0 lbl0 dr_Cancel, btn 1 lbl1 dr_No, btn 2 lbl2 dr_Yes])"

definition dg_hitTestBtn :: "dialog \<Rightarrow> int \<Rightarrow> int \<Rightarrow> int" where
  "dg_hitTestBtn d tx ty =
     (if dg_buttonsHidden d then -1
      else case find (\<lambda>b. in_box (bl_x b) (bl_y b) (bl_w b) (bl_h b) tx ty) (dg_buildButtons d) of
        None \<Rightarrow> -1 | Some b \<Rightarrow> bl_result b)"

definition setButtonLabels :: "string \<Rightarrow> string \<Rightarrow> string \<Rightarrow> dialog \<Rightarrow> dialog" where
  "setButtonLabels btn2 btn1 btn0 d = d\<lparr>dg_labelBtn2 := btn2, dg_labelBtn1 := btn1, dg_labelBtn0 := btn0\<rparr>"

definition dg_visible :: "dialog \<Rightarrow> bool" where "dg_visible d \<longleftrightarrow> dg_state d = Asking"

definition dg_fire :: "dialog \<Rightarrow> dialog" where "dg_fire d = d\<lparr>dg_state := Asking, dg_pressedBtn := -1\<rparr>"

text \<open>The first result is the argument of \<open>onResult\<close>.\<close>

definition dg_dismiss :: "int \<Rightarrow> dialog \<Rightarrow> int option \<times> dialog" where
  "dg_dismiss result d =
     (if dg_state d \<noteq> Asking then (None, d) else (Some result, d\<lparr>dg_state := Asked, dg_pressedBtn := -1\<rparr>))"

definition dg_handleEvent :: "touch_event_data \<Rightarrow> dialog \<Rightarrow> int option \<times> dialog" where
  "dg_handleEvent e d =
     (let idx = dg_hitTestBtn d (ev_x e) (ev_y e) in
      if dg_state d \<noteq> Asking then (None, d)
      else case te_event e of
        PRESS \<Rightarrow> (None, d\<lparr>dg_pressedBtn := idx\<rparr>)
      | RELEASE \<Rightarrow>
          if idx \<ge> 0 then (Some idx, d\<lparr>dg_pressedBtn := -1, dg_state := Asked\<rparr>) else (None, d\<lparr>dg_pressedBtn := -1\<rparr>)
      | MOVE \<Rightarrow> (None, d)
      | HOLD \<Rightarrow> (None, d))"

subsection \<open>Drawing\<close>

text \<open>The description's lines, and each line broken between words where it gets wider than \<open>descW\<close>.\<close>

primrec raw_lines :: "string \<Rightarrow> string \<Rightarrow> string list" where
  "raw_lines [] cur = [cur]"
| "raw_lines (ch # s) cur = (if ch = CHR 0x0A then cur # raw_lines s [] else raw_lines s (cur @ [ch]))"

primrec wrap_words :: "string \<Rightarrow> ui_font \<Rightarrow> int \<Rightarrow> string \<Rightarrow> string \<Rightarrow> string list" where
  "wrap_words [] f descW word line = (if line \<noteq> [] then [line] else [])"
| "wrap_words (ch # s) f descW word line =
     (if ch = CHR '' '' then
        if word = [] then wrap_words s f descW word line
        else let test = (if line = [] then word else line @ '' '' @ word) in
          if textWidth f (length test) > descW \<and> line \<noteq> [] then line # wrap_words s f descW [] word
          else wrap_words s f descW [] test
      else wrap_words s f descW (word @ [ch]) line)"

definition is_spacer :: "string \<Rightarrow> bool" where "is_spacer raw \<longleftrightarrow> take 3 raw = ''---''"

definition dg_lines :: "ui_font \<Rightarrow> int \<Rightarrow> string \<Rightarrow> string list" where
  "dg_lines f descW description =
     concat (map (\<lambda>raw. if is_spacer raw then [''---''] else wrap_words (raw @ '' '') f descW [] []) (raw_lines description []))"

definition tri :: "(int \<Rightarrow> int \<Rightarrow> int \<Rightarrow> int \<Rightarrow> int \<Rightarrow> int \<Rightarrow> draw_call) \<Rightarrow> int \<Rightarrow> int \<Rightarrow> int \<Rightarrow> int \<Rightarrow> draw_call" where
  "tri shape ix iy hs i = shape ix (iy - hs + i) (ix - hs + i) (iy + hs - i) (ix + hs - i) (iy + hs - i)"

definition dg_drawIcon :: "dialog_icon \<Rightarrow> int \<Rightarrow> int \<Rightarrow> int \<Rightarrow> draw_call list" where
  "dg_drawIcon icon ix iy n =
     (case icon of
        IconInfo \<Rightarrow>
          [ui_disc ix iy (n sdiv 2) 0xFF1565C0, DrawCircle (i16 ix) (i16 iy) (i16 (n sdiv 2)) 0xFF90CAF9,
           ui_fill (ix - 2) (iy - n sdiv 5) 4 (n sdiv 2 + 2) 0xFFFFFFFF, ui_fill (ix - 2) (iy - n sdiv 2 + 4) 4 4 0xFFFFFFFF]
      | IconWarning \<Rightarrow>
          let hs = n sdiv 2 in
          map (tri (\<lambda>x0 y0 x1 y1 x2 y2. DrawTriangle (i16 x0) (i16 y0) (i16 x1) (i16 y1) (i16 x2) (i16 y2) 0xFFFFD600) ix iy hs) [0..3] @
          [tri (\<lambda>x0 y0 x1 y1 x2 y2. FillTriangle (i16 x0) (i16 y0) (i16 x1) (i16 y1) (i16 x2) (i16 y2) 0xFFFBC02D) ix iy hs 4,
           ui_fill (ix - 2) (iy - hs sdiv 2 + 6) 4 (hs - 2) 0xFF212121, ui_fill (ix - 3) (iy + hs - 12) 6 6 0xFF212121]
      | IconError \<Rightarrow>
          let r = n sdiv 4 in
          [ui_disc ix iy (n sdiv 2) 0xFFC62828, DrawCircle (i16 ix) (i16 iy) (i16 (n sdiv 2)) 0xFFEF9A9A,
           ui_line (ix - r) (iy - r) (ix + r) (iy + r) 0xFFFFFFFF, ui_line (ix - r + 1) (iy - r) (ix + r + 1) (iy + r) 0xFFFFFFFF,
           ui_line (ix + r) (iy - r) (ix - r) (iy + r) 0xFFFFFFFF, ui_line (ix + r + 1) (iy - r) (ix - r + 1) (iy + r) 0xFFFFFFFF]
      | IconQuestion \<Rightarrow>
          [ui_disc ix iy (n sdiv 2) 0xFF00696B, DrawCircle (i16 ix) (i16 iy) (i16 (n sdiv 2)) 0xFF80CBCB,
           ui_fill (ix - 2) (iy - 2) 4 (n sdiv 4) 0xFFFFFFFF, ui_fill (ix - 2) (iy + n sdiv 4) 4 4 0xFFFFFFFF]
      | IconNone \<Rightarrow> [])"

definition dg_draw_btn :: "dialog \<Rightarrow> btn_layout \<Rightarrow> draw_call list" where
  "dg_draw_btn d b =
     (let isPressed = (dg_pressedBtn d = bl_result b);
          (bg, bdr) = (if bl_result b = dr_Yes then (if isPressed then 0xFF2E8B2E else 0xFF1A4A1A, 0xFF4CAF50)
                       else if bl_result b = dr_No then (if isPressed then 0xFF505050 else 0xFF2A2A2A, 0xFF6A6A6A)
                       else (if isPressed then 0xFF7A2020 else 0xFF3A1A1A, 0xFF8B3A3A))
      in [ui_fill (bl_x b) (bl_y b) (bl_w b) (bl_h b) bg, ui_rect (bl_x b) (bl_y b) (bl_w b) (bl_h b) bdr] @
         (if isPressed then [ui_rect (bl_x b + 1) (bl_y b + 1) (bl_w b - 2) (bl_h b - 2) bdr] else []) @
         font_apply font_medium @
         ui_text (bl_x b + (bl_w b - textWidth font_medium (length (bl_label b))) sdiv 2)
           (bl_y b + (bl_h b - charH font_medium) sdiv 2) 0xFFFFFFFF bg (bl_label b))"

definition dg_draw_box :: "dialog \<Rightarrow> draw_call list" where
  "dg_draw_box d =
     (let titleH = charH font_large + 20 in
      [FillScreen 0x80000000,
       ui_fill (dg_boxX d + 4) (dg_boxY d + 4) (dg_boxW d) (dg_boxH d) 0x60000000,
       ui_fill (dg_boxX d) (dg_boxY d) (dg_boxW d) (dg_boxH d) 0xFF1E1E1E,
       ui_rect (dg_boxX d) (dg_boxY d) (dg_boxW d) (dg_boxH d) 0xFF5A5A5A,
       ui_rect (dg_boxX d + 1) (dg_boxY d + 1) (dg_boxW d - 2) (dg_boxH d - 2) 0xFF5A5A5A,
       ui_fill (dg_boxX d + 2) (dg_boxY d + 2) (dg_boxW d - 4) titleH (dg_colTitleBar d)] @
      font_apply font_large @
      ui_text (dg_boxX d + 16) (dg_boxY d + (titleH - charH font_large) sdiv 2) 0xFFFFFFFF (dg_colTitleBar d) (dg_title d))"

definition dg_draw_line :: "dialog \<Rightarrow> int \<Rightarrow> int \<Rightarrow> nat \<Rightarrow> string \<Rightarrow> draw_call list" where
  "dg_draw_line d descX descY li line =
     (let lineH = charH font_medium + 4; ly = descY + int li * lineH; rw = dg_boxX d + dg_boxW d - 16 - descX in
      if line = ''---''
      then [ui_line descX (ly + lineH sdiv 2) (descX + rw) (ly + lineH sdiv 2) 0xFF3A3A3A,
            ui_line descX (ly + lineH sdiv 2 + 1) (descX + rw) (ly + lineH sdiv 2 + 1) 0xFF3A3A3A]
      else ui_text descX ly 0xFFCCCCCC 0xFF1E1E1E line)"

definition dg_draw :: "dialog \<Rightarrow> draw_call list" where
  "dg_draw d =
     (let titleH = charH font_large + 20;
          contentY = dg_boxY d + titleH + 16;
          iconX = dg_boxX d + 28 + 40 sdiv 2; iconY = contentY + 40 sdiv 2;
          descX = (if dg_icon d \<noteq> IconNone then iconX + 40 sdiv 2 + 16 else dg_boxX d + 16);
          descY = contentY + 8;
          descW = dg_boxX d + dg_boxW d - descX - 16;
          lines = dg_lines font_medium descW (dg_description d);
          sepY = dg_boxY d + dg_boxH d - 60
      in if dg_state d \<noteq> Asking then []
         else dg_draw_box d @ dg_drawIcon (dg_icon d) iconX iconY 40 @ font_apply font_medium @
           concat (map (\<lambda>li. dg_draw_line d descX descY li (lines ! li)) [0..<length lines]) @
           (if dg_buttonsHidden d then []
            else [ui_line (dg_boxX d + 8) sepY (dg_boxX d + dg_boxW d - 8) sepY 0xFF3A3A3A] @
              concat (map (dg_draw_btn d) (dg_buildButtons d))))"

end
