(* ===== verification/UiValues.thy ===== *)
theory UiValues
  imports UiPanels
begin

text \<open>
  The widgets that hold a value: sliders (slider_widget.h/.cpp), dials (dial_widget.h/.cpp), text edits (textedit_widget.h/.cpp)
  and spin boxes (spinbox_widget.h/.cpp). Text edits and spin boxes share the keyboard they are handed, as the
  manager hands it to every one of them.
\<close>

section \<open>Numbers as text\<close>

definition digit_char :: "nat \<Rightarrow> char" where "digit_char n = char_of (48 + n)"

fun show_nat :: "nat \<Rightarrow> string" where
  "show_nat n = (if n < 10 then [digit_char n] else show_nat (n div 10) @ [digit_char (n mod 10)])"

declare show_nat.simps [simp del]

text \<open>\<open>%d\<close> and \<open>%.*f\<close>.\<close>

definition show_int :: "int \<Rightarrow> string" where
  "show_int i = (if i < 0 then ''-'' else '''') @ show_nat (nat \<bar>i\<bar>)"

definition show_fixed :: "nat \<Rightarrow> rat \<Rightarrow> string" where
  "show_fixed d q =
     (let n = nat (round_even (\<bar>q\<bar> * 10 ^ d)); frac = show_nat (10 ^ d + n mod 10 ^ d) in
      (if q < 0 then ''-'' else '''') @ show_nat (n div 10 ^ d) @ (if d = 0 then '''' else ''.'' @ tl frac))"

definition is_digit :: "char \<Rightarrow> bool" where "is_digit c \<longleftrightarrow> c \<in> set ''0123456789''"

definition digits_value :: "string \<Rightarrow> nat" where
  "digits_value s = foldl (\<lambda>n c. 10 * n + (of_char c - 48)) 0 s"

text \<open>\<^verbatim>\<open>std::stof\<close> on the characters of the numeric keypad (digits, sign and point); \<open>None\<close> where it throws.\<close>

definition stof :: "string \<Rightarrow> rat option" where
  "stof s =
     (let (neg, s) = (case s of CHR ''-'' # s' \<Rightarrow> (True, s') | _ \<Rightarrow> (False, s));
          whole = takeWhile is_digit s;
          frac = (case dropWhile is_digit s of CHR ''.'' # s' \<Rightarrow> takeWhile is_digit s' | _ \<Rightarrow> [])
      in if whole = [] \<and> frac = [] then None
         else let v = of_nat (digits_value (whole @ frac)) / 10 ^ length frac in Some (f32 (if neg then - v else v)))"

section \<open>Sliders\<close>

datatype slider_orientation = HORIZONTAL | VERTICAL

record slider =
  sl_x :: int
  sl_y :: int
  sl_w :: int
  sl_h :: int
  sl_orientation :: slider_orientation
  sl_value :: rat
  sl_minVal :: rat
  sl_maxVal :: rat
  sl_dragging :: bool
  sl_label :: string
  sl_font :: ui_font
  sl_visible :: bool

definition slider_new :: "int \<Rightarrow> int \<Rightarrow> int \<Rightarrow> int \<Rightarrow> slider_orientation \<Rightarrow> string \<Rightarrow> rat \<Rightarrow> rat \<Rightarrow> ui_font \<Rightarrow> slider" where
  "slider_new x y w h ori label mn mx font =
     \<lparr>sl_x = x, sl_y = y, sl_w = w, sl_h = h, sl_orientation = ori, sl_value = 0, sl_minVal = mn, sl_maxVal = mx,
      sl_dragging = False, sl_label = label, sl_font = font, sl_visible = True\<rparr>"

abbreviation (input) THUMB_SIZE :: int where "THUMB_SIZE \<equiv> 20"

definition unit_clamp :: "rat \<Rightarrow> rat" where
  "unit_clamp v = (if v < 0 then 0 else if v > 1 then 1 else v)"

definition sl_pointToValue :: "slider \<Rightarrow> int \<Rightarrow> int \<Rightarrow> rat" where
  "sl_pointToValue s tx ty =
     unit_clamp (case sl_orientation s of
       HORIZONTAL \<Rightarrow>
         let denom = sl_w s - THUMB_SIZE in
         if denom > 0 then f32 (f32 (of_int (tx - sl_x s - THUMB_SIZE sdiv 2)) / f32 (of_int denom)) else 0
     | VERTICAL \<Rightarrow>
         let denom = sl_h s - THUMB_SIZE in
         if denom > 0 then f32 (1 - f32 (f32 (of_int (ty - sl_y s - THUMB_SIZE sdiv 2)) / f32 (of_int denom))) else 0)"

definition sl_mappedValue :: "slider \<Rightarrow> rat" where
  "sl_mappedValue s = f32 (sl_minVal s + f32 (sl_value s * f32 (sl_maxVal s - sl_minVal s)))"

definition sl_setValue :: "rat \<Rightarrow> slider \<Rightarrow> slider" where
  "sl_setValue v s =
     (let denom = f32 (sl_maxVal s - sl_minVal s) in
      s\<lparr>sl_value := unit_clamp (if denom \<noteq> 0 then f32 (f32 (v - sl_minVal s) / denom) else 0)\<rparr>)"

text \<open>The first result is the argument of \<open>onChange\<close>.\<close>

definition sl_follow :: "touch_event_data \<Rightarrow> slider \<Rightarrow> rat option \<times> slider" where
  "sl_follow e s = (let s = s\<lparr>sl_value := sl_pointToValue s (ev_x e) (ev_y e)\<rparr> in (Some (sl_mappedValue s), s))"

definition sl_handleEvent :: "touch_event_data \<Rightarrow> slider \<Rightarrow> rat option \<times> slider" where
  "sl_handleEvent e s =
     (if \<not> sl_visible s then (None, s)
      else case te_event e of
        PRESS \<Rightarrow> if in_box (sl_x s) (sl_y s) (sl_w s) (sl_h s) (ev_x e) (ev_y e) then sl_follow e (s\<lparr>sl_dragging := True\<rparr>) else (None, s)
      | MOVE \<Rightarrow> if sl_dragging s then sl_follow e s else (None, s)
      | HOLD \<Rightarrow> if sl_dragging s then sl_follow e s else (None, s)
      | RELEASE \<Rightarrow> if sl_dragging s then sl_follow e (s\<lparr>sl_dragging := False\<rparr>) else (None, s))"

definition getThumbRect :: "slider \<Rightarrow> int \<times> int \<times> int \<times> int" where
  "getThumbRect s =
     (case sl_orientation s of
        HORIZONTAL \<Rightarrow> (sl_x s + to_int (f32 (sl_value s * f32 (of_int (sl_w s - THUMB_SIZE)))),
          sl_y s + (sl_h s - THUMB_SIZE) sdiv 2, THUMB_SIZE, THUMB_SIZE)
      | VERTICAL \<Rightarrow> (sl_x s + (sl_w s - THUMB_SIZE) sdiv 2,
          sl_y s + to_int (f32 (f32 (1 - sl_value s) * f32 (of_int (sl_h s - THUMB_SIZE)))), THUMB_SIZE, THUMB_SIZE))"

definition sl_draw_fill :: "slider \<Rightarrow> draw_call list" where
  "sl_draw_fill s =
     (case sl_orientation s of
        HORIZONTAL \<Rightarrow>
          let fillW = to_int (f32 (sl_value s * f32 (of_int (sl_w s - THUMB_SIZE)))) + THUMB_SIZE sdiv 2 in
          if fillW > 0 then [ui_fill (sl_x s) (sl_y s + sl_h s sdiv 2 - 3) fillW 6 0xFF00FF00] else []
      | VERTICAL \<Rightarrow>
          let fillH = sl_h s - to_int (f32 (f32 (1 - sl_value s) * f32 (of_int (sl_h s - THUMB_SIZE)))) - THUMB_SIZE sdiv 2 in
          if fillH > 0 then [ui_fill (sl_x s + sl_w s sdiv 2 - 3) (sl_y s + sl_h s - fillH) 6 fillH 0xFF00FF00] else [])"

definition sl_draw :: "slider \<Rightarrow> draw_call list" where
  "sl_draw s =
     (let (tx, ty, tw, th) = getThumbRect s;
          valBuf = take 15 (show_fixed 1 (sl_mappedValue s)); f = sl_font s;
          width = (\<lambda>t. textWidth f (length t))
      in if \<not> sl_visible s then []
         else [ui_fill (sl_x s) (sl_y s) (sl_w s) (sl_h s) 0xFF212021, ui_rect (sl_x s) (sl_y s) (sl_w s) (sl_h s) 0xFF8C8E8C] @
           sl_draw_fill s @
           [ui_fill tx ty tw th (if sl_dragging s then 0xFF00FF00 else 0xFFFFFFFF), ui_rect tx ty tw th 0xFF8C8E8C] @
           font_apply f @ [SetTextColor 0xFFFFFFFF GFX_TRANSPARENT] @
           (case sl_orientation s of
              HORIZONTAL \<Rightarrow>
                [SetCursor (i16 (sl_x s)) (i16 (sl_y s - charH f - 2)), WriteText (cstring (sl_label s))] @
                ui_text (sl_x s + sl_w s - width valBuf) (sl_y s - charH f - 2) 0xFF00FF00 GFX_TRANSPARENT valBuf
            | VERTICAL \<Rightarrow>
                [SetCursor (i16 (sl_x s + (sl_w s - width (sl_label s)) sdiv 2)) (i16 (sl_y s - charH f - 2)),
                 WriteText (cstring (sl_label s))] @
                ui_text (sl_x s + (sl_w s - width valBuf) sdiv 2) (sl_y s + sl_h s + 4) 0xFF00FF00 GFX_TRANSPARENT valBuf))"

section \<open>Dials\<close>

record dial =
  dl_cx :: int
  dl_cy :: int
  dl_radius :: int
  dl_value :: rat
  dl_minVal :: rat
  dl_maxVal :: rat
  dl_dragging :: bool
  dl_label :: string
  dl_font :: ui_font
  dl_visible :: bool

definition dial_new :: "int \<Rightarrow> int \<Rightarrow> int \<Rightarrow> string \<Rightarrow> rat \<Rightarrow> rat \<Rightarrow> ui_font \<Rightarrow> dial" where
  "dial_new cx cy radius label mn mx font =
     \<lparr>dl_cx = cx, dl_cy = cy, dl_radius = radius, dl_value = 0, dl_minVal = mn, dl_maxVal = mx, dl_dragging = False,
      dl_label = label, dl_font = font, dl_visible = True\<rparr>"

abbreviation (input) START_ANGLE :: rat where "START_ANGLE \<equiv> 225"
abbreviation (input) SWEEP :: rat where "SWEEP \<equiv> 270"

text \<open>\<open>atan2f\<close> is the arc tangent of the C library.\<close>

definition dl_pointToValue :: "(rat \<Rightarrow> rat \<Rightarrow> rat) \<Rightarrow> dial \<Rightarrow> int \<Rightarrow> int \<Rightarrow> rat" where
  "dl_pointToValue atan2f d tx ty =
     (let dx = f32 (of_int (tx - dl_cx d)); dy = f32 (of_int (ty - dl_cy d));
          ang = f32 (f32 (atan2f dy dx * 180) / f32 (314159265 / 100000000));
          ang = (if ang < 0 then f32 (ang + 360) else ang);
          rel = f32 (ang - START_ANGLE);
          rel = (if rel < 0 then f32 (rel + 360) else rel);
          rel = (if rel > SWEEP then if f32 (rel - SWEEP) < f32 (360 - rel) then SWEEP else 0 else rel)
      in f32 (rel / SWEEP))"

text \<open>\<open>sqrt(dx*dx + dy*dy) <= radius\<close>; up to a radius of 2048 the roundings cannot change the comparison.\<close>

definition dl_hit :: "dial \<Rightarrow> int \<Rightarrow> int \<Rightarrow> bool" where
  "dl_hit d tx ty \<longleftrightarrow> 0 \<le> dl_radius d \<and>
     (tx - dl_cx d) * (tx - dl_cx d) + (ty - dl_cy d) * (ty - dl_cy d) \<le> dl_radius d * dl_radius d"

definition dl_mappedValue :: "dial \<Rightarrow> rat" where
  "dl_mappedValue d = f32 (dl_minVal d + f32 (dl_value d * f32 (dl_maxVal d - dl_minVal d)))"

definition dl_setValue :: "rat \<Rightarrow> dial \<Rightarrow> dial" where
  "dl_setValue v d =
     (let denom = f32 (dl_maxVal d - dl_minVal d) in
      d\<lparr>dl_value := unit_clamp (if denom \<noteq> 0 then f32 (f32 (v - dl_minVal d) / denom) else 0)\<rparr>)"

definition dl_follow :: "(rat \<Rightarrow> rat \<Rightarrow> rat) \<Rightarrow> touch_event_data \<Rightarrow> dial \<Rightarrow> rat option \<times> dial" where
  "dl_follow atan2f e d =
     (let d = d\<lparr>dl_value := unit_clamp (dl_pointToValue atan2f d (ev_x e) (ev_y e))\<rparr> in (Some (dl_mappedValue d), d))"

definition dl_handleEvent :: "(rat \<Rightarrow> rat \<Rightarrow> rat) \<Rightarrow> touch_event_data \<Rightarrow> dial \<Rightarrow> rat option \<times> dial" where
  "dl_handleEvent atan2f e d =
     (if \<not> dl_visible d then (None, d)
      else case te_event e of
        PRESS \<Rightarrow> if dl_hit d (ev_x e) (ev_y e) then dl_follow atan2f e (d\<lparr>dl_dragging := True\<rparr>) else (None, d)
      | MOVE \<Rightarrow> if dl_dragging d then dl_follow atan2f e d else (None, d)
      | RELEASE \<Rightarrow> (None, d\<lparr>dl_dragging := False\<rparr>)
      | HOLD \<Rightarrow> (None, d))"

text \<open>The drawing, with the cosine and sine of the C library on single precision.\<close>

definition dl_degToRad :: "rat \<Rightarrow> rat" where
  "dl_degToRad d = f32 (f32 (d * f32 (314159265 / 100000000)) / 180)"

definition dl_valueToAngle :: "rat \<Rightarrow> rat" where
  "dl_valueToAngle v = f32 (START_ANGLE + f32 (v * SWEEP))"

definition dl_polar :: "(rat \<Rightarrow> rat) \<Rightarrow> int \<Rightarrow> rat \<Rightarrow> int" where
  "dl_polar trig r a = to_int (f32 (f32 (of_int r) * trig a))"

definition dl_tick :: "int \<Rightarrow> rat" where
  "dl_tick i = f32 (START_ANGLE + f32 (f32 (SWEEP * of_int i) / 60))"

definition dl_draw_tick :: "(rat \<Rightarrow> rat) \<Rightarrow> (rat \<Rightarrow> rat) \<Rightarrow> dial \<Rightarrow> int \<Rightarrow> draw_call list" where
  "dl_draw_tick cosf sinf d i =
     (let r = dl_radius d - 6; a0 = dl_degToRad (dl_tick i); a1 = dl_degToRad (dl_tick (i + 1));
          col = (if dl_tick i \<le> dl_valueToAngle (dl_value d) then 0xFF00FF00 else 0xFF424142);
          x0 = dl_cx d + dl_polar cosf r a0; y0 = dl_cy d + dl_polar sinf r a0;
          x1 = dl_cx d + dl_polar cosf r a1; y1 = dl_cy d + dl_polar sinf r a1
      in [ui_line x0 y0 x1 y1 col, ui_line (x0 + 1) y0 (x1 + 1) y1 col, ui_line x0 (y0 + 1) x1 (y1 + 1) col])"

definition dl_draw :: "(rat \<Rightarrow> rat) \<Rightarrow> (rat \<Rightarrow> rat) \<Rightarrow> dial \<Rightarrow> draw_call list" where
  "dl_draw cosf sinf d =
     (let cx = dl_cx d; cy = dl_cy d; f = dl_font d;
          ang = dl_degToRad (dl_valueToAngle (dl_value d)); r1 = dl_radius d - 14; r2 = dl_radius d - 4;
          px1 = cx + dl_polar cosf r1 ang; py1 = cy + dl_polar sinf r1 ang;
          px2 = cx + dl_polar cosf r2 ang; py2 = cy + dl_polar sinf r2 ang;
          valBuf = take 15 (show_fixed 1 (dl_mappedValue d))
      in if \<not> dl_visible d then []
         else [ui_disc cx cy (dl_radius d) 0xFF212021, DrawCircle (i16 cx) (i16 cy) (i16 (dl_radius d)) 0xFFFFFFFF] @
           concat (map (dl_draw_tick cosf sinf d) [0..59]) @
           [ui_line px1 py1 px2 py2 0xFFFFFFFF, ui_line (px1 + 1) py1 (px2 + 1) py2 0xFFFFFFFF, ui_disc cx cy 4 0xFF424142] @
           font_apply f @
           [SetTextColor 0xFFFFFFFF 0xFF212021,
            SetCursor (i16 (cx - textWidth f (length valBuf) sdiv 2)) (i16 (cy - charH f sdiv 2)), WriteText (cstring valBuf),
            SetCursor (i16 (cx - textWidth f (length (dl_label d)) sdiv 2)) (i16 (cy + dl_radius d + 4)),
            WriteText (cstring (dl_label d))])"

section \<open>Text edits\<close>

record text_edit =
  ed_x :: int
  ed_y :: int
  ed_w :: int
  ed_h :: int
  ed_text :: string
  ed_placeholder :: string
  ed_focused :: bool
  ed_numericOnly :: bool
  ed_maxLen :: nat
  ed_font :: ui_font
  ed_blinkCounter :: nat
  ed_visible :: bool

definition text_edit_new :: "int \<Rightarrow> int \<Rightarrow> int \<Rightarrow> int \<Rightarrow> string \<Rightarrow> bool \<Rightarrow> ui_font \<Rightarrow> text_edit" where
  "text_edit_new x y w h placeholder numericOnly font =
     \<lparr>ed_x = x, ed_y = y, ed_w = w, ed_h = h, ed_text = '''', ed_placeholder = placeholder, ed_focused = False,
      ed_numericOnly = numericOnly, ed_maxLen = 64, ed_font = font, ed_blinkCounter = 0, ed_visible = True\<rparr>"

definition ed_setText :: "string \<Rightarrow> text_edit \<Rightarrow> text_edit" where "ed_setText t d = d\<lparr>ed_text := take (ed_maxLen d) t\<rparr>"

text \<open>\<open>i\<close> is the widget's own place, which its lambda captures as \<open>this\<close>.\<close>

definition ed_focus :: "nat \<Rightarrow> text_edit \<Rightarrow> keyboard \<Rightarrow> text_edit \<times> keyboard" where
  "ed_focus i d k =
     (d\<lparr>ed_focused := True\<rparr>,
      showWithText (ed_text d) (ed_numericOnly d) (k\<lparr>kb_onChange := Some (ToEdit i), kb_maxLen := ed_maxLen d\<rparr>))"

text \<open>The first result is the argument of \<open>onConfirm\<close>.\<close>

definition ed_unfocus :: "text_edit \<Rightarrow> keyboard \<Rightarrow> string option \<times> text_edit \<times> keyboard" where
  "ed_unfocus d k =
     (if \<not> ed_focused d then (None, d, k)
      else (Some (ed_text d), d\<lparr>ed_focused := False\<rparr>, if kb_visible k then kb_hide k else k))"

definition ed_handleEvent :: "nat \<Rightarrow> touch_event_data \<Rightarrow> text_edit \<Rightarrow> keyboard \<Rightarrow> string option \<times> text_edit \<times> keyboard" where
  "ed_handleEvent i e d k =
     (if \<not> ed_visible d \<or> te_event e \<noteq> PRESS then (None, d, k)
      else if in_box (ed_x d) (ed_y d) (ed_w d) (ed_h d) (ev_x e) (ev_y e)
      then if ed_focused d then (None, d, k) else (None, ed_focus i d k)
      else if ed_focused d then ed_unfocus d k else (None, d, k))"

text \<open>\<open>None\<close> where \<open>substr\<close> throws.\<close>

definition ed_display :: "text_edit \<Rightarrow> string option" where
  "ed_display d =
     (let maxChars = (ed_w d - 16 - charW (ed_font d)) sdiv charW (ed_font d); n = length (ed_text d) in
      if int n > maxChars then if maxChars < 0 then None else Some (drop (n - nat maxChars) (ed_text d)) else Some (ed_text d))"

definition ed_draw :: "text_edit \<Rightarrow> (draw_call list \<times> text_edit) option" where
  "ed_draw d =
     (let bg = (if ed_focused d then 0xFF181818 else 0xFF080C08); brd = (if ed_focused d then 0xFF00FF00 else 0xFF8C8E8C);
          ty = ed_y d + (ed_h d - charH (ed_font d)) sdiv 2; tx = ed_x d + 8;
          box = [ui_fill (ed_x d) (ed_y d) (ed_w d) (ed_h d) bg, ui_rect (ed_x d) (ed_y d) (ed_w d) (ed_h d) brd] @
            (if ed_focused d then [ui_rect (ed_x d + 1) (ed_y d + 1) (ed_w d - 2) (ed_h d - 2) brd] else []) @
            font_apply (ed_font d)
      in if \<not> ed_visible d then Some ([], d)
         else if ed_text d = '''' \<and> \<not> ed_focused d
         then Some (box @ ui_text tx ty 0xFF8C8E8C bg (ed_placeholder d), d)
         else map_option (\<lambda>display.
           let d = d\<lparr>ed_blinkCounter := ed_blinkCounter d + 1\<rparr> in
           (box @ ui_text tx ty 0xFFFFFFFF bg display @
            (if ed_focused d \<and> even (ed_blinkCounter d div 30)
             then [ui_fill (tx + textWidth (ed_font d) (length display)) ty 2 (charH (ed_font d)) 0xFF00FF00] else []), d))
           (ed_display d))"

section \<open>Spin boxes\<close>

datatype spin_type = SpinInt | SpinFloat

record spin =
  sp_x :: int
  sp_y :: int
  sp_w :: int
  sp_h :: int
  sp_type :: spin_type
  sp_value :: rat
  sp_minVal :: rat
  sp_maxVal :: rat
  sp_step :: rat
  sp_decimals :: nat
  sp_showButtons :: bool
  sp_font :: ui_font
  sp_editBuf :: string
  sp_editing :: bool
  sp_plusPressed :: bool
  sp_minusPressed :: bool
  sp_visible :: bool

abbreviation (input) SPIN_BTN_W :: int where "SPIN_BTN_W \<equiv> 40"

definition sp_clamp :: "spin \<Rightarrow> spin" where
  "sp_clamp s =
     (let v = (if sp_value s < sp_minVal s then sp_minVal s else sp_value s);
          v = (if v > sp_maxVal s then sp_maxVal s else v)
      in s\<lparr>sp_value := (if sp_type s = SpinInt then std_round v else v)\<rparr>)"

definition spin_new :: "int \<Rightarrow> int \<Rightarrow> int \<Rightarrow> int \<Rightarrow> spin_type \<Rightarrow> rat \<Rightarrow> rat \<Rightarrow> rat \<Rightarrow> rat \<Rightarrow> bool \<Rightarrow> ui_font \<Rightarrow> spin" where
  "spin_new x y w h type mn mx step defaultVal showButtons font =
     sp_clamp \<lparr>sp_x = x, sp_y = y, sp_w = w, sp_h = h, sp_type = type, sp_value = defaultVal, sp_minVal = mn, sp_maxVal = mx,
       sp_step = step, sp_decimals = 2, sp_showButtons = showButtons, sp_font = font, sp_editBuf = '''', sp_editing = False,
       sp_plusPressed = False, sp_minusPressed = False, sp_visible = True\<rparr>"

definition sp_valueX :: "spin \<Rightarrow> int" where
  "sp_valueX s = (if sp_showButtons s then sp_x s + SPIN_BTN_W else sp_x s)"

definition sp_valueW :: "spin \<Rightarrow> int" where
  "sp_valueW s = (if sp_showButtons s then sp_w s - SPIN_BTN_W * 2 else sp_w s)"

definition sp_plusBtnX :: "spin \<Rightarrow> int" where "sp_plusBtnX s = sp_x s + sp_w s - SPIN_BTN_W"

definition hitValueBox :: "spin \<Rightarrow> int \<Rightarrow> int \<Rightarrow> bool" where
  "hitValueBox s tx ty \<longleftrightarrow> in_box (sp_valueX s) (sp_y s) (sp_valueW s) (sp_h s) tx ty"

definition hitPlus :: "spin \<Rightarrow> int \<Rightarrow> int \<Rightarrow> bool" where
  "hitPlus s tx ty \<longleftrightarrow> sp_showButtons s \<and> in_box (sp_plusBtnX s) (sp_y s) SPIN_BTN_W (sp_h s) tx ty"

definition hitMinus :: "spin \<Rightarrow> int \<Rightarrow> int \<Rightarrow> bool" where
  "hitMinus s tx ty \<longleftrightarrow> sp_showButtons s \<and> in_box (sp_x s) (sp_y s) SPIN_BTN_W (sp_h s) tx ty"

definition sp_increment :: "spin \<Rightarrow> spin" where
  "sp_increment s = sp_clamp (s\<lparr>sp_value := f32 (sp_value s + sp_step s)\<rparr>)"

definition sp_decrement :: "spin \<Rightarrow> spin" where
  "sp_decrement s = sp_clamp (s\<lparr>sp_value := f32 (sp_value s - sp_step s)\<rparr>)"

definition sp_setValue :: "rat \<Rightarrow> spin \<Rightarrow> spin" where "sp_setValue v s = sp_clamp (s\<lparr>sp_value := v\<rparr>)"

definition sp_setRange :: "rat \<Rightarrow> rat \<Rightarrow> spin \<Rightarrow> spin" where
  "sp_setRange mn mx s = sp_clamp (s\<lparr>sp_minVal := mn, sp_maxVal := mx\<rparr>)"

definition sp_getIntValue :: "spin \<Rightarrow> int" where "sp_getIntValue s = to_int (std_round (sp_value s))"

definition formatValue :: "spin \<Rightarrow> string" where
  "formatValue s =
     take 31 (case sp_type s of SpinInt \<Rightarrow> show_int (to_int (sp_value s)) | SpinFloat \<Rightarrow> show_fixed (sp_decimals s) (sp_value s))"

text \<open>The first results of the handlers are the arguments of \<open>onChange\<close>.\<close>

definition commitEdit :: "spin \<Rightarrow> keyboard \<Rightarrow> rat list \<times> spin \<times> keyboard" where
  "commitEdit s k =
     (let (cs, s) = (case (if sp_editBuf s = '''' then None else stof (sp_editBuf s)) of
            Some v \<Rightarrow> (let s = sp_clamp (s\<lparr>sp_value := v\<rparr>) in ([sp_value s], s))
          | None \<Rightarrow> ([], s));
          k = k\<lparr>kb_onChange := None\<rparr>
      in (cs, s\<lparr>sp_editing := False, sp_editBuf := ''''\<rparr>, if kb_visible k then kb_hide k else k))"

definition sp_press :: "nat \<Rightarrow> int \<Rightarrow> int \<Rightarrow> spin \<Rightarrow> keyboard \<Rightarrow> rat list \<times> spin \<times> keyboard" where
  "sp_press i tx ty s k =
     (if hitPlus s tx ty then
        let s = s\<lparr>sp_plusPressed := True\<rparr>; s' = sp_increment s in
        if sp_editing s then ([], s, k) else ([sp_value s'], s', k)
      else if hitMinus s tx ty then
        let s = s\<lparr>sp_minusPressed := True\<rparr>; s' = sp_decrement s in
        if sp_editing s then ([], s, k) else ([sp_value s'], s', k)
      else if hitValueBox s tx ty then
        if sp_editing s then ([], s, k)
        else
          let s = s\<lparr>sp_editing := True, sp_editBuf := formatValue s\<rparr> in
          ([], s, showWithText (sp_editBuf s) True (k\<lparr>kb_onChange := Some (ToSpin i), kb_maxLen := 16\<rparr>))
      else if sp_editing s then commitEdit s k else ([], s, k))"

definition sp_hold :: "int \<Rightarrow> int \<Rightarrow> spin \<Rightarrow> rat list \<times> spin" where
  "sp_hold tx ty s =
     (let (cs, s) = (if sp_plusPressed s \<and> hitPlus s tx ty
                     then (let s = sp_increment s in ([sp_value s], s)) else ([], s));
          (cs', s) = (if sp_minusPressed s \<and> hitMinus s tx ty
                      then (let s = sp_decrement s in ([sp_value s], s)) else ([], s))
      in (cs @ cs', s))"

definition sp_handleEvent :: "nat \<Rightarrow> touch_event_data \<Rightarrow> spin \<Rightarrow> keyboard \<Rightarrow> rat list \<times> spin \<times> keyboard" where
  "sp_handleEvent i e s k =
     (if \<not> sp_visible s then ([], s, k)
      else case te_event e of
        PRESS \<Rightarrow> sp_press i (ev_x e) (ev_y e) s k
      | HOLD \<Rightarrow> (let (cs, s) = sp_hold (ev_x e) (ev_y e) s in (cs, s, k))
      | RELEASE \<Rightarrow> ([], s\<lparr>sp_plusPressed := False, sp_minusPressed := False\<rparr>, k)
      | MOVE \<Rightarrow> ([], s, k))"

text \<open>\<open>(c & 0x00FEFEFE) >> 1 | 0xFF000000\<close>\<close>

definition dimmed :: "u32 \<Rightarrow> u32" where "dimmed c = drop_bit 1 (c AND 0x00FEFEFE) OR 0xFF000000"

definition sp_draw_button :: "spin \<Rightarrow> int \<Rightarrow> bool \<Rightarrow> u32 \<Rightarrow> bool \<Rightarrow> draw_call list" where
  "sp_draw_button s bx isPressed col isPlus =
     (let cy = sp_y s + sp_h s sdiv 2; cx = bx + SPIN_BTN_W sdiv 2 in
      [ui_fill bx (sp_y s) SPIN_BTN_W (sp_h s) (if isPressed then 0xFF00FF00 else col),
       ui_rect bx (sp_y s) SPIN_BTN_W (sp_h s) 0xFF8C8E8C,
       ui_line (cx - 8) cy (cx + 8) cy 0xFFFFFFFF, ui_line (cx - 8) (cy + 1) (cx + 8) (cy + 1) 0xFFFFFFFF] @
      (if isPlus then [ui_line cx (cy - 8) cx (cy + 8) 0xFFFFFFFF, ui_line (cx + 1) (cy - 8) (cx + 1) (cy + 8) 0xFFFFFFFF] else []))"

definition sp_draw :: "spin \<Rightarrow> draw_call list" where
  "sp_draw s =
     (let vbg = (if sp_editing s then 0xFF181818 else 0xFF080C08);
          display = (if sp_editing s then sp_editBuf s else formatValue s)
      in if \<not> sp_visible s then []
         else [ui_fill (sp_valueX s) (sp_y s) (sp_valueW s) (sp_h s) vbg, ui_rect (sp_valueX s) (sp_y s) (sp_valueW s) (sp_h s) 0xFF8C8E8C] @
           (if sp_editing s then [ui_rect (sp_valueX s + 1) (sp_y s + 1) (sp_valueW s - 2) (sp_h s - 2) 0xFF8C8E8C] else []) @
           font_apply (sp_font s) @
           ui_text (sp_valueX s + (sp_valueW s - textWidth (sp_font s) (length display)) sdiv 2)
             (sp_y s + (sp_h s - charH (sp_font s)) sdiv 2) 0xFFFFFFFF vbg display @
           (if \<not> sp_showButtons s then []
            else sp_draw_button s (sp_x s) (sp_minusPressed s) 0xFF420000 False @
              sp_draw_button s (sp_plusBtnX s) (sp_plusPressed s) 0xFF006500 True @
              (if sp_value s \<le> sp_minVal s then [ui_fill (sp_x s) (sp_y s) SPIN_BTN_W (sp_h s) (dimmed 0xFF420000)] else []) @
              (if sp_value s \<ge> sp_maxVal s then [ui_fill (sp_plusBtnX s) (sp_y s) SPIN_BTN_W (sp_h s) (dimmed 0xFF006500)] else [])))"

end
