(* ===== verification/UiManager.thy ===== *)
theory UiManager
  imports UiValues
begin

text \<open>
  The manager of libs/uisys/manager.h and manager.cpp: the widgets by kind in the order they were added, the routing of
  touch events (the first dialog that shows, then the keyboard, then every widget), drawing, visibility, and the
  dialog that blocks. The callbacks are the application's: \<open>cb\<close> takes what a widget reports and the state, and returns
  the state. It runs when the widget's handler is done; a widget it adds or removes while the event is handed
  round is out of the model. The manager's record can be extended with the application's own state.
\<close>

datatype ui_out =
    ButtonFired string button_state
  | SliderMoved string rat
  | DialMoved string rat
  | ComboChanged string int string
  | EditChanged string string
  | EditConfirmed string string
  | SpinChanged string rat
  | DialogAnswered string int

text \<open>\<open>ui_answer\<close> is the answer \<open>quickFireDialog\<close> waits for, and \<open>ui_fault\<close> is set when the keyboard's callback belongs to a
  widget that is gone.\<close>

record manager =
  ui_buttons :: "(string \<times> button) list"
  ui_sliders :: "(string \<times> slider) list"
  ui_dials :: "(string \<times> dial) list"
  ui_combos :: "(string \<times> combo) list"
  ui_edits :: "(string \<times> text_edit) list"
  ui_spins :: "(string \<times> spin) list"
  ui_keyboard :: keyboard
  ui_dialogs :: "(string \<times> dialog) list"
  ui_needsRedraw :: bool
  ui_answer :: "int option"
  ui_fault :: bool

definition manager_new :: "int \<Rightarrow> int \<Rightarrow> int \<Rightarrow> int \<Rightarrow> ui_font \<Rightarrow> manager" where
  "manager_new kx ky kw kh font =
     \<lparr>ui_buttons = [], ui_sliders = [], ui_dials = [], ui_combos = [], ui_edits = [], ui_spins = [],
      ui_keyboard = keyboard_new kx ky kw kh font, ui_dialogs = [], ui_needsRedraw = True, ui_answer = None, ui_fault = False\<rparr>"

section \<open>Finding and adding\<close>

abbreviation (input) findIn :: "string \<Rightarrow> (string \<times> 'w) list \<Rightarrow> 'w option" where "findIn i v \<equiv> map_of v i"

definition add_to :: "string \<Rightarrow> 'w \<Rightarrow> (string \<times> 'w) list \<Rightarrow> (string \<times> 'w) list" where
  "add_to i w v = (if findIn i v \<noteq> None then v else v @ [(i, w)])"

text \<open>A change through the pointer \<open>findIn\<close> returns.\<close>

fun change_in :: "string \<Rightarrow> ('w \<Rightarrow> 'w) \<Rightarrow> (string \<times> 'w) list \<Rightarrow> (string \<times> 'w) list" where
  "change_in i f [] = []"
| "change_in i f ((j, w) # v) = (if i = j then (j, f w) # v else (j, w) # change_in i f v)"

definition addButton :: "string \<Rightarrow> button \<Rightarrow> 'a manager_scheme \<Rightarrow> 'a manager_scheme" where
  "addButton i w m = m\<lparr>ui_buttons := add_to i w (ui_buttons m)\<rparr>"

definition addSlider :: "string \<Rightarrow> slider \<Rightarrow> 'a manager_scheme \<Rightarrow> 'a manager_scheme" where
  "addSlider i w m = m\<lparr>ui_sliders := add_to i w (ui_sliders m)\<rparr>"

definition addDial :: "string \<Rightarrow> dial \<Rightarrow> 'a manager_scheme \<Rightarrow> 'a manager_scheme" where
  "addDial i w m = m\<lparr>ui_dials := add_to i w (ui_dials m)\<rparr>"

definition addComboBox :: "string \<Rightarrow> combo \<Rightarrow> 'a manager_scheme \<Rightarrow> 'a manager_scheme" where
  "addComboBox i w m = m\<lparr>ui_combos := add_to i w (ui_combos m)\<rparr>"

definition addTextEdit :: "string \<Rightarrow> text_edit \<Rightarrow> 'a manager_scheme \<Rightarrow> 'a manager_scheme" where
  "addTextEdit i w m = m\<lparr>ui_edits := add_to i w (ui_edits m)\<rparr>"

definition addSpinBox :: "string \<Rightarrow> spin \<Rightarrow> 'a manager_scheme \<Rightarrow> 'a manager_scheme" where
  "addSpinBox i w m = m\<lparr>ui_spins := add_to i w (ui_spins m)\<rparr>"

definition addDialog :: "string \<Rightarrow> dialog \<Rightarrow> 'a manager_scheme \<Rightarrow> 'a manager_scheme" where
  "addDialog i w m = m\<lparr>ui_dialogs := add_to i w (ui_dialogs m)\<rparr>"

definition fireDialog :: "string \<Rightarrow> 'a manager_scheme \<Rightarrow> 'a manager_scheme" where
  "fireDialog i m =
     (if findIn i (ui_dialogs m) \<noteq> None
      then m\<lparr>ui_dialogs := change_in i dg_fire (ui_dialogs m), ui_needsRedraw := True\<rparr> else m)"

definition isAnyDialogOpen :: "'a manager_scheme \<Rightarrow> bool" where
  "isAnyDialogOpen m \<longleftrightarrow> list_ex (\<lambda>(i, d). dg_visible d) (ui_dialogs m)"

definition ui_clear :: "'a manager_scheme \<Rightarrow> 'a manager_scheme" where
  "ui_clear m = m\<lparr>ui_buttons := [], ui_sliders := [], ui_dials := [], ui_combos := [], ui_edits := [], ui_spins := [],
     ui_dialogs := [], ui_needsRedraw := True\<rparr>"

definition ui_setVisible :: "string \<Rightarrow> bool \<Rightarrow> 'a manager_scheme \<Rightarrow> 'a manager_scheme" where
  "ui_setVisible i v m =
     (let shown = m\<lparr>ui_needsRedraw := True\<rparr> in
      if findIn i (ui_buttons m) \<noteq> None then shown\<lparr>ui_buttons := change_in i (bt_visible_update (\<lambda>_. v)) (ui_buttons m)\<rparr>
      else if findIn i (ui_sliders m) \<noteq> None then shown\<lparr>ui_sliders := change_in i (sl_visible_update (\<lambda>_. v)) (ui_sliders m)\<rparr>
      else if findIn i (ui_dials m) \<noteq> None then shown\<lparr>ui_dials := change_in i (dl_visible_update (\<lambda>_. v)) (ui_dials m)\<rparr>
      else if findIn i (ui_combos m) \<noteq> None then shown\<lparr>ui_combos := change_in i (cb_visible_update (\<lambda>_. v)) (ui_combos m)\<rparr>
      else if findIn i (ui_edits m) \<noteq> None then shown\<lparr>ui_edits := change_in i (ed_visible_update (\<lambda>_. v)) (ui_edits m)\<rparr>
      else if findIn i (ui_spins m) \<noteq> None then shown\<lparr>ui_spins := change_in i (sp_visible_update (\<lambda>_. v)) (ui_spins m)\<rparr>
      else m)"

definition ui_isVisible :: "string \<Rightarrow> 'a manager_scheme \<Rightarrow> bool" where
  "ui_isVisible i m =
     (case findIn i (ui_buttons m) of Some w \<Rightarrow> bt_visible w | None \<Rightarrow>
      case findIn i (ui_sliders m) of Some w \<Rightarrow> sl_visible w | None \<Rightarrow>
      case findIn i (ui_dials m) of Some w \<Rightarrow> dl_visible w | None \<Rightarrow>
      case findIn i (ui_combos m) of Some w \<Rightarrow> cb_visible w | None \<Rightarrow>
      case findIn i (ui_edits m) of Some w \<Rightarrow> ed_visible w | None \<Rightarrow>
      case findIn i (ui_spins m) of Some w \<Rightarrow> sp_visible w | None \<Rightarrow> False)"

definition ui_isToggleOn :: "string \<Rightarrow> 'a manager_scheme \<Rightarrow> bool" where
  "ui_isToggleOn i m = (case findIn i (ui_buttons m) of Some b \<Rightarrow> bt_toggleState b | None \<Rightarrow> False)"

definition ui_comboIndex :: "string \<Rightarrow> 'a manager_scheme \<Rightarrow> int" where
  "ui_comboIndex i m = (case findIn i (ui_combos m) of Some c \<Rightarrow> cb_selectedIndex c | None \<Rightarrow> -1)"

definition ui_editText :: "string \<Rightarrow> 'a manager_scheme \<Rightarrow> string" where
  "ui_editText i m = (case findIn i (ui_edits m) of Some d \<Rightarrow> ed_text d | None \<Rightarrow> '''')"

definition ui_spinIntValue :: "string \<Rightarrow> 'a manager_scheme \<Rightarrow> int" where
  "ui_spinIntValue i m = (case findIn i (ui_spins m) of Some s \<Rightarrow> sp_getIntValue s | None \<Rightarrow> 0)"

section \<open>Routing\<close>

text \<open>What the keyboard's callback does with the text.\<close>

definition deliver_text :: "(ui_out \<Rightarrow> 'a manager_scheme \<Rightarrow> 'a manager_scheme) \<Rightarrow> (kb_target \<times> string) option \<Rightarrow>
    'a manager_scheme \<Rightarrow> 'a manager_scheme" where
  "deliver_text cb change m =
     (case change of
        None \<Rightarrow> m
      | Some (ToEdit i, t) \<Rightarrow>
          if i < length (ui_edits m)
          then let (j, d) = ui_edits m ! i in cb (EditChanged j t) (m\<lparr>ui_edits := (ui_edits m)[i := (j, d\<lparr>ed_text := t\<rparr>)]\<rparr>)
          else m\<lparr>ui_fault := True\<rparr>
      | Some (ToSpin i, t) \<Rightarrow>
          if i < length (ui_spins m)
          then let (j, s) = ui_spins m ! i in m\<lparr>ui_spins := (ui_spins m)[i := (j, s\<lparr>sp_editBuf := t\<rparr>)]\<rparr>
          else m\<lparr>ui_fault := True\<rparr>)"

definition qfd_id :: string where "qfd_id = ''__qfd_tmp__''"

text \<open>A dialog's answer goes to its callback, which is the blocking dialog's own for the one it made.\<close>

definition dialog_event :: "(ui_out \<Rightarrow> 'a manager_scheme \<Rightarrow> 'a manager_scheme) \<Rightarrow> touch_event_data \<Rightarrow> nat \<Rightarrow>
    'a manager_scheme \<Rightarrow> 'a manager_scheme" where
  "dialog_event cb e i m =
     (let (j, d) = ui_dialogs m ! i; (answer, d) = dg_handleEvent e d;
          m = m\<lparr>ui_dialogs := (ui_dialogs m)[i := (j, d)]\<rparr>
      in case answer of
           None \<Rightarrow> m
         | Some r \<Rightarrow> if j = qfd_id then m\<lparr>ui_answer := Some r\<rparr> else cb (DialogAnswered j r) m)"

text \<open>The steps over the widgets of a kind; the first result is whether the event counts as consumed.\<close>

definition button_event :: "(ui_out \<Rightarrow> 'a manager_scheme \<Rightarrow> 'a manager_scheme) \<Rightarrow> touch_event_data \<Rightarrow> nat \<Rightarrow>
    'a manager_scheme \<Rightarrow> bool \<times> 'a manager_scheme" where
  "button_event cb e i m =
     (let (j, b) = ui_buttons m ! i; (fired, b') = bt_handleEvent e b;
          m = fold (\<lambda>s. cb (ButtonFired j s)) fired (m\<lparr>ui_buttons := (ui_buttons m)[i := (j, b')]\<rparr>)
      in (bt_pressed (snd (ui_buttons m ! i)) \<noteq> bt_pressed b \<or> te_event e = RELEASE, m))"

definition report :: "(ui_out \<Rightarrow> 'm \<Rightarrow> 'm) \<Rightarrow> ('v \<Rightarrow> ui_out) \<Rightarrow> 'v option \<Rightarrow> 'm \<Rightarrow> 'm" where
  "report cb out v m = (case v of None \<Rightarrow> m | Some v \<Rightarrow> cb (out v) m)"

definition slider_event :: "(ui_out \<Rightarrow> 'a manager_scheme \<Rightarrow> 'a manager_scheme) \<Rightarrow> touch_event_data \<Rightarrow> nat \<Rightarrow>
    'a manager_scheme \<Rightarrow> bool \<times> 'a manager_scheme" where
  "slider_event cb e i m =
     (let (j, s) = ui_sliders m ! i; (v, s) = sl_handleEvent e s
      in (True, report cb (SliderMoved j) v (m\<lparr>ui_sliders := (ui_sliders m)[i := (j, s)]\<rparr>)))"

definition dial_event :: "(rat \<Rightarrow> rat \<Rightarrow> rat) \<Rightarrow> (ui_out \<Rightarrow> 'a manager_scheme \<Rightarrow> 'a manager_scheme) \<Rightarrow> touch_event_data \<Rightarrow> nat \<Rightarrow>
    'a manager_scheme \<Rightarrow> bool \<times> 'a manager_scheme" where
  "dial_event atan2f cb e i m =
     (let (j, d) = ui_dials m ! i; (v, d) = dl_handleEvent atan2f e d
      in (True, report cb (DialMoved j) v (m\<lparr>ui_dials := (ui_dials m)[i := (j, d)]\<rparr>)))"

definition combo_event :: "(ui_out \<Rightarrow> 'a manager_scheme \<Rightarrow> 'a manager_scheme) \<Rightarrow> touch_event_data \<Rightarrow> nat \<Rightarrow>
    'a manager_scheme \<Rightarrow> bool \<times> 'a manager_scheme" where
  "combo_event cb e i m =
     (let (j, c) = ui_combos m ! i; (v, c) = cb_handleEvent e c
      in (True, report cb (\<lambda>(idx, item). ComboChanged j idx item) v (m\<lparr>ui_combos := (ui_combos m)[i := (j, c)]\<rparr>)))"

definition edit_event :: "(ui_out \<Rightarrow> 'a manager_scheme \<Rightarrow> 'a manager_scheme) \<Rightarrow> touch_event_data \<Rightarrow> nat \<Rightarrow>
    'a manager_scheme \<Rightarrow> bool \<times> 'a manager_scheme" where
  "edit_event cb e i m =
     (let (j, d) = ui_edits m ! i; (v, d, k) = ed_handleEvent i e d (ui_keyboard m)
      in (True, report cb (EditConfirmed j) v (m\<lparr>ui_edits := (ui_edits m)[i := (j, d)], ui_keyboard := k\<rparr>)))"

definition spin_event :: "(ui_out \<Rightarrow> 'a manager_scheme \<Rightarrow> 'a manager_scheme) \<Rightarrow> touch_event_data \<Rightarrow> nat \<Rightarrow>
    'a manager_scheme \<Rightarrow> bool \<times> 'a manager_scheme" where
  "spin_event cb e i m =
     (let (j, s) = ui_spins m ! i; (vs, s, k) = sp_handleEvent i e s (ui_keyboard m)
      in (True, fold (\<lambda>v. cb (SpinChanged j v)) vs (m\<lparr>ui_spins := (ui_spins m)[i := (j, s)], ui_keyboard := k\<rparr>)))"

definition each :: "(nat \<Rightarrow> 'm \<Rightarrow> bool \<times> 'm) \<Rightarrow> nat \<Rightarrow> bool \<times> 'm \<Rightarrow> bool \<times> 'm" where
  "each step n = fold (\<lambda>i (consumed, m). let (c, m) = step i m in (consumed \<or> c, m)) [0..<n]"

definition widgets_event :: "(rat \<Rightarrow> rat \<Rightarrow> rat) \<Rightarrow> (ui_out \<Rightarrow> 'a manager_scheme \<Rightarrow> 'a manager_scheme) \<Rightarrow> touch_event_data \<Rightarrow>
    'a manager_scheme \<Rightarrow> bool \<times> 'a manager_scheme" where
  "widgets_event atan2f cb e m =
     (let cm = each (button_event cb e) (length (ui_buttons m)) (False, m);
          cm = each (slider_event cb e) (length (ui_sliders m)) cm;
          cm = each (dial_event atan2f cb e) (length (ui_dials m)) cm;
          cm = each (combo_event cb e) (length (ui_combos m)) cm;
          cm = each (edit_event cb e) (length (ui_edits m)) cm
      in each (spin_event cb e) (length (ui_spins m)) cm)"

fun first_visible :: "nat \<Rightarrow> (string \<times> dialog) list \<Rightarrow> nat option" where
  "first_visible i [] = None"
| "first_visible i ((j, d) # ds) = (if dg_visible d then Some i else first_visible (Suc i) ds)"

definition ui_handleEvent :: "(rat \<Rightarrow> rat \<Rightarrow> rat) \<Rightarrow> (ui_out \<Rightarrow> 'a manager_scheme \<Rightarrow> 'a manager_scheme) \<Rightarrow> touch_event_data \<Rightarrow>
    'a manager_scheme \<Rightarrow> 'a manager_scheme" where
  "ui_handleEvent atan2f cb e m =
     (case first_visible 0 (ui_dialogs m) of
        Some i \<Rightarrow> dialog_event cb e i m\<lparr>ui_needsRedraw := True\<rparr>
      | None \<Rightarrow>
          let (consumed, change, k) = kb_handleEvent e (ui_keyboard m) in
          if consumed then deliver_text cb change (m\<lparr>ui_keyboard := k\<rparr>)\<lparr>ui_needsRedraw := True\<rparr>
          else let (consumed, m) = widgets_event atan2f cb e m in if consumed then m\<lparr>ui_needsRedraw := True\<rparr> else m)"

text \<open>\<^verbatim>\<open>update\<close> drives the hold-to-fire buttons.\<close>

definition ui_update :: "(ui_out \<Rightarrow> 'a manager_scheme \<Rightarrow> 'a manager_scheme) \<Rightarrow> u32 \<Rightarrow> 'a manager_scheme \<Rightarrow> 'a manager_scheme" where
  "ui_update cb nowMs m =
     fold (\<lambda>i m. let (j, b) = ui_buttons m ! i; (fired, b) = bt_update nowMs b
       in fold (\<lambda>s. cb (ButtonFired j s)) fired (m\<lparr>ui_buttons := (ui_buttons m)[i := (j, b)]\<rparr>)) [0..<length (ui_buttons m)] m"

section \<open>The dialog that blocks\<close>

text \<open>\<open>pump\<close> is the registered frame loop, one of whose rounds takes what came in since. The result is \<open>Inl\<close> and the state if the
  input ends before the dialog is answered.\<close>

fun qfd_wait :: "('i \<Rightarrow> 'a manager_scheme \<Rightarrow> 'a manager_scheme) \<Rightarrow> 'i list \<Rightarrow> 'a manager_scheme \<Rightarrow>
    'a manager_scheme + int \<times> 'i list \<times> 'a manager_scheme" where
  "qfd_wait pump [] m = Inl m"
| "qfd_wait pump (r # rs) m =
     (let m = pump r (m\<lparr>ui_needsRedraw := True\<rparr>) in
      case ui_answer m of Some a \<Rightarrow> Inr (a, rs, m) | None \<Rightarrow> qfd_wait pump rs m)"

definition drop_qfd :: "'a manager_scheme \<Rightarrow> 'a manager_scheme" where
  "drop_qfd m = m\<lparr>ui_dialogs := filter (\<lambda>(j, d). j \<noteq> qfd_id) (ui_dialogs m)\<rparr>"

definition open_qfd :: "dialog \<Rightarrow> 'a manager_scheme \<Rightarrow> 'a manager_scheme" where
  "open_qfd d m = (let m = drop_qfd m in m\<lparr>ui_dialogs := ui_dialogs m @ [(qfd_id, dg_fire d)], ui_answer := None\<rparr>)"

definition quickFireDialog :: "('i \<Rightarrow> 'a manager_scheme \<Rightarrow> 'a manager_scheme) \<Rightarrow> dialog \<Rightarrow> 'i list \<Rightarrow> 'a manager_scheme \<Rightarrow>
    'a manager_scheme + int \<times> 'i list \<times> 'a manager_scheme" where
  "quickFireDialog pump d inputs m =
     map_sum id (\<lambda>(a, rest, m). (a, rest, drop_qfd m)) (qfd_wait pump inputs (open_qfd d m))"

text \<open>The dialog it makes from its arguments: a title bar colour of 0 keeps the icon's.\<close>

definition qfd_dialog :: "int \<Rightarrow> int \<Rightarrow> string \<Rightarrow> string \<Rightarrow> dialog_mode \<Rightarrow> dialog_icon \<Rightarrow> u32 \<Rightarrow> bool \<Rightarrow> string \<Rightarrow> string \<Rightarrow> string \<Rightarrow>
    dialog" where
  "qfd_dialog screenW screenH title description mode icon titleBarColor buttonsHidden lBtn2 lBtn1 lBtn0 =
     (let d = dialog_new screenW screenH title description mode icon;
          d = (if titleBarColor \<noteq> GFX_TRANSPARENT then d\<lparr>dg_colTitleBar := titleBarColor\<rparr> else d);
          d = (if buttonsHidden then d\<lparr>dg_buttonsHidden := True\<rparr> else d)
      in if lBtn2 \<noteq> '''' \<or> lBtn1 \<noteq> '''' \<or> lBtn0 \<noteq> '''' then setButtonLabels lBtn2 lBtn1 lBtn0 d else d)"

section \<open>Drawing\<close>

text \<open>\<open>None\<close> where a combo box reads outside its items or a text edit's \<open>substr\<close> throws.\<close>

definition draw_edits :: "(string \<times> text_edit) list \<Rightarrow> (draw_call list \<times> (string \<times> text_edit) list) option" where
  "draw_edits es =
     map_option (\<lambda>ds. (concat (map fst ds), zip (map fst es) (map snd ds))) (those (map (\<lambda>(i, d). ed_draw d) es))"

definition ui_draw :: "(rat \<Rightarrow> rat) \<Rightarrow> (rat \<Rightarrow> rat) \<Rightarrow> 'a manager_scheme \<Rightarrow> (draw_call list \<times> 'a manager_scheme) option" where
  "ui_draw cosf sinf m =
     Option.bind (those (map (\<lambda>(i, c). cb_draw c) (ui_combos m))) (\<lambda>combos.
     map_option (\<lambda>(edits, es).
       (concat (map (\<lambda>(i, w). bt_draw w) (ui_buttons m)) @ concat (map (\<lambda>(i, w). sl_draw w) (ui_sliders m)) @
        concat (map (\<lambda>(i, w). dl_draw cosf sinf w) (ui_dials m)) @ concat combos @ edits @
        concat (map (\<lambda>(i, w). sp_draw w) (ui_spins m)) @ kb_draw (ui_keyboard m) @
        concat (map (\<lambda>(i, w). dg_draw w) (ui_dialogs m)),
        m\<lparr>ui_needsRedraw := False, ui_edits := es\<rparr>)) (draw_edits (ui_edits m)))"

end
