(* ===== verification/App.thy ===== *)
theory App
  imports UiManager DrLink DrawRoundTrip
begin

text \<open>
  The application (src/app.h, app.cpp, ui.cpp, usb_handling.cpp, main.cpp): the widgets it sets up and what their callbacks do,
  the plan of a frame and its drawing on the panel and on the recorder, a turn of the frame loop, the actions that block
  on a dialog, video tiles and values from USB, and the outer loop of the process. What comes in between two turns
  is one record of input. The hardware (buzzer, lights, panel buttons) and the threads' start and end are not modelled.
\<close>

section \<open>State\<close>

datatype app_action = AskQuit | AskHalt | AskHideUI | AskRestart | UsbTimeout

record render_plan =
  rp_clear :: bool
  rp_dts :: bool
  rp_dataIn :: bool
  rp_about :: bool
  rp_sysInfo :: bool
  rp_widgets :: bool
  rp_status :: bool
  rp_any :: bool
  rp_askRedraw :: bool

text \<open>\<open>app_link\<close> is the draw link with the touch queue, \<open>app_sent\<close> the frames it handed to its socket, \<open>app_dr\<close> the recorder, \<open>app_panel\<close> the calls of the last frame drawn on the
  panel, and \<open>app_stopped\<close> how the application was stopped, if it was.\<close>

datatype app_end = EndStop | EndHalt | EndReboot

record app = manager +
  app_sw :: int
  app_sh :: int
  app_show_about :: bool
  app_hide_ui :: bool
  app_show_data_in :: bool
  RRFDTS :: bool
  RRFSYSMSG :: bool
  RRFSYSINFO :: bool
  RRFF :: bool
  app_lastUpdate1 :: u32
  app_cycleCount :: int
  app_pending :: "app_action option"
  app_cvdata :: "u16 list"
  app_hasFrame :: bool
  app_frameReady :: bool
  app_frameBufA :: "u16 list"
  app_frameBufB :: "u16 list"
  app_usbBuf :: bytes
  app_usbThread :: bool
  app_usbUp :: bool
  app_usbWait :: nat
  app_actionQueue :: "app_action list"
  app_statusMsg :: string
  app_dr :: recorder
  app_link :: dr
  app_sent :: "bytes list"
  app_panel :: "draw_call list"
  app_stopped :: "app_end option"

section \<open>The widgets\<close>

abbreviation (input) SCR_W :: int where "SCR_W \<equiv> 1280"
abbreviation (input) SCR_H :: int where "SCR_H \<equiv> 720"

definition push_btn :: "string \<Rightarrow> int \<Rightarrow> int \<Rightarrow> int \<Rightarrow> int \<Rightarrow> string \<Rightarrow> button_mode \<Rightarrow> button_theme \<Rightarrow> 'a manager_scheme \<Rightarrow>
    'a manager_scheme" where
  "push_btn i x y w h label mode theme = addButton i (button_new x y w h label mode theme font_medium)"

definition show_button :: "string \<Rightarrow> bool \<Rightarrow> 'a manager_scheme \<Rightarrow> 'a manager_scheme" where
  "show_button i v m = m\<lparr>ui_buttons := change_in i (bt_visible_update (\<lambda>_. v)) (ui_buttons m)\<rparr>"

definition toggle_button :: "string \<Rightarrow> bool \<Rightarrow> 'a manager_scheme \<Rightarrow> 'a manager_scheme" where
  "toggle_button i v m = m\<lparr>ui_buttons := change_in i (bt_toggleState_update (\<lambda>_. v)) (ui_buttons m)\<rparr>"

definition unpress_button :: "string \<Rightarrow> 'a manager_scheme \<Rightarrow> 'a manager_scheme" where
  "unpress_button i m = m\<lparr>ui_buttons := change_in i (bt_pressed_update (\<lambda>_. False)) (ui_buttons m)\<rparr>"

definition initSysUI :: "'a manager_scheme \<Rightarrow> 'a manager_scheme" where
  "initSysUI m =
     (let m = push_btn ''quit'' 20 20 180 60 ''Exit MFD'' BM_TRIGGER theme_danger m;
          m = push_btn ''halt'' 210 20 180 60 ''Shutdown'' BM_TRIGGER theme_danger m;
          m = push_btn ''hideui'' 400 20 180 60 ''Hide All UI'' BM_TRIGGER theme_danger m;
          m = push_btn ''restart'' 590 20 180 60 ''Restart'' BM_TRIGGER theme_danger m
      in fold (\<lambda>i. show_button i False) [''quit'', ''halt'', ''hideui'', ''restart''] m)"

definition initSidebarBTNs :: "'a manager_scheme \<Rightarrow> 'a manager_scheme" where
  "initSidebarBTNs m =
     (let m = push_btn ''sdata'' 1075 360 180 50 ''Show Data'' BM_TOGGLE theme_military m;
          m = push_btn ''sinfo'' 1075 440 180 50 ''Show Info'' BM_TOGGLE theme_military m;
          m = push_btn ''ssui'' 1075 520 180 50 ''Show System UI'' BM_TOGGLE theme_military m
      in push_btn ''sdui'' 1075 600 180 50 ''Show Demo UI'' BM_TOGGLE theme_military m)"

definition initDemoUI :: "'a manager_scheme \<Rightarrow> 'a manager_scheme" where
  "initDemoUI m =
     (let m = push_btn ''fire'' 50 600 180 60 ''FIRE'' BM_TRIGGER theme_default m;
          m = push_btn ''arm'' 250 600 180 60 ''ARM'' BM_TOGGLE theme_military m;
          m = push_btn ''boost'' 450 600 180 60 ''BOOST'' BM_HOLD theme_hud m;
          m = push_btn ''testbtn1'' 650 600 180 60 ''Test'' BM_HOLD_SWIPE theme_military m;
          m = addSlider ''vol'' (slider_new 50 500 300 30 HORIZONTAL ''Volume'' 0 100 font_medium) m;
          m = addSlider ''gain'' (slider_new 700 100 30 250 VERTICAL ''Gain'' 0 10 font_medium) m;
          m = addDial ''freq'' (dial_new 500 450 60 ''FREQ'' 20 20000 font_medium) m;
          m = addComboBox ''mode'' (combo_new 50 400 200 36 [''Normal'', ''Combat'', ''Stealth'', ''Override''] 0 font_medium 4) m;
          m = addTextEdit ''name'' (text_edit_new 50 100 400 50 ''Enter name...'' False font_medium) m;
          m = addTextEdit ''ip'' (text_edit_new 50 170 400 50 ''192.168.x.x'' False font_large) m;
          m = addTextEdit ''port'' (text_edit_new 50 240 200 50 ''8080'' True font_medium) m;
          m = addSpinBox ''speed'' (spin_new 50 320 250 60 SpinInt 0 200 5 60 True font_medium) m;
          m = addSpinBox ''gain2'' (spin_new 350 320 200 60 SpinFloat 0 10 (f32 (1 / 10)) 1 False font_medium) m
      in fold (\<lambda>i. ui_setVisible i False)
           [''fire'', ''boost'', ''gain'', ''freq'', ''ip'', ''port'', ''name'', ''arm'', ''vol'', ''testbtn1'', ''mode'', ''speed'', ''gain2''] m)"

definition demoElements :: "string list" where
  "demoElements = [''fire'', ''boost'', ''gain'', ''freq'', ''ip'', ''port'', ''name'', ''arm'', ''vol'', ''testbtn1'']"

text \<open>The views: the toggles of the side bar, then the groups of widgets.\<close>

definition show_views :: "string \<Rightarrow> 'a manager_scheme \<Rightarrow> 'a manager_scheme" where
  "show_views view m =
     (let m = fold (\<lambda>(i, v). toggle_button i (view = v))
            [(''sdata'', ''data''), (''sinfo'', ''info''), (''ssui'', ''system''), (''sdui'', ''demo'')] m;
          m = fold (\<lambda>i. show_button i (view = ''system'')) [''quit'', ''halt'', ''hideui'', ''restart''] m;
          m = fold (\<lambda>i. ui_setVisible i (view = ''demo'')) demoElements m;
          m = m\<lparr>ui_combos := change_in ''mode'' (cb_visible_update (\<lambda>_. view = ''demo'')) (ui_combos m)\<rparr>
      in m\<lparr>ui_spins := change_in ''gain2'' (sp_visible_update (\<lambda>_. view = ''demo''))
             (change_in ''speed'' (sp_visible_update (\<lambda>_. view = ''demo'')) (ui_spins m))\<rparr>)"

definition setView :: "string \<Rightarrow> app \<Rightarrow> app" where
  "setView view a = show_views view (a\<lparr>app_show_data_in := (view = ''data''), app_show_about := (view = ''info'')\<rparr>)"

text \<open>The callbacks handed to the widgets: \<open>s\<close> is tested as an integer. Those of the demo widgets print or sound the buzzer.\<close>

definition app_cb :: "ui_out \<Rightarrow> app \<Rightarrow> app" where
  "app_cb out a =
     (case out of
        ButtonFired i s \<Rightarrow>
          if i = ''quit'' then a\<lparr>app_pending := Some AskQuit\<rparr>
          else if i = ''halt'' then a\<lparr>app_pending := Some AskHalt\<rparr>
          else if i = ''hideui'' then a\<lparr>app_pending := Some AskHideUI\<rparr>
          else if i = ''restart'' then a\<lparr>app_pending := Some AskRestart\<rparr>
          else if i = ''sdata'' then if state_code s \<noteq> 0 then setView ''data'' a else a
          else if i = ''sinfo'' then if state_code s \<noteq> 0 then setView ''info'' a else a
          else if i = ''ssui'' then if state_code s \<noteq> 0 then setView ''system'' a else setView ''none'' a
          else if i = ''sdui'' then if state_code s \<noteq> 0 then setView ''demo'' a else setView ''none'' a
          else a
      | _ \<Rightarrow> a)"

definition app_new :: "int \<Rightarrow> int \<Rightarrow> bytes \<Rightarrow> app" where
  "app_new sw sh usbBuf =
     initDemoUI (initSidebarBTNs (initSysUI
       (manager.extend (manager_new 0 400 1280 320 font_medium)
         (app.fields sw sh True False False False False False False 0 0 None (replicate 8 0) False False
            (replicate (1280 * 720) 0) (replicate (1280 * 720) 0) usbBuf True False 0 [] ''USB: starting...''
            (recorder_new 1280 720) dr_boot [] [] None))))"

section \<open>Values and video tiles from USB\<close>

text \<open>One message: it overwrites the front of the receive buffer, whose rest keeps what was there. Rows are copied pixel by
  pixel from the buffer; \<open>None\<close> is a copy that leaves either.\<close>

definition write_rows :: "nat \<Rightarrow> nat \<Rightarrow> nat \<Rightarrow> nat \<Rightarrow> u16 list \<Rightarrow> u16 list \<Rightarrow> u16 list option" where
  "write_rows x0 y0 tw th pxs buf =
     fold (\<lambda>row b. Option.bind b (\<lambda>b. let pos = (y0 + row) * 1280 + x0 in
       if tw = 0 then Some b else if pos + tw \<le> length b \<and> row * tw + tw \<le> length pxs
       then Some (take pos b @ take tw (drop (row * tw) pxs) @ drop (pos + tw) b) else None)) [0..<th] (Some buf)"

fun u16s_of :: "bytes \<Rightarrow> u16 list" where
  "u16s_of (a # b # bs) = getU16LE [a, b] # u16s_of bs"
| "u16s_of _ = []"

definition tile_message :: "nat \<Rightarrow> app \<Rightarrow> app" where
  "tile_message r a =
     (let buf = app_usbBuf a; tx = unat (buf ! 1); ty = unat (buf ! 2);
          tw = getU16LE (drop 3 buf); th = getU16LE (drop 5 buf);
          expected = 7 + ucast tw * ucast th * 2 :: u32
      in if tx \<ge> 16 \<or> ty \<ge> 9 then a
         else if of_nat r \<noteq> expected then a
         else case write_rows (tx * unat tw) (ty * unat th) (unat tw) (unat th) (u16s_of (drop 7 buf)) (app_frameBufA a) of
                None \<Rightarrow> a\<lparr>ui_fault := True\<rparr>
              | Some b \<Rightarrow> a\<lparr>app_frameBufA := b, app_frameReady := True, RRFSYSMSG := True,
                  app_statusMsg := ''DTS streaming - tile ('' @ show_nat tx @ '', '' @ show_nat ty @ '') updated''\<rparr>)"

definition value_message :: "nat \<Rightarrow> app \<Rightarrow> app" where
  "value_message r a =
     (if r \<ge> 17
      then a\<lparr>app_cvdata := u16s_of (take 16 (drop 1 (app_usbBuf a))), app_statusMsg := ''CV: Updated'', RRFSYSMSG := True\<rparr>
      else a\<lparr>app_statusMsg := ''CV: Update Error'', RRFSYSMSG := True\<rparr>)"

definition usb_message :: "bytes \<Rightarrow> app \<Rightarrow> app" where
  "usb_message msg a =
     (let a = a\<lparr>app_usbBuf := msg @ drop (length msg) (app_usbBuf a)\<rparr>; r = length msg in
        if hd msg = 0xD0 then value_message r a
        else if hd msg = 0xF5 then tile_message r a else a)"

definition usb_disconnected :: "app \<Rightarrow> app" where
  "usb_disconnected a = a\<lparr>app_usbUp := False, app_frameBufA := replicate (1280 * 720) 0, app_frameReady := False,
     app_statusMsg := ''USB: disconnected, retrying...'', RRFSYSMSG := True\<rparr>"

text \<open>The USB thread, an answer of the daemon's client at a time: a channel or none for \<open>open\<close>, a message or the end of the
  connection for \<open>recv\<close>. After fifteen answers of none it posts an action and ends. Answers to a call it is not making are ignored.\<close>

datatype usb_answer = UsbOpen "nat option" | UsbRecv bytes

definition usb_no_device :: "app \<Rightarrow> app" where
  "usb_no_device a =
     (let a = a\<lparr>app_statusMsg := ''USB: waiting... ('' @ show_nat (app_usbWait a) @ ''s)'', RRFSYSMSG := True,
            app_usbWait := app_usbWait a + 1\<rparr>
      in if app_usbWait a \<ge> 15 then a\<lparr>app_actionQueue := app_actionQueue a @ [UsbTimeout], app_usbThread := False\<rparr> else a)"

definition usb_step :: "usb_answer \<Rightarrow> app \<Rightarrow> app" where
  "usb_step ans a =
     (if \<not> app_usbThread a then a
      else case ans of
        UsbOpen None \<Rightarrow> if app_usbUp a then a else usb_no_device a
      | UsbOpen (Some ch) \<Rightarrow>
          if app_usbUp a then a
          else a\<lparr>app_usbUp := True, app_statusMsg := ''USB: ch'' @ show_nat ch @ '' connected'', RRFSYSMSG := True\<rparr>
      | UsbRecv msg \<Rightarrow>
          if \<not> app_usbUp a then a else if msg = [] then usb_disconnected a else usb_message msg a)"

end
