(* ===== verification/AppFrame.thy ===== *)
theory AppFrame
  imports App
begin

text \<open>
  What the application draws and when: the plan of a frame, the drawing of it, the bars of the system information
  (libs/UIDisplayWidgets), the render pass with its recording, and the loops around it.
\<close>

section \<open>The plan of a frame\<close>

definition planFrame :: "bool \<Rightarrow> app \<Rightarrow> render_plan" where
  "planFrame forceRender a =
     (let redraw = ui_needsRedraw a;
          clear = (forceRender \<or> RRFDTS a \<or> redraw \<or> app_show_data_in a \<or> app_show_about a \<or> RRFSYSMSG a);
          dts = (RRFDTS a \<or> forceRender);
          nr = (dts \<or> app_show_data_in a \<or> app_show_about a);
          sysInfo = (ui_isToggleOn ''ssui'' a \<and> (RRFSYSINFO a \<or> redraw \<or> nr \<or> forceRender));
          nr = (nr \<or> sysInfo);
          widgets = (\<not> app_hide_ui a \<and> (RRFSYSMSG a \<or> redraw \<or> nr \<or> forceRender));
          nr = (nr \<or> widgets);
          status = (RRFSYSMSG a \<or> forceRender \<or> nr);
          nr = (nr \<or> status)
      in \<lparr>rp_clear = clear, rp_dts = dts, rp_dataIn = app_show_data_in a, rp_about = app_show_about a, rp_sysInfo = sysInfo,
          rp_widgets = widgets, rp_status = status, rp_any = (forceRender \<or> nr), rp_askRedraw = (sysInfo \<and> RRFSYSINFO a)\<rparr>)"

section \<open>Bars\<close>

text \<open>A call made on the drawing's own type, or on its base \<^verbatim>\<open>LinuxGFX\<close>, whose drawing code a recorder does not replace.\<close>

datatype frame_call = Own draw_call | Base draw_call

definition set_text :: "int \<Rightarrow> int \<Rightarrow> string \<Rightarrow> draw_call" where
  "set_text x y t = SetText (i16 x) (i16 y) (cstring t) GFX_WHITE GFX_TRANSPARENT 1 1 None 0"

fun getColorForValue :: "rat \<Rightarrow> u32 \<Rightarrow> (rat \<times> u32) list \<Rightarrow> u32" where
  "getColorForValue value selected [] = selected"
| "getColorForValue value selected ((threshold, color) # cts) =
     (if value \<ge> threshold then getColorForValue value color cts else selected)"

definition InfoBarThresholdsColors :: "(rat \<times> u32) list" where
  "InfoBarThresholdsColors = [(0, 0xFF00FF00), (70, 0xFFFFFF00), (90, 0xFFFF0000)]"

definition bar_percent :: "rat \<Rightarrow> rat \<Rightarrow> rat \<Rightarrow> rat" where
  "bar_percent value mn mx = f32 (f32 (value - mn) / f32 (mx - mn))"

text \<open>The horizontal forms, which are the ones in use, with the defaults of the other parameters.\<close>

definition drawBarContainer :: "int \<Rightarrow> int \<Rightarrow> int \<Rightarrow> int \<Rightarrow> rat \<Rightarrow> rat \<Rightarrow> rat list \<Rightarrow> string \<Rightarrow> draw_call list" where
  "drawBarContainer x y w h mn mx values label =
     (let n = int (length values); barHeight = h sdiv n; graphX = x + 40 in
      if values = [] then []
      else set_text x (y + h sdiv 2) label # ui_rect graphX y w h 0xFFFFFFFF #
        map (\<lambda>i. let barPct = bar_percent (values ! i) mn mx in
          ui_fill graphX (y + int i * barHeight) (to_int (f32 (barPct * f32 (of_int w)))) barHeight
            (getColorForValue (f32 (barPct * 100)) 0xFF00FF00 InfoBarThresholdsColors)) [0..<length values])"

definition drawBar :: "int \<Rightarrow> int \<Rightarrow> int \<Rightarrow> int \<Rightarrow> rat \<Rightarrow> rat \<Rightarrow> rat \<Rightarrow> string \<Rightarrow> draw_call list" where
  "drawBar x y w h value mn mx label =
     (let percent = bar_percent value mn mx; graphX = x + 40 in
      [set_text x (y + h sdiv 2) label, ui_rect graphX y w h 0xFFFFFFFF,
       ui_fill graphX y (to_int (f32 (percent * f32 (of_int w)))) h
         (getColorForValue (f32 (percent * 100)) 0xFF00FF00 InfoBarThresholdsColors)])"

text \<open>What \<^verbatim>\<open>linfo\<close> reports; a total of zero, which makes the quotient no number, is out of the model.\<close>

record sys_info =
  si_cores :: "rat list"
  si_load :: rat
  si_temp :: rat
  si_clock :: rat
  si_ramTotal :: int
  si_ramUsed :: int
  si_cmaTotal :: int
  si_cmaUsed :: int

definition renderInfo :: "sys_info \<Rightarrow> draw_call list" where
  "renderInfo si =
     drawBarContainer 20 100 100 20 0 100 (si_cores si) ''PLoads'' @
     drawBar 180 100 100 20 (si_load si) 0 100 ''PAvg'' @
     drawBar 20 140 100 20 (si_temp si) 0 85 ''PTemp'' @
     drawBar 180 140 100 20 (si_clock si) 0 1300 ''PClock'' @
     drawBar 20 180 100 20 (f32 (of_int (si_ramUsed si))) 0 (f32 (of_int (si_ramTotal si))) ''RAM'' @
     drawBar 180 180 100 20 (f32 (of_int (si_cmaUsed si))) 0 (f32 (of_int (si_cmaTotal si))) ''CMA''"

section \<open>The frame\<close>

definition text_at :: "int \<Rightarrow> int \<Rightarrow> string \<Rightarrow> draw_call list" where
  "text_at x y t = [SetCursor (i16 x) (i16 y), WriteText (cstring t)]"

definition renderAbout :: "bytes \<Rightarrow> app \<Rightarrow> draw_call list" where
  "renderAbout logo a =
     [SetTextColor 0xFFFFFFFF GFX_TRANSPARENT, SetTextSize 4 4] @ text_at 20 (app_sh a - 150) ''MFoES for RPI0w2'' @
     [SetCursor 20 (i16 (app_sh a - 100)), SetTextSize 3 3, WriteText (cstring ''a Mounted Family of Embedded System''),
      SetCursor 20 (i16 (app_sh a - 50)), SetTextSize 2 2, WriteText (cstring ''DPSoftware Technologies (PlatoonLabs)''),
      SetCursor 720 (i16 (app_sh a - 135)), SetTextSize 2 2, WriteText (cstring ''Adafruit GFX Compatible''),
      DrawBitmap 795 (i16 (app_sh a - 100)) logo 115 32 0xFFFFFFFF GFX_TRANSPARENT]"

definition renderDataInInfo :: "app \<Rightarrow> draw_call list" where
  "renderDataInInfo a =
     [SetTextColor 0xFFFFFFFF GFX_TRANSPARENT, SetTextSize 2 2] @
     concat (map (\<lambda>i. text_at 20 (50 + int i * 15)
       (''CV'' @ show_nat (i + 1) @ '': '' @ show_nat (unat (app_cvdata a ! i)))) [0..<8])"

text \<open>\<open>lib\<close> holds what the drawing takes from elsewhere: the trigonometry of the C library, the logo of app.h, and the system
  information.\<close>

record frame_lib =
  fl_atan2f :: "rat \<Rightarrow> rat \<Rightarrow> rat"
  fl_cosf :: "rat \<Rightarrow> rat"
  fl_sinf :: "rat \<Rightarrow> rat"
  fl_logo :: bytes
  fl_info :: sys_info

definition drawFrame :: "frame_lib \<Rightarrow> render_plan \<Rightarrow> app \<Rightarrow> frame_call list \<times> app" where
  "drawFrame lib plan a =
     (let clear = (if rp_clear plan then [FillScreen 0] else []);
          video = (if rp_dts plan \<and> app_hasFrame a
            then [DrawRGB565Bitmap (i16 ((app_sw a - SCR_W) sdiv 2)) (i16 ((app_sh a - SCR_H) sdiv 2)) (app_frameBufB a) 1280 720]
            else []);
          user = (if rp_dataIn plan then renderDataInInfo a else []) @ (if rp_about plan then renderAbout (fl_logo lib) a else []);
          info = (if rp_sysInfo plan then renderInfo (fl_info lib) else []);
          (widgets, a) = (if rp_widgets plan
            then case ui_draw (fl_cosf lib) (fl_sinf lib) a of Some (cs, a) \<Rightarrow> (cs, a) | None \<Rightarrow> ([], a\<lparr>ui_fault := True\<rparr>)
            else ([], a));
          status = (if rp_status plan
            then [SetCursor 10 10, SetTextColor 0xFFFFFFFF GFX_TRANSPARENT, SetTextSize 1 1, WriteText (cstring (app_statusMsg a))]
            else [])
      in (map Own (clear @ video @ user) @ map Base info @ map Own (widgets @ status), a))"

fun on_panel :: "frame_call \<Rightarrow> draw_call" where
  "on_panel (Own c) = c"
| "on_panel (Base c) = c"

text \<open>\<open>pieces\<close> are the calls the base's code for a call makes on the recorder's virtual functions.\<close>

fun on_recorder :: "(draw_call \<Rightarrow> draw_call list) \<Rightarrow> frame_call \<Rightarrow> draw_call list" where
  "on_recorder pieces (Own c) = [c]"
| "on_recorder pieces (Base c) = pieces c"

text \<open>The environment of a frame: the fonts' memory, the pieces, the clock and whether a capture file is open.\<close>

record frame_env =
  fe_lib :: frame_lib
  fe_fm :: font_mem
  fe_pieces :: "draw_call \<Rightarrow> draw_call list"
  fe_dump :: bool

definition remote_pass :: "frame_env \<Rightarrow> u32 \<Rightarrow> render_plan \<Rightarrow> app \<Rightarrow> app" where
  "remote_pass env now plan a =
     (let (cs, a) = drawFrame (fe_lib env) (plan\<lparr>rp_clear := True\<rparr>) a;
          dr = record_calls (fe_fm env) (concat (map (on_recorder (fe_pieces env)) cs)) (DRFlush (app_dr a));
          drBlob = snd (DRExport dr [])
      in a\<lparr>app_dr := dr, app_link := snd (drPublish now (fe_dump env) drBlob (app_link a))\<rparr>)"

text \<open>The parameter is overwritten before it is read.\<close>

definition render :: "frame_env \<Rightarrow> u32 \<Rightarrow> bool \<Rightarrow> app \<Rightarrow> app" where
  "render env now forceRender a =
     (let forceRender = RRFF a; a = a\<lparr>RRFF := False\<rparr>;
          plan = planFrame forceRender a;
          (cs, a) = drawFrame (fe_lib env) plan a;
          a = a\<lparr>app_panel := map on_panel cs\<rparr>;
          a = (if rp_any plan \<and> drRemoteAttached (fe_dump env) (app_link a) then remote_pass env now plan a else a);
          a = (if rp_dts plan then a\<lparr>RRFDTS := False\<rparr> else a);
          a = (if rp_sysInfo plan then a\<lparr>RRFSYSINFO := False\<rparr> else a);
          a = (if rp_status plan then a\<lparr>RRFSYSMSG := False\<rparr> else a)
      in if rp_askRedraw plan then a\<lparr>ui_needsRedraw := True\<rparr> else a)"

section \<open>The frame loop\<close>

text \<open>What came in since the last turn: events of the touch controller, turns of the thread that serves the viewer, answers to the
  USB thread's calls, and the time by two clocks.\<close>

datatype link_event = LinkUp | LinkTurn "bytes option list" bool | LinkDown

record round =
  rd_touches :: "touch_event_data list"
  rd_link :: "link_event list"
  rd_usb :: "usb_answer list"
  rd_now :: u32
  rd_mono :: u32

fun touch_name :: "touch_event \<Rightarrow> string option" where
  "touch_name PRESS = Some ''press''"
| "touch_name MOVE = None"
| "touch_name RELEASE = Some ''release''"
| "touch_name HOLD = Some ''hold''"

definition touch_arrives :: "touch_event_data \<Rightarrow> app \<Rightarrow> app" where
  "touch_arrives e a =
     (let a = (case touch_name (te_event e) of
                 None \<Rightarrow> a
               | Some name \<Rightarrow> a\<lparr>app_statusMsg :=
                   ''Touch: '' @ name @ '' at ('' @ show_int (ev_x e) @ '', '' @ show_int (ev_y e) @ '')''\<rparr>)
      in a\<lparr>app_link := app_link a\<lparr>touchQueue := touchQueue (app_link a) @ [e]\<rparr>\<rparr>)"

text \<open>The loop of \<^verbatim>\<open>drLoop\<close>: a turn that fails ends the connection.\<close>

fun link_arrives :: "link_event \<Rightarrow> app \<Rightarrow> app" where
  "link_arrives LinkUp a = a\<lparr>app_link := dr_attach (app_link a)\<rparr>"
| "link_arrives (LinkTurn received send_ok) a =
     (let (frame, up, d) = dr_turn received send_ok (app_link a)
      in a\<lparr>app_sent := app_sent a @ (case frame of Some f \<Rightarrow> [f] | None \<Rightarrow> []), app_link := (if up then d else dr_detach d)\<rparr>)"
| "link_arrives LinkDown a = a\<lparr>app_link := dr_detach (app_link a)\<rparr>"

definition arrivals :: "round \<Rightarrow> app \<Rightarrow> app" where
  "arrivals r a =
     fold usb_step (rd_usb r) (fold link_arrives (rd_link r) (fold touch_arrives (rd_touches r) a))"

definition handle_touch :: "frame_env \<Rightarrow> touch_event_data \<Rightarrow> app \<Rightarrow> app" where
  "handle_touch env e a = (if app_hide_ui a then a else ui_handleEvent (fl_atan2f (fe_lib env)) app_cb e a)"

definition inputHandle :: "frame_env \<Rightarrow> app \<Rightarrow> app" where
  "inputHandle env a =
     (let q = touchQueue (app_link a) in fold (handle_touch env) q (a\<lparr>app_link := app_link a\<lparr>touchQueue := []\<rparr>\<rparr>))"

text \<open>A posted action defers the blocking one and forces a frame.\<close>

definition run_posted :: "app_action \<Rightarrow> app \<Rightarrow> app" where
  "run_posted act a = a\<lparr>app_pending := Some act, RRFF := True\<rparr>"

definition process :: "frame_env \<Rightarrow> round \<Rightarrow> app \<Rightarrow> app" where
  "process env r a =
     (let a = arrivals r a;
          a = (if app_frameReady a then a\<lparr>app_frameBufB := app_frameBufA a, app_hasFrame := True, RRFDTS := True\<rparr> else a);
          a = inputHandle env a;
          a = fold run_posted (app_actionQueue a) (a\<lparr>app_actionQueue := []\<rparr>);
          a = (if rd_now r - app_lastUpdate1 a \<ge> 500 then a\<lparr>RRFSYSINFO := True, app_lastUpdate1 := rd_now r\<rparr> else a);
          a = ui_update app_cb (rd_now r) a;
          a = render env (rd_mono r) False a
      in a\<lparr>app_cycleCount := app_cycleCount a + 1\<rparr>)"

text \<open>The dialogs of the deferred actions, and what follows the answer; \<open>Inl\<close> while one is open when the input ends.\<close>

definition ask_dialog :: "string \<Rightarrow> string \<Rightarrow> dialog" where
  "ask_dialog title description =
     qfd_dialog SCR_W SCR_H title description YesNo IconWarning 0 False ''No'' ''Yes'' ''''"

definition farewell :: "string \<Rightarrow> string \<Rightarrow> string \<Rightarrow> app \<Rightarrow> app" where
  "farewell i title description a =
     (let a = addDialog i (dialog_new SCR_W SCR_H title description Notice IconInfo) a
      in a\<lparr>ui_dialogs := change_in i (\<lambda>d. dg_fire (d\<lparr>dg_buttonsHidden := True\<rparr>)) (ui_dialogs a)\<rparr>)"

definition ask :: "frame_env \<Rightarrow> string \<Rightarrow> dialog \<Rightarrow> (app \<Rightarrow> app) \<Rightarrow> round list \<Rightarrow> app \<Rightarrow> app + round list \<times> app" where
  "ask env button d confirmed rs a =
     map_sum id (\<lambda>(r, rest, a).
         let a = (unpress_button button a)\<lparr>ui_needsRedraw := True\<rparr> in (rest, if r = dr_No then confirmed a else a))
       (quickFireDialog (process env) d rs a)"

definition run_action :: "frame_env \<Rightarrow> u32 \<Rightarrow> app_action \<Rightarrow> round list \<Rightarrow> app \<Rightarrow> app + round list \<times> app" where
  "run_action env now act rs a =
     (case act of
        AskQuit \<Rightarrow> ask env ''quit'' (ask_dialog ''Exit the MFD'' ''Sure to stop this MFD app? '')
          (\<lambda>a. a\<lparr>app_stopped := Some EndStop\<rparr>) rs a
      | AskHalt \<Rightarrow> ask env ''halt'' (ask_dialog ''Shutdown'' ''Sure to shutdown? For power up, short GPIO3 to GND.'')
          (\<lambda>a. (render env now True (farewell ''__halt__'' ''Shutting down...'' ''The system will power off now.'' a))
             \<lparr>app_stopped := Some EndHalt\<rparr>) rs a
      | AskHideUI \<Rightarrow> ask env ''hideui'' (ask_dialog ''Hide UI'' ''Sure to Hide UI? You can't restore the UI back until restart.'')
          (\<lambda>a. a\<lparr>app_show_about := False, app_hide_ui := True\<rparr>) rs a
      | AskRestart \<Rightarrow> ask env ''restart'' (ask_dialog ''Restart'' ''Sure to restart?'')
          (\<lambda>a. (render env now True (farewell ''__rebooting__'' ''Restarting...'' ''The system will restart now now.'' a))
             \<lparr>app_stopped := Some EndReboot\<rparr>) rs a
      | UsbTimeout \<Rightarrow> map_sum id (\<lambda>(r, rest, a). (rest, a)) (quickFireDialog (process env)
          (qfd_dialog SCR_W SCR_H ''USB Timeout'' (''No USB device connected'' @ [CHR 0x0A] @ ''after 15 seconds. Please restart or re-plug.'')
             Notice IconError 0 False '''' '''' '''') rs a))"

text \<open>The deferred action runs between two turns, and takes the turns it waits through from the input.\<close>

lemma map_sum_Inr: "map_sum f g x = Inr y \<Longrightarrow> (\<And>z. x = Inr z \<Longrightarrow> y = g z \<Longrightarrow> P) \<Longrightarrow> P"
  by (cases x) auto

lemma qfd_wait_length: "qfd_wait pump rs m = Inr (a, rest, m') \<Longrightarrow> length rest < length rs"
  by (induction pump rs m rule: qfd_wait.induct) (fastforce simp: Let_def split: option.splits)+

lemma quickFireDialog_length: "quickFireDialog pump d rs m = Inr (a, rest, m') \<Longrightarrow> length rest < length rs"
  by (cases "qfd_wait pump rs (open_qfd d m)") (auto simp: quickFireDialog_def dest: qfd_wait_length)

lemma ask_length: "ask env button d confirmed rs a = Inr (rest, a') \<Longrightarrow> length rest < length rs"
  by (cases "quickFireDialog (process env) d rs a") (auto simp: ask_def Let_def dest: quickFireDialog_length)

lemma run_action_length: "run_action env now act rs a = Inr (rest, a') \<Longrightarrow> length rest < length rs"
  unfolding run_action_def
  by (auto split: app_action.splits dest: ask_length) (auto elim!: map_sum_Inr dest: quickFireDialog_length)

function app_run :: "frame_env \<Rightarrow> round list \<Rightarrow> app \<Rightarrow> app" where
  "app_run env [] a = a"
| "app_run env (r # rs) a =
     (if app_stopped a \<noteq> None then a
      else let a = process env r a in
        case app_pending a of
          None \<Rightarrow> app_run env rs a
        | Some act \<Rightarrow>
            (case run_action env (rd_mono r) act rs (a\<lparr>app_pending := None\<rparr>) of
               Inl a \<Rightarrow> a
             | Inr (rest, a) \<Rightarrow> app_run env rest a))"
  by pat_completeness auto
termination
  by (relation "measure (\<lambda>(env, rs, a). length rs)") (auto dest!: run_action_length)

declare app_run.simps [simp del]

text \<open>\<^verbatim>\<open>main\<close>: each run of the application ends with or without a hangup signal; the result is whether the binary is executed
  anew at the end, \<open>None\<close> while the loop goes on.\<close>

fun main_loop :: "bool list \<Rightarrow> bool option" where
  "main_loop [] = None"
| "main_loop (restart_requested # runs) = (if \<not> restart_requested then Some restart_requested else main_loop runs)"

end
