(* ===== verification/UiLaws.thy ===== *)
theory UiLaws
  imports UiManager
begin

text \<open>
  What the single widgets promise: the order of a button's reports, that a combo box never reads outside its items, the
  range of a spin box, the length of what is typed, and when a hold-to-fire button fires.
\<close>

section \<open>Buttons\<close>

datatype button_step = BEvent touch_event_data | BUpdate u32 | BShow bool

fun button_do :: "button_step \<Rightarrow> button \<Rightarrow> button_state list \<times> button" where
  "button_do (BEvent e) b = bt_handleEvent e b"
| "button_do (BUpdate now) b = bt_update now b"
| "button_do (BShow v) b = ([], b\<lparr>bt_visible := v\<rparr>)"

fun button_run :: "button_step list \<Rightarrow> button \<Rightarrow> button_state list \<times> button" where
  "button_run [] b = ([], b)"
| "button_run (st # sts) b = (let (ss, b) = button_do st b; (ss', b) = button_run sts b in (ss @ ss', b))"

text \<open>What a listener has been told: whether a hold is on, and whether the toggle is. \<open>None\<close> is a report out of place.\<close>

fun hear :: "button_mode \<Rightarrow> button_state \<Rightarrow> bool \<times> bool \<Rightarrow> (bool \<times> bool) option" where
  "hear mode BS_TRIGGER (held, on) = (if mode = BM_TRIGGER \<or> mode = BM_TRIGGER_HOLD then Some (held, on) else None)"
| "hear mode BS_TOGGLE_ON (held, on) = (if mode = BM_TOGGLE \<and> \<not> on then Some (held, True) else None)"
| "hear mode BS_TOGGLE_OFF (held, on) = (if mode = BM_TOGGLE \<and> on then Some (held, False) else None)"
| "hear mode BS_HOLD_START (held, on) =
     (if (mode = BM_HOLD \<or> mode = BM_TRIGGER_HOLD) \<and> \<not> held then Some (True, on) else None)"
| "hear mode BS_HOLD_END (held, on) = (if held then Some (False, on) else None)"
| "hear mode BS_HOLD_CANCEL (held, on) = (if held then Some (False, on) else None)"
| "hear mode BS_SWIPE_DONE (held, on) = (if mode = BM_HOLD_SWIPE then Some (held, on) else None)"
| "hear mode BS_SWIPE_CANCEL (held, on) = (if mode = BM_HOLD_SWIPE then Some (held, on) else None)"
| "hear mode BS_PRESS (held, on) = None"
| "hear mode BS_RELEASE (held, on) = None"

fun hear_all :: "button_mode \<Rightarrow> button_state list \<Rightarrow> bool \<times> bool \<Rightarrow> (bool \<times> bool) option" where
  "hear_all mode [] h = Some h"
| "hear_all mode (s # ss) h = Option.bind (hear mode s h) (hear_all mode ss)"

lemma hear_all_append: "hear_all mode (ss @ ss') h = Option.bind (hear_all mode ss h) (hear_all mode ss')"
  by (induction ss arbitrary: h) (auto split: Option.bind_splits)

text \<open>The mode never changes, and the reports take the listener from the button's flags to its flags.\<close>

definition told :: "button \<Rightarrow> button_state list \<times> button \<Rightarrow> bool" where
  "told b r \<longleftrightarrow> bt_mode (snd r) = bt_mode b \<and>
     hear_all (bt_mode b) (fst r) (bt_holdActive b, bt_toggleState b) = Some (bt_holdActive (snd r), bt_toggleState (snd r))"

lemma bt_press_told: "told b (bt_press b)"
  by (cases "bt_mode b") (auto simp: told_def bt_press_def Let_def)

lemma bt_hold_told: "told b (bt_hold b)"
  by (auto simp: told_def bt_hold_def holds_mode_def)

lemma bt_lift_told: "s = BS_HOLD_END \<or> s = BS_HOLD_CANCEL \<Longrightarrow> told b (bt_lift s b)"
  by (auto simp: told_def bt_lift_def holds_mode_def Let_def)

lemma bt_event_told: "told b (bt_handleEvent e b)"
  by (auto simp: bt_handleEvent_def bt_press_told bt_hold_told bt_lift_told Let_def split: touch_event.split)
    (auto simp: told_def)

lemma bt_update_told: "told b (bt_update now b)"
  by (auto simp: told_def bt_update_def Let_def)

lemma button_do_told: "told b (button_do st b)"
  by (cases st) (auto simp: bt_event_told bt_update_told, auto simp: told_def)

lemma button_run_told: "told b (button_run sts b)"
proof (induction sts b rule: button_run.induct)
  case (2 st sts b)
  obtain ss b1 where 1: "button_do st b = (ss, b1)" by fastforce
  obtain ss' b2 where 2: "button_run sts b1 = (ss', b2)" by fastforce
  show ?case using button_do_told [of b st] "2.IH" [OF 1 [symmetric] refl] 1 2 by (simp add: told_def hear_all_append)
qed (simp add: told_def)


section \<open>Combo boxes\<close>

datatype combo_step = CEvent touch_event_data | CAdd string | CClear | CSet "string list" int | CSelect int | CShow bool

fun combo_do :: "combo_step \<Rightarrow> combo \<Rightarrow> (int \<times> string) option \<times> combo" where
  "combo_do (CEvent e) c = cb_handleEvent e c"
| "combo_do (CAdd s) c = (None, addItem s c)"
| "combo_do CClear c = (None, clearItems c)"
| "combo_do (CSet items i) c = (None, setItems items i c)"
| "combo_do (CSelect i) c = (None, setSelectedIndex i c)"
| "combo_do (CShow v) c = (None, c\<lparr>cb_visible := v\<rparr>)"

text \<open>Whoever replaces the items gives an index of the new ones.\<close>

fun set_in_range :: "combo_step \<Rightarrow> bool" where
  "set_in_range (CSet items i) \<longleftrightarrow> 0 \<le> i \<and> (i < int (length items) \<or> items = [] \<and> i = 0)"
| "set_in_range _ \<longleftrightarrow> True"

definition combo_wf :: "combo \<Rightarrow> bool" where
  "combo_wf c \<longleftrightarrow> 0 \<le> cb_selectedIndex c \<and> (cb_selectedIndex c < cb_count c \<or> cb_items c = [] \<and> cb_selectedIndex c = 0) \<and>
     0 \<le> cb_scrollOffset c"

lemma cb_count_simps [simp]: "0 \<le> cb_count c" "cb_items c = [] \<Longrightarrow> cb_count c = 0"
  by (simp_all add: cb_count_def)

lemma clampScroll_wf: "combo_wf (clampScroll c) \<longleftrightarrow>
    0 \<le> cb_selectedIndex c \<and> (cb_selectedIndex c < cb_count c \<or> cb_items c = [] \<and> cb_selectedIndex c = 0)"
  by (simp add: combo_wf_def clampScroll_def Let_def cb_count_def)

lemma scroll_by_wf: "combo_wf c \<Longrightarrow> combo_wf (scroll_by d c)"
  by (simp add: scroll_by_def clampScroll_wf) (simp add: combo_wf_def cb_count_def)

lemma hitTestDropdown_range: "hitTestDropdown c tx ty \<ge> 0 \<Longrightarrow> hitTestDropdown c tx ty < cb_count c"
  by (simp add: hitTestDropdown_def Let_def split: if_splits)

lemma cb_press_wf: "combo_wf c \<Longrightarrow> combo_wf (snd (cb_press tx ty c))"
  using hitTestDropdown_range [of c tx ty]
  by (auto simp: cb_press_def Let_def scroll_by_wf clampScroll_wf) (auto simp: combo_wf_def cb_count_def)

lemma cb_move_wf: "combo_wf c \<Longrightarrow> combo_wf (cb_move tx ty c)"
  unfolding cb_move_def Let_def by (auto intro!: scroll_by_wf) (auto simp: combo_wf_def cb_count_def)

lemma cb_event_wf: "combo_wf c \<Longrightarrow> combo_wf (snd (cb_handleEvent e c))"
  by (auto simp: cb_handleEvent_def cb_press_wf cb_move_wf split: touch_event.split) (auto simp: combo_wf_def cb_count_def)

lemma combo_do_wf: "combo_wf c \<Longrightarrow> set_in_range st \<Longrightarrow> combo_wf (snd (combo_do st c))"
  by (cases st) (auto simp: cb_event_wf, auto simp: combo_wf_def cb_count_def addItem_def clearItems_def setItems_def
      setSelectedIndex_def)

definition combo_run :: "combo_step list \<Rightarrow> combo \<Rightarrow> combo" where
  "combo_run sts c = fold (\<lambda>st c. snd (combo_do st c)) sts c"

lemma combo_run_wf: "combo_wf c \<Longrightarrow> list_all set_in_range sts \<Longrightarrow> combo_wf (combo_run sts c)"
  unfolding combo_run_def by (induction sts arbitrary: c) (auto intro: combo_do_wf)

lemma those_map_Some: "(\<And>x. x \<in> set xs \<Longrightarrow> f x \<noteq> None) \<Longrightarrow> those (map f xs) \<noteq> None"
  by (induction xs) (auto split: option.splits)

lemma cb_draw_defined:
  assumes "combo_wf c" shows "cb_draw c \<noteq> None"
proof -
  have item: "0 \<le> i \<Longrightarrow> i < cb_count c \<Longrightarrow> item_at c i \<noteq> None" for i by (simp add: item_at_def)
  have "cb_draw_header c \<noteq> None" using assms item [of "cb_selectedIndex c"] by (auto simp: cb_draw_header_def combo_wf_def Let_def)
  moreover have "cb_draw_rows c w \<noteq> None" for w
    using assms item unfolding cb_draw_rows_def option.map_disc_iff by (intro those_map_Some) (auto simp: combo_wf_def)
  ultimately show ?thesis unfolding cb_draw_def Let_def by auto
qed

text \<open>C39: A combo box that starts with an index of its items, and whose items are replaced with an index of the new ones, never
reads outside them: after any touch events, additions, clearings, selections and changes of visibility its drawing,
open or closed, and its selected value are defined, and the list is never scrolled above its first item.\<close>
theorem combo_never_reads_outside:
  assumes "0 \<le> i" "i < int (length items) \<or> items = [] \<and> i = 0" "list_all set_in_range sts"
  shows "cb_draw (combo_run sts (combo_new x y w h items i font n)) \<noteq> None \<and>
    getSelectedValue (combo_run sts (combo_new x y w h items i font n)) \<noteq> None \<and>
    0 \<le> cb_scrollOffset (combo_run sts (combo_new x y w h items i font n))"
proof -
  let ?c = "combo_run sts (combo_new x y w h items i font n)"
  have wf: "combo_wf ?c" using assms by (intro combo_run_wf) (auto simp: combo_wf_def combo_new_def cb_count_def)
  then have "getSelectedValue ?c \<noteq> None" by (auto simp: getSelectedValue_def item_at_def combo_wf_def)
  then show ?thesis using cb_draw_defined [OF wf] wf by (simp add: combo_wf_def)
qed

lemma combo_never_reads_outside_witness:
  "cb_draw (combo_run [CAdd ''c'', CSelect 2, CSet [''d''] 0, CClear] (combo_new 0 0 200 36 [''a'', ''b''] 1 font_medium 4)) \<noteq> None"
  using combo_never_reads_outside [of 1 "[''a'', ''b'']" "[CAdd ''c'', CSelect 2, CSet [''d''] 0, CClear]" 0 0 200 36 "font_medium" 4]
  by simp

text \<open>Without the condition it does: nothing checks the index the items come with.\<close>

lemma combo_default_index_unchecked:
  "getSelectedValue (combo_new x y w h [''a''] 1 font n) = None"
  "cb_draw (combo_new x y w h [''a''] 1 font n) = None"
  by (simp_all add: getSelectedValue_def combo_new_def item_at_def cb_count_def cb_draw_def cb_draw_header_def Let_def)

section \<open>Spin boxes\<close>

datatype spin_step = SEvent touch_event_data | SText string | SValue rat | SRange rat rat | SShow bool

fun spin_do :: "nat \<Rightarrow> spin_step \<Rightarrow> spin \<times> keyboard \<Rightarrow> spin \<times> keyboard" where
  "spin_do i (SEvent e) (s, k) = snd (sp_handleEvent i e s k)"
| "spin_do i (SText t) (s, k) = (s\<lparr>sp_editBuf := t\<rparr>, k)"
| "spin_do i (SValue v) (s, k) = (sp_setValue v s, k)"
| "spin_do i (SRange mn mx) (s, k) = (sp_setRange mn mx s, k)"
| "spin_do i (SShow v) (s, k) = (s\<lparr>sp_visible := v\<rparr>, k)"

definition whole :: "rat \<Rightarrow> bool" where "whole q \<longleftrightarrow> q = of_int \<lfloor>q\<rfloor>"

fun range_ok :: "spin_type \<Rightarrow> spin_step \<Rightarrow> bool" where
  "range_ok t (SRange mn mx) \<longleftrightarrow> mn \<le> mx \<and> (t = SpinInt \<longrightarrow> whole mn \<and> whole mx)"
| "range_ok t _ \<longleftrightarrow> True"

definition spin_wf :: "spin \<Rightarrow> bool" where
  "spin_wf s \<longleftrightarrow> sp_minVal s \<le> sp_value s \<and> sp_value s \<le> sp_maxVal s \<and>
     (sp_type s = SpinInt \<longrightarrow> whole (sp_minVal s) \<and> whole (sp_maxVal s) \<and> whole (sp_value s))"

lemma std_round_between:
  assumes "of_int m \<le> v" "v \<le> of_int n" shows "of_int m \<le> std_round v" "std_round v \<le> of_int n"
  using assms unfolding std_round_def of_int_le_iff by (auto simp: le_floor_iff floor_le_iff minus_le_iff le_minus_iff) linarith+

lemma whole_std_round [simp]: "whole (std_round v)"
  by (simp add: whole_def std_round_def)

lemma sp_clamp_fields [simp]:
  "sp_minVal (sp_clamp s) = sp_minVal s" "sp_maxVal (sp_clamp s) = sp_maxVal s" "sp_type (sp_clamp s) = sp_type s"
  by (simp_all add: sp_clamp_def Let_def)

lemma sp_clamp_wf:
  assumes "sp_minVal s \<le> sp_maxVal s" "sp_type s = SpinInt \<longrightarrow> whole (sp_minVal s) \<and> whole (sp_maxVal s)"
  shows "spin_wf (sp_clamp s)"
proof -
  define v where "v = (let v = (if sp_value s < sp_minVal s then sp_minVal s else sp_value s) in if v > sp_maxVal s then sp_maxVal s else v)"
  have v: "sp_minVal s \<le> v" "v \<le> sp_maxVal s" using assms(1) by (auto simp: v_def Let_def)
  have "sp_clamp s = s\<lparr>sp_value := (if sp_type s = SpinInt then std_round v else v)\<rparr>" by (simp add: sp_clamp_def v_def Let_def)
  moreover have "sp_type s = SpinInt \<Longrightarrow> sp_minVal s \<le> std_round v \<and> std_round v \<le> sp_maxVal s"
    using std_round_between [of "\<lfloor>sp_minVal s\<rfloor>" v "\<lfloor>sp_maxVal s\<rfloor>"] assms(2) v by (simp add: whole_def)
  ultimately show ?thesis using assms(2) v by (simp add: spin_wf_def)
qed

lemma spin_wf_range: "spin_wf s \<Longrightarrow> sp_minVal s \<le> sp_maxVal s" "spin_wf s \<Longrightarrow> sp_type s = SpinInt \<longrightarrow> whole (sp_minVal s) \<and> whole (sp_maxVal s)"
  by (auto simp: spin_wf_def)

lemma spin_wf_ignores [simp]:
  "spin_wf (s\<lparr>sp_editBuf := t\<rparr>) = spin_wf s" "spin_wf (s\<lparr>sp_editing := b\<rparr>) = spin_wf s"
  "spin_wf (s\<lparr>sp_plusPressed := b\<rparr>) = spin_wf s" "spin_wf (s\<lparr>sp_minusPressed := b\<rparr>) = spin_wf s"
  "spin_wf (s\<lparr>sp_visible := b\<rparr>) = spin_wf s"
  by (simp_all add: spin_wf_def)

lemma sp_changes_wf:
  "spin_wf s \<Longrightarrow> spin_wf (sp_clamp (s\<lparr>sp_value := v\<rparr>))" "spin_wf s \<Longrightarrow> spin_wf (sp_increment s)"
  "spin_wf s \<Longrightarrow> spin_wf (sp_decrement s)" "spin_wf s \<Longrightarrow> spin_wf (sp_setValue v s)"
  by (auto simp: sp_increment_def sp_decrement_def sp_setValue_def intro!: sp_clamp_wf dest: spin_wf_range)

lemma commitEdit_wf: "spin_wf s \<Longrightarrow> spin_wf (fst (snd (commitEdit s k)))"
  by (simp add: commitEdit_def Let_def sp_changes_wf split: option.split)

lemma sp_press_wf: "spin_wf s \<Longrightarrow> spin_wf (fst (snd (sp_press i tx ty s k)))"
  by (simp add: sp_press_def Let_def sp_changes_wf commitEdit_wf)

lemma sp_hold_wf: "spin_wf s \<Longrightarrow> spin_wf (snd (sp_hold tx ty s))"
  by (simp add: sp_hold_def Let_def sp_changes_wf)

lemma sp_event_wf: "spin_wf s \<Longrightarrow> spin_wf (fst (snd (sp_handleEvent i e s k)))"
  by (auto simp: sp_handleEvent_def sp_press_wf sp_hold_wf split: touch_event.split prod.split)
    (metis sp_hold_wf snd_conv)

lemma spin_do_wf: "spin_wf s \<Longrightarrow> range_ok (sp_type s) st \<Longrightarrow> spin_wf (fst (spin_do i st (s, k)))"
  by (cases st) (auto simp: sp_event_wf sp_changes_wf sp_setRange_def intro!: sp_clamp_wf)

lemma spin_do_type: "sp_type (fst (spin_do i st (s, k))) = sp_type s"
  by (cases st) (auto simp: sp_handleEvent_def sp_press_def sp_hold_def commitEdit_def sp_increment_def sp_decrement_def
      sp_setValue_def sp_setRange_def Let_def split: touch_event.split prod.split option.split)

definition spin_run :: "nat \<Rightarrow> spin_step list \<Rightarrow> spin \<times> keyboard \<Rightarrow> spin \<times> keyboard" where
  "spin_run i sts sk = fold (spin_do i) sts sk"

lemma spin_run_wf: "spin_wf s \<Longrightarrow> list_all (range_ok (sp_type s)) sts \<Longrightarrow> spin_wf (fst (spin_run i sts (s, k)))"
proof (induction sts arbitrary: s k)
  case (Cons st sts)
  obtain s' k' where d: "spin_do i st (s, k) = (s', k')" by fastforce
  have "spin_wf s'" "sp_type s' = sp_type s" using spin_do_wf [of s st i k] spin_do_type [of i st s k] Cons.prems d by auto
  then show ?case using Cons d by (simp add: spin_run_def)
qed (simp add: spin_run_def)

text \<open>C40: A spin box stays in its range: whatever is touched, typed, set or shown, its value lies between its bounds, and is whole
for an integer box, provided the bounds are given in order and, for an integer box, are whole themselves.\<close>
theorem spin_value_in_range:
  assumes "mn \<le> mx" "t = SpinInt \<longrightarrow> whole mn \<and> whole mx" "list_all (range_ok t) sts"
  shows "spin_wf (fst (spin_run i sts (spin_new x y w h t mn mx step v buttons font, k)))"
proof (rule spin_run_wf)
  show "spin_wf (spin_new x y w h t mn mx step v buttons font)"
    unfolding spin_new_def using assms by (intro sp_clamp_wf) simp_all
  show "list_all (range_ok (sp_type (spin_new x y w h t mn mx step v buttons font))) sts"
    using assms by (simp add: spin_new_def)
qed

lemma spin_value_in_range_witness:
  "\<forall>k. spin_wf (fst (spin_run 0 [SValue 250, SText ''-3'', SRange 5 10]
     (spin_new 50 320 250 60 SpinInt 0 200 5 60 True font_medium, k)))"
  using spin_value_in_range [of 0 200 SpinInt "[SValue 250, SText ''-3'', SRange 5 10]" 0 50 320 250 60 5 60 True "font_medium"]
  by (simp add: whole_def)

text \<open>Rounding comes after limiting, so an integer box with other bounds leaves them.\<close>

lemma spin_rounds_out_of_range: "sp_value (spin_new x y w h SpinInt 0 (3 / 2) 1 5 buttons font) = 2"
  by (simp add: spin_new_def sp_clamp_def std_round_def Let_def)

section \<open>The keyboard\<close>

text \<open>Every key types one character, except one of the numeric layout that types two.\<close>

definition key_len :: "nat \<Rightarrow> kb_key \<Rightarrow> bool" where
  "key_len n key \<longleftrightarrow> length (k_label key) \<le> n \<and> length (k_shifted key) \<le> n"

lemma typed_len: "key_len n key \<Longrightarrow> length (typed key k) \<le> n"
  by (simp add: typed_def key_len_def)

text \<open>\<open>''00''\<close> types more than it checks for.\<close>

definition kb_wf :: "keyboard \<Rightarrow> bool" where
  "kb_wf k \<longleftrightarrow> kb_keys k = kb_keys (rebuildLayout k) \<and>
     length (kb_internalBuf k) \<le> kb_maxLen k + (if kb_numericMode k then 1 else 0)"

lemma layout_cong:
  assumes "kb_x k = kb_x k'" "kb_y k = kb_y k'" "kb_w k = kb_w k'" "kb_h k = kb_h k'"
  shows "buildQWERTY k = buildQWERTY k'" "buildNumpad k = buildNumpad k'"
proof -
  have key: "kb_key_at k = kb_key_at k'" by (intro ext) (simp only: kb_key_at_def assms)
  have row: "kb_row k = kb_row k'" by (intro ext) (simp only: kb_row_def key assms)
  show "buildQWERTY k = buildQWERTY k'" by (simp only: buildQWERTY_def row key assms)
  show "buildNumpad k = buildNumpad k'" by (simp only: buildNumpad_def assms)
qed

lemma kb_layout_ignores [simp]:
  "buildQWERTY (k\<lparr>kb_internalBuf := t\<rparr>) = buildQWERTY k" "buildNumpad (k\<lparr>kb_internalBuf := t\<rparr>) = buildNumpad k"
  "buildQWERTY (k\<lparr>kb_numericMode := b\<rparr>) = buildQWERTY k" "buildNumpad (k\<lparr>kb_numericMode := b\<rparr>) = buildNumpad k"
  "buildQWERTY (k\<lparr>kb_shiftActive := b\<rparr>) = buildQWERTY k" "buildNumpad (k\<lparr>kb_shiftActive := b\<rparr>) = buildNumpad k"
  "buildQWERTY (k\<lparr>kb_capsLock := b\<rparr>) = buildQWERTY k" "buildNumpad (k\<lparr>kb_capsLock := b\<rparr>) = buildNumpad k"
  "buildQWERTY (k\<lparr>kb_visible := b\<rparr>) = buildQWERTY k" "buildNumpad (k\<lparr>kb_visible := b\<rparr>) = buildNumpad k"
  "buildQWERTY (k\<lparr>kb_onChange := c\<rparr>) = buildQWERTY k" "buildNumpad (k\<lparr>kb_onChange := c\<rparr>) = buildNumpad k"
  "buildQWERTY (k\<lparr>kb_pressedKeyIdx := p\<rparr>) = buildQWERTY k" "buildNumpad (k\<lparr>kb_pressedKeyIdx := p\<rparr>) = buildNumpad k"
  "buildQWERTY (k\<lparr>kb_keys := ks\<rparr>) = buildQWERTY k" "buildNumpad (k\<lparr>kb_keys := ks\<rparr>) = buildNumpad k"
  "buildQWERTY (k\<lparr>kb_maxLen := n\<rparr>) = buildQWERTY k" "buildNumpad (k\<lparr>kb_maxLen := n\<rparr>) = buildNumpad k"
  by (rule layout_cong; simp)+

lemma kb_row_len: "list_all (key_len 1) (kb_row k off r lower upper)"
  by (simp add: kb_row_def kb_key_at_def key_len_def list_all_iff Let_def)

lemma qwerty_types_one: "\<forall>key \<in> set (buildQWERTY k). k_action key = '''' \<longrightarrow> key_len 1 key"
  using kb_row_len [of k] unfolding buildQWERTY_def Let_def set_append list_all_iff
  by (auto simp: kb_key_at_def key_len_def Let_def)

lemma numpad_types_two: "\<forall>key \<in> set (buildNumpad k). key_len 2 key \<and> k_action key \<noteq> ''NUM'' \<and> k_action key \<noteq> ''SPACE''"
  by (simp add: buildNumpad_def numpad_keys_def key_len_def Let_def upt_rec nth_Cons')

lemma keys_of_layout: "kb_wf k \<Longrightarrow> kb_keys k = (if kb_numericMode k then buildNumpad k else buildQWERTY k)"
  by (simp add: kb_wf_def rebuildLayout_def)

lemma kb_hide_wf: "kb_wf k \<Longrightarrow> kb_wf (kb_hide k)"
  by (simp add: kb_wf_def kb_hide_def rebuildLayout_def)

lemma processKey_wf:
  assumes "kb_wf k" "key \<in> set (kb_keys k)" shows "kb_wf (snd (processKey key k))"
proof (cases "k_action key = ''''")
  case True
  have "length (typed key k) \<le> (if kb_numericMode k then 2 else 1)"
    using assms(2) keys_of_layout [OF assms(1)] qwerty_types_one [of k] numpad_types_two [of k] True
    by (auto split: if_splits intro: typed_len)
  then show ?thesis using assms(1) True by (auto simp: processKey_def kb_wf_def rebuildLayout_def Let_def)
next
  case False
  have "kb_numericMode k \<Longrightarrow> k_action key \<noteq> ''NUM'' \<and> k_action key \<noteq> ''SPACE''"
    using assms(2) keys_of_layout [OF assms(1)] numpad_types_two [of k] by auto
  then show ?thesis using assms(1) False
    by (auto simp: processKey_def kb_wf_def kb_hide_def rebuildLayout_def Let_def)
qed

lemma first_key_range: "first_key i tx ty ks = -1 \<or> i \<le> first_key i tx ty ks \<and> first_key i tx ty ks < i + int (length ks)"
  by (induction i tx ty ks rule: first_key.induct) auto

lemma hitTestKey_range: "hitTestKey k tx ty \<ge> 0 \<Longrightarrow> nat (hitTestKey k tx ty) < length (kb_keys k)"
  using first_key_range [of 0 tx ty "kb_keys k"] by (auto simp: hitTestKey_def)

lemma kb_event_wf:
  assumes "kb_wf k" shows "kb_wf (snd (snd (kb_handleEvent e k)))"
proof -
  have p: "kb_wf (k\<lparr>kb_pressedKeyIdx := p\<rparr>)" for p using assms by (simp add: kb_wf_def rebuildLayout_def)
  have "kb_wf (snd (processKey (kb_keys k ! nat (hitTestKey k tx ty)) (k\<lparr>kb_pressedKeyIdx := p\<rparr>)))"
    if "hitTestKey k tx ty \<ge> 0" for p tx ty
    using hitTestKey_range [OF that] by (intro processKey_wf p) simp
  then show ?thesis using assms p by (auto simp: kb_handleEvent_def Let_def split: touch_event.split)
qed

lemma showWithText_wf: "length t \<le> kb_maxLen k \<Longrightarrow> kb_wf (showWithText t numeric k)"
  by (simp add: showWithText_def kb_wf_def rebuildLayout_def)

definition kb_type :: "touch_event_data list \<Rightarrow> keyboard \<Rightarrow> keyboard" where
  "kb_type es k = fold (\<lambda>e k. snd (snd (kb_handleEvent e k))) es k"

lemma kb_type_wf: "kb_wf k \<Longrightarrow> kb_wf (kb_type es k)"
  unfolding kb_type_def by (induction es arbitrary: k) (auto intro: kb_event_wf)

lemma kb_maxLen_kept: "kb_maxLen (kb_type es k) = kb_maxLen k"
proof -
  have "kb_maxLen (snd (snd (kb_handleEvent e k))) = kb_maxLen k" for e k
    by (simp add: kb_handleEvent_def processKey_def kb_hide_def rebuildLayout_def Let_def split: touch_event.split)
  then show ?thesis unfolding kb_type_def by (induction es arbitrary: k) auto
qed

text \<open>What is typed stays within the limit of the widget the keyboard was opened for, on the letter layout exactly and on the
numeric one up to one character more, whatever is touched; and the keys are always those of the layout that shows.\<close>
theorem typed_text_bounded:
  assumes "length t \<le> kb_maxLen k"
  shows "(let k' = kb_type es (showWithText t numeric k) in
    length (kb_internalBuf k') \<le> kb_maxLen k + (if kb_numericMode k' then 1 else 0) \<and> kb_keys k' = kb_keys (rebuildLayout k'))"
proof -
  have "kb_maxLen (showWithText t numeric k) = kb_maxLen k" by (simp add: showWithText_def rebuildLayout_def)
  then show ?thesis
    using kb_type_wf [OF showWithText_wf [OF assms], of es numeric] kb_maxLen_kept [of es "showWithText t numeric k"]
    by (simp add: kb_wf_def Let_def)
qed

lemma typed_text_bounded_witness:
  "\<forall>es. length (kb_internalBuf (kb_type es (showWithText ''60'' True (keyboard_new 0 400 1280 320 font_medium)))) \<le> 65"
proof
  fix es
  let ?k = "keyboard_new 0 400 1280 320 font_medium"
  have "kb_maxLen ?k = 64" by (simp add: keyboard_new_def rebuildLayout_def)
  then show "length (kb_internalBuf (kb_type es (showWithText ''60'' True ?k))) \<le> 65"
    using typed_text_bounded [of "''60''" ?k es True] by (auto simp: Let_def split: if_splits)
qed

text \<open>The extra character is the second zero of the key that types two.\<close>

lemma double_zero_overshoots:
  "length (kb_internalBuf (snd (processKey (buildNumpad k ! 14) (k\<lparr>kb_internalBuf := replicate 15 CHR ''1'', kb_maxLen := 16\<rparr>)))) = 17"
  by (simp add: buildNumpad_def numpad_keys_def processKey_def typed_def Let_def)

end
