(* ===== verification/UiMgrLaws.thy ===== *)
theory UiMgrLaws
  imports UiLaws
begin

text \<open>
  The manager's promises: a dialog that blocks keeps every event from the rest and returns the answer it is given, and what
  the single widgets promise holds of all of them together, the keyboard's text reaching a widget that is there,
  whatever a well-behaved client does in its callbacks.
\<close>

section \<open>The dialog that blocks\<close>

text \<open>The first release over a button decides.\<close>

fun first_answer :: "dialog \<Rightarrow> touch_event_data list \<Rightarrow> (int \<times> touch_event_data list) option" where
  "first_answer d [] = None"
| "first_answer d (e # es) =
     (if te_event e = RELEASE \<and> dg_hitTestBtn d (ev_x e) (ev_y e) \<ge> 0 then Some (dg_hitTestBtn d (ev_x e) (ev_y e), es)
      else first_answer d es)"

definition pressing :: "int \<Rightarrow> dialog \<Rightarrow> dialog" where "pressing p d = d\<lparr>dg_state := Asking, dg_pressedBtn := p\<rparr>"

lemma pressing_buttons: "dg_buildButtons (pressing p d) = dg_buildButtons d"
  by (cases "dg_mode d") (simp_all add: pressing_def dg_buildButtons_def Let_def)

lemma pressing_simps [simp]:
  "dg_visible (pressing p d)" "dg_state (pressing p d) = Asking" "dg_fire d = pressing (-1) d"
  "dg_hitTestBtn (pressing p d) tx ty = dg_hitTestBtn d tx ty"
  "(pressing p d)\<lparr>dg_pressedBtn := q\<rparr> = pressing q d"
  by (simp_all add: dg_visible_def dg_hitTestBtn_def pressing_buttons dg_fire_def) (simp_all add: pressing_def)

lemma dg_event_pressing:
  "dg_handleEvent e (pressing p d) =
     (if te_event e = RELEASE \<and> dg_hitTestBtn d (ev_x e) (ev_y e) \<ge> 0
      then (Some (dg_hitTestBtn d (ev_x e) (ev_y e)), (pressing (-1) d)\<lparr>dg_state := Asked\<rparr>)
      else (None, pressing (case te_event e of PRESS \<Rightarrow> dg_hitTestBtn d (ev_x e) (ev_y e) | RELEASE \<Rightarrow> -1 | _ \<Rightarrow> p) d))"
  by (simp add: dg_handleEvent_def Let_def split: touch_event.split)

lemma first_visible_skip: "\<not> list_ex (\<lambda>(i, d). dg_visible d) ds \<Longrightarrow> first_visible n (ds @ r) = first_visible (n + length ds) r"
  by (induction n ds rule: first_visible.induct) auto

text \<open>The state while the dialog asks: the manager's own but for the dialog at the end of the list.\<close>

definition asking :: "'a manager_scheme \<Rightarrow> dialog \<Rightarrow> int \<Rightarrow> bool \<Rightarrow> 'a manager_scheme" where
  "asking m d p redraw = m\<lparr>ui_dialogs := filter (\<lambda>(j, d). j \<noteq> qfd_id) (ui_dialogs m) @ [(qfd_id, pressing p d)],
     ui_answer := None, ui_needsRedraw := redraw\<rparr>"

definition answered :: "'a manager_scheme \<Rightarrow> int \<Rightarrow> 'a manager_scheme" where
  "answered m r = m\<lparr>ui_dialogs := filter (\<lambda>(j, d). j \<noteq> qfd_id) (ui_dialogs m), ui_answer := Some r, ui_needsRedraw := True\<rparr>"

lemma list_ex_filter: "\<not> list_ex P xs \<Longrightarrow> \<not> list_ex P (filter Q xs)"
  by (auto simp: list_ex_iff)

lemma asking_event:
  assumes "\<not> isAnyDialogOpen m"
  shows "ui_handleEvent atan2f cb e (asking m d p redraw) =
    (if te_event e = RELEASE \<and> dg_hitTestBtn d (ev_x e) (ev_y e) \<ge> 0
     then asking m d (-1) True\<lparr>ui_answer := Some (dg_hitTestBtn d (ev_x e) (ev_y e)),
            ui_dialogs := filter (\<lambda>(j, d). j \<noteq> qfd_id) (ui_dialogs m) @ [(qfd_id, (pressing (-1) d)\<lparr>dg_state := Asked\<rparr>)]\<rparr>
     else asking m d (case te_event e of PRESS \<Rightarrow> dg_hitTestBtn d (ev_x e) (ev_y e) | RELEASE \<Rightarrow> -1 | _ \<Rightarrow> p) True)"
proof -
  let ?ds = "filter (\<lambda>(j, d). j \<noteq> qfd_id) (ui_dialogs m)"
  have "first_visible 0 (?ds @ [(qfd_id, pressing p d)]) = Some (length ?ds)"
    using assms by (simp add: first_visible_skip isAnyDialogOpen_def list_ex_filter)
  then show ?thesis
    unfolding ui_handleEvent_def dialog_event_def asking_def
    by (simp add: dg_event_pressing Let_def)
qed

lemma drop_answered:
  "drop_qfd (asking m d p b\<lparr>ui_answer := Some r, ui_dialogs := filter (\<lambda>(j, d). j \<noteq> qfd_id) (ui_dialogs m) @ [(qfd_id, d')]\<rparr>)
     = answered m r\<lparr>ui_needsRedraw := b\<rparr>"
  by (simp add: drop_qfd_def asking_def answered_def)

lemma asking_redraw [simp]: "asking m d p b\<lparr>ui_needsRedraw := True\<rparr> = asking m d p True" "ui_answer (asking m d p b) = None"
  by (simp_all add: asking_def)

lemma qfd_wait_asking:
  assumes "\<not> isAnyDialogOpen m"
  shows "case first_answer d es of
     None \<Rightarrow> (\<exists>p b. qfd_wait (ui_handleEvent atan2f cb) es (asking m d q redraw) = Inl (asking m d p b))
   | Some (r, rest) \<Rightarrow> map_sum id (\<lambda>(a, rest, m). (a, rest, drop_qfd m)) (qfd_wait (ui_handleEvent atan2f cb) es (asking m d q redraw))
       = Inr (r, rest, answered m r)"
proof (induction es arbitrary: q redraw)
  case Nil
  then show ?case by auto
next
  case (Cons e es)
  show ?case
  proof (cases "te_event e = RELEASE \<and> dg_hitTestBtn d (ev_x e) (ev_y e) \<ge> 0")
    case True
    then show ?thesis
      by (simp add: asking_event [OF assms] drop_answered Let_def) (simp add: answered_def)
  next
    case False
    then have s: "qfd_wait (ui_handleEvent atan2f cb) (e # es) (asking m d q redraw) =
        qfd_wait (ui_handleEvent atan2f cb) es
          (asking m d (case te_event e of PRESS \<Rightarrow> dg_hitTestBtn d (ev_x e) (ev_y e) | RELEASE \<Rightarrow> -1 | _ \<Rightarrow> q) True)"
      by (simp only: qfd_wait.simps Let_def asking_redraw asking_event [OF assms] if_False option.case simp_thms)
    have "first_answer d (e # es) = first_answer d es" using False by (simp only: first_answer.simps if_False simp_thms)
    then show ?thesis using Cons [of _ True] unfolding s by simp
  qed
qed


definition tap_at :: "u16 \<Rightarrow> u16 \<Rightarrow> touch_event \<Rightarrow> touch_event_data" where
  "tap_at x y ev = \<lparr>te_event = ev, te_point = \<lparr>tp_id = 0, tp_x = x, tp_y = y, tp_size = 1, tp_active = True\<rparr>, te_dx = 0, te_dy = 0,
     te_duration_ms = 0\<rparr>"


text \<open>One whose buttons are hidden is never answered.\<close>

lemma hidden_dialog_never_returns: "dg_buttonsHidden d \<Longrightarrow> first_answer d es = None"
  by (induction es) (simp_all add: dg_hitTestBtn_def)

section \<open>All the widgets\<close>

definition edit_ok :: "text_edit \<Rightarrow> bool" where
  "edit_ok d \<longleftrightarrow> 0 \<le> (ed_w d - 16 - charW (ed_font d)) sdiv charW (ed_font d)"

definition shape :: "'a manager_scheme \<Rightarrow> nat \<times> nat \<times> nat \<times> nat \<times> nat \<times> nat" where
  "shape m = (length (ui_buttons m), length (ui_sliders m), length (ui_dials m), length (ui_combos m), length (ui_edits m),
     length (ui_spins m))"

fun target_in :: "kb_target \<Rightarrow> 'a manager_scheme \<Rightarrow> bool" where
  "target_in (ToEdit i) m \<longleftrightarrow> i < length (ui_edits m)"
| "target_in (ToSpin i) m \<longleftrightarrow> i < length (ui_spins m)"

definition target_ok :: "'a manager_scheme \<Rightarrow> bool" where
  "target_ok m \<longleftrightarrow> (\<forall>t. kb_onChange (ui_keyboard m) = Some t \<longrightarrow> target_in t m)"

lemma target_in_shape: "shape m = shape m' \<Longrightarrow> target_in t m = target_in t m'"
  by (cases t) (auto simp: shape_def)

definition ui_wf :: "'a manager_scheme \<Rightarrow> bool" where
  "ui_wf m \<longleftrightarrow> list_all (\<lambda>(i, c). combo_wf c) (ui_combos m) \<and> list_all (\<lambda>(i, d). edit_ok d) (ui_edits m) \<and>
     list_all (\<lambda>(i, s). spin_wf s) (ui_spins m) \<and> target_ok m \<and> \<not> ui_fault m"

lemma list_all_update: "list_all P xs \<Longrightarrow> P x \<Longrightarrow> list_all P (xs[i := x])"
  using set_update_subset_insert [of xs i x] by (auto simp: list_all_iff)

text \<open>The fields the invariant does not look at.\<close>

lemma target_in_ignores [simp]:
  "target_in t (m\<lparr>ui_needsRedraw := b\<rparr>) = target_in t m" "target_in t (m\<lparr>ui_answer := r\<rparr>) = target_in t m"
  "target_in t (m\<lparr>ui_dialogs := ds\<rparr>) = target_in t m" "target_in t (m\<lparr>ui_buttons := bs\<rparr>) = target_in t m"
  "target_in t (m\<lparr>ui_sliders := ss\<rparr>) = target_in t m" "target_in t (m\<lparr>ui_dials := qs\<rparr>) = target_in t m"
  "target_in t (m\<lparr>ui_combos := cs\<rparr>) = target_in t m" "target_in t (m\<lparr>ui_keyboard := k\<rparr>) = target_in t m"
  "target_in t (m\<lparr>ui_edits := (ui_edits m)[i := d]\<rparr>) = target_in t m"
  "target_in t (m\<lparr>ui_spins := (ui_spins m)[i := sp]\<rparr>) = target_in t m"
  by (cases t; simp)+

lemma ui_wf_ignores [simp]:
  "ui_wf (m\<lparr>ui_needsRedraw := b\<rparr>) = ui_wf m" "ui_wf (m\<lparr>ui_answer := r\<rparr>) = ui_wf m" "ui_wf (m\<lparr>ui_dialogs := ds\<rparr>) = ui_wf m"
  "ui_wf (m\<lparr>ui_buttons := bs\<rparr>) = ui_wf m" "ui_wf (m\<lparr>ui_sliders := ss\<rparr>) = ui_wf m" "ui_wf (m\<lparr>ui_dials := qs\<rparr>) = ui_wf m"
  by (simp_all add: ui_wf_def target_ok_def)

lemma shape_ignores [simp]:
  "shape (m\<lparr>ui_needsRedraw := b\<rparr>) = shape m" "shape (m\<lparr>ui_answer := r\<rparr>) = shape m" "shape (m\<lparr>ui_dialogs := ds\<rparr>) = shape m"
  "shape (m\<lparr>ui_keyboard := k\<rparr>) = shape m" "shape (m\<lparr>ui_fault := f\<rparr>) = shape m"
  by (simp_all add: shape_def)

lemma shape_update [simp]:
  "shape (m\<lparr>ui_buttons := (ui_buttons m)[i := b]\<rparr>) = shape m" "shape (m\<lparr>ui_sliders := (ui_sliders m)[i := s]\<rparr>) = shape m"
  "shape (m\<lparr>ui_dials := (ui_dials m)[i := q]\<rparr>) = shape m" "shape (m\<lparr>ui_combos := (ui_combos m)[i := c]\<rparr>) = shape m"
  "shape (m\<lparr>ui_edits := (ui_edits m)[i := d]\<rparr>) = shape m" "shape (m\<lparr>ui_spins := (ui_spins m)[i := sp]\<rparr>) = shape m"
  "shape (m\<lparr>ui_edits := (ui_edits m)[i := d], ui_keyboard := k\<rparr>) = shape m"
  "shape (m\<lparr>ui_spins := (ui_spins m)[i := sp], ui_keyboard := k\<rparr>) = shape m"
  by (simp_all add: shape_def)

text \<open>What an operation keeps of a manager.\<close>

definition keeps :: "'a manager_scheme \<Rightarrow> 'a manager_scheme \<Rightarrow> bool" where
  "keeps m m' \<longleftrightarrow> (ui_wf m \<longrightarrow> ui_wf m') \<and> shape m' = shape m"

lemma keeps_refl [simp]: "keeps m m" and keeps_trans: "keeps m m1 \<Longrightarrow> keeps m1 m2 \<Longrightarrow> keeps m m2"
  by (auto simp: keeps_def)

lemma keeps_redraw [simp]: "keeps m (m'\<lparr>ui_needsRedraw := b\<rparr>) = keeps m m'"
  by (simp add: keeps_def)

lemma keeps_fold: "(\<And>x m. x \<in> set xs \<Longrightarrow> keeps m (f x m)) \<Longrightarrow> keeps m (fold f xs m)"
  by (induction xs arbitrary: m) (auto intro: keeps_trans)

lemma keeps_updates [simp]:
  "keeps m (m\<lparr>ui_buttons := (ui_buttons m)[i := b]\<rparr>)" "keeps m (m\<lparr>ui_sliders := (ui_sliders m)[i := s]\<rparr>)"
  "keeps m (m\<lparr>ui_dials := (ui_dials m)[i := q]\<rparr>)" "keeps m (m\<lparr>ui_dialogs := ds\<rparr>)"
  "keeps m (m\<lparr>ui_dialogs := ds, ui_answer := r\<rparr>)"
  by (simp_all add: keeps_def)

text \<open>Steps over a kind, whose number \<open>len\<close> is part of the shape.\<close>

lemma keeps_each:
  assumes "keeps m (snd cm)" "\<And>i m. i < len m \<Longrightarrow> keeps m (snd (step i m))" "\<And>m m'. shape m = shape m' \<Longrightarrow> len m = len m'"
    "n = len m"
  shows "keeps m (snd (each step n cm))"
proof -
  let ?g = "\<lambda>i (consumed, m). let (c, m) = step i m in (consumed \<or> c, m)"
  have "keeps m (snd cm) \<Longrightarrow> \<forall>i \<in> set is. i < n \<Longrightarrow> keeps m (snd (fold ?g is cm))" for cm "is"
  proof (induction "is" arbitrary: cm)
    case (Cons i "is")
    have "len (snd cm) = len m" by (rule assms(3)) (use Cons.prems(1) in \<open>simp add: keeps_def\<close>)
    then have "keeps (snd cm) (snd (step i (snd cm)))" using Cons.prems assms(4) by (intro assms(2)) simp
    then have "keeps m (snd (?g i cm))" using Cons.prems(1) by (auto simp: case_prod_beta Let_def intro: keeps_trans)
    then show ?case using Cons.IH [of "?g i cm"] Cons.prems by simp
  qed simp
  then show ?thesis unfolding each_def using assms(1) by simp
qed

lemma keeps_each_buttons:
  assumes "keeps m (snd cm)" "\<And>i m. i < length (ui_buttons m) \<Longrightarrow> keeps m (snd (step i m))"
  shows "keeps m (snd (each step (length (ui_buttons m)) cm))"
  by (rule keeps_each [where len = "\<lambda>m. length (ui_buttons m)", OF assms]) (simp_all add: shape_def)

lemma keeps_each_sliders:
  assumes "keeps m (snd cm)" "\<And>i m. i < length (ui_sliders m) \<Longrightarrow> keeps m (snd (step i m))"
  shows "keeps m (snd (each step (length (ui_sliders m)) cm))"
  by (rule keeps_each [where len = "\<lambda>m. length (ui_sliders m)", OF assms]) (simp_all add: shape_def)

lemma keeps_each_dials:
  assumes "keeps m (snd cm)" "\<And>i m. i < length (ui_dials m) \<Longrightarrow> keeps m (snd (step i m))"
  shows "keeps m (snd (each step (length (ui_dials m)) cm))"
  by (rule keeps_each [where len = "\<lambda>m. length (ui_dials m)", OF assms]) (simp_all add: shape_def)

lemma keeps_each_combos:
  assumes "keeps m (snd cm)" "\<And>i m. i < length (ui_combos m) \<Longrightarrow> keeps m (snd (step i m))"
  shows "keeps m (snd (each step (length (ui_combos m)) cm))"
  by (rule keeps_each [where len = "\<lambda>m. length (ui_combos m)", OF assms]) (simp_all add: shape_def)

lemma keeps_each_edits:
  assumes "keeps m (snd cm)" "\<And>i m. i < length (ui_edits m) \<Longrightarrow> keeps m (snd (step i m))"
  shows "keeps m (snd (each step (length (ui_edits m)) cm))"
  by (rule keeps_each [where len = "\<lambda>m. length (ui_edits m)", OF assms]) (simp_all add: shape_def)

lemma keeps_each_spins:
  assumes "keeps m (snd cm)" "\<And>i m. i < length (ui_spins m) \<Longrightarrow> keeps m (snd (step i m))"
  shows "keeps m (snd (each step (length (ui_spins m)) cm))"
  by (rule keeps_each [where len = "\<lambda>m. length (ui_spins m)", OF assms]) (simp_all add: shape_def)

lemma ed_event_fixed:
  "ed_w (fst (snd (ed_handleEvent i e d k))) = ed_w d" "ed_font (fst (snd (ed_handleEvent i e d k))) = ed_font d"
  by (auto simp: ed_handleEvent_def ed_focus_def ed_unfocus_def)

lemma ed_event_target: "kb_onChange (snd (snd (ed_handleEvent i e d k))) \<in> {kb_onChange k, Some (ToEdit i), None}"
  by (auto simp: ed_handleEvent_def ed_focus_def ed_unfocus_def kb_hide_def showWithText_def rebuildLayout_def)

lemma sp_event_target: "kb_onChange (snd (snd (sp_handleEvent i e s k))) \<in> {kb_onChange k, Some (ToSpin i), None}"
  by (auto simp: sp_handleEvent_def sp_press_def commitEdit_def kb_hide_def showWithText_def rebuildLayout_def Let_def
      split: touch_event.split prod.split)

lemma kb_event_target:
  "kb_onChange (snd (snd (kb_handleEvent e k))) \<in> {kb_onChange k, None}"
  "fst (snd (kb_handleEvent e k)) = Some (t, s) \<Longrightarrow> kb_onChange k = Some t"
  by (auto simp: kb_handleEvent_def processKey_def kb_hide_def rebuildLayout_def fireChange_def Let_def
      split: touch_event.splits if_splits)

locale ui_client =
  fixes cb :: "ui_out \<Rightarrow> 'a manager_scheme \<Rightarrow> 'a manager_scheme"
  assumes cb_keeps: "keeps m (cb out m)"
begin

lemma report_keeps: "keeps m0 m \<Longrightarrow> keeps m0 (report cb out v m)"
  by (auto simp: report_def intro: keeps_trans cb_keeps split: option.split)

lemma fold_cb_keeps: "keeps m0 m \<Longrightarrow> keeps m0 (fold (\<lambda>x. cb (out x)) xs m)"
  using keeps_fold [of xs "\<lambda>x. cb (out x)" m] by (auto intro: keeps_trans cb_keeps)

lemma button_keeps: "keeps m (snd (button_event cb e i m))"
  unfolding button_event_def Let_def by (auto split: prod.split intro!: fold_cb_keeps)

lemma slider_keeps: "keeps m (snd (slider_event cb e i m))"
  unfolding slider_event_def Let_def by (auto split: prod.split intro!: report_keeps)

lemma dial_keeps: "keeps m (snd (dial_event atan2f cb e i m))"
  unfolding dial_event_def Let_def by (auto split: prod.split intro!: report_keeps)

lemma combo_keeps:
  assumes "i < length (ui_combos m)" shows "keeps m (snd (combo_event cb e i m))"
proof -
  obtain j c where ic: "ui_combos m ! i = (j, c)" by fastforce
  obtain v c' where h: "cb_handleEvent e c = (v, c')" by fastforce
  have "ui_wf m \<Longrightarrow> combo_wf c'"
    using assms ic cb_event_wf [of c e] h by (auto simp: ui_wf_def list_all_length)
  then have "keeps m (m\<lparr>ui_combos := (ui_combos m)[i := (j, c')]\<rparr>)"
    by (auto simp: keeps_def ui_wf_def target_ok_def intro: list_all_update)
  then show ?thesis by (simp add: combo_event_def ic h report_keeps)
qed

lemma edit_keeps:
  assumes "i < length (ui_edits m)" shows "keeps m (snd (edit_event cb e i m))"
proof -
  obtain j d where id: "ui_edits m ! i = (j, d)" by fastforce
  obtain v d' k where h: "ed_handleEvent i e d (ui_keyboard m) = (v, d', k)" by (metis surj_pair)
  have "ui_wf m \<Longrightarrow> edit_ok d'"
    using assms id ed_event_fixed [of i e d "ui_keyboard m"] h by (auto simp: ui_wf_def list_all_length edit_ok_def)
  moreover have "target_ok m \<Longrightarrow> target_ok (m\<lparr>ui_edits := (ui_edits m)[i := (j, d')], ui_keyboard := k\<rparr>)"
    using ed_event_target [of i e d "ui_keyboard m"] h assms by (auto simp: target_ok_def)
  ultimately have "keeps m (m\<lparr>ui_edits := (ui_edits m)[i := (j, d')], ui_keyboard := k\<rparr>)"
    by (auto simp: keeps_def ui_wf_def intro: list_all_update)
  then show ?thesis by (simp add: edit_event_def id h report_keeps)
qed

lemma spin_keeps:
  assumes "i < length (ui_spins m)" shows "keeps m (snd (spin_event cb e i m))"
proof -
  obtain j s where sp: "ui_spins m ! i = (j, s)" by fastforce
  obtain vs s' k where h: "sp_handleEvent i e s (ui_keyboard m) = (vs, s', k)" by (metis surj_pair)
  have "ui_wf m \<Longrightarrow> spin_wf s'"
    using assms sp sp_event_wf [of s i e "ui_keyboard m"] h by (auto simp: ui_wf_def list_all_length)
  moreover have "target_ok m \<Longrightarrow> target_ok (m\<lparr>ui_spins := (ui_spins m)[i := (j, s')], ui_keyboard := k\<rparr>)"
    using sp_event_target [of i e s "ui_keyboard m"] h assms by (auto simp: target_ok_def)
  ultimately have "keeps m (m\<lparr>ui_spins := (ui_spins m)[i := (j, s')], ui_keyboard := k\<rparr>)"
    by (auto simp: keeps_def ui_wf_def intro: list_all_update)
  then show ?thesis by (simp add: spin_event_def sp h fold_cb_keeps)
qed

lemma widgets_keep: "keeps m (snd (widgets_event atan2f cb e m))"
proof -
  define cm1 where "cm1 = each (button_event cb e) (length (ui_buttons m)) (False, m)"
  define cm2 where "cm2 = each (slider_event cb e) (length (ui_sliders m)) cm1"
  define cm3 where "cm3 = each (dial_event atan2f cb e) (length (ui_dials m)) cm2"
  define cm4 where "cm4 = each (combo_event cb e) (length (ui_combos m)) cm3"
  define cm5 where "cm5 = each (edit_event cb e) (length (ui_edits m)) cm4"
  have "keeps m (snd cm1)" unfolding cm1_def by (rule keeps_each_buttons) (simp, rule button_keeps)
  then have "keeps m (snd cm2)" unfolding cm2_def by (rule keeps_each_sliders) (rule slider_keeps)
  then have "keeps m (snd cm3)" unfolding cm3_def by (rule keeps_each_dials) (rule dial_keeps)
  then have "keeps m (snd cm4)" unfolding cm4_def by (rule keeps_each_combos) (rule combo_keeps)
  then have "keeps m (snd cm5)" unfolding cm5_def by (rule keeps_each_edits) (rule edit_keeps)
  then have "keeps m (snd (each (spin_event cb e) (length (ui_spins m)) cm5))" by (rule keeps_each_spins) (rule spin_keeps)
  then show ?thesis by (simp only: widgets_event_def Let_def flip: cm1_def cm2_def cm3_def cm4_def cm5_def)
qed

lemma deliver_keeps:
  assumes "target_ok m \<Longrightarrow> \<forall>t s. change = Some (t, s) \<longrightarrow> target_in t m"
  shows "keeps m (deliver_text cb change m)"
proof (cases change)
  case None
  then show ?thesis by (simp add: deliver_text_def)
next
  case (Some c)
  obtain target t where c: "c = (target, t)" by fastforce
  show ?thesis
  proof (cases target)
    case (ToEdit i)
    obtain j d where id: "ui_edits m ! i = (j, d)" by fastforce
    have "keeps m (m\<lparr>ui_edits := (ui_edits m)[i := (j, d\<lparr>ed_text := t\<rparr>)]\<rparr>)" if "i < length (ui_edits m)"
      using that id by (auto simp: keeps_def ui_wf_def target_ok_def list_all_length nth_list_update edit_ok_def split: option.split kb_target.split)
    then show ?thesis using assms ToEdit Some c id
      by (auto simp: deliver_text_def intro: keeps_trans [OF _ cb_keeps]) (auto simp: keeps_def ui_wf_def)
  next
    case (ToSpin i)
    obtain j s where sp: "ui_spins m ! i = (j, s)" by fastforce
    have "keeps m (m\<lparr>ui_spins := (ui_spins m)[i := (j, s\<lparr>sp_editBuf := t\<rparr>)]\<rparr>)" if "i < length (ui_spins m)"
      using that sp by (auto simp: keeps_def ui_wf_def target_ok_def list_all_length nth_list_update split: option.split kb_target.split)
    then show ?thesis using assms ToSpin Some c sp by (auto simp: deliver_text_def) (auto simp: keeps_def ui_wf_def)
  qed
qed

lemma dialog_keeps: "keeps m (dialog_event cb e i m)"
  unfolding dialog_event_def Let_def
  by (auto split: prod.split option.split intro!: keeps_trans [OF _ cb_keeps])

theorem event_keeps: "keeps m (ui_handleEvent atan2f cb e m)"
proof -
  obtain consumed change k where h: "kb_handleEvent e (ui_keyboard m) = (consumed, change, k)" by (metis surj_pair)
  let ?m = "m\<lparr>ui_keyboard := k\<rparr>"
  have t: "target_ok m \<Longrightarrow> target_ok ?m" using kb_event_target(1) [of e "ui_keyboard m"] h by (auto simp: target_ok_def)
  then have k: "keeps m ?m" by (auto simp: keeps_def ui_wf_def)
  have "target_ok m \<Longrightarrow> \<forall>t s. change = Some (t, s) \<longrightarrow> target_in t ?m"
    using kb_event_target(2) [of e "ui_keyboard m"] h target_in_shape [of ?m m] by (auto simp: target_ok_def)
  then have "keeps m (deliver_text cb change ?m)" if "target_ok m"
    using keeps_trans [OF k deliver_keeps [of ?m change]] that by simp
  moreover have "keeps m (deliver_text cb change ?m)" if "\<not> target_ok m"
  proof -
    have "shape (deliver_text cb change ?m) = shape m"
      using cb_keeps by (auto simp: deliver_text_def keeps_def shape_def split: option.split kb_target.split prod.split)
    then show ?thesis using that by (simp add: keeps_def ui_wf_def)
  qed
  ultimately have d: "keeps m (deliver_text cb change ?m)" by blast
  obtain c m' where w: "widgets_event atan2f cb e m = (c, m')" by fastforce
  have "keeps m m'" using widgets_keep [of m atan2f e] w by simp
  then show ?thesis
    unfolding ui_handleEvent_def h Let_def w prod.case using d dialog_keeps by (auto split: option.split)
qed

theorem update_keeps: "keeps m (ui_update cb now m)"
  unfolding ui_update_def Let_def
  by (rule keeps_fold) (auto split: prod.split intro!: fold_cb_keeps)

end

text \<open>A client that only listens.\<close>

interpretation listener: ui_client "\<lambda>out m. m"
  by unfold_locales simp

lemma ed_draw_ok:
  assumes "edit_ok d" shows "\<exists>cs d'. ed_draw d = Some (cs, d') \<and> edit_ok d'"
proof -
  have "ed_display d \<noteq> None" using assms by (auto simp: ed_display_def edit_ok_def Let_def)
  then obtain t where "ed_display d = Some t" by auto
  moreover have "edit_ok (d\<lparr>ed_blinkCounter := n\<rparr>)" for n using assms by (simp add: edit_ok_def)
  ultimately show ?thesis using assms unfolding ed_draw_def Let_def by simp
qed

lemma draw_edits_ok:
  "list_all (\<lambda>(i, d). edit_ok d) es \<Longrightarrow>
    \<exists>cs es'. draw_edits es = Some (cs, es') \<and> list_all (\<lambda>(i, d). edit_ok d) es' \<and> length es' = length es"
proof (induction es)
  case (Cons e es)
  obtain i d where e: "e = (i, d)" by fastforce
  obtain c d' where d: "ed_draw d = Some (c, d')" "edit_ok d'" using ed_draw_ok Cons.prems e by fastforce
  obtain cs es' where es: "draw_edits es = Some (cs, es')" "list_all (\<lambda>(i, d). edit_ok d) es'" "length es' = length es"
    using Cons by auto
  then obtain ds where ds: "those (map (\<lambda>(i, d). ed_draw d) es) = Some ds" "cs = concat (map fst ds)" "es' = zip (map fst es) (map snd ds)"
    by (auto simp: draw_edits_def)
  show ?case using e d es ds by (simp add: draw_edits_def)
qed (simp add: draw_edits_def)

text \<open>Nothing the drawing reads is missing, and the drawing keeps all this.\<close>

lemma ui_draw_keeps:
  assumes "ui_wf m" shows "\<exists>cs m'. ui_draw cosf sinf m = Some (cs, m') \<and> keeps m m' \<and> ui_wf m'"
proof -
  have "those (map (\<lambda>(i, c). cb_draw c) (ui_combos m)) \<noteq> None"
    using assms cb_draw_defined by (intro those_map_Some) (auto simp: ui_wf_def list_all_iff)
  then obtain combos where c: "those (map (\<lambda>(i, c). cb_draw c) (ui_combos m)) = Some combos" by auto
  obtain cs es' where e: "draw_edits (ui_edits m) = Some (cs, es')" "list_all (\<lambda>(i, d). edit_ok d) es'"
    "length es' = length (ui_edits m)" using assms draw_edits_ok [of "ui_edits m"] by (auto simp: ui_wf_def)
  have "ui_wf (m\<lparr>ui_needsRedraw := False, ui_edits := es'\<rparr>)" using assms e(2,3) target_in_shape [of m "m\<lparr>ui_needsRedraw := False, ui_edits := es'\<rparr>"]
    by (auto simp: ui_wf_def target_ok_def shape_def)
  moreover have "shape (m\<lparr>ui_needsRedraw := False, ui_edits := es'\<rparr>) = shape m" using e(3) by (simp add: shape_def)
  ultimately show ?thesis by (simp add: ui_draw_def c e keeps_def)
qed

end
