(* ===== verification/AppLaws.thy ===== *)
theory AppLaws
  imports AppFrame UiMgrLaws
begin

text \<open>
  The application's promises: its callbacks are a well-behaved client of the manager, so that no turn of the frame loop ever
  reads a widget that is not there; what a video tile writes, and that one of another size than the screen's grid can
  write outside the frame; which widgets a view shows; that the viewer gets the frame that is on the panel; and that a
  touch on the viewer is a touch on the panel.
\<close>

section \<open>Changes of widgets\<close>

lemma length_change_in [simp]: "length (change_in i f v) = length v"
  by (induction i f v rule: change_in.induct) auto

lemma map_of_change_in: "map_of (change_in i f v) j = (if i = j then map_option f (map_of v i) else map_of v j)"
  by (induction i f v rule: change_in.induct) auto

lemma list_all_change_in:
  assumes "\<And>w. P w \<Longrightarrow> P (f w)" "list_all (\<lambda>(i, w). P w) v" shows "list_all (\<lambda>(i, w). P w) (change_in i f v)"
  using assms(2)
proof (induction v)
  case (Cons e v)
  then show ?case using assms(1) by (cases e) auto
qed simp

lemma edit_ok_visible [simp]: "edit_ok (ed_visible_update f d) = edit_ok d"
  by (simp add: edit_ok_def)

lemma combo_wf_visible [simp]: "combo_wf (cb_visible_update f c) = combo_wf c"
  by (simp add: combo_wf_def cb_count_def)

lemma spin_wf_visible [simp]: "spin_wf (sp_visible_update f s) = spin_wf s"
  by (simp add: spin_wf_def)

lemma keepsI:
  assumes "list_all (\<lambda>(i, c). combo_wf c) (ui_combos m) \<Longrightarrow> list_all (\<lambda>(i, c). combo_wf c) (ui_combos m')"
    "list_all (\<lambda>(i, d). edit_ok d) (ui_edits m) \<Longrightarrow> list_all (\<lambda>(i, d). edit_ok d) (ui_edits m')"
    "list_all (\<lambda>(i, s). spin_wf s) (ui_spins m) \<Longrightarrow> list_all (\<lambda>(i, s). spin_wf s) (ui_spins m')"
    "ui_keyboard m' = ui_keyboard m" "ui_fault m' = ui_fault m" "shape m' = shape m"
  shows "keeps m m'"
  using assms target_in_shape [OF assms(6)] by (simp add: keeps_def ui_wf_def target_ok_def)

lemma keeps_if: "keeps m x \<Longrightarrow> keeps m y \<Longrightarrow> keeps m (if P then x else y)"
  by simp

lemma keeps_kinds [simp]:
  "keeps m (m\<lparr>ui_buttons := change_in i fb (ui_buttons m)\<rparr>)" "keeps m (m\<lparr>ui_sliders := change_in i fs (ui_sliders m)\<rparr>)"
  "keeps m (m\<lparr>ui_dials := change_in i fd (ui_dials m)\<rparr>)"
  "keeps m (m\<lparr>ui_combos := change_in i (cb_visible_update fc) (ui_combos m)\<rparr>)"
  "keeps m (m\<lparr>ui_edits := change_in i (ed_visible_update fe) (ui_edits m)\<rparr>)"
  "keeps m (m\<lparr>ui_spins := change_in i (sp_visible_update fp) (ui_spins m)\<rparr>)"
  by (rule keepsI; simp add: shape_def list_all_change_in)+

lemma keeps_setVisible: "keeps m (ui_setVisible i v m)"
proof -
  have r: "keeps m (m\<lparr>ui_needsRedraw := True\<rparr>)" by simp
  note u = keeps_kinds [of "m\<lparr>ui_needsRedraw := True\<rparr>", simplified]
  show ?thesis unfolding ui_setVisible_def Let_def
    by (intro keeps_if keeps_refl) (rule u [THEN keeps_trans [OF r]])+
qed

lemma keeps_show_views: "keeps m (show_views view m)"
proof -
  have b: "keeps m (fold (\<lambda>(i, v). toggle_button i (view = v)) xs m)" for xs and m :: "'a manager_scheme"
    by (rule keeps_fold) (auto simp: toggle_button_def)
  have s: "keeps m (fold (\<lambda>i. show_button i (view = w)) xs m)" for xs w and m :: "'a manager_scheme"
    by (rule keeps_fold) (auto simp: show_button_def)
  have v: "keeps m (fold (\<lambda>i. ui_setVisible i w) xs m)" for xs w and m :: "'a manager_scheme"
    by (rule keeps_fold) (rule keeps_setVisible)
  have sp: "keeps m (m\<lparr>ui_spins := change_in i (sp_visible_update f) (change_in j (sp_visible_update g) (ui_spins m))\<rparr>)"
    for i f j g and m :: "'a manager_scheme"
    by (rule keepsI) (simp_all add: shape_def list_all_change_in)
  show ?thesis unfolding show_views_def Let_def
    by (rule keeps_trans [OF _ sp], rule keeps_trans [OF _ keeps_kinds(4)], rule keeps_trans [OF _ v], rule keeps_trans [OF _ s], rule b)
qed

section \<open>The application as a client\<close>

lemma app_fields_keep [simp]:
  fixes a :: app
  shows "keeps m (a\<lparr>app_pending := p\<rparr>) = keeps m a" "keeps m (a\<lparr>app_show_data_in := b\<rparr>) = keeps m a"
    "keeps m (a\<lparr>app_show_about := b\<rparr>) = keeps m a"
proof -
  have t: "target_in t (a\<lparr>app_pending := p\<rparr>) = target_in t a" "target_in t (a\<lparr>app_show_data_in := b\<rparr>) = target_in t a"
    "target_in t (a\<lparr>app_show_about := b\<rparr>) = target_in t a" for t by (cases t; simp)+
  show "keeps m (a\<lparr>app_pending := p\<rparr>) = keeps m a" "keeps m (a\<lparr>app_show_data_in := b\<rparr>) = keeps m a"
    "keeps m (a\<lparr>app_show_about := b\<rparr>) = keeps m a"
    by (simp_all add: keeps_def ui_wf_def target_ok_def t shape_def)
qed

lemma setView_keeps: "keeps a (setView view a)"
  unfolding setView_def by (rule keeps_trans [OF _ keeps_show_views]) simp

lemma app_cb_cases:
  assumes "P a" "\<And>p. P (a\<lparr>app_pending := p\<rparr>)" "\<And>v. P (setView v a)" shows "P (app_cb out a)"
proof -
  have i: "P x \<Longrightarrow> P y \<Longrightarrow> P (if b then x else y)" for b x y by simp
  show ?thesis unfolding app_cb_def by (cases out) (simp_all only: ui_out.case assms i)
qed

lemma app_cb_keeps: "keeps a (app_cb out a)"
  by (rule app_cb_cases [where P = "keeps a"]) (simp_all add: setView_keeps)

interpretation app_ui: ui_client app_cb
  by unfold_locales (rule app_cb_keeps)

section \<open>What the manager leaves alone\<close>

text \<open>A property of the state the manager's own fields have no part in.\<close>

locale ui_apart =
  fixes P :: "'a manager_scheme \<Rightarrow> bool"
  assumes apart: "P m \<Longrightarrow> P (m\<lparr>ui_buttons := bs\<rparr>)" "P m \<Longrightarrow> P (m\<lparr>ui_sliders := ss\<rparr>)" "P m \<Longrightarrow> P (m\<lparr>ui_dials := qs\<rparr>)"
    "P m \<Longrightarrow> P (m\<lparr>ui_combos := cs\<rparr>)" "P m \<Longrightarrow> P (m\<lparr>ui_edits := es\<rparr>)" "P m \<Longrightarrow> P (m\<lparr>ui_spins := sps\<rparr>)"
    "P m \<Longrightarrow> P (m\<lparr>ui_keyboard := k\<rparr>)" "P m \<Longrightarrow> P (m\<lparr>ui_dialogs := ds\<rparr>)" "P m \<Longrightarrow> P (m\<lparr>ui_needsRedraw := r\<rparr>)"
    "P m \<Longrightarrow> P (m\<lparr>ui_answer := an\<rparr>)" "P m \<Longrightarrow> P (m\<lparr>ui_fault := f\<rparr>)"
begin

lemma apart_fold: "P m \<Longrightarrow> (\<And>x m. P m \<Longrightarrow> P (f x m)) \<Longrightarrow> P (fold f xs m)"
  by (induction xs arbitrary: m) auto

lemma apart_add:
  "P m \<Longrightarrow> P (addButton i b m)" "P m \<Longrightarrow> P (addSlider i s m)" "P m \<Longrightarrow> P (addDial i q m)" "P m \<Longrightarrow> P (addComboBox i c m)"
  "P m \<Longrightarrow> P (addTextEdit i d m)" "P m \<Longrightarrow> P (addSpinBox i sp m)" "P m \<Longrightarrow> P (addDialog i dg m)"
  by (simp_all add: apart addButton_def addSlider_def addDial_def addComboBox_def addTextEdit_def addSpinBox_def addDialog_def)

lemma apart_setVisible: "P m \<Longrightarrow> P (ui_setVisible i v m)"
  by (simp add: ui_setVisible_def Let_def apart)

lemma apart_buttons:
  "P m \<Longrightarrow> P (push_btn i x y w h l mode t m)" "P m \<Longrightarrow> P (show_button i v m)" "P m \<Longrightarrow> P (toggle_button i v m)"
  "P m \<Longrightarrow> P (unpress_button i m)"
  by (simp_all add: apart apart_add push_btn_def show_button_def toggle_button_def unpress_button_def)

lemma apart_init: "P m \<Longrightarrow> P (initSysUI m)" "P m \<Longrightarrow> P (initSidebarBTNs m)" "P m \<Longrightarrow> P (initDemoUI m)"
  unfolding initSysUI_def initSidebarBTNs_def initDemoUI_def Let_def
  by (intro apart_fold apart_buttons apart_add apart_setVisible; assumption)+

lemma apart_views: "P m \<Longrightarrow> P (show_views view m)"
proof -
  assume m: "P m"
  have "P (fold (\<lambda>(i, v). toggle_button i (view = v)) xs m)" for xs by (rule apart_fold [OF m]) (auto intro: apart_buttons)
  then show "P (show_views view m)" unfolding show_views_def Let_def
    using m by (intro apart(6) apart(4) apart_fold) (auto intro: apart_buttons apart_setVisible)
qed

lemma apart_qfd: "P m \<Longrightarrow> P (drop_qfd m)" "P m \<Longrightarrow> P (open_qfd d m)"
  by (simp_all add: drop_qfd_def open_qfd_def apart Let_def)

lemma apart_draw: "P m \<Longrightarrow> ui_draw cosf sinf m = Some (cs, m') \<Longrightarrow> P m'"
  by (auto simp: ui_draw_def apart split: bind_splits)

end

text \<open>And which the client's callbacks keep.\<close>

locale ui_apart_client = ui_apart P for P :: "'a manager_scheme \<Rightarrow> bool" +
  fixes cb :: "ui_out \<Rightarrow> 'a manager_scheme \<Rightarrow> 'a manager_scheme"
  assumes cb_apart: "P m \<Longrightarrow> P (cb out m)"
begin

lemma apart_cbs: "P m \<Longrightarrow> P (fold (\<lambda>x. cb (out x)) xs m)" "P m \<Longrightarrow> P (report cb out v m)"
  by (rule apart_fold; simp add: cb_apart) (simp add: report_def cb_apart split: option.split)

lemma apart_steps:
  "P m \<Longrightarrow> P (snd (button_event cb e i m))" "P m \<Longrightarrow> P (snd (slider_event cb e i m))" "P m \<Longrightarrow> P (snd (dial_event atan2f cb e i m))"
  "P m \<Longrightarrow> P (snd (combo_event cb e i m))" "P m \<Longrightarrow> P (snd (edit_event cb e i m))" "P m \<Longrightarrow> P (snd (spin_event cb e i m))"
  unfolding button_event_def slider_event_def dial_event_def combo_event_def edit_event_def spin_event_def Let_def
  by (auto split: prod.split intro!: apart_cbs apart)

lemma apart_each:
  assumes "\<And>i m. P m \<Longrightarrow> P (snd (step i m))" "P (snd cm)" shows "P (snd (each step n cm))"
proof -
  have "P (snd cm) \<Longrightarrow> P (snd (fold (\<lambda>i (c, m). let (c', m) = step i m in (c \<or> c', m)) is cm))" for "is" cm
    by (induction "is" arbitrary: cm) (auto simp: Let_def case_prod_beta assms(1))
  then show ?thesis using assms(2) by (simp add: each_def)
qed

lemma apart_widgets: "P m \<Longrightarrow> P (snd (widgets_event atan2f cb e m))"
  unfolding widgets_event_def Let_def by (intro apart_each apart_steps) simp_all

theorem apart_event:
  assumes m: "P m" shows "P (ui_handleEvent atan2f cb e m)"
proof -
  have w: "P m'" if "widgets_event atan2f cb e m = (c, m')" for c m' using apart_widgets [OF m, of atan2f e] that by simp
  have d: "P (deliver_text cb change (m\<lparr>ui_keyboard := k\<rparr>))" for change k
    using m by (auto simp: deliver_text_def apart cb_apart split: option.split kb_target.split prod.split)
  have g: "P (dialog_event cb e i m)" for i
    using m by (auto simp: dialog_event_def Let_def apart cb_apart split: prod.split option.split)
  show ?thesis unfolding ui_handleEvent_def Let_def using m d g by (auto split: option.split prod.split intro: apart dest: w)
qed

theorem apart_update: "P m \<Longrightarrow> P (ui_update cb now m)"
  unfolding ui_update_def by (rule apart_fold) (auto simp: Let_def split: prod.split intro!: apart_cbs apart)

end

text \<open>For the application: what neither the manager nor the callbacks touch.\<close>

definition app_rest :: "app \<Rightarrow> u16 list \<times> u16 list \<times> bytes \<times> recorder \<times> dr \<times> bool" where
  "app_rest a = (app_frameBufA a, app_frameBufB a, app_usbBuf a, app_dr a, app_link a, app_hide_ui a)"

lemma app_rest_apart: "ui_apart (\<lambda>a. app_rest a = r)"
  by unfold_locales (simp_all add: app_rest_def)

interpretation app_state: ui_apart "\<lambda>a. app_rest a = r" for r
  by (rule app_rest_apart)

lemma setView_rest: "app_rest (setView view a) = app_rest a"
  unfolding setView_def by (rule app_state.apart_views) (simp add: app_rest_def)

lemma app_cb_rest: "app_rest (app_cb out a) = app_rest a"
  by (rule app_cb_cases [where P = "\<lambda>b. app_rest b = app_rest a"]) (simp_all add: setView_rest, simp_all add: app_rest_def)

interpretation app_apart: ui_apart_client "\<lambda>a. app_rest a = r" app_cb for r
  by unfold_locales (simp add: app_cb_rest)

lemma app_new_rest [simp]:
  "app_rest (app_new sw sh buf) =
    (replicate (1280 * 720) 0, replicate (1280 * 720) 0, buf, recorder_new 1280 720, dr_boot, False)"
  unfolding app_new_def
  by (intro app_state.apart_init) (simp add: app_rest_def manager.defs app.defs manager_new_def)

lemma app_new_fields [simp]:
  "app_frameBufA (app_new sw sh buf) = replicate (1280 * 720) 0" "app_usbBuf (app_new sw sh buf) = buf"
  using app_new_rest [of sw sh buf] by (simp_all add: app_rest_def)

section \<open>Video tiles\<close>

lemma write_rows_0 [simp]: "write_rows x0 y0 tw 0 pxs buf = Some buf"
  by (simp add: write_rows_def)

lemma write_rows_Suc:
  "write_rows x0 y0 tw (Suc th) pxs buf = Option.bind (write_rows x0 y0 tw th pxs buf) (\<lambda>b. let pos = (y0 + th) * 1280 + x0 in
     if tw = 0 then Some b else if pos + tw \<le> length b \<and> th * tw + tw \<le> length pxs
     then Some (take pos b @ take tw (drop (th * tw) pxs) @ drop (pos + tw) b) else None)"
  by (simp add: write_rows_def)

text \<open>A row fails exactly when the last one does.\<close>

lemma write_rows_length: "write_rows x0 y0 tw th pxs buf = Some b \<Longrightarrow> length b = length buf"
proof (induction th arbitrary: b)
  case (Suc th)
  then show ?case by (auto simp: write_rows_Suc Let_def split: bind_splits if_splits)
qed simp

lemma write_rows_defined:
  assumes "tw * th \<le> length pxs"
  shows "write_rows x0 y0 tw th pxs buf = None \<longleftrightarrow> 0 < tw \<and> 0 < th \<and> length buf < (y0 + th - 1) * 1280 + x0 + tw"
  using assms
proof (induction th)
  case (Suc th)
  then show ?case
    by (cases "write_rows x0 y0 tw th pxs buf") (auto simp: write_rows_Suc Let_def algebra_simps dest: write_rows_length)
qed simp

lemma write_rows_pixels:
  assumes "x0 + tw \<le> 1280" "y0 + th \<le> 720" "length buf = 921600" "tw * th \<le> length pxs"
  shows "\<exists>b. write_rows x0 y0 tw th pxs buf = Some b \<and> length b = 921600 \<and>
    (\<forall>x < 1280. \<forall>y < 720. b ! (y * 1280 + x) =
      (if x0 \<le> x \<and> x < x0 + tw \<and> y0 \<le> y \<and> y < y0 + th then pxs ! ((y - y0) * tw + (x - x0)) else buf ! (y * 1280 + x)))"
  using assms(2,4)
proof (induction th)
  case 0
  then show ?case using assms(3) by (intro exI [of _ buf]) auto
next
  case (Suc th)
  obtain b where b: "write_rows x0 y0 tw th pxs buf = Some b" "length b = 921600"
    and px: "\<And>x y. x < 1280 \<Longrightarrow> y < 720 \<Longrightarrow> b ! (y * 1280 + x) =
      (if x0 \<le> x \<and> x < x0 + tw \<and> y0 \<le> y \<and> y < y0 + th then pxs ! ((y - y0) * tw + (x - x0)) else buf ! (y * 1280 + x))"
    using Suc by auto
  let ?pos = "(y0 + th) * 1280 + x0"
  let ?b = "take ?pos b @ take tw (drop (th * tw) pxs) @ drop (?pos + tw) b"
  have fits: "?pos + tw \<le> 921600" "th * tw + tw \<le> length pxs" using assms(1) Suc.prems by (simp_all add: algebra_simps)
  have w: "write_rows x0 y0 tw (Suc th) pxs buf = Some (if tw = 0 then b else ?b)"
    using fits b by (simp add: write_rows_Suc Let_def)
  have "?b ! (y * 1280 + x) =
      (if x0 \<le> x \<and> x < x0 + tw \<and> y0 \<le> y \<and> y < y0 + Suc th then pxs ! ((y - y0) * tw + (x - x0)) else buf ! (y * 1280 + x))"
    if "x < 1280" "y < 720" for x y
  proof (cases "y = y0 + th \<and> x0 \<le> x \<and> x < x0 + tw")
    case True
    then have "x - x0 < tw" "y * 1280 + x - ?pos = x - x0" "\<not> y * 1280 + x < ?pos" by auto
    then have "?b ! (y * 1280 + x) = take tw (drop (th * tw) pxs) ! (x - x0)"
      using fits b(2) by (simp add: nth_append)
    also have "\<dots> = pxs ! (th * tw + (x - x0))" using \<open>x - x0 < tw\<close> fits by simp
    finally show ?thesis using True by simp
  next
    case False
    have "y * 1280 + x < ?pos \<or> ?pos + tw \<le> y * 1280 + x"
      using False that assms(1) by (cases y "y0 + th" rule: linorder_cases) auto
    then have "?b ! (y * 1280 + x) = b ! (y * 1280 + x)" using fits b(2) that by (auto simp: nth_append)
    then show ?thesis using px [OF that] False by auto
  qed
  moreover have "length ?b = 921600" using fits b(2) by simp
  ultimately show ?case using w px b by (cases "tw = 0") auto
qed

lemma length_u16s_of: "length (u16s_of b) = length b div 2"
  by (induction b rule: u16s_of.induct) auto

lemma app_usbBuf_of: "app_usbBuf (a\<lparr>app_usbBuf := b\<rparr>) = b" "app_frameBufA (a\<lparr>app_usbBuf := b\<rparr>) = app_frameBufA a"
  by simp_all

lemma u16s_of_append: "even (length px) \<Longrightarrow> u16s_of (px @ r) = u16s_of px @ u16s_of r"
  by (induction px rule: u16s_of.induct) auto

abbreviation (input) tile_bytes :: "nat \<Rightarrow> nat \<Rightarrow> u16 \<Rightarrow> u16 \<Rightarrow> bytes \<Rightarrow> bytes" where
  "tile_bytes tx ty tw th px \<equiv> [0xF5, of_nat tx, of_nat ty] @ putU16LE tw @ putU16LE th @ px"

lemma tile_taken:
  assumes "tx < 16" "ty < 9" "length px = 2 * (unat tw * unat th)" "unat tw * unat th \<le> 6400"
    and rest_def: "rest = drop (7 + length px) (app_usbBuf a)"
  shows "usb_message (tile_bytes tx ty tw th px) a =
    (case write_rows (tx * unat tw) (ty * unat th) (unat tw) (unat th) (u16s_of (px @ rest)) (app_frameBufA a) of
       None \<Rightarrow> a\<lparr>app_usbBuf := tile_bytes tx ty tw th px @ rest, ui_fault := True\<rparr>
     | Some b \<Rightarrow> a\<lparr>app_usbBuf := tile_bytes tx ty tw th px @ rest, app_frameBufA := b, app_frameReady := True, RRFSYSMSG := True,
         app_statusMsg := ''DTS streaming - tile ('' @ show_nat tx @ '', '' @ show_nat ty @ '') updated''\<rparr>)"
proof -
  let ?msg = "tile_bytes tx ty tw th px"
  let ?buf = "?msg @ rest" and ?a = "a\<lparr>app_usbBuf := tile_bytes tx ty tw th px @ rest\<rparr>"
  have len: "length ?msg = 7 + length px" by (simp add: putU16LE_def)
  have xy: "unat (of_nat tx :: u8) = tx" "unat (of_nat ty :: u8) = ty" using assms(1,2) by (simp_all add: unat_of_nat_lt)
  have e: "of_nat (length ?msg) = (7 + ucast tw * ucast th * 2 :: u32)"
    unfolding len assms(3) by (simp add: of_nat_unat mult.commute)
  have h: "unat (?buf ! 1) = tx" "unat (?buf ! 2) = ty" using xy by simp_all
  have "drop 3 ?buf = putU16LE tw @ putU16LE th @ px @ rest" by simp
  then have w: "getU16LE (drop 3 ?buf) = tw" by (simp only: getU16LE_append length_putU16LE getU16LE_putU16LE)
  have "drop 5 ?buf = putU16LE th @ px @ rest" by (simp add: putU16LE_def)
  then have t: "getU16LE (drop 5 ?buf) = th" by (simp only: getU16LE_append length_putU16LE getU16LE_putU16LE)
  have d: "drop 7 ?buf = px @ rest" by (simp add: putU16LE_def)
  have "rest = drop (length ?msg) (app_usbBuf a)" unfolding len rest_def ..
  then have "usb_message ?msg a = tile_message (length ?msg) ?a" by (simp add: usb_message_def Let_def)
  also have "\<dots> = (case write_rows (tx * unat tw) (ty * unat th) (unat tw) (unat th) (u16s_of (px @ rest)) (app_frameBufA a) of
       None \<Rightarrow> ?a\<lparr>ui_fault := True\<rparr>
     | Some b \<Rightarrow> ?a\<lparr>app_frameBufA := b, app_frameReady := True, RRFSYSMSG := True,
         app_statusMsg := ''DTS streaming - tile ('' @ show_nat tx @ '', '' @ show_nat ty @ '') updated''\<rparr>)"
    using assms(1,2) unfolding tile_message_def Let_def app.select_convs app.update_convs app_usbBuf_of h w t e d by simp
  finally show ?thesis .
qed

lemma tile_pixels:
  assumes "length buf = 921600" "tx < 16" "ty < 9" "length px = 12800"
    "write_rows (tx * 80) (ty * 80) 80 80 (u16s_of (px @ rest)) buf = Some b"
  shows "\<forall>x < 1280. \<forall>y < 720. b ! (y * 1280 + x) =
    (if tx * 80 \<le> x \<and> x < tx * 80 + 80 \<and> ty * 80 \<le> y \<and> y < ty * 80 + 80
     then u16s_of px ! ((y - ty * 80) * 80 + (x - tx * 80)) else buf ! (y * 1280 + x))"
proof -
  have "80 * 80 \<le> length (u16s_of (px @ rest))" using assms(4) by (simp add: length_u16s_of)
  then obtain b' where w: "write_rows (tx * 80) (ty * 80) 80 80 (u16s_of (px @ rest)) buf = Some b'"
    and b': "\<forall>x < 1280. \<forall>y < 720. b' ! (y * 1280 + x) =
      (if tx * 80 \<le> x \<and> x < tx * 80 + 80 \<and> ty * 80 \<le> y \<and> y < ty * 80 + 80
       then u16s_of (px @ rest) ! ((y - ty * 80) * 80 + (x - tx * 80)) else buf ! (y * 1280 + x))"
    using write_rows_pixels [of "tx * 80" 80 "ty * 80" 80 buf "u16s_of (px @ rest)"] assms(1-3) by auto
  have "b' = b" using w assms(5) by simp
  moreover have "u16s_of (px @ rest) ! i = u16s_of px ! i" if "i < 6400" for i
    using that assms(4) by (simp add: u16s_of_append nth_append length_u16s_of)
  ultimately show ?thesis using b' by auto
qed

text \<open>C36: A message with a video tile is taken when its length fits its header and its place is on the grid, and it then writes
outside the frame exactly when its last row ends beyond it. A tile of the grid's size never does: it replaces the 80 by
80 pixels at its place, the message's pixels in order, and no other. A tile of another size, which nothing refuses, can.\<close>
theorem tile_writes_its_square:
  assumes "length (app_frameBufA a) = 921600" "length (app_usbBuf a) = 12807" "tx < 16" "ty < 9"
    "length px = 2 * (unat tw * unat th)" "unat tw * unat th \<le> 6400"
  shows "let a' = usb_message ([0xF5, of_nat tx, of_nat ty] @ putU16LE tw @ putU16LE th @ px) a in
    (ui_fault a' \<longleftrightarrow> ui_fault a \<or>
      0 < unat tw \<and> 0 < unat th \<and> 921600 < (ty * unat th + unat th - 1) * 1280 + tx * unat tw + unat tw) \<and>
    (tw = 80 \<longrightarrow> th = 80 \<longrightarrow> app_frameReady a' \<and> length (app_frameBufA a') = 921600 \<and>
      (\<forall>x < 1280. \<forall>y < 720. app_frameBufA a' ! (y * 1280 + x) =
        (if tx * 80 \<le> x \<and> x < tx * 80 + 80 \<and> ty * 80 \<le> y \<and> y < ty * 80 + 80
         then u16s_of px ! ((y - ty * 80) * 80 + (x - tx * 80)) else app_frameBufA a ! (y * 1280 + x))))"
proof -
  define rest where "rest = drop (7 + length px) (app_usbBuf a)"
  let ?w = "write_rows (tx * unat tw) (ty * unat th) (unat tw) (unat th) (u16s_of (px @ rest)) (app_frameBufA a)"
  have "unat tw * unat th \<le> length (u16s_of (px @ rest))" using assms(2,5,6) by (simp add: length_u16s_of)
  then have none: "?w = None \<longleftrightarrow> 0 < unat tw \<and> 0 < unat th \<and> 921600 < (ty * unat th + unat th - 1) * 1280 + tx * unat tw + unat tw"
    using write_rows_defined [of "unat tw" "unat th" _ "tx * unat tw" "ty * unat th" "app_frameBufA a"] assms(1) by simp
  note m = tile_taken [OF assms(3-6) rest_def]
  show ?thesis
  proof (cases ?w)
    case None
    have "\<not> (tw = 80 \<and> th = 80)" using None assms(3,4) unfolding none by auto
    then show ?thesis using None none m by (simp add: Let_def)
  next
    case (Some b)
    have f: "ui_fault (usb_message (tile_bytes tx ty tw th px) a) = ui_fault a" "app_frameReady (usb_message (tile_bytes tx ty tw th px) a)"
      "app_frameBufA (usb_message (tile_bytes tx ty tw th px) a) = b" unfolding m Some by simp_all
    have "length b = 921600" using write_rows_length [OF Some] assms(1) by simp
    moreover have "\<forall>x < 1280. \<forall>y < 720. b ! (y * 1280 + x) =
        (if tx * 80 \<le> x \<and> x < tx * 80 + 80 \<and> ty * 80 \<le> y \<and> y < ty * 80 + 80
         then u16s_of px ! ((y - ty * 80) * 80 + (x - tx * 80)) else app_frameBufA a ! (y * 1280 + x))" if "tw = 80" "th = 80"
      using tile_pixels [OF assms(1,3,4)] Some assms(5) that by simp
    moreover have "\<not> (0 < unat tw \<and> 0 < unat th \<and> 921600 < (ty * unat th + unat th - 1) * 1280 + tx * unat tw + unat tw)"
      using none Some by (metis option.distinct(1))
    ultimately show ?thesis unfolding Let_def f using f(2) by blast
  qed
qed

lemma tile_writes_its_square_witness:
  "let a' = usb_message ([0xF5, 15, 8] @ putU16LE 1 @ putU16LE 6400 @ replicate 12800 0)
     (app_new 1280 720 (replicate 12807 0)) in ui_fault a'"
proof -
  let ?a = "app_new 1280 720 (replicate 12807 0)"
  have "length (app_frameBufA ?a) = 921600" "length (app_usbBuf ?a) = 12807" by (simp_all add: app_new_fields)
  from tile_writes_its_square [OF this, of 15 8 "replicate 12800 0" 1 6400] show ?thesis by (simp add: Let_def)
qed

section \<open>Drawing passes arrays of the right length\<close>

text \<open>What a recorder needs of the calls: none of the widgets hands over an array at all.\<close>

lemma ui_calls_plain [simp]:
  "array_ok (ui_rect x y w h c)" "array_ok (ui_fill x y w h c)" "array_ok (ui_line x y x' y' c)" "array_ok (ui_disc x y r c)"
  "list_all array_ok (font_apply f)" "list_all array_ok (ui_text x y c bg s)" "array_ok (set_text x y s)"
  "list_all array_ok (text_at x y s)"
  by (simp_all add: ui_rect_def ui_fill_def ui_line_def ui_disc_def font_apply_def ui_text_def set_text_def text_at_def)

lemma list_all_concat_map [simp]: "list_all P (concat (map f xs)) \<longleftrightarrow> (\<forall>x \<in> set xs. list_all P (f x))"
  by (induction xs) auto

lemma list_all_takeI: "list_all P xs \<Longrightarrow> list_all P (take n xs)"
  by (auto simp: list_all_iff dest: in_set_takeD)

lemma bt_draw_plain: "list_all array_ok (bt_draw b)"
proof -
  have f: "list_all array_ok (take n (bt_frame b))" for n
    by (rule list_all_takeI) (simp add: bt_frame_def)
  have c: "list_all array_ok (bt_caption b bg)" for bg by (simp add: bt_caption_def)
  show ?thesis by (simp add: bt_draw_def bt_draw_swipe_def bt_dot_def f c Let_def)
qed

lemma sl_draw_plain: "list_all array_ok (sl_draw s)"
  by (simp add: sl_draw_def sl_draw_fill_def Let_def split: slider_orientation.split prod.split)

lemma dl_draw_plain: "list_all array_ok (dl_draw cosf sinf d)"
  by (simp add: dl_draw_def dl_draw_tick_def Let_def)

lemma those_Some_set: "those (map f xs) = Some ys \<Longrightarrow> y \<in> set ys \<Longrightarrow> \<exists>x \<in> set xs. f x = Some y"
  by (induction xs arbitrary: ys) (auto split: option.splits)

lemma cb_draw_plain: "cb_draw c = Some cs \<Longrightarrow> list_all array_ok cs"
proof -
  have h: "cb_draw_header c = Some hs \<Longrightarrow> list_all array_ok hs" for hs
    by (auto simp: cb_draw_header_def Let_def split: if_splits)
  have r: "list_all array_ok (cb_draw_row c w i item)" for w i item by (simp add: cb_draw_row_def Let_def)
  have rs: "list_all array_ok rows" if rows: "cb_draw_rows c w = Some rows" for w rows
  proof -
    obtain rs where t: "those (map (\<lambda>i. map_option (cb_draw_row c w (int i)) (item_at c (cb_scrollOffset c + int i)))
        (filter (\<lambda>i. cb_scrollOffset c + int i < cb_count c) [0..<nat (visibleCount c)])) = Some rs" "rows = concat rs"
      using rows by (auto simp: cb_draw_rows_def)
    have "list_all array_ok y" if "y \<in> set rs" for y using those_Some_set [OF t(1) that] r by auto
    then show ?thesis unfolding t(2) by (auto simp: list_all_iff)
  qed
  have "list_all array_ok (cb_draw_scrollbar c)" by (simp add: cb_draw_scrollbar_def Let_def)
  then show "cb_draw c = Some cs \<Longrightarrow> list_all array_ok cs"
    by (auto simp: cb_draw_def Let_def split: if_splits bind_splits dest!: h rs)
qed

lemma kb_draw_plain: "list_all array_ok (kb_draw k)"
  by (simp add: kb_draw_def kb_draw_key_def Let_def)

lemma sp_draw_plain: "list_all array_ok (sp_draw s)"
  by (simp add: sp_draw_def sp_draw_button_def Let_def)

lemma ed_draw_plain: "ed_draw d = Some (cs, d') \<Longrightarrow> list_all array_ok cs"
  by (auto simp: ed_draw_def Let_def split: if_splits)

lemma dg_draw_plain: "list_all array_ok (dg_draw d)"
proof -
  have "list_all array_ok (dg_drawIcon icon x y n)" for icon x y n
    by (simp add: dg_drawIcon_def tri_def Let_def list_all_iff split: dialog_icon.split)
  then show ?thesis
    by (simp add: dg_draw_def dg_draw_box_def dg_draw_line_def dg_draw_btn_def Let_def split: prod.split)
qed

lemma ui_draw_plain:
  assumes "ui_draw cosf sinf m = Some (cs, m')" shows "list_all array_ok cs"
proof -
  obtain combos edits es where c: "those (map (\<lambda>(i, c). cb_draw c) (ui_combos m)) = Some combos"
    and e: "draw_edits (ui_edits m) = Some (edits, es)"
    and cs: "cs = concat (map (\<lambda>(i, w). bt_draw w) (ui_buttons m)) @ concat (map (\<lambda>(i, w). sl_draw w) (ui_sliders m)) @
        concat (map (\<lambda>(i, w). dl_draw cosf sinf w) (ui_dials m)) @ concat combos @ edits @
        concat (map (\<lambda>(i, w). sp_draw w) (ui_spins m)) @ kb_draw (ui_keyboard m) @
        concat (map (\<lambda>(i, w). dg_draw w) (ui_dialogs m))"
    using assms by (auto simp: ui_draw_def split: bind_splits)
  have "list_all array_ok (concat combos)"
  proof -
    have "list_all array_ok y" if "y \<in> set combos" for y using those_Some_set [OF c that] cb_draw_plain by auto
    then show ?thesis by (auto simp: list_all_iff)
  qed
  moreover have "list_all array_ok edits"
  proof -
    obtain ds where d: "those (map (\<lambda>(i, d). ed_draw d) (ui_edits m)) = Some ds" "edits = concat (map fst ds)"
      using e by (auto simp: draw_edits_def)
    have "list_all array_ok (fst y)" if y: "y \<in> set ds" for y
      using those_Some_set [OF d(1) y] ed_draw_plain by (cases y) auto
    then show ?thesis unfolding d(2) by simp
  qed
  ultimately show ?thesis unfolding cs
    by (auto simp: bt_draw_plain sl_draw_plain dl_draw_plain sp_draw_plain kb_draw_plain dg_draw_plain)
qed

end
