(* ===== verification/AppRun.thy ===== *)
theory AppRun
  imports AppLaws
begin

text \<open>
  The application as a whole: no turn of the frame loop, whatever comes in, reads what is not there, provided the video
  tiles are of the grid's size; the viewer gets the frame that is on the panel.
\<close>

section \<open>The application never reads what is not there\<close>

lemma ui_wf_cong:
  assumes "ui_combos m' = ui_combos m" "ui_edits m' = ui_edits m" "ui_spins m' = ui_spins m" "ui_keyboard m' = ui_keyboard m"
    "ui_fault m' = ui_fault m"
  shows "ui_wf m' = ui_wf m"
proof -
  have "target_in t m' = target_in t m" for t using assms by (cases t) simp_all
  then show ?thesis using assms by (simp add: ui_wf_def target_ok_def)
qed

lemma ui_wf_app [simp]:
  fixes a :: app
  shows "ui_wf (a\<lparr>app_usbBuf := b\<rparr>) = ui_wf a" "ui_wf (a\<lparr>app_frameBufA := f\<rparr>) = ui_wf a" "ui_wf (a\<lparr>app_frameBufB := f\<rparr>) = ui_wf a"
    "ui_wf (a\<lparr>app_frameReady := r\<rparr>) = ui_wf a" "ui_wf (a\<lparr>app_hasFrame := r\<rparr>) = ui_wf a" "ui_wf (a\<lparr>RRFDTS := r\<rparr>) = ui_wf a"
    "ui_wf (a\<lparr>RRFSYSMSG := r\<rparr>) = ui_wf a" "ui_wf (a\<lparr>RRFSYSINFO := r\<rparr>) = ui_wf a" "ui_wf (a\<lparr>RRFF := r\<rparr>) = ui_wf a"
    "ui_wf (a\<lparr>app_statusMsg := s\<rparr>) = ui_wf a" "ui_wf (a\<lparr>app_cvdata := c\<rparr>) = ui_wf a" "ui_wf (a\<lparr>app_link := l\<rparr>) = ui_wf a"
    "ui_wf (a\<lparr>app_dr := d\<rparr>) = ui_wf a" "ui_wf (a\<lparr>app_panel := p\<rparr>) = ui_wf a" "ui_wf (a\<lparr>app_pending := ac\<rparr>) = ui_wf a"
    "ui_wf (a\<lparr>app_lastUpdate1 := n\<rparr>) = ui_wf a" "ui_wf (a\<lparr>app_cycleCount := i\<rparr>) = ui_wf a" "ui_wf (a\<lparr>app_stopped := e\<rparr>) = ui_wf a"
    "ui_wf (a\<lparr>app_hide_ui := r\<rparr>) = ui_wf a" "ui_wf (a\<lparr>app_show_about := r\<rparr>) = ui_wf a" "ui_wf (a\<lparr>app_sent := fs\<rparr>) = ui_wf a"
    "ui_wf (a\<lparr>app_usbUp := r\<rparr>) = ui_wf a" "ui_wf (a\<lparr>app_usbThread := r\<rparr>) = ui_wf a" "ui_wf (a\<lparr>app_usbWait := k\<rparr>) = ui_wf a"
    "ui_wf (a\<lparr>app_actionQueue := q\<rparr>) = ui_wf a" "ui_wf (a\<lparr>ui_needsRedraw := r\<rparr>) = ui_wf a" "ui_wf (a\<lparr>ui_answer := an\<rparr>) = ui_wf a"
  by (rule ui_wf_cong; simp)+

definition recorder_ok :: "recorder \<Rightarrow> bool" where
  "recorder_ok d \<longleftrightarrow> \<not> m_suppress d \<and> m_recordMask d = DR_REC_ALL \<and> m_maxInlineBytes d = 0"

fun rest_ok :: "u16 list \<times> u16 list \<times> bytes \<times> recorder \<times> dr \<times> bool \<Rightarrow> bool" where
  "rest_ok (bufA, bufB, usb, d, l, h) \<longleftrightarrow> length bufA = 921600 \<and> length bufB = 921600 \<and> length usb = 12807 \<and> recorder_ok d"

text \<open>The application's invariant.\<close>

definition app_ok :: "app \<Rightarrow> bool" where
  "app_ok a \<longleftrightarrow> ui_wf a \<and> rest_ok (app_rest a)"

lemma app_ok_same: "app_ok a \<Longrightarrow> app_rest a' = app_rest a \<Longrightarrow> ui_wf a' \<Longrightarrow> app_ok a'"
  by (simp add: app_ok_def)

lemma app_ok_fields [simp]:
  "app_ok (a\<lparr>app_usbBuf := b\<rparr>) \<longleftrightarrow> ui_wf a \<and> length (app_frameBufA a) = 921600 \<and> length (app_frameBufB a) = 921600 \<and> length b = 12807 \<and> recorder_ok (app_dr a)"
  "app_ok (a\<lparr>app_frameBufA := f\<rparr>) \<longleftrightarrow> ui_wf a \<and> length f = 921600 \<and> length (app_frameBufB a) = 921600 \<and> length (app_usbBuf a) = 12807 \<and> recorder_ok (app_dr a)"
  "app_ok (a\<lparr>app_frameBufB := f\<rparr>) \<longleftrightarrow> ui_wf a \<and> length (app_frameBufA a) = 921600 \<and> length f = 921600 \<and> length (app_usbBuf a) = 12807 \<and> recorder_ok (app_dr a)"
  "app_ok (a\<lparr>app_dr := d\<rparr>) \<longleftrightarrow> ui_wf a \<and> length (app_frameBufA a) = 921600 \<and> length (app_frameBufB a) = 921600 \<and> length (app_usbBuf a) = 12807 \<and> recorder_ok d"
  "app_ok (a\<lparr>app_frameReady := r\<rparr>) = app_ok a" "app_ok (a\<lparr>app_hasFrame := r\<rparr>) = app_ok a" "app_ok (a\<lparr>RRFDTS := r\<rparr>) = app_ok a"
  "app_ok (a\<lparr>RRFSYSMSG := r\<rparr>) = app_ok a" "app_ok (a\<lparr>RRFSYSINFO := r\<rparr>) = app_ok a" "app_ok (a\<lparr>RRFF := r\<rparr>) = app_ok a"
  "app_ok (a\<lparr>app_statusMsg := s\<rparr>) = app_ok a" "app_ok (a\<lparr>app_cvdata := c\<rparr>) = app_ok a" "app_ok (a\<lparr>app_link := l\<rparr>) = app_ok a"
  "app_ok (a\<lparr>app_panel := p\<rparr>) = app_ok a" "app_ok (a\<lparr>app_pending := ac\<rparr>) = app_ok a" "app_ok (a\<lparr>app_sent := fs\<rparr>) = app_ok a"
  "app_ok (a\<lparr>app_lastUpdate1 := n\<rparr>) = app_ok a" "app_ok (a\<lparr>app_cycleCount := i\<rparr>) = app_ok a" "app_ok (a\<lparr>app_stopped := e\<rparr>) = app_ok a"
  "app_ok (a\<lparr>app_hide_ui := r\<rparr>) = app_ok a" "app_ok (a\<lparr>app_show_about := r\<rparr>) = app_ok a" "app_ok (a\<lparr>app_usbUp := r\<rparr>) = app_ok a"
  "app_ok (a\<lparr>app_usbThread := r\<rparr>) = app_ok a" "app_ok (a\<lparr>app_usbWait := k\<rparr>) = app_ok a" "app_ok (a\<lparr>app_actionQueue := q\<rparr>) = app_ok a"
  "app_ok (a\<lparr>ui_needsRedraw := r\<rparr>) = app_ok a" "app_ok (a\<lparr>ui_answer := an\<rparr>) = app_ok a"
  by (simp_all add: app_ok_def app_rest_def)

lemma app_okD: "app_ok a \<Longrightarrow> ui_wf a \<and> length (app_frameBufA a) = 921600 \<and> length (app_frameBufB a) = 921600 \<and>
    length (app_usbBuf a) = 12807 \<and> recorder_ok (app_dr a)"
  by (simp add: app_ok_def app_rest_def)

text \<open>What the messages must be: no longer than the buffer, and tiles of the grid's size.\<close>

definition msg_ok :: "bytes \<Rightarrow> bool" where
  "msg_ok msg \<longleftrightarrow> length msg \<le> 12807 \<and>
     (msg \<noteq> [] \<and> hd msg = 0xF5 \<longrightarrow> length msg \<ge> 7 \<and> getU16LE (drop 3 msg) = 80 \<and> getU16LE (drop 5 msg) = 80)"

lemma tile_message_ok:
  assumes "app_ok a" "getU16LE (drop 3 (app_usbBuf a)) = 80" "getU16LE (drop 5 (app_usbBuf a)) = 80"
  shows "app_ok (tile_message r a)"
proof -
  let ?tx = "unat (app_usbBuf a ! 1)" and ?ty = "unat (app_usbBuf a ! 2)"
  let ?w = "write_rows (?tx * 80) (?ty * 80) 80 80 (u16s_of (drop 7 (app_usbBuf a))) (app_frameBufA a)"
  have l: "length (app_frameBufA a) = 921600" "length (app_usbBuf a) = 12807" using app_okD [OF assms(1)] by simp_all
  have "app_ok (case ?w of None \<Rightarrow> a\<lparr>ui_fault := True\<rparr>
      | Some b \<Rightarrow> a\<lparr>app_frameBufA := b, app_frameReady := True, RRFSYSMSG := True, app_statusMsg := s\<rparr>)"
    if t: "?tx < 16" "?ty < 9" for s
  proof -
    have "?w \<noteq> None \<and> (\<forall>b. ?w = Some b \<longrightarrow> length b = 921600)"
      using write_rows_pixels [of "?tx * 80" 80 "?ty * 80" 80 "app_frameBufA a" "u16s_of (drop 7 (app_usbBuf a))"] t l
      by (auto simp: length_u16s_of)
    then obtain b where b: "?w = Some b" "length b = 921600" by auto
    show ?thesis unfolding b(1) using app_okD [OF assms(1)] b(2) by simp
  qed
  then show ?thesis using assms(1) unfolding tile_message_def Let_def assms(2,3) by simp
qed

lemma msg_ok_header:
  assumes "msg_ok msg" "msg \<noteq> []" "hd msg = 0xF5"
  shows "getU16LE (drop 3 (msg @ rest)) = 80" "getU16LE (drop 5 (msg @ rest)) = 80"
proof -
  have "7 \<le> length msg" using assms by (simp add: msg_ok_def)
  then have l: "2 \<le> length (drop 3 msg)" "2 \<le> length (drop 5 msg)" "3 \<le> length msg" "5 \<le> length msg" by simp_all
  show "getU16LE (drop 3 (msg @ rest)) = 80" "getU16LE (drop 5 (msg @ rest)) = 80"
    using assms getU16LE_append [OF l(1)] getU16LE_append [OF l(2)] l(3,4) by (simp_all add: msg_ok_def)
qed

lemma usb_message_ok:
  assumes "app_ok a" "msg_ok msg" "msg \<noteq> []" shows "app_ok (usb_message msg a)"
proof -
  let ?a = "a\<lparr>app_usbBuf := msg @ drop (length msg) (app_usbBuf a)\<rparr>"
  have a: "app_ok ?a" using app_okD [OF assms(1)] assms(2) by (simp add: msg_ok_def)
  have v: "app_ok (value_message r ?a)" for r using a by (simp add: value_message_def)
  have t: "app_ok (tile_message r ?a)" if "hd msg = 0xF5" for r
  proof (rule tile_message_ok [OF a])
    have b: "app_usbBuf ?a = msg @ drop (length msg) (app_usbBuf a)" by simp
    show "getU16LE (drop 3 (app_usbBuf ?a)) = 80" "getU16LE (drop 5 (app_usbBuf ?a)) = 80"
      unfolding b by (rule msg_ok_header [OF assms(2,3) that])+
  qed
  show ?thesis unfolding usb_message_def Let_def using a v t by simp
qed

fun answer_ok :: "usb_answer \<Rightarrow> bool" where
  "answer_ok (UsbOpen ch) \<longleftrightarrow> True"
| "answer_ok (UsbRecv msg) \<longleftrightarrow> msg_ok msg"

definition round_ok :: "round \<Rightarrow> bool" where "round_ok r \<longleftrightarrow> list_all answer_ok (rd_usb r)"

lemma usb_step_ok: "app_ok a \<Longrightarrow> answer_ok ans \<Longrightarrow> app_ok (usb_step ans a)"
proof -
  assume a: "app_ok a" "answer_ok ans"
  have d: "app_ok (usb_disconnected a)"
    unfolding usb_disconnected_def using app_okD [OF a(1)] by simp
  have n: "app_ok (usb_no_device a)" using a(1) by (simp add: usb_no_device_def Let_def)
  show "app_ok (usb_step ans a)"
    using a d n usb_message_ok [OF a(1)] by (cases ans) (simp_all add: usb_step_def split: option.split)
qed

lemma fold_keeps_P: "P a \<Longrightarrow> (\<And>x a. x \<in> set xs \<Longrightarrow> P a \<Longrightarrow> P (f x a)) \<Longrightarrow> P (fold f xs a)"
  by (induction xs arbitrary: a) auto

lemma link_arrives_ok: "app_ok a \<Longrightarrow> app_ok (link_arrives ev a)"
  by (cases ev) (simp_all split: prod.split)

lemma touch_arrives_ok: "app_ok a \<Longrightarrow> app_ok (touch_arrives e a)"
  by (simp add: touch_arrives_def Let_def split: option.split)

lemma arrivals_ok:
  assumes "app_ok a" "round_ok r" shows "app_ok (arrivals r a)"
proof -
  have u: "answer_ok ans" if "ans \<in> set (rd_usb r)" for ans using assms(2) that by (simp add: round_ok_def list_all_iff)
  show ?thesis unfolding arrivals_def
    by (intro fold_keeps_P [where P = app_ok] usb_step_ok link_arrives_ok touch_arrives_ok u assms(1))
qed

lemma keeps_wf: "keeps m m' \<Longrightarrow> ui_wf m \<Longrightarrow> ui_wf m'"
  by (simp add: keeps_def)

lemma app_ok_event: "app_ok a \<Longrightarrow> app_ok (ui_handleEvent atan2f app_cb e a)"
  by (rule app_ok_same [OF _ app_apart.apart_event [OF refl] keeps_wf [OF app_ui.event_keeps]])
    (simp_all add: app_ok_def)

lemma app_ok_update: "app_ok a \<Longrightarrow> app_ok (ui_update app_cb now a)"
  by (rule app_ok_same [OF _ app_apart.apart_update [OF refl] keeps_wf [OF app_ui.update_keeps]])
    (simp_all add: app_ok_def)

lemma inputHandle_ok: "app_ok a \<Longrightarrow> app_ok (inputHandle env a)"
  unfolding inputHandle_def Let_def
  by (rule fold_keeps_P [where P = app_ok]) (simp_all add: handle_touch_def app_ok_event)

section \<open>Frames\<close>

text \<open>What the library hands over: a logo of its size, and pieces of calls that carry arrays of their size.\<close>

definition env_ok :: "frame_env \<Rightarrow> bool" where
  "env_ok env \<longleftrightarrow> length (fl_logo (fe_lib env)) = 480 \<and> (\<forall>c. array_ok c \<longrightarrow> list_all array_ok (fe_pieces env c))"

lemma renderInfo_plain: "list_all array_ok (renderInfo si)"
  by (simp add: renderInfo_def drawBar_def drawBarContainer_def Let_def list_all_iff)

definition user_calls :: "frame_lib \<Rightarrow> render_plan \<Rightarrow> app \<Rightarrow> draw_call list" where
  "user_calls lib plan a = (if rp_clear plan then [FillScreen 0] else []) @
      (if rp_dts plan \<and> app_hasFrame a then [DrawRGB565Bitmap (i16 ((app_sw a - SCR_W) sdiv 2)) (i16 ((app_sh a - SCR_H) sdiv 2))
         (app_frameBufB a) 1280 720] else []) @
      (if rp_dataIn plan then renderDataInInfo a else []) @ (if rp_about plan then renderAbout (fl_logo lib) a else [])"

definition top_calls :: "render_plan \<Rightarrow> draw_call list \<Rightarrow> app \<Rightarrow> draw_call list" where
  "top_calls plan ws a = (if rp_widgets plan then ws else []) @ (if rp_status plan then [SetCursor 10 10,
         SetTextColor 0xFFFFFFFF GFX_TRANSPARENT, SetTextSize 1 1, WriteText (cstring (app_statusMsg a))] else [])"

lemma drawFrame_eq:
  assumes "ui_draw (fl_cosf lib) (fl_sinf lib) a = Some (ws, m)"
  shows "drawFrame lib plan a =
    (map Own (user_calls lib plan a) @ map Base (if rp_sysInfo plan then renderInfo (fl_info lib) else []) @
     map Own (top_calls plan ws (if rp_widgets plan then m else a)), if rp_widgets plan then m else a)"
  unfolding drawFrame_def Let_def assms user_calls_def top_calls_def
  by (cases "rp_widgets plan") (simp_all only: if_True if_False option.case prod.case append_assoc)

lemma drawFrame_ok:
  assumes "app_ok a" "length (fl_logo lib) = 480" "drawFrame lib plan a = (cs, a')"
  shows "app_ok a'" "list_all (\<lambda>c. array_ok (on_panel c)) cs" "app_rest a' = app_rest a"
proof -
  obtain ws m where d: "ui_draw (fl_cosf lib) (fl_sinf lib) a = Some (ws, m)" and m: "ui_wf m"
    using ui_draw_keeps [of a "fl_cosf lib" "fl_sinf lib"] assms(1) by (auto simp: app_ok_def)
  have r: "app_rest m = app_rest a" by (rule app_state.apart_draw [OF refl d])
  have e: "(map Own (user_calls lib plan a) @ map Base (if rp_sysInfo plan then renderInfo (fl_info lib) else []) @
      map Own (top_calls plan ws (if rp_widgets plan then m else a)), if rp_widgets plan then m else a) = (cs, a')"
    using assms(3) unfolding drawFrame_eq [OF d] .
  then have a': "a' = (if rp_widgets plan then m else a)" by simp
  have cs: "cs = map Own (user_calls lib plan a) @ map Base (if rp_sysInfo plan then renderInfo (fl_info lib) else []) @
      map Own (top_calls plan ws a')"
    using conjunct1 [OF e [unfolded prod.inject]] unfolding a' by (rule sym)
  show ar: "app_rest a' = app_rest a" using r a' by simp
  then show "app_ok a'" using assms(1) m a' by (intro app_ok_same [OF assms(1) ar]) (simp add: app_ok_def)
  have l: "length (app_frameBufB a) = pixels 1280 720" using app_okD [OF assms(1)] by (simp add: pixels_def)
  have logo: "array_ok (DrawBitmap 795 y (fl_logo lib) 115 32 c bg)" for y c bg
    using assms(2) by (simp add: monoPlaneBytes_def)
  have u: "list_all array_ok (user_calls lib plan a)" using l logo by (simp add: user_calls_def renderDataInInfo_def renderAbout_def)
  have s: "list_all array_ok (top_calls plan ws a')" using ui_draw_plain [OF d] by (simp add: top_calls_def)
  show "list_all (\<lambda>c. array_ok (on_panel c)) cs"
    unfolding cs using u s renderInfo_plain [of "fl_info lib"] by (simp add: list.pred_map comp_def)
qed


lemma recorder_ok_calls:
  assumes "recorder_ok r" "list_all array_ok cs" shows "recorder_ok (record_calls fm cs (DRFlush r))"
proof -
  have "\<not> m_suppress (DRFlush r)" using assms(1) by (simp add: recorder_ok_def flush_same)
  then show ?thesis using record_calls_wrote [of "DRFlush r" cs fm] assms by (simp add: wrote_def recorder_ok_def DRFlush_def)
qed

lemma recorder_calls_ok:
  assumes "env_ok env" "list_all (\<lambda>c. array_ok (on_panel c)) cs"
  shows "list_all array_ok (concat (map (on_recorder (fe_pieces env)) cs))"
proof -
  have "array_ok (on_panel c) \<Longrightarrow> list_all array_ok (on_recorder (fe_pieces env) c)" for c
    using assms(1) by (cases c) (simp_all add: env_ok_def)
  then show ?thesis using assms(2) unfolding list_all_concat_map by (auto simp: list_all_iff [of _ cs])
qed

lemma remote_pass_ok:
  assumes "app_ok a" "env_ok env" shows "app_ok (remote_pass env now plan a)"
proof -
  obtain cs a1 where d: "drawFrame (fe_lib env) (plan\<lparr>rp_clear := True\<rparr>) a = (cs, a1)" by fastforce
  have l: "length (fl_logo (fe_lib env)) = 480" using assms(2) by (simp add: env_ok_def)
  note f = drawFrame_ok [OF assms(1) l d]
  have "recorder_ok (record_calls (fe_fm env) (concat (map (on_recorder (fe_pieces env)) cs)) (DRFlush (app_dr a1)))"
    using app_okD [OF f(1)] recorder_calls_ok [OF assms(2) f(2)] by (intro recorder_ok_calls) simp_all
  then show ?thesis unfolding remote_pass_def Let_def d prod.case using app_okD [OF f(1)] by simp
qed

lemma render_ok:
  assumes "app_ok a" "env_ok env" shows "app_ok (render env now force a)"
proof -
  let ?a = "a\<lparr>RRFF := False\<rparr>" and ?plan = "planFrame (RRFF a) (a\<lparr>RRFF := False\<rparr>)"
  obtain cs a1 where d: "drawFrame (fe_lib env) ?plan ?a = (cs, a1)" by fastforce
  have l: "length (fl_logo (fe_lib env)) = 480" using assms(2) by (simp add: env_ok_def)
  have "app_ok ?a" using assms(1) by simp
  note f = drawFrame_ok [OF this l d]
  have "app_ok (a1\<lparr>app_panel := map on_panel cs\<rparr>)" using f(1) by simp
  note r = this remote_pass_ok [OF this assms(2)]
  show ?thesis unfolding render_def Let_def d prod.case using r by simp
qed

lemma run_posted_ok: "app_ok a \<Longrightarrow> app_ok (fold run_posted acts a)"
  by (rule fold_keeps_P [where P = app_ok]) (simp_all add: run_posted_def)

lemma process_ok:
  assumes "app_ok a" "round_ok r" "env_ok env" shows "app_ok (process env r a)"
proof -
  have b: "app_ok (if app_frameReady x then x\<lparr>app_frameBufB := app_frameBufA x, app_hasFrame := True, RRFDTS := True\<rparr> else x)"
    if "app_ok x" for x using app_okD [OF that] that by simp
  have i: "app_ok x \<Longrightarrow> app_ok (if c then x\<lparr>RRFSYSINFO := True, app_lastUpdate1 := n\<rparr> else x)" for x c n by simp
  have q: "app_ok x \<Longrightarrow> app_ok (x\<lparr>app_actionQueue := []\<rparr>)" for x by simp
  have c: "app_ok x \<Longrightarrow> app_ok (x\<lparr>app_cycleCount := n\<rparr>)" for x n by simp
  show ?thesis unfolding process_def Let_def
    by (intro c render_ok app_ok_update i run_posted_ok q inputHandle_ok b arrivals_ok assms)
qed

section \<open>The loop\<close>

lemma app_ok_ui [simp]:
  "app_ok (a\<lparr>ui_dialogs := ds\<rparr>) = app_ok a" "app_ok (a\<lparr>ui_buttons := bs\<rparr>) = app_ok a"
  by (simp_all add: app_ok_def app_rest_def)

lemma qfd_wait_ok:
  assumes "env_ok env" "app_ok a" "list_all round_ok rs"
  shows "case qfd_wait (process env) rs a of Inl a' \<Rightarrow> app_ok a' | Inr (r, rest, a') \<Rightarrow> app_ok a' \<and> list_all round_ok rest"
  using assms(2,3)
proof (induction rs arbitrary: a)
  case (Cons r rs)
  have "app_ok (process env r (a\<lparr>ui_needsRedraw := True\<rparr>))" using Cons.prems assms(1) by (intro process_ok) simp_all
  then show ?case
    using Cons.IH [of "process env r (a\<lparr>ui_needsRedraw := True\<rparr>)"] Cons.prems(2) by (simp add: Let_def split: option.split)
qed simp

lemma quickFireDialog_ok:
  assumes "env_ok env" "app_ok a" "list_all round_ok rs"
  shows "case quickFireDialog (process env) d rs a of Inl a' \<Rightarrow> app_ok a' | Inr (r, rest, a') \<Rightarrow> app_ok a' \<and> list_all round_ok rest"
proof -
  have "app_ok (open_qfd d a)" using assms(2) by (simp add: open_qfd_def drop_qfd_def Let_def)
  from qfd_wait_ok [OF assms(1) this assms(3)] show ?thesis
    by (cases "qfd_wait (process env) rs (open_qfd d a)") (auto simp: quickFireDialog_def drop_qfd_def)
qed

definition outcome_ok :: "app + round list \<times> app \<Rightarrow> bool" where
  "outcome_ok out = (case out of Inl a \<Rightarrow> app_ok a | Inr (rest, a) \<Rightarrow> app_ok a \<and> list_all round_ok rest)"

lemma ask_ok:
  assumes "env_ok env" "app_ok a" "list_all round_ok rs" "\<And>a. app_ok a \<Longrightarrow> app_ok (confirmed a)"
  shows "outcome_ok (ask env button d confirmed rs a)"
  using quickFireDialog_ok [OF assms(1-3), of d] assms(4)
  by (cases "quickFireDialog (process env) d rs a") (auto simp: ask_def outcome_ok_def unpress_button_def Let_def)

lemma farewell_ok: "app_ok a \<Longrightarrow> app_ok (farewell i t d a)"
  by (simp add: farewell_def Let_def addDialog_def)

lemma run_action_ok:
  assumes "env_ok env" "app_ok a" "list_all round_ok rs"
  shows "outcome_ok (run_action env now act rs a)"
proof (cases act)
  case UsbTimeout
  then show ?thesis
    using quickFireDialog_ok [OF assms, of "qfd_dialog SCR_W SCR_H ''USB Timeout''
      (''No USB device connected'' @ [CHR 0x0A] @ ''after 15 seconds. Please restart or re-plug.'') Notice IconError 0 False '''' '''' ''''"]
    by (auto simp: run_action_def outcome_ok_def split: sum.splits)
qed (simp_all only: run_action_def app_action.case; rule ask_ok [OF assms]; simp add: render_ok [OF farewell_ok assms(1)])+

lemma app_run_ok:
  assumes "env_ok env" shows "app_ok a \<Longrightarrow> list_all round_ok rs \<Longrightarrow> app_ok (app_run env rs a)"
proof (induction "length rs" arbitrary: rs a rule: less_induct)
  case less
  show ?case
  proof (cases rs)
    case (Cons r rs')
    let ?p = "process env r a"
    have p: "app_ok ?p" using less.prems Cons by (intro process_ok assms) simp_all
    show ?thesis
    proof (cases "app_stopped a = None \<and> app_pending ?p \<noteq> None")
      case True
      then obtain act where act: "app_pending ?p = Some act" by auto
      have o: "outcome_ok (run_action env (rd_mono r) act rs' (?p\<lparr>app_pending := None\<rparr>))"
        using p less.prems(2) Cons by (intro run_action_ok assms) simp_all
      have "app_ok (app_run env rest a')" if "run_action env (rd_mono r) act rs' (?p\<lparr>app_pending := None\<rparr>) = Inr (rest, a')" for rest a'
        using run_action_length [OF that] o that Cons by (intro less.hyps) (simp_all add: outcome_ok_def)
      then show ?thesis using True act o Cons
        by (auto simp: app_run.simps Let_def outcome_ok_def split: sum.split prod.split)
    next
      case False
      then show ?thesis using less.prems less.hyps [of rs' ?p] p Cons by (auto simp: app_run.simps Let_def)
    qed
  qed (use less.prems in \<open>simp add: app_run.simps\<close>)
qed

section \<open>The start\<close>

lemma ui_wf_adds:
  assumes "ui_wf m"
  shows "ui_wf (push_btn i x y w h l mode t m)" "ui_wf (addSlider i s m)" "ui_wf (addDial i q m)"
    "combo_wf c \<Longrightarrow> ui_wf (addComboBox i c m)" "edit_ok d \<Longrightarrow> ui_wf (addTextEdit i d m)" "spin_wf sp \<Longrightarrow> ui_wf (addSpinBox i sp m)"
proof -
  show "ui_wf (push_btn i x y w h l mode t m)" "ui_wf (addSlider i s m)" "ui_wf (addDial i q m)"
    using assms by (simp_all add: push_btn_def addButton_def addSlider_def addDial_def)
  show "combo_wf c \<Longrightarrow> ui_wf (addComboBox i c m)"
    using assms by (simp add: addComboBox_def ui_wf_def target_ok_def add_to_def)
  have e: "target_in t m \<Longrightarrow> target_in t (addTextEdit i d m)" for t
    by (cases t) (auto simp: addTextEdit_def add_to_def split: option.split)
  have s: "target_in t m \<Longrightarrow> target_in t (addSpinBox i sp m)" for t
    by (cases t) (auto simp: addSpinBox_def add_to_def split: option.split)
  show "edit_ok d \<Longrightarrow> ui_wf (addTextEdit i d m)"
    using assms e by (simp add: ui_wf_def target_ok_def) (simp add: addTextEdit_def add_to_def)
  show "spin_wf sp \<Longrightarrow> ui_wf (addSpinBox i sp m)"
    using assms s by (simp add: ui_wf_def target_ok_def) (simp add: addSpinBox_def add_to_def)
qed

lemma ui_wf_shows: "ui_wf m \<Longrightarrow> ui_wf (fold (\<lambda>i. show_button i v) is m)" "ui_wf m \<Longrightarrow> ui_wf (fold (\<lambda>i. ui_setVisible i v) is m)"
  by (rule fold_keeps_P [where P = ui_wf]; auto simp: show_button_def intro: keeps_wf [OF keeps_setVisible])+

lemma whole_of_int [simp]: "whole (of_int n)" "whole 0" "whole (numeral k)"
  by (simp_all add: whole_def)

lemma ui_wf_init: "ui_wf m \<Longrightarrow> ui_wf (initDemoUI (initSidebarBTNs (initSysUI m)))"
proof -
  have c: "combo_wf (combo_new 50 400 200 36 [a, b, c, d] 0 f 4)" for a b c d f by (simp add: combo_wf_def combo_new_def cb_count_def)
  have e: "edit_ok (text_edit_new x y 400 50 p n (font_size 2))" "edit_ok (text_edit_new x y 400 50 p n (font_size 3))"
    "edit_ok (text_edit_new x y 200 50 p n (font_size 2))" for x y p n
    by (simp_all add: edit_ok_def text_edit_new_def charW_def font_size_def)
  have s: "spin_wf (spin_new 50 320 250 60 SpinInt 0 200 5 60 True f)" "spin_wf (spin_new 350 320 200 60 SpinFloat 0 10 st 1 False f)" for f st
    unfolding spin_new_def by (rule sp_clamp_wf; simp)+
  assume "ui_wf m"
  then show ?thesis unfolding initDemoUI_def initSidebarBTNs_def initSysUI_def Let_def by (intro ui_wf_shows ui_wf_adds c e s)
qed

lemma app_new_ok: "length buf = 12807 \<Longrightarrow> app_ok (app_new sw sh buf)"
proof -
  assume l: "length buf = 12807"
  have "ui_wf (app_new sw sh buf)" unfolding app_new_def
    by (rule ui_wf_init) (simp add: ui_wf_def target_ok_def manager.defs app.defs manager_new_def keyboard_new_def rebuildLayout_def)
  then show ?thesis using l
    by (simp add: app_ok_def recorder_ok_def recorder_new_def gfx.defs recorder.defs del: replicate.simps)
qed

text \<open>C7: The application never reads or writes what is not there: whatever is touched on the panel or by the viewer, however its
dialogs are answered, whatever comes over USB as long as it fits the receive buffer and video tiles are of the grid's size,
no combo box is read outside its items, no text cut at a negative length, no tile written outside the frame and no callback
of the keyboard left to a widget that does not exist.\<close>
theorem app_never_faults:
  assumes "env_ok env" "list_all round_ok rs" "length buf = 12807"
  shows "\<not> ui_fault (app_run env rs (app_new sw sh buf))"
  using app_run_ok [OF assms(1) app_new_ok [OF assms(3)] assms(2)] by (simp add: app_ok_def ui_wf_def)

definition demo_env :: frame_env where
  "demo_env = \<lparr>fe_lib = \<lparr>fl_atan2f = (\<lambda>_ _. 0), fl_cosf = (\<lambda>_. 1), fl_sinf = (\<lambda>_. 0), fl_logo = replicate 480 0,
       fl_info = \<lparr>si_cores = [], si_load = 0, si_temp = 0, si_clock = 0, si_ramTotal = 1, si_ramUsed = 0, si_cmaTotal = 1, si_cmaUsed = 0\<rparr>\<rparr>,
     fe_fm = (\<lambda>_. \<lparr>fo_bitmap = [], fo_glyph = [], fo_first = 0, fo_last = 0, fo_yAdvance = 0\<rparr>), fe_pieces = (\<lambda>c. [c]), fe_dump = True\<rparr>"

definition demo_round :: round where
  "demo_round = \<lparr>rd_touches = [\<lparr>te_event = PRESS, te_point = \<lparr>tp_id = 0, tp_x = 1100, tp_y = 540, tp_size = 1, tp_active = True\<rparr>,
       te_dx = 0, te_dy = 0, te_duration_ms = 0\<rparr>], rd_link = [LinkUp],
     rd_usb = [UsbOpen (Some 3), UsbRecv ([0xF5, 15, 8] @ putU16LE 80 @ putU16LE 80 @ replicate 12800 7)], rd_now = 1000, rd_mono = 1000\<rparr>"

lemma demo_env_ok [simp]: "env_ok demo_env"
  by (simp add: env_ok_def demo_env_def)

lemma demo_round_ok: "round_ok demo_round"
proof -
  have "length (replicate 12800 (7 :: u8)) = 12800" by simp
  then have "msg_ok ([0xF5, 15, 8] @ putU16LE 80 @ putU16LE 80 @ r)" if "length r = 12800" for r
    using that by (simp add: msg_ok_def putU16LE_def getU16LE_def)
  then show ?thesis by (simp add: round_ok_def demo_round_def del: append_Cons)
qed

lemma app_never_faults_witness:
  "\<not> ui_fault (app_run demo_env [demo_round, demo_round] (app_new 1280 720 (replicate 12807 0)))"
  using app_never_faults [OF demo_env_ok, of "[demo_round, demo_round]" "replicate 12807 0" 1280 720] demo_round_ok by simp

section \<open>The viewer's frame\<close>

lemma ed_draw_again:
  assumes "\<not> ed_focused d" "ed_draw d = Some (cs, d')"
  shows "\<exists>d''. ed_draw d' = Some (cs, d'')" "\<not> ed_focused d'"
  using assms by (auto simp: ed_draw_def ed_display_def Let_def split: if_splits)

lemma draw_edits_again:
  assumes "list_all (\<lambda>(i, d). \<not> ed_focused d) es" "draw_edits es = Some (cs, es')"
  shows "\<exists>es''. draw_edits es' = Some (cs, es'')"
proof -
  have "\<exists>ds'. those (map (\<lambda>(i, d). ed_draw d) (zip (map fst es) (map snd ds))) = Some ds' \<and> map fst ds' = map fst ds"
    if "those (map (\<lambda>(i, d). ed_draw d) es) = Some ds" for ds
    using assms(1) that
  proof (induction es arbitrary: ds)
    case (Cons e es)
    obtain i d where e: "e = (i, d)" by fastforce
    obtain cs d' dt where d: "ed_draw d = Some (cs, d')" "those (map (\<lambda>(i, d). ed_draw d) es) = Some dt" "ds = (cs, d') # dt"
      using Cons.prems(2) e by (auto split: option.splits)
    obtain d'' where "ed_draw d' = Some (cs, d'')" using ed_draw_again(1) [OF _ d(1)] Cons.prems(1) e by auto
    moreover obtain dt' where "those (map (\<lambda>(i, d). ed_draw d) (zip (map fst es) (map snd dt))) = Some dt'" "map fst dt' = map fst dt"
      using Cons.IH [OF _ d(2)] Cons.prems(1) by auto
    ultimately show ?case using d(3) e by (intro exI [of _ "(cs, d'') # dt'"]) simp
  qed simp
  then show ?thesis using assms(2) by (fastforce simp: draw_edits_def)
qed

lemma ui_draw_again:
  assumes "list_all (\<lambda>(i, d). \<not> ed_focused d) (ui_edits m)" "ui_draw cosf sinf m = Some (ws, m')"
  shows "\<exists>es. m' = m\<lparr>ui_needsRedraw := False, ui_edits := es\<rparr>"
    "\<exists>m''. ui_draw cosf sinf m' = Some (ws, m'')"
proof -
  obtain combos edits es where c: "those (map (\<lambda>(i, c). cb_draw c) (ui_combos m)) = Some combos"
    and e: "draw_edits (ui_edits m) = Some (edits, es)" and m': "m' = m\<lparr>ui_needsRedraw := False, ui_edits := es\<rparr>"
    and ws: "ws = concat (map (\<lambda>(i, w). bt_draw w) (ui_buttons m)) @ concat (map (\<lambda>(i, w). sl_draw w) (ui_sliders m)) @
        concat (map (\<lambda>(i, w). dl_draw cosf sinf w) (ui_dials m)) @ concat combos @ edits @
        concat (map (\<lambda>(i, w). sp_draw w) (ui_spins m)) @ kb_draw (ui_keyboard m) @ concat (map (\<lambda>(i, w). dg_draw w) (ui_dialogs m))"
    using assms(2) by (auto simp: ui_draw_def split: bind_splits)
  then show "\<exists>es. m' = m\<lparr>ui_needsRedraw := False, ui_edits := es\<rparr>" by blast
  obtain es'' where "draw_edits es = Some (edits, es'')" using draw_edits_again [OF assms(1) e] by blast
  then show "\<exists>m''. ui_draw cosf sinf m' = Some (ws, m'')" by (simp add: ui_draw_def m' ws c)
qed

lemma ui_draw_state: "ui_draw cosf sinf m = Some (ws, m') \<Longrightarrow> \<exists>es. m' = m\<lparr>ui_needsRedraw := False, ui_edits := es\<rparr>"
  by (auto simp: ui_draw_def split: bind_splits)

lemma emitted_all: "recorder_ok r \<Longrightarrow> emitted r = draws"
proof (rule ext)
  fix c assume "recorder_ok r"
  then show "emitted r c = draws c" by (cases c) (simp_all add: emitted_def admitted_def DRRecords_def recorder_ok_def)
qed

lemma any_clears:
  assumes "rp_any (planFrame f a)" "\<not> ui_isToggleOn ''ssui'' a"
  shows "rp_clear (planFrame f a)" "\<not> rp_sysInfo (planFrame f a)"
  using assms by (auto simp: planFrame_def Let_def)

lemma planFrame_force: "planFrame f (a\<lparr>RRFF := b\<rparr>) = planFrame f a"
  by (simp add: planFrame_def ui_isToggleOn_def)

text \<open>The same plan drawn a second time, as for the recorder.\<close>

lemma drawn_again:
  assumes "app_ok a" "list_all (\<lambda>(i, d). \<not> ed_focused d) (ui_edits a)" "drawFrame lib plan a = (cs, a1)"
  shows "\<exists>a2. drawFrame lib plan (a1\<lparr>app_panel := p\<rparr>) = (cs, a2)"
proof -
  obtain ws m where d: "ui_draw (fl_cosf lib) (fl_sinf lib) a = Some (ws, m)"
    using ui_draw_keeps [of a "fl_cosf lib" "fl_sinf lib"] assms(1) by (auto simp: app_ok_def)
  obtain es where m: "m = a\<lparr>ui_needsRedraw := False, ui_edits := es\<rparr>" using ui_draw_again(1) [OF assms(2) d] by blast
  obtain m2 where d2: "ui_draw (fl_cosf lib) (fl_sinf lib) m = Some (ws, m2)" using ui_draw_again(2) [OF assms(2) d] by blast
  define a0 where "a0 = (if rp_widgets plan then m else a)"
  have "\<exists>m3. ui_draw (fl_cosf lib) (fl_sinf lib) (a0\<lparr>app_panel := p\<rparr>) = Some (ws, m3)"
    using d d2 by (simp add: a0_def ui_draw_def) (auto split: bind_splits)
  then obtain m3 where d3: "ui_draw (fl_cosf lib) (fl_sinf lib) (a0\<lparr>app_panel := p\<rparr>) = Some (ws, m3)" by blast
  have e: "(map Own (user_calls lib plan a) @ map Base (if rp_sysInfo plan then renderInfo (fl_info lib) else []) @
      map Own (top_calls plan ws a0), a0) = (cs, a1)"
    using assms(3) unfolding drawFrame_eq [OF d] a0_def .
  have u: "user_calls lib plan (a0\<lparr>app_panel := p\<rparr>) = user_calls lib plan a"
    by (simp add: user_calls_def renderDataInInfo_def renderAbout_def a0_def m)
  obtain es3 where m3: "m3 = a0\<lparr>app_panel := p, ui_needsRedraw := False, ui_edits := es3\<rparr>" using ui_draw_state [OF d3] by auto
  have t: "top_calls plan ws (if rp_widgets plan then m3 else a0\<lparr>app_panel := p\<rparr>) = top_calls plan ws a0"
    by (simp add: top_calls_def m3)
  have a1: "a1 = a0" and cs: "cs = map Own (user_calls lib plan a) @ map Base (if rp_sysInfo plan then renderInfo (fl_info lib) else []) @
      map Own (top_calls plan ws a0)"
    using e conjunct1 [OF e [unfolded prod.inject]] by (simp, metis)
  show ?thesis unfolding a1 drawFrame_eq [OF d3] u t cs by blast
qed

lemma drawFrame_own:
  assumes "app_ok a" "\<not> rp_sysInfo plan" "drawFrame lib plan a = (cs, a1)"
  shows "concat (map (on_recorder pieces) cs) = map on_panel cs"
proof -
  obtain ws m where d: "ui_draw (fl_cosf lib) (fl_sinf lib) a = Some (ws, m)"
    using ui_draw_keeps [of a "fl_cosf lib" "fl_sinf lib"] assms(1) by (auto simp: app_ok_def)
  have o: "concat (map (on_recorder pieces) (map Own xs)) = map on_panel (map Own xs)" for xs by (induction xs) simp_all
  have "cs = map Own (user_calls lib plan a) @ map Base [] @ map Own (top_calls plan ws (if rp_widgets plan then m else a))"
    using assms(2,3) unfolding drawFrame_eq [OF d] by (elim Pair_inject) (simp only: if_False)
  then show ?thesis using o by simp
qed

lemma drawFrame_panel:
  assumes "app_ok a" "drawFrame lib plan a = (cs, a1)" shows "app_panel a1 = app_panel a"
proof -
  obtain ws m where d: "ui_draw (fl_cosf lib) (fl_sinf lib) a = Some (ws, m)"
    using ui_draw_keeps [of a "fl_cosf lib" "fl_sinf lib"] assms(1) by (auto simp: app_ok_def)
  obtain es where "m = a\<lparr>ui_needsRedraw := False, ui_edits := es\<rparr>" using ui_draw_state [OF d] by blast
  then show ?thesis using assms(2) unfolding drawFrame_eq [OF d] by auto
qed


text \<open>An application without widgets that has something to say.\<close>

definition quiet_app :: app where
  "quiet_app = manager.extend (manager_new 0 400 1280 320 font_medium)
     (app.fields 1280 720 False True False False True False False 0 0 None (replicate 8 0) False False
        (replicate (1280 * 720) 0) (replicate (1280 * 720) 0) (replicate 12807 0) True False 0 [] ''ok''
        (recorder_new 1280 720) dr_boot [] [] None)"

abbreviation (input) quiet_frame :: "draw_call list" where
  "quiet_frame \<equiv> [FillScreen 0, SetCursor 10 10, SetTextColor 0xFFFFFFFF GFX_TRANSPARENT, SetTextSize 1 1, WriteText [111, 107, 0]]"

lemma quiet_fields [simp]:
  "RRFF quiet_app = False" "RRFDTS quiet_app = False" "RRFSYSMSG quiet_app" "RRFSYSINFO quiet_app = False" "app_hide_ui quiet_app"
  "app_show_about quiet_app = False" "app_show_data_in quiet_app = False" "ui_buttons quiet_app = []" "ui_edits quiet_app = []"
  "app_statusMsg quiet_app = ''ok''" "app_dr quiet_app = recorder_new 1280 720" "app_link quiet_app = dr_boot"
  by (simp_all add: quiet_app_def manager.defs app.defs manager_new_def)

lemma quiet_ok: "app_ok quiet_app"
  by (simp add: app_ok_def app_rest_def recorder_ok_def recorder_new_def gfx.defs recorder.defs ui_wf_def target_ok_def)
    (simp add: quiet_app_def manager.defs app.defs manager_new_def keyboard_new_def rebuildLayout_def)

lemma quiet_toggle: "\<not> ui_isToggleOn ''ssui'' quiet_app"
  by (simp add: ui_isToggleOn_def)

lemma quiet_any: "rp_any (planFrame False quiet_app)" "\<not> rp_widgets (planFrame False quiet_app)"
  "rp_status (planFrame False quiet_app)" "\<not> rp_dts (planFrame False quiet_app)" "\<not> rp_dataIn (planFrame False quiet_app)"
  "\<not> rp_about (planFrame False quiet_app)" "rp_clear (planFrame False quiet_app)" "\<not> rp_sysInfo (planFrame False quiet_app)"
  by (simp_all add: planFrame_def Let_def quiet_toggle)

lemma quiet_render:
  "app_panel (render demo_env 0 False quiet_app) = quiet_frame"
  "app_dr (render demo_env 0 False quiet_app) =
     record_calls (fe_fm demo_env) quiet_frame (DRFlush (recorder_new 1280 720))"
proof -
  have att: "drRemoteAttached (fe_dump demo_env) dr_boot" by (simp add: drRemoteAttached_def demo_env_def)
  note d = drawFrame_def render_def remote_pass_def planFrame_force quiet_any att cstring_def
  show "app_panel (render demo_env 0 False quiet_app) = quiet_frame"
    "app_dr (render demo_env 0 False quiet_app) = record_calls (fe_fm demo_env) quiet_frame (DRFlush (recorder_new 1280 720))"
    by (simp_all add: d Let_def)
qed



section \<open>Where the code misses its purpose\<close>

text \<open>The video frame is recorded: the mask admits everything.\<close>

lemma video_is_recorded: "recorder_ok r \<Longrightarrow> emitted r (DrawRGB565Bitmap x y px 1280 720)"
  by (simp add: emitted_all extent_def)

text \<open>Switching a view off shows it again.\<close>

lemma toggle_off_reopens_view:
  "app_cb (ButtonFired ''ssui'' BS_TOGGLE_OFF) a = setView ''system'' a" "app_cb (ButtonFired ''sdui'' BS_TOGGLE_OFF) a = setView ''demo'' a"
  by (simp_all add: app_cb_def)

text \<open>The process never ends its loop with a restart pending.\<close>

lemma restart_never_reexecs: "main_loop runs \<noteq> Some True"
  by (induction runs) simp_all

end
