(* ===== verification/Spec2Isabelle.thy ===== *)
theory Spec2Isabelle
  imports NbRoundTrip Broker DrLink DrawMirror GfxLaws SouthbridgeLaws OtaLaws TouchLaws AppRun
begin

text \<open>
  A verification development for MFoES02w, the software of a touch-screen instrument: a Linux board that draws the user
  interface, a microcontroller (the northbridge) with clock, panel and encoder, an audio link to a second one (the
  southbridge), a USB link to a host computer, and the daemons and libraries in between. All paths below are under src/.

  \<^bold>\<open>The program and its parts.\<close> Two SPI links, three daemons' protocols and one application.
  \<^item> \<^emph>\<open>Northbridge firmware\<close> (Firmware/northbridge/src). An SPI slave (dspi.cpp) exchanges 64-byte frames with the board, in an
    interrupt and a task; commands are dispatched (dspi_cmd.cpp) to handlers (main.cpp) over the drivers of the I2C bus
    (i2c_bus.cpp), the clock (ds3231.cpp), the port expanders (pcf8575.cpp) and the encoder (encoder.cpp).
  \<^item> \<^emph>\<open>Host end of that link\<close> (libs/hwinterface/northbridge.cpp), used by the application (src/northbridge_link.cpp).
  \<^item> \<^emph>\<open>Southbridge audio\<close> (libs/hwinterface/southbridge.cpp) over a ring of frames (ring_buffer.h).
  \<^item> \<^emph>\<open>USB\<close>: the daemon services/usbd.cpp multiplexes framed channels between host and local applications through byte
    rings; libs/usbproto holds the frame codec, record reassembly, session and broker of the host's side;
    services/otad.cpp installs updates that arrive on a channel.
  \<^item> \<^emph>\<open>Drawing\<close> (libs/libgfx): primitives and an off-screen canvas (GFX.cpp), a recorder with the interface of a display and the
    decoder of its streams (DrawReplay.cpp), published to the host by src/drawreplay_link.cpp.
  \<^item> \<^emph>\<open>Application\<close>: touch controller (libs/hwinterface/gt911.cpp), widgets and their manager (libs/uisys), and the frame loop
    (src/app.cpp, ui.cpp, usb_handling.cpp, main.cpp) that draws on the panel and on the recorder.

  \<^bold>\<open>Theories and sources.\<close> Each component has a theory of definitions, and where its lemmas are many a second one; state is a
  record with the fields of the struct or class, an operation a definition with the name of the function.
  \<^item> \<open>Prelude\<close>: words, little-endian codecs, lists and options shared by all. \<open>Crc16\<close>: the three copies of CRC-16 (protocol.h,
    dspi.cpp, northbridge.cpp) and what they detect. \<open>NbFrame\<close>, \<open>NbWire\<close>: frames and payload structures of the SPI link
    (dspi.cpp, northbridge.cpp, nb_protocol.h).
  \<^item> \<open>DspiSlave\<close>, \<open>I2cBus\<close>, \<open>Ds3231\<close>, \<open>Pcf8575\<close>, \<open>Encoder\<close>, \<open>DspiCmd\<close>: the firmware. \<open>NbLink\<close>: the host's end with
    northbridge_link.cpp. \<open>NbRoundTrip\<close>: both ends together.
  \<^item> \<open>StreamCut\<close>, \<open>Mubd\<close>, \<open>Assembler\<close>, \<open>Session\<close>, \<open>Broker\<close>: libs/usbproto (usbproto.cpp, usbproto_session.cpp, usbproto_file.cpp,
    usbproto_broker.cpp, uiinput.h). \<open>Ring\<close>, \<open>Usbd\<close>, \<open>UsbdLaws\<close>: services/usbd.cpp and ring_buffer.h. \<open>Md5\<close>, \<open>Md5Laws\<close>, \<open>Ota\<close>,
    \<open>OtaLaws\<close>: services/otad.cpp with libs/hwinterface/usbd_client.cpp. \<open>Southbridge\<close>, \<open>SouthbridgeLaws\<close>: southbridge.cpp.
  \<^item> \<open>GfxText\<close>, \<open>Canvas\<close>, \<open>CanvasLaws\<close>, \<open>GfxDraw\<close>, \<open>GfxLaws\<close>: GFX.cpp. \<open>DrawReplay\<close> (recorder), \<open>DrawRender\<close> (decoder), \<open>DrawWire\<close>
    (the wire format on its own), \<open>DrawRoundTrip\<close>, \<open>DrawMirror\<close>: DrawReplay.cpp. \<open>DrLink\<close>: drawreplay_link.cpp.
  \<^item> \<open>Touch\<close>, \<open>TouchLaws\<close>: gt911.cpp. \<open>Ui\<close> (fonts, buttons), \<open>UiPanels\<close> (combo boxes, keyboard, dialogs), \<open>UiValues\<close> (sliders,
    dials, text edits, spin boxes), \<open>UiManager\<close>, \<open>UiLaws\<close>, \<open>UiMgrLaws\<close>: libs/uisys. \<open>App\<close> (state, views, USB thread),
    \<open>AppFrame\<close> (frame, turn and loops), \<open>AppLaws\<close> (tiles, fields no drawing touches), \<open>AppRun\<close> (the whole loop): src/src.

  \<^bold>\<open>What the lemmas show.\<close>
  \<^item> \<^emph>\<open>Links\<close>: codecs are inverse to each other, damaged frames are refused, frames survive any way a pipe cuts its bytes, and a
    request from the application reaches the bound handler and its reply comes back.
  \<^item> \<^emph>\<open>State machines\<close>: invariants of every reachable state under any interleaving of interrupts, tasks, threads and callers
    (slave, bus slots, encoder, rings, daemon, publisher, audio), by induction over the steps.
  \<^item> \<^emph>\<open>Drawing\<close>: a recording renders to the calls recorded, the recorder's text state follows the target's, pixels read back,
    and which loops end. \<^emph>\<open>Updates\<close>: an honest upload is installed, and only an archive with the announced digest is.
  \<^item> \<^emph>\<open>Application\<close>: reports of touches and widgets pair up, values and texts stay in range, a blocking dialog takes its own
    events only, no turn of the loop reads a widget that is not there, a viewer's frame is the panel's, and what tiles of
    video write.
  \<^item> Interfaces are locales (queues, codecs, pixel buffers, byte streams, clients of the manager), interpreted on the
    definitions of the components that provide them; step relations and invariants use their laws.
  \<^item> Where the code fails its purpose a theorem says so at a concrete input: a staging buffer rewritten under the DMA, bytes
    parsed twice after a resynchronisation, a rectangle whose fill never ends, a canvas that writes outside its buffer after a
    quarter turn, a tile of video that does, an application's end of stream that is never noticed.

  \<^bold>\<open>Concurrency and environment.\<close> A thread's turn between two points where others can observe it is one step, and theorems
  quantify over sequences of steps. Answers of the operating system, of FreeRTOS and of devices are arguments (what \<^verbatim>\<open>read\<close>
  returned, what the clock said, how a transfer ended), so every answer is covered. The FreeRTOS queue and a register-keeping
  I2C device are the only promises assumed of foreign code; each is a predicate with an instance.

  \<^bold>\<open>Bounds and termination.\<close> Machine integers have their width; \<^verbatim>\<open>float\<close> in the widgets is a rational rounded to 24 bits. No fuel is
  used: loops over data are structural or have a measure (the bytes left, the records left, the turns of input left); loops that
  may not end are \<^verbatim>\<open>partial_function (option)\<close> (the row loops and the line of GFX.cpp, draining the southbridge, reading
  and writing the application's socket), with theorems on when they return. Sequences of input are finite lists, and what waits
  for input that does not come is a value of its own (a dialog still open, a request still armed).

  \<^bold>\<open>Not modelled.\<close> Display back-ends, wide and anti-aliased strokes, arcs and textured triangles of GFX.cpp (system calls, and
  floating point over all of its range); the USB transport (libusb), FunctionFS set-up and thread creation; GPIO, PWM and other
  sysfs access; the self test, buzzer and lights; the host's SDL viewer and the Python tools, which are front ends of the
  modelled libraries. Plain setters of colours, fonts and callbacks are left out.
\<close>

end
